(* ===== verification/PyStr.thy ===== *)
theory PyStr
  imports Complex_Main Prelude
begin

section \<open>Python strings and JSON values\<close>

text \<open>
  The string operations and the dynamically typed JSON values the sources use.

  A Python \<open>str\<close> is a \<open>string\<close>, one \<open>char\<close> per code point: the model covers the code points
  below 256. \<open>is_space\<close>, \<open>lower\<close> and the line boundaries of \<open>splitlines\<close> are Python's on that
  range (the control separators 28--31, NEL and the no-break space count as white space; the
  Latin-1 capitals have lower-case partners).

  \<open>json\<close> is what \<open>json.load\<close> builds. A float carries its value and its \<open>repr\<close>; \<open>py_eq\<close> is
  Python's \<open>==\<close> on these values (\<open>bool\<close>, \<open>int\<close> and \<open>float\<close> compare by value), \<open>truthy\<close> is
  \<open>bool(x)\<close>, \<open>py_str\<close> is \<open>str(x)\<close>.
\<close>

subsection \<open>Characters\<close>

abbreviation code :: "char \<Rightarrow> nat" where
  "code c \<equiv> of_char c"

definition is_space :: "char \<Rightarrow> bool" where
  "is_space c = (let n = code c in 9 \<le> n \<and> n \<le> 13 \<or> 28 \<le> n \<and> n \<le> 32 \<or> n = 133 \<or> n = 160)"

definition lower_char :: "char \<Rightarrow> char" where
  "lower_char c =
     (let n = code c in
      if 65 \<le> n \<and> n \<le> 90 \<or> 192 \<le> n \<and> n \<le> 222 \<and> n \<noteq> 215 then char_of (n + 32) else c)"

definition lower :: "string \<Rightarrow> string" where
  "lower s = map lower_char s"

lemma length_lower [simp]: "length (lower s) = length s"
  by (simp add: lower_def)

lemma lower_Nil_iff [simp]: "lower s = [] \<longleftrightarrow> s = []"
  by (simp add: lower_def)

subsection \<open>Stripping\<close>

definition lstrip :: "string \<Rightarrow> string" where
  "lstrip s = dropWhile is_space s"

definition rstrip :: "string \<Rightarrow> string" where
  "rstrip s = rev (dropWhile is_space (rev s))"

definition strip :: "string \<Rightarrow> string" where
  "strip s = rstrip (lstrip s)"

definition stripped :: "string \<Rightarrow> bool" where
  "stripped s = (s = [] \<or> \<not> is_space (hd s) \<and> \<not> is_space (last s))"

lemma lstrip_id: "s = [] \<or> \<not> is_space (hd s) \<Longrightarrow> lstrip s = s"
  by (cases s) (auto simp: lstrip_def)

lemma rstrip_id: "s = [] \<or> \<not> is_space (last s) \<Longrightarrow> rstrip s = s"
  by (cases s rule: rev_cases) (auto simp: rstrip_def)

lemma strip_id: "stripped s \<Longrightarrow> strip s = s"
  by (auto simp: strip_def stripped_def lstrip_id rstrip_id)

lemma hd_dropWhile_not: "dropWhile P xs \<noteq> [] \<Longrightarrow> \<not> P (hd (dropWhile P xs))"
  by (rule hd_dropWhile)

lemma rstrip_prefix: "\<exists>w. s = rstrip s @ w \<and> (\<forall>c \<in> set w. is_space c)"
proof -
  have "s = rev (takeWhile is_space (rev s) @ dropWhile is_space (rev s))" by simp
  then have "s = rstrip s @ rev (takeWhile is_space (rev s))"
    unfolding rstrip_def by (metis rev_append)
  moreover have "\<forall>c \<in> set (rev (takeWhile is_space (rev s))). is_space c"
    by (auto dest: set_takeWhileD)
  ultimately show ?thesis by blast
qed

lemma rstrip_last: "rstrip s \<noteq> [] \<Longrightarrow> \<not> is_space (last (rstrip s))"
  unfolding rstrip_def by (metis hd_dropWhile hd_rev rev_is_Nil_conv rev_rev_ident)

lemma lstrip_hd: "lstrip s \<noteq> [] \<Longrightarrow> \<not> is_space (hd (lstrip s))"
  by (simp add: lstrip_def hd_dropWhile)

lemma hd_rstrip: "rstrip s \<noteq> [] \<Longrightarrow> hd (rstrip s) = hd s"
  using rstrip_prefix[of s] by (metis hd_append2)

lemma stripped_strip [simp, intro]: "stripped (strip s)"
  unfolding stripped_def strip_def
  by (metis hd_rstrip lstrip_hd rstrip_last rstrip_def dropWhile.simps(1) rev.simps(1))

lemma strip_strip [simp]: "strip (strip s) = strip s"
  by (rule strip_id) simp

lemma rstrip_rstrip [simp]: "rstrip (rstrip s) = rstrip s"
  by (metis rstrip_id rstrip_last)

lemma strip_Nil [simp]: "strip [] = []" "rstrip [] = []" "lstrip [] = []"
  by (simp_all add: strip_def rstrip_def lstrip_def)

lemma strip_append_space:
  assumes "\<forall>c \<in> set w. is_space c" shows "strip (w @ s) = strip s"
  using assms by (simp add: strip_def lstrip_def)

lemma rstrip_eq_Nil: "rstrip s = [] \<longleftrightarrow> (\<forall>c \<in> set s. is_space c)"
  by (auto simp: rstrip_def dropWhile_eq_Nil_conv)

lemma strip_eq_Nil: "strip s = [] \<longleftrightarrow> (\<forall>c \<in> set s. is_space c)"
proof -
  have "(\<forall>c \<in> set (dropWhile is_space s). is_space c) \<longleftrightarrow> (\<forall>c \<in> set s. is_space c)"
    by (metis dropWhile_eq_Nil_conv hd_dropWhile hd_in_set list.set(1) empty_iff)
  then show ?thesis by (simp add: strip_def rstrip_eq_Nil lstrip_def)
qed

subsection \<open>Prefixes, suffixes, partition, join\<close>

definition starts_with :: "string \<Rightarrow> string \<Rightarrow> bool" where
  "starts_with p s = (take (length p) s = p)"

definition ends_with :: "string \<Rightarrow> string \<Rightarrow> bool" where
  "ends_with p s = (length p \<le> length s \<and> drop (length s - length p) s = p)"

definition remove_suffix :: "string \<Rightarrow> string \<Rightarrow> string" where
  "remove_suffix p s = (if p \<noteq> [] \<and> ends_with p s then take (length s - length p) s else s)"

text \<open>\<open>contains p s\<close> is \<open>p in s\<close>.\<close>

fun contains :: "string \<Rightarrow> string \<Rightarrow> bool" where
  "contains p [] = (p = [])"
| "contains p (c # s) = (starts_with p (c # s) \<or> contains p s)"

text \<open>\<open>partition p s\<close> is \<open>s.partition(p)\<close> for a non-empty \<open>p\<close>: the text before the first
  occurrence, whether there is one, and the text after it.\<close>

fun partition_str :: "string \<Rightarrow> string \<Rightarrow> string \<times> bool \<times> string" where
  "partition_str p [] = ([], False, [])"
| "partition_str p (c # s) =
     (if starts_with p (c # s) then ([], True, drop (length p) (c # s))
      else (let (a, f, b) = partition_str p s in (c # a, f, b)))"

fun join :: "string \<Rightarrow> string list \<Rightarrow> string" where
  "join sep [] = []"
| "join sep [x] = x"
| "join sep (x # y # xs) = x @ sep @ join sep (y # xs)"

lemma starts_with_append [simp]: "starts_with p (p @ s)"
  by (simp add: starts_with_def)

lemma starts_with_iff: "starts_with p s \<longleftrightarrow> (\<exists>t. s = p @ t)"
  unfolding starts_with_def by (metis append_take_drop_id append_eq_conv_conj)

lemma starts_with_refl [simp]: "starts_with s s"
  by (simp add: starts_with_def)

lemma ends_with_append [simp]: "ends_with p (s @ p)"
  by (simp add: ends_with_def)

lemma ends_with_iff: "ends_with p s \<longleftrightarrow> (\<exists>t. s = t @ p)"
proof
  assume "ends_with p s"
  then show "\<exists>t. s = t @ p" unfolding ends_with_def by (metis append_take_drop_id)
qed auto

subsection \<open>Lines\<close>

text \<open>
  \<open>str.splitlines\<close>: a line ends at CR, LF, CR LF, VT, FF, the separators 28--30, or NEL; a
  final line without a terminator is a line, an empty rest is not.
\<close>

definition is_linebreak :: "char \<Rightarrow> bool" where
  "is_linebreak c = (let n = code c in 10 \<le> n \<and> n \<le> 13 \<or> 28 \<le> n \<and> n \<le> 30 \<or> n = 133)"

fun splitlines_from :: "string \<Rightarrow> string \<Rightarrow> string list" where
  "splitlines_from acc [] = (if acc = [] then [] else [rev acc])"
| "splitlines_from acc (c # s) =
     (if is_linebreak c
      then rev acc # splitlines_from []
             (if code c = 13 \<and> s \<noteq> [] \<and> code (hd s) = 10 then tl s else s)
      else splitlines_from (c # acc) s)"

definition splitlines :: "string \<Rightarrow> string list" where
  "splitlines s = splitlines_from [] s"

lemma splitlines_from_plain:
  "(\<forall>c \<in> set l. \<not> is_linebreak c) \<Longrightarrow> splitlines_from acc (l @ s) = splitlines_from (rev l @ acc) s"
  by (induction l arbitrary: acc) auto

lemma splitlines_line:
  "(\<forall>c \<in> set l. \<not> is_linebreak c) \<Longrightarrow>
   splitlines (l @ CHR 0x0A # s) = l # splitlines s"
  using splitlines_from_plain[of l "[]" "CHR 0x0A # s"]
  by (simp add: splitlines_def is_linebreak_def)

lemma splitlines_from_nobreak:
  "l \<in> set (splitlines_from acc s) \<Longrightarrow> (\<forall>c \<in> set acc. \<not> is_linebreak c) \<Longrightarrow>
   (\<forall>c \<in> set l. \<not> is_linebreak c)"
proof (induction acc s rule: splitlines_from.induct)
  case (1 acc)
  then show ?case by (auto split: if_splits)
next
  case (2 acc c s)
  let ?rest = "if code c = (13::nat) \<and> s \<noteq> [] \<and> code (hd s) = (10::nat) then tl s else s"
  show ?case
  proof (cases "is_linebreak c")
    case True
    with "2.prems"(1) have "l = rev acc \<or> l \<in> set (splitlines_from [] ?rest)"
      by (simp only: splitlines_from.simps if_True list.set) blast
    then show ?thesis
    proof
      assume "l = rev acc"
      with "2.prems"(2) show ?thesis by simp
    next
      assume "l \<in> set (splitlines_from [] ?rest)"
      then show ?thesis by (rule "2.IH"(1)[OF True]) simp
    qed
  next
    case False
    with "2.prems"(1) have "l \<in> set (splitlines_from (c # acc) s)" by simp
    then show ?thesis using False "2.prems"(2) by (intro "2.IH"(2)) auto
  qed
qed

lemma splitlines_nobreak: "l \<in> set (splitlines s) \<Longrightarrow> \<forall>c \<in> set l. \<not> is_linebreak c"
  unfolding splitlines_def by (rule splitlines_from_nobreak[of l "[]" s]) auto

subsection \<open>JSON values\<close>

datatype json =
    JNull
  | JBool bool
  | JInt int
  | JFloat rat string \<comment> \<open>a float: its value and its \<open>repr\<close>\<close>
  | JStr string
  | JList "json list"
  | JObj "(string \<times> json) list"

text \<open>Decimal and hexadecimal digits.\<close>

definition digit_char :: "nat \<Rightarrow> char" where
  "digit_char d = char_of (if d < 10 then 48 + d else 87 + d)"

fun nat_digits :: "nat \<Rightarrow> nat \<Rightarrow> string" where
  "nat_digits b n =
     (if b < 2 \<or> n < b then [digit_char n] else nat_digits b (n div b) @ [digit_char (n mod b)])"

declare nat_digits.simps [simp del]

definition dec_str :: "int \<Rightarrow> string" where
  "dec_str i = (if i < 0 then CHR ''-'' # nat_digits 10 (nat (- i)) else nat_digits 10 (nat i))"

text \<open>\<open>repr\<close> of a string: quotes, escapes, and \<open>\x..\<close> for what is not printable.\<close>

definition repr_char :: "char \<Rightarrow> char \<Rightarrow> string" where
  "repr_char q c =
     (let n = code c in
      if c = q \<or> n = 92 then [CHR 0x5C, c]
      else if n = 9 then [CHR 0x5C, CHR ''t'']
      else if n = 10 then [CHR 0x5C, CHR ''n'']
      else if n = 13 then [CHR 0x5C, CHR ''r'']
      else if n < 32 \<or> 127 \<le> n \<and> n \<le> 160 \<or> n = 173
      then [CHR 0x5C, CHR ''x'', digit_char (n div 16), digit_char (n mod 16)]
      else [c])"

definition repr_str :: "string \<Rightarrow> string" where
  "repr_str s =
     (let q = (if CHR 0x27 \<in> set s \<and> CHR 0x22 \<notin> set s then CHR 0x22 else CHR 0x27)
      in q # concat (map (repr_char q) s) @ [q])"

fun py_repr :: "json \<Rightarrow> string" where
  "py_repr JNull = ''None''"
| "py_repr (JBool b) = (if b then ''True'' else ''False'')"
| "py_repr (JInt i) = dec_str i"
| "py_repr (JFloat q r) = r"
| "py_repr (JStr s) = repr_str s"
| "py_repr (JList xs) = ''['' @ join '', '' (map py_repr xs) @ '']''"
| "py_repr (JObj kvs) = ''{'' @ join '', '' (map (\<lambda>kv. repr_str (fst kv) @ '': '' @ py_repr (snd kv)) kvs) @ ''}''"

fun py_str :: "json \<Rightarrow> string" where
  "py_str (JStr s) = s"
| "py_str j = py_repr j"

fun truthy :: "json \<Rightarrow> bool" where
  "truthy JNull = False"
| "truthy (JBool b) = b"
| "truthy (JInt i) = (i \<noteq> 0)"
| "truthy (JFloat q r) = (q \<noteq> 0)"
| "truthy (JStr s) = (s \<noteq> [])"
| "truthy (JList xs) = (xs \<noteq> [])"
| "truthy (JObj kvs) = (kvs \<noteq> [])"

text \<open>The numeric value of \<open>bool\<close>, \<open>int\<close> and \<open>float\<close>, and \<open>==\<close> against an integer and a string.\<close>

fun num_value :: "json \<Rightarrow> rat option" where
  "num_value (JBool b) = Some (if b then 1 else 0)"
| "num_value (JInt i) = Some (of_int i)"
| "num_value (JFloat q r) = Some q"
| "num_value _ = None"

definition eq_int :: "json \<Rightarrow> int \<Rightarrow> bool" where
  "eq_int j i = (num_value j = Some (of_int i))"

definition eq_str :: "json \<Rightarrow> string \<Rightarrow> bool" where
  "eq_str j s = (j = JStr s)"

text \<open>\<open>d.get(k)\<close> on a JSON object: an absent key reads as None.\<close>

definition jget :: "(string \<times> json) list \<Rightarrow> string \<Rightarrow> json" where
  "jget d k = (case map_of d k of None \<Rightarrow> JNull | Some j \<Rightarrow> j)"

fun unhashable :: "json \<Rightarrow> bool" where
  "unhashable (JList _) = True"
| "unhashable (JObj _) = True"
| "unhashable _ = False"

lemma truthy_JNull_iff [simp]: "truthy (jget [] k) = False"
  by (simp add: jget_def)

lemma jget_Cons [simp]: "jget ((k', v) # d) k = (if k = k' then v else jget d k)"
  by (simp add: jget_def)

lemma jget_Nil [simp]: "jget [] k = JNull"
  by (simp add: jget_def)

lemma eq_int_simps [simp]:
  "eq_int (JInt i) j = (i = j)" "eq_int JNull j = False" "eq_int (JStr s) j = False"
  by (simp_all add: eq_int_def)

end
