(* ===== verification/States.thy ===== *)
theory States
  imports PyStr
begin

section \<open>The two status vocabularies (states.py)\<close>

text \<open>
  \<open>states.py\<close> answers two questions with one discipline: the \<open>reason\<close> is the fact, and state,
  tone, label and \<open>needs_flash\<close> are table lookups on it. Both questions share the reason codes,
  so one datatype holds them and each question's table says which codes it knows; the
  constructors refuse a code outside their table, as \<open>__post_init__\<close> does.
\<close>

datatype reason =
    NEVER_BUILT | CONFIG_CHANGED | SOURCE_CHANGED | BUILT_DIRTY | FOREIGN_BUILD | NO_PROVENANCE
  | IN_BOOTLOADER | ARTIFACT_CHANGED | PROTOCOL_MISMATCH | DEVICE_DIRTY | OFFLINE
  | UNKNOWN_VERSION | VERSION_ONLY | UNEXPECTED_IMAGE

datatype tone = TONE_OK | TONE_WARN | TONE_PROBLEM

datatype artifact_state = ARTIFACT_CURRENT | ARTIFACT_STALE | ARTIFACT_ABSENT | ARTIFACT_UNPROVABLE

text \<open>The wire spellings.\<close>

fun reason_str :: "reason \<Rightarrow> string" where
  "reason_str NEVER_BUILT = ''never_built''"
| "reason_str CONFIG_CHANGED = ''config_changed''"
| "reason_str SOURCE_CHANGED = ''source_changed''"
| "reason_str BUILT_DIRTY = ''built_dirty''"
| "reason_str FOREIGN_BUILD = ''foreign_build''"
| "reason_str NO_PROVENANCE = ''no_provenance''"
| "reason_str IN_BOOTLOADER = ''in_bootloader''"
| "reason_str ARTIFACT_CHANGED = ''artifact_changed''"
| "reason_str PROTOCOL_MISMATCH = ''protocol_mismatch''"
| "reason_str DEVICE_DIRTY = ''device_dirty''"
| "reason_str OFFLINE = ''offline''"
| "reason_str UNKNOWN_VERSION = ''unknown_version''"
| "reason_str VERSION_ONLY = ''version_only''"
| "reason_str UNEXPECTED_IMAGE = ''unexpected_image''"

subsection \<open>Question 1: the built image against its inputs\<close>

definition ARTIFACT_STATE_OF :: "(reason option, artifact_state) dict" where
  "ARTIFACT_STATE_OF =
     [(None, ARTIFACT_CURRENT),
      (Some NEVER_BUILT, ARTIFACT_ABSENT),
      (Some CONFIG_CHANGED, ARTIFACT_STALE),
      (Some SOURCE_CHANGED, ARTIFACT_STALE),
      (Some BUILT_DIRTY, ARTIFACT_UNPROVABLE),
      (Some FOREIGN_BUILD, ARTIFACT_UNPROVABLE),
      (Some NO_PROVENANCE, ARTIFACT_UNPROVABLE)]"

definition ARTIFACT_TONE_OF :: "(artifact_state, tone) dict" where
  "ARTIFACT_TONE_OF =
     [(ARTIFACT_CURRENT, TONE_OK),
      (ARTIFACT_ABSENT, TONE_WARN),
      (ARTIFACT_STALE, TONE_WARN),
      (ARTIFACT_UNPROVABLE, TONE_WARN)]"

definition ARTIFACT_LABEL_OF :: "(reason option, string) dict" where
  "ARTIFACT_LABEL_OF =
     [(None, ''Up to date''),
      (Some NEVER_BUILT, ''Never built''),
      (Some CONFIG_CHANGED, ''Config changed - rebuild''),
      (Some SOURCE_CHANGED, ''Source updated - rebuild''),
      (Some BUILT_DIRTY, ''Built from unsaved changes''),
      (Some FOREIGN_BUILD, ''Rebuilt outside this tool''),
      (Some NO_PROVENANCE, ''Unverified build'')]"

record artifact_status =
  a_reason :: "reason option"

definition ArtifactStatus :: "reason option \<Rightarrow> py_error + artifact_status" where
  "ArtifactStatus r =
     (if dict_has ARTIFACT_STATE_OF r then Inr \<lparr>a_reason = r\<rparr> else Inl ValueError)"

definition a_state :: "artifact_status \<Rightarrow> py_error + artifact_state" where
  "a_state s = dict_index ARTIFACT_STATE_OF (a_reason s)"

definition a_tone :: "artifact_status \<Rightarrow> py_error + tone" where
  "a_tone s = and_then (a_state s) (dict_index ARTIFACT_TONE_OF)"

definition a_label :: "artifact_status \<Rightarrow> py_error + string" where
  "a_label s = dict_index ARTIFACT_LABEL_OF (a_reason s)"

definition is_current :: "artifact_status \<Rightarrow> bool" where
  "is_current s = (a_reason s = None)"

definition can_flash :: "artifact_status \<Rightarrow> py_error + bool" where
  "can_flash s = and_then (a_state s) (\<lambda>st. Inr (st \<noteq> ARTIFACT_ABSENT))"

subsection \<open>Question 2: the device against the image held for it\<close>

definition NEEDS_FLASH :: "(reason option, bool option) dict" where
  "NEEDS_FLASH =
     [(None, Some False),
      (Some IN_BOOTLOADER, Some True),
      (Some SOURCE_CHANGED, Some True),
      (Some ARTIFACT_CHANGED, Some True),
      (Some UNEXPECTED_IMAGE, Some True),
      (Some PROTOCOL_MISMATCH, Some True),
      (Some DEVICE_DIRTY, None),
      (Some OFFLINE, None),
      (Some UNKNOWN_VERSION, None),
      (Some VERSION_ONLY, None)]"

definition DEVICE_TONE_OF :: "(reason option, tone) dict" where
  "DEVICE_TONE_OF =
     [(None, TONE_OK),
      (Some IN_BOOTLOADER, TONE_PROBLEM),
      (Some SOURCE_CHANGED, TONE_WARN),
      (Some ARTIFACT_CHANGED, TONE_WARN),
      (Some UNEXPECTED_IMAGE, TONE_WARN),
      (Some PROTOCOL_MISMATCH, TONE_PROBLEM),
      (Some DEVICE_DIRTY, TONE_WARN),
      (Some OFFLINE, TONE_PROBLEM),
      (Some UNKNOWN_VERSION, TONE_WARN),
      (Some VERSION_ONLY, TONE_WARN)]"

definition DEVICE_LABEL_OF :: "(reason option, string) dict" where
  "DEVICE_LABEL_OF =
     [(None, ''Up to date''),
      (Some IN_BOOTLOADER, ''Waiting in bootloader''),
      (Some SOURCE_CHANGED, ''Update available''),
      (Some ARTIFACT_CHANGED, ''Newer build available''),
      (Some UNEXPECTED_IMAGE, ''Unexpected firmware''),
      (Some PROTOCOL_MISMATCH, ''Firmware too old for this host''),
      (Some DEVICE_DIRTY, ''Unverified build''),
      (Some OFFLINE, ''Not connected''),
      (Some UNKNOWN_VERSION, ''Version unknown''),
      (Some VERSION_ONLY, ''Version matches, build unverified'')]"

record device_status =
  d_reason :: "reason option"

definition DeviceStatus :: "reason option \<Rightarrow> py_error + device_status" where
  "DeviceStatus r =
     (if dict_has NEEDS_FLASH r then Inr \<lparr>d_reason = r\<rparr> else Inl ValueError)"

definition d_tone :: "device_status \<Rightarrow> py_error + tone" where
  "d_tone s = dict_index DEVICE_TONE_OF (d_reason s)"

definition d_label :: "device_status \<Rightarrow> py_error + string" where
  "d_label s = dict_index DEVICE_LABEL_OF (d_reason s)"

definition needs_flash :: "device_status \<Rightarrow> py_error + bool option" where
  "needs_flash s = dict_index NEEDS_FLASH (d_reason s)"

definition is_known :: "device_status \<Rightarrow> py_error + bool" where
  "is_known s = and_then (needs_flash s) (\<lambda>n. Inr (n \<noteq> None))"

lemmas status_tables =
  ARTIFACT_STATE_OF_def ARTIFACT_TONE_OF_def ARTIFACT_LABEL_OF_def
  NEEDS_FLASH_def DEVICE_TONE_OF_def DEVICE_LABEL_OF_def

lemma DeviceStatus_simps [simp]:
  "DeviceStatus None = Inr \<lparr>d_reason = None\<rparr>"
  "DeviceStatus (Some IN_BOOTLOADER) = Inr \<lparr>d_reason = Some IN_BOOTLOADER\<rparr>"
  "DeviceStatus (Some SOURCE_CHANGED) = Inr \<lparr>d_reason = Some SOURCE_CHANGED\<rparr>"
  "DeviceStatus (Some ARTIFACT_CHANGED) = Inr \<lparr>d_reason = Some ARTIFACT_CHANGED\<rparr>"
  "DeviceStatus (Some UNEXPECTED_IMAGE) = Inr \<lparr>d_reason = Some UNEXPECTED_IMAGE\<rparr>"
  "DeviceStatus (Some PROTOCOL_MISMATCH) = Inr \<lparr>d_reason = Some PROTOCOL_MISMATCH\<rparr>"
  "DeviceStatus (Some DEVICE_DIRTY) = Inr \<lparr>d_reason = Some DEVICE_DIRTY\<rparr>"
  "DeviceStatus (Some OFFLINE) = Inr \<lparr>d_reason = Some OFFLINE\<rparr>"
  "DeviceStatus (Some UNKNOWN_VERSION) = Inr \<lparr>d_reason = Some UNKNOWN_VERSION\<rparr>"
  "DeviceStatus (Some VERSION_ONLY) = Inr \<lparr>d_reason = Some VERSION_ONLY\<rparr>"
  by (simp_all add: DeviceStatus_def NEEDS_FLASH_def dict_has_def)

lemma DeviceStatus_cases:
  assumes "DeviceStatus r = Inr s"
  shows "d_reason s = r \<and> r \<in> {None, Some IN_BOOTLOADER, Some SOURCE_CHANGED,
    Some ARTIFACT_CHANGED, Some UNEXPECTED_IMAGE, Some PROTOCOL_MISMATCH, Some DEVICE_DIRTY,
    Some OFFLINE, Some UNKNOWN_VERSION, Some VERSION_ONLY}"
  using assms by (auto simp: DeviceStatus_def NEEDS_FLASH_def dict_has_iff split: if_splits)

lemma needs_flash_reason:
  "DeviceStatus r = Inr s \<Longrightarrow>
   needs_flash s = Inr (if r = None then Some False
     else if r \<in> {Some DEVICE_DIRTY, Some OFFLINE, Some UNKNOWN_VERSION, Some VERSION_ONLY}
     then None else Some True)"
  using DeviceStatus_cases[of r s]
  by (auto simp: needs_flash_def NEEDS_FLASH_def dict_index_def)

lemma ArtifactStatus_cases:
  assumes "ArtifactStatus r = Inr s"
  shows "a_reason s = r \<and> r \<in> {None, Some NEVER_BUILT, Some CONFIG_CHANGED, Some SOURCE_CHANGED,
    Some BUILT_DIRTY, Some FOREIGN_BUILD, Some NO_PROVENANCE}"
  using assms by (auto simp: ArtifactStatus_def ARTIFACT_STATE_OF_def dict_has_iff split: if_splits)

lemma ArtifactStatus_simps [simp]:
  "ArtifactStatus None = Inr \<lparr>a_reason = None\<rparr>"
  "ArtifactStatus (Some NEVER_BUILT) = Inr \<lparr>a_reason = Some NEVER_BUILT\<rparr>"
  "ArtifactStatus (Some CONFIG_CHANGED) = Inr \<lparr>a_reason = Some CONFIG_CHANGED\<rparr>"
  "ArtifactStatus (Some SOURCE_CHANGED) = Inr \<lparr>a_reason = Some SOURCE_CHANGED\<rparr>"
  "ArtifactStatus (Some BUILT_DIRTY) = Inr \<lparr>a_reason = Some BUILT_DIRTY\<rparr>"
  "ArtifactStatus (Some FOREIGN_BUILD) = Inr \<lparr>a_reason = Some FOREIGN_BUILD\<rparr>"
  "ArtifactStatus (Some NO_PROVENANCE) = Inr \<lparr>a_reason = Some NO_PROVENANCE\<rparr>"
  by (simp_all add: ArtifactStatus_def ARTIFACT_STATE_OF_def dict_has_def)

text \<open>Every status the two constructors accept has a state, tone, label and flash answer: no
  table lookup can raise, "up to date" and its OK tone belong to exactly the reason None, a
  device status that wants or may want a flash is never toned OK, and a current artifact can
  always be flashed.\<close>

theorem status_views_consistent:
  "(\<forall>r s. ArtifactStatus r = Inr s \<longrightarrow>
      (\<exists>st t l f. a_state s = Inr st \<and> a_tone s = Inr t \<and> a_label s = Inr l \<and> can_flash s = Inr f \<and>
         (is_current s \<longleftrightarrow> r = None) \<and> (t = TONE_OK \<longleftrightarrow> r = None) \<and>
         (l = ''Up to date'' \<longleftrightarrow> r = None) \<and> (f \<longleftrightarrow> r \<noteq> Some NEVER_BUILT))) \<and>
   (\<forall>r s. DeviceStatus r = Inr s \<longrightarrow>
      (\<exists>t l n. d_tone s = Inr t \<and> d_label s = Inr l \<and> needs_flash s = Inr n \<and>
         is_known s = Inr (n \<noteq> None) \<and>
         (n = Some False \<longleftrightarrow> r = None) \<and> (t = TONE_OK \<longleftrightarrow> r = None) \<and>
         (l = ''Up to date'' \<longleftrightarrow> r = None)))"
proof (intro conjI allI impI)
  fix r s assume "ArtifactStatus r = Inr s"
  from ArtifactStatus_cases[OF this]
  show "\<exists>st t l f. a_state s = Inr st \<and> a_tone s = Inr t \<and> a_label s = Inr l \<and> can_flash s = Inr f \<and>
         (is_current s \<longleftrightarrow> r = None) \<and> (t = TONE_OK \<longleftrightarrow> r = None) \<and>
         (l = ''Up to date'' \<longleftrightarrow> r = None) \<and> (f \<longleftrightarrow> r \<noteq> Some NEVER_BUILT)"
    by (auto simp: a_state_def a_tone_def a_label_def can_flash_def is_current_def dict_index_def
        status_tables)
next
  fix r s assume "DeviceStatus r = Inr s"
  from DeviceStatus_cases[OF this]
  show "\<exists>t l n. d_tone s = Inr t \<and> d_label s = Inr l \<and> needs_flash s = Inr n \<and>
         is_known s = Inr (n \<noteq> None) \<and>
         (n = Some False \<longleftrightarrow> r = None) \<and> (t = TONE_OK \<longleftrightarrow> r = None) \<and>
         (l = ''Up to date'' \<longleftrightarrow> r = None)"
    by (auto simp: d_tone_def d_label_def needs_flash_def is_known_def dict_index_def status_tables)
qed

theorem status_views_consistent_witness:
  "d_label \<lparr>d_reason = Some OFFLINE\<rparr> = Inr ''Not connected'' \<and>
   (\<exists>t l n. d_tone \<lparr>d_reason = Some OFFLINE\<rparr> = Inr t \<and>
      d_label \<lparr>d_reason = Some OFFLINE\<rparr> = Inr l \<and>
      needs_flash \<lparr>d_reason = Some OFFLINE\<rparr> = Inr n \<and> t \<noteq> TONE_OK \<and> n \<noteq> Some False)"
proof
  show "d_label \<lparr>d_reason = Some OFFLINE\<rparr> = Inr ''Not connected''"
    by (simp add: d_label_def dict_index_def DEVICE_LABEL_OF_def)
  have "DeviceStatus (Some OFFLINE) = Inr \<lparr>d_reason = Some OFFLINE\<rparr>" by simp
  with status_views_consistent[THEN conjunct2]
  show "\<exists>t l n. d_tone \<lparr>d_reason = Some OFFLINE\<rparr> = Inr t \<and>
      d_label \<lparr>d_reason = Some OFFLINE\<rparr> = Inr l \<and>
      needs_flash \<lparr>d_reason = Some OFFLINE\<rparr> = Inr n \<and> t \<noteq> TONE_OK \<and> n \<noteq> Some False"
    by blast
qed

end
