(* ===== verification/Artifacts.thy ===== *)
theory Artifacts
  imports PyStr
begin

section \<open>What a build staged, by kind (artifacts.py)\<close>

text \<open>
  A sidecar is the JSON object a build writes beside its output, so it is a list of key/value
  pairs with dynamically typed values: every \<open>isinstance\<close> test and every truthiness test of the
  readers is kept.
\<close>

definition KIND_BIN :: string where "KIND_BIN = ''bin''"
definition KIND_UF2 :: string where "KIND_UF2 = ''uf2''"
definition KIND_PIO_ENV :: string where "KIND_PIO_ENV = ''pio_env''"

lemmas kind_defs = KIND_BIN_def KIND_UF2_def KIND_PIO_ENV_def

type_synonym sidecar = "(string \<times> json) list"

record artifact =
  kind :: string
  art_path :: string
  sha256 :: "string option"

record staged =
  st_fw :: string
  artifacts :: "artifact list"
  st_fw_sha :: json
  st_version :: json

text \<open>\<open>Staged.first_of\<close>: the flasher's order of kinds is the outer loop.\<close>

fun first_of :: "staged \<Rightarrow> string list \<Rightarrow> artifact option" where
  "first_of s [] = None"
| "first_of s (k # ks) =
     (case find (\<lambda>a. kind a = k) (artifacts s) of
        Some a \<Rightarrow> Some a
      | None \<Rightarrow> first_of s ks)"

definition sidecar_field :: "(string \<times> string option) list \<Rightarrow> json" where
  "sidecar_field hashes =
     JObj (map (\<lambda>(k, sha). (k, JObj [(''sha256'', case sha of None \<Rightarrow> JNull | Some h \<Rightarrow> JStr h)]))
       hashes)"

definition recorded_kinds :: "sidecar \<Rightarrow> string set" where
  "recorded_kinds side =
     (case jget side ''artifacts'' of JObj f \<Rightarrow> set (map fst f) | _ \<Rightarrow> {})"

definition entry_sha :: "json \<Rightarrow> string option" where
  "entry_sha entry =
     (case entry of
        JObj e \<Rightarrow> (if truthy (jget e ''sha256'') then Some (py_str (jget e ''sha256'')) else None)
      | _ \<Rightarrow> None)"

definition recorded_hashes :: "sidecar \<Rightarrow> string set" where
  "recorded_hashes side =
     (case jget side ''artifacts'' of
        JObj f \<Rightarrow> set (List.map_filter (entry_sha \<circ> snd) f)
      | _ \<Rightarrow> {}) \<union>
     (if truthy (jget side ''bin_sha256'') then {py_str (jget side ''bin_sha256'')} else {})"

definition recorded_sha256 :: "sidecar \<Rightarrow> string \<Rightarrow> string \<Rightarrow> string option" where
  "recorded_sha256 side k primary =
     (case (case jget side ''artifacts'' of JObj f \<Rightarrow> entry_sha (jget f k) | _ \<Rightarrow> None) of
        Some h \<Rightarrow> Some h
      | None \<Rightarrow>
          (if k = primary then
             (if truthy (jget side ''bin_sha256'') then Some (py_str (jget side ''bin_sha256''))
              else None)
           else None))"

lemma first_of_Some:
  "first_of s ks = Some a \<Longrightarrow> a \<in> set (artifacts s) \<and> kind a \<in> set ks"
  by (induction ks) (auto simp: find_Some_iff split: option.splits)

lemma first_of_None: "first_of s ks = None \<longleftrightarrow> (\<forall>a \<in> set (artifacts s). kind a \<notin> set ks)"
  by (induction ks) (auto simp: find_None_iff find_Some_iff split: option.splits)

lemma entry_sha_JNull [simp]: "entry_sha JNull = None"
  by (simp add: entry_sha_def)

lemma jget_in_set: "jget f k = j \<Longrightarrow> j \<noteq> JNull \<Longrightarrow> (k, j) \<in> set f"
  by (auto simp: jget_def split: option.splits dest: map_of_SomeD)

lemma sidecar_field_lookup:
  "jget side ''artifacts'' = sidecar_field hashes \<Longrightarrow>
   recorded_kinds side = fst ` set hashes"
  by (auto simp: recorded_kinds_def sidecar_field_def image_image split_beta)

lemma jget_sidecar_field:
  "jget (map (\<lambda>(k, sha). (k, JObj [(''sha256'', case sha of None \<Rightarrow> JNull | Some h \<Rightarrow> JStr h)])) hs) k
   = (case map_of hs k of None \<Rightarrow> JNull
      | Some sha \<Rightarrow> JObj [(''sha256'', case sha of None \<Rightarrow> JNull | Some h \<Rightarrow> JStr h)])"
  by (induction hs) auto

text \<open>A hash the sidecar reports for a kind is always one of the hashes it vouches for, a kind it
  does not list is answered only for the builder's primary kind and only from the legacy
  \<open>bin_sha256\<close>, and a sidecar written through \<open>sidecar_field\<close> reads back, kind by kind, exactly
  the non-empty hashes that were written.\<close>

theorem recorded_sha256_sound:
  "(recorded_sha256 side k primary = Some h \<longrightarrow>
      h \<in> recorded_hashes side \<and>
      (k \<notin> recorded_kinds side \<longrightarrow> k = primary \<and> truthy (jget side ''bin_sha256'') \<and>
         h = py_str (jget side ''bin_sha256''))) \<and>
   (jget side ''artifacts'' = sidecar_field hashes \<and> k \<noteq> primary \<longrightarrow>
      recorded_kinds side = fst ` set hashes \<and>
      recorded_sha256 side k primary =
        (case map_of hashes k of Some (Some h') \<Rightarrow> (if h' = [] then None else Some h') | _ \<Rightarrow> None))"
proof (intro conjI impI)
  assume r: "recorded_sha256 side k primary = Some h"
  show "h \<in> recorded_hashes side"
  proof (cases "\<exists>f. jget side ''artifacts'' = JObj f \<and> entry_sha (jget f k) = Some h")
    case True
    then obtain f where f: "jget side ''artifacts'' = JObj f" "entry_sha (jget f k) = Some h" by blast
    then have "jget f k \<noteq> JNull" by auto
    then have "(k, jget f k) \<in> set f" by (rule jget_in_set[OF refl])
    with f have "h \<in> set (List.map_filter (entry_sha \<circ> snd) f)"
      by (force simp: List.map_filter_def image_iff)
    with f show ?thesis by (simp add: recorded_hashes_def)
  next
    case False
    with r show ?thesis
      by (auto simp: recorded_sha256_def recorded_hashes_def split: json.splits option.splits if_splits)
  qed
next
  assume r: "recorded_sha256 side k primary = Some h" and nk: "k \<notin> recorded_kinds side"
  have "entry_sha (jget f k) = None" if "jget side ''artifacts'' = JObj f" for f
  proof (cases "jget f k = JNull")
    case False
    with nk that show ?thesis
      by (force simp: recorded_kinds_def dest!: jget_in_set[OF refl])
  qed simp
  with r have "k = primary \<and> truthy (jget side ''bin_sha256'') \<and> h = py_str (jget side ''bin_sha256'')"
    by (auto simp: recorded_sha256_def split: json.splits option.splits if_splits)
  then show "k = primary" "truthy (jget side ''bin_sha256'')" "h = py_str (jget side ''bin_sha256'')"
    by blast+
next
  assume a: "jget side ''artifacts'' = sidecar_field hashes \<and> k \<noteq> primary"
  then show "recorded_kinds side = fst ` set hashes" by (simp add: sidecar_field_lookup)
  from a show "recorded_sha256 side k primary =
        (case map_of hashes k of Some (Some h') \<Rightarrow> (if h' = [] then None else Some h') | _ \<Rightarrow> None)"
    by (auto simp: recorded_sha256_def sidecar_field_def jget_sidecar_field entry_sha_def
        split: option.splits)
qed

theorem recorded_sha256_sound_witness:
  "recorded_sha256 [(''artifacts'', sidecar_field [(''bin'', Some ''aa''), (''uf2'', None)]),
      (''bin_sha256'', JStr ''aa'')] ''bin'' ''uf2'' = Some ''aa'' \<and>
   ''aa'' \<in> recorded_hashes [(''artifacts'', sidecar_field [(''bin'', Some ''aa''), (''uf2'', None)]),
      (''bin_sha256'', JStr ''aa'')]"
proof -
  let ?side = "[(''artifacts'', sidecar_field [(''bin'', Some ''aa''), (''uf2'', None)]),
      (''bin_sha256'', JStr ''aa'')]"
  have "jget ?side ''artifacts'' = sidecar_field [(''bin'', Some ''aa''), (''uf2'', None)]" by simp
  with recorded_sha256_sound[of ?side "''bin''" "''uf2''" "''aa''"
      "[(''bin'', Some ''aa''), (''uf2'', None)]"]
  show ?thesis by simp
qed

end
