(* ===== verification/Verdict.thy ===== *)
theory Verdict
  imports States Artifacts
begin

section \<open>One verdict per device (device_info.py, verdict.py)\<close>

text \<open>
  \<open>decide\<close> turns everything a device said (\<open>evidence\<close>) and everything held for it (\<open>expected\<close>)
  into one \<open>device_status\<close>. It is the guard of the fleet-wide flash, so the theorems below are
  about what it may claim: "up to date" and "wants a flash" each need positive evidence, and a
  measured image outranks every weaker kind of evidence.

  A \<open>Mapping | None\<close> is an optional list of key/value pairs; the values of a ledger record and
  of a sidecar are JSON.
\<close>

subsection \<open>Reports of a board\<close>

definition SOURCE_KLIPPER :: string where "SOURCE_KLIPPER = ''klipper''"
definition SOURCE_INFO :: string where "SOURCE_INFO = ''info''"

record device_info =
  di_source :: string
  di_version :: "string option"
  digest_algorithm :: "int option"
  di_digest :: "int option"
  image_start :: "int option"
  image_length :: "int option"

definition has_digest :: "device_info \<Rightarrow> bool" where
  "has_digest i =
     ((case digest_algorithm i of None \<Rightarrow> False | Some a \<Rightarrow> a \<noteq> 0)
      \<and> di_digest i \<noteq> None \<and> image_start i \<noteq> None \<and> image_length i \<noteq> None)"

definition DIGEST_FIELDS :: "string list" where
  "DIGEST_FIELDS = [''digest_algorithm'', ''digest'', ''image_start'', ''image_length'']"

definition digest_getattr :: "device_info \<Rightarrow> string \<Rightarrow> int option" where
  "digest_getattr i f =
     (if f = ''digest_algorithm'' then digest_algorithm i
      else if f = ''digest'' then di_digest i
      else if f = ''image_start'' then image_start i
      else image_length i)"

subsection \<open>Evidence and expectation\<close>

definition STATE_KLIPPER :: string where "STATE_KLIPPER = ''klipper''"
definition STATE_KATAPULT :: string where "STATE_KATAPULT = ''katapult''"
definition STATE_OFFLINE :: string where "STATE_OFFLINE = ''offline''"

definition STAMP_BUILT :: string where "STAMP_BUILT = ''built''"
definition STAMP_TAG :: string where "STAMP_TAG = ''tag''"

record evidence =
  state :: "string option"
  version :: "string option"
  running_sha :: "string option"
  dirty :: bool
  protocol_match :: "bool option"
  info :: "device_info option"

record expected =
  head_sha :: "string option"
  stamp :: "string option"
  stamp_kind :: string
  tag_clean :: bool
  require_head :: bool
  artifact_shas :: "string set"
  flash_record :: "sidecar option"
  expected_digest :: "sidecar option"

definition str_truthy :: "string option \<Rightarrow> bool" where
  "str_truthy s = (case s of None \<Rightarrow> False | Some t \<Rightarrow> t \<noteq> [])"

subsection \<open>The measurement\<close>

definition field_eq :: "int option \<Rightarrow> json \<Rightarrow> bool" where
  "field_eq t ours = (case t of None \<Rightarrow> ours = JNull | Some i \<Rightarrow> eq_int ours i)"

definition image_verdict ::
  "device_info option \<Rightarrow> sidecar option \<Rightarrow> py_error + device_status option" where
  "image_verdict i ex =
     (case (i, ex) of
        (Some di, Some d) \<Rightarrow>
          if \<not> has_digest di \<or> d = [] then Inr None
          else (let ours = map (jget d) DIGEST_FIELDS in
            if JNull \<in> set ours then Inr None
            else (let theirs = map (digest_getattr di) DIGEST_FIELDS in
              if \<not> list_all2 field_eq theirs ours
              then and_then (DeviceStatus (Some UNEXPECTED_IMAGE)) (\<lambda>s. Inr (Some s))
              else and_then (DeviceStatus None) (\<lambda>s. Inr (Some s))))
      | _ \<Rightarrow> Inr None)"

subsection \<open>What the flash ledger adds\<close>

definition record_verdict :: "expected \<Rightarrow> reason option \<Rightarrow> py_error + device_status" where
  "record_verdict ex absent_is =
     (case flash_record ex of
        None \<Rightarrow> DeviceStatus absent_is
      | Some r \<Rightarrow>
          (let flashed = jget r ''bin_sha256'' in
           if truthy flashed \<and> artifact_shas ex \<noteq> {} then
             (if unhashable flashed then Inl TypeError
              else if flashed \<notin> JStr ` artifact_shas ex then DeviceStatus (Some ARTIFACT_CHANGED)
              else DeviceStatus None)
           else DeviceStatus None))"

subsection \<open>The verdict\<close>

definition decide :: "evidence \<Rightarrow> expected \<Rightarrow> py_error + device_status" where
  "decide ev ex =
     (if protocol_match ev = Some False then DeviceStatus (Some PROTOCOL_MISMATCH)
      else if state ev = Some STATE_OFFLINE then DeviceStatus (Some OFFLINE)
      else if state ev = Some STATE_KATAPULT then DeviceStatus (Some IN_BOOTLOADER)
      else and_then (image_verdict (info ev) (expected_digest ex)) (\<lambda>measured.
        case measured of Some s \<Rightarrow> Inr s | None \<Rightarrow>
        if \<not> str_truthy (version ev) then DeviceStatus (Some UNKNOWN_VERSION)
        else if require_head ex \<and> \<not> str_truthy (head_sha ex)
        then DeviceStatus (Some UNKNOWN_VERSION)
        else if dirty ev then DeviceStatus (Some DEVICE_DIRTY)
        else if str_truthy (running_sha ev) \<and> str_truthy (head_sha ex) then
          (let running = lower (the (running_sha ev)); hd' = lower (the (head_sha ex));
               size = min (length running) (length hd') in
           if take size running \<noteq> take size hd' then DeviceStatus (Some SOURCE_CHANGED)
           else record_verdict ex None)
        else if \<not> str_truthy (stamp ex) then DeviceStatus (Some UNKNOWN_VERSION)
        else if stamp_kind ex = STAMP_TAG then
          (if strip (the (version ev)) = the (stamp ex) \<and> tag_clean ex then DeviceStatus None
           else DeviceStatus (Some SOURCE_CHANGED))
        else if strip (the (version ev)) \<noteq> the (stamp ex) then DeviceStatus (Some SOURCE_CHANGED)
        else record_verdict ex (Some VERSION_ONLY)))"

subsection \<open>What counts as evidence\<close>

definition live :: "evidence \<Rightarrow> bool" where
  "live ev \<longleftrightarrow> protocol_match ev \<noteq> Some False \<and>
     state ev \<noteq> Some STATE_OFFLINE \<and> state ev \<noteq> Some STATE_KATAPULT"

definition measured :: "evidence \<Rightarrow> expected \<Rightarrow> bool" where
  "measured ev ex \<longleftrightarrow> (\<exists>i d. info ev = Some i \<and> has_digest i \<and> expected_digest ex = Some d \<and>
     d \<noteq> [] \<and> (\<forall>f \<in> set DIGEST_FIELDS. jget d f \<noteq> JNull))"

definition image_agrees :: "evidence \<Rightarrow> expected \<Rightarrow> bool" where
  "image_agrees ev ex \<longleftrightarrow> (\<exists>i d. info ev = Some i \<and> expected_digest ex = Some d \<and>
     (\<forall>f \<in> set DIGEST_FIELDS. field_eq (digest_getattr i f) (jget d f)))"

definition commits_known :: "evidence \<Rightarrow> expected \<Rightarrow> bool" where
  "commits_known ev ex \<longleftrightarrow> str_truthy (running_sha ev) \<and> str_truthy (head_sha ex)"

definition commits_agree :: "evidence \<Rightarrow> expected \<Rightarrow> bool" where
  "commits_agree ev ex \<longleftrightarrow>
     (let r = lower (the (running_sha ev)); h = lower (the (head_sha ex));
          n = min (length r) (length h) in take n r = take n h)"

definition stamp_agrees :: "evidence \<Rightarrow> expected \<Rightarrow> bool" where
  "stamp_agrees ev ex \<longleftrightarrow> str_truthy (version ev) \<and> str_truthy (stamp ex) \<and>
     strip (the (version ev)) = the (stamp ex)"

definition ledger_disagrees :: "expected \<Rightarrow> bool" where
  "ledger_disagrees ex \<longleftrightarrow> (\<exists>r. flash_record ex = Some r \<and> truthy (jget r ''bin_sha256'') \<and>
     artifact_shas ex \<noteq> {} \<and> jget r ''bin_sha256'' \<notin> JStr ` artifact_shas ex)"

lemmas evidence_defs = live_def measured_def image_agrees_def commits_known_def
  commits_agree_def stamp_agrees_def ledger_disagrees_def

lemma image_verdict_eq:
  "image_verdict (info ev) (expected_digest ex) =
     (if measured ev ex then
        Inr (Some \<lparr>d_reason = (if image_agrees ev ex then None else Some UNEXPECTED_IMAGE)\<rparr>)
      else Inr None)"
  by (auto simp: image_verdict_def measured_def image_agrees_def DIGEST_FIELDS_def Let_def
      split: option.splits)

lemma record_verdict_reason:
  "record_verdict ex a = Inr s \<Longrightarrow>
   (flash_record ex = None \<and> DeviceStatus a = Inr s) \<or>
   (flash_record ex \<noteq> None \<and> d_reason s = (if ledger_disagrees ex then Some ARTIFACT_CHANGED else None))"
  by (auto simp: record_verdict_def ledger_disagrees_def Let_def split: option.splits if_splits)

lemma decide_measured:
  "live ev \<Longrightarrow> measured ev ex \<Longrightarrow>
   decide ev ex = Inr \<lparr>d_reason = (if image_agrees ev ex then None else Some UNEXPECTED_IMAGE)\<rparr>"
  by (simp add: decide_def image_verdict_eq live_def)

lemma decide_unmeasured:
  assumes "live ev" and "\<not> measured ev ex"
  shows "decide ev ex =
    (if \<not> str_truthy (version ev) then DeviceStatus (Some UNKNOWN_VERSION)
     else if require_head ex \<and> \<not> str_truthy (head_sha ex) then DeviceStatus (Some UNKNOWN_VERSION)
     else if dirty ev then DeviceStatus (Some DEVICE_DIRTY)
     else if commits_known ev ex then
       (if \<not> commits_agree ev ex then DeviceStatus (Some SOURCE_CHANGED) else record_verdict ex None)
     else if \<not> str_truthy (stamp ex) then DeviceStatus (Some UNKNOWN_VERSION)
     else if stamp_kind ex = STAMP_TAG then
       (if stamp_agrees ev ex \<and> tag_clean ex then DeviceStatus None
        else DeviceStatus (Some SOURCE_CHANGED))
     else if \<not> stamp_agrees ev ex then DeviceStatus (Some SOURCE_CHANGED)
     else record_verdict ex (Some VERSION_ONLY))"
  using assms
  by (simp add: decide_def image_verdict_eq live_def commits_known_def commits_agree_def
      stamp_agrees_def Let_def)

lemma decide_not_live:
  "\<not> live ev \<Longrightarrow> decide ev ex = Inr \<lparr>d_reason =
     Some (if protocol_match ev = Some False then PROTOCOL_MISMATCH
           else if state ev = Some STATE_OFFLINE then OFFLINE else IN_BOOTLOADER)\<rparr>"
  by (auto simp: decide_def live_def)

text \<open>C1: a device is called up to date only on positive evidence: it is on the bus, running an
  application and able to talk to the host, and either its own measurement of its image equals
  the artifact's in all four fields, or nothing measured it, it states a clean version and one
  of three agreements holds (its commit agrees with the tree head; its version is the tree's
  clean tag; its version is our build's stamp and our ledger holds a record of it), with a
  ledger that does not name another binary.\<close>

theorem decide_up_to_date_sound:
  assumes "decide ev ex = Inr s" and "d_reason s = None"
  shows "live ev \<and>
    (if measured ev ex then image_agrees ev ex
     else str_truthy (version ev) \<and> \<not> dirty ev \<and>
       (require_head ex \<longrightarrow> str_truthy (head_sha ex)) \<and>
       (if commits_known ev ex then commits_agree ev ex \<and> \<not> ledger_disagrees ex
        else stamp_agrees ev ex \<and>
          (if stamp_kind ex = STAMP_TAG then tag_clean ex
           else flash_record ex \<noteq> None \<and> \<not> ledger_disagrees ex)))"
proof (cases "live ev")
  case False
  with assms show ?thesis by (auto simp: decide_not_live)
next
  case live: True
  show ?thesis
  proof (cases "measured ev ex")
    case True
    with assms live show ?thesis by (auto simp: decide_measured split: if_splits)
  next
    case False
    have "\<not> ledger_disagrees ex" if "flash_record ex = None" using that by (simp add: ledger_disagrees_def)
    with assms live False show ?thesis
      by (auto simp: decide_unmeasured split: if_splits dest!: record_verdict_reason)
  qed
qed

theorem decide_up_to_date_sound_witness:
  "let ev = \<lparr>state = Some STATE_KLIPPER, version = Some ''v1-2-gABCDEF1'', running_sha = Some ''abcdef1'',
             dirty = False, protocol_match = None, info = None\<rparr>;
       ex = \<lparr>head_sha = Some ''ABCDEF12'', stamp = None, stamp_kind = STAMP_BUILT, tag_clean = False,
             require_head = False, artifact_shas = {''aa''},
             flash_record = Some [(''bin_sha256'', JStr ''aa'')], expected_digest = None\<rparr>
   in decide ev ex = Inr \<lparr>d_reason = None\<rparr> \<and> commits_agree ev ex \<and> \<not> ledger_disagrees ex"
proof -
  define ev where "ev = \<lparr>state = Some STATE_KLIPPER, version = Some ''v1-2-gABCDEF1'',
    running_sha = Some ''abcdef1'', dirty = False, protocol_match = None, info = None\<rparr>"
  define ex where "ex = \<lparr>head_sha = Some ''ABCDEF12'', stamp = None, stamp_kind = STAMP_BUILT,
    tag_clean = False, require_head = False, artifact_shas = {''aa''},
    flash_record = Some [(''bin_sha256'', JStr ''aa'')], expected_digest = None\<rparr>"
  have low: "lower ''abcdef1'' = ''abcdef1''" "lower ''ABCDEF12'' = ''abcdef12''" by code_simp+
  have d: "decide ev ex = Inr \<lparr>d_reason = None\<rparr>"
    by (simp add: decide_def ev_def ex_def STATE_KLIPPER_def STATE_OFFLINE_def STATE_KATAPULT_def
        image_verdict_def str_truthy_def low record_verdict_def Let_def)
  have "\<not> measured ev ex" "commits_known ev ex"
    by (simp_all add: measured_def commits_known_def str_truthy_def ev_def ex_def)
  with decide_up_to_date_sound[OF d] d show ?thesis
    unfolding ev_def[symmetric] ex_def[symmetric] Let_def by simp
qed

text \<open>Absence is never mismatch: a verdict that asks for a flash always rests on something the
  device or our ledger positively said. With nothing measured that is a protocol refusal, a
  bootloader sighting, a clean stated version whose commit or stamp disagrees with a known one
  (or a tag stamp whose tree has moved), or a ledger entry for another binary; offline, dirty,
  version-less and unmatched devices are never called behind.\<close>

theorem decide_behind_sound:
  assumes "decide ev ex = Inr s" and "needs_flash s = Inr (Some True)"
  shows "protocol_match ev = Some False \<or> state ev = Some STATE_KATAPULT \<or>
    (live ev \<and> measured ev ex \<and> \<not> image_agrees ev ex) \<or>
    (live ev \<and> \<not> measured ev ex \<and> str_truthy (version ev) \<and> \<not> dirty ev \<and>
       (ledger_disagrees ex \<or> (commits_known ev ex \<and> \<not> commits_agree ev ex) \<or>
        (str_truthy (stamp ex) \<and>
           (\<not> stamp_agrees ev ex \<or> (stamp_kind ex = STAMP_TAG \<and> \<not> tag_clean ex)))))"
proof (cases "live ev")
  case False
  with assms show ?thesis
    by (auto simp: decide_not_live live_def needs_flash_def NEEDS_FLASH_def dict_index_def split: if_splits)
next
  case live: True
  show ?thesis
  proof (cases "measured ev ex")
    case True
    with assms live show ?thesis
      by (auto simp: decide_measured needs_flash_def NEEDS_FLASH_def dict_index_def split: if_splits)
  next
    case False
    have flag: "d_reason s \<notin> {None, Some DEVICE_DIRTY, Some OFFLINE, Some UNKNOWN_VERSION, Some VERSION_ONLY}"
      using assms(2) by (auto simp: needs_flash_def NEEDS_FLASH_def dict_index_def split: if_splits)
    from assms(1) live False flag show ?thesis
      by (auto simp: decide_unmeasured split: if_splits dest!: record_verdict_reason)
  qed
qed

theorem decide_behind_sound_witness:
  "let ev = \<lparr>state = Some STATE_KLIPPER, version = Some ''CARTO 6.1'', running_sha = None,
             dirty = False, protocol_match = None, info = None\<rparr>;
       ex = \<lparr>head_sha = None, stamp = Some ''CARTO 6.2'', stamp_kind = STAMP_BUILT, tag_clean = False,
             require_head = False, artifact_shas = {}, flash_record = None, expected_digest = None\<rparr>
   in decide ev ex = Inr \<lparr>d_reason = Some SOURCE_CHANGED\<rparr> \<and> str_truthy (stamp ex) \<and> live ev"
proof -
  define ev where "ev = \<lparr>state = Some STATE_KLIPPER, version = Some ''CARTO 6.1'', running_sha = None,
             dirty = False, protocol_match = None, info = None :: device_info option\<rparr>"
  define ex where "ex = \<lparr>head_sha = None, stamp = Some ''CARTO 6.2'', stamp_kind = STAMP_BUILT,
    tag_clean = False, require_head = False, artifact_shas = {}, flash_record = None,
    expected_digest = None\<rparr>"
  have d: "decide ev ex = Inr \<lparr>d_reason = Some SOURCE_CHANGED\<rparr>"
    by (simp add: decide_def ev_def ex_def STATE_KLIPPER_def STATE_OFFLINE_def STATE_KATAPULT_def
        image_verdict_def str_truthy_def STAMP_BUILT_def STAMP_TAG_def strip_def lstrip_def rstrip_def
        is_space_def)
  have "needs_flash \<lparr>d_reason = Some SOURCE_CHANGED\<rparr> = Inr (Some True)"
    by (simp add: needs_flash_def NEEDS_FLASH_def dict_index_def)
  from decide_behind_sound[OF d, simplified, OF this] d show ?thesis
    unfolding ev_def[symmetric] ex_def[symmetric] Let_def
    by (auto simp: ev_def ex_def STATE_KLIPPER_def STATE_KATAPULT_def ledger_disagrees_def
        commits_known_def str_truthy_def)
qed

text \<open>A measurement outranks every claim: for a live device whose image was measured on both
  sides, the verdict is the comparison alone. Replacing the version, the commit, the dirty flag,
  the ledger record, the stamp or the tree head by anything else cannot change it.\<close>

theorem decide_measurement_decisive:
  assumes "live ev" and "measured ev ex"
  shows "decide ev ex = Inr \<lparr>d_reason = (if image_agrees ev ex then None else Some UNEXPECTED_IMAGE)\<rparr> \<and>
    (\<forall>v r d h st k t q sh rec.
       decide (ev\<lparr>version := v, running_sha := r, dirty := d\<rparr>)
         (ex\<lparr>head_sha := h, stamp := st, stamp_kind := k, tag_clean := t, require_head := q,
             artifact_shas := sh, flash_record := rec\<rparr>) = decide ev ex)"
proof -
  have "decide (ev\<lparr>version := v, running_sha := r, dirty := d\<rparr>)
         (ex\<lparr>head_sha := h, stamp := st, stamp_kind := k, tag_clean := t, require_head := q,
             artifact_shas := sh, flash_record := rec\<rparr>) = decide ev ex" for v r d h st k t q sh rec
  proof -
    let ?ev = "ev\<lparr>version := v, running_sha := r, dirty := d\<rparr>"
    let ?ex = "ex\<lparr>head_sha := h, stamp := st, stamp_kind := k, tag_clean := t, require_head := q,
             artifact_shas := sh, flash_record := rec\<rparr>"
    have "live ?ev" "measured ?ev ?ex" and "image_agrees ?ev ?ex \<longleftrightarrow> image_agrees ev ex"
      using assms by (simp_all add: live_def measured_def image_agrees_def)
    with assms show ?thesis by (simp add: decide_measured)
  qed
  with assms show ?thesis by (simp add: decide_measured)
qed

theorem decide_measurement_decisive_witness:
  "let ev = \<lparr>state = None, version = None, running_sha = None, dirty = True, protocol_match = None,
             info = Some \<lparr>di_source = SOURCE_INFO, di_version = None, digest_algorithm = Some 1,
               di_digest = Some 7, image_start = Some 0, image_length = Some 9\<rparr>\<rparr>;
       ex = \<lparr>head_sha = None, stamp = None, stamp_kind = STAMP_BUILT, tag_clean = False,
             require_head = True, artifact_shas = {}, flash_record = None,
             expected_digest = Some [(''digest_algorithm'', JInt 1), (''digest'', JInt 7),
               (''image_start'', JInt 0), (''image_length'', JInt 9)]\<rparr>
   in decide ev ex = Inr \<lparr>d_reason = None\<rparr> \<and>
      decide (ev\<lparr>version := Some ''x'', running_sha := Some ''1'', dirty := False\<rparr>)
        (ex\<lparr>head_sha := Some ''2'', stamp := None, stamp_kind := STAMP_TAG, tag_clean := False,
            require_head := False, artifact_shas := {}, flash_record := None\<rparr>) = Inr \<lparr>d_reason = None\<rparr>"
proof -
  define ev where "ev = \<lparr>state = None, version = None, running_sha = None, dirty = True,
    protocol_match = None,
             info = Some \<lparr>di_source = SOURCE_INFO, di_version = None, digest_algorithm = Some 1,
               di_digest = Some 7, image_start = Some 0, image_length = Some 9\<rparr>\<rparr>"
  define ex where "ex = \<lparr>head_sha = None, stamp = None, stamp_kind = STAMP_BUILT, tag_clean = False,
             require_head = True, artifact_shas = {}, flash_record = None,
             expected_digest = Some [(''digest_algorithm'', JInt 1), (''digest'', JInt 7),
               (''image_start'', JInt 0), (''image_length'', JInt 9)]\<rparr>"
  have l: "live ev" by (simp add: live_def ev_def)
  have m: "measured ev ex" by (simp add: measured_def ev_def ex_def has_digest_def DIGEST_FIELDS_def)
  have a: "image_agrees ev ex"
    by (simp add: image_agrees_def ev_def ex_def DIGEST_FIELDS_def field_eq_def digest_getattr_def)
  show ?thesis
    unfolding ev_def[symmetric] ex_def[symmetric] Let_def
    using decide_measurement_decisive[OF l m] a by simp
qed

end
