(* ===== verification/Families.thy ===== *)
theory Families
  imports PyStr "HOL-Library.Char_ord" "HOL-Library.List_Lexorder"
begin

section \<open>Firmware families and board types (firmware.py, config.py, stop\_services.py)\<close>

text \<open>
  The declared \<open>[firmware ...]\<close> and \<open>[type ...]\<close> sections as values, and the pure questions
  the rest of the program asks of them: where a tree is, which family a board runs, which is its
  bootloader, which units a write stops. Reading the sections from a document is in the theories
  above this one.

  \<open>os.path.expanduser\<close> reads the process environment, so it is an argument.
\<close>

subsection \<open>Families\<close>

definition DEFAULT_BUILDER :: string where "DEFAULT_BUILDER = ''kconfig_make''"
definition BUILDERS :: "string list" where "BUILDERS = [''cmake'', ''kconfig_make'', ''platformio'']"
definition FLASHER_NAMES :: "string list" where
  "FLASHER_NAMES = [''bootsel'', ''dfu_util'', ''flashtool'', ''platformio'']"
definition HELPER_NAMES :: "string list" where
  "HELPER_NAMES = [''cartographer'', ''klipper'', ''knomi_serial'', ''roadrunner'']"
definition PROVISIONING_HELPERS :: "string list" where "PROVISIONING_HELPERS = [''roadrunner'']"

definition SUGGESTED_FLASHERS :: "(string, string) dict" where
  "SUGGESTED_FLASHERS =
     [(''cmake'', ''bootsel''), (''kconfig_make'', ''flashtool''), (''platformio'', ''platformio'')]"

definition SEEDED_KEYS :: "(string, (string, string) dict) dict" where
  "SEEDED_KEYS =
     [(''klipper'', [(''flashers'', ''flashtool'')]),
      (''katapult'', [(''flashers'', ''dfu_util, bootsel'')])]"

record family =
  fam_name :: string
  fam_source :: string
  fam_artifact :: string
  fam_builder :: string
  fam_cmake_args :: string
  fam_helper :: string
  fam_flashers :: "string list"
  fam_submodules :: bool
  fam_bootloader :: bool
  fam_auto_provision :: bool
  fam_stop_services :: "string list option"

type_synonym families = "(string, family) dict"

text \<open>\<open>os.path.join\<close> of two components.\<close>

definition path_join :: "string \<Rightarrow> string \<Rightarrow> string" where
  "path_join a b =
     (if starts_with ''/'' b then b
      else if a = [] \<or> ends_with ''/'' a then a @ b else a @ ''/'' @ b)"

definition expand_home :: "(string \<Rightarrow> string) \<Rightarrow> string \<Rightarrow> string \<Rightarrow> string" where
  "expand_home expanduser path home =
     (let text = strip path in
      if text = ''~'' then home
      else if starts_with ''~/'' text \<or> starts_with [CHR ''~'', CHR 0x5C] text
      then path_join home (drop 2 text)
      else expanduser text)"

definition source_dir :: "(string \<Rightarrow> string) \<Rightarrow> string \<Rightarrow> family \<Rightarrow> string" where
  "source_dir expanduser home f =
     (if fam_source f \<noteq> [] then expand_home expanduser (fam_source f) home
      else path_join home (fam_name f))"

definition artifact_name :: "family \<Rightarrow> string" where
  "artifact_name f = (if fam_artifact f \<noteq> [] then fam_artifact f else fam_name f)"

definition built_artifact :: "(string \<Rightarrow> string) \<Rightarrow> string \<Rightarrow> family \<Rightarrow> string \<Rightarrow> string" where
  "built_artifact expanduser home f ext =
     path_join (path_join (source_dir expanduser home f) ''out'') (artifact_name f @ ''.'' @ ext)"

definition names_of :: "families \<Rightarrow> string list" where
  "names_of families = sort (dict_keys families)"

definition suggested_flashers :: "family \<Rightarrow> string" where
  "suggested_flashers f =
     (let seeded = (case dict_get SEEDED_KEYS (fam_name f) of None \<Rightarrow> None
                    | Some ks \<Rightarrow> dict_get ks ''flashers'') in
      case seeded of
        Some s \<Rightarrow> if s \<noteq> [] then s
          else if fam_bootloader f then ''dfu_util, bootsel''
          else (case dict_get SUGGESTED_FLASHERS (fam_builder f) of None \<Rightarrow> ''flashtool'' | Some x \<Rightarrow> x)
      | None \<Rightarrow> if fam_bootloader f then ''dfu_util, bootsel''
          else (case dict_get SUGGESTED_FLASHERS (fam_builder f) of None \<Rightarrow> ''flashtool'' | Some x \<Rightarrow> x))"

definition missing_section_snippet :: "string \<Rightarrow> string" where
  "missing_section_snippet fw =
     (let lines = [''[firmware '' @ fw @ '']'', ''source: ~/'' @ fw] @
            map (\<lambda>(k, v). k @ '': '' @ v) (case dict_get SEEDED_KEYS fw of None \<Rightarrow> [] | Some ks \<Rightarrow> ks);
          body = join [CHR 0x0A] (map (\<lambda>l. ''    '' @ l) lines) in
      ''No [firmware '' @ fw @ ''] section is declared. Add one to mcu-updater.cfg:'' @ [CHR 0x0A] @ body)"

datatype config_error = ConfigCorrupt string

definition missing_section_message :: "string \<Rightarrow> string" where
  "missing_section_message fw =
     missing_section_snippet fw @ [CHR 0x0A] @
     ''Re-running install.sh writes the klipper and katapult sections for you.'' @ [CHR 0x0A] @
     ''Every section is shown, commented, in mcu-updater.cfg and README.md in the mcu-updater checkout.''"

definition resolve_family :: "families \<Rightarrow> string \<Rightarrow> config_error + family" where
  "resolve_family families fw =
     (case dict_get families fw of
        None \<Rightarrow> Inl (ConfigCorrupt (missing_section_message fw))
      | Some f \<Rightarrow> Inr f)"

subsection \<open>Makefile patches\<close>

record makefile_patch =
  patch_file :: string
  patch_line :: string

definition PATCH_SEPARATOR :: string where "PATCH_SEPARATOR = ''->''"

definition patch_valid :: "makefile_patch \<Rightarrow> bool" where
  "patch_valid p = (patch_file p \<noteq> [] \<and> patch_line p \<noteq> [])"

definition patch_parse :: "string \<Rightarrow> makefile_patch option" where
  "patch_parse raw =
     (if \<not> contains PATCH_SEPARATOR raw then None
      else (let (target, _, line) = partition_str PATCH_SEPARATOR raw;
                p = \<lparr>patch_file = strip target, patch_line = strip line\<rparr> in
            if patch_valid p then Some p else None))"

definition patch_render :: "makefile_patch \<Rightarrow> string" where
  "patch_render p = patch_file p @ '' '' @ PATCH_SEPARATOR @ '' '' @ patch_line p"

subsection \<open>Board types\<close>

record fw_config =
  extra_args :: string
  makefile_patches :: "makefile_patch list"
  extra_repos :: "string list"

definition empty_fw_config :: fw_config where
  "empty_fw_config = \<lparr>extra_args = [], makefile_patches = [], extra_repos = []\<rparr>"

record mcu_type =
  mt_name :: string
  mt_chipset :: string
  mt_serials :: "string list"
  mt_canbus_uuids :: "string list"
  mt_fws :: "(string, fw_config) dict"
  mt_firmwares :: "string list"
  mt_profile :: string
  mt_stop_services :: "string list option"

definition is_bootloader :: "string \<Rightarrow> families option \<Rightarrow> bool" where
  "is_bootloader fw families =
     (case (case families of None \<Rightarrow> None | Some fs \<Rightarrow> dict_get fs fw) of
        Some f \<Rightarrow> fam_bootloader f
      | None \<Rightarrow> fw = ''katapult'')"

text \<open>\<open>McuType.fw\<close> creates the slot it is asked for; \<open>fw_get\<close> does not.\<close>

definition mt_fw :: "mcu_type \<Rightarrow> string \<Rightarrow> mcu_type \<times> fw_config" where
  "mt_fw m fw =
     (case dict_get (mt_fws m) fw of
        Some c \<Rightarrow> (m, c)
      | None \<Rightarrow> (m\<lparr>mt_fws := dict_set (mt_fws m) fw empty_fw_config\<rparr>, empty_fw_config))"

definition fw_get :: "mcu_type \<Rightarrow> string \<Rightarrow> fw_config" where
  "fw_get m fw = (case dict_get (mt_fws m) fw of Some c \<Rightarrow> c | None \<Rightarrow> empty_fw_config)"

definition mt_families :: "mcu_type \<Rightarrow> string list" where
  "mt_families m = mt_firmwares m"

definition application_of :: "string list \<Rightarrow> families option \<Rightarrow> string" where
  "application_of firmwares families =
     (case find (\<lambda>fw. \<not> is_bootloader fw families) firmwares of
        Some fw \<Rightarrow> fw
      | None \<Rightarrow> if firmwares \<noteq> [] then hd firmwares else ''klipper'')"

definition bootloader_of :: "string list \<Rightarrow> families option \<Rightarrow> string option" where
  "bootloader_of firmwares families = find (\<lambda>fw. is_bootloader fw families) firmwares"

definition fw_order :: "mcu_type \<Rightarrow> string list" where
  "fw_order m =
     filter (\<lambda>fw. dict_has (mt_fws m) fw) (mt_firmwares m) @
     filter (\<lambda>fw. fw \<notin> set (mt_firmwares m)) (dict_keys (mt_fws m))"

definition install_family :: "string list \<Rightarrow> families option \<Rightarrow> string" where
  "install_family firmwares families =
     (case bootloader_of firmwares families of
        Some boot \<Rightarrow> boot
      | None \<Rightarrow> application_of firmwares families)"

subsection \<open>Type names\<close>

definition TYPE_NAME_MAX :: nat where "TYPE_NAME_MAX = 64"

definition type_name_char :: "char \<Rightarrow> bool" where
  "type_name_char c =
     (let n = code c in 65 \<le> n \<and> n \<le> 90 \<or> 97 \<le> n \<and> n \<le> 122 \<or> 48 \<le> n \<and> n \<le> 57
        \<or> c = CHR ''.'' \<or> c = CHR ''_'' \<or> c = CHR ''-'')"

datatype name_error = EmptyName | OuterWhitespace | NameTooLong nat | DotName | BadCharacters

definition validate_type_name :: "string \<Rightarrow> name_error + string" where
  "validate_type_name name =
     (let stripped = strip name in
      if stripped = [] then Inl EmptyName
      else if stripped \<noteq> name then Inl OuterWhitespace
      else if length stripped > TYPE_NAME_MAX then Inl (NameTooLong (length stripped))
      else if stripped = ''.'' \<or> stripped = ''..'' then Inl DotName
      else if \<not> list_all type_name_char stripped then Inl BadCharacters
      else Inr stripped)"

subsection \<open>Units to stop\<close>

definition DEFAULT_MCU :: "string list" where "DEFAULT_MCU = [''klipper'']"
definition DEFAULT_PLATFORMIO :: "string list" where "DEFAULT_PLATFORMIO = [''klipper'', ''knomi_serial'']"

fun resolve_stop_services :: "string list option list \<Rightarrow> string list \<Rightarrow> string list" where
  "resolve_stop_services [] dflt = dflt"
| "resolve_stop_services (None # levels) dflt = resolve_stop_services levels dflt"
| "resolve_stop_services (Some l # levels) dflt = l"

definition for_mcu :: "mcu_type \<Rightarrow> string list option \<Rightarrow> families \<Rightarrow> config_error + string list" where
  "for_mcu m updater families =
     and_then (resolve_family families (application_of (mt_firmwares m) (Some families))) (\<lambda>family.
       Inr (resolve_stop_services [mt_stop_services m, fam_stop_services family, updater] DEFAULT_MCU))"

definition for_platformio ::
  "string \<Rightarrow> string list option \<Rightarrow> string list option \<Rightarrow> families \<Rightarrow> config_error + string list" where
  "for_platformio fw type_level updater families =
     and_then (resolve_family families fw) (\<lambda>family.
       Inr (resolve_stop_services [type_level, fam_stop_services family, updater] DEFAULT_PLATFORMIO))"

definition for_cmake ::
  "string \<Rightarrow> string list option \<Rightarrow> string list option \<Rightarrow> families \<Rightarrow> config_error + string list" where
  "for_cmake fw type_level updater families =
     and_then (resolve_family families fw) (\<lambda>family.
       Inr (resolve_stop_services [type_level, fam_stop_services family, updater] DEFAULT_MCU))"

subsection \<open>Lemmas\<close>

lemma resolve_family_Inr: "resolve_family fs fw = Inr f \<longleftrightarrow> dict_get fs fw = Some f"
  by (auto simp: resolve_family_def split: option.splits)

lemma application_not_bootloader:
  "\<exists>fw \<in> set fs. \<not> is_bootloader fw fams \<Longrightarrow>
   application_of fs fams \<in> set fs \<and> \<not> is_bootloader (application_of fs fams) fams"
  by (auto simp: application_of_def find_Some_iff find_None_iff split: option.splits)

lemma bootloader_of_Some:
  "bootloader_of fs fams = Some b \<Longrightarrow> b \<in> set fs \<and> is_bootloader b fams"
  by (auto simp: bootloader_of_def find_Some_iff)

text \<open>An accepted type name is safe as a section header and as a directory name: it is exactly
  the given text, 1 to 64 characters, none of them a path separator, a bracket, white space or a
  control character, and it is neither "." nor ".."; and every such name over the permitted
  characters is accepted.\<close>

theorem validate_type_name_safe:
  "validate_type_name name = Inr r \<longleftrightarrow>
   r = name \<and> name \<noteq> [] \<and> length name \<le> 64 \<and> list_all type_name_char name \<and>
   name \<noteq> ''.'' \<and> name \<noteq> ''..'' \<and> CHR ''/'' \<notin> set name \<and> CHR '']'' \<notin> set name \<and>
   (\<forall>c \<in> set name. \<not> is_space c)"
proof -
  have good: "c \<noteq> CHR ''/'' \<and> c \<noteq> CHR '']'' \<and> \<not> is_space c" if "type_name_char c" for c
    using that by (auto simp: type_name_char_def is_space_def Let_def)
  have strip: "strip name = name" if "list_all type_name_char name"
  proof (rule strip_id)
    have "name = [] \<or> hd name \<in> set name \<and> last name \<in> set name" by auto
    with that good show "stripped name" by (auto simp: stripped_def list_all_iff)
  qed
  have "list_all type_name_char name \<Longrightarrow>
      CHR ''/'' \<notin> set name \<and> CHR '']'' \<notin> set name \<and> (\<forall>c \<in> set name. \<not> is_space c)"
    using good by (auto simp: list_all_iff)
  then show ?thesis
    using strip by (auto simp: validate_type_name_def Let_def TYPE_NAME_MAX_def)
qed

theorem validate_type_name_safe_witness:
  "validate_type_name ''bttebb36'' = Inr ''bttebb36'' \<and>
   \<not> (\<exists>r. validate_type_name ''../x'' = Inr r)"
proof
  show "validate_type_name ''bttebb36'' = Inr ''bttebb36''"
    unfolding validate_type_name_safe by (simp add: type_name_char_def is_space_def)
  show "\<not> (\<exists>r. validate_type_name ''../x'' = Inr r)"
    unfolding validate_type_name_safe by simp
qed

lemma partition_before:
  "\<not> contains ''->'' f \<Longrightarrow>
   partition_str ''->'' (f @ '' -> '' @ l) = (f @ '' '', True, '' '' @ l)"
proof (induction f)
  case (Cons c f)
  then have "\<not> starts_with ''->'' (c # f @ '' -> '' @ l)"
    by (cases f) (auto simp: starts_with_def)
  with Cons show ?case by simp
qed (simp add: starts_with_def)

lemma contains_append: "starts_with p s \<Longrightarrow> p \<noteq> [] \<Longrightarrow> contains p (a @ s)"
  by (induction a) (cases s; auto simp: starts_with_iff)+

text \<open>A makefile patch survives its own spelling: parsing what \<open>render\<close> writes gives the patch
  back, for every patch with two non-empty stripped halves whose file name does not itself
  contain the separator, and everything \<open>parse\<close> accepts has two non-empty stripped halves.\<close>

theorem patch_round_trip:
  "(patch_valid p \<and> stripped (patch_file p) \<and> stripped (patch_line p) \<and>
      \<not> contains PATCH_SEPARATOR (patch_file p) \<longrightarrow> patch_parse (patch_render p) = Some p) \<and>
   (patch_parse raw = Some q \<longrightarrow>
      patch_valid q \<and> stripped (patch_file q) \<and> stripped (patch_line q))"
proof (intro conjI impI)
  assume a: "patch_valid p \<and> stripped (patch_file p) \<and> stripped (patch_line p) \<and>
      \<not> contains PATCH_SEPARATOR (patch_file p)"
  let ?f = "patch_file p" and ?l = "patch_line p"
  have r: "patch_render p = ?f @ '' -> '' @ ?l" by (simp add: patch_render_def PATCH_SEPARATOR_def)
  have "contains ''->'' ((?f @ '' '') @ ''-> '' @ ?l)" by (rule contains_append) (simp_all add: starts_with_def)
  then have c: "contains ''->'' (?f @ '' -> '' @ ?l)" by simp
  have p: "partition_str ''->'' (?f @ '' -> '' @ ?l) = (?f @ '' '', True, '' '' @ ?l)"
    by (rule partition_before) (use a in \<open>simp add: PATCH_SEPARATOR_def\<close>)
  have sp: "\<forall>ch \<in> set '' ''. is_space ch" by (simp add: is_space_def)
  have "strip ('' '' @ ?l) = ?l" using strip_append_space[OF sp, of ?l] a by (simp add: strip_id)
  moreover have "strip (?f @ '' '') = ?f"
  proof -
    have "?f \<noteq> []" "\<not> is_space (hd ?f)" using a by (auto simp: patch_valid_def stripped_def)
    then have "lstrip (?f @ '' '') = ?f @ '' ''" by (intro lstrip_id) simp
    moreover have "rstrip (?f @ '' '') = rstrip ?f" by (simp add: rstrip_def is_space_def)
    moreover have "rstrip ?f = ?f" using a by (intro rstrip_id) (auto simp: stripped_def)
    ultimately show ?thesis by (simp add: strip_def)
  qed
  ultimately show "patch_parse (patch_render p) = Some p"
    using a c p by (simp add: patch_parse_def r PATCH_SEPARATOR_def patch_valid_def)
next
  assume "patch_parse raw = Some q"
  then have q: "patch_valid q \<and> (\<exists>a b. q = \<lparr>patch_file = strip a, patch_line = strip b\<rparr>)"
    by (auto simp: patch_parse_def Let_def split: if_splits prod.splits)
  then show "patch_valid q" "stripped (patch_file q)" "stripped (patch_line q)" by auto
qed

theorem patch_round_trip_witness:
  "patch_parse (patch_render \<lparr>patch_file = ''src/Makefile'', patch_line = ''src-y += buffer.c''\<rparr>) =
     Some \<lparr>patch_file = ''src/Makefile'', patch_line = ''src-y += buffer.c''\<rparr>"
  by (rule patch_round_trip[THEN conjunct1, THEN mp])
     (simp add: patch_valid_def stripped_def is_space_def PATCH_SEPARATOR_def starts_with_def)

end
