(* ===== verification/Selection.thy ===== *)
theory Selection
  imports Families Artifacts Verdict
begin

section \<open>Which flasher writes a device (flashers/spec.py, flashers/registry.py, flashers/*.py)\<close>

text \<open>
  The four flashers as values (what they declare) with their \<open>supports\<close> and \<open>target\<close> methods as
  functions, and the selection that walks a family's own list. A helper is one of the four
  registered classes; a capability question (\<open>isinstance\<close> of a runtime-checkable protocol) is
  a predicate on it. \<open>detail\<close> is the caller's addressing payload, a JSON object; a live object in
  it (a helper, an environment) is represented by its name.

  What the BOOTSEL bus shows (\<open>bootsel_devices\<close> with the id each node's name gives) is an argument
  of \<open>target\<close>.
\<close>

definition STATE_DFU :: string where "STATE_DFU = ''dfu''"
definition STATE_BOOTSEL :: string where "STATE_BOOTSEL = ''bootsel''"
definition STATE_ESP_ROM :: string where "STATE_ESP_ROM = ''esp_rom''"

definition KIND_SERIAL :: string where "KIND_SERIAL = ''serial''"
definition KIND_CANBUS :: string where "KIND_CANBUS = ''canbus_uuid''"
definition KIND_PORT :: string where "KIND_PORT = ''port''"
definition KIND_BARE :: string where "KIND_BARE = ''bare''"

lemmas device_kind_defs = KIND_SERIAL_def KIND_CANBUS_def KIND_PORT_def KIND_BARE_def

subsection \<open>Helpers\<close>

datatype helper = CartographerHelper | KlipperHelper | KnomiSerialHelper | RoadrunnerHelper

definition HELPERS :: "(string, helper) dict" where
  "HELPERS = [(''cartographer'', CartographerHelper), (''klipper'', KlipperHelper),
              (''knomi_serial'', KnomiSerialHelper), (''roadrunner'', RoadrunnerHelper)]"

definition helper_name :: "helper \<Rightarrow> string" where
  "helper_name h = (case h of CartographerHelper \<Rightarrow> ''cartographer'' | KlipperHelper \<Rightarrow> ''klipper''
     | KnomiSerialHelper \<Rightarrow> ''knomi_serial'' | RoadrunnerHelper \<Rightarrow> ''roadrunner'')"

definition helper_for_name :: "string \<Rightarrow> string \<Rightarrow> config_error + helper option" where
  "helper_for_name name fam =
     (if name = [] then Inr None
      else case dict_get HELPERS name of
        None \<Rightarrow> Inl (ConfigCorrupt (''firmware family '' @ fam @ '' configures unknown helper '' @ name))
      | Some h \<Rightarrow> Inr (Some h))"

definition bootsel_requester :: "helper option \<Rightarrow> helper option" where
  "bootsel_requester h =
     (case h of Some KlipperHelper \<Rightarrow> h | Some RoadrunnerHelper \<Rightarrow> h | _ \<Rightarrow> None)"

definition identifier_of :: "helper option \<Rightarrow> helper option" where
  "identifier_of h = (case h of Some KnomiSerialHelper \<Rightarrow> h | _ \<Rightarrow> None)"

subsection \<open>Devices, targets, flashers\<close>

record device =
  dev_type :: string
  dev_id :: string
  dev_chipset :: string
  dev_state :: string
  dev_fw :: string
  dev_kind :: string
  dev_detail :: "(string \<times> json) list"

record flash_target =
  tg_flasher :: string
  tg_type :: json
  tg_id :: json
  tg_stop_services :: "string list"
  tg_detail :: "(string \<times> json) list"
  tg_needs_stop :: "bool option"
  tg_artifact :: "artifact option"

record flasher =
  fl_name :: string
  fl_chipsets :: "string list"
  fl_states :: "string list"
  fl_needs_stop :: bool
  fl_accepts :: "string list"
  fl_hint :: "string option" \<comment> \<open>\<open>candidate_hint\<close>, for a \<open>CandidateScanner\<close>\<close>

definition Flashtool :: flasher where
  "Flashtool = \<lparr>fl_name = ''flashtool'', fl_chipsets = [''stm32'', ''rp2040'', ''lpc176''],
     fl_states = [STATE_KLIPPER, STATE_KATAPULT], fl_needs_stop = True, fl_accepts = [KIND_BIN],
     fl_hint = None\<rparr>"

definition PlatformIO :: flasher where
  "PlatformIO = \<lparr>fl_name = ''platformio'', fl_chipsets = [''esp32''], fl_states = [STATE_ESP_ROM],
     fl_needs_stop = True, fl_accepts = [KIND_PIO_ENV],
     fl_hint = Some ''Plug the device in. Nothing has to be held or jumpered: the upload resets it into its ROM itself.''\<rparr>"

definition DfuUtil :: flasher where
  "DfuUtil = \<lparr>fl_name = ''dfu_util'', fl_chipsets = [''stm32''], fl_states = [STATE_DFU],
     fl_needs_stop = False, fl_accepts = [KIND_BIN],
     fl_hint = Some ''Put the board in DFU mode - fit its boot jumper, or hold BOOT - and plug it in.''\<rparr>"

definition Bootsel :: flasher where
  "Bootsel = \<lparr>fl_name = ''bootsel'', fl_chipsets = [''rp2040''], fl_states = [STATE_BOOTSEL],
     fl_needs_stop = False, fl_accepts = [KIND_UF2],
     fl_hint = Some ''Hold BOOT / BOOTSEL while plugging the board in, so it mounts as a drive.''\<rparr>"

definition FLASHERS :: "flasher list" where
  "FLASHERS = [Flashtool, PlatformIO, DfuUtil, Bootsel]"

lemmas flasher_defs = Flashtool_def PlatformIO_def DfuUtil_def Bootsel_def FLASHERS_def

definition by_name_get :: "string \<Rightarrow> flasher option" where
  "by_name_get name = dict_get (map (\<lambda>f. (fl_name f, f)) FLASHERS) name"

definition by_name :: "string \<Rightarrow> py_error + flasher" where
  "by_name name = (case by_name_get name of None \<Rightarrow> Inl KeyError | Some f \<Rightarrow> Inr f)"

definition candidate_scanner :: "flasher \<Rightarrow> bool" where
  "candidate_scanner f = (fl_hint f \<noteq> None)"

definition chipset_matches :: "flasher \<Rightarrow> string \<Rightarrow> bool" where
  "chipset_matches f chipset = (\<exists>prefix \<in> set (fl_chipsets f). starts_with prefix chipset)"

subsection \<open>Can this flasher write that device?\<close>

definition flashtool_supports :: "device \<Rightarrow> helper option \<Rightarrow> bool" where
  "flashtool_supports d h = (dev_kind d \<in> {KIND_SERIAL, KIND_CANBUS} \<and> chipset_matches Flashtool (dev_chipset d))"

definition platformio_supports :: "device \<Rightarrow> helper option \<Rightarrow> bool" where
  "platformio_supports d h =
     (if dev_kind d = KIND_BARE
      then dev_state d \<in> set (fl_states PlatformIO) \<and> chipset_matches PlatformIO (dev_chipset d)
      else dev_kind d = KIND_PORT)"

definition dfu_util_supports :: "device \<Rightarrow> helper option \<Rightarrow> bool" where
  "dfu_util_supports d h =
     (dev_kind d = KIND_BARE \<and> dev_state d \<in> set (fl_states DfuUtil) \<and> chipset_matches DfuUtil (dev_chipset d))"

definition bootsel_supports :: "device \<Rightarrow> helper option \<Rightarrow> bool" where
  "bootsel_supports d h =
     (if dev_state d \<in> set (fl_states Bootsel) then chipset_matches Bootsel (dev_chipset d)
      else dev_kind d = KIND_SERIAL \<and> bootsel_requester h \<noteq> None)"

definition supports :: "flasher \<Rightarrow> device \<Rightarrow> helper option \<Rightarrow> bool" where
  "supports f d h =
     (if fl_name f = ''flashtool'' then flashtool_supports d h
      else if fl_name f = ''platformio'' then platformio_supports d h
      else if fl_name f = ''dfu_util'' then dfu_util_supports d h
      else bootsel_supports d h)"

subsection \<open>Its target\<close>

text \<open>\<open>{**base, **detail}\<close>: later keys win, in place.\<close>

definition dict_merge :: "('k, 'v) dict \<Rightarrow> ('k, 'v) dict \<Rightarrow> ('k, 'v) dict" where
  "dict_merge a b = fold (\<lambda>(k, v) d. dict_set d k v) b a"

definition flashtool_target ::
  "device \<Rightarrow> artifact \<Rightarrow> string list \<Rightarrow> py_error + flash_target" where
  "flashtool_target d a stop_services =
     (let identity = (if dev_kind d = KIND_CANBUS then ''uuid'' else ''serial'');
          board = dict_merge [(''type'', JStr (dev_type d)), (identity, JStr (dev_id d)),
            (''chipset'', JStr (dev_chipset d)), (''fw'', JStr (dev_fw d))] (dev_detail d) in
      and_then (dict_index board ''type'') (\<lambda>ty.
        and_then (if truthy (jget board ''uuid'') then Inr (jget board ''uuid'') else dict_index board ''serial'')
          (\<lambda>i. Inr \<lparr>tg_flasher = ''flashtool'', tg_type = ty, tg_id = i, tg_stop_services = stop_services,
            tg_detail = board, tg_needs_stop = None, tg_artifact = Some a\<rparr>)))"

definition platformio_target :: "device \<Rightarrow> helper option \<Rightarrow> artifact \<Rightarrow> string list \<Rightarrow> flash_target" where
  "platformio_target d h a stop_services =
     \<lparr>tg_flasher = ''platformio'', tg_type = JStr (dev_type d), tg_id = JStr (dev_id d),
      tg_stop_services = stop_services,
      tg_detail = dict_merge (dev_detail d)
        [(''identifier'', case identifier_of h of None \<Rightarrow> JNull | Some x \<Rightarrow> JStr (helper_name x))],
      tg_needs_stop = None, tg_artifact = Some a\<rparr>"

definition dfu_util_target :: "device \<Rightarrow> artifact \<Rightarrow> flash_target" where
  "dfu_util_target d a =
     \<lparr>tg_flasher = ''dfu_util'', tg_type = JStr (dev_chipset d), tg_id = JStr (dev_id d),
      tg_stop_services = [],
      tg_detail = [(''dfu_serial'', if dev_id d = [] then JNull else JStr (dev_id d)),
                   (''chipset'', JStr (dev_chipset d))],
      tg_needs_stop = None, tg_artifact = Some a\<rparr>"

definition bootsel_target ::
  "string option list \<Rightarrow> device \<Rightarrow> helper option \<Rightarrow> artifact \<Rightarrow> string list \<Rightarrow> flash_target" where
  "bootsel_target present d h a stop_services =
     (case (if dev_state d \<in> set (fl_states Bootsel) then None else bootsel_requester h) of
        Some requester \<Rightarrow>
          \<lparr>tg_flasher = ''bootsel'', tg_type = JStr (dev_type d), tg_id = JStr (dev_id d),
           tg_stop_services = stop_services,
           tg_detail = [(''chipset'', JStr (dev_chipset d)), (''helper'', JStr (helper_name requester)),
                        (''fw'', JStr (dev_fw d))],
           tg_needs_stop = Some True, tg_artifact = Some a\<rparr>
      | None \<Rightarrow>
          \<lparr>tg_flasher = ''bootsel'', tg_type = JStr (dev_chipset d),
           tg_id = JStr (case present of [Some i] \<Rightarrow> i | _ \<Rightarrow> []),
           tg_stop_services = [], tg_detail = [(''chipset'', JStr (dev_chipset d))],
           tg_needs_stop = None, tg_artifact = Some a\<rparr>)"

definition flasher_target ::
  "string option list \<Rightarrow> flasher \<Rightarrow> device \<Rightarrow> helper option \<Rightarrow> artifact \<Rightarrow> string list \<Rightarrow> py_error + flash_target" where
  "flasher_target present f d h a stop_services =
     (if fl_name f = ''flashtool'' then flashtool_target d a stop_services
      else if fl_name f = ''platformio'' then Inr (platformio_target d h a stop_services)
      else if fl_name f = ''dfu_util'' then Inr (dfu_util_target d a)
      else Inr (bootsel_target present d h a stop_services))"

subsection \<open>Selection\<close>

datatype select_error =
    NoFlasher "string list" refusal_reason \<comment> \<open>the missing kinds, and why\<close>
  | SelectConfig config_error
  | SelectRaise py_error
and refusal_reason =
    BinWithoutUf2 string
  | Uf2WithoutBin string bootsel_route
  | NothingStaged string "string list"
  | NothingWrites "string list"
and bootsel_route = NoRoute | AddBootsel | AddHelper | AddBootselAndHelper "string list"

fun resolve_flasher ::
  "string list \<Rightarrow> device \<Rightarrow> helper option \<Rightarrow> staged \<Rightarrow> py_error + (flasher \<times> artifact) option" where
  "resolve_flasher [] d h st = Inr None"
| "resolve_flasher (name # names) d h st =
     and_then (by_name name) (\<lambda>f.
       if \<not> supports f d h then resolve_flasher names d h st
       else case first_of st (fl_accepts f) of
         Some a \<Rightarrow> Inr (Some (f, a))
       | None \<Rightarrow> resolve_flasher names d h st)"

text \<open>Only asked after \<open>resolve\<close> went through the whole list, so every name is known.\<close>

definition unstaged :: "string list \<Rightarrow> device \<Rightarrow> helper option \<Rightarrow> (string \<times> string list) list" where
  "unstaged names d h =
     List.map_filter (\<lambda>name. case by_name_get name of
        None \<Rightarrow> None
      | Some f \<Rightarrow> if supports f d h then Some (name, fl_accepts f) else None) names"

definition bootsel_route_of :: "family \<Rightarrow> device \<Rightarrow> helper option \<Rightarrow> bootsel_route" where
  "bootsel_route_of fam d h =
     (if dev_kind d \<noteq> KIND_SERIAL then NoRoute
      else if bootsel_requester h \<noteq> None then AddBootsel
      else if h \<noteq> None then NoRoute
      else if ''bootsel'' \<in> set (fam_flashers fam) then AddHelper
      else AddBootselAndHelper (fam_flashers fam @ [''bootsel'']))"

definition refusal_error ::
  "family \<Rightarrow> device \<Rightarrow> (string \<times> string list) list \<Rightarrow> staged \<Rightarrow> helper option \<Rightarrow> select_error" where
  "refusal_error fam d waiting st h =
     (let missing = dedup (concat (map snd waiting));
          kinds = (if fam_builder fam = DEFAULT_BUILDER then kind ` set (artifacts st) else {}) in
      NoFlasher missing
        (case waiting of
           [] \<Rightarrow> NothingWrites (fam_flashers fam)
         | (name, ks) # _ \<Rightarrow>
             if KIND_BIN \<in> kinds \<and> KIND_UF2 \<notin> kinds then BinWithoutUf2 name
             else if KIND_UF2 \<in> kinds \<and> KIND_BIN \<notin> kinds
             then Uf2WithoutBin name (bootsel_route_of fam d h)
             else NothingStaged name ks))"

definition py_of :: "py_error + 'a \<Rightarrow> select_error + 'a" where
  "py_of r = (case r of Inl e \<Rightarrow> Inl (SelectRaise e) | Inr x \<Rightarrow> Inr x)"

definition cfg_of :: "config_error + 'a \<Rightarrow> select_error + 'a" where
  "cfg_of r = (case r of Inl e \<Rightarrow> Inl (SelectConfig e) | Inr x \<Rightarrow> Inr x)"

definition select ::
  "string option list \<Rightarrow> family \<Rightarrow> device \<Rightarrow> helper option \<Rightarrow> string list \<Rightarrow> staged \<Rightarrow> select_error + flash_target" where
  "select present fam d h stop_services st =
     and_then (py_of (resolve_flasher (fam_flashers fam) d h st)) (\<lambda>choice.
       case choice of
         None \<Rightarrow> Inl (refusal_error fam d (unstaged (fam_flashers fam) d h) st h)
       | Some (f, a) \<Rightarrow> py_of (flasher_target present f d h a stop_services))"

text \<open>\<open>staged_for\<close> is what the family's builder staged for a type (\<open>providers.staged\<close>).\<close>

definition select_device ::
  "string option list \<Rightarrow> families \<Rightarrow> (string \<Rightarrow> family \<Rightarrow> staged) \<Rightarrow> device \<Rightarrow> string list \<Rightarrow> select_error + flash_target" where
  "select_device present families staged_for d stop_services =
     and_then (cfg_of (resolve_family families (dev_fw d))) (\<lambda>fam.
       and_then (cfg_of (helper_for_name (fam_helper fam) (fam_name fam))) (\<lambda>h.
         select present fam d h stop_services (staged_for (dev_type d) fam)))"

record refusal =
  rf_type :: string
  rf_id :: string
  rf_missing :: "string list"
  rf_reason :: refusal_reason

fun select_each ::
  "string option list \<Rightarrow> families \<Rightarrow> (string \<Rightarrow> family \<Rightarrow> staged) \<Rightarrow> (device \<times> string list) list \<Rightarrow>
   select_error + flash_target list \<times> refusal list" where
  "select_each present families staged_for [] = Inr ([], [])"
| "select_each present families staged_for ((d, units) # reqs) =
     (case select_device present families staged_for d units of
        Inr t \<Rightarrow> and_then (select_each present families staged_for reqs) (\<lambda>(ts, rs). Inr (t # ts, rs))
      | Inl (NoFlasher missing why) \<Rightarrow>
          and_then (select_each present families staged_for reqs) (\<lambda>(ts, rs).
            Inr (ts, \<lparr>rf_type = dev_type d, rf_id = dev_id d, rf_missing = missing, rf_reason = why\<rparr> # rs))
      | Inl e \<Rightarrow> Inl e)"

subsection \<open>The first install of a bare board\<close>

datatype install_reason =
    NoFirmwareDeclared
  | FamilyMissing string
  | NoChipsetDeclared
  | AddWriter string string string \<comment> \<open>chipset, ROM state, the flasher to add\<close>
  | NoneWritesBare "string list"
  | NothingScans "string list"

record first_install_result =
  fi_fw :: string
  fi_flasher :: "string option"
  fi_state :: string
  fi_reason :: "install_reason option"

definition bare_device :: "string \<Rightarrow> string \<Rightarrow> string \<Rightarrow> string \<Rightarrow> device" where
  "bare_device name chipset fw st =
     \<lparr>dev_type = name, dev_id = [], dev_chipset = chipset, dev_state = st, dev_fw = fw,
      dev_kind = KIND_BARE, dev_detail = []\<rparr>"

definition first_state :: "string \<Rightarrow> string \<Rightarrow> string \<Rightarrow> flasher \<Rightarrow> string option" where
  "first_state name chipset fw f =
     find (\<lambda>st. supports f (bare_device name chipset fw st) None) (fl_states f)"

fun first_writer_of :: "string \<Rightarrow> string \<Rightarrow> string \<Rightarrow> flasher list \<Rightarrow> (flasher \<times> string) option" where
  "first_writer_of name chipset fw [] = None"
| "first_writer_of name chipset fw (f # fs) =
     (case first_state name chipset fw f of
        Some st \<Rightarrow> Some (f, st)
      | None \<Rightarrow> first_writer_of name chipset fw fs)"

definition first_install :: "string \<Rightarrow> string \<Rightarrow> string list \<Rightarrow> families \<Rightarrow> first_install_result" where
  "first_install name chipset firmwares families =
     (if firmwares = [] then
        \<lparr>fi_fw = [], fi_flasher = None, fi_state = [], fi_reason = Some NoFirmwareDeclared\<rparr>
      else
        (let fw = install_family firmwares (Some families) in
         case dict_get families fw of
           None \<Rightarrow> \<lparr>fi_fw = fw, fi_flasher = None, fi_state = [], fi_reason = Some (FamilyMissing fw)\<rparr>
         | Some fam \<Rightarrow>
             (let listed = List.map_filter by_name_get (fam_flashers fam);
                  scanners = filter candidate_scanner listed in
              case first_writer_of name chipset fw scanners of
                Some (f, st) \<Rightarrow>
                  \<lparr>fi_fw = fw, fi_flasher = Some (fl_name f), fi_state = st, fi_reason = None\<rparr>
              | None \<Rightarrow>
                  \<lparr>fi_fw = fw, fi_flasher = None, fi_state = [], fi_reason = Some
                    (if scanners \<noteq> [] \<and> chipset = [] then NoChipsetDeclared
                     else case first_writer_of name chipset fw
                         (filter (\<lambda>f. f \<notin> set listed \<and> candidate_scanner f) FLASHERS) of
                       Some (f, st) \<Rightarrow> AddWriter chipset st (fl_name f)
                     | None \<Rightarrow>
                         if scanners \<noteq> [] then NoneWritesBare (map fl_name scanners)
                         else NothingScans (fam_flashers fam))\<rparr>)))"

definition install_hint :: "first_install_result \<Rightarrow> string option" where
  "install_hint r =
     (case fi_flasher r of None \<Rightarrow> None
      | Some n \<Rightarrow> (case by_name_get n of None \<Rightarrow> None | Some f \<Rightarrow> fl_hint f))"

subsection \<open>Lemmas about the flashers\<close>

lemma flasher_eqs:
  "f \<in> set FLASHERS \<Longrightarrow> f = Flashtool \<or> f = PlatformIO \<or> f = DfuUtil \<or> f = Bootsel"
  by (auto simp: FLASHERS_def)

lemma by_name_get_Some: "by_name_get n = Some f \<Longrightarrow> f \<in> set FLASHERS \<and> fl_name f = n"
  by (auto simp: by_name_get_def flasher_defs split: if_splits)

lemma by_name_Inr: "by_name n = Inr f \<longleftrightarrow> by_name_get n = Some f"
  by (auto simp: by_name_def split: option.splits)

lemma flasher_names [simp]:
  "fl_name Flashtool = ''flashtool''" "fl_name PlatformIO = ''platformio''"
  "fl_name DfuUtil = ''dfu_util''" "fl_name Bootsel = ''bootsel''"
  by (simp_all add: flasher_defs)

lemma flasher_fields [simp]:
  "fl_states Flashtool = [STATE_KLIPPER, STATE_KATAPULT]" "fl_states PlatformIO = [STATE_ESP_ROM]"
  "fl_states DfuUtil = [STATE_DFU]" "fl_states Bootsel = [STATE_BOOTSEL]"
  "fl_needs_stop Flashtool" "fl_needs_stop PlatformIO" "\<not> fl_needs_stop DfuUtil" "\<not> fl_needs_stop Bootsel"
  "fl_accepts Flashtool = [KIND_BIN]" "fl_accepts PlatformIO = [KIND_PIO_ENV]"
  "fl_accepts DfuUtil = [KIND_BIN]" "fl_accepts Bootsel = [KIND_UF2]"
  "\<not> candidate_scanner Flashtool" "candidate_scanner PlatformIO" "candidate_scanner DfuUtil"
  "candidate_scanner Bootsel"
  by (simp_all add: flasher_defs candidate_scanner_def)

lemma supports_simps [simp]:
  "supports Flashtool d h = flashtool_supports d h"
  "supports PlatformIO d h = platformio_supports d h"
  "supports DfuUtil d h = dfu_util_supports d h"
  "supports Bootsel d h = bootsel_supports d h"
  by (simp_all add: supports_def)

text \<open>A flasher is usable for a device when it supports it and was staged a kind it takes.\<close>

definition usable :: "device \<Rightarrow> helper option \<Rightarrow> staged \<Rightarrow> string \<Rightarrow> bool" where
  "usable d h st name =
     (\<exists>f. by_name_get name = Some f \<and> supports f d h \<and> first_of st (fl_accepts f) \<noteq> None)"

lemma resolve_flasher_Some:
  "resolve_flasher names d h st = Inr (Some (f, a)) \<Longrightarrow>
   \<exists>pre post. names = pre @ fl_name f # post \<and> (\<forall>n \<in> set pre. \<not> usable d h st n) \<and>
     f \<in> set FLASHERS \<and> supports f d h \<and> first_of st (fl_accepts f) = Some a"
proof (induction names)
  case (Cons n names)
  then obtain g where g: "by_name_get n = Some g" by (auto simp: by_name_Inr)
  note gn = by_name_get_Some[OF g]
  show ?case
  proof (cases "supports g d h \<and> first_of st (fl_accepts g) \<noteq> None")
    case True
    with Cons.prems g have "g = f" "first_of st (fl_accepts f) = Some a"
      by (auto simp: by_name_def split: option.splits)
    with True gn show ?thesis by (intro exI[of _ "[]"] exI[of _ names]) auto
  next
    case False
    with Cons.prems g have "resolve_flasher names d h st = Inr (Some (f, a))"
      by (auto simp: by_name_def split: if_splits option.splits)
    from Cons.IH[OF this] obtain pre post where ih: "names = pre @ fl_name f # post"
      "\<forall>n \<in> set pre. \<not> usable d h st n" "f \<in> set FLASHERS" "supports f d h" "first_of st (fl_accepts f) = Some a"
      by blast
    from False g have "\<not> usable d h st n" by (auto simp: usable_def)
    with ih show ?thesis by (intro exI[of _ "n # pre"] exI[of _ post]) auto
  qed
qed simp

lemma resolve_flasher_None:
  "resolve_flasher names d h st = Inr None \<Longrightarrow> \<forall>n \<in> set names. \<not> usable d h st n"
proof (induction names)
  case (Cons n names)
  then obtain g where g: "by_name_get n = Some g" by (auto simp: by_name_Inr)
  with Cons show ?case
    by (auto simp: by_name_def usable_def split: if_splits option.splits)
qed simp

lemma py_of_Inr [simp]: "py_of r = Inr x \<longleftrightarrow> r = Inr x"
  by (cases r) (simp_all add: py_of_def)

lemma cfg_of_Inr [simp]: "cfg_of r = Inr x \<longleftrightarrow> r = Inr x"
  by (cases r) (simp_all add: cfg_of_def)

lemma py_of_NoFlasher [simp]: "py_of r \<noteq> Inl (NoFlasher m w)"
  by (cases r) (simp_all add: py_of_def)

lemma cfg_of_NoFlasher [simp]: "cfg_of r \<noteq> Inl (NoFlasher m w)"
  by (cases r) (simp_all add: cfg_of_def)

lemma select_Inr:
  "select present fam d h units st = Inr t \<longleftrightarrow>
   (\<exists>f a. resolve_flasher (fam_flashers fam) d h st = Inr (Some (f, a)) \<and>
      flasher_target present f d h a units = Inr t)"
  by (auto simp: select_def split: option.splits)

lemma flasher_target_fields:
  "f \<in> set FLASHERS \<Longrightarrow> flasher_target present f d h a units = Inr t \<Longrightarrow>
   tg_flasher t = fl_name f \<and> tg_artifact t = Some a"
  by (auto dest!: flasher_eqs simp: flasher_target_def flashtool_target_def platformio_target_def
      dfu_util_target_def bootsel_target_def Let_def split: option.splits if_splits)

lemma select_NoFlasher:
  "select present fam d h units st = Inl (NoFlasher missing why) \<Longrightarrow>
   resolve_flasher (fam_flashers fam) d h st = Inr None \<and>
   NoFlasher missing why = refusal_error fam d (unstaged (fam_flashers fam) d h) st h"
proof -
  assume a: "select present fam d h units st = Inl (NoFlasher missing why)"
  show ?thesis
  proof (cases "resolve_flasher (fam_flashers fam) d h st")
    case (Inl e)
    with a show ?thesis by (simp add: select_def py_of_def)
  next
    case (Inr c)
    with a show ?thesis
      by (cases c) (auto simp: select_def py_of_def split: prod.splits sum.splits)
  qed
qed

lemma unstaged_mem:
  "(n, ks) \<in> set (unstaged names d h) \<longleftrightarrow>
   n \<in> set names \<and> (\<exists>f. by_name_get n = Some f \<and> supports f d h \<and> ks = fl_accepts f)"
  unfolding unstaged_def
  by (induction names) (auto simp: map_filter_simps split: option.splits if_splits)

text \<open>C27: selection follows the family's own list and never crosses kinds. The target it returns is
  for the first flasher on the list that both supports the device and was staged a kind it
  accepts, carrying a file the family's builder really staged, of one of that flasher's kinds.
  When it refuses for want of a flasher, no listed flasher was usable, and the kinds it calls
  missing are exactly those of the listed flashers that do support the device, none of them
  staged.\<close>

theorem select_first_usable:
  "(\<forall>t. select present fam d h units st = Inr t \<longrightarrow>
      (\<exists>pre f post a. fam_flashers fam = pre @ fl_name f # post \<and> f \<in> set FLASHERS \<and>
         (\<forall>n \<in> set pre. \<not> usable d h st n) \<and> supports f d h \<and>
         tg_flasher t = fl_name f \<and> tg_artifact t = Some a \<and>
         a \<in> set (artifacts st) \<and> kind a \<in> set (fl_accepts f))) \<and>
   (\<forall>missing why. select present fam d h units st = Inl (NoFlasher missing why) \<longrightarrow>
      (\<forall>n \<in> set (fam_flashers fam). \<not> usable d h st n) \<and>
      (\<forall>k. k \<in> set missing \<longleftrightarrow> (\<exists>n \<in> set (fam_flashers fam). \<exists>f.
         by_name_get n = Some f \<and> supports f d h \<and> k \<in> set (fl_accepts f))) \<and>
      (\<forall>k \<in> set missing. \<forall>a \<in> set (artifacts st). kind a \<noteq> k))"
proof (intro conjI allI impI)
  fix t assume "select present fam d h units st = Inr t"
  then obtain f a where r: "resolve_flasher (fam_flashers fam) d h st = Inr (Some (f, a))"
    "flasher_target present f d h a units = Inr t" by (auto simp: select_Inr)
  from resolve_flasher_Some[OF r(1)] obtain pre post where
    p: "fam_flashers fam = pre @ fl_name f # post" "\<forall>n \<in> set pre. \<not> usable d h st n"
    "f \<in> set FLASHERS" "supports f d h" "first_of st (fl_accepts f) = Some a" by blast
  from flasher_target_fields[OF p(3) r(2)] first_of_Some[OF p(5)] p
  show "\<exists>pre f post a. fam_flashers fam = pre @ fl_name f # post \<and> f \<in> set FLASHERS \<and>
         (\<forall>n \<in> set pre. \<not> usable d h st n) \<and> supports f d h \<and>
         tg_flasher t = fl_name f \<and> tg_artifact t = Some a \<and>
         a \<in> set (artifacts st) \<and> kind a \<in> set (fl_accepts f)" by blast
next
  fix missing why assume n: "select present fam d h units st = Inl (NoFlasher missing why)"
  from select_NoFlasher[OF n] have none: "resolve_flasher (fam_flashers fam) d h st = Inr None"
    and m: "missing = dedup (concat (map snd (unstaged (fam_flashers fam) d h)))"
    by (auto simp: refusal_error_def Let_def)
  from resolve_flasher_None[OF none]
  show unusable: "\<forall>n \<in> set (fam_flashers fam). \<not> usable d h st n" .
  show mem: "k \<in> set missing \<longleftrightarrow> (\<exists>n \<in> set (fam_flashers fam). \<exists>f.
         by_name_get n = Some f \<and> supports f d h \<and> k \<in> set (fl_accepts f))" for k
  proof -
    have "k \<in> set missing \<longleftrightarrow> (\<exists>n ks. (n, ks) \<in> set (unstaged (fam_flashers fam) d h) \<and> k \<in> set ks)"
      by (force simp: m)
    then show ?thesis unfolding unstaged_mem by blast
  qed
  show "\<forall>k \<in> set missing. \<forall>a \<in> set (artifacts st). kind a \<noteq> k"
  proof (intro ballI notI)
    fix k a assume k: "k \<in> set missing" and a: "a \<in> set (artifacts st)" "kind a = k"
    from k mem obtain n f where f: "n \<in> set (fam_flashers fam)" "by_name_get n = Some f" "supports f d h"
      "k \<in> set (fl_accepts f)" by blast
    with unusable have "first_of st (fl_accepts f) = None" by (auto simp: usable_def)
    with f(4) a show False unfolding first_of_None by blast
  qed
qed

text \<open>Every flasher's own guard, in one place.\<close>

lemma chipset_prefixes:
  "chipset_matches Flashtool c \<longleftrightarrow> starts_with ''stm32'' c \<or> starts_with ''rp2040'' c \<or> starts_with ''lpc176'' c"
  "chipset_matches PlatformIO c \<longleftrightarrow> starts_with ''esp32'' c"
  "chipset_matches DfuUtil c \<longleftrightarrow> starts_with ''stm32'' c"
  "chipset_matches Bootsel c \<longleftrightarrow> starts_with ''rp2040'' c"
  by (auto simp: chipset_matches_def flasher_defs)

text \<open>\<open>needs_services_stopped\<close>: the target's own answer when it has one, else its flasher's.\<close>

definition needs_services_stopped :: "flash_target \<Rightarrow> py_error + bool" where
  "needs_services_stopped t =
     (case tg_needs_stop t of
        Some b \<Rightarrow> Inr b
      | None \<Rightarrow> and_then (by_name (tg_flasher t)) (\<lambda>f. Inr (fl_needs_stop f)))"

text \<open>A write that goes over a port Klipper may hold is never left outside the stop. For every
  selected target, the services are stopped and the caller's units are the ones to stop -
  unless the device is already in its ROM bootloader (an STM32 in DFU, an RP2040 in BOOTSEL),
  when nothing is stopped and the target names no unit. In particular a running board asked for
  BOOTSEL by its helper always stops services.\<close>

theorem selected_target_stop:
  assumes "select present fam d h units st = Inr t"
  shows "(needs_services_stopped t = Inr True \<and> tg_stop_services t = units \<and>
      \<not> (tg_flasher t = ''bootsel'' \<and> dev_state d = STATE_BOOTSEL)) \<or>
    (needs_services_stopped t = Inr False \<and> tg_stop_services t = [] \<and>
      (tg_flasher t = ''dfu_util'' \<and> dev_state d = STATE_DFU \<and> starts_with ''stm32'' (dev_chipset d) \<or>
       tg_flasher t = ''bootsel'' \<and> dev_state d = STATE_BOOTSEL \<and> starts_with ''rp2040'' (dev_chipset d)))"
proof -
  from assms obtain f a where r: "resolve_flasher (fam_flashers fam) d h st = Inr (Some (f, a))"
    "flasher_target present f d h a units = Inr t" by (auto simp: select_Inr)
  from resolve_flasher_Some[OF r(1)] have f: "f \<in> set FLASHERS" "supports f d h" by blast+
  have names: "by_name (fl_name f) = Inr f"
    using flasher_eqs[OF f(1)] by (auto simp: by_name_def by_name_get_def FLASHERS_def)
  from flasher_eqs[OF f(1)] show ?thesis
  proof (elim disjE)
    assume "f = Flashtool"
    with r(2) names show ?thesis
      by (auto simp: flasher_target_def flashtool_target_def Let_def needs_services_stopped_def)
  next
    assume "f = PlatformIO"
    with r(2) names show ?thesis
      by (auto simp: flasher_target_def platformio_target_def needs_services_stopped_def)
  next
    assume g: "f = DfuUtil"
    with f(2) have "dev_state d = STATE_DFU" "starts_with ''stm32'' (dev_chipset d)"
      by (auto simp: dfu_util_supports_def chipset_prefixes)
    with r(2) names g show ?thesis
      by (auto simp: flasher_target_def dfu_util_target_def needs_services_stopped_def)
  next
    assume g: "f = Bootsel"
    show ?thesis
    proof (cases "dev_state d = STATE_BOOTSEL")
      case True
      with f(2) g have "starts_with ''rp2040'' (dev_chipset d)"
        by (auto simp: bootsel_supports_def chipset_prefixes)
      with r(2) names g True show ?thesis
        by (auto simp: flasher_target_def bootsel_target_def needs_services_stopped_def)
    next
      case False
      with f(2) g obtain q where "bootsel_requester h = Some q"
        by (auto simp: bootsel_supports_def)
      with r(2) g False show ?thesis
        by (auto simp: flasher_target_def bootsel_target_def needs_services_stopped_def)
    qed
  qed
qed

definition selected_of ::
  "string option list \<Rightarrow> families \<Rightarrow> (string \<Rightarrow> family \<Rightarrow> staged) \<Rightarrow> device \<times> string list \<Rightarrow> flash_target option" where
  "selected_of present families staged_for req =
     (case select_device present families staged_for (fst req) (snd req) of Inr t \<Rightarrow> Some t | Inl _ \<Rightarrow> None)"

text \<open>A batch selection loses nobody. Unless a configuration error stops it, every request ends
  up in exactly one of the two lists, in request order: its target when it could be selected, a
  refusal naming its type and id when no flasher could take it; one refused device never costs
  another its target.\<close>

theorem select_each_partition:
  assumes "select_each present families staged_for reqs = Inr (ts, rs)"
  shows "length ts + length rs = length reqs \<and>
    ts = List.map_filter (selected_of present families staged_for) reqs \<and>
    map (\<lambda>r. (rf_type r, rf_id r)) rs = map (\<lambda>req. (dev_type (fst req), dev_id (fst req)))
      (filter (\<lambda>req. selected_of present families staged_for req = None) reqs) \<and>
    (\<forall>req \<in> set reqs. \<forall>e. select_device present families staged_for (fst req) (snd req) = Inl e \<longrightarrow>
       (\<exists>missing why. e = NoFlasher missing why))"
  using assms
proof (induction reqs arbitrary: ts rs)
  case Nil
  then show ?case by (simp add: map_filter_simps)
next
  case (Cons req reqs)
  obtain d u where req: "req = (d, u)" by (cases req)
  show ?case
  proof (cases "select_device present families staged_for d u")
    case (Inr t)
    with Cons.prems req obtain ts' where r: "select_each present families staged_for reqs = Inr (ts', rs)"
      "ts = t # ts'" by auto
    from Cons.IH[OF r(1)] Inr r(2) req show ?thesis by (auto simp: map_filter_simps selected_of_def)
  next
    case (Inl e)
    with Cons.prems req obtain missing why where e: "e = NoFlasher missing why"
      by (cases e) auto
    with Cons.prems req Inl obtain rs' where r: "select_each present families staged_for reqs = Inr (ts, rs')"
      "rs = \<lparr>rf_type = dev_type d, rf_id = dev_id d, rf_missing = missing, rf_reason = why\<rparr> # rs'" by auto
    from Cons.IH[OF r(1)] Inl e r(2) req show ?thesis by (auto simp: map_filter_simps selected_of_def)
  qed
qed

subsection \<open>First installs\<close>

lemma first_writer_of_Some:
  "first_writer_of name chipset fw fs = Some (f, st) \<Longrightarrow>
   \<exists>pre post. fs = pre @ f # post \<and> (\<forall>g \<in> set pre. first_state name chipset fw g = None) \<and>
     st \<in> set (fl_states f) \<and> supports f (bare_device name chipset fw st) None"
proof (induction fs)
  case (Cons g fs)
  show ?case
  proof (cases "first_state name chipset fw g")
    case None
    with Cons obtain pre post where "fs = pre @ f # post" "\<forall>g \<in> set pre. first_state name chipset fw g = None"
      "st \<in> set (fl_states f)" "supports f (bare_device name chipset fw st) None" by auto
    with None show ?thesis by (intro exI[of _ "g # pre"] exI[of _ post]) auto
  next
    case (Some st')
    with Cons.prems have "g = f" "first_state name chipset fw f = Some st" by auto
    then show ?thesis by (intro exI[of _ "[]"] exI[of _ fs]) (auto simp: first_state_def find_Some_iff)
  qed
qed simp

lemma first_writer_of_None:
  "first_writer_of name chipset fw fs = None \<longleftrightarrow>
   (\<forall>f \<in> set fs. \<forall>st \<in> set (fl_states f). \<not> supports f (bare_device name chipset fw st) None)"
  by (induction fs) (auto simp: first_state_def find_None_iff find_Some_iff split: option.splits)

lemma map_filter_by_name: "f \<in> set (List.map_filter by_name_get names) \<Longrightarrow> f \<in> set FLASHERS \<and> fl_name f \<in> set names"
  by (induction names) (auto simp: map_filter_simps split: option.splits dest: by_name_get_Some)

text \<open>\<open>first_install\<close> answers with a flasher or a reason, never both and never neither, and the
  flasher it names can really do the job: it is on the install family's own list, can scan for
  a new board, and supports a bare board of this chipset in the ROM state named - an STM32 in
  DFU through dfu-util, an RP2040 in BOOTSEL through bootsel, an ESP32 through PlatformIO; the
  Katapult flasher is never chosen.\<close>

theorem first_install_sound:
  "(fi_flasher (first_install name chipset firmwares families) = None) =
     (fi_reason (first_install name chipset firmwares families) \<noteq> None) \<and>
   (\<forall>n. fi_flasher (first_install name chipset firmwares families) = Some n \<longrightarrow>
     (\<exists>fam. dict_get families (install_family firmwares (Some families)) = Some fam \<and>
        n \<in> set (fam_flashers fam)) \<and> n \<noteq> ''flashtool'' \<and>
     install_hint (first_install name chipset firmwares families) \<noteq> None \<and>
     (fi_state (first_install name chipset firmwares families), n, True) \<in>
       {(STATE_DFU, ''dfu_util'', starts_with ''stm32'' chipset),
        (STATE_BOOTSEL, ''bootsel'', starts_with ''rp2040'' chipset),
        (STATE_ESP_ROM, ''platformio'', starts_with ''esp32'' chipset)})"
proof (cases "firmwares = []")
  case True
  then show ?thesis by (simp add: first_install_def)
next
  case ne: False
  let ?fw = "install_family firmwares (Some families)"
  show ?thesis
  proof (cases "dict_get families ?fw")
    case None
    with ne show ?thesis by (simp add: first_install_def Let_def)
  next
    case (Some fam)
    let ?scanners = "filter candidate_scanner (List.map_filter by_name_get (fam_flashers fam))"
    show ?thesis
    proof (cases "first_writer_of name chipset ?fw ?scanners")
      case None
      with ne Some show ?thesis by (simp add: first_install_def Let_def)
    next
      case (Some fs)
      obtain f st where fs: "fs = (f, st)" by (cases fs)
      with Some have w: "first_writer_of name chipset ?fw ?scanners = Some (f, st)" by simp
      with ne \<open>dict_get families ?fw = Some fam\<close>
      have r: "first_install name chipset firmwares families =
          \<lparr>fi_fw = ?fw, fi_flasher = Some (fl_name f), fi_state = st, fi_reason = None\<rparr>"
        by (simp add: first_install_def Let_def)
      from first_writer_of_Some[OF w] obtain pre post where pp: "?scanners = pre @ f # post" and
        f': "st \<in> set (fl_states f)" "supports f (bare_device name chipset ?fw st) None" by blast
      then have "f \<in> set ?scanners" by (metis in_set_conv_decomp)
      note f = this f'
      then have m: "f \<in> set FLASHERS" "fl_name f \<in> set (fam_flashers fam)" "candidate_scanner f"
        by (auto dest: map_filter_by_name)
      have hint: "install_hint (first_install name chipset firmwares families) \<noteq> None"
        using flasher_eqs[OF m(1)] m(3)
        by (auto simp: r install_hint_def by_name_get_def FLASHERS_def candidate_scanner_def)
      from flasher_eqs[OF m(1)] show ?thesis
      proof (elim disjE)
        assume "f = Flashtool"
        with m(3) show ?thesis by simp
      next
        assume "f = PlatformIO"
        with f hint m(2) \<open>dict_get families ?fw = Some fam\<close> show ?thesis
          by (auto simp: r platformio_supports_def bare_device_def chipset_prefixes)
      next
        assume "f = DfuUtil"
        with f hint m(2) \<open>dict_get families ?fw = Some fam\<close> show ?thesis
          by (auto simp: r dfu_util_supports_def bare_device_def chipset_prefixes)
      next
        assume "f = Bootsel"
        with f hint m(2) \<open>dict_get families ?fw = Some fam\<close> show ?thesis
          by (auto simp: r bootsel_supports_def bare_device_def chipset_prefixes)
      qed
    qed
  qed
qed


subsection \<open>Concrete selections\<close>

definition demo_family :: family where
  "demo_family = \<lparr>fam_name = ''klipper'', fam_source = [], fam_artifact = [], fam_builder = DEFAULT_BUILDER,
     fam_cmake_args = [], fam_helper = ''klipper'', fam_flashers = [''flashtool'', ''bootsel''],
     fam_submodules = False, fam_bootloader = False, fam_auto_provision = False, fam_stop_services = None\<rparr>"

definition demo_device :: device where
  "demo_device = \<lparr>dev_type = ''pico'', dev_id = ''E66'', dev_chipset = ''rp2040'', dev_state = STATE_KLIPPER,
     dev_fw = ''klipper'', dev_kind = KIND_SERIAL, dev_detail = []\<rparr>"

definition demo_staged :: staged where
  "demo_staged = \<lparr>st_fw = ''klipper'', artifacts = [\<lparr>kind = KIND_UF2, art_path = ''/x.uf2'', sha256 = None\<rparr>],
     st_fw_sha = JNull, st_version = JNull\<rparr>"

lemmas demo_sel = demo_family_def demo_device_def demo_staged_def kind_defs device_kind_defs
  STATE_KLIPPER_def STATE_KATAPULT_def STATE_BOOTSEL_def STATE_DFU_def

lemma demo_by_name: "by_name ''flashtool'' = Inr Flashtool" "by_name ''bootsel'' = Inr Bootsel"
  "by_name_get ''dfu_util'' = Some DfuUtil" "by_name_get ''bootsel'' = Some Bootsel"
  by (simp_all add: by_name_def by_name_get_def FLASHERS_def)

lemma demo_resolve:
  "resolve_flasher (fam_flashers demo_family) demo_device (Some KlipperHelper) demo_staged =
     Inr (Some (Bootsel, \<lparr>kind = KIND_UF2, art_path = ''/x.uf2'', sha256 = None\<rparr>))"
  by (simp add: demo_sel demo_by_name flashtool_supports_def bootsel_supports_def bootsel_requester_def)

lemma demo_select:
  "select [] demo_family demo_device (Some KlipperHelper) [''klipper''] demo_staged =
   Inr (bootsel_target [] demo_device (Some KlipperHelper)
     \<lparr>kind = KIND_UF2, art_path = ''/x.uf2'', sha256 = None\<rparr> [''klipper''])"
  by (simp add: select_def demo_resolve py_of_def flasher_target_def)

theorem select_first_usable_witness:
  "\<exists>t. select [] demo_family demo_device (Some KlipperHelper) [''klipper''] demo_staged = Inr t \<and>
     tg_flasher t = ''bootsel'' \<and> (\<exists>a. tg_artifact t = Some a \<and> kind a = KIND_UF2)"
proof -
  obtain t where t: "select [] demo_family demo_device (Some KlipperHelper) [''klipper''] demo_staged = Inr t"
    "tg_flasher t = ''bootsel''"
    using demo_select by (auto simp: bootsel_target_def bootsel_requester_def demo_sel)
  from select_first_usable[THEN conjunct1, rule_format, OF t(1)] obtain f a where
    "f \<in> set FLASHERS" "tg_flasher t = fl_name f" "tg_artifact t = Some a" "kind a \<in> set (fl_accepts f)" by blast
  with t show ?thesis by (auto dest!: flasher_eqs)
qed

theorem selected_target_stop_witness:
  "\<exists>t. select [] demo_family demo_device (Some KlipperHelper) [''klipper''] demo_staged = Inr t \<and>
     needs_services_stopped t = Inr True \<and> tg_stop_services t = [''klipper'']"
proof -
  from selected_target_stop[OF demo_select] demo_select show ?thesis
    by (auto simp: bootsel_target_def bootsel_requester_def demo_sel)
qed

theorem select_each_partition_witness:
  "\<exists>ts rs. select_each [] [(''klipper'', demo_family)] (\<lambda>_ _. demo_staged)
       [(demo_device, [''klipper'']), (demo_device\<lparr>dev_kind := KIND_CANBUS, dev_id := ''c0''\<rparr>, [])] = Inr (ts, rs) \<and>
     length ts = 1 \<and> map rf_id rs = [''c0'']"
proof -
  let ?sel = "select_device [] [(''klipper'', demo_family)] (\<lambda>_ _. demo_staged)"
  have a: "\<exists>t. ?sel demo_device [''klipper''] = Inr t"
    using demo_select
    by (simp add: select_device_def resolve_family_def helper_for_name_def HELPERS_def cfg_of_def demo_device_def
        demo_family_def)
  have b: "\<exists>m w. ?sel (demo_device\<lparr>dev_kind := KIND_CANBUS, dev_id := ''c0''\<rparr>) [] = Inl (NoFlasher m w)"
    by (simp add: select_device_def resolve_family_def helper_for_name_def HELPERS_def cfg_of_def py_of_def
        select_def demo_sel demo_by_name flashtool_supports_def bootsel_supports_def refusal_error_def Let_def)
  from a b obtain ts rs where r: "select_each [] [(''klipper'', demo_family)] (\<lambda>_ _. demo_staged)
       [(demo_device, [''klipper'']), (demo_device\<lparr>dev_kind := KIND_CANBUS, dev_id := ''c0''\<rparr>, [])] = Inr (ts, rs)"
    by auto
  have "selected_of [] [(''klipper'', demo_family)] (\<lambda>_ _. demo_staged) (demo_device, [''klipper'']) \<noteq> None"
    "selected_of [] [(''klipper'', demo_family)] (\<lambda>_ _. demo_staged)
       (demo_device\<lparr>dev_kind := KIND_CANBUS, dev_id := ''c0''\<rparr>, []) = None"
    using a b by (auto simp: selected_of_def)
  with select_each_partition[OF r] have "map (\<lambda>r. (rf_type r, rf_id r)) rs = [(''pico'', ''c0'')]" "length ts = 1"
    by (auto simp: demo_device_def)
  moreover from this(1) have "map rf_id rs = [''c0'']" by auto
  ultimately show ?thesis using r by (intro exI[of _ ts] exI[of _ rs]) simp
qed

theorem first_install_sound_witness:
  "fi_flasher (first_install ''oct'' ''stm32f446'' [''klipper'', ''katapult'']
     [(''klipper'', demo_family), (''katapult'', demo_family\<lparr>fam_name := ''katapult'', fam_bootloader := True,
        fam_flashers := [''dfu_util'', ''bootsel'']\<rparr>)]) = Some ''dfu_util'' \<and>
   fi_state (first_install ''oct'' ''stm32f446'' [''klipper'', ''katapult'']
     [(''klipper'', demo_family), (''katapult'', demo_family\<lparr>fam_name := ''katapult'', fam_bootloader := True,
        fam_flashers := [''dfu_util'', ''bootsel'']\<rparr>)]) = STATE_DFU"
proof -
  let ?fams = "[(''klipper'', demo_family), (''katapult'', demo_family\<lparr>fam_name := ''katapult'',
    fam_bootloader := True, fam_flashers := [''dfu_util'', ''bootsel'']\<rparr>)]"
  have "install_family [''klipper'', ''katapult''] (Some ?fams) = ''katapult''"
    by (simp add: install_family_def bootloader_of_def is_bootloader_def demo_family_def)
  then have f: "fi_flasher (first_install ''oct'' ''stm32f446'' [''klipper'', ''katapult''] ?fams) = Some ''dfu_util''"
    by (simp add: first_install_def Let_def map_filter_simps demo_by_name first_state_def dfu_util_supports_def
        bare_device_def chipset_prefixes starts_with_def)
  with first_install_sound[of "''oct''" "''stm32f446''" "[''klipper'', ''katapult'']" ?fams] show ?thesis by auto
qed

end
