(* ===== verification/Services.thy ===== *)
theory Services
  imports PyStr "HOL-Library.Sublist"
begin

section \<open>Stopping and starting services around a write (service.py)\<close>

text \<open>
  What the module promises is that the printer is never left dead: every service a block stopped
  is started again in reverse order, whatever the block did, and a process that dies in between
  leaves a journal that names what it stopped.

  The operating system is a parameter, the record \<open>host\<close>: \<open>os_systemctl\<close> runs
  \<open>sudo systemctl <action> <unit>\<close> (None when the process cannot be run or times out),
  \<open>os_active_rc\<close> is the exit code of \<open>systemctl is-active\<close>, \<open>mr_call\<close> Moonraker's
  \<open>machine.services.*\<close> (False when it raises). The narration of the reporter is left out.

  Every operation returns its effects, in program order, beside the new world. A crash at any
  moment is a prefix of that list, and \<open>journal_after\<close> is the journal file such a crash leaves.
\<close>

subsection \<open>Host, world, effects\<close>

record 'o host =
  os_systemctl :: "string \<Rightarrow> string \<Rightarrow> 'o \<Rightarrow> 'o \<times> int option"
  os_active_rc :: "string \<Rightarrow> 'o \<Rightarrow> int option"
  mr_call :: "string \<Rightarrow> string \<Rightarrow> 'o \<Rightarrow> 'o \<times> bool"
  os_sleep :: "rat \<Rightarrow> 'o \<Rightarrow> 'o"
  os_monotonic :: "'o \<Rightarrow> rat"
  os_time :: "'o \<Rightarrow> json"
  os_pid :: int
  float_parses :: "string \<Rightarrow> bool"

record 'o svc_world =
  os :: 'o
  null_active :: "string \<Rightarrow> bool"
  journal_file :: "json option"

datatype svc_effect =
    StopUnit string
  | SawDown string
  | StartUnit string
  | WriteJournal json
  | ClearJournal
  | BodyEffect nat

subsection \<open>The three backends\<close>

datatype backend = SystemdService | MoonrakerService | NullService

datatype controller = Controller (ctl_backend: backend) (ctl_name: string)

definition systemd_run :: "'o host \<Rightarrow> string \<Rightarrow> string \<Rightarrow> 'o svc_world \<Rightarrow> 'o svc_world \<times> int" where
  "systemd_run h action unit w =
     (let (o', rc) = os_systemctl h action unit (os w) in
      (w\<lparr>os := o'\<rparr>, case rc of None \<Rightarrow> 1 | Some c \<Rightarrow> c))"

definition systemd_stop :: "'o host \<Rightarrow> string \<Rightarrow> 'o svc_world \<Rightarrow> 'o svc_world" where
  "systemd_stop h unit w = fst (systemd_run h ''stop'' unit w)"

definition systemd_start :: "'o host \<Rightarrow> string \<Rightarrow> 'o svc_world \<Rightarrow> 'o svc_world" where
  "systemd_start h unit w = fst (systemd_run h ''start'' unit w)"

definition systemd_is_active :: "'o host \<Rightarrow> string \<Rightarrow> 'o svc_world \<Rightarrow> bool" where
  "systemd_is_active h unit w =
     (case os_active_rc h unit (os w) of None \<Rightarrow> False | Some rc \<Rightarrow> rc = 0)"

definition moonraker_stop :: "'o host \<Rightarrow> string \<Rightarrow> 'o svc_world \<Rightarrow> 'o svc_world" where
  "moonraker_stop h unit w =
     (let (o', ok) = mr_call h ''machine.services.stop'' unit (os w); w' = w\<lparr>os := o'\<rparr> in
      if ok then w' else systemd_stop h unit w')"

definition moonraker_start :: "'o host \<Rightarrow> string \<Rightarrow> 'o svc_world \<Rightarrow> 'o svc_world" where
  "moonraker_start h unit w =
     (let (o', ok) = mr_call h ''machine.services.start'' unit (os w); w' = w\<lparr>os := o'\<rparr> in
      if ok then w' else systemd_start h unit w')"

fun ctl_stop :: "'o host \<Rightarrow> controller \<Rightarrow> 'o svc_world \<Rightarrow> 'o svc_world" where
  "ctl_stop h (Controller SystemdService n) w = systemd_stop h n w"
| "ctl_stop h (Controller MoonrakerService n) w = moonraker_stop h n w"
| "ctl_stop h (Controller NullService n) w = w\<lparr>null_active := (null_active w)(n := False)\<rparr>"

fun ctl_start :: "'o host \<Rightarrow> controller \<Rightarrow> 'o svc_world \<Rightarrow> 'o svc_world" where
  "ctl_start h (Controller SystemdService n) w = systemd_start h n w"
| "ctl_start h (Controller MoonrakerService n) w = moonraker_start h n w"
| "ctl_start h (Controller NullService n) w = w\<lparr>null_active := (null_active w)(n := True)\<rparr>"

fun ctl_is_active :: "'o host \<Rightarrow> controller \<Rightarrow> 'o svc_world \<Rightarrow> bool" where
  "ctl_is_active h (Controller SystemdService n) w = systemd_is_active h n w"
| "ctl_is_active h (Controller MoonrakerService n) w = systemd_is_active h n w"
| "ctl_is_active h (Controller NullService n) w = null_active w n"

text \<open>A new \<open>NullService\<close> starts out active.\<close>

definition make_controller ::
  "bool \<Rightarrow> string \<Rightarrow> bool \<Rightarrow> string option \<Rightarrow> 'o svc_world \<Rightarrow> 'o svc_world \<times> controller" where
  "make_controller dry_run service_backend has_call name w =
     (let unit = (case name of None \<Rightarrow> ''klipper'' | Some n \<Rightarrow> if n = [] then ''klipper'' else n) in
      if dry_run \<or> service_backend = ''null''
      then (w\<lparr>null_active := (null_active w)(unit := True)\<rparr>, Controller NullService unit)
      else if service_backend = ''moonraker'' \<and> has_call then (w, Controller MoonrakerService unit)
      else (w, Controller SystemdService unit))"

subsection \<open>The crash journal\<close>

definition journal_entry :: "'o host \<Rightarrow> string list \<Rightarrow> string \<Rightarrow> 'o svc_world \<Rightarrow> json" where
  "journal_entry h services label w =
     JObj [(''services'', JList (map JStr services)), (''label'', JStr label),
           (''at'', os_time h (os w)), (''pid'', JInt (os_pid h))]"

definition record_stop ::
  "'o host \<Rightarrow> string list \<Rightarrow> string \<Rightarrow> 'o svc_world \<Rightarrow> 'o svc_world \<times> svc_effect list" where
  "record_stop h services label w =
     (let e = journal_entry h services label w in (w\<lparr>journal_file := Some e\<rparr>, [WriteJournal e]))"

definition journal_clear :: "'o svc_world \<Rightarrow> 'o svc_world \<times> svc_effect list" where
  "journal_clear w = (w\<lparr>journal_file := None\<rparr>, [ClearJournal])"

text \<open>The file as a value: None is an absent or unreadable file.\<close>

definition pending :: "json option \<Rightarrow> (string \<times> json) list option" where
  "pending file =
     (case file of
        Some (JObj data) \<Rightarrow>
          (case jget data ''services'' of
             JList (x # xs) \<Rightarrow> Some data
           | _ \<Rightarrow>
               (let legacy = jget data ''service'' in
                if truthy legacy then Some (dict_set data ''services'' (JList [legacy])) else None))
      | _ \<Rightarrow> None)"

fun journal_after :: "json option \<Rightarrow> svc_effect list \<Rightarrow> json option" where
  "journal_after j [] = j"
| "journal_after j (WriteJournal e # es) = journal_after (Some e) es"
| "journal_after j (ClearJournal # es) = journal_after None es"
| "journal_after j (_ # es) = journal_after j es"

subsection \<open>Reconciling on startup\<close>

definition float_raises :: "'o host \<Rightarrow> json \<Rightarrow> py_error option" where
  "float_raises h j =
     (case j of
        JStr s \<Rightarrow> if float_parses h s then None else Some ValueError
      | JList _ \<Rightarrow> Some TypeError | JObj _ \<Rightarrow> Some TypeError | _ \<Rightarrow> None)"

fun restart_missing ::
  "'o host \<Rightarrow> (string \<Rightarrow> 'o svc_world \<Rightarrow> 'o svc_world \<times> controller) \<Rightarrow> string list \<Rightarrow>
   'o svc_world \<Rightarrow> 'o svc_world \<times> svc_effect list" where
  "restart_missing h controller_for [] w = (w, [])"
| "restart_missing h controller_for (n # ns) w =
     (let (w1, svc) = controller_for n w in
      if \<not> ctl_is_active h svc w1
      then (let (w2, es) = restart_missing h controller_for ns (ctl_start h svc w1) in (w2, StartUnit n # es))
      else restart_missing h controller_for ns w1)"

fun str_list :: "json list \<Rightarrow> string list option" where
  "str_list [] = Some []"
| "str_list (JStr s # js) = map_option ((#) s) (str_list js)"
| "str_list (_ # js) = None"

text \<open>The result: raised, or whether it took action. \<open>', '.join(services)\<close> raises on a name that
  is not a string, \<open>float(at)\<close> on an \<open>at\<close> that is no number.\<close>

definition reconcile ::
  "'o host \<Rightarrow> (string \<Rightarrow> 'o svc_world \<Rightarrow> 'o svc_world \<times> controller) \<Rightarrow> 'o svc_world \<Rightarrow>
   'o svc_world \<times> svc_effect list \<times> (py_error + bool)" where
  "reconcile h controller_for w =
     (case pending (journal_file w) of
        None \<Rightarrow> (w, [], Inr False)
      | Some entry \<Rightarrow>
          (let services = (case jget entry ''services'' of JList xs \<Rightarrow> xs | _ \<Rightarrow> []);
               at_field = (if truthy (jget entry ''at'') then jget entry ''at'' else JInt 0) in
           case float_raises h at_field of
             Some e \<Rightarrow> (w, [], Inl e)
           | None \<Rightarrow>
               (case str_list services of
                  None \<Rightarrow> (w, [], Inl TypeError)
                | Some names \<Rightarrow>
                    (let (w1, es) = restart_missing h controller_for (rev names) w;
                         (w2, cl) = journal_clear w1 in
                     (w2, es @ cl, Inr True)))))"

subsection \<open>The block\<close>

definition STOP_VERIFY_TIMEOUT :: rat where "STOP_VERIFY_TIMEOUT = 20"

text \<open>The verification loop. It may run forever on a clock that stands still, so its value is an
  option; \<open>True\<close> is "went down", \<open>False\<close> "the deadline passed".\<close>

partial_function (option) await_down ::
  "'o host \<Rightarrow> controller \<Rightarrow> rat \<Rightarrow> 'o svc_world \<Rightarrow> ('o svc_world \<times> bool) option" where
  "await_down h svc deadline w =
     (if ctl_is_active h svc w then
        (if os_monotonic h (os w) \<ge> deadline then Some (w, False)
         else await_down h svc deadline (w\<lparr>os := os_sleep h (1/2) (os w)\<rparr>))
      else Some (w, True))"

fun restart_all :: "'o host \<Rightarrow> controller list \<Rightarrow> 'o svc_world \<Rightarrow> 'o svc_world \<times> svc_effect list" where
  "restart_all h [] w = journal_clear w"
| "restart_all h (svc # svcs) w =
     (let (w', es) = restart_all h svcs (ctl_start h svc w) in (w', StartUnit (ctl_name svc) # es))"

text \<open>The stopping loop: the unit that would not go down, or None.\<close>

fun stop_all ::
  "'o host \<Rightarrow> bool \<Rightarrow> rat \<Rightarrow> controller list \<Rightarrow> 'o svc_world \<Rightarrow>
   ('o svc_world \<times> svc_effect list \<times> string option) option" where
  "stop_all h verify timeout [] w = Some (w, [], None)"
| "stop_all h verify timeout (svc # svcs) w =
     (let w1 = ctl_stop h svc w in
      if verify then
        Option.bind (await_down h svc (os_monotonic h (os w1) + timeout) w1) (\<lambda>(w2, down).
          if \<not> down then Some (w2, [StopUnit (ctl_name svc)], Some (ctl_name svc))
          else map_option (\<lambda>(w3, es, bad). (w3, StopUnit (ctl_name svc) # SawDown (ctl_name svc) # es, bad))
            (stop_all h verify timeout svcs w2))
      else map_option (\<lambda>(w3, es, bad). (w3, StopUnit (ctl_name svc) # es, bad))
        (stop_all h verify timeout svcs w1))"

datatype svc_error = ServiceControlError string

text \<open>\<open>body\<close> is the block's own code: any function of the world, with the effects it has and its
  outcome, exceptions included.\<close>

definition services_stopped ::
  "'o host \<Rightarrow> controller list \<Rightarrow> string \<Rightarrow> bool \<Rightarrow> rat \<Rightarrow>
   ('o svc_world \<Rightarrow> 'o svc_world \<times> svc_effect list \<times> 'r) \<Rightarrow> 'o svc_world \<Rightarrow>
   ('o svc_world \<times> svc_effect list \<times> (svc_error + 'r)) option" where
  "services_stopped h controllers label verify timeout body w =
     (let to_stop = filter (\<lambda>svc. ctl_is_active h svc w) controllers;
          (w1, ej) = (if to_stop \<noteq> [] then record_stop h (map ctl_name to_stop) label w else (w, [])) in
      map_option (\<lambda>(w2, es, bad).
        case bad of
          Some unit \<Rightarrow>
            (let (w3, er) = restart_all h (rev to_stop) w2 in
             (w3, ej @ es @ er, Inl (ServiceControlError unit)))
        | None \<Rightarrow>
            (let (w3, eb, r) = body w2; (w4, er) = restart_all h (rev to_stop) w3 in
             (w4, ej @ es @ eb @ er, Inr r)))
        (stop_all h verify timeout to_stop w1))"

definition paused ::
  "'o host \<Rightarrow> controller option \<Rightarrow> ('o svc_world \<Rightarrow> 'o svc_world \<times> svc_effect list \<times> 'r) \<Rightarrow>
   'o svc_world \<Rightarrow> 'o svc_world \<times> svc_effect list \<times> 'r" where
  "paused h svc body w =
     (case svc of
        None \<Rightarrow> body w
      | Some c \<Rightarrow>
          if \<not> ctl_is_active h c w then body w
          else (let (w1, eb, r) = body (ctl_stop h c w) in
                (ctl_start h c w1, StopUnit (ctl_name c) # eb @ [StartUnit (ctl_name c)], r)))"

subsection \<open>The idle check\<close>

datatype idle_error = PrintRunning json | PrinterBusy json

text \<open>\<open>activity\<close>: None where there is no Moonraker to ask; \<open>Inl\<close> when asking raises.\<close>

definition assert_printer_idle ::
  "bool \<Rightarrow> (unit + (string \<times> json) list option) option \<Rightarrow> bool \<Rightarrow> idle_error + unit" where
  "assert_printer_idle allow_flash_while_printing activity force =
     (if force \<or> allow_flash_while_printing then Inr ()
      else case activity of
        None \<Rightarrow> Inr ()
      | Some (Inl _) \<Rightarrow> Inr ()
      | Some (Inr answer) \<Rightarrow>
          (let state = (case answer of None \<Rightarrow> [] | Some d \<Rightarrow> d); print_state = jget state ''print_state'' in
           if eq_str print_state ''printing'' \<or> eq_str print_state ''paused''
           then Inl (PrintRunning print_state)
           else if eq_str (jget state ''idle_state'') ''Printing'' then Inl (PrinterBusy print_state)
           else Inr ()))"

subsection \<open>The contract of a unit's controls\<close>

text \<open>What the restart loop relies on: starting a unit makes it active and takes no other unit
  down.\<close>

locale unit_control =
  fixes start :: "'c \<Rightarrow> 'w \<Rightarrow> 'w" and active :: "'c \<Rightarrow> 'w \<Rightarrow> bool"
  assumes start_active: "active c (start c w)"
    and start_keeps: "active d w \<Longrightarrow> active d (start c w)"
begin

lemma fold_keeps: "active d w \<Longrightarrow> active d (fold start cs w)"
  by (induction cs arbitrary: w) (simp_all add: start_keeps)

lemma fold_start_active: "c \<in> set cs \<Longrightarrow> active c (fold start cs w)"
  by (induction cs arbitrary: w) (auto simp: start_active fold_keeps)

end

interpretation null: unit_control
  "\<lambda>n. ctl_start h (Controller NullService n)" "\<lambda>n. ctl_is_active h (Controller NullService n)" for h
  by unfold_locales auto

subsection \<open>The shape of a run\<close>

lemma restart_all_eq:
  "restart_all h svcs w =
   ((fold (ctl_start h) svcs w)\<lparr>journal_file := None\<rparr>,
    map (StartUnit \<circ> ctl_name) svcs @ [ClearJournal])"
  by (induction svcs arbitrary: w) (simp_all add: journal_clear_def)

definition down_effects :: "string list \<Rightarrow> svc_effect list" where
  "down_effects us = concat (map (\<lambda>u. [StopUnit u, SawDown u]) us)"

lemma down_effects_simps [simp]:
  "down_effects [] = []" "down_effects (u # us) = StopUnit u # SawDown u # down_effects us"
  by (simp_all add: down_effects_def)

text \<open>With verification, the loop stops and sees down each unit in turn, up to the first that stays
  up.\<close>

lemma stop_all_effects:
  "stop_all h True t svcs w = Some (w', es, bad) \<Longrightarrow>
   (case bad of
      None \<Rightarrow> es = down_effects (map ctl_name svcs)
    | Some u \<Rightarrow> (\<exists>done svc rest. svcs = done @ svc # rest \<and> u = ctl_name svc \<and>
        es = down_effects (map ctl_name done) @ [StopUnit u]))"
proof (induction svcs arbitrary: w w' es bad)
  case Nil
  then show ?case by auto
next
  case (Cons svc svcs)
  let ?w1 = "ctl_stop h svc w"
  from Cons.prems obtain w2 down where
    a: "await_down h svc (os_monotonic h (os ?w1) + t) ?w1 = Some (w2, down)"
    by (auto simp: Let_def bind_eq_Some_conv)
  show ?case
  proof (cases down)
    case False
    with Cons.prems a have "es = [StopUnit (ctl_name svc)]" "bad = Some (ctl_name svc)"
      by (auto simp: Let_def)
    then show ?thesis by (auto intro!: exI[of _ "[]"])
  next
    case True
    with Cons.prems a obtain es' where
      r: "stop_all h True t svcs w2 = Some (w', es', bad)"
      and es: "es = StopUnit (ctl_name svc) # SawDown (ctl_name svc) # es'"
      by (auto simp: Let_def)
    from Cons.IH[OF r]
    have ih: "case bad of
        None \<Rightarrow> es' = down_effects (map ctl_name svcs)
      | Some u \<Rightarrow> (\<exists>done svc rest. svcs = done @ svc # rest \<and> u = ctl_name svc \<and>
          es' = down_effects (map ctl_name done) @ [StopUnit u])" .
    show ?thesis
    proof (cases bad)
      case None
      with ih es show ?thesis by simp
    next
      case (Some u)
      with ih obtain dn sv rest where "svcs = dn @ sv # rest" "u = ctl_name sv"
        "es' = down_effects (map ctl_name dn) @ [StopUnit u]" by auto
      with es Some show ?thesis
        by (auto intro!: exI[of _ "svc # dn"])
    qed
  qed
qed

subsection \<open>The verification loop ends\<close>

text \<open>Documented behaviour of \<open>time.sleep\<close> and \<open>time.monotonic\<close>: sleeping moves the clock on.\<close>

definition clock_runs :: "'o host \<Rightarrow> bool" where
  "clock_runs h = (\<forall>o'. os_monotonic h (os_sleep h (1/2) o') \<ge> os_monotonic h o' + 1/2)"

lemma await_down_returns:
  assumes "clock_runs h"
  shows "\<exists>r. await_down h svc deadline w = Some r"
proof -
  have "\<exists>r. await_down h svc deadline w = Some r" if "deadline - os_monotonic h (os w) \<le> of_nat n / 2" for n w
    using that
  proof (induction n arbitrary: w)
    case 0
    then show ?case by (subst await_down.simps) auto
  next
    case (Suc n)
    let ?w = "w\<lparr>os := os_sleep h (1/2) (os w)\<rparr>"
    from assms have "os_monotonic h (os ?w) \<ge> os_monotonic h (os w) + 1/2"
      by (simp add: clock_runs_def)
    with Suc.prems have "deadline - os_monotonic h (os ?w) \<le> of_nat n / 2"
      by (simp add: add_divide_distrib)
    from Suc.IH[OF this] show ?case by (subst await_down.simps) auto
  qed
  moreover obtain n where "2 * (deadline - os_monotonic h (os w)) \<le> of_nat n"
    using real_arch_simple by blast
  ultimately show ?thesis by (simp add: field_simps)
qed

lemma stop_all_returns:
  assumes "clock_runs h"
  shows "\<exists>r. stop_all h verify timeout svcs w = Some r"
proof (induction svcs arbitrary: w)
  case (Cons svc svcs)
  let ?w1 = "ctl_stop h svc w"
  obtain w2 down where a: "await_down h svc (os_monotonic h (os ?w1) + timeout) ?w1 = Some (w2, down)"
    using await_down_returns[OF assms] by (metis surj_pair)
  from Cons[of w2] Cons[of ?w1] a show ?case by (auto simp: Let_def)
qed simp

subsection \<open>What a block does\<close>

definition touched :: "'o host \<Rightarrow> controller list \<Rightarrow> 'o svc_world \<Rightarrow> string list" where
  "touched h controllers w = map ctl_name (filter (\<lambda>svc. ctl_is_active h svc w) controllers)"

lemma services_stopped_shape:
  assumes "services_stopped h cs label True t body w = Some (w', es, r)"
  shows "\<exists>es_stop es_body.
    es = (if touched h cs w = [] then [] else [WriteJournal (journal_entry h (touched h cs w) label w)])
         @ es_stop @ es_body @ map StartUnit (rev (touched h cs w)) @ [ClearJournal] \<and>
    journal_file w' = None \<and>
    (case r of
       Inr x \<Rightarrow> es_stop = down_effects (touched h cs w) \<and> (\<exists>w2 w3. body w2 = (w3, es_body, x))
     | Inl (ServiceControlError u) \<Rightarrow> es_body = [] \<and>
         (\<exists>done rest. touched h cs w = done @ u # rest \<and> es_stop = down_effects done @ [StopUnit u]))"
proof -
  define ts where "ts = filter (\<lambda>svc. ctl_is_active h svc w) cs"
  have tn: "touched h cs w = map ctl_name ts" by (simp add: touched_def ts_def)
  define w1 where "w1 = (if ts \<noteq> [] then fst (record_stop h (map ctl_name ts) label w) else w)"
  define ej where "ej = (if ts = [] then [] else [WriteJournal (journal_entry h (map ctl_name ts) label w)])"
  have pair: "(if ts \<noteq> [] then record_stop h (map ctl_name ts) label w else (w, [])) = (w1, ej)"
    by (simp add: w1_def ej_def record_stop_def Let_def)
  note run = assms[unfolded services_stopped_def Let_def ts_def[symmetric] pair prod.case]
  then obtain w2 es1 bad where sa: "stop_all h True t ts w1 = Some (w2, es1, bad)"
    by (cases "stop_all h True t ts w1") auto
  note eff = stop_all_effects[OF sa]
  have starts: "map (StartUnit \<circ> ctl_name) (rev ts) = map StartUnit (rev (touched h cs w))"
    by (simp add: tn rev_map)
  show ?thesis
  proof (cases bad)
    case None
    obtain w3 eb x where b: "body w2 = (w3, eb, x)" by (metis surj_pair)
    from run sa None b have "es = ej @ es1 @ eb @ map StartUnit (rev (touched h cs w)) @ [ClearJournal]"
      "r = Inr x" "journal_file w' = None"
      by (auto simp: restart_all_eq starts)
    moreover from eff None have "es1 = down_effects (touched h cs w)" by (simp add: tn)
    ultimately show ?thesis using b by (auto simp: ej_def tn intro!: exI[of _ es1] exI[of _ eb])
  next
    case (Some u)
    from run sa Some have eqs: "es = ej @ es1 @ map StartUnit (rev (touched h cs w)) @ [ClearJournal]"
      "r = Inl (ServiceControlError u)" "journal_file w' = None"
      by (auto simp: restart_all_eq starts)
    from eff Some obtain dn svc rest where
      "ts = dn @ svc # rest" "u = ctl_name svc" "es1 = down_effects (map ctl_name dn) @ [StopUnit u]" by auto
    then have "\<exists>done rest. touched h cs w = done @ u # rest \<and> es1 = down_effects done @ [StopUnit u]"
      by (intro exI[of _ "map ctl_name dn"] exI[of _ "map ctl_name rest"]) (simp add: tn)
    with eqs show ?thesis by (intro exI[of _ es1] exI[of _ "[]"]) (simp add: ej_def tn)
  qed
qed

subsection \<open>Seen down\<close>

text \<open>The world after \<open>n\<close> rounds of waiting, and what the stops of a list of controllers lead to: each is stopped, waited
  for, and observed inactive in the very world the next stop, or the body, starts from.\<close>

definition waited :: "'o host \<Rightarrow> nat \<Rightarrow> 'o svc_world \<Rightarrow> 'o svc_world" where
  "waited h n w = w\<lparr>os := (os_sleep h (1/2) ^^ n) (os w)\<rparr>"

primrec downed :: "'o host \<Rightarrow> controller list \<Rightarrow> 'o svc_world \<Rightarrow> 'o svc_world \<Rightarrow> bool" where
  "downed h [] w v = (v = w)"
| "downed h (c # cs) w v = (\<exists>n. \<not> ctl_is_active h c (waited h n (ctl_stop h c w)) \<and> downed h cs (waited h n (ctl_stop h c w)) v)"

text \<open>Still up when the time was over.\<close>

definition stayed_up :: "'o host \<Rightarrow> rat \<Rightarrow> controller \<Rightarrow> 'o svc_world \<Rightarrow> 'o svc_world \<Rightarrow> bool" where
  "stayed_up h timeout c w v = (ctl_is_active h c v \<and> (\<exists>n. v = waited h n (ctl_stop h c w)) \<and>
     os_monotonic h (os v) \<ge> os_monotonic h (os (ctl_stop h c w)) + timeout)"

definition restarted :: "'o host \<Rightarrow> controller list \<Rightarrow> 'o svc_world \<Rightarrow> 'o svc_world" where
  "restarted h svcs w = (fold (ctl_start h) svcs w)\<lparr>journal_file := None\<rparr>"

definition active_of :: "'o host \<Rightarrow> controller list \<Rightarrow> 'o svc_world \<Rightarrow> controller list" where
  "active_of h cs w = filter (\<lambda>svc. ctl_is_active h svc w) cs"

definition journalled :: "'o host \<Rightarrow> controller list \<Rightarrow> string \<Rightarrow> 'o svc_world \<Rightarrow> 'o svc_world" where
  "journalled h cs label w =
     (if active_of h cs w = [] then w else w\<lparr>journal_file := Some (journal_entry h (map ctl_name (active_of h cs w)) label w)\<rparr>)"

lemma waited_Suc: "waited h n (w\<lparr>os := os_sleep h (1/2) (os w)\<rparr>) = waited h (Suc n) w"
  by (simp add: waited_def funpow_swap1)

lemma waited_0 [simp]: "waited h 0 w = w"
  by (simp add: waited_def)

lemma await_down_seen:
  assumes "await_down h svc d w = Some (v, down)"
  shows "\<exists>n. v = waited h n w \<and> (down \<longleftrightarrow> \<not> ctl_is_active h svc v) \<and> (\<not> down \<longrightarrow> os_monotonic h (os v) \<ge> d)"
proof -
  let ?P = "\<lambda>h svc d w r. case r of (v, down) \<Rightarrow> \<exists>n. v = waited h n w \<and> (down \<longleftrightarrow> \<not> ctl_is_active h svc v) \<and> (\<not> down \<longrightarrow> os_monotonic h (os v) \<ge> d)"
  have "?P h svc d w (v, down)"
  proof (rule await_down.raw_induct[where P = ?P, OF _ assms])
    fix f h svc d w r
    assume ih: "\<And>h svc d w r. f h svc d w = Some r \<Longrightarrow> ?P h svc d w r"
      and r: "(if ctl_is_active h svc w then if os_monotonic h (os w) \<ge> d then Some (w, False)
           else f h svc d (w\<lparr>os := os_sleep h (1/2) (os w)\<rparr>) else Some (w, True)) = Some r"
    show "?P h svc d w r"
    proof (cases "ctl_is_active h svc w \<and> \<not> os_monotonic h (os w) \<ge> d")
      case True
      with r have "f h svc d (w\<lparr>os := os_sleep h (1/2) (os w)\<rparr>) = Some r" by simp
      from ih[OF this] show ?thesis unfolding waited_Suc by (cases r) blast
    next
      case False
      with r show ?thesis by (auto split: if_splits intro!: exI[of _ 0])
    qed
  qed
  then show ?thesis by simp
qed

lemma stop_all_seen:
  "stop_all h True t svcs w = Some (v, es, bad) \<Longrightarrow>
   (case bad of
      None \<Rightarrow> downed h svcs w v
    | Some u \<Rightarrow> (\<exists>before svc rest w1. svcs = before @ svc # rest \<and> u = ctl_name svc \<and>
        es = down_effects (map ctl_name before) @ [StopUnit u] \<and> downed h before w w1 \<and> stayed_up h t svc w1 v))"
proof (induction svcs arbitrary: w es)
  case (Cons svc svcs)
  let ?w1 = "ctl_stop h svc w"
  from Cons.prems obtain w2 down where
    a: "await_down h svc (os_monotonic h (os ?w1) + t) ?w1 = Some (w2, down)"
    by (auto simp: Let_def bind_eq_Some_conv)
  from await_down_seen[OF a] obtain n where n: "w2 = waited h n ?w1" "down \<longleftrightarrow> \<not> ctl_is_active h svc w2"
    "\<not> down \<longrightarrow> os_monotonic h (os w2) \<ge> os_monotonic h (os ?w1) + t" by blast
  show ?case
  proof (cases down)
    case False
    with Cons.prems a have e: "es = [StopUnit (ctl_name svc)]" "bad = Some (ctl_name svc)" "v = w2" by (auto simp: Let_def)
    have "stayed_up h t svc w v" using False n e(3) by (auto simp: stayed_up_def)
    with e have "svc # svcs = [] @ svc # svcs \<and> ctl_name svc = ctl_name svc \<and> es = down_effects (map ctl_name []) @ [StopUnit (ctl_name svc)] \<and>
        downed h [] w w \<and> stayed_up h t svc w v" by simp
    with e(2) show ?thesis by (simp only: option.case) blast
  next
    case True
    with Cons.prems a obtain es' where r: "stop_all h True t svcs w2 = Some (v, es', bad)"
      and es: "es = StopUnit (ctl_name svc) # SawDown (ctl_name svc) # es'" by (auto simp: Let_def)
    note ih = Cons.IH[OF r]
    show ?thesis
    proof (cases bad)
      case None
      with ih n True show ?thesis by auto
    next
      case (Some u)
      with ih obtain bf sv rest w1 where "svcs = bf @ sv # rest" "u = ctl_name sv"
        "es' = down_effects (map ctl_name bf) @ [StopUnit u]" "downed h bf w2 w1" "stayed_up h t sv w1 v" by auto
      moreover have "downed h (svc # bf) w w1" using calculation(4) n True by auto
      ultimately have "svc # svcs = (svc # bf) @ sv # rest \<and> u = ctl_name sv \<and>
          es = down_effects (map ctl_name (svc # bf)) @ [StopUnit u] \<and> downed h (svc # bf) w w1 \<and> stayed_up h t sv w1 v" using es by simp
      with Some show ?thesis by (simp only: option.case) blast
    qed
  qed
qed simp

lemma services_stopped_seen:
  assumes "services_stopped h cs label True t body w = Some (w', es, r)"
  shows "\<exists>es_stop es_body w3.
    es = (if touched h cs w = [] then [] else [WriteJournal (journal_entry h (touched h cs w) label w)])
         @ es_stop @ es_body @ map StartUnit (rev (touched h cs w)) @ [ClearJournal] \<and>
    w' = restarted h (rev (active_of h cs w)) w3 \<and>
    (case r of
       Inr x \<Rightarrow> es_stop = down_effects (touched h cs w) \<and>
         (\<exists>w2. downed h (active_of h cs w) (journalled h cs label w) w2 \<and> body w2 = (w3, es_body, x))
     | Inl (ServiceControlError u) \<Rightarrow> es_body = [] \<and>
         (\<exists>before svc rest w2. active_of h cs w = before @ svc # rest \<and> u = ctl_name svc \<and>
            es_stop = down_effects (map ctl_name before) @ [StopUnit u] \<and>
            downed h before (journalled h cs label w) w2 \<and> stayed_up h t svc w2 w3))"
proof -
  define ts where "ts = active_of h cs w"
  have tn: "touched h cs w = map ctl_name ts" by (simp add: touched_def ts_def active_of_def)
  define ej where "ej = (if ts = [] then [] else [WriteJournal (journal_entry h (map ctl_name ts) label w)])"
  have pair: "(if ts \<noteq> [] then record_stop h (map ctl_name ts) label w else (w, [])) = (journalled h cs label w, ej)"
    by (simp add: journalled_def ts_def[symmetric] ej_def record_stop_def Let_def)
  note run = assms[unfolded services_stopped_def Let_def active_of_def[symmetric] ts_def[symmetric] pair prod.case]
  then obtain w2 es1 bad where sa: "stop_all h True t ts (journalled h cs label w) = Some (w2, es1, bad)"
    by (cases "stop_all h True t ts (journalled h cs label w)") auto
  note eff = stop_all_effects[OF sa] and seen = stop_all_seen[OF sa]
  have starts: "map (StartUnit \<circ> ctl_name) (rev ts) = map StartUnit (rev (touched h cs w))"
    by (simp add: tn rev_map)
  have j: "(if touched h cs w = [] then [] else [WriteJournal (journal_entry h (touched h cs w) label w)]) = ej"
    by (simp add: ej_def tn)
  show ?thesis
  proof (cases bad)
    case None
    obtain w3 eb x where b: "body w2 = (w3, eb, x)" by (metis surj_pair)
    from run sa None b have q: "es = ej @ es1 @ eb @ map StartUnit (rev (touched h cs w)) @ [ClearJournal]"
      "r = Inr x" "w' = restarted h (rev ts) w3"
      by (auto simp: restart_all_eq starts restarted_def)
    moreover from eff None have "es1 = down_effects (touched h cs w)" by (simp add: tn)
    ultimately show ?thesis using b seen None unfolding j ts_def[symmetric]
      by (intro exI[of _ es1] exI[of _ eb] exI[of _ w3]) auto
  next
    case (Some u)
    from run sa Some have q: "es = ej @ es1 @ map StartUnit (rev (touched h cs w)) @ [ClearJournal]"
      "r = Inl (ServiceControlError u)" "w' = restarted h (rev ts) w2"
      by (auto simp: restart_all_eq starts restarted_def)
    with seen Some show ?thesis unfolding j ts_def[symmetric]
      by (intro exI[of _ es1] exI[of _ "[]"] exI[of _ w2]) auto
  qed
qed

subsection \<open>The block, as a whole\<close>

text \<open>A host for the witnesses: the set of running units, and a clock.\<close>

definition demo_host :: "(string list \<times> rat) host" where
  "demo_host =
     \<lparr>os_systemctl = (\<lambda>action u (up, t).
        ((if action = ''stop'' then removeAll u up else u # up, t), Some 0)),
      os_active_rc = (\<lambda>u (up, t). Some (if u \<in> set up then 0 else 3)),
      mr_call = (\<lambda>m u o'. (o', False)),
      os_sleep = (\<lambda>d (up, t). (up, t + d)),
      os_monotonic = snd,
      os_time = (\<lambda>o'. JInt 0),
      os_pid = 7,
      float_parses = (\<lambda>s. False)\<rparr>"

definition demo_world :: "(string list \<times> rat) svc_world" where
  "demo_world = \<lparr>os = ([''klipper'', ''knomi''], 0), null_active = (\<lambda>_. True), journal_file = None\<rparr>"

definition demo_body ::
  "(string list \<times> rat) svc_world \<Rightarrow> (string list \<times> rat) svc_world \<times> svc_effect list \<times> bool" where
  "demo_body v = (v, [BodyEffect 0], True)"

abbreviation demo_controllers :: "controller list" where
  "demo_controllers \<equiv> [Controller SystemdService ''klipper'', Controller MoonrakerService ''knomi'',
     Controller SystemdService ''absent'']"

lemma await_down_down: "\<not> ctl_is_active h c w \<Longrightarrow> await_down h c d w = Some (w, True)"
  by (subst await_down.simps) simp

lemmas demo_eval = demo_host_def demo_world_def demo_body_def systemd_is_active_def systemd_stop_def
  systemd_start_def moonraker_stop_def moonraker_start_def systemd_run_def

lemma demo_run:
  "\<exists>w'. services_stopped demo_host demo_controllers ''flash'' True 20 demo_body demo_world =
     Some (w', WriteJournal (journal_entry demo_host [''klipper'', ''knomi''] ''flash'' demo_world) #
       [StopUnit ''klipper'', SawDown ''klipper'', StopUnit ''knomi'', SawDown ''knomi'', BodyEffect 0,
        StartUnit ''knomi'', StartUnit ''klipper'', ClearJournal], Inr True)"
  by (simp add: services_stopped_def record_stop_def await_down_down demo_eval journal_clear_def
      restart_all_eq Let_def)

lemma demo_touched: "touched demo_host demo_controllers demo_world = [''klipper'', ''knomi'']"
  by (simp add: touched_def demo_eval)



text \<open>C30: a block always ends, as far as the services are concerned: on a clock that moves while the
  process sleeps, stopping, verifying and restarting return for every list of units, whatever
  the backends answer and whatever the body does.\<close>

theorem services_stopped_returns:
  assumes "clock_runs h"
  shows "\<exists>w' es r. services_stopped h cs label verify timeout body w = Some (w', es, r)"
proof -
  have some: "\<exists>w' es r. map_option f y = Some (w', es, r)" if "\<exists>r. y = Some r"
    for f :: "'z \<Rightarrow> 'a svc_world \<times> svc_effect list \<times> (svc_error + 'b)" and y
    using that by (metis option.simps(9) surj_pair)
  show ?thesis
    unfolding services_stopped_def Let_def prod.case_eq_if
    by (rule some[OF stop_all_returns[OF assms]])
qed

lemma demo_clock: "clock_runs demo_host"
  by (simp add: clock_runs_def demo_host_def)

theorem services_stopped_returns_witness:
  "clock_runs demo_host \<and>
   (\<exists>w' es r. services_stopped demo_host demo_controllers ''x'' True 20 demo_body demo_world = Some (w', es, r))"
  using services_stopped_returns[OF demo_clock] demo_clock by blast

subsection \<open>Crashes\<close>

text \<open>A unit is left down by a crash when its last recorded action is a stop.\<close>

definition left_down :: "svc_effect list \<Rightarrow> string \<Rightarrow> bool" where
  "left_down p u = (\<exists>a b. p = a @ StopUnit u # b \<and> StartUnit u \<notin> set b)"

lemma journal_after_append: "journal_after j (es @ fs) = journal_after (journal_after j es) fs"
  by (induction j es rule: journal_after.induct) auto

lemma journal_after_plain:
  "\<forall>e \<in> set es. (\<forall>x. e \<noteq> WriteJournal x) \<and> e \<noteq> ClearJournal \<Longrightarrow> journal_after j es = j"
  by (induction j es rule: journal_after.induct) auto

lemma down_effects_plain:
  "e \<in> set (down_effects us) \<Longrightarrow> (\<forall>x. e \<noteq> WriteJournal x) \<and> e \<noteq> ClearJournal"
  by (induction us) auto

lemma split_after:
  assumes "a @ x # b = p @ q" and "x \<notin> set q"
  shows "\<exists>c. b = c @ q"
  using assms
proof (induction p arbitrary: a)
  case Nil
  then show ?case by (metis append_Nil in_set_conv_decomp)
next
  case (Cons y p)
  then show ?case by (cases a) auto
qed

text \<open>Every prefix of a run after which some unit is down leaves the journal entry in place.\<close>

lemma crash_journal:
  assumes es: "es = [WriteJournal e] @ es_stop @ es_body @ map StartUnit (rev us) @ [ClearJournal]"
    and plain: "\<forall>x \<in> set (es_stop @ es_body). (\<forall>y. x \<noteq> WriteJournal y) \<and> x \<noteq> ClearJournal"
    and stops: "\<forall>u. StopUnit u \<in> set (es_stop @ es_body) \<longrightarrow> u \<in> set us"
    and p: "prefix p es" and down: "left_down p u"
  shows "journal_after j p = Some e \<and> u \<in> set us"
proof -
  let ?mid = "es_stop @ es_body @ map StartUnit (rev us)"
  from down obtain a b where ab: "p = a @ StopUnit u # b" "StartUnit u \<notin> set b"
    by (auto simp: left_down_def)
  have "p \<noteq> es"
  proof
    assume "p = es"
    have "StopUnit u \<notin> set ([WriteJournal e] @ map StartUnit (rev us) @ [ClearJournal])" by auto
    moreover have "StopUnit u \<in> set es" using ab(1) \<open>p = es\<close> by simp
    ultimately have mem: "u \<in> set us" using stops es by auto
    obtain pre where pre: "es = pre @ map StartUnit (rev us) @ [ClearJournal]"
      "pre = [WriteJournal e] @ es_stop @ es_body" using es by simp
    have "a @ StopUnit u # b = pre @ (map StartUnit (rev us) @ [ClearJournal])"
      using ab(1) \<open>p = es\<close> pre(1) by simp
    moreover have "StopUnit u \<notin> set (map StartUnit (rev us) @ [ClearJournal])" by auto
    ultimately have "\<exists>c. b = c @ map StartUnit (rev us) @ [ClearJournal]" by (rule split_after)
    with mem ab(2) show False by auto
  qed
  with p es have "prefix p ([WriteJournal e] @ ?mid)"
    by (metis append.assoc prefix_snoc)
  moreover from ab have "p \<noteq> []" by simp
  ultimately obtain q where q: "p = WriteJournal e # q" "prefix q ?mid"
    by (cases p) auto
  have sub: "set q \<subseteq> set ?mid" by (rule set_mono_prefix[OF q(2)])
  with plain have "journal_after (Some e) q = Some e"
    by (intro journal_after_plain) auto
  moreover have "StopUnit u \<in> set q" using ab(1) q(1) by (cases a) auto
  with sub have "StopUnit u \<in> set (es_stop @ es_body)" by auto
  ultimately show ?thesis using q(1) stops by auto
qed

lemma str_list_map [simp]: "str_list (map JStr us) = Some us"
  by (induction us) auto

lemma pending_journal_entry:
  "us \<noteq> [] \<Longrightarrow> \<exists>data. pending (Some (journal_entry h us label w)) = Some data \<and>
     jget data ''services'' = JList (map JStr us) \<and> jget data ''at'' = os_time h (os w)"
  by (cases us) (simp_all add: pending_def journal_entry_def)

lemma ctl_is_active_journal [simp]:
  "ctl_is_active h c (w\<lparr>journal_file := j\<rparr>) = ctl_is_active h c w"
  by (cases c; cases "ctl_backend c") (auto simp: systemd_is_active_def)

lemma restart_missing_active:
  assumes law: "unit_control (\<lambda>n. ctl_start h (Controller b n)) (\<lambda>n. ctl_is_active h (Controller b n))"
    and run: "restart_missing h (\<lambda>n v. (v, Controller b n)) ns w = (w', es)"
  shows "(\<forall>n \<in> set ns. ctl_is_active h (Controller b n) w') \<and>
    (\<forall>n. ctl_is_active h (Controller b n) w \<longrightarrow> ctl_is_active h (Controller b n) w') \<and>
    set es \<subseteq> StartUnit ` set ns"
  using run
proof (induction ns arbitrary: w w' es)
  case (Cons n ns)
  note act = unit_control.start_active[OF law] and keep = unit_control.start_keeps[OF law]
  show ?case
  proof (cases "ctl_is_active h (Controller b n) w")
    case True
    with Cons show ?thesis by fastforce
  next
    case False
    with Cons.prems obtain es' where r: "restart_missing h (\<lambda>n v. (v, Controller b n)) ns
        (ctl_start h (Controller b n) w) = (w', es')" "es = StartUnit n # es'"
      by (auto split: prod.splits)
    from Cons.IH[OF r(1)] act keep r(2) show ?thesis by fastforce
  qed
qed simp

text \<open>C29: a process killed at any moment of a block leaves nothing down for good. Take any prefix of a
  verified block's effects (the body itself stops, starts and journals nothing): if some unit
  is then stopped and not yet started again, the journal file names it, and \<open>reconcile\<close> on the
  next startup takes action, raises nothing, removes the journal and has that unit - and every
  other unit the block had set out to stop - active, provided starting a unit makes it active.\<close>

theorem crash_then_reconcile:
  assumes run: "services_stopped h cs label True t body w = Some (w', es, r)"
    and body: "\<forall>v. \<forall>e \<in> set (fst (snd (body v))). \<exists>n. e = BodyEffect n"
    and crash: "prefix p es" and down: "left_down p u"
    and jf: "journal_file wc = journal_after (journal_file w) p"
    and law: "unit_control (\<lambda>n. ctl_start h (Controller b n)) (\<lambda>n. ctl_is_active h (Controller b n))"
    and time: "float_raises h (os_time h (os w)) = None"
  shows "\<exists>w2 es2. reconcile h (\<lambda>n v. (v, Controller b n)) wc = (w2, es2, Inr True) \<and>
    journal_file w2 = None \<and> u \<in> set (touched h cs w) \<and>
    (\<forall>n \<in> set (touched h cs w). ctl_is_active h (Controller b n) w2)"
proof -
  let ?us = "touched h cs w"
  from services_stopped_shape[OF run] obtain es_stop es_body where
    es: "es = (if ?us = [] then [] else [WriteJournal (journal_entry h ?us label w)])
         @ es_stop @ es_body @ map StartUnit (rev ?us) @ [ClearJournal]"
    and r: "case r of
       Inr x \<Rightarrow> es_stop = down_effects ?us \<and> (\<exists>w2 w3. body w2 = (w3, es_body, x))
     | Inl (ServiceControlError u) \<Rightarrow> es_body = [] \<and>
         (\<exists>done rest. ?us = done @ u # rest \<and> es_stop = down_effects done @ [StopUnit u])" by blast
  have stop_mem: "StopUnit v \<in> set (down_effects vs) \<longleftrightarrow> v \<in> set vs" for v vs
    by (induction vs) auto
  from r body have eb: "\<forall>e \<in> set es_body. \<exists>n. e = BodyEffect n"
    by (cases r) (auto split: svc_error.splits, metis fst_conv snd_conv)
  from r have st: "\<forall>x \<in> set es_stop. (\<forall>y. x \<noteq> WriteJournal y) \<and> x \<noteq> ClearJournal"
    "\<forall>v. StopUnit v \<in> set es_stop \<longrightarrow> v \<in> set ?us"
    by (cases r; auto split: svc_error.splits simp: stop_mem dest: down_effects_plain)+
  have ne: "?us \<noteq> []"
  proof
    assume empty: "?us = []"
    with st(2) have "\<forall>v. StopUnit v \<notin> set es" using eb es by auto
    moreover from down have "StopUnit u \<in> set p" by (auto simp: left_down_def)
    ultimately show False using set_mono_prefix[OF crash] by auto
  qed
  have j: "journal_after (journal_file w) p = Some (journal_entry h ?us label w) \<and> u \<in> set ?us"
  proof (rule crash_journal[OF _ _ _ crash down])
    show "es = [WriteJournal (journal_entry h ?us label w)] @ es_stop @ es_body @ map StartUnit (rev ?us) @ [ClearJournal]"
      using es ne by simp
    show "\<forall>x \<in> set (es_stop @ es_body). (\<forall>y. x \<noteq> WriteJournal y) \<and> x \<noteq> ClearJournal"
      using st(1) eb by auto
    show "\<forall>u. StopUnit u \<in> set (es_stop @ es_body) \<longrightarrow> u \<in> set ?us"
      using st(2) eb by auto
  qed
  from pending_journal_entry[OF ne, of h label w] obtain data where
    d: "pending (journal_file wc) = Some data" "jget data ''services'' = JList (map JStr ?us)"
    "jget data ''at'' = os_time h (os w)" using jf j by auto
  obtain w1 es1 where rm: "restart_missing h (\<lambda>n v. (v, Controller b n)) (rev ?us) wc = (w1, es1)"
    by (metis surj_pair)
  have "float_raises h (if truthy (jget data ''at'') then jget data ''at'' else JInt 0) = None"
    using time d(3) by (simp add: float_raises_def)
  then have "reconcile h (\<lambda>n v. (v, Controller b n)) wc = (w1\<lparr>journal_file := None\<rparr>, es1 @ [ClearJournal], Inr True)"
    by (simp add: reconcile_def d(1,2) rm journal_clear_def Let_def)
  with restart_missing_active[OF law rm] j show ?thesis by simp
qed

theorem crash_then_reconcile_witness:
  "\<exists>p w2 es2. left_down p ''klipper'' \<and>
     reconcile demo_host (\<lambda>n v. (v, Controller SystemdService n))
       (demo_world\<lparr>os := ([], 0), journal_file := journal_after None p\<rparr>) = (w2, es2, Inr True) \<and>
     ctl_is_active demo_host (Controller SystemdService ''klipper'') w2"
proof -
  let ?p = "[WriteJournal (journal_entry demo_host [''klipper'', ''knomi''] ''flash'' demo_world), StopUnit ''klipper'']"
  let ?wc = "demo_world\<lparr>os := ([], 0), journal_file := journal_after None ?p\<rparr>"
  from demo_run obtain w' es where
    r: "services_stopped demo_host demo_controllers ''flash'' True 20 demo_body demo_world = Some (w', es, Inr True)"
    "prefix ?p es" by auto
  have down: "left_down ?p ''klipper''"
    unfolding left_down_def
    by (rule exI[of _ "[WriteJournal (journal_entry demo_host [''klipper'', ''knomi''] ''flash'' demo_world)]"],
        rule exI[of _ "[]"]) simp
  have law: "unit_control (\<lambda>n. ctl_start demo_host (Controller SystemdService n))
      (\<lambda>n. ctl_is_active demo_host (Controller SystemdService n))"
    by unfold_locales (auto simp: demo_eval split: prod.splits)
  have body: "\<forall>v. \<forall>e \<in> set (fst (snd (demo_body v))). \<exists>n. e = BodyEffect n" by (simp add: demo_body_def)
  have jf: "journal_file ?wc = journal_after (journal_file demo_world) ?p" by (simp add: demo_world_def)
  have time: "float_raises demo_host (os_time demo_host (os demo_world)) = None"
    by (simp add: float_raises_def demo_host_def)
  from crash_then_reconcile[OF r(1) body r(2) down jf law time] demo_touched down show ?thesis by auto
qed

text \<open>A block that finds every service already stopped - one nested inside another block, as the
  command line nests the batch's own stop inside \<open>_ports_free\<close> - writes no journal entry and
  starts nothing, but still removes the journal file, so an entry the outer block wrote is gone
  while the units it names are still down.\<close>

theorem idle_block_clears_journal:
  assumes "\<forall>c \<in> set cs. \<not> ctl_is_active h c w"
  shows "\<exists>w2 es_body x. body w = (w2, es_body, x) \<and>
    services_stopped h cs label verify timeout body w =
      Some (w2\<lparr>journal_file := None\<rparr>, es_body @ [ClearJournal], Inr x)"
proof -
  obtain w2 es_body x where b: "body w = (w2, es_body, x)" by (metis surj_pair)
  from assms have "filter (\<lambda>svc. ctl_is_active h svc w) cs = []" by (simp add: filter_empty_conv)
  with b show ?thesis by (simp add: services_stopped_def journal_clear_def)
qed

theorem idle_block_clears_journal_witness:
  "\<exists>w'. services_stopped demo_host [Controller SystemdService ''klipper''] ''inner'' True 20 demo_body
       (demo_world\<lparr>os := ([], 0), journal_file := Some (journal_entry demo_host [''klipper''] ''outer'' demo_world)\<rparr>)
     = Some (w', [BodyEffect 0, ClearJournal], Inr True) \<and> journal_file w' = None \<and>
     \<not> ctl_is_active demo_host (Controller SystemdService ''klipper'') w'"
proof -
  let ?w = "demo_world\<lparr>os := ([], 0), journal_file := Some (journal_entry demo_host [''klipper''] ''outer'' demo_world)\<rparr>"
  have "\<forall>c \<in> set [Controller SystemdService ''klipper'']. \<not> ctl_is_active demo_host c ?w"
    by (simp add: demo_eval)
  from idle_block_clears_journal[OF this, of demo_body "''inner''" True 20]
  show ?thesis by (auto simp: demo_body_def systemd_is_active_def demo_host_def)
qed

text \<open>Reconciling in a dry run loses the recovery: every controller is a fresh \<open>NullService\<close>,
  which reports active, so \<open>reconcile\<close> starts nothing, leaves the host as it is, and removes the
  journal that named the services a crashed run had stopped.\<close>

theorem dry_run_reconcile_drops_journal:
  assumes "pending (journal_file w) = Some entry" and "jget entry ''services'' = JList (map JStr names)"
    and "float_raises h (if truthy (jget entry ''at'') then jget entry ''at'' else JInt 0) = None"
  shows "\<exists>w2. reconcile h (\<lambda>n. make_controller True backend has_call (Some n)) w =
      (w2, [ClearJournal], Inr True) \<and> os w2 = os w \<and> journal_file w2 = None"
proof -
  have "\<exists>w1. restart_missing h (\<lambda>n. make_controller True backend has_call (Some n)) ns v = (w1, []) \<and>
      os w1 = os v" for ns v
  proof (induction ns arbitrary: v)
    case (Cons n ns)
    define un where "un = (if n = [] then ''klipper'' else n)"
    show ?case
      using Cons[of "v\<lparr>null_active := (null_active v)(un := True)\<rparr>"]
      by (simp add: make_controller_def un_def[symmetric])
  qed simp
  then obtain w1 where "restart_missing h (\<lambda>n. make_controller True backend has_call (Some n)) (rev names) w = (w1, [])"
    "os w1 = os w" by blast
  with assms show ?thesis by (simp add: reconcile_def Let_def journal_clear_def)
qed

theorem dry_run_reconcile_drops_journal_witness:
  "\<exists>w2. reconcile demo_host (\<lambda>n. make_controller True ''systemd'' False (Some n))
       (demo_world\<lparr>os := ([], 0), journal_file := Some (journal_entry demo_host [''klipper''] ''flash'' demo_world)\<rparr>)
     = (w2, [ClearJournal], Inr True) \<and> os w2 = ([], 0) \<and> journal_file w2 = None"
proof -
  let ?w = "demo_world\<lparr>os := ([], 0), journal_file := Some (journal_entry demo_host [''klipper''] ''flash'' demo_world)\<rparr>"
  obtain data where d: "pending (journal_file ?w) = Some data"
    "jget data ''services'' = JList (map JStr [''klipper''])" "jget data ''at'' = JInt 0"
    using pending_journal_entry[of "[''klipper'']" demo_host "''flash''" demo_world]
    by (auto simp: demo_host_def)
  have "float_raises demo_host (if truthy (jget data ''at'') then jget data ''at'' else JInt 0) = None"
    by (simp add: d(3) float_raises_def)
  from dry_run_reconcile_drops_journal[OF d(1,2) this] show ?thesis by simp
qed

text \<open>The idle check refuses exactly when Moonraker answered that a print is printing or paused,
  or that klippy is executing commands; it never refuses with force, with the setting that
  allows it, with nobody to ask, or when asking failed.\<close>

theorem assert_printer_idle_spec:
  "(\<exists>e. assert_printer_idle allow activity force = Inl e) \<longleftrightarrow>
   \<not> force \<and> \<not> allow \<and>
   (\<exists>d. activity = Some (Inr (Some d)) \<and>
      (jget d ''print_state'' = JStr ''printing'' \<or> jget d ''print_state'' = JStr ''paused'' \<or>
       jget d ''idle_state'' = JStr ''Printing''))"
  by (auto simp: assert_printer_idle_def eq_str_def Let_def split: option.splits sum.splits if_splits)

text \<open>A macro leaves the print state at standby and still blocks.\<close>

lemma assert_printer_idle_macro:
  "assert_printer_idle False (Some (Inr (Some [(''print_state'', JStr ''standby''), (''idle_state'', JStr ''Printing'')]))) False
   = Inl (PrinterBusy (JStr ''standby''))"
  by (simp add: assert_printer_idle_def eq_str_def)

end
