(* ===== verification/Batch.thy ===== *)
theory Batch
  imports Selection Services "HOL-Library.Multiset"
begin

section \<open>Writing a set of devices with one outage (flashers/batch.py, flashers/registry.py)\<close>

text \<open>
  \<open>write_all\<close> is the loop every flash goes through. The flasher's four methods, the ledger file
  and the services block are arguments (the record \<open>bench_ops\<close> and \<open>stop_block\<close>): what the loop owns
  is the grouping, the order of the steps and the accounting, and those are modelled whole.

  An exception is a \<open>raised\<close> value: cancellation, an \<open>UpdaterError\<close> with its text, or anything
  else. Every step appends to a trace of \<open>batch_event\<close>s, so the order of writes, ledger entries
  and settling is visible in the result.
\<close>

subsection \<open>Grouping\<close>

fun group_by_stop :: "flash_target list \<Rightarrow> py_error + flash_target list \<times> flash_target list" where
  "group_by_stop [] = Inr ([], [])"
| "group_by_stop (t # ts) =
     and_then (needs_services_stopped t) (\<lambda>stop.
       and_then (group_by_stop ts) (\<lambda>(stopped, free).
         Inr (if stop then (t # stopped, free) else (stopped, t # free))))"

definition stop_services_union :: "flash_target list \<Rightarrow> string list" where
  "stop_services_union ts = dedup (concat (map tg_stop_services ts))"

text \<open>\<open>by_flasher\<close> keeps the order flashers are first seen in, and the order of each one's targets.\<close>

fun by_name_all :: "string list \<Rightarrow> py_error + flasher list" where
  "by_name_all [] = Inr []"
| "by_name_all (n # ns) = and_then (by_name n) (\<lambda>f. and_then (by_name_all ns) (\<lambda>fs. Inr (f # fs)))"

definition flasher_order :: "flash_target list \<Rightarrow> string list" where
  "flasher_order ts = dedup (map tg_flasher ts)"

definition by_flasher :: "flash_target list \<Rightarrow> py_error + (flasher \<times> flash_target list) list" where
  "by_flasher ts =
     and_then (by_name_all (flasher_order ts)) (\<lambda>fs.
       Inr (map (\<lambda>f. (f, filter (\<lambda>t. tg_flasher t = fl_name f) ts)) fs))"

subsection \<open>One device\<close>

datatype raised = Cancelled | UpdaterErr string | OtherErr string

type_synonym jdict = "(string \<times> json) list"

record flash_record =
  rec_key :: string
  rec_mcu_type :: string
  rec_fw :: string
  rec_bin_sha256 :: "string option"
  rec_fw_sha :: json
  rec_version :: json

record ('w, 's) bench_ops =
  op_cancelled :: "'w \<Rightarrow> bool"
  op_prepared :: "flasher \<Rightarrow> flash_target list \<Rightarrow> 'w \<Rightarrow> 'w \<times> (raised + 's)"
  op_write :: "flasher \<Rightarrow> 's \<Rightarrow> flash_target \<Rightarrow> 'w \<Rightarrow> 'w \<times> (raised + jdict)"
  op_record :: "flasher \<Rightarrow> flash_target \<Rightarrow> 'w \<Rightarrow> raised + flash_record option"
  op_file :: "flash_record \<Rightarrow> json \<Rightarrow> 'w \<Rightarrow> 'w \<times> (raised + unit)"
  op_settled :: "flasher \<Rightarrow> flash_target \<Rightarrow> 'w \<Rightarrow> 'w \<times> (raised + unit)"

datatype batch_event =
    Wrote flash_target
  | WriteFailed flash_target string
  | Filed flash_target flash_record
  | FileFailed flash_target string
  | NothingToFile flash_target
  | SettledDevice flash_target

record batch_acc =
  ba_flashed :: "jdict list"
  ba_failures :: "jdict list"
  ba_errors :: "string list"
  ba_done :: nat

definition target_json :: "flash_target \<Rightarrow> jdict" where
  "target_json t = [(''type'', tg_type t), (''id'', tg_id t), (''flasher'', JStr (tg_flasher t))]"

text \<open>The ledger step: nothing on a dry run, nothing without a record, otherwise one entry.\<close>

definition file_record ::
  "('w, 's) bench_ops \<Rightarrow> bool \<Rightarrow> flasher \<Rightarrow> flash_target \<Rightarrow> json \<Rightarrow> 'w \<Rightarrow>
   'w \<times> batch_event list \<times> (raised + unit)" where
  "file_record ops dry_run f t confidence w =
     (if dry_run then (w, [NothingToFile t], Inr ())
      else case op_record ops f t w of
        Inl e \<Rightarrow> (w, [FileFailed t (case e of UpdaterErr m \<Rightarrow> m | _ \<Rightarrow> [])], Inl e)
      | Inr None \<Rightarrow> (w, [NothingToFile t], Inr ())
      | Inr (Some r) \<Rightarrow>
          (let (w', res) = op_file ops r confidence w in
           case res of
             Inl e \<Rightarrow> (w', [FileFailed t (case e of UpdaterErr m \<Rightarrow> m | _ \<Rightarrow> [])], Inl e)
           | Inr _ \<Rightarrow> (w', [Filed t r], Inr ())))"

text \<open>\<open>except OperationCancelled: raise; except UpdaterError: warn\<close> around a step that must not
  cost the device its result.\<close>

definition only_warn :: "raised + unit \<Rightarrow> raised + unit" where
  "only_warn r = (case r of Inl (UpdaterErr m) \<Rightarrow> Inr () | _ \<Rightarrow> r)"

definition write_one ::
  "('w, 's) bench_ops \<Rightarrow> bool \<Rightarrow> flasher \<Rightarrow> 's \<Rightarrow> flash_target \<Rightarrow> 'w \<Rightarrow> batch_acc \<Rightarrow>
   'w \<times> batch_event list \<times> (raised + batch_acc)" where
  "write_one ops dry_run f session t w acc =
     (if op_cancelled ops w then (w, [], Inl Cancelled)
      else (let acc1 = acc\<lparr>ba_done := ba_done acc + 1\<rparr>; (w1, res) = op_write ops f session t w in
        case res of
          Inl (UpdaterErr m) \<Rightarrow>
            (w1, [WriteFailed t m],
             Inr (acc1\<lparr>ba_failures := ba_failures acc @ [target_json t @ [(''error'', JStr m)]],
                       ba_errors := ba_errors acc @ [m]\<rparr>))
        | Inl e \<Rightarrow> (w1, [], Inl e)
        | Inr extra \<Rightarrow>
            (let (w2, ev2, filed) = file_record ops dry_run f t (jget extra ''confidence'') w1 in
             case only_warn filed of
               Inl e \<Rightarrow> (w2, Wrote t # ev2, Inl e)
             | Inr _ \<Rightarrow>
                 (let acc2 = acc1\<lparr>ba_flashed := ba_flashed acc @
                          [dict_merge (target_json t) (dict_del extra ''confidence'')]\<rparr>;
                      (w3, settled) = op_settled ops f t w2 in
                  case only_warn settled of
                    Inl e \<Rightarrow> (w3, Wrote t # ev2 @ [SettledDevice t], Inl e)
                  | Inr _ \<Rightarrow> (w3, Wrote t # ev2 @ [SettledDevice t], Inr acc2)))))"

subsection \<open>Groups and the batch\<close>

fun write_targets ::
  "('w, 's) bench_ops \<Rightarrow> bool \<Rightarrow> flasher \<Rightarrow> 's \<Rightarrow> flash_target list \<Rightarrow> 'w \<Rightarrow> batch_acc \<Rightarrow>
   'w \<times> batch_event list \<times> (raised + batch_acc)" where
  "write_targets ops dry_run f session [] w acc = (w, [], Inr acc)"
| "write_targets ops dry_run f session (t # ts) w acc =
     (let (w1, ev1, r1) = write_one ops dry_run f session t w acc in
      case r1 of
        Inl e \<Rightarrow> (w1, ev1, Inl e)
      | Inr acc1 \<Rightarrow>
          (let (w2, ev2, r2) = write_targets ops dry_run f session ts w1 acc1 in (w2, ev1 @ ev2, r2)))"

text \<open>One flasher after another. \<open>prepared\<close> is a context manager, but none of the four flashers does anything after
  its \<open>yield\<close>, so leaving it is no step.\<close>

fun write_flashers ::
  "('w, 's) bench_ops \<Rightarrow> bool \<Rightarrow> (flasher \<times> flash_target list) list \<Rightarrow> 'w \<Rightarrow> batch_acc \<Rightarrow>
   'w \<times> batch_event list \<times> (raised + batch_acc)" where
  "write_flashers ops dry_run [] w acc = (w, [], Inr acc)"
| "write_flashers ops dry_run ((f, mine) # rest) w acc =
     (let (w1, p) = op_prepared ops f mine w in
      case p of
        Inl e \<Rightarrow> (w1, [], Inl e)
      | Inr session \<Rightarrow>
          (let (w2, ev2, r2) = write_targets ops dry_run f session mine w1 acc in
           case r2 of
             Inl e \<Rightarrow> (w2, ev2, Inl e)
           | Inr acc2 \<Rightarrow>
               (let (w3, ev3, r3) = write_flashers ops dry_run rest w2 acc2 in (w3, ev2 @ ev3, r3))))"

definition write_group ::
  "('w, 's) bench_ops \<Rightarrow> bool \<Rightarrow> flash_target list \<Rightarrow> 'w \<Rightarrow> batch_acc \<Rightarrow>
   'w \<times> batch_event list \<times> (raised + batch_acc)" where
  "write_group ops dry_run grp w acc =
     (case by_flasher grp of
        Inl _ \<Rightarrow> (w, [], Inl (OtherErr ''KeyError''))
      | Inr gs \<Rightarrow> write_flashers ops dry_run gs w acc)"

record batch_result =
  br_flashed :: "jdict list"
  br_failures :: "jdict list"

text \<open>\<open>stop_block units body w\<close> runs \<open>body\<close> with the units down (\<open>services_stopped\<close>): \<open>Inl\<close> when a
  unit would not stop.\<close>

definition write_all ::
  "('w, 's) bench_ops \<Rightarrow> bool \<Rightarrow>
   (string list \<Rightarrow> ('w \<Rightarrow> 'w \<times> batch_event list \<times> (raised + batch_acc)) \<Rightarrow> 'w \<Rightarrow>
      'w \<times> (raised + batch_event list \<times> (raised + batch_acc))) \<Rightarrow>
   ('w \<Rightarrow> 'w \<times> (raised + unit)) option \<Rightarrow> jdict list \<Rightarrow> flash_target list \<Rightarrow> 'w \<Rightarrow>
   'w \<times> batch_event list \<times> (raised + batch_result)" where
  "write_all ops dry_run stop_block on_ready refused targets w =
     (case group_by_stop targets of
        Inl _ \<Rightarrow> (w, [], Inl (OtherErr ''KeyError''))
      | Inr (stopped, free) \<Rightarrow>
          (let acc0 = \<lparr>ba_flashed = [], ba_failures = refused, ba_errors = [], ba_done = 0\<rparr>;
               (w1, ev1, r1) = write_group ops dry_run free w acc0 in
           case r1 of
             Inl e \<Rightarrow> (w1, ev1, Inl e)
           | Inr acc1 \<Rightarrow>
               (let (w2, ev2, r2) =
                  (if stopped = [] then (w1, [], Inr acc1)
                   else (let (w2, sb) = stop_block (stop_services_union stopped)
                               (\<lambda>v. write_group ops dry_run stopped v acc1) w1 in
                         case sb of Inl e \<Rightarrow> (w2, [], Inl e) | Inr (ev, r) \<Rightarrow> (w2, ev, r))) in
                case r2 of
                  Inl e \<Rightarrow> (w2, ev1 @ ev2, Inl e)
                | Inr acc2 \<Rightarrow>
                    (let result = \<lparr>br_flashed = ba_flashed acc2, br_failures = ba_failures acc2\<rparr> in
                     case (if targets = [] then None else on_ready) of
                       None \<Rightarrow> (w2, ev1 @ ev2, Inr result)
                     | Some ready \<Rightarrow>
                         (let (w3, rr) = ready w2 in
                          case rr of Inl e \<Rightarrow> (w3, ev1 @ ev2, Inl e)
                                   | Inr _ \<Rightarrow> (w3, ev1 @ ev2, Inr result))))))"

subsection \<open>The services block as an interface\<close>

text \<open>What the batch relies on: when the block ran, its result is the body's own, from some world.\<close>

locale service_block =
  fixes stop_block :: "string list \<Rightarrow> ('w \<Rightarrow> 'w \<times> 'e \<times> 'r) \<Rightarrow> 'w \<Rightarrow> 'w \<times> (raised + 'e \<times> 'r)"
  assumes runs_body: "stop_block units body w = (w', Inr (ev, r)) \<Longrightarrow> \<exists>v v'. body v = (v', ev, r)"
begin

lemma carries:
  assumes "stop_block units body w = (w', Inr (ev, r))" and "\<And>v v' ev r. body v = (v', ev, r) \<Longrightarrow> P ev r"
  shows "P ev r"
  using runs_body[OF assms(1)] assms(2) by blast

end

text \<open>\<open>services_stopped\<close> over the batch's units, as \<open>write_all\<close> uses it. A run without a result
  (\<open>None\<close>) is a verification that never ends, which a moving clock excludes.\<close>

definition bench_stop_block ::
  "'o host \<Rightarrow> (string \<Rightarrow> controller) \<Rightarrow> string list \<Rightarrow>
   ('o svc_world \<Rightarrow> 'o svc_world \<times> 'e \<times> 'r) \<Rightarrow> 'o svc_world \<Rightarrow> 'o svc_world \<times> (raised + 'e \<times> 'r)" where
  "bench_stop_block h ctl units body w =
     (case services_stopped h (map ctl units) ''flash'' True STOP_VERIFY_TIMEOUT
             (\<lambda>v. let (v', ev, r) = body v in (v', [], (ev, r))) w of
        None \<Rightarrow> (w, Inl (OtherErr ''no answer''))
      | Some (w', es, Inl (ServiceControlError u)) \<Rightarrow> (w', Inl (UpdaterErr u))
      | Some (w', es, Inr x) \<Rightarrow> (w', Inr x))"

interpretation bench: service_block "bench_stop_block h ctl" for h :: "'o host" and ctl
proof
  fix units w w' ev r and body :: "'o svc_world \<Rightarrow> 'o svc_world \<times> 'e \<times> 'r"
  let ?body = "\<lambda>v. let (v', ev, r) = body v in (v', [] :: svc_effect list, (ev, r))"
  assume "bench_stop_block h ctl units body w = (w', Inr (ev, r))"
  then obtain es where
    s: "services_stopped h (map ctl units) ''flash'' True STOP_VERIFY_TIMEOUT ?body w = Some (w', es, Inr (ev, r))"
    by (auto simp: bench_stop_block_def split: option.splits sum.splits svc_error.splits)
  from services_stopped_shape[OF s] obtain eb w2 w3 where "?body w2 = (w3, eb, ev, r)" by auto
  then have "\<exists>v'. body w2 = (v', ev, r)" by (auto split: prod.splits)
  then show "\<exists>v v'. body v = (v', ev, r)" by blast
qed

subsection \<open>Grouping lemmas\<close>

definition stops :: "flash_target \<Rightarrow> bool" where
  "stops t = (needs_services_stopped t = Inr True)"

lemma group_by_stop_Inr:
  "group_by_stop ts = Inr (s, f) \<Longrightarrow>
   s = filter stops ts \<and> f = filter (\<lambda>t. \<not> stops t) ts \<and> (\<forall>t \<in> set ts. is_ok (needs_services_stopped t))"
  by (induction ts arbitrary: s f) (auto simp: stops_def split: if_splits)

lemma by_name_all_Inr: "by_name_all ns = Inr fs \<Longrightarrow> map fl_name fs = ns \<and> (\<forall>f \<in> set fs. f \<in> set FLASHERS)"
  by (induction ns arbitrary: fs) (auto simp: by_name_Inr dest: by_name_get_Some)

lemma mset_by_key:
  "distinct ns \<Longrightarrow> \<forall>x \<in> set xs. k x \<in> set ns \<Longrightarrow>
   mset (concat (map (\<lambda>n. filter (\<lambda>x. k x = n) xs) ns)) = mset xs"
proof (induction ns arbitrary: xs)
  case (Cons n ns)
  let ?ys = "filter (\<lambda>x. k x \<noteq> n) xs"
  have e1: "map (\<lambda>m. filter (\<lambda>x. k x = m) xs) ns = map (\<lambda>m. filter (\<lambda>x. k x = m) ?ys) ns"
    using Cons.prems(1) by (auto intro!: filter_cong)
  have e2: "mset (concat (map (\<lambda>m. filter (\<lambda>x. k x = m) ?ys) ns)) = mset ?ys"
    using Cons.prems by (intro Cons.IH) auto
  have e3: "mset (filter (\<lambda>x. k x = n) xs) + mset ?ys = mset xs"
    by (induction xs) auto
  have "mset (concat (map (\<lambda>n. filter (\<lambda>x. k x = n) xs) (n # ns))) =
      mset (filter (\<lambda>x. k x = n) xs) + mset (concat (map (\<lambda>m. filter (\<lambda>x. k x = m) xs) ns))"
    by simp
  also have "\<dots> = mset xs" unfolding e1 e2 e3 ..
  finally show ?case .
qed simp

lemma by_flasher_Inr:
  assumes "by_flasher ts = Inr gs"
  shows "map (fl_name \<circ> fst) gs = flasher_order ts \<and>
    (\<forall>(f, mine) \<in> set gs. f \<in> set FLASHERS \<and> mine = filter (\<lambda>t. tg_flasher t = fl_name f) ts) \<and>
    mset (concat (map snd gs)) = mset ts"
proof -
  from assms obtain fs where fs: "by_name_all (flasher_order ts) = Inr fs"
    "gs = map (\<lambda>f. (f, filter (\<lambda>t. tg_flasher t = fl_name f) ts)) fs" by (auto simp: by_flasher_def)
  from by_name_all_Inr[OF fs(1)] have n: "map fl_name fs = flasher_order ts" "\<forall>f \<in> set fs. f \<in> set FLASHERS" by auto
  have "concat (map snd gs) = concat (map (\<lambda>n. filter (\<lambda>t. tg_flasher t = n) ts) (flasher_order ts))"
    by (simp add: fs(2) n(1)[symmetric] comp_def)
  moreover have "mset (concat (map (\<lambda>n. filter (\<lambda>t. tg_flasher t = n) ts) (flasher_order ts))) = mset ts"
    by (rule mset_by_key) (auto simp: flasher_order_def)
  ultimately show ?thesis using n fs(2) by (auto simp: comp_def)
qed

text \<open>A batch is regrouped without losing, repeating or reordering anybody. The two groups are the
  devices whose write needs the services down and the others, each in batch order; grouping by
  flasher puts every target in exactly one group, its own flasher's, in batch order, the groups in
  the order their flashers first appear; and the units to stop are every unit some target names,
  once each.\<close>

theorem batch_grouping:
  "(\<forall>s f. group_by_stop ts = Inr (s, f) \<longrightarrow> s = filter stops ts \<and> f = filter (\<lambda>t. \<not> stops t) ts) \<and>
   (\<forall>gs. by_flasher ts = Inr gs \<longrightarrow>
      mset (concat (map snd gs)) = mset ts \<and> map (fl_name \<circ> fst) gs = dedup (map tg_flasher ts) \<and>
      (\<forall>(f, mine) \<in> set gs. mine = filter (\<lambda>t. tg_flasher t = fl_name f) ts)) \<and>
   distinct (stop_services_union ts) \<and>
   set (stop_services_union ts) = (\<Union>t \<in> set ts. set (tg_stop_services t))"
proof (intro conjI allI impI)
  fix s f assume "group_by_stop ts = Inr (s, f)"
  then show "s = filter stops ts" "f = filter (\<lambda>t. \<not> stops t) ts" by (auto dest: group_by_stop_Inr)
next
  fix gs assume "by_flasher ts = Inr gs"
  from by_flasher_Inr[OF this]
  show "mset (concat (map snd gs)) = mset ts" "map (fl_name \<circ> fst) gs = dedup (map tg_flasher ts)"
    "\<forall>(f, mine) \<in> set gs. mine = filter (\<lambda>t. tg_flasher t = fl_name f) ts"
    by (auto simp: flasher_order_def)
qed (auto simp: stop_services_union_def)

subsection \<open>What a batch did\<close>

text \<open>The devices a trace attempted, wrote and failed, in order.\<close>

fun attempted :: "batch_event list \<Rightarrow> flash_target list" where
  "attempted [] = []"
| "attempted (Wrote t # es) = t # attempted es"
| "attempted (WriteFailed t m # es) = t # attempted es"
| "attempted (_ # es) = attempted es"

fun written :: "batch_event list \<Rightarrow> flash_target list" where
  "written [] = []"
| "written (Wrote t # es) = t # written es"
| "written (_ # es) = written es"

fun failed :: "batch_event list \<Rightarrow> (flash_target \<times> string) list" where
  "failed [] = []"
| "failed (WriteFailed t m # es) = (t, m) # failed es"
| "failed (_ # es) = failed es"

lemma trace_append [simp]:
  "attempted (a @ b) = attempted a @ attempted b"
  "written (a @ b) = written a @ written b"
  "failed (a @ b) = failed a @ failed b"
  by (induction a rule: attempted.induct) auto

lemma attempted_length: "length (written es) + length (failed es) = length (attempted es)"
  by (induction es rule: attempted.induct) auto

definition failure_json :: "flash_target \<times> string \<Rightarrow> jdict" where
  "failure_json p = target_json (fst p) @ [(''error'', JStr (snd p))]"

text \<open>The accounting of a trace: what it adds to an accumulator.\<close>

definition accounts :: "batch_acc \<Rightarrow> batch_event list \<Rightarrow> batch_acc \<Rightarrow> bool" where
  "accounts acc es acc' \<longleftrightarrow>
     length (ba_flashed acc') = length (ba_flashed acc) + length (written es) \<and>
     ba_failures acc' = ba_failures acc @ map failure_json (failed es) \<and>
     ba_errors acc' = ba_errors acc @ map snd (failed es) \<and>
     ba_done acc' = ba_done acc + length (attempted es)"

lemma accounts_trans: "accounts a es b \<Longrightarrow> accounts b fs c \<Longrightarrow> accounts a (es @ fs) c"
  by (auto simp: accounts_def)

lemma accounts_refl [simp]: "accounts a [] a"
  by (simp add: accounts_def)

fun ledger_event :: "flash_target \<Rightarrow> batch_event \<Rightarrow> bool" where
  "ledger_event t (Filed t' r) = (t' = t)"
| "ledger_event t (FileFailed t' m) = (t' = t)"
| "ledger_event t (NothingToFile t') = (t' = t)"
| "ledger_event t _ = False"

text \<open>A trace in which each write is followed at once by its ledger step, and only then by settling;
  with \<open>fin\<close> they stop after no unfinished device.\<close>

fun orderly :: "bool \<Rightarrow> batch_event list \<Rightarrow> bool" where
  "orderly fin [] = True"
| "orderly fin (WriteFailed t m # es) = orderly fin es"
| "orderly fin [Wrote t, l] = (ledger_event t l \<and> \<not> fin)"
| "orderly fin (Wrote t # l # SettledDevice t' # es) = (ledger_event t l \<and> t' = t \<and> orderly fin es)"
| "orderly fin _ = False"

lemma orderly_append: "orderly True a \<Longrightarrow> orderly c b \<Longrightarrow> orderly c (a @ b)"
  by (induction "True" a rule: orderly.induct) auto

lemma orderly_weaken: "orderly True a \<Longrightarrow> orderly c a"
  by (induction "True" a rule: orderly.induct) auto

lemma file_record_event:
  "file_record ops dry_run f t c w = (w', ev, r) \<Longrightarrow>
   \<exists>l. ev = [l] \<and> ledger_event t l \<and> (dry_run \<longrightarrow> l = NothingToFile t)"
  by (auto simp: file_record_def split: if_splits sum.splits option.splits prod.splits)

lemma ledger_event_neutral: "ledger_event t l \<Longrightarrow> attempted [l] = [] \<and> written [l] = [] \<and> failed [l] = []"
  by (cases l) auto

lemma write_one_trace:
  assumes "write_one ops dry_run f session t w acc = (w', ev, r)"
  shows "(case r of Inr acc' \<Rightarrow> attempted ev = [t] \<and> accounts acc ev acc' \<and> orderly True ev
    | Inl _ \<Rightarrow> orderly False ev) \<and> (dry_run \<longrightarrow> (\<forall>x rec. Filed x rec \<notin> set ev))"
proof (cases "op_cancelled ops w")
  case True
  with assms show ?thesis by (auto simp: write_one_def)
next
  case False
  obtain w1 res where w: "op_write ops f session t w = (w1, res)" by (metis surj_pair)
  show ?thesis
  proof (cases res)
    case (Inl e)
    with assms False w show ?thesis
      by (cases e) (auto simp: write_one_def Let_def accounts_def failure_json_def)
  next
    case (Inr extra)
    obtain w2 ev2 filed where fr: "file_record ops dry_run f t (jget extra ''confidence'') w1 = (w2, ev2, filed)"
      by (metis surj_pair)
    from file_record_event[OF fr] obtain l where l: "ev2 = [l]" "ledger_event t l" "dry_run \<longrightarrow> l = NothingToFile t"
      by auto
    note neutral = ledger_event_neutral[OF l(2)]
    have notW: "l \<noteq> Wrote t'" "l \<noteq> SettledDevice t'" for t' using l(2) by auto
    obtain w3 settled where st: "op_settled ops f t w2 = (w3, settled)" by (metis surj_pair)
    from assms False w Inr fr st l(1) have
      "ev = [Wrote t, l] \<and> (\<exists>e. r = Inl e) \<or>
       ev = [Wrote t, l, SettledDevice t] \<and> ((\<exists>e. r = Inl e) \<or>
         r = Inr (acc\<lparr>ba_done := ba_done acc + 1, ba_flashed := ba_flashed acc @
           [dict_merge (target_json t) (dict_del extra ''confidence'')]\<rparr>))"
      by (auto simp: write_one_def Let_def split: sum.splits)
    moreover have "attempted (Wrote t # l # es) = t # attempted es" "written (Wrote t # l # es) = t # written es"
      "failed (Wrote t # l # es) = failed es" for es
      using neutral trace_append[of "[l]" es] by auto
    ultimately show ?thesis using l(2,3)
      by (auto simp: accounts_def)
  qed
qed

definition no_filing :: "bool \<Rightarrow> batch_event list \<Rightarrow> bool" where
  "no_filing dry_run ev = (dry_run \<longrightarrow> (\<forall>x rec. Filed x rec \<notin> set ev))"

definition traced :: "bool \<Rightarrow> flash_target list \<Rightarrow> batch_acc \<Rightarrow> batch_event list \<Rightarrow> raised + batch_acc \<Rightarrow> bool" where
  "traced dry_run ts acc ev r =
     ((case r of Inr acc' \<Rightarrow> attempted ev = ts \<and> accounts acc ev acc' \<and> orderly True ev
       | Inl _ \<Rightarrow> orderly False ev) \<and> no_filing dry_run ev)"

lemma traced_raise: "traced dry_run ts acc ev (Inl e) \<longleftrightarrow> orderly False ev \<and> no_filing dry_run ev"
  by (simp add: traced_def)

lemma traced_ok: "traced dry_run ts acc ev (Inr acc') \<longleftrightarrow>
    attempted ev = ts \<and> accounts acc ev acc' \<and> orderly True ev \<and> no_filing dry_run ev"
  by (auto simp: traced_def)

lemma traced_nil [simp]: "traced dry_run [] acc [] (Inr acc)" "traced dry_run ts acc [] (Inl e)"
  by (simp_all add: traced_def no_filing_def)

lemma traced_append:
  assumes "traced dry_run ts acc ev (Inr acc')" and "traced dry_run us acc' fv r"
  shows "traced dry_run (ts @ us) acc (ev @ fv) r"
  using assms accounts_trans orderly_append
  by (cases r) (fastforce simp: traced_def no_filing_def)+

lemma write_one_traced:
  "write_one ops dry_run f session t w acc = (w', ev, r) \<Longrightarrow> traced dry_run [t] acc ev r"
  using write_one_trace[of ops dry_run f session t w acc w' ev r]
  by (auto simp: traced_def no_filing_def split: sum.splits)

lemma write_targets_traced:
  "write_targets ops dry_run f session ts w acc = (w', ev, r) \<Longrightarrow> traced dry_run ts acc ev r"
proof (induction ts arbitrary: w acc w' ev r)
  case (Cons t ts)
  obtain w1 ev1 r1 where o: "write_one ops dry_run f session t w acc = (w1, ev1, r1)" by (metis surj_pair)
  note tr = write_one_traced[OF o]
  show ?case
  proof (cases r1)
    case (Inl e)
    with Cons.prems o tr show ?thesis by (auto simp: traced_raise)
  next
    case (Inr acc1)
    obtain w2 ev2 r2 where s: "write_targets ops dry_run f session ts w1 acc1 = (w2, ev2, r2)" by (metis surj_pair)
    from traced_append[OF tr[unfolded Inr] Cons.IH[OF s]] Cons.prems o Inr s show ?thesis by simp
  qed
qed simp

lemma write_flashers_traced:
  "write_flashers ops dry_run gs w acc = (w', ev, r) \<Longrightarrow> traced dry_run (concat (map snd gs)) acc ev r"
proof (induction gs arbitrary: w acc w' ev r)
  case (Cons g gs)
  obtain f mine where g: "g = (f, mine)" by (cases g)
  obtain w1 p where p: "op_prepared ops f mine w = (w1, p)" by (metis surj_pair)
  show ?case
  proof (cases p)
    case (Inl e)
    with Cons.prems g p show ?thesis by auto
  next
    case (Inr session)
    obtain w2 ev2 r2 where s: "write_targets ops dry_run f session mine w1 acc = (w2, ev2, r2)" by (metis surj_pair)
    note tr = write_targets_traced[OF s]
    show ?thesis
    proof (cases r2)
      case (Inl e)
      with Cons.prems g p Inr s tr show ?thesis by (auto simp: traced_raise)
    next
      case (Inr acc2)
      obtain w3 ev3 r3 where q: "write_flashers ops dry_run gs w2 acc2 = (w3, ev3, r3)" by (metis surj_pair)
      from traced_append[OF tr[unfolded Inr] Cons.IH[OF q]] Cons.prems g p \<open>p = Inr session\<close> s Inr q
      show ?thesis by simp
    qed
  qed
qed simp

lemma write_group_traced:
  assumes "write_group ops dry_run grp w acc = (w', ev, r)"
  shows "\<exists>ts. mset ts = mset grp \<and> traced dry_run ts acc ev r"
proof (cases "by_flasher grp")
  case (Inl e)
  with assms show ?thesis by (auto simp: write_group_def)
next
  case (Inr gs)
  with assms have "write_flashers ops dry_run gs w acc = (w', ev, r)" by (simp add: write_group_def)
  from write_flashers_traced[OF this] by_flasher_Inr[OF Inr] show ?thesis by blast
qed

lemma write_all_traced:
  assumes "service_block stop_block"
    and "write_all ops dry_run stop_block on_ready refused targets w = (w', ev, r)"
  shows "no_filing dry_run ev \<and>
    (case r of
       Inl e \<Rightarrow> orderly False ev
     | Inr res \<Rightarrow> orderly True ev \<and> mset (attempted ev) = mset targets \<and>
         br_failures res = refused @ map failure_json (failed ev) \<and>
         length (br_flashed res) = length (written ev) \<and>
         (\<exists>free stopped. attempted ev = free @ stopped \<and> mset free = mset (filter (\<lambda>t. \<not> stops t) targets) \<and>
            mset stopped = mset (filter stops targets)))"
proof (cases "group_by_stop targets")
  case (Inl e)
  with assms(2) show ?thesis by (auto simp: write_all_def no_filing_def)
next
  case (Inr sf)
  obtain stopped free where sf: "sf = (stopped, free)" by (cases sf)
  from group_by_stop_Inr[OF Inr[unfolded sf]]
  have grp: "stopped = filter stops targets" "free = filter (\<lambda>t. \<not> stops t) targets" by auto
  let ?acc0 = "\<lparr>ba_flashed = [], ba_failures = refused, ba_errors = [], ba_done = 0\<rparr>"
  obtain w1 ev1 r1 where g1: "write_group ops dry_run free w ?acc0 = (w1, ev1, r1)" by (metis surj_pair)
  from write_group_traced[OF g1] obtain ts1 where t1: "mset ts1 = mset free" "traced dry_run ts1 ?acc0 ev1 r1" by blast
  note run = assms(2)[unfolded write_all_def Inr sum.case sf prod.case Let_def g1]
  show ?thesis
  proof (cases r1)
    case (Inl e)
    with run t1 show ?thesis by (auto simp: traced_raise)
  next
    case (Inr acc1)
    define mid where "mid = (if stopped = [] then (w1, [], Inr acc1)
                   else (case stop_block (stop_services_union stopped)
                               (\<lambda>v. write_group ops dry_run stopped v acc1) w1 of (w2, sb) \<Rightarrow>
                         case sb of Inl e \<Rightarrow> (w2, [], Inl e) | Inr (ev, r) \<Rightarrow> (w2, ev, r)))"
    obtain w2 ev2 r2 where mid: "mid = (w2, ev2, r2)" by (metis surj_pair)
    have "\<exists>ts2. mset ts2 = mset stopped \<and> traced dry_run ts2 acc1 ev2 r2"
    proof (cases "stopped = []")
      case True
      with mid show ?thesis by (auto simp: mid_def)
    next
      case False
      obtain w3 sb where sb: "stop_block (stop_services_union stopped)
          (\<lambda>v. write_group ops dry_run stopped v acc1) w1 = (w3, sb)" by (metis surj_pair)
      show ?thesis
      proof (cases sb)
        case (Inl e)
        with mid sb False show ?thesis by (auto simp: mid_def intro: exI[of _ stopped])
      next
        case (Inr er)
        obtain ev' r' where er: "er = (ev', r')" by (cases er)
        have "\<exists>ts2. mset ts2 = mset stopped \<and> traced dry_run ts2 acc1 ev' r'"
          by (rule service_block.carries[OF assms(1) sb[unfolded Inr er]]) (rule write_group_traced)
        with mid sb False Inr er show ?thesis by (simp add: mid_def)
      qed
    qed
    then obtain ts2 where t2: "mset ts2 = mset stopped" "traced dry_run ts2 acc1 ev2 r2" by blast
    from traced_append[OF t1(2)[unfolded Inr] t2(2)]
    have tr: "traced dry_run (ts1 @ ts2) ?acc0 (ev1 @ ev2) r2" .
    note run2 = run[unfolded Inr sum.case mid_def[symmetric] mid prod.case]
    show ?thesis
    proof (cases r2)
      case (Inl e)
      with run2 tr show ?thesis by (auto simp: traced_raise)
    next
      case (Inr acc2)
      from run2 Inr have ev: "ev = ev1 @ ev2" and r: "(\<exists>e. r = Inl e) \<or>
          r = Inr \<lparr>br_flashed = ba_flashed acc2, br_failures = ba_failures acc2\<rparr>"
        by (auto split: option.splits prod.splits sum.splits if_splits)
      from tr Inr have ok: "attempted ev = ts1 @ ts2" "accounts ?acc0 ev acc2" "orderly True ev" "no_filing dry_run ev"
        by (simp_all add: traced_ok ev)
      have ms: "mset (attempted ev) = mset targets"
        unfolding ok(1) mset_append t1(1) t2(1) grp by (induction targets) auto
      have parts: "\<exists>free stopped. attempted ev = free @ stopped \<and> mset free = mset (filter (\<lambda>t. \<not> stops t) targets) \<and>
            mset stopped = mset (filter stops targets)"
        using ok(1) t1(1) t2(1) grp by blast
      from r show ?thesis
      proof
        assume "\<exists>e. r = Inl e"
        with ok(3,4) show ?thesis by (auto simp: orderly_weaken)
      next
        assume r: "r = Inr \<lparr>br_flashed = ba_flashed acc2, br_failures = ba_failures acc2\<rparr>"
        show ?thesis unfolding r sum.case using ok(2,3,4) ms parts by (simp add: accounts_def)
      qed
    qed
  qed
qed


text \<open>The ledger is written before anything else can fail. However a batch ends - it returned, it
  was cancelled, a preparation or the services block raised - its trace has each successful write
  followed at once by that device's ledger step (an entry filed, nothing to file, or a filing
  that failed), and the wait for the device, the next device and the restart come only after it;
  and a dry run files nothing.\<close>

theorem write_all_ledger_order:
  assumes "write_all ops dry_run (bench_stop_block h ctl) on_ready refused targets w = (w', ev, r)"
  shows "orderly False ev \<and> (is_ok r \<longrightarrow> orderly True ev) \<and>
    (dry_run \<longrightarrow> (\<forall>t rec. Filed t rec \<notin> set ev))"
  using write_all_traced[OF bench.service_block_axioms assms]
  by (cases r) (auto simp: no_filing_def orderly_weaken)

subsection \<open>A concrete batch\<close>

definition demo_target :: "string \<Rightarrow> flash_target" where
  "demo_target i = \<lparr>tg_flasher = ''dfu_util'', tg_type = JStr ''stm32'', tg_id = JStr i, tg_stop_services = [],
     tg_detail = [], tg_needs_stop = None, tg_artifact = None\<rparr>"

text \<open>The device "bad" fails its write; every other one is written and filed.\<close>

definition demo_ops :: "((string list \<times> rat) svc_world, unit) bench_ops" where
  "demo_ops = \<lparr>op_cancelled = (\<lambda>w. False), op_prepared = (\<lambda>f ts w. (w, Inr ())),
     op_write = (\<lambda>f s t w. (w, if tg_id t = JStr ''bad'' then Inl (UpdaterErr ''no device'') else Inr [])),
     op_record = (\<lambda>f t w. Inr (Some \<lparr>rec_key = ''k'', rec_mcu_type = ''stm32'', rec_fw = ''klipper'',
        rec_bin_sha256 = None, rec_fw_sha = JNull, rec_version = JNull\<rparr>)),
     op_file = (\<lambda>r c w. (w, Inr ())), op_settled = (\<lambda>f t w. (w, Inr ()))\<rparr>"

lemma demo_by_flasher: "by_flasher [demo_target ''bad'', demo_target ''b2''] =
    Inr [(DfuUtil, [demo_target ''bad'', demo_target ''b2''])]"
  by (simp add: by_flasher_def flasher_order_def dedup_def demo_target_def by_name_def by_name_get_def FLASHERS_def)

lemma demo_stops: "needs_services_stopped (demo_target i) = Inr False"
  by (simp add: needs_services_stopped_def demo_target_def by_name_def by_name_get_def FLASHERS_def)

lemma demo_batch:
  "\<exists>ev res. write_all demo_ops False (bench_stop_block demo_host (Controller SystemdService)) None
     [[(''error'', JStr ''refused'')]] [demo_target ''bad'', demo_target ''b2''] demo_world = (demo_world, ev, Inr res) \<and>
   failed ev = [(demo_target ''bad'', ''no device'')] \<and> length ev = 4"
  by (simp add: write_all_def demo_stops write_group_def demo_by_flasher demo_ops_def write_one_def file_record_def
      only_warn_def Let_def) (simp add: demo_target_def)


theorem write_all_ledger_order_witness:
  "\<exists>ev res. write_all demo_ops False (bench_stop_block demo_host (Controller SystemdService)) None
     [[(''error'', JStr ''refused'')]] [demo_target ''bad'', demo_target ''b2''] demo_world = (demo_world, ev, Inr res) \<and>
   orderly True ev \<and> length ev = 4"
proof -
  from demo_batch obtain ev res where b: "write_all demo_ops False (bench_stop_block demo_host (Controller SystemdService)) None
     [[(''error'', JStr ''refused'')]] [demo_target ''bad'', demo_target ''b2''] demo_world = (demo_world, ev, Inr res)"
    "length ev = 4" by blast
  from write_all_ledger_order[OF b(1)] b show ?thesis by auto
qed

theorem batch_grouping_witness:
  "by_flasher [demo_target ''bad'', demo_target ''b2''] = Inr [(DfuUtil, [demo_target ''bad'', demo_target ''b2''])] \<and>
   mset (concat (map snd [(DfuUtil, [demo_target ''bad'', demo_target ''b2''])])) =
     mset [demo_target ''bad'', demo_target ''b2'']"
  using batch_grouping[of "[demo_target ''bad'', demo_target ''b2'']"] demo_by_flasher by blast

end
