(* ===== verification/LockFile.thy ===== *)
theory LockFile
  imports PyStr
begin

section \<open>Cross-process exclusion (lock.py)\<close>

text \<open>
  The lock is a file: a \<open>flock\<close> the kernel drops when its holder dies, and a text that says who
  holds it, which the kernel does not. Two views of it:

  \<^item> \<open>acquire\<close>, \<open>release\<close>, \<open>holder\<close> and \<open>killed\<close> as functions on the file, for callers that see
    each of them as one step;
  \<^item> \<open>lstep\<close>, where the system calls of every party interleave: taking the flock and writing the
    record are two steps of \<open>acquire\<close>, \<open>holder\<close> reads the record, then probes the flock, clears
    the leftover and unlocks, and a kill may come between any two of them.

  A party is a number: one \<open>ExclusiveLock\<close> object, in whatever process.
\<close>

type_synonym lock_record = "(string \<times> json) list"

definition lock_payload :: "int \<Rightarrow> string \<Rightarrow> json \<Rightarrow> lock_record" where
  "lock_payload pid label since = [(''pid'', JInt pid), (''label'', JStr label), (''since'', since)]"

text \<open>\<open>_record\<close>: the file's JSON object, if it has one with a \<open>pid\<close>.\<close>

definition lock_record_of :: "json option \<Rightarrow> lock_record option" where
  "lock_record_of text =
     (case text of Some (JObj d) \<Rightarrow> if truthy (jget d ''pid'') then Some d else None | _ \<Rightarrow> None)"

subsection \<open>The operations as single steps\<close>

record lock_file =
  lf_owner :: "nat option"
  lf_text :: "json option"

datatype lock_error = Busy "lock_record option"

definition acquire :: "nat \<Rightarrow> int \<Rightarrow> string \<Rightarrow> json \<Rightarrow> lock_file \<Rightarrow> lock_error + lock_file" where
  "acquire me pid label now f =
     (if lf_owner f \<noteq> None then Inl (Busy (lock_record_of (lf_text f)))
      else Inr \<lparr>lf_owner = Some me, lf_text = Some (JObj (lock_payload pid label now))\<rparr>)"

definition release :: "nat \<Rightarrow> lock_file \<Rightarrow> lock_file" where
  "release me f = (if lf_owner f = Some me then \<lparr>lf_owner = None, lf_text = None\<rparr> else f)"

definition killed :: "nat \<Rightarrow> lock_file \<Rightarrow> lock_file" where
  "killed me f = (if lf_owner f = Some me then f\<lparr>lf_owner := None\<rparr> else f)"

definition holder :: "lock_file \<Rightarrow> lock_file \<times> lock_record option" where
  "holder f =
     (case lock_record_of (lf_text f) of
        None \<Rightarrow> (f, None)
      | Some d \<Rightarrow> if lf_owner f = None then (f\<lparr>lf_text := None\<rparr>, None) else (f, Some d))"

subsection \<open>The contract of an exclusive lock\<close>

locale exclusive_lock =
  fixes acq :: "'p \<Rightarrow> 'l \<Rightarrow> 'l option" and rel :: "'p \<Rightarrow> 'l \<Rightarrow> 'l" and die :: "'p \<Rightarrow> 'l \<Rightarrow> 'l"
    and owner :: "'l \<Rightarrow> 'p option"
  assumes acq_free: "owner l = None \<Longrightarrow> \<exists>l'. acq p l = Some l' \<and> owner l' = Some p"
    and acq_busy: "owner l = Some q \<Longrightarrow> acq p l = None"
    and rel_own: "owner l = Some p \<Longrightarrow> owner (rel p l) = None"
    and rel_other: "owner l \<noteq> Some p \<Longrightarrow> owner (rel p l) = owner l"
    and die_own: "owner l = Some p \<Longrightarrow> owner (die p l) = None"
    and die_other: "owner l \<noteq> Some p \<Longrightarrow> owner (die p l) = owner l"
begin

lemma acq_owner: "acq p l = Some l' \<Longrightarrow> owner l = None \<and> owner l' = Some p"
  by (metis acq_busy acq_free not_None_eq option.inject)

lemma acq_iff_free: "acq p l \<noteq> None \<longleftrightarrow> owner l = None"
  by (metis acq_owner acq_free not_None_eq)

lemma reacquire: "owner l = Some p \<Longrightarrow> \<exists>l'. acq q (rel p l) = Some l' \<and> owner l' = Some q"
  by (simp add: acq_free rel_own)

lemma reacquire_after_death: "owner l = Some p \<Longrightarrow> \<exists>l'. acq q (die p l) = Some l' \<and> owner l' = Some q"
  by (simp add: acq_free die_own)

end

definition try_acquire :: "int \<Rightarrow> string \<Rightarrow> json \<Rightarrow> nat \<Rightarrow> lock_file \<Rightarrow> lock_file option" where
  "try_acquire pid label now me f =
     (case acquire me pid label now f of Inl _ \<Rightarrow> None | Inr f' \<Rightarrow> Some f')"

interpretation flock: exclusive_lock "try_acquire pid label now" release killed lf_owner for pid label now
  by unfold_locales (auto simp: try_acquire_def acquire_def release_def killed_def)

subsection \<open>The operations as system calls\<close>

datatype party = Holder nat | Probe nat

datatype lock_phase = Idle | Locked | Holding | Truncated
datatype probe_phase = NoProbe | Seen lock_record | ProbeLocked | ProbeCleared

record lock_sys =
  flocked :: "party option"
  record_text :: "json option"
  lphase :: "nat \<Rightarrow> lock_phase"
  pphase :: "nat \<Rightarrow> probe_phase"
  reports :: "(nat \<times> lock_record option) list" \<comment> \<open>what each \<open>holder()\<close> call answered, newest first\<close>

inductive lstep :: "lock_sys \<Rightarrow> lock_sys \<Rightarrow> bool" where
  take_flock: "lphase s i = Idle \<Longrightarrow> flocked s = None \<Longrightarrow>
    lstep s (s\<lparr>flocked := Some (Holder i), lphase := (lphase s)(i := Locked)\<rparr>)"
| write_record: "lphase s i = Locked \<Longrightarrow>
    lstep s (s\<lparr>record_text := Some (JObj (lock_payload (int i + 1) label now)), lphase := (lphase s)(i := Holding)\<rparr>)"
| release_truncate: "lphase s i = Holding \<Longrightarrow>
    lstep s (s\<lparr>record_text := None, lphase := (lphase s)(i := Truncated)\<rparr>)"
| release_unlock: "lphase s i = Truncated \<Longrightarrow>
    lstep s (s\<lparr>flocked := None, lphase := (lphase s)(i := Idle)\<rparr>)"
| kill: "lphase s i \<noteq> Idle \<Longrightarrow>
    lstep s (s\<lparr>flocked := None, lphase := (lphase s)(i := Idle)\<rparr>)"
| probe_nothing: "pphase s j = NoProbe \<Longrightarrow> lock_record_of (record_text s) = None \<Longrightarrow>
    lstep s (s\<lparr>reports := (j, None) # reports s\<rparr>)"
| probe_read: "pphase s j = NoProbe \<Longrightarrow> lock_record_of (record_text s) = Some d \<Longrightarrow>
    lstep s (s\<lparr>pphase := (pphase s)(j := Seen d)\<rparr>)"
| probe_refused: "pphase s j = Seen d \<Longrightarrow> flocked s \<noteq> None \<Longrightarrow>
    lstep s (s\<lparr>pphase := (pphase s)(j := NoProbe), reports := (j, Some d) # reports s\<rparr>)"
| probe_lock: "pphase s j = Seen d \<Longrightarrow> flocked s = None \<Longrightarrow>
    lstep s (s\<lparr>flocked := Some (Probe j), pphase := (pphase s)(j := ProbeLocked)\<rparr>)"
| probe_clear: "pphase s j = ProbeLocked \<Longrightarrow>
    lstep s (s\<lparr>record_text := None, pphase := (pphase s)(j := ProbeCleared)\<rparr>)"
| probe_unlock: "pphase s j = ProbeCleared \<Longrightarrow>
    lstep s (s\<lparr>flocked := None, pphase := (pphase s)(j := NoProbe), reports := (j, None) # reports s\<rparr>)"
| kill_probe: "pphase s j \<in> {ProbeLocked, ProbeCleared} \<Longrightarrow>
    lstep s (s\<lparr>flocked := None, pphase := (pphase s)(j := NoProbe)\<rparr>)"

definition lock_init :: "lock_sys" where
  "lock_init = \<lparr>flocked = None, record_text = None, lphase = (\<lambda>_. Idle), pphase = (\<lambda>_. NoProbe), reports = []\<rparr>"

inductive lock_reach :: "lock_sys \<Rightarrow> bool" where
  start: "lock_reach lock_init"
| step: "lock_reach s \<Longrightarrow> lstep s s' \<Longrightarrow> lock_reach s'"

text \<open>The invariant: the flock names exactly the party in its critical section, and a party that
  has written its record finds it there.\<close>

definition lock_inv :: "lock_sys \<Rightarrow> bool" where
  "lock_inv s \<longleftrightarrow>
     (\<forall>i. flocked s = Some (Holder i) \<longleftrightarrow> lphase s i \<noteq> Idle) \<and>
     (\<forall>j. flocked s = Some (Probe j) \<longleftrightarrow> pphase s j \<in> {ProbeLocked, ProbeCleared}) \<and>
     (\<forall>i. lphase s i = Holding \<longrightarrow>
        (\<exists>label now. record_text s = Some (JObj (lock_payload (int i + 1) label now))))"

lemma lock_inv_init: "lock_inv lock_init"
  by (simp add: lock_inv_def lock_init_def)

lemma lock_inv_step: "lstep s s' \<Longrightarrow> lock_inv s \<Longrightarrow> lock_inv s'"
proof (induction rule: lstep.induct)
  case (take_flock s i)
  then show ?case by (auto simp: lock_inv_def)
next
  case (write_record s i label now)
  then have f: "flocked s = Some (Holder i)" by (auto simp: lock_inv_def)
  with write_record have "lphase s k = Idle" if "k \<noteq> i" for k
    using that by (auto simp: lock_inv_def)
  with f write_record show ?case by (auto simp: lock_inv_def)
next
  case (release_truncate s i)
  then have f: "flocked s = Some (Holder i)" by (auto simp: lock_inv_def)
  with release_truncate have "lphase s k = Idle" if "k \<noteq> i" for k
    using that by (auto simp: lock_inv_def)
  with f release_truncate show ?case by (auto simp: lock_inv_def)
next
  case (release_unlock s i)
  then have f: "flocked s = Some (Holder i)" by (auto simp: lock_inv_def)
  with release_unlock have "lphase s k = Idle" if "k \<noteq> i" for k
    using that by (auto simp: lock_inv_def)
  with f release_unlock show ?case by (auto simp: lock_inv_def)
next
  case (kill s i)
  then have f: "flocked s = Some (Holder i)" by (auto simp: lock_inv_def)
  with kill have "lphase s k = Idle" if "k \<noteq> i" for k
    using that by (auto simp: lock_inv_def)
  with f kill show ?case by (auto simp: lock_inv_def)
next
  case (probe_clear s j)
  then have f: "flocked s = Some (Probe j)" by (auto simp: lock_inv_def)
  with probe_clear have "lphase s k = Idle" for k by (auto simp: lock_inv_def)
  with f probe_clear show ?case by (auto simp: lock_inv_def)
next
  case (probe_unlock s j)
  then have f: "flocked s = Some (Probe j)" by (auto simp: lock_inv_def)
  with probe_unlock show ?case by (auto simp: lock_inv_def)
next
  case (kill_probe s j)
  then have f: "flocked s = Some (Probe j)" by (auto simp: lock_inv_def)
  with kill_probe.prems have "lphase s k = Idle" for k by (auto simp: lock_inv_def)
  moreover have "pphase s k \<notin> {ProbeLocked, ProbeCleared}" if "k \<noteq> j" for k
    using kill_probe.prems f that unfolding lock_inv_def by auto
  ultimately show ?case by (auto simp: lock_inv_def)
qed (auto simp: lock_inv_def)

lemma lock_inv_reach: "lock_reach s \<Longrightarrow> lock_inv s"
  by (induction rule: lock_reach.induct) (auto simp: lock_inv_init intro: lock_inv_step)


inductive_cases lstepE: "lstep s s'"

lemma lock_payload_record: "lock_record_of (Some (JObj (lock_payload (int i + 1) label now))) =
    Some (lock_payload (int i + 1) label now)"
  by (simp add: lock_record_of_def lock_payload_def)

text \<open>C26: the lock excludes, whatever interleaves. In every reachable state at most one party is
  between taking the flock and dropping it, no \<open>holder()\<close> probe is inside its own critical
  section at the same time, and a party that finished \<open>acquire\<close> finds its own record - its pid,
  label and time - in the file until it releases: no concurrent probe, refused acquire or killed
  neighbour ever truncates it, so a caller that loses the race is told the real incumbent.\<close>

theorem lock_mutual_exclusion:
  assumes "lock_reach s"
  shows "(\<forall>i k. lphase s i \<noteq> Idle \<and> lphase s k \<noteq> Idle \<longrightarrow> i = k) \<and>
    (\<forall>i j. lphase s i \<noteq> Idle \<longrightarrow> pphase s j \<notin> {ProbeLocked, ProbeCleared}) \<and>
    (\<forall>i. lphase s i = Holding \<longrightarrow>
       (\<exists>label now. lock_record_of (record_text s) = Some (lock_payload (int i + 1) label now)))"
proof -
  from lock_inv_reach[OF assms] have inv: "\<forall>i. flocked s = Some (Holder i) \<longleftrightarrow> lphase s i \<noteq> Idle"
    "\<forall>j. flocked s = Some (Probe j) \<longleftrightarrow> pphase s j \<in> {ProbeLocked, ProbeCleared}"
    "\<forall>i. lphase s i = Holding \<longrightarrow> (\<exists>label now. record_text s = Some (JObj (lock_payload (int i + 1) label now)))"
    by (auto simp: lock_inv_def)
  have "i = k" if "lphase s i \<noteq> Idle" "lphase s k \<noteq> Idle" for i k
    using inv(1)[rule_format, of i] inv(1)[rule_format, of k] that by simp
  moreover have "pphase s j \<notin> {ProbeLocked, ProbeCleared}" if "lphase s i \<noteq> Idle" for i j
    using inv(1)[rule_format, of i] inv(2)[rule_format, of j] that by auto
  moreover have "\<exists>label now. lock_record_of (record_text s) = Some (lock_payload (int i + 1) label now)"
    if "lphase s i = Holding" for i
  proof -
    from inv(3)[rule_format, OF that] obtain label now where
      "record_text s = Some (JObj (lock_payload (int i + 1) label now))" by blast
    then have "lock_record_of (record_text s) = Some (lock_payload (int i + 1) label now)"
      by (simp only: lock_payload_record)
    then show ?thesis by blast
  qed
  ultimately show ?thesis by blast
qed

text \<open>A run for the witnesses: party 0 acquires, then is killed, leaving its record behind.\<close>

definition held_sys :: lock_sys where
  "held_sys = lock_init\<lparr>flocked := Some (Holder 0), lphase := (\<lambda>_. Idle)(0 := Holding),
     record_text := Some (JObj (lock_payload 1 ''flash'' (JInt 5)))\<rparr>"

definition orphan_sys :: lock_sys where
  "orphan_sys = held_sys\<lparr>flocked := None, lphase := (\<lambda>_. Idle)\<rparr>"

lemma held_reach: "lock_reach held_sys"
proof -
  let ?s = "lock_init\<lparr>flocked := Some (Holder 0), lphase := (lphase lock_init)(0 := Locked)\<rparr>"
  have "lstep lock_init ?s" by (rule take_flock) (simp_all add: lock_init_def)
  then have r: "lock_reach ?s" by (rule lock_reach.step[OF lock_reach.start])
  have "lstep ?s (?s\<lparr>record_text := Some (JObj (lock_payload (int 0 + 1) ''flash'' (JInt 5))),
      lphase := (lphase ?s)(0 := Holding)\<rparr>)" by (rule write_record) simp
  from lock_reach.step[OF r this] show ?thesis
    by (simp add: held_sys_def lock_init_def)
qed

lemma orphan_reach: "lock_reach orphan_sys"
proof -
  have "lstep held_sys (held_sys\<lparr>flocked := None, lphase := (lphase held_sys)(0 := Idle)\<rparr>)"
    by (rule kill) (simp add: held_sys_def)
  moreover have "(\<lambda>_ :: nat. Idle)(0 := Idle) = (\<lambda>_. Idle)" by (simp add: fun_eq_iff)
  ultimately show ?thesis using lock_reach.step[OF held_reach]
    by (simp add: orphan_sys_def held_sys_def lock_init_def)
qed

theorem lock_mutual_exclusion_witness:
  "lock_reach held_sys \<and> lphase held_sys 0 = Holding \<and> lphase held_sys 1 = Idle \<and>
   (\<exists>label now. lock_record_of (record_text held_sys) = Some (lock_payload 1 label now))"
proof -
  have h: "lphase held_sys 0 = Holding" by (simp add: held_sys_def)
  from lock_mutual_exclusion[OF held_reach]
  have all: "\<forall>i. lphase held_sys i = Holding \<longrightarrow>
      (\<exists>label now. lock_record_of (record_text held_sys) = Some (lock_payload (int i + 1) label now))"
    and one: "\<forall>i k. lphase held_sys i \<noteq> Idle \<and> lphase held_sys k \<noteq> Idle \<longrightarrow> i = k" by blast+
  from all[rule_format, OF h] have "\<exists>label now. lock_record_of (record_text held_sys) = Some (lock_payload 1 label now)" by simp
  moreover from one h have "lphase held_sys 1 = Idle" by (metis lock_phase.distinct(3) zero_neq_one)
  ultimately show ?thesis using h held_reach by blast
qed

text \<open>\<open>holder()\<close> does not report the dead. It names somebody only at a moment when a party really
  holds the flock, or another probe does; and when a killed holder left its record behind and
  nobody holds the flock, one undisturbed call clears the leftover, unlocks and answers "nobody",
  after which the lock can be acquired.\<close>

theorem holder_truthful:
  "(\<forall>(s :: lock_sys) s' j d. lock_reach s \<and> lstep s s' \<and> reports s' = (j, Some d) # reports s \<longrightarrow>
      (\<exists>i. flocked s = Some (Holder i) \<and> lphase s i \<noteq> Idle) \<or> (\<exists>k. k \<noteq> j \<and> flocked s = Some (Probe k))) \<and>
   (\<forall>(s :: lock_sys) d j. flocked s = None \<and> lock_record_of (record_text s) = Some d \<and> pphase s j = NoProbe \<longrightarrow>
      (\<exists>s1 s2 s3 s4. lstep s s1 \<and> lstep s1 s2 \<and> lstep s2 s3 \<and> lstep s3 s4 \<and> flocked s4 = None \<and>
         record_text s4 = None \<and> reports s4 = (j, None) # reports s \<and> lphase s4 = lphase s))"
proof (intro conjI allI impI)
  fix s s' :: lock_sys and j d assume a: "lock_reach s \<and> lstep s s' \<and> reports s' = (j, Some d) # reports s"
  from a have "lstep s s'" by blast
  then have "pphase s j = Seen d \<and> flocked s \<noteq> None"
    using a by (auto elim!: lstepE)
  with lock_inv_reach[of s] a show "(\<exists>i. flocked s = Some (Holder i) \<and> lphase s i \<noteq> Idle) \<or>
      (\<exists>k. k \<noteq> j \<and> flocked s = Some (Probe k))"
    unfolding lock_inv_def by (metis not_None_eq party.exhaust probe_phase.distinct(7) probe_phase.distinct(9) insert_iff empty_iff)
next
  fix s :: lock_sys and d j assume a: "flocked s = None \<and> lock_record_of (record_text s) = Some d \<and> pphase s j = NoProbe"
  define s1 where "s1 = s\<lparr>pphase := (pphase s)(j := Seen d)\<rparr>"
  define s2 where "s2 = s1\<lparr>flocked := Some (Probe j), pphase := (pphase s1)(j := ProbeLocked)\<rparr>"
  define s3 where "s3 = s2\<lparr>record_text := None, pphase := (pphase s2)(j := ProbeCleared)\<rparr>"
  define s4 where "s4 = s3\<lparr>flocked := None, pphase := (pphase s3)(j := NoProbe), reports := (j, None) # reports s3\<rparr>"
  have "lstep s s1" unfolding s1_def using a by (intro probe_read) auto
  moreover have "lstep s1 s2" unfolding s2_def using a by (intro probe_lock[where d = d]) (auto simp: s1_def)
  moreover have "lstep s2 s3" unfolding s3_def by (intro probe_clear) (auto simp: s2_def)
  moreover have "lstep s3 s4" unfolding s4_def by (intro probe_unlock) (auto simp: s3_def)
  moreover have "flocked s4 = None" "record_text s4 = None" "reports s4 = (j, None) # reports s" "lphase s4 = lphase s"
    by (simp_all add: s4_def s3_def s2_def s1_def)
  ultimately show "\<exists>s1 s2 s3 s4. lstep s s1 \<and> lstep s1 s2 \<and> lstep s2 s3 \<and> lstep s3 s4 \<and> flocked s4 = None \<and>
         record_text s4 = None \<and> reports s4 = (j, None) # reports s \<and> lphase s4 = lphase s" by blast
qed

theorem holder_truthful_witness:
  "lock_reach orphan_sys \<and> (\<exists>d. lock_record_of (record_text orphan_sys) = Some d) \<and>
   (\<exists>s1 s2 s3 s4. lstep orphan_sys s1 \<and> lstep s1 s2 \<and> lstep s2 s3 \<and> lstep s3 s4 \<and> flocked s4 = None \<and>
      record_text s4 = None)"
proof -
  have d: "flocked orphan_sys = None \<and>
      lock_record_of (record_text orphan_sys) = Some (lock_payload 1 ''flash'' (JInt 5)) \<and>
      pphase orphan_sys 3 = NoProbe"
    by (simp add: orphan_sys_def held_sys_def lock_init_def lock_record_of_def lock_payload_def)
  from holder_truthful[THEN conjunct2, rule_format, OF d] d orphan_reach show ?thesis by blast
qed

end
