(* ===== verification/Jobs.thy ===== *)
theory Jobs
  imports LockFile
begin

section \<open>Long-running operations, one at a time (jobs.py)\<close>

text \<open>
  The runner is a single slot guarded by the file lock. Its worker thread, \<open>submit\<close>, \<open>cancel\<close>
  and the operations of other processes interleave, so \<open>jstep\<close> has one step for each stretch of
  code that runs under \<open>_slot_lock\<close> or is a single assignment: the worker sets the terminal state,
  then releases the file lock, then empties the slot, and \<open>cancel\<close> looks its job up before it sets
  the shared event. The file lock is \<open>LockFile\<close>'s, through the contract it was shown to satisfy.

  The log of a job is a bounded ring with a running index; its functions are separate from the
  state machine, because appending holds a lock of the job's own.
\<close>

subsection \<open>The log ring\<close>

record log_line =
  ll_seq :: nat
  ll_stream :: string
  ll_text :: string

record log_ring =
  lr_maxlen :: nat
  lr_log :: "log_line list"
  lr_next_seq :: nat
  lr_dropped :: nat

definition new_ring :: "nat \<Rightarrow> log_ring" where
  "new_ring n = \<lparr>lr_maxlen = n, lr_log = [], lr_next_seq = 0, lr_dropped = 0\<rparr>"

text \<open>\<open>deque(maxlen=n).append\<close> drops from the left.\<close>

definition deque_append :: "nat \<Rightarrow> 'a list \<Rightarrow> 'a \<Rightarrow> 'a list" where
  "deque_append n xs x = drop (length xs + 1 - n) (xs @ [x])"

definition log_append :: "log_ring \<Rightarrow> string \<Rightarrow> string \<Rightarrow> log_ring \<times> log_line" where
  "log_append r stream text =
     (let line = \<lparr>ll_seq = lr_next_seq r, ll_stream = stream, ll_text = text\<rparr> in
      (r\<lparr>lr_next_seq := lr_next_seq r + 1,
         lr_dropped := (if length (lr_log r) = lr_maxlen r then lr_dropped r + 1 else lr_dropped r),
         lr_log := deque_append (lr_maxlen r) (lr_log r) line\<rparr>, line))"

definition log_since :: "log_ring \<Rightarrow> nat \<Rightarrow> log_line list \<times> nat \<times> nat" where
  "log_since r from_seq =
     (if lr_log r = [] then ([], max from_seq (lr_dropped r), lr_next_seq r)
      else (let start = max from_seq (ll_seq (hd (lr_log r))) in
            (filter (\<lambda>l. start \<le> ll_seq l) (lr_log r), start, lr_next_seq r)))"

definition log_tail :: "log_ring \<Rightarrow> int \<Rightarrow> log_line list" where
  "log_tail r limit =
     (if limit > 0 then drop (length (lr_log r) - nat limit) (lr_log r) else [])"

fun log_all :: "log_ring \<Rightarrow> (string \<times> string) list \<Rightarrow> log_ring" where
  "log_all r [] = r"
| "log_all r ((s, t) # ls) = log_all (fst (log_append r s t)) ls"

text \<open>The lines a run of appends makes, numbered from 0.\<close>

definition numbered :: "(string \<times> string) list \<Rightarrow> log_line list" where
  "numbered ls = map (\<lambda>i. \<lparr>ll_seq = i, ll_stream = fst (ls ! i), ll_text = snd (ls ! i)\<rparr>) [0..<length ls]"

lemma numbered_snoc: "numbered (ls @ [(s, t)]) = numbered ls @ [\<lparr>ll_seq = length ls, ll_stream = s, ll_text = t\<rparr>]"
  by (simp add: numbered_def nth_append)

lemma length_numbered [simp]: "length (numbered ls) = length ls"
  by (simp add: numbered_def)

lemma log_all_snoc: "log_all r (ls @ [l]) = fst (log_append (log_all r ls) (fst l) (snd l))"
  by (induction r ls rule: log_all.induct) (cases l; simp)+

lemma log_all_ring:
  "log_all (new_ring n) ls =
     \<lparr>lr_maxlen = n, lr_log = drop (length ls - n) (numbered ls), lr_next_seq = length ls,
      lr_dropped = length ls - n\<rparr>"
proof (induction ls rule: rev_induct)
  case Nil
  then show ?case by (simp add: new_ring_def numbered_def)
next
  case (snoc l ls)
  obtain s t where l: "l = (s, t)" by (cases l)
  show ?case
  proof (cases "n \<le> length ls")
    case True
    then show ?thesis
      unfolding log_all_snoc snoc l
      by (auto simp: log_append_def Let_def deque_append_def numbered_snoc Suc_diff_le)
  next
    case False
    then show ?thesis
      unfolding log_all_snoc snoc l
      by (simp add: log_append_def Let_def deque_append_def numbered_snoc)
  qed
qed

text \<open>However many lines a job prints, a reader who asks from any index gets exactly the lines it
  has not seen that are still held: after any run of appends to a ring of size n, \<open>log_since\<close>
  returns the appended lines with index at least the later of what was asked and what was
  evicted, in order and under their original numbers, tells the caller the index it really
  starts from, and the next index to ask for; the evicted count is the overflow.\<close>

theorem log_since_exact:
  "(let r = log_all (new_ring n) ls; start = max from_seq (length ls - n) in
    fst (log_since r from_seq) = drop start (numbered ls) \<and>
    (from_seq \<le> length ls \<longrightarrow> fst (snd (log_since r from_seq)) = start) \<and>
    snd (snd (log_since r from_seq)) = length ls \<and> lr_dropped r = length ls - n \<and>
    length (lr_log r) \<le> n)"
proof -
  let ?r = "log_all (new_ring n) ls"
  let ?d = "length ls - n"
  have log: "lr_log ?r = drop ?d (numbered ls)" "lr_next_seq ?r = length ls" "lr_dropped ?r = ?d"
    by (simp_all add: log_all_ring)
  have seqs: "drop k (numbered ls) = filter (\<lambda>l. k \<le> ll_seq l) (numbered ls)" for k
  proof -
    have "filter (\<lambda>l. k \<le> ll_seq l) (numbered ls) =
        map (\<lambda>i. \<lparr>ll_seq = i, ll_stream = fst (ls ! i), ll_text = snd (ls ! i)\<rparr>) (filter ((\<le>) k) [0..<length ls])"
      by (simp add: numbered_def filter_map comp_def)
    also have "filter ((\<le>) k) [0..<m] = [k..<m]" for m
      by (induction m) auto
    finally show ?thesis by (simp add: numbered_def drop_map)
  qed
  have "log_since ?r from_seq = (drop (max from_seq ?d) (numbered ls),
      max from_seq ?d, length ls)"
  proof (cases "lr_log ?r = []")
    case True
    with log have "length ls \<le> ?d" by simp
    with True log show ?thesis by (simp add: log_since_def)
  next
    case False
    with log have lt: "?d < length ls" by simp
    then have "ll_seq (hd (lr_log ?r)) = ?d"
      by (simp add: log numbered_def hd_drop_conv_nth)
    moreover have "filter (\<lambda>l. max from_seq ?d \<le> ll_seq l) (drop ?d (numbered ls)) =
        drop (max from_seq ?d) (numbered ls)"
      unfolding seqs filter_filter by (rule filter_cong) auto
    ultimately show ?thesis using False log by (simp add: log_since_def Let_def)
  qed
  then show ?thesis using log by (simp add: Let_def)
qed

theorem log_since_exact_witness:
  "fst (snd (log_since (log_all (new_ring 2) [(''info'', ''a''), (''info'', ''b''), (''warn'', ''c'')]) 0)) = 1 \<and>
   map ll_text (fst (log_since (log_all (new_ring 2) [(''info'', ''a''), (''info'', ''b''), (''warn'', ''c'')]) 0))
     = [''b'', ''c'']"
  using log_since_exact[of 2 "[(''info'', ''a''), (''info'', ''b''), (''warn'', ''c'')]" 0]
  by (simp add: Let_def numbered_def upt_rec)

subsection \<open>Jobs and the runner's state\<close>

datatype job_state = Queued | Running | Succeeded | Failed | Cancelled

definition TERMINAL :: "job_state list" where
  "TERMINAL = [Succeeded, Failed, Cancelled]"

definition IMMEDIATELY_CANCELLABLE :: "string list" where
  "IMMEDIATELY_CANCELLABLE = [''build'', ''build_all'']"

record job =
  j_kind :: string
  j_params :: "(string \<times> json) list"
  j_state :: job_state
  j_result :: "json option"
  j_error :: "json option"
  j_cancel_requested :: bool

definition is_terminal :: "job \<Rightarrow> bool" where
  "is_terminal j \<longleftrightarrow> j_state j \<in> set TERMINAL"

text \<open>What the function doing the work does: it returns, raises \<open>OperationCancelled\<close> or another
  \<open>UpdaterError\<close> (their \<open>to_dict\<close>), or crashes with anything else.\<close>

datatype outcome = Returned json | RaisedCancelled json | RaisedUpdater json | Crashed string

fun settle_job :: "outcome \<Rightarrow> job \<Rightarrow> job" where
  "settle_job (Returned v) j = j\<lparr>j_result := Some (if truthy v then v else JObj []), j_state := Succeeded\<rparr>"
| "settle_job (RaisedCancelled e) j = j\<lparr>j_state := Cancelled, j_error := Some e\<rparr>"
| "settle_job (RaisedUpdater e) j = j\<lparr>j_state := Failed, j_error := Some e\<rparr>"
| "settle_job (Crashed what) j = j\<lparr>j_state := Failed,
     j_error := Some (JObj [(''code'', JStr ''internal''), (''message'', JStr what), (''data'', JObj [])])\<rparr>"

text \<open>Where the code that runs a job stands; \<open>StartReleased\<close>, \<open>StartCleared\<close> and \<open>Aborted\<close> are the
  branch of \<open>submit\<close> whose thread does not start.\<close>

datatype phase = Submitted | Working | Settled | Released | Finished
  | StartReleased | StartCleared | Aborted

record runner =
  r_slot :: "nat option"                 \<comment> \<open>\<open>_current\<close>\<close>
  r_cancel :: bool                       \<comment> \<open>the one shared event\<close>
  r_recent :: "nat list"
  r_jobs :: "nat \<Rightarrow> job option"          \<comment> \<open>\<open>_by_id\<close>, \<open>job-<n>\<close> under n\<close>
  r_phase :: "nat \<Rightarrow> phase option"
  r_next :: nat
  r_lock :: lock_file
  r_cancelling :: "nat list"             \<comment> \<open>calls of \<open>cancel\<close> past their check\<close>

definition HISTORY :: nat where "HISTORY = 10"

definition new_runner :: "lock_file \<Rightarrow> runner" where
  "new_runner l = \<lparr>r_slot = None, r_cancel = False, r_recent = [], r_jobs = (\<lambda>_. None), r_phase = (\<lambda>_. None),
     r_next = 1, r_lock = l, r_cancelling = []\<rparr>"

text \<open>Every \<open>ExclusiveLock\<close> object is a party of its own: job n's, and those of other processes.\<close>

definition job_party :: "nat \<Rightarrow> nat" where "job_party n = 2 * n"
definition cli_party :: "nat \<Rightarrow> nat" where "cli_party k = 2 * k + 1"

definition job_label :: "string \<Rightarrow> (string \<times> json) list \<Rightarrow> string" where
  "job_label kind params = kind @ '' ('' @ join '', '' (map (\<lambda>(k, v). k @ ''='' @ py_str v) params) @ '')''"

subsection \<open>The operations\<close>

datatype submit_error = SlotBusy nat | LockBusy "lock_record option"

definition submit :: "string \<Rightarrow> (string \<times> json) list \<Rightarrow> int \<Rightarrow> json \<Rightarrow> runner \<Rightarrow> submit_error + runner" where
  "submit kind params pid now r =
     (case r_slot r of
        Some n \<Rightarrow> Inl (SlotBusy n)
      | None \<Rightarrow>
          (case acquire (job_party (r_next r)) pid (job_label kind params) now (r_lock r) of
             Inl (Busy d) \<Rightarrow> Inl (LockBusy d)
           | Inr l \<Rightarrow>
               let n = r_next r in
               Inr (r\<lparr>r_lock := l, r_next := n + 1, r_slot := Some n, r_cancel := False,
                      r_jobs := (r_jobs r)(n \<mapsto> \<lparr>j_kind = kind, j_params = params, j_state = Running,
                         j_result = None, j_error = None, j_cancel_requested = False\<rparr>),
                      r_phase := (r_phase r)(n \<mapsto> Submitted)\<rparr>)))"

definition map_job :: "nat \<Rightarrow> (job \<Rightarrow> job) \<Rightarrow> runner \<Rightarrow> runner" where
  "map_job n f r = r\<lparr>r_jobs := (r_jobs r)(n := map_option f (r_jobs r n))\<rparr>"

definition to_phase :: "nat \<Rightarrow> phase \<Rightarrow> runner \<Rightarrow> runner" where
  "to_phase n p r = r\<lparr>r_phase := (r_phase r)(n \<mapsto> p)\<rparr>"

definition worker_settle :: "nat \<Rightarrow> outcome \<Rightarrow> runner \<Rightarrow> runner" where
  "worker_settle n v r = to_phase n Settled (map_job n (settle_job v) r)"

definition worker_release :: "nat \<Rightarrow> runner \<Rightarrow> runner" where
  "worker_release n r = to_phase n Released (r\<lparr>r_lock := release (job_party n) (r_lock r)\<rparr>)"

definition worker_finish :: "nat \<Rightarrow> runner \<Rightarrow> runner" where
  "worker_finish n r = to_phase n Finished (r\<lparr>r_slot := None, r_recent := take HISTORY (n # r_recent r)\<rparr>)"

definition start_release :: "nat \<Rightarrow> runner \<Rightarrow> runner" where
  "start_release n r = to_phase n StartReleased (r\<lparr>r_lock := release (job_party n) (r_lock r)\<rparr>)"

definition start_clear :: "nat \<Rightarrow> runner \<Rightarrow> runner" where
  "start_clear n r = to_phase n StartCleared (r\<lparr>r_slot := None\<rparr>)"

definition start_abort :: "nat \<Rightarrow> runner \<Rightarrow> runner" where
  "start_abort n r = to_phase n Aborted (map_job n (\<lambda>j. j\<lparr>j_state := Failed\<rparr>) r)"

datatype cancel_reply = UnknownJob | AlreadyFinished job_state | Cancelling bool

definition cancel_check :: "nat \<Rightarrow> runner \<Rightarrow> cancel_reply" where
  "cancel_check n r =
     (case r_jobs r n of
        None \<Rightarrow> UnknownJob
      | Some j \<Rightarrow> if is_terminal j then AlreadyFinished (j_state j)
                  else Cancelling (j_kind j \<in> set IMMEDIATELY_CANCELLABLE))"

definition cancel_set :: "nat \<Rightarrow> runner \<Rightarrow> runner" where
  "cancel_set n r = (map_job n (\<lambda>j. j\<lparr>j_cancel_requested := True\<rparr>) r)\<lparr>r_cancel := True\<rparr>"

definition recent_jobs :: "runner \<Rightarrow> int \<Rightarrow> nat list" where
  "recent_jobs r limit = take (nat (max limit 0)) (r_recent r)"

subsection \<open>Everything that can happen, in any order\<close>

inductive jstep :: "runner \<Rightarrow> runner \<Rightarrow> bool" where
  submit_ok: "submit kind params pid now r = Inr r' \<Longrightarrow> jstep r r'"
| thread_start: "r_phase r n = Some Submitted \<Longrightarrow> jstep r (to_phase n Working r)"
| thread_fail: "r_phase r n = Some Submitted \<Longrightarrow> jstep r (start_release n r)"
| fail_clear: "r_phase r n = Some StartReleased \<Longrightarrow> jstep r (start_clear n r)"
| fail_state: "r_phase r n = Some StartCleared \<Longrightarrow> jstep r (start_abort n r)"
| body_ends: "r_phase r n = Some Working \<Longrightarrow> jstep r (worker_settle n v r)"
| lock_released: "r_phase r n = Some Settled \<Longrightarrow> jstep r (worker_release n r)"
| slot_emptied: "r_phase r n = Some Released \<Longrightarrow> jstep r (worker_finish n r)"
| cancel_checked: "cancel_check n r = Cancelling im \<Longrightarrow> jstep r (r\<lparr>r_cancelling := n # r_cancelling r\<rparr>)"
| cancel_done: "n \<in> set (r_cancelling r) \<Longrightarrow>
    jstep r ((cancel_set n r)\<lparr>r_cancelling := remove1 n (r_cancelling r)\<rparr>)"
| other_takes: "acquire (cli_party k) pid label now (r_lock r) = Inr l \<Longrightarrow> jstep r (r\<lparr>r_lock := l\<rparr>)"
| other_releases: "jstep r (r\<lparr>r_lock := release (cli_party k) (r_lock r)\<rparr>)"
| other_killed: "jstep r (r\<lparr>r_lock := killed (cli_party k) (r_lock r)\<rparr>)"
| other_probes: "jstep r (r\<lparr>r_lock := fst (holder (r_lock r))\<rparr>)"

text \<open>The runner starts with an empty slot, whoever holds the file lock.\<close>

inductive jreach :: "runner \<Rightarrow> bool" where
  fresh: "lf_owner l \<notin> range (\<lambda>n. Some (job_party n)) \<Longrightarrow> jreach (new_runner l)"
| later: "jreach r \<Longrightarrow> jstep r r' \<Longrightarrow> jreach r'"

inductive_cases jstepE: "jstep r r'"

lemmas runner_ops = to_phase_def map_job_def worker_settle_def worker_release_def worker_finish_def
  start_release_def start_clear_def start_abort_def cancel_set_def

lemma parties [simp]: "job_party n = job_party m \<longleftrightarrow> n = m" "cli_party k \<noteq> job_party n" "job_party n \<noteq> cli_party k"
  unfolding job_party_def cli_party_def by presburger+

definition holds_slot :: "phase \<Rightarrow> bool" where
  "holds_slot p \<longleftrightarrow> p \<in> {Submitted, Working, Settled, Released, StartReleased}"

definition holds_lock :: "phase \<Rightarrow> bool" where
  "holds_lock p \<longleftrightarrow> p \<in> {Submitted, Working, Settled}"

definition phase_state :: "phase \<Rightarrow> job_state \<Rightarrow> bool" where
  "phase_state p st \<longleftrightarrow> (if p \<in> {Settled, Released, Finished, Aborted} then st \<in> set TERMINAL else st = Running)"

definition runner_inv :: "runner \<Rightarrow> bool" where
  "runner_inv r \<longleftrightarrow>
     (\<forall>n. r_slot r = Some n \<longleftrightarrow> (\<exists>p. r_phase r n = Some p \<and> holds_slot p)) \<and>
     (\<forall>n. lf_owner (r_lock r) = Some (job_party n) \<longleftrightarrow> (\<exists>p. r_phase r n = Some p \<and> holds_lock p)) \<and>
     (\<forall>n. r_phase r n = None \<longleftrightarrow> r_jobs r n = None) \<and>
     (\<forall>n p j. r_phase r n = Some p \<longrightarrow> r_jobs r n = Some j \<longrightarrow> phase_state p (j_state j)) \<and>
     (\<forall>n. r_next r \<le> n \<longrightarrow> r_phase r n = None) \<and>
     (\<forall>n \<in> set (r_recent r). r_phase r n = Some Finished) \<and>
     distinct (r_recent r) \<and> length (r_recent r) \<le> HISTORY \<and>
     set (r_cancelling r) \<subseteq> {n. r_jobs r n \<noteq> None}"

lemma settle_terminal: "j_state (settle_job v j) \<in> set TERMINAL"
  by (cases v) (simp_all add: TERMINAL_def)

lemma lock_owner_facts [simp]:
  "lf_owner (release p l) = (if lf_owner l = Some p then None else lf_owner l)"
  "lf_owner (killed p l) = (if lf_owner l = Some p then None else lf_owner l)"
  "lf_owner (fst (holder l)) = lf_owner l"
  by (auto simp: release_def killed_def holder_def split: option.splits)

lemma acquire_owner: "acquire p pid label now l = Inr l' \<Longrightarrow> lf_owner l = None \<and> lf_owner l' = Some p"
  using flock.acq_owner[of pid label now p l l'] by (simp add: try_acquire_def)

lemma submit_okD:
  assumes "submit kind params pid now r = Inr r'"
  shows "r_slot r = None \<and> lf_owner (r_lock r) = None \<and>
    (\<exists>l. lf_owner l = Some (job_party (r_next r)) \<and>
     r' = r\<lparr>r_lock := l, r_next := r_next r + 1, r_slot := Some (r_next r), r_cancel := False,
            r_jobs := (r_jobs r)(r_next r \<mapsto> \<lparr>j_kind = kind, j_params = params, j_state = Running,
               j_result = None, j_error = None, j_cancel_requested = False\<rparr>),
            r_phase := (r_phase r)(r_next r \<mapsto> Submitted)\<rparr>)"
proof -
  from assms obtain l where s: "r_slot r = None" and
    a: "acquire (job_party (r_next r)) pid (job_label kind params) now (r_lock r) = Inr l" and
    r': "r' = r\<lparr>r_lock := l, r_next := r_next r + 1, r_slot := Some (r_next r), r_cancel := False,
            r_jobs := (r_jobs r)(r_next r \<mapsto> \<lparr>j_kind = kind, j_params = params, j_state = Running,
               j_result = None, j_error = None, j_cancel_requested = False\<rparr>),
            r_phase := (r_phase r)(r_next r \<mapsto> Submitted)\<rparr>"
    by (auto simp: submit_def Let_def split: option.splits sum.splits lock_error.splits)
  from acquire_owner[OF a] s r' show ?thesis by blast
qed

lemmas phase_sets = holds_slot_def holds_lock_def phase_state_def

lemma runner_inv_init: "lf_owner l \<notin> range (\<lambda>n. Some (job_party n)) \<Longrightarrow> runner_inv (new_runner l)"
  by (auto simp: runner_inv_def new_runner_def HISTORY_def)

lemma runner_inv_move:
  assumes inv: "runner_inv r" and p: "r_phase r n = Some p" and q: "r' = to_phase n q r2"
    and same: "r_phase r2 = r_phase r" "r_next r2 = r_next r" "r_cancelling r2 = r_cancelling r"
      "\<forall>m. m \<noteq> n \<longrightarrow> r_jobs r2 m = r_jobs r m"
    and job: "\<exists>j. r_jobs r2 n = Some j \<and> phase_state q (j_state j)"
    and slot: "r_slot r2 = (if holds_slot p \<and> \<not> holds_slot q then None else r_slot r)"
      "holds_slot q \<Longrightarrow> holds_slot p" "p \<noteq> Finished"
    and lck: "lf_owner (r_lock r2) = (if holds_lock p \<and> \<not> holds_lock q then None else lf_owner (r_lock r))"
      "holds_lock q \<Longrightarrow> holds_lock p"
    and rec: "r_recent r2 = r_recent r \<or> q = Finished \<and> r_recent r2 = take HISTORY (n # r_recent r)"
  shows "runner_inv r'"
proof -
  from inv have sl: "r_slot r = Some m \<longleftrightarrow> (\<exists>p. r_phase r m = Some p \<and> holds_slot p)" for m
    by (auto simp: runner_inv_def)
  from inv have lk: "lf_owner (r_lock r) = Some (job_party m) \<longleftrightarrow> (\<exists>p. r_phase r m = Some p \<and> holds_lock p)" for m
    by (auto simp: runner_inv_def)
  from inv have dj: "r_phase r m = None \<longleftrightarrow> r_jobs r m = None" for m
    by (auto simp: runner_inv_def)
  from inv have ps: "r_phase r m = Some p \<Longrightarrow> r_jobs r m = Some j \<Longrightarrow> phase_state p (j_state j)" for m p j
    by (auto simp: runner_inv_def)
  from inv have nx: "r_next r \<le> m \<Longrightarrow> r_phase r m = None" for m
    by (auto simp: runner_inv_def)
  from inv have rc: "\<forall>n \<in> set (r_recent r). r_phase r n = Some Finished" "distinct (r_recent r)"
      "length (r_recent r) \<le> HISTORY" "set (r_cancelling r) \<subseteq> {n. r_jobs r n \<noteq> None}"
    by (auto simp: runner_inv_def)
  have fresh: "n \<notin> set (r_recent r)" using rc(1) p slot(3) by fastforce
  have ph: "r_phase r' m = (if m = n then Some q else r_phase r m)" for m
    using q same by (simp add: to_phase_def)
  have simpl: "r_slot r' = r_slot r2" "r_lock r' = r_lock r2" "r_jobs r' = r_jobs r2" "r_next r' = r_next r"
      "r_recent r' = r_recent r2" "r_cancelling r' = r_cancelling r"
    using q same by (simp_all add: to_phase_def)
  have "r_slot r' = Some m \<longleftrightarrow> (\<exists>p. r_phase r' m = Some p \<and> holds_slot p)" for m
  proof (cases "m = n")
    case True
    then show ?thesis using sl[of n] slot simpl(1) ph[of n] p by auto
  next
    case False
    have "r_slot r = Some n" if "holds_slot p" using sl[of n] p that by simp
    then show ?thesis using sl[of m] slot simpl(1) ph[of m] False by auto
  qed
  moreover have "lf_owner (r_lock r') = Some (job_party m) \<longleftrightarrow> (\<exists>p. r_phase r' m = Some p \<and> holds_lock p)" for m
  proof (cases "m = n")
    case True
    then show ?thesis using lk[of n] lck simpl(2) ph[of n] p by auto
  next
    case False
    have "lf_owner (r_lock r) = Some (job_party n)" if "holds_lock p" using lk[of n] p that by simp
    then show ?thesis using lk[of m] lck simpl(2) ph[of m] False by auto
  qed
  moreover have "r_phase r' m = None \<longleftrightarrow> r_jobs r' m = None" for m
    using dj[of m] job same(4) simpl(3) ph[of m] by auto
  moreover have "phase_state p' (j_state j)" if "r_phase r' m = Some p'" "r_jobs r' m = Some j" for m p' j
    using that ps[of m] job same(4) simpl(3) ph[of m] by (auto split: if_splits)
  moreover have "r_phase r' m = None" if "r_next r' \<le> m" for m
    using that nx[of m] nx[of n] p simpl(4) ph[of m] by auto
  moreover have "\<forall>m \<in> set (r_recent r'). r_phase r' m = Some Finished"
  proof
    fix m assume m: "m \<in> set (r_recent r')"
    then have "m \<in> set (r_recent r) \<or> m = n \<and> q = Finished"
      using rec simpl(5) set_take_subset[of HISTORY "n # r_recent r"] by auto
    then show "r_phase r' m = Some Finished" using rc(1) fresh ph[of m] by auto
  qed
  moreover have "distinct (r_recent r')" "length (r_recent r') \<le> HISTORY"
    using rec rc(2,3) fresh simpl(5) by (auto simp: distinct_take)
  moreover have "set (r_cancelling r') \<subseteq> {n. r_jobs r' n \<noteq> None}"
  proof
    fix m assume "m \<in> set (r_cancelling r')"
    then have "r_jobs r m \<noteq> None" using rc(4) simpl(6) by auto
    then show "m \<in> {n. r_jobs r' n \<noteq> None}" using job same(4) simpl(3) by (cases "m = n") auto
  qed
  ultimately show ?thesis unfolding runner_inv_def by blast
qed

lemma lock_only_inv:
  assumes "runner_inv r"
    and "\<And>n. lf_owner l = Some (job_party n) \<longleftrightarrow> lf_owner (r_lock r) = Some (job_party n)"
  shows "runner_inv (r\<lparr>r_lock := l\<rparr>)"
  using assms unfolding runner_inv_def by simp

lemma submit_inv:
  assumes inv: "runner_inv r" and ok: "submit kind params pid now r = Inr r'"
  shows "runner_inv r'"
proof -
  obtain l where e: "r_slot r = None" "lf_owner (r_lock r) = None" "lf_owner l = Some (job_party (r_next r))"
     and r': "r' = r\<lparr>r_lock := l, r_next := r_next r + 1, r_slot := Some (r_next r), r_cancel := False,
            r_jobs := (r_jobs r)(r_next r \<mapsto> \<lparr>j_kind = kind, j_params = params, j_state = Running,
               j_result = None, j_error = None, j_cancel_requested = False\<rparr>),
            r_phase := (r_phase r)(r_next r \<mapsto> Submitted)\<rparr>"
    using submit_okD[OF ok] by blast
  from inv have nx: "r_phase r (r_next r) = None" by (simp add: runner_inv_def)
  from inv have "\<forall>n. r_phase r n = None \<longleftrightarrow> r_jobs r n = None" by (simp add: runner_inv_def)
  then have nj: "r_jobs r (r_next r) = None" using nx by simp
  show ?thesis
    unfolding r' runner_inv_def
    using inv e nx nj by (auto simp: runner_inv_def phase_sets)
qed

lemma runner_invD:
  assumes "runner_inv r" "r_phase r n = Some p"
  shows "\<exists>j. r_jobs r n = Some j \<and> phase_state p (j_state j)"
    and "holds_lock p \<Longrightarrow> lf_owner (r_lock r) = Some (job_party n)"
    and "holds_slot p \<Longrightarrow> r_slot r = Some n"
proof -
  from assms(1) have a: "\<forall>n. r_phase r n = None \<longleftrightarrow> r_jobs r n = None"
    and b: "\<forall>n p j. r_phase r n = Some p \<longrightarrow> r_jobs r n = Some j \<longrightarrow> phase_state p (j_state j)"
    by (auto simp: runner_inv_def)
  from a assms(2) obtain j where "r_jobs r n = Some j" by (metis not_None_eq)
  with b assms(2) show "\<exists>j. r_jobs r n = Some j \<and> phase_state p (j_state j)" by blast
  from assms show "holds_lock p \<Longrightarrow> lf_owner (r_lock r) = Some (job_party n)"
    and "holds_slot p \<Longrightarrow> r_slot r = Some n"
    by (auto simp: runner_inv_def)
qed

lemma jstep_inv: "jstep r r' \<Longrightarrow> runner_inv r \<Longrightarrow> runner_inv r'"
proof (induction rule: jstep.induct)
  case (submit_ok kind params pid now r r')
  then show ?case using submit_inv by blast
next
  case (cancel_checked n r im)
  then show ?case by (auto simp: runner_inv_def cancel_check_def split: option.splits)
next
  case (cancel_done n r)
  then show ?case
    by (auto simp: runner_inv_def cancel_set_def map_job_def dest: set_remove1_subset[THEN subsetD])
next
  case (other_takes k pid label now r l)
  then show ?case using acquire_owner[OF other_takes.hyps] by (intro lock_only_inv) auto
next
  case (other_releases r k)
  then show ?case by (intro lock_only_inv) auto
next
  case (other_killed r k)
  then show ?case by (intro lock_only_inv) auto
next
  case (other_probes r)
  then show ?case by (intro lock_only_inv) auto
next
  case (thread_start r n)
  note inv = thread_start.prems
  note facts = runner_invD[OF inv thread_start.hyps]
  show ?case
    by (rule runner_inv_move[OF inv thread_start.hyps, where q = Working and ?r2.0 = "r"])
      (use facts settle_terminal in \<open>auto simp: runner_ops phase_sets TERMINAL_def\<close>)
next
  case (thread_fail r n)
  note inv = thread_fail.prems
  note facts = runner_invD[OF inv thread_fail.hyps]
  show ?case
    by (rule runner_inv_move[OF inv thread_fail.hyps, where q = StartReleased and ?r2.0 = "r\<lparr>r_lock := release (job_party n) (r_lock r)\<rparr>"])
      (use facts settle_terminal in \<open>auto simp: runner_ops phase_sets TERMINAL_def\<close>)
next
  case (fail_clear r n)
  note inv = fail_clear.prems
  note facts = runner_invD[OF inv fail_clear.hyps]
  show ?case
    by (rule runner_inv_move[OF inv fail_clear.hyps, where q = StartCleared and ?r2.0 = "r\<lparr>r_slot := None\<rparr>"])
      (use facts settle_terminal in \<open>auto simp: runner_ops phase_sets TERMINAL_def\<close>)
next
  case (fail_state r n)
  note inv = fail_state.prems
  note facts = runner_invD[OF inv fail_state.hyps]
  show ?case
    by (rule runner_inv_move[OF inv fail_state.hyps, where q = Aborted and ?r2.0 = "map_job n (\<lambda>j. j\<lparr>j_state := Failed\<rparr>) r"])
      (use facts settle_terminal in \<open>auto simp: runner_ops phase_sets TERMINAL_def\<close>)
next
  case (body_ends r n v)
  note inv = body_ends.prems
  note facts = runner_invD[OF inv body_ends.hyps]
  show ?case
    by (rule runner_inv_move[OF inv body_ends.hyps, where q = Settled and ?r2.0 = "map_job n (settle_job v) r"])
      (use facts settle_terminal in \<open>auto simp: runner_ops phase_sets TERMINAL_def\<close>)
next
  case (lock_released r n)
  note inv = lock_released.prems
  note facts = runner_invD[OF inv lock_released.hyps]
  show ?case
    by (rule runner_inv_move[OF inv lock_released.hyps, where q = Released and ?r2.0 = "r\<lparr>r_lock := release (job_party n) (r_lock r)\<rparr>"])
      (use facts settle_terminal in \<open>auto simp: runner_ops phase_sets TERMINAL_def\<close>)
next
  case (slot_emptied r n)
  note inv = slot_emptied.prems
  note facts = runner_invD[OF inv slot_emptied.hyps]
  show ?case
    by (rule runner_inv_move[OF inv slot_emptied.hyps, where q = Finished and ?r2.0 = "r\<lparr>r_slot := None, r_recent := take HISTORY (n # r_recent r)\<rparr>"])
      (use facts settle_terminal in \<open>auto simp: runner_ops phase_sets TERMINAL_def\<close>)
qed

lemma jreach_inv: "jreach r \<Longrightarrow> runner_inv r"
  by (induction rule: jreach.induct) (auto intro: runner_inv_init jstep_inv)

text \<open>A run for the witnesses: job 1 is submitted and works; \<open>cancel\<close> has looked it up.\<close>

definition free_lock :: lock_file where
  "free_lock = \<lparr>lf_owner = None, lf_text = None\<rparr>"

definition submitted :: "string \<Rightarrow> runner \<Rightarrow> runner" where
  "submitted kind r = (case submit kind [] 7 (JInt 0) r of Inr r' \<Rightarrow> r' | Inl _ \<Rightarrow> r)"

definition working1 :: runner where
  "working1 = to_phase 1 Working (submitted ''build'' (new_runner free_lock))"

definition done1 :: runner where
  "done1 = worker_finish 1 (worker_release 1 (worker_settle 1 (Returned JNull) working1))"

lemma submitted_reach: "jreach r \<Longrightarrow> jreach (submitted kind r)"
  by (auto simp: submitted_def split: sum.split intro: jreach.later submit_ok)

lemma working1_reach: "jreach working1"
  unfolding working1_def
  by (rule jreach.later[OF submitted_reach[OF jreach.fresh] thread_start])
    (auto simp: free_lock_def submitted_def submit_def acquire_def new_runner_def Let_def)

lemma finish_steps:
  assumes "r_phase r n = Some Working"
  shows "jstep r (worker_settle n v r)"
    "jstep (worker_settle n v r) (worker_release n (worker_settle n v r))"
    "jstep (worker_release n (worker_settle n v r)) (worker_finish n (worker_release n (worker_settle n v r)))"
proof -
  show "jstep r (worker_settle n v r)" by (rule body_ends[OF assms])
  show "jstep (worker_settle n v r) (worker_release n (worker_settle n v r))"
    by (rule lock_released) (simp add: worker_settle_def to_phase_def)
  show "jstep (worker_release n (worker_settle n v r)) (worker_finish n (worker_release n (worker_settle n v r)))"
    by (rule slot_emptied) (simp add: worker_release_def to_phase_def)
qed

lemma finish_reach:
  assumes "jreach r" "r_phase r n = Some Working"
  shows "jreach (worker_finish n (worker_release n (worker_settle n v r)))"
  using finish_steps[OF assms(2)] assms(1) by (blast intro: jreach.later)

text \<open>C13: one operation at a time, in this process and across processes. In every reachable state a
  job whose body may run holds the slot and the file lock and is reported as running, so no other
  job's body and no other process's operation runs beside it; a submit while the slot is taken
  fails naming the incumbent and changes nothing, one while another process holds the lock fails
  with that holder's record; and the history holds distinct finished jobs, ten at most.\<close>

theorem job_exclusive:
  assumes "jreach r"
  shows "(\<forall>n. r_phase r n \<in> {Some Submitted, Some Working} \<longrightarrow>
       r_slot r = Some n \<and> lf_owner (r_lock r) = Some (job_party n) \<and> map_option j_state (r_jobs r n) = Some Running \<and>
       (\<forall>kind params pid now. submit kind params pid now r = Inl (SlotBusy n))) \<and>
    (\<forall>n m. r_phase r n = Some Working \<and> r_phase r m = Some Working \<longrightarrow> n = m) \<and>
    (\<forall>k kind params pid now. lf_owner (r_lock r) = Some (cli_party k) \<and> r_slot r = None \<longrightarrow>
       submit kind params pid now r = Inl (LockBusy (lock_record_of (lf_text (r_lock r))))) \<and>
    distinct (r_recent r) \<and> length (r_recent r) \<le> HISTORY \<and>
       (\<forall>n \<in> set (r_recent r). \<exists>j. r_jobs r n = Some j \<and> is_terminal j)"
proof -
  note inv = jreach_inv[OF assms]
  have a: "\<forall>n. r_phase r n \<in> {Some Submitted, Some Working} \<longrightarrow>
       r_slot r = Some n \<and> lf_owner (r_lock r) = Some (job_party n) \<and> map_option j_state (r_jobs r n) = Some Running \<and>
       (\<forall>kind params pid now. submit kind params pid now r = Inl (SlotBusy n))"
  proof (intro allI impI)
    fix n assume "r_phase r n \<in> {Some Submitted, Some Working}"
    then obtain p where p: "r_phase r n = Some p" "p = Submitted \<or> p = Working" by auto
    note f = runner_invD[OF inv p(1)]
    from p(2) f have "r_slot r = Some n" "lf_owner (r_lock r) = Some (job_party n)" by (auto simp: phase_sets)
    moreover from p(2) f(1) have "map_option j_state (r_jobs r n) = Some Running" by (auto simp: phase_state_def)
    ultimately show "r_slot r = Some n \<and> lf_owner (r_lock r) = Some (job_party n) \<and>
        map_option j_state (r_jobs r n) = Some Running \<and>
        (\<forall>kind params pid now. submit kind params pid now r = Inl (SlotBusy n))"
      by (simp add: submit_def)
  qed
  moreover have "\<forall>n m. r_phase r n = Some Working \<and> r_phase r m = Some Working \<longrightarrow> n = m"
    using a by (metis insertCI option.inject)
  moreover have "\<forall>k kind params pid now. lf_owner (r_lock r) = Some (cli_party k) \<and> r_slot r = None \<longrightarrow>
       submit kind params pid now r = Inl (LockBusy (lock_record_of (lf_text (r_lock r))))"
    by (simp add: submit_def acquire_def)
  moreover
  have "\<exists>j. r_jobs r n = Some j \<and> is_terminal j" if "n \<in> set (r_recent r)" for n
  proof -
    have p: "r_phase r n = Some Finished" using inv that by (simp add: runner_inv_def)
    from runner_invD(1)[OF inv p] show ?thesis by (auto simp: phase_state_def is_terminal_def)
  qed
  then have "distinct (r_recent r) \<and> length (r_recent r) \<le> HISTORY \<and>
       (\<forall>n \<in> set (r_recent r). \<exists>j. r_jobs r n = Some j \<and> is_terminal j)"
    using inv by (simp add: runner_inv_def)
  ultimately show ?thesis by blast
qed

theorem job_exclusive_witness:
  "jreach working1 \<and> r_phase working1 1 = Some Working \<and> r_slot working1 = Some 1 \<and>
   submit ''flash'' [] 8 (JInt 1) working1 = Inl (SlotBusy 1)"
proof -
  have p: "r_phase working1 1 = Some Working" by (simp add: working1_def to_phase_def)
  from job_exclusive[OF working1_reach, THEN conjunct1, rule_format, of 1] p working1_reach show ?thesis by simp
qed

text \<open>A finished job stays as it finished: once a job is succeeded, failed or cancelled, no step
  of any party - a late \<open>cancel\<close> included - changes its state, result or error, and \<open>cancel\<close>
  answers that it already finished, with that state.\<close>

theorem terminal_is_final:
  assumes "jreach r" and "jstep r r'" and "r_jobs r n = Some j" and "is_terminal j"
  shows "(\<exists>j'. r_jobs r' n = Some j' \<and> j_state j' = j_state j \<and> j_result j' = j_result j \<and> j_error j' = j_error j) \<and>
    cancel_check n r = AlreadyFinished (j_state j)"
proof -
  note inv = jreach_inv[OF assms(1)]
  from inv assms(3) have "r_phase r n \<noteq> None" "\<forall>p. r_phase r n = Some p \<longrightarrow> phase_state p (j_state j)"
    by (auto simp: runner_inv_def)
  with assms(4) have p: "r_phase r n = Some p \<Longrightarrow> p \<in> {Settled, Released, Finished, Aborted}" for p
    by (auto simp: phase_state_def is_terminal_def TERMINAL_def split: if_splits)
  from inv assms(3) have nx: "n \<noteq> r_next r" by (force simp: runner_inv_def)
  have "\<exists>j'. r_jobs r' n = Some j' \<and> j_state j' = j_state j \<and> j_result j' = j_result j \<and> j_error j' = j_error j"
    using assms(2)
  proof cases
    case (submit_ok kind params pid now)
    with submit_okD[OF submit_ok] nx assms(3) show ?thesis by auto
  qed (use p assms(3) in \<open>auto simp: runner_ops\<close>)
  with assms(3,4) show ?thesis by (simp add: cancel_check_def)
qed

lemma done1_job: "r_jobs done1 1 = Some \<lparr>j_kind = ''build'', j_params = [], j_state = Succeeded,
    j_result = Some (JObj []), j_error = None, j_cancel_requested = False\<rparr>"
  by (simp add: done1_def working1_def submitted_def submit_def acquire_def new_runner_def free_lock_def Let_def runner_ops)

lemma done1_reach: "jreach done1"
  unfolding done1_def by (rule finish_reach[OF working1_reach]) (simp add: working1_def to_phase_def)

theorem terminal_is_final_witness:
  "jreach done1 \<and> cancel_check 1 done1 = AlreadyFinished Succeeded"
  using terminal_is_final[OF done1_reach other_releases[of done1 0] done1_job] done1_reach
  by (simp add: is_terminal_def TERMINAL_def)

text \<open>The runner always comes free again. From any reachable state in which a job's body runs,
  however the body ends - returned, cancelled, failed or crashed - the worker's next three steps
  record that outcome, release the file lock and empty the slot, in that order, the job heads the
  history, and the next submit is accepted under the next number.\<close>

theorem job_completes:
  assumes "jreach r" and "r_phase r n = Some Working"
  shows "\<exists>j r1 r2 r3. r_jobs r n = Some j \<and> jstep r r1 \<and> jstep r1 r2 \<and> jstep r2 r3 \<and>
     r_jobs r3 n = Some (settle_job v j) \<and> j_state (settle_job v j) \<in> set TERMINAL \<and>
     r_slot r3 = None \<and> lf_owner (r_lock r3) = None \<and> (\<exists>ns. r_recent r3 = n # ns) \<and>
     (\<forall>kind params pid now. \<exists>r4. submit kind params pid now r3 = Inr r4 \<and> r_slot r4 = Some (r_next r))"
proof -
  note inv = runner_invD[OF jreach_inv[OF assms(1)] assms(2)]
  let ?r3 = "worker_finish n (worker_release n (worker_settle n v r))"
  from inv(1) obtain j where j: "r_jobs r n = Some j" by blast
  have own: "lf_owner (r_lock r) = Some (job_party n)" by (rule inv(2)) (simp add: holds_lock_def)
  have r3: "r_jobs ?r3 n = Some (settle_job v j)" "r_slot ?r3 = None" "lf_owner (r_lock ?r3) = None"
      "r_next ?r3 = r_next r" "\<exists>ns. r_recent ?r3 = n # ns"
    using j own by (simp_all add: runner_ops HISTORY_def)
  then have "\<exists>r4. submit kind params pid now ?r3 = Inr r4 \<and> r_slot r4 = Some (r_next r)" for kind params pid now
    by (simp add: submit_def acquire_def Let_def)
  with j r3 finish_steps[OF assms(2)] settle_terminal show ?thesis by blast
qed

theorem job_completes_witness:
  "jreach working1 \<and> (\<exists>r3 :: runner. r_slot r3 = None \<and> lf_owner (r_lock r3) = None \<and>
     map_option j_state (r_jobs r3 1) = Some Failed)"
proof -
  have "r_phase working1 1 = Some Working" by (simp add: working1_def to_phase_def)
  from job_completes[OF working1_reach this, of "Crashed ''boom''"] obtain j and r3 :: runner where
    "r_slot r3 = None" "lf_owner (r_lock r3) = None" "r_jobs r3 1 = Some (settle_job (Crashed ''boom'') j)"
    by blast
  moreover from this have "map_option j_state (r_jobs r3 1) = Some Failed" by simp
  ultimately show ?thesis using working1_reach by blast
qed

text \<open>What the shared event allows: \<open>cancel\<close> looks a job up and sets the event in two steps with
  no lock between them, so a request for job 1 that is overtaken by its end and by the next
  submit sets the event of job 2, which nobody asked to cancel: job 2's own \<open>cancel_requested\<close>
  stays false while its body sees the event set.\<close>

theorem cancel_can_hit_the_next_job:
  "\<exists>r. jreach r \<and> r_phase r 2 = Some Working \<and> r_cancel r \<and>
     map_option j_cancel_requested (r_jobs r 2) = Some False \<and>
     map_option j_state (r_jobs r 1) = Some Succeeded"
proof -
  let ?r1 = "working1\<lparr>r_cancelling := [1]\<rparr>"
  let ?r2 = "worker_finish 1 (worker_release 1 (worker_settle 1 (Returned JNull) ?r1))"
  let ?r3 = "to_phase 2 Working (submitted ''flash'' ?r2)"
  let ?r4 = "(cancel_set 1 ?r3)\<lparr>r_cancelling := remove1 1 (r_cancelling ?r3)\<rparr>"
  note d = working1_def submitted_def submit_def acquire_def new_runner_def free_lock_def Let_def
    cancel_check_def is_terminal_def TERMINAL_def HISTORY_def job_party_def release_def
  have "jstep working1 (working1\<lparr>r_cancelling := 1 # r_cancelling working1\<rparr>)"
    by (rule cancel_checked[where im = True]) (simp add: d runner_ops IMMEDIATELY_CANCELLABLE_def)
  then have r1: "jreach ?r1" using working1_reach by (auto simp: d runner_ops intro: jreach.later)
  have r2: "jreach ?r2" by (rule finish_reach[OF r1]) (simp add: working1_def to_phase_def)
  have r3: "jreach ?r3"
    by (rule jreach.later[OF submitted_reach[OF r2] thread_start]) (simp add: d runner_ops)
  have "jstep ?r3 ?r4" by (rule cancel_done) (simp add: d runner_ops)
  then have r4: "jreach ?r4" by (rule jreach.later[OF r3])
  show ?thesis
    by (rule exI[of _ ?r4]) (use r4 in \<open>simp add: d runner_ops\<close>)
qed

end
