(* ===== verification/Discovery.thy ===== *)
theory Discovery
  imports Verdict "HOL-Library.Word" "HOL-Library.Char_ord" "HOL-Library.List_Lexorder"
begin

section \<open>What is on the bus, and how sure that is (discovery/byid.py, dfu.py, spec.py, confirm.py)\<close>

text \<open>
  A device is known by its by-id file name, a DFU board by the fields dfu-util prints. Listing the
  directory and asking sysfs for a hardware serial (\<open>hw\<close>, by path) or a port are parameters; what
  is made of the names is modelled. \<open>confirm\<close> asks several sources and keeps, per identity, the
  sighting it trusts most.
\<close>

subsection \<open>By-id names\<close>

definition PREFIX :: string where "PREFIX = ''usb-''"
definition INTERFACE_SUFFIX :: string where "INTERFACE_SUFFIX = ''-if00''"
definition KATAPULT_NAMES :: "string list" where "KATAPULT_NAMES = [''katapult'', ''canboot'']"
definition KLIPPER_NAMES :: "string list" where "KLIPPER_NAMES = [''klipper'']"

definition KNOWN_SERIAL_BRIDGE_NAMES :: "string list" where
  "KNOWN_SERIAL_BRIDGE_NAMES =
     [''1a86'', ''ch340'', ''ch341'', ''10c4'', ''cp210'', ''0403'', ''ft232'', ''ftdi'', ''067b'', ''pl2303'', ''usb_serial'']"

record bus_device =
  bd_fw :: string
  bd_chipset :: string
  bd_serial :: string
  bd_path :: string

definition is_klipper :: "bus_device \<Rightarrow> bool" where
  "is_klipper d = (lower (bd_fw d) \<in> set KLIPPER_NAMES)"

definition is_katapult :: "bus_device \<Rightarrow> bool" where
  "is_katapult d = (lower (bd_fw d) \<in> set KATAPULT_NAMES)"

definition bus_state :: "bus_device \<Rightarrow> string" where
  "bus_state d = (if is_klipper d then STATE_KLIPPER else if is_katapult d then STATE_KATAPULT else lower (bd_fw d))"

definition is_mcu :: "bus_device \<Rightarrow> bool" where
  "is_mcu d =
     (let fw_norm = map (\<lambda>c. if c = CHR ''-'' \<or> c = CHR ''.'' then CHR ''_'' else c) (lower (bd_fw d)) in
      \<not> list_ex (\<lambda>bridge. contains bridge fw_norm) KNOWN_SERIAL_BRIDGE_NAMES)"

definition canonical_serial :: "string \<Rightarrow> string" where
  "canonical_serial serial = remove_suffix INTERFACE_SUFFIX serial"

text \<open>\<open>rsplit("_", 1)\<close> on a text with an underscore: before and after the last one.\<close>

definition rsplit_underscore :: "string \<Rightarrow> string \<times> string" where
  "rsplit_underscore s =
     (let tail = rev (takeWhile (\<lambda>c. c \<noteq> CHR ''_'') (rev s)) in
      (take (length s - length tail - 1) s, tail))"

definition parse_entry :: "string \<Rightarrow> string \<Rightarrow> bus_device option" where
  "parse_entry name directory =
     (if \<not> starts_with PREFIX name then None
      else (let rest = drop (length PREFIX) name in
        if CHR ''_'' \<notin> set rest then None
        else (let (name_blob, serial) = rsplit_underscore rest in
          if serial = [] \<or> name_blob = [] then None
          else (let (fw, chipset) =
                  (if length (filter (\<lambda>c. c = CHR ''_'') name_blob) \<le> 1
                   then (let (a, _, b) = partition_str ''_'' name_blob in (a, b)) else (name_blob, [])) in
            Some \<lparr>bd_fw = fw, bd_chipset = chipset, bd_serial = canonical_serial serial,
                  bd_path = directory @ ''/'' @ name\<rparr>))))"

definition scan_names :: "(string \<Rightarrow> string option) \<Rightarrow> string \<Rightarrow> string list \<Rightarrow> bus_device list" where
  "scan_names hw directory names =
     List.map_filter (\<lambda>name.
       map_option (\<lambda>d. case hw (bd_path d) of Some s \<Rightarrow> d\<lparr>bd_serial := s\<rparr> | None \<Rightarrow> d) (parse_entry name directory))
       (sort names)"

definition wanted_group :: "string \<Rightarrow> string list" where
  "wanted_group fw =
     (if lower fw \<in> set KATAPULT_NAMES then KATAPULT_NAMES
      else if lower fw \<in> set KLIPPER_NAMES then KLIPPER_NAMES else [lower fw])"

definition find_device :: "bus_device list \<Rightarrow> string \<Rightarrow> string \<Rightarrow> string option \<Rightarrow> bus_device option" where
  "find_device bus chipset serial fw =
     (case filter (\<lambda>d. bd_serial d = serial \<and> (chipset = [] \<or> bd_chipset d = chipset) \<and>
             (case fw of None \<Rightarrow> True | Some f \<Rightarrow> lower (bd_fw d) \<in> set (wanted_group f))) bus of
        [d] \<Rightarrow> Some d
      | _ \<Rightarrow> None)"

definition device_state :: "bus_device list \<Rightarrow> string \<Rightarrow> string \<Rightarrow> string \<times> string option" where
  "device_state bus chipset serial =
     (case find_device bus chipset serial None of
        None \<Rightarrow> (STATE_OFFLINE, None)
      | Some d \<Rightarrow> (bus_state d, Some (bd_path d)))"

definition find_untracked ::
  "(bus_device \<Rightarrow> string option) \<Rightarrow> bus_device list \<Rightarrow> string list \<Rightarrow> string option \<Rightarrow> string option \<Rightarrow>
   string option \<Rightarrow> bus_device list" where
  "find_untracked port_of bus known fw chipset port =
     filter (\<lambda>d. is_mcu d \<and> bd_serial d \<notin> set known \<and>
       (case fw of None \<Rightarrow> True | Some f \<Rightarrow> lower (bd_fw d) \<in> set (wanted_group f)) \<and>
       (case chipset of None \<Rightarrow> True | Some c \<Rightarrow> c = [] \<or> bd_chipset d = c) \<and>
       (case port of None \<Rightarrow> True | Some p \<Rightarrow> p = [] \<or> port_of d = Some p)) bus"

subsection \<open>DFU\<close>

definition hex_digit :: "char \<Rightarrow> nat option" where
  "hex_digit c =
     (let n = code c in
      if 48 \<le> n \<and> n \<le> 57 then Some (n - 48)
      else if 65 \<le> n \<and> n \<le> 70 then Some (n - 55)
      else if 97 \<le> n \<and> n \<le> 102 then Some (n - 87) else None)"

text \<open>\<open>bytes.fromhex\<close> skips white space between bytes, so 24 characters may be fewer than twelve
  bytes; the slices of a shorter value are shorter, as in Python.\<close>

fun from_hex :: "string \<Rightarrow> 8 word list option" where
  "from_hex [] = Some []"
| "from_hex (a # s) =
     (if code a \<in> {9, 10, 11, 12, 13, 32 :: nat} then from_hex s
      else case s of
        [] \<Rightarrow> None
      | b # r \<Rightarrow>
          (case (hex_digit a, hex_digit b) of
             (Some x, Some y) \<Rightarrow> map_option ((#) (word_of_nat (16 * x + y))) (from_hex r)
           | _ \<Rightarrow> None))"

fun from_le :: "8 word list \<Rightarrow> nat" where
  "from_le [] = 0"
| "from_le (b # bs) = unat b + 256 * from_le bs"

fun hex_of :: "nat \<Rightarrow> nat \<Rightarrow> string" where
  "hex_of 0 n = []"
| "hex_of (Suc w) n =
     hex_of w (n div 16) @ [(let d = n mod 16 in char_of (if d < 10 then 48 + d else 55 + d))]"

text \<open>The two numbers are below \<open>2 ^ 32\<close> and \<open>2 ^ 16\<close>, so a minimum width is the width.\<close>

definition dfu_serial_for :: "string \<Rightarrow> string option" where
  "dfu_serial_for serial =
     (if length serial \<noteq> 24 then None
      else map_option (\<lambda>raw.
        let word0 = from_le (take 4 raw); word1 = from_le (take 4 (drop 4 raw)); word2 = from_le (take 4 (drop 8 raw)) in
        hex_of 8 ((word0 + word2) mod 2 ^ 32) @ hex_of 4 (word1 div 2 ^ 16)) (from_hex serial))"

record dfu_device =
  dfu_vidpid :: string
  dfu_serial :: "string option"
  dfu_path :: "string option"
  dfu_devnum :: "string option"
  dfu_raw :: string

definition present :: "string option \<Rightarrow> bool" where
  "present s = (s \<noteq> None \<and> s \<noteq> Some [])"

definition dfu_selector :: "dfu_device \<Rightarrow> string list" where
  "dfu_selector d =
     (if present (dfu_path d) then [''-p'', the (dfu_path d)]
      else if present (dfu_serial d) then [''-S'', the (dfu_serial d)]
      else if present (dfu_devnum d) then [''-n'', the (dfu_devnum d)]
      else [])"

text \<open>One entry per physical board: the lines of one board share the key, the first is kept.\<close>

definition dfu_key :: "dfu_device \<Rightarrow> string" where
  "dfu_key d =
     (if present (dfu_path d) then the (dfu_path d)
      else if present (dfu_devnum d) then the (dfu_devnum d)
      else if present (dfu_serial d) then the (dfu_serial d)
      else dfu_raw d)"

fun dfu_group :: "string list \<Rightarrow> dfu_device list \<Rightarrow> dfu_device list" where
  "dfu_group seen [] = []"
| "dfu_group seen (d # ds) =
     (if dfu_key d \<in> set seen then dfu_group seen ds else d # dfu_group (dfu_key d # seen) ds)"

subsection \<open>Sightings and confidence\<close>

definition state_for_firmware :: "string \<Rightarrow> string" where
  "state_for_firmware fw = (if lower fw \<in> set KATAPULT_NAMES then STATE_KATAPULT else STATE_KLIPPER)"

record sighting =
  sg_id :: string
  sg_address :: string
  sg_state :: string
  sg_source :: string
  sg_detail :: "(string \<times> json) list"

datatype confidence = ANSWERED | UNIQUE_BUS_ID | REMEMBERED | POSITIONAL | UNCONFIRMED

fun conf_tone :: "confidence \<Rightarrow> tone" where
  "conf_tone ANSWERED = TONE_OK"
| "conf_tone UNIQUE_BUS_ID = TONE_OK"
| "conf_tone REMEMBERED = TONE_WARN"
| "conf_tone POSITIONAL = TONE_WARN"
| "conf_tone UNCONFIRMED = TONE_WARN"

fun conf_reason :: "confidence \<Rightarrow> string" where
  "conf_reason ANSWERED = ''answered''"
| "conf_reason UNIQUE_BUS_ID = ''unique_bus_id''"
| "conf_reason REMEMBERED = ''remembered''"
| "conf_reason POSITIONAL = ''positional''"
| "conf_reason UNCONFIRMED = ''unconfirmed''"

fun conf_label :: "confidence \<Rightarrow> string" where
  "conf_label ANSWERED = ''Confirmed''"
| "conf_label UNIQUE_BUS_ID = ''Confirmed''"
| "conf_label REMEMBERED = ''Remembered''"
| "conf_label POSITIONAL = ''Unconfirmed position''"
| "conf_label UNCONFIRMED = ''Unconfirmed''"

fun safe_to_write :: "confidence \<Rightarrow> bool option" where
  "safe_to_write ANSWERED = Some True"
| "safe_to_write UNIQUE_BUS_ID = Some True"
| "safe_to_write REMEMBERED = None"
| "safe_to_write POSITIONAL = None"
| "safe_to_write UNCONFIRMED = None"

definition BYID :: string where "BYID = ''byid''"

definition byid_sight :: "bus_device list \<Rightarrow> sighting list" where
  "byid_sight bus = map (\<lambda>d. \<lparr>sg_id = bd_serial d, sg_address = bd_path d, sg_state = state_for_firmware (bd_fw d),
     sg_source = BYID, sg_detail = [(''chipset'', JStr (bd_chipset d)), (''fw'', JStr (bd_fw d))]\<rparr>) bus"

definition CONFIDENCE_FOR_SOURCE :: "string \<Rightarrow> confidence" where
  "CONFIDENCE_FOR_SOURCE name =
     (if name = ''listen'' then ANSWERED else if name = ''watcher'' then REMEMBERED
      else if name = BYID then UNIQUE_BUS_ID else UNCONFIRMED)"

definition conf_rank :: "confidence \<Rightarrow> nat" where
  "conf_rank c = (case safe_to_write c of Some True \<Rightarrow> 2 | None \<Rightarrow> 1 | _ \<Rightarrow> 0)"

type_synonym best_sightings = "(string, sighting \<times> confidence) dict"

fun confirm_source :: "confidence \<Rightarrow> sighting list \<Rightarrow> best_sightings \<Rightarrow> best_sightings" where
  "confirm_source c [] best = best"
| "confirm_source c (s # ss) best =
     confirm_source c ss
       (if sg_id s = [] then best
        else case dict_get best (sg_id s) of
          Some cur \<Rightarrow> if conf_rank (snd cur) \<ge> conf_rank c then best else dict_set best (sg_id s) (s, c)
        | None \<Rightarrow> dict_set best (sg_id s) (s, c))"

fun confirm_from :: "(string \<times> sighting list) list \<Rightarrow> best_sightings \<Rightarrow> best_sightings" where
  "confirm_from [] best = best"
| "confirm_from ((name, ss) # srcs) best =
     confirm_from srcs (confirm_source (CONFIDENCE_FOR_SOURCE name) ss best)"

definition confirm :: "(string \<times> sighting list) list \<Rightarrow> best_sightings" where
  "confirm srcs = confirm_from srcs []"

subsection \<open>The most trusted sighting wins\<close>

text \<open>Every sighting with the confidence its source gives it, in the order they were asked.\<close>

definition candidates :: "(string \<times> sighting list) list \<Rightarrow> (sighting \<times> confidence) list" where
  "candidates srcs = concat (map (\<lambda>(name, ss). map (\<lambda>s. (s, CONFIDENCE_FOR_SOURCE name)) ss) srcs)"

definition better :: "(sighting \<times> confidence) option \<Rightarrow> sighting \<times> confidence \<Rightarrow> (sighting \<times> confidence) option" where
  "better cur x =
     (case cur of None \<Rightarrow> Some x | Some y \<Rightarrow> if conf_rank (snd y) \<ge> conf_rank (snd x) then cur else Some x)"

lemma confirm_source_get:
  "i \<noteq> [] \<Longrightarrow> dict_get (confirm_source c ss best) i =
     foldl better (dict_get best i) (map (\<lambda>s. (s, c)) (filter (\<lambda>s. sg_id s = i) ss))"
proof (induction c ss best rule: confirm_source.induct)
  case (2 c s ss best)
  let ?best = "if sg_id s = [] then best
        else case dict_get best (sg_id s) of
          Some cur \<Rightarrow> if conf_rank (snd cur) \<ge> conf_rank c then best else dict_set best (sg_id s) (s, c)
        | None \<Rightarrow> dict_set best (sg_id s) (s, c)"
  have "dict_get ?best i = (if sg_id s = i then better (dict_get best i) (s, c) else dict_get best i)"
    using 2(2) by (auto simp: better_def split: option.splits)
  then show ?case using 2 by simp
qed simp

lemma confirm_get:
  assumes "i \<noteq> []"
  shows "dict_get (confirm srcs) i = foldl better None (filter (\<lambda>x. sg_id (fst x) = i) (candidates srcs))"
proof -
  have "dict_get (confirm_from srcs best) i =
      foldl better (dict_get best i) (filter (\<lambda>x. sg_id (fst x) = i) (candidates srcs))" for best
    by (induction srcs best rule: confirm_from.induct)
      (auto simp: candidates_def confirm_source_get[OF assms] filter_map comp_def)
  then show ?thesis by (simp add: confirm_def)
qed

lemma better_fold:
  "foldl better None xs = (if xs = [] then None else foldl better (Some (hd xs)) (tl xs))"
  by (cases xs) (auto simp: better_def)

lemma better_best:
  "\<exists>y pre post. foldl better (Some x) xs = Some y \<and> x # xs = pre @ y # post \<and>
     (\<forall>z \<in> set pre. conf_rank (snd z) < conf_rank (snd y)) \<and> (\<forall>z \<in> set post. conf_rank (snd z) \<le> conf_rank (snd y))"
proof (induction xs rule: rev_induct)
  case Nil
  have "foldl better (Some x) [] = Some x \<and> [x] = [] @ x # []" by simp
  then show ?case by (metis empty_iff list.set(1))
next
  case (snoc z xs)
  then obtain y pre post where y: "foldl better (Some x) xs = Some y" "x # xs = pre @ y # post"
    "\<forall>u \<in> set pre. conf_rank (snd u) < conf_rank (snd y)" "\<forall>u \<in> set post. conf_rank (snd u) \<le> conf_rank (snd y)"
    by blast
  show ?case
  proof (cases "conf_rank (snd y) \<ge> conf_rank (snd z)")
    case True
    then have "foldl better (Some x) (xs @ [z]) = Some y \<and> x # xs @ [z] = pre @ y # (post @ [z])"
      using y by (simp add: better_def)
    moreover have "\<forall>u \<in> set (post @ [z]). conf_rank (snd u) \<le> conf_rank (snd y)" using y(4) True by simp
    ultimately show ?thesis using y(3) by blast
  next
    case False
    then have "foldl better (Some x) (xs @ [z]) = Some z \<and> x # xs @ [z] = (x # xs) @ z # []"
      using y by (simp add: better_def)
    moreover have "\<forall>u \<in> set (x # xs). conf_rank (snd u) < conf_rank (snd z)"
      unfolding y(2) using False y(3,4) by fastforce
    ultimately show ?thesis by (metis empty_iff list.set(1))
  qed
qed

lemma confirm_blank: "dict_get (confirm srcs) [] = None"
proof -
  have s: "dict_get best [] = None \<Longrightarrow> dict_get (confirm_source c ss best) [] = None" for c ss best
    by (induction c ss best rule: confirm_source.induct) (auto split: option.split)
  have "dict_get best [] = None \<Longrightarrow> dict_get (confirm_from srcs best) [] = None" for best
  proof (induction srcs best rule: confirm_from.induct)
    case (2 name ss srcs best)
    from "2.IH"[OF s[OF "2.prems"]] show ?case by simp
  qed simp
  then show ?thesis by (simp add: confirm_def)
qed

text \<open>What is kept was reported.\<close>

lemma confirm_reported:
  assumes "dict_get (confirm srcs) i = Some y"
  shows "y \<in> set (candidates srcs) \<and> sg_id (fst y) = i"
proof -
  from assms confirm_blank have i: "i \<noteq> []" by force
  let ?cs = "filter (\<lambda>x. sg_id (fst x) = i) (candidates srcs)"
  from assms obtain x xs where cs: "?cs = x # xs" by (cases ?cs) (auto simp: confirm_get[OF i])
  from assms have "foldl better (Some x) xs = Some y" unfolding confirm_get[OF i] better_fold cs by simp
  moreover from better_best[of x xs] obtain z pre post
    where "foldl better (Some x) xs = Some z" "x # xs = pre @ z # post" by blast
  ultimately have "y \<in> set ?cs" unfolding cs by (metis in_set_conv_decomp option.inject)
  then show ?thesis by simp
qed

text \<open>Per identity \<open>confirm\<close> keeps the most trusted sighting, and of equals the first. Whatever the
  sources and whatever they report, an identity is absent exactly when nobody reported it; what is
  kept was reported, with the confidence its source has, nothing reported is trusted more, and
  everything reported before it is trusted strictly less - so a remembered port never shadows a
  live answer. A sighting without an identity is never kept.\<close>

theorem confirm_best:
  "dict_get (confirm srcs) [] = None \<and>
   (\<forall>i. i \<noteq> [] \<longrightarrow> (let cs = filter (\<lambda>x. sg_id (fst x) = i) (candidates srcs) in
     case dict_get (confirm srcs) i of
       None \<Rightarrow> cs = []
     | Some y \<Rightarrow> \<exists>pre post. cs = pre @ y # post \<and> (\<forall>z \<in> set pre. conf_rank (snd z) < conf_rank (snd y)) \<and>
         (\<forall>z \<in> set post. conf_rank (snd z) \<le> conf_rank (snd y))))"
proof (intro conjI allI impI)
  show "dict_get (confirm srcs) [] = None" by (rule confirm_blank)
next
  fix i :: string assume i: "i \<noteq> []"
  let ?cs = "filter (\<lambda>x. sg_id (fst x) = i) (candidates srcs)"
  show "let cs = ?cs in case dict_get (confirm srcs) i of
       None \<Rightarrow> cs = []
     | Some y \<Rightarrow> \<exists>pre post. cs = pre @ y # post \<and> (\<forall>z \<in> set pre. conf_rank (snd z) < conf_rank (snd y)) \<and>
         (\<forall>z \<in> set post. conf_rank (snd z) \<le> conf_rank (snd y))"
  proof (cases ?cs)
    case Nil
    then show ?thesis by (simp add: confirm_get[OF i])
  next
    case (Cons x xs)
    then have "dict_get (confirm srcs) i = foldl better (Some x) xs"
      by (simp only: confirm_get[OF i] better_fold) simp
    moreover obtain y pre post where "foldl better (Some x) xs = Some y" "x # xs = pre @ y # post"
      "\<forall>z \<in> set pre. conf_rank (snd z) < conf_rank (snd y)" "\<forall>z \<in> set post. conf_rank (snd z) \<le> conf_rank (snd y)"
      using better_best by blast
    ultimately show ?thesis unfolding Let_def Cons by auto
  qed
qed

theorem confirm_best_witness:
  "\<exists>s. map_option (\<lambda>y. sg_address (fst y)) (dict_get (confirm
     [(''watcher'', [\<lparr>sg_id = ''A'', sg_address = ''old'', sg_state = [], sg_source = ''watcher'', sg_detail = []\<rparr>]),
      (''listen'', [s])]) ''A'') = Some ''live''"
proof -
  let ?w = "\<lparr>sg_id = ''A'', sg_address = ''old'', sg_state = [], sg_source = ''watcher'', sg_detail = []\<rparr>"
  let ?s = "\<lparr>sg_id = ''A'', sg_address = ''live'', sg_state = [], sg_source = ''listen'', sg_detail = []\<rparr>"
  let ?srcs = "[(''watcher'', [?w]), (''listen'', [?s])]"
  have cs: "filter (\<lambda>x. sg_id (fst x) = ''A'') (candidates ?srcs) = [(?w, REMEMBERED), (?s, ANSWERED)]"
    by (simp add: candidates_def CONFIDENCE_FOR_SOURCE_def BYID_def)
  have r: "conf_rank REMEMBERED = 1" "conf_rank ANSWERED = 2" by (simp_all add: conf_rank_def)
  have "''A'' \<noteq> ([] :: string)" by simp
  from confirm_best[THEN conjunct2, rule_format, OF this, of ?srcs, unfolded cs Let_def]
  have "dict_get (confirm ?srcs) ''A'' = Some (?s, ANSWERED)"
    by (auto split: option.splits simp: Cons_eq_append_conv r)
  then show ?thesis by (intro exI[of _ ?s]) simp
qed

text \<open>The DFU serial of the board in the source's own example, and the shape of every DFU serial.\<close>

lemma dfu_words_example:
  "from_hex ''27000E000551343438333339'' = Some [0x27, 0, 0x0E, 0, 0x05, 0x51, 0x34, 0x34, 0x38, 0x33, 0x33, 0x39]"
  by (simp add: hex_digit_def)

lemma length_hex_of [simp]: "length (hex_of w n) = w"
  by (induction w arbitrary: n) auto

lemma dfu_serial_length: "dfu_serial_for s = Some t \<Longrightarrow> length s = 24 \<and> length t = 12"
  by (auto simp: dfu_serial_for_def Let_def split: if_splits)

end
