(* ===== verification/Locations.thy ===== *)
theory Locations
  imports Families
begin

section \<open>Every location on disk (paths.py)\<close>

text \<open>
  The one record of directories, and the file names derived from it. Type and firmware names reach
  a path only through these functions, so which files can coincide is decided here.
\<close>

definition REENUMERATE_TIMEOUT :: rat where "REENUMERATE_TIMEOUT = 15"
definition HUMAN_ACTION_TIMEOUT :: rat where "HUMAN_ACTION_TIMEOUT = 120"
definition DEFAULT_SERIAL_BY_ID :: string where "DEFAULT_SERIAL_BY_ID = ''/dev/serial/by-id''"
definition TYPE_SUBDIR :: string where "TYPE_SUBDIR = ''types''"

record paths =
  p_home :: string
  p_config_dir :: string
  p_data_dir :: string
  p_serial_by_id :: string
  p_printer_data :: string
  p_bootsel_root :: string
  p_can_sysfs_net :: string
  p_usb_sysfs :: string
  p_tty_sysfs :: string
  p_block_sysfs :: string

definition main_config :: "paths \<Rightarrow> string" where
  "main_config p = path_join (p_config_dir p) ''mcu-updater.cfg''"

definition lock_file :: "paths \<Rightarrow> string" where
  "lock_file p = path_join (p_data_dir p) ''.updater.lock''"

definition registry_lock_file :: "paths \<Rightarrow> string" where
  "registry_lock_file p = path_join (p_data_dir p) ''.registry.lock''"

definition flashlog_file :: "paths \<Rightarrow> string" where
  "flashlog_file p = path_join (p_data_dir p) ''.flashed.json''"

definition pairings_file :: "paths \<Rightarrow> string" where
  "pairings_file p = path_join (p_data_dir p) ''.dfu-pairings.json''"

definition platformio_sidecar :: "paths \<Rightarrow> string \<Rightarrow> string" where
  "platformio_sidecar p env = path_join (path_join (p_data_dir p) ''platformio'') (env @ ''.build.json'')"

definition journal_path :: "paths \<Rightarrow> string" where
  "journal_path p = path_join (p_data_dir p) ''.updater.state''"

definition moonraker_sock :: "paths \<Rightarrow> string" where
  "moonraker_sock p = path_join (path_join (p_printer_data p) ''comms'') ''moonraker.sock''"

definition log_dir :: "paths \<Rightarrow> string" where
  "log_dir p = path_join (p_printer_data p) ''logs''"

definition type_root :: "paths \<Rightarrow> string" where
  "type_root p = path_join (p_config_dir p) TYPE_SUBDIR"

definition type_dir :: "paths \<Rightarrow> string \<Rightarrow> string" where
  "type_dir p t = path_join (type_root p) t"

definition artifact_dir :: "paths \<Rightarrow> string \<Rightarrow> string" where
  "artifact_dir p t = path_join (p_data_dir p) t"

definition config_file :: "paths \<Rightarrow> string \<Rightarrow> string \<Rightarrow> string" where
  "config_file p t fw = path_join (type_dir p t) (fw @ ''.config'')"

definition bin_file :: "paths \<Rightarrow> string \<Rightarrow> string \<Rightarrow> string" where
  "bin_file p t fw = path_join (artifact_dir p t) (fw @ ''.bin'')"

definition uf2_file :: "paths \<Rightarrow> string \<Rightarrow> string \<Rightarrow> string" where
  "uf2_file p t fw = path_join (artifact_dir p t) (fw @ ''.uf2'')"

definition sidecar_file :: "paths \<Rightarrow> string \<Rightarrow> string \<Rightarrow> string" where
  "sidecar_file p t fw = path_join (artifact_dir p t) (fw @ ''.build.json'')"

definition profile_file :: "paths \<Rightarrow> string \<Rightarrow> string \<Rightarrow> string" where
  "profile_file p t fw = path_join (artifact_dir p t) (fw @ ''.profile.json'')"

definition custom_profile_file :: "paths \<Rightarrow> string \<Rightarrow> string \<Rightarrow> string" where
  "custom_profile_file p t fw = path_join (type_dir p t) (fw @ ''.custom.config'')"

text \<open>\<open>abspath\<close> and \<open>expanduser("~")\<close> are the operating system's answers; the environment is a
  dictionary. An empty override counts as absent.\<close>

definition env_or :: "(string, string) dict \<Rightarrow> string \<Rightarrow> string \<Rightarrow> string" where
  "env_or env k d = (case dict_get env k of None \<Rightarrow> d | Some v \<Rightarrow> if v = [] then d else v)"

definition from_env :: "(string \<Rightarrow> string) \<Rightarrow> string \<Rightarrow> string option \<Rightarrow> (string, string) dict \<Rightarrow> paths" where
  "from_env abspath user_home home env =
     (let home' = abspath (case home of
            Some h \<Rightarrow> if h = [] then env_or env ''MCU_UPDATER_HOME'' user_home else h
          | None \<Rightarrow> env_or env ''MCU_UPDATER_HOME'' user_home);
          pdata = abspath (env_or env ''MCU_UPDATER_PRINTER_DATA'' (path_join home' ''printer_data''));
          config = env_or env ''MCU_UPDATER_CONFIG_DIR'' (path_join (path_join pdata ''config'') ''mcu-updater'');
          data = env_or env ''MCU_UPDATER_DATA_DIR'' (path_join pdata ''mcu-updater'') in
      \<lparr>p_home = home', p_config_dir = abspath config, p_data_dir = abspath data,
       p_serial_by_id = env_or env ''MCU_UPDATER_FAKE_BUS'' DEFAULT_SERIAL_BY_ID, p_printer_data = pdata,
       p_bootsel_root = env_or env ''MCU_UPDATER_FAKE_BOOTSEL'' [],
       p_can_sysfs_net = env_or env ''MCU_UPDATER_FAKE_CAN_SYSFS'' [],
       p_usb_sysfs = env_or env ''MCU_UPDATER_FAKE_USB_SYSFS'' [],
       p_tty_sysfs = env_or env ''MCU_UPDATER_FAKE_TTY_SYSFS'' [],
       p_block_sysfs = env_or env ''MCU_UPDATER_FAKE_BLOCK_SYSFS'' []\<rparr>)"

subsection \<open>Which names coincide\<close>

lemma starts_with_slash: "starts_with ''/'' b \<longleftrightarrow> b \<noteq> [] \<and> hd b = CHR ''/''"
  by (cases b) (auto simp: starts_with_def)

lemma path_join_relative_eq:
  assumes "a = [] \<or> hd a \<noteq> CHR ''/''" "b = [] \<or> hd b \<noteq> CHR ''/''"
  shows "path_join d a = path_join d b \<longleftrightarrow> a = b"
  using assms by (auto simp: path_join_def starts_with_slash)

lemma path_join_suffix: "\<exists>q. path_join d (a @ b) = q @ b"
proof -
  have "path_join d (a @ b) = a @ b \<or> path_join d (a @ b) = (d @ a) @ b \<or>
      path_join d (a @ b) = (d @ ''/'' @ a) @ b"
    by (simp add: path_join_def)
  then show ?thesis by blast
qed

lemma path_join_plain:
  assumes "CHR ''/'' \<notin> set b" "d \<noteq> []" "last d \<noteq> CHR ''/''"
  shows "path_join d b = d @ ''/'' @ b"
  using assms by (cases b) (auto simp: path_join_def starts_with_slash ends_with_iff)

lemma last_slash_split:
  assumes "CHR ''/'' \<notin> set a" "CHR ''/'' \<notin> set b" "c @ ''/'' @ a = d @ ''/'' @ b"
  shows "c = d \<and> a = b"
proof -
  have r: "takeWhile (\<lambda>x. x \<noteq> CHR ''/'') (rev (c @ ''/'' @ a)) = rev a"
      "takeWhile (\<lambda>x. x \<noteq> CHR ''/'') (rev (d @ ''/'' @ b)) = rev b"
    using assms(1,2) by (auto simp: takeWhile_append intro: takeWhile_eq_all_conv[THEN iffD2])
  have "a = b"
    using r unfolding assms(3) rev_is_rev_conv[symmetric, of a] by simp
  with assms(3) show ?thesis by simp
qed

lemma last_path_join: "b \<noteq> [] \<Longrightarrow> last (path_join d b) = last b \<and> path_join d b \<noteq> []"
  by (auto simp: path_join_def)

text \<open>The four artifacts of one build are four different files, whatever the type and firmware are
  called.\<close>

lemma artifact_files_distinct:
  "distinct [bin_file p t fw, uf2_file p t fw, sidecar_file p t fw, profile_file p t fw]"
proof -
  let ?d = "artifact_dir p t"
  obtain a where a: "path_join ?d (fw @ ''.bin'') = a @ ''.bin''"
    using path_join_suffix[of ?d fw "''.bin''"] by blast
  obtain b where b: "path_join ?d (fw @ ''.uf2'') = b @ ''.uf2''"
    using path_join_suffix[of ?d fw "''.uf2''"] by blast
  obtain c where c: "path_join ?d (fw @ ''.build.json'') = c @ ''.build.json''"
    using path_join_suffix[of ?d fw "''.build.json''"] by blast
  obtain e where e: "path_join ?d (fw @ ''.profile.json'') = e @ ''.profile.json''"
    using path_join_suffix[of ?d fw "''.profile.json''"] by blast
  have ne: "x \<noteq> y" if "take n (rev x) \<noteq> take n (rev y)" for n and x y :: string using that by blast
  have "a @ ''.bin'' \<noteq> b @ ''.uf2''" "a @ ''.bin'' \<noteq> c @ ''.build.json''"
    "a @ ''.bin'' \<noteq> e @ ''.profile.json''" "b @ ''.uf2'' \<noteq> c @ ''.build.json''"
    "b @ ''.uf2'' \<noteq> e @ ''.profile.json''"
    by (rule ne[of 3], simp)+
  moreover have "c @ ''.build.json'' \<noteq> e @ ''.profile.json''" by (rule ne[of 6]) simp
  ultimately show ?thesis
    unfolding bin_file_def uf2_file_def sidecar_file_def profile_file_def a b c e distinct.simps list.set
    by (simp only: insert_iff empty_iff simp_thms)
qed

text \<open>Names without a slash - every accepted type name is one - give each pair its own files.\<close>

lemma artifact_file_inj:
  assumes "CHR ''/'' \<notin> set t" "CHR ''/'' \<notin> set t'" "t \<noteq> []" "t' \<noteq> []"
    "CHR ''/'' \<notin> set x" "CHR ''/'' \<notin> set y"
    "path_join (artifact_dir p t) x = path_join (artifact_dir p t') y"
  shows "t = t' \<and> x = y"
proof -
  have l: "artifact_dir p u \<noteq> [] \<and> last (artifact_dir p u) \<noteq> CHR ''/''" if "CHR ''/'' \<notin> set u" "u \<noteq> []" for u
    using that last_path_join[of u "p_data_dir p"] last_in_set[of u] by (metis artifact_dir_def)
  have "artifact_dir p t @ ''/'' @ x = artifact_dir p t' @ ''/'' @ y"
    using assms(7) l[OF assms(1,3)] l[OF assms(2,4)] assms(5,6) by (simp add: path_join_plain)
  then have "artifact_dir p t = artifact_dir p t'" and xy: "x = y" using last_slash_split assms(5,6) by blast+
  moreover have "u = [] \<or> hd u \<noteq> CHR ''/''" if "CHR ''/'' \<notin> set u" for u using that by (cases u) auto
  ultimately show ?thesis using path_join_relative_eq assms(1,2) by (metis artifact_dir_def)
qed

end
