(* ===== verification/Process.thy ===== *)
theory Process
  imports PyStr
begin

section \<open>Running a tool and reading its output (build.py, run_streamed)\<close>

text \<open>
  Every external program goes through \<open>run_streamed\<close>: the command line and each line of output are
  handed to a reporter as a pair of a stream name and a text, and a dry run replays a fixed log
  and starts nothing. What the child prints, how it ends, and whether the run was cancelled or
  timed out is a parameter \<open>rn_exec\<close>; when the cancel event is seen during a replay is
  \<open>rn_cancel_after\<close>. A caller that captures the output captures every reported line, the command
  line included.
\<close>

type_synonym report = "string \<times> string"

datatype run_error = ToolMissing string | CannotRun string string | Cancelled | TimedOut

record 'w procs =
  rn_exec :: "string list \<Rightarrow> string \<Rightarrow> 'w \<Rightarrow> 'w \<times> string list \<times> (run_error + int)"
  rn_cancel_after :: "'w \<Rightarrow> nat option"

subsection \<open>Classifying a line\<close>

text \<open>\<open>\w\<close> below 256, and a search for a word with a boundary on both sides.\<close>

definition is_word :: "char \<Rightarrow> bool" where
  "is_word c =
     (let n = code c in
      48 \<le> n \<and> n \<le> 57 \<or> 65 \<le> n \<and> n \<le> 90 \<or> n = 95 \<or> 97 \<le> n \<and> n \<le> 122 \<or>
      n \<in> {170, 178, 179, 181, 185, 186, 188, 189, 190} \<or> 192 \<le> n \<and> n \<noteq> 215 \<and> n \<noteq> 247)"

definition word_at :: "string \<Rightarrow> bool \<Rightarrow> string \<Rightarrow> bool" where
  "word_at w left_word s =
     (starts_with w s \<and> \<not> left_word \<and>
      (case drop (length w) s of [] \<Rightarrow> True | c # _ \<Rightarrow> \<not> is_word c))"

fun search_word :: "string list \<Rightarrow> bool \<Rightarrow> string \<Rightarrow> bool" where
  "search_word ws left_word [] = False"
| "search_word ws left_word (c # s) =
     (list_ex (\<lambda>w. word_at w left_word (c # s)) ws \<or> search_word ws (is_word c) s)"

definition make_failed :: "string \<Rightarrow> bool" where
  "make_failed s =
     (starts_with ''make'' s \<and>
      (let r = drop 4 s in
       starts_with '': ***'' r \<or>
       starts_with ''['' r \<and>
         (let ds = takeWhile (\<lambda>c. 48 \<le> code c \<and> code c \<le> 57) (tl r) in
          ds \<noteq> [] \<and> starts_with '']: ***'' (drop (length ds) (tl r)))))"

definition classify_output :: "string \<Rightarrow> string" where
  "classify_output text =
     (let t = lower text in
      if search_word [''fatal error'', ''error''] False t \<or> make_failed t \<or> contains ''undefined reference to'' t
      then ''stdout_error''
      else if search_word [''warning''] False t then ''stdout_warn''
      else ''stdout'')"

subsection \<open>The dry-run log\<close>

definition FAKE_BUILD_LINES :: "string list" where
  "FAKE_BUILD_LINES =
     [''  Creating symbolic link out/board'', ''  Building out/autoconf.h'', ''  Compiling out/src/sched.o'',
      ''  Compiling out/src/command.o'', ''  Compiling out/src/basecmd.o'', ''  Compiling out/src/gpiocmds.o'',
      ''  Compiling out/src/stepper.o'', ''  Compiling out/src/endstop.o'', ''  Compiling out/src/trsync.o'',
      ''  Compiling out/src/adccmds.o'', ''  Compiling out/src/spicmds.o'', ''  Compiling out/src/i2ccmds.o'',
      ''  Compiling out/src/pwmcmds.o'', ''  Compiling out/src/buttons.o'', ''  Compiling out/src/tmcuart.o'',
      ''  Compiling out/src/neopixel.o'', ''  Compiling out/src/generic/crc16_ccitt.o'',
      ''  Compiling out/src/generic/armcm_boot.o'', ''  Compiling out/src/generic/armcm_irq.o'',
      ''  Compiling out/src/generic/timer_irq.o'', ''  Building out/compile_time_request.o'',
      ''Version: v0.13.0-dry-run'', ''  Preprocessing out/src/generic/armcm_link.ld'',
      ''  Linking out/klipper.elf'', ''  Creating bin file out/klipper.bin'']"

definition fake_build_log :: "string list" where
  "fake_build_log =
     concat (map (\<lambda>i. map (\<lambda>l. if i = 0 then l else l @ ''  [pass '' @ dec_str (int i + 1) @ '']'')
       FAKE_BUILD_LINES) [0..<8])"

definition emit_fake_build_log :: "nat option \<Rightarrow> report list \<times> (run_error + unit)" where
  "emit_fake_build_log cancel_after =
     (case cancel_after of
        Some n \<Rightarrow> if n < length fake_build_log
          then (map (Pair ''stdout'') (take n fake_build_log), Inl Cancelled)
          else (map (Pair ''stdout'') fake_build_log, Inr ())
      | None \<Rightarrow> (map (Pair ''stdout'') fake_build_log, Inr ()))"

subsection \<open>Running\<close>

text \<open>\<open>shlex.quote\<close>: a word of safe ASCII characters stays, anything else goes into single quotes.\<close>

definition shell_safe :: "char \<Rightarrow> bool" where
  "shell_safe c =
     (let n = code c in
      48 \<le> n \<and> n \<le> 57 \<or> 65 \<le> n \<and> n \<le> 90 \<or> 97 \<le> n \<and> n \<le> 122 \<or> c \<in> set ''_@%+=:,./-'')"

definition shlex_quote :: "string \<Rightarrow> string" where
  "shlex_quote s =
     (if s = [] then [CHR 0x27, CHR 0x27]
      else if list_all shell_safe s then s
      else [CHR 0x27] @
        concat (map (\<lambda>c. if c = CHR 0x27 then [CHR 0x27, CHR 0x22, CHR 0x27, CHR 0x22, CHR 0x27] else [c]) s) @
        [CHR 0x27])"

definition run_streamed ::
  "'w procs \<Rightarrow> string list \<Rightarrow> string \<Rightarrow> bool \<Rightarrow> 'w \<Rightarrow> 'w \<times> report list \<times> (run_error + int)" where
  "run_streamed ps cmd cwd dry_run w =
     (let head = (''cmd'', join '' '' (map shlex_quote cmd)) in
      if dry_run then
        (let (reports, r) = emit_fake_build_log (rn_cancel_after ps w) in
         (w, head # reports, case r of Inl e \<Rightarrow> Inl e | Inr _ \<Rightarrow> Inr 0))
      else
        (let (w', lines, r) = rn_exec ps cmd cwd w in
         (w', head # map (\<lambda>l. (classify_output l, l)) lines, r)))"

text \<open>What a capturing reporter has collected.\<close>

definition transcript_of :: "report list \<Rightarrow> string list" where
  "transcript_of reports = map snd reports"

lemma run_streamed_dry:
  "run_streamed ps cmd cwd True w = (w', reports, r) \<Longrightarrow> w' = w \<and> (r = Inr 0 \<or> r = Inl Cancelled)"
  by (auto simp: run_streamed_def emit_fake_build_log_def split: option.splits if_splits)

end
