(* ===== verification/Polling.thy ===== *)
theory Polling
  imports Complex_Main
begin

section \<open>Loops that poll until a deadline\<close>

text \<open>
  Every wait of the program looks, gives up once the monotonic clock has passed a deadline, and
  sleeps otherwise. Such a loop is a \<open>partial_function\<close> into an option; that it returns is this one
  lemma: whenever it goes round again the clock was before the deadline and has moved on by a fixed
  amount.
\<close>

lemma polling_returns:
  fixes f :: "'w \<Rightarrow> 'r option" and clock :: "'w \<Rightarrow> rat"
  assumes round: "\<And>w. (\<exists>r. f w = Some r) \<or> (\<exists>w'. f w = f w' \<and> clock w < deadline \<and> clock w' \<ge> clock w + step)"
    and step: "step > 0"
  shows "\<exists>r. f w = Some r"
proof -
  have bounded: "\<exists>r. f w = Some r" if "deadline - clock w \<le> of_nat n * step" for n w
    using that
  proof (induction n arbitrary: w)
    case 0
    then show ?case using round[of w] by auto
  next
    case (Suc n)
    show ?case
    proof (cases "\<exists>r. f w = Some r")
      case False
      with round[of w] obtain w' where w': "f w = f w'" "clock w' \<ge> clock w + step" by blast
      with Suc.prems have "deadline - clock w' \<le> of_nat n * step" by (simp add: algebra_simps)
      from Suc.IH[OF this] w'(1) show ?thesis by simp
    qed
  qed
  obtain n where "(deadline - clock w) / step \<le> of_nat n" using real_arch_simple by blast
  then have "deadline - clock w \<le> of_nat n * step" using step by (simp add: field_simps)
  then show ?thesis by (rule bounded)
qed

end
