(* ===== verification/Katapult.thy ===== *)
theory Katapult
  imports Discovery Locations Process Polling
begin

section \<open>Writing through Katapult (flashers/flash.py)\<close>

text \<open>
  A board is written with \<open>flashtool.py -f\<close>; the offset it would boot from is asked for first with
  the same command and \<open>-s\<close>. The bus, the files, the clock and the tool are fields of \<open>flash_ops\<close>;
  a run is traced as the list of commands that were really started, with what they printed and how
  they ended, and of the warnings and errors reported. Progress lines are left out, and an error
  is a constructor that carries what its message depends on.

  The wait for a rebooted board is a loop that may not end, so a flash returns an option: None is
  never returning.
\<close>

datatype ft_target = AtPath string | OnCan string string

datatype fl_cmd =
    FtStatus ft_target string
  | FtWrite ft_target string
  | DfuWrite "string list" string

fun ft_where :: "ft_target \<Rightarrow> string list" where
  "ft_where (AtPath path) = [''-d'', path]"
| "ft_where (OnCan iface uuid) = [''-i'', iface, ''-u'', uuid]"

definition DFU_VID_PID :: string where "DFU_VID_PID = ''0483:df11''"

fun cmd_argv :: "string \<Rightarrow> string \<Rightarrow> fl_cmd \<Rightarrow> string list" where
  "cmd_argv python tool (FtStatus t fw_bin) = [python, tool] @ ft_where t @ [''-f'', fw_bin, ''-s'']"
| "cmd_argv python tool (FtWrite t fw_bin) = [python, tool] @ ft_where t @ [''-f'', fw_bin]"
| "cmd_argv python tool (DfuWrite selector fw_bin) =
     [''dfu-util'', ''-a'', ''0'', ''-d'', DFU_VID_PID] @ selector @
     [''-D'', fw_bin, ''-s'', ''0x08000000:force:mass-erase:leave'']"

datatype fl_note =
    UnreadForced | MismatchForced json nat | UnreadAfter | MismatchAfter json nat | LeftDfu int

datatype fl_event = Ran fl_cmd "report list" "run_error + int" | Noted fl_note

datatype flash_error =
    NoTool string
  | NoBinary string
  | NotSeen
  | WrongChipset json
  | NoInterfaces
  | StatusFailed int bool           \<comment> \<open>exit code; the probe moved the board\<close>
  | StatusFailedEverywhere
  | OffsetUnreadable bool
  | OffsetMismatch json nat bool
  | Unformattable json              \<comment> \<open>\<open>:#x\<close> of a recorded address that is no integer raises\<close>
  | BootloaderTimeout
  | WriteFailed int
  | WriteFailedEverywhere "string list"
  | ConfigProblem config_error
  | RunProblem run_error
  | SourceRaised string
  | NoDfuDevice
  | NoDfuSerial string
  | AmbiguousDfu
  | DfuDenied

record 'w flash_ops =
  fo_exists :: "'w \<Rightarrow> string \<Rightarrow> bool"
  fo_read_json :: "'w \<Rightarrow> string \<Rightarrow> json option"
  fo_sight :: "'w \<Rightarrow> 'w \<times> (string + (string \<times> sighting list) list)"
  fo_scan :: "'w \<Rightarrow> 'w \<times> bus_device list"
  fo_can_interfaces :: "'w \<Rightarrow> string list"
  fo_dfu :: "'w \<Rightarrow> 'w \<times> (flash_error + dfu_device list)"
  fo_procs :: "'w procs"
  fo_sleep :: "rat \<Rightarrow> 'w \<Rightarrow> 'w"
  fo_time :: "'w \<Rightarrow> rat"

record flash_settings =
  fs_flashtool_path :: string
  fs_dry_run :: bool
  fs_families :: families
  fs_expanduser :: "string \<Rightarrow> string"
  fs_python :: string

definition find_flashtool :: "paths \<Rightarrow> flash_settings \<Rightarrow> config_error + string" where
  "find_flashtool p s =
     (if fs_flashtool_path s \<noteq> [] then Inr (expand_home (fs_expanduser s) (fs_flashtool_path s) (p_home p))
      else and_then (resolve_family (fs_families s) ''katapult'') (\<lambda>katapult.
        Inr (path_join (path_join (source_dir (fs_expanduser s) (p_home p) katapult) ''scripts'') ''flashtool.py'')))"

definition run_cmd ::
  "'w flash_ops \<Rightarrow> paths \<Rightarrow> flash_settings \<Rightarrow> string \<Rightarrow> bool \<Rightarrow> fl_cmd \<Rightarrow> 'w \<Rightarrow>
   'w \<times> fl_event list \<times> report list \<times> (run_error + int)" where
  "run_cmd ops p s tool dry_run cmd w =
     (let (w', reports, r) = run_streamed (fo_procs ops) (cmd_argv (fs_python s) tool cmd) (p_home p) dry_run w in
      (w', if dry_run then [] else [Ran cmd reports r], reports, r))"

subsection \<open>Who is on the bus\<close>

definition device_for :: "best_sightings \<Rightarrow> string \<Rightarrow> string \<Rightarrow> flash_error + (bus_device \<times> confidence)" where
  "device_for sightings chipset serial =
     (case dict_get sightings serial of
        None \<Rightarrow> Inl NotSeen
      | Some (sg, conf) \<Rightarrow>
          (if jget (sg_detail sg) ''chipset'' \<noteq> JStr chipset then Inl (WrongChipset (jget (sg_detail sg) ''chipset''))
           else Inr (\<lparr>bd_fw = (case dict_get (sg_detail sg) ''fw'' of None \<Rightarrow> [] | Some j \<Rightarrow> py_str j),
                      bd_chipset = chipset, bd_serial = serial, bd_path = sg_address sg\<rparr>, conf)))"

subsection \<open>What flashtool printed\<close>

text \<open>The regular expressions are read left to right without backtracking: white space never starts a
  digit run, and a run of non-spaces ends where the pattern wants a space.\<close>

fun hex_value :: "nat \<Rightarrow> string \<Rightarrow> nat" where
  "hex_value acc [] = acc"
| "hex_value acc (c # s) = hex_value (16 * acc + (case hex_digit c of None \<Rightarrow> 0 | Some d \<Rightarrow> d)) s"

definition app_start_at :: "string \<Rightarrow> nat option" where
  "app_start_at s =
     (if \<not> starts_with ''Application Start:'' s then None
      else (let r = dropWhile is_space (drop (length ''Application Start:'') s) in
        if \<not> starts_with ''0x'' r then None
        else (let digits = takeWhile (\<lambda>c. hex_digit c \<noteq> None) (dropWhile is_space (drop 2 r)) in
          if digits = [] then None else Some (hex_value 0 digits))))"

fun search_app_start :: "string \<Rightarrow> nat option" where
  "search_app_start [] = None"
| "search_app_start (c # s) = (case app_start_at (c # s) of Some a \<Rightarrow> Some a | None \<Rightarrow> search_app_start s)"

definition newline :: string where "newline = [CHR 0x0A]"

definition parse_application_start :: "string list \<Rightarrow> nat option" where
  "parse_application_start transcript = search_app_start (join newline transcript)"

definition request_at :: "string \<Rightarrow> bool" where
  "request_at s =
     (starts_with ''requesting '' s \<and>
      (let r = drop (length ''requesting '') s; word = takeWhile (\<lambda>c. \<not> is_space c) r in
       word \<noteq> [] \<and> starts_with '' bootloader'' (drop (length word) r)))"

fun search_request :: "string \<Rightarrow> bool" where
  "search_request [] = False"
| "search_request (c # s) = (request_at (c # s) \<or> search_request s)"

definition requested_bootloader :: "string list \<Rightarrow> bool" where
  "requested_bootloader transcript = search_request (lower (join newline transcript))"

subsection \<open>Waiting for a rebooted board\<close>

definition katapult_now :: "bus_device list \<Rightarrow> string \<Rightarrow> string \<Rightarrow> bus_device option" where
  "katapult_now bus chipset serial =
     (case device_for (confirm [(BYID, byid_sight bus)]) chipset serial of
        Inr (d, _) \<Rightarrow> if state_for_firmware (bd_fw d) = STATE_KATAPULT then Some d else None
      | Inl _ \<Rightarrow> None)"

partial_function (option) await_bootloader_device ::
  "'w flash_ops \<Rightarrow> string \<Rightarrow> string \<Rightarrow> rat \<Rightarrow> 'w \<Rightarrow> ('w \<times> bus_device option) option" where
  "await_bootloader_device ops chipset serial deadline w =
     (let (w1, bus) = fo_scan ops w in
      case katapult_now bus chipset serial of
        Some d \<Rightarrow> Some (w1, Some d)
      | None \<Rightarrow>
          (if fo_time ops w1 \<ge> deadline then Some (w1, None)
           else await_bootloader_device ops chipset serial deadline (fo_sleep ops (1/2) w1)))"

declare await_bootloader_device.simps [code]

subsection \<open>The offset guard\<close>

definition formattable :: "json \<Rightarrow> bool" where
  "formattable j = (case j of JInt _ \<Rightarrow> True | JBool _ \<Rightarrow> True | _ \<Rightarrow> False)"

text \<open>What the answer of a status check means for the write: nothing, a warning under \<open>force\<close>, or
  a refusal. The message is formatted before \<open>force\<close> is looked at.\<close>

definition judge_offset :: "json \<Rightarrow> bool \<Rightarrow> bool \<Rightarrow> string list \<Rightarrow> flash_error + fl_event list" where
  "judge_offset app_address force moved transcript =
     (case parse_application_start transcript of
        None \<Rightarrow> if force then Inr [Noted UnreadForced] else Inl (OffsetUnreadable moved)
      | Some board_address \<Rightarrow>
          (if eq_int app_address (int board_address) then Inr []
           else if \<not> formattable app_address then Inl (Unformattable app_address)
           else if force then Inr [Noted (MismatchForced app_address board_address)]
           else Inl (OffsetMismatch app_address board_address moved)))"

definition verify_offset_before_write ::
  "'w flash_ops \<Rightarrow> paths \<Rightarrow> flash_settings \<Rightarrow> string \<Rightarrow> bus_device \<Rightarrow> string \<Rightarrow> string \<Rightarrow> string \<Rightarrow> sidecar \<Rightarrow>
   bool \<Rightarrow> rat \<Rightarrow> 'w \<Rightarrow> ('w \<times> fl_event list \<times> (flash_error + bus_device)) option" where
  "verify_offset_before_write ops p s tool dev fw_bin chipset serial side force timeout w =
     (let app_address = jget side ''app_address'' in
      if app_address = JNull then Some (w, [], Inr dev)
      else
        (let (w1, es, reports, r) = run_cmd ops p s tool (fs_dry_run s) (FtStatus (AtPath (bd_path dev)) fw_bin) w;
             transcript = transcript_of reports; moved = requested_bootloader transcript in
         case r of
           Inl e \<Rightarrow> Some (w1, es, Inl (RunProblem e))
         | Inr rc \<Rightarrow>
             (if rc \<noteq> 0 then Some (w1, es, Inl (StatusFailed rc moved))
              else case judge_offset app_address force moved transcript of
                Inl e \<Rightarrow> Some (w1, es, Inl e)
              | Inr notes \<Rightarrow>
                  (if \<not> moved then Some (w1, es @ notes, Inr dev)
                   else map_option (\<lambda>(w2, rebooted).
                     (w2, es @ notes, case rebooted of None \<Rightarrow> Inl BootloaderTimeout | Some d \<Rightarrow> Inr d))
                     (await_bootloader_device ops chipset serial (fo_time ops w1 + timeout) w1)))))"

definition report_offset_mismatch :: "sidecar \<Rightarrow> string list \<Rightarrow> flash_error + fl_event list" where
  "report_offset_mismatch side transcript =
     (let app_address = jget side ''app_address'' in
      if app_address = JNull then Inr []
      else case parse_application_start transcript of
        None \<Rightarrow> Inr [Noted UnreadAfter]
      | Some board_address \<Rightarrow>
          (if eq_int app_address (int board_address) then Inr []
           else if \<not> formattable app_address then Inl (Unformattable app_address)
           else Inr [Noted (MismatchAfter app_address board_address)]))"

text \<open>\<open>read_sidecar(...) or {}\<close>: an unreadable file, or one that holds no object, is empty.\<close>

definition read_sidecar :: "(string \<Rightarrow> json option) \<Rightarrow> string \<Rightarrow> sidecar option" where
  "read_sidecar read_json path = (case read_json path of Some (JObj side) \<Rightarrow> Some side | _ \<Rightarrow> None)"

definition side_or_empty :: "'w flash_ops \<Rightarrow> paths \<Rightarrow> string \<Rightarrow> string \<Rightarrow> 'w \<Rightarrow> sidecar" where
  "side_or_empty ops p mcu_type fw w =
     (case read_sidecar (fo_read_json ops w) (sidecar_file p mcu_type fw) of None \<Rightarrow> [] | Some side \<Rightarrow> side)"

definition fw_or_klipper :: "string option \<Rightarrow> string" where
  "fw_or_klipper fw = (case fw of None \<Rightarrow> ''klipper'' | Some f \<Rightarrow> if f = [] then ''klipper'' else f)"

subsection \<open>A flash by serial\<close>

definition katapult_write ::
  "'w flash_ops \<Rightarrow> paths \<Rightarrow> flash_settings \<Rightarrow> string \<Rightarrow> string \<Rightarrow> sidecar \<Rightarrow> bus_device \<Rightarrow> string \<Rightarrow> 'w \<Rightarrow>
   'w \<times> fl_event list \<times> (flash_error + string)" where
  "katapult_write ops p s tool fw_bin side dev reason w =
     (let (w1, es, reports, r) = run_cmd ops p s tool (fs_dry_run s) (FtWrite (AtPath (bd_path dev)) fw_bin) w in
      case r of
        Inl e \<Rightarrow> (w1, es, Inl (RunProblem e))
      | Inr rc \<Rightarrow>
          (if rc \<noteq> 0 then (w1, es, Inl (WriteFailed rc))
           else if fs_dry_run s then (w1, es, Inr reason)
           else case report_offset_mismatch side (transcript_of reports) of
             Inl e \<Rightarrow> (w1, es, Inl e)
           | Inr notes \<Rightarrow> (w1, es @ notes, Inr reason)))"

definition flash_katapult ::
  "'w flash_ops \<Rightarrow> paths \<Rightarrow> flash_settings \<Rightarrow> string \<Rightarrow> string \<Rightarrow> string \<Rightarrow> string option \<Rightarrow> string option \<Rightarrow>
   bool \<Rightarrow> rat \<Rightarrow> 'w \<Rightarrow> ('w \<times> fl_event list \<times> (flash_error + string)) option" where
  "flash_katapult ops p s mcu_type chipset serial fw_bin fw force timeout w =
     (case find_flashtool p s of
        Inl e \<Rightarrow> Some (w, [], Inl (ConfigProblem e))
      | Inr tool \<Rightarrow>
          (if \<not> fo_exists ops w tool then Some (w, [], Inl (NoTool tool))
           else
             (let fw' = fw_or_klipper fw;
                  bin = (case fw_bin of None \<Rightarrow> bin_file p mcu_type fw' | Some b \<Rightarrow> b) in
              if \<not> fo_exists ops w bin then Some (w, [], Inl (NoBinary bin))
              else
                (let (w1, seen) = fo_sight ops w in
                 case seen of
                   Inl e \<Rightarrow> Some (w1, [], Inl (SourceRaised e))
                 | Inr sources \<Rightarrow>
                     (case device_for (confirm sources) chipset serial of
                        Inl e \<Rightarrow> Some (w1, [], Inl e)
                      | Inr (dev, conf) \<Rightarrow>
                          (if fs_dry_run s then Some (katapult_write ops p s tool bin [] dev (conf_reason conf) w1)
                           else
                             (let side = side_or_empty ops p mcu_type fw' w1 in
                              map_option (\<lambda>(w2, es, v).
                                case v of
                                  Inl e \<Rightarrow> (w2, es, Inl e)
                                | Inr dev' \<Rightarrow>
                                    (let (w3, es', r) = katapult_write ops p s tool bin side dev' (conf_reason conf) w2 in
                                     (w3, es @ es', r)))
                                (verify_offset_before_write ops p s tool dev bin chipset serial side force timeout w1))))))))"

subsection \<open>What a flash by serial does\<close>

fun write_of :: "fl_event \<Rightarrow> (ft_target \<times> (run_error + int)) option" where
  "write_of (Ran (FtWrite t b) reports r) = Some (t, r)"
| "write_of _ = None"

definition writes_of :: "fl_event list \<Rightarrow> (ft_target \<times> (run_error + int)) list" where
  "writes_of es = List.map_filter write_of es"

lemma writes_of_simps [simp]:
  "writes_of [] = []"
  "writes_of (e # es) = (case write_of e of None \<Rightarrow> writes_of es | Some x \<Rightarrow> x # writes_of es)"
  "writes_of (es @ es') = writes_of es @ writes_of es'"
  "writes_of (map Noted notes) = []"
  by (auto simp: writes_of_def map_filter_simps map_filter_def split: option.splits)

fun refusal_before_write :: "flash_error \<Rightarrow> bool" where
  "refusal_before_write (WriteFailed rc) = False"
| "refusal_before_write (WriteFailedEverywhere is) = False"
| "refusal_before_write (RunProblem e) = False"
| "refusal_before_write (Unformattable j) = False"
| "refusal_before_write _ = True"

lemma run_cmd_events:
  "run_cmd ops p s tool dry cmd w = (w', es, reports, r) \<Longrightarrow> es = (if dry then [] else [Ran cmd reports r])"
  by (auto simp: run_cmd_def split: prod.splits)

lemma judge_offset_ok:
  "judge_offset j force moved tr = Inr notes \<Longrightarrow>
   (\<exists>ns. notes = map Noted ns) \<and>
   (\<not> force \<longrightarrow> notes = [] \<and> (\<exists>a. parse_application_start tr = Some a \<and> eq_int j (int a)))"
  by (fastforce simp: judge_offset_def split: option.splits if_splits intro: exI[of _ "[_]"] exI[of _ "[]"])

lemma report_offset_notes: "report_offset_mismatch side tr = Inr notes \<Longrightarrow> \<exists>ns. notes = map Noted ns"
  by (fastforce simp: report_offset_mismatch_def Let_def split: option.splits if_splits
      intro: exI[of _ "[_]"] exI[of _ "[]"])

lemma katapult_write_events:
  assumes "katapult_write ops p s tool bin side dev reason w = (w', es, r)"
  shows "(fs_dry_run s \<longrightarrow> es = []) \<and>
    (\<not> fs_dry_run s \<longrightarrow> (\<exists>reports rr ns. es = Ran (FtWrite (AtPath (bd_path dev)) bin) reports rr # map Noted ns \<and>
       (is_ok r \<longrightarrow> rr = Inr 0))) \<and> (\<forall>e. r = Inl e \<longrightarrow> \<not> refusal_before_write e)"
proof -
  obtain w1 es1 reports rr where c: "run_cmd ops p s tool (fs_dry_run s) (FtWrite (AtPath (bd_path dev)) bin) w =
      (w1, es1, reports, rr)" by (metis surj_pair)
  note e1 = run_cmd_events[OF c]
  have nb: "report_offset_mismatch side tr = Inl e \<Longrightarrow> \<not> refusal_before_write e" for tr e
    by (auto simp: report_offset_mismatch_def Let_def split: option.splits if_splits)
  show ?thesis
  proof (cases "rr = Inr 0 \<and> \<not> fs_dry_run s")
    case True
    then show ?thesis using assms c e1 report_offset_notes[of side "transcript_of reports"] nb
      by (force simp: katapult_write_def split: sum.splits)
  next
    case False
    then have "es = es1 \<and> (\<forall>e. r = Inl e \<longrightarrow> \<not> refusal_before_write e) \<and> (is_ok r \<longrightarrow> rr = Inr 0)"
      using assms c by (auto simp: katapult_write_def split: sum.splits if_splits)
    then show ?thesis using e1 by (auto intro: exI[of _ "[]"])
  qed
qed

lemma device_for_Inr:
  assumes "device_for (confirm srcs) chipset serial = Inr (d, c)"
  shows "bd_serial d = serial \<and> bd_chipset d = chipset \<and>
    (\<exists>sg. (sg, c) \<in> set (candidates srcs) \<and> sg_id sg = serial \<and> sg_address sg = bd_path d \<and>
       jget (sg_detail sg) ''chipset'' = JStr chipset \<and>
       (\<forall>f. dict_get (sg_detail sg) ''fw'' = Some (JStr f) \<longrightarrow> bd_fw d = f))"
  using assms confirm_reported[of srcs serial]
  by (fastforce simp: device_for_def split: option.splits if_splits)

text \<open>The board the write goes to after a reboot is one of the last scan: the same serial and chipset,
  under a Katapult name.\<close>

lemma katapult_now_Some:
  assumes "katapult_now bus chipset serial = Some d"
  shows "d \<in> set bus \<and> bd_serial d = serial \<and> bd_chipset d = chipset \<and> is_katapult d"
proof -
  from assms obtain c where c: "device_for (confirm [(BYID, byid_sight bus)]) chipset serial = Inr (d, c)"
    and k: "state_for_firmware (bd_fw d) = STATE_KATAPULT"
    by (auto simp: katapult_now_def split: sum.splits if_splits)
  from device_for_Inr[OF c] obtain sg where sg: "(sg, c) \<in> set (candidates [(BYID, byid_sight bus)])"
    "sg_id sg = serial" "sg_address sg = bd_path d" "jget (sg_detail sg) ''chipset'' = JStr chipset"
    "\<forall>f. dict_get (sg_detail sg) ''fw'' = Some (JStr f) \<longrightarrow> bd_fw d = f"
    and d: "bd_serial d = serial" "bd_chipset d = chipset" by blast
  from sg(1) obtain x where x: "x \<in> set bus" "sg = \<lparr>sg_id = bd_serial x, sg_address = bd_path x,
      sg_state = state_for_firmware (bd_fw x), sg_source = BYID,
      sg_detail = [(''chipset'', JStr (bd_chipset x)), (''fw'', JStr (bd_fw x))]\<rparr>"
    by (auto simp: candidates_def byid_sight_def)
  with sg d have "bd_fw d = bd_fw x" "bd_path d = bd_path x" "bd_serial d = bd_serial x" "bd_chipset d = bd_chipset x"
    by auto
  then have "d = x" by (cases d; cases x) auto
  moreover from k have "is_katapult d"
    by (auto simp: state_for_firmware_def is_katapult_def STATE_KATAPULT_def STATE_KLIPPER_def split: if_splits)
  ultimately show ?thesis using x d by simp
qed

lemma await_bootloader_device_found:
  assumes "await_bootloader_device ops chipset serial deadline w = Some (w', Some d)"
  shows "\<exists>w1. katapult_now (snd (fo_scan ops w1)) chipset serial = Some d"
proof -
  let ?P = "\<lambda>(ops :: 'a flash_ops) chipset serial (deadline :: rat) (w :: 'a) y. \<forall>d. snd y = Some d \<longrightarrow>
    (\<exists>w1. katapult_now (snd (fo_scan ops w1)) chipset serial = Some d)"
  have "?P ops chipset serial deadline w (w', Some d)"
  proof (rule await_bootloader_device.raw_induct[where P = ?P, OF _ assms])
    fix again and ops :: "'a flash_ops" and chipset serial deadline and w :: 'a and y
    assume IH: "\<And>ops chipset serial deadline w y. again ops chipset serial deadline w = Some y \<Longrightarrow>
        ?P ops chipset serial deadline w y"
      and body: "(let (w1, bus) = fo_scan ops w in
        case katapult_now bus chipset serial of
          Some d \<Rightarrow> Some (w1, Some d)
        | None \<Rightarrow> (if fo_time ops w1 \<ge> deadline then Some (w1, None)
            else again ops chipset serial deadline (fo_sleep ops (1/2) w1))) = Some y"
    show "?P ops chipset serial deadline w y"
    proof (cases "katapult_now (snd (fo_scan ops w)) chipset serial")
      case None
      with body have "snd y = None \<or>
          again ops chipset serial deadline (fo_sleep ops (1/2) (fst (fo_scan ops w))) = Some y"
        by (auto simp: Let_def split_beta split: if_splits)
      then show ?thesis using IH by fastforce
    next
      case (Some x)
      with body have "snd y = Some x" by (auto simp: Let_def split_beta)
      with Some show ?thesis by auto
    qed
  qed
  then show ?thesis by simp
qed

text \<open>A clock that runs: a sleep of half a second advances it by that much, and looking at the bus does
  not turn it back.\<close>

definition flash_clock_runs :: "'w flash_ops \<Rightarrow> bool" where
  "flash_clock_runs ops = (\<forall>w. fo_time ops (fo_sleep ops (1/2) w) \<ge> fo_time ops w + 1/2 \<and>
     fo_time ops (fst (fo_scan ops w)) \<ge> fo_time ops w)"

lemma await_bootloader_device_returns:
  assumes "flash_clock_runs ops"
  shows "\<exists>r. await_bootloader_device ops chipset serial deadline w = Some r"
proof (rule polling_returns[where clock = "fo_time ops" and step = "1/2" and deadline = deadline])
  fix w
  let ?f = "await_bootloader_device ops chipset serial deadline" and ?w1 = "fst (fo_scan ops w)"
  have "fo_time ops ?w1 \<ge> fo_time ops w" "fo_time ops (fo_sleep ops (1/2) ?w1) \<ge> fo_time ops ?w1 + 1/2"
    using assms by (simp_all add: flash_clock_runs_def)
  then show "(\<exists>r. ?f w = Some r) \<or>
      (\<exists>w'. ?f w = ?f w' \<and> fo_time ops w < deadline \<and> fo_time ops w' \<ge> fo_time ops w + 1/2)"
    by (subst (1 2) await_bootloader_device.simps)
      (auto simp: Let_def split_beta split: option.splits intro!: exI[of _ "fo_sleep ops (1/2) ?w1"])
qed simp

lemma verify_offset_returns:
  assumes "flash_clock_runs ops"
  shows "\<exists>r. verify_offset_before_write ops p s tool dev bin chipset serial side force timeout w = Some r"
  using await_bootloader_device_returns[OF assms]
  by (fastforce simp: verify_offset_before_write_def Let_def split: prod.splits sum.splits)

text \<open>The offset guard in one place: one status check on the sighted path, and a device to write to
  only after it said the recorded address.\<close>

lemma verify_offset_shape:
  assumes "verify_offset_before_write ops p s tool dev bin chipset serial side force timeout w = Some (w', es, v)"
    "\<not> fs_dry_run s" "jget side ''app_address'' \<noteq> JNull"
  shows "\<exists>reports rr ns. es = Ran (FtStatus (AtPath (bd_path dev)) bin) reports rr # map Noted ns \<and>
    (\<forall>dev'. v = Inr dev' \<longrightarrow> rr = Inr 0 \<and>
       (\<not> force \<longrightarrow> ns = [] \<and> (\<exists>a. parse_application_start (transcript_of reports) = Some a \<and>
          eq_int (jget side ''app_address'') (int a))) \<and>
       (if requested_bootloader (transcript_of reports)
        then \<exists>w1. katapult_now (snd (fo_scan ops w1)) chipset serial = Some dev' else dev' = dev))"
proof -
  obtain w1 es1 reports rr where c: "run_cmd ops p s tool (fs_dry_run s) (FtStatus (AtPath (bd_path dev)) bin) w =
      (w1, es1, reports, rr)" by (metis surj_pair)
  with run_cmd_events[OF c] assms(2) have es1: "es1 = [Ran (FtStatus (AtPath (bd_path dev)) bin) reports rr]" by simp
  let ?j = "jget side ''app_address''" and ?tr = "transcript_of reports"
  show ?thesis
  proof (cases "rr = Inr 0 \<and> (\<exists>notes. judge_offset ?j force (requested_bootloader ?tr) ?tr = Inr notes)")
    case False
    then have "es = es1 \<and> (\<forall>d. v \<noteq> Inr d)"
      using assms(1,3) c by (auto simp: verify_offset_before_write_def Let_def split: sum.splits if_splits)
    then show ?thesis using es1 by (auto intro: exI[of _ "[]"])
  next
    case True
    then obtain ms where j: "judge_offset ?j force (requested_bootloader ?tr) ?tr = Inr ms" by blast
    from judge_offset_ok[OF j] obtain ns where ns: "ms = map Noted ns"
      "\<not> force \<longrightarrow> ms = [] \<and> (\<exists>a. parse_application_start ?tr = Some a \<and> eq_int ?j (int a))" by blast
    have es: "es = es1 @ ms" and v: "\<forall>dev'. v = Inr dev' \<longrightarrow> (if requested_bootloader ?tr
        then \<exists>w1. katapult_now (snd (fo_scan ops w1)) chipset serial = Some dev' else dev' = dev)"
      using assms(1,3) c True j await_bootloader_device_found[of ops chipset serial "fo_time ops w1 + timeout" w1]
      by (auto simp: verify_offset_before_write_def Let_def split: sum.splits if_splits option.splits)
    show ?thesis
      using es1 es v ns True by (intro exI[of _ reports] exI[of _ rr] exI[of _ ns]) auto
  qed
qed

lemma flash_katapult_cases:
  assumes "flash_katapult ops p s mcu_type chipset serial fw_bin fw force timeout w = Some (w', es, r)"
  defines "bin \<equiv> case fw_bin of None \<Rightarrow> bin_file p mcu_type (fw_or_klipper fw) | Some b \<Rightarrow> b"
    and "side \<equiv> side_or_empty ops p mcu_type (fw_or_klipper fw) (fst (fo_sight ops w))"
  obtains (early) e where "es = []" "r = Inl e"
  | (dry) tool dev reason w1 where "fs_dry_run s" "katapult_write ops p s tool bin [] dev reason w1 = (w', es, r)"
  | (refused) tool sources dev conf e where "\<not> fs_dry_run s" "snd (fo_sight ops w) = Inr sources"
      "device_for (confirm sources) chipset serial = Inr (dev, conf)"
      "verify_offset_before_write ops p s tool dev bin chipset serial side force timeout (fst (fo_sight ops w)) =
         Some (w', es, Inl e)" "r = Inl e"
  | (wrote) tool sources dev conf w2 es1 dev' es2 where "\<not> fs_dry_run s" "snd (fo_sight ops w) = Inr sources"
      "device_for (confirm sources) chipset serial = Inr (dev, conf)"
      "verify_offset_before_write ops p s tool dev bin chipset serial side force timeout (fst (fo_sight ops w)) =
         Some (w2, es1, Inr dev')"
      "katapult_write ops p s tool bin side dev' (conf_reason conf) w2 = (w', es2, r)" "es = es1 @ es2"
proof -
  note run = assms(1)[unfolded flash_katapult_def Let_def bin_def[symmetric]]
  show thesis
  proof (cases "find_flashtool p s")
    case (Inl e)
    with run show thesis by (intro early) auto
  next
    case tool: (Inr tool)
    show thesis
    proof (cases "fo_exists ops w tool \<and> fo_exists ops w bin")
      case False
      with run tool show thesis by (auto split: if_splits intro: early)
    next
      case True
      obtain w1 seen where w1: "fo_sight ops w = (w1, seen)" by (metis surj_pair)
      show thesis
      proof (cases seen)
        case (Inl e)
        with run tool True w1 show thesis by (intro early) auto
      next
        case seen: (Inr sources)
        show thesis
        proof (cases "device_for (confirm sources) chipset serial")
          case (Inl e)
          with run tool True w1 seen show thesis by (intro early) auto
        next
          case dev: (Inr x)
          obtain d conf where x: "x = (d, conf)" by (metis surj_pair)
          note run' = run[unfolded tool w1 seen dev x prod.case sum.case]
          show thesis
          proof (cases "fs_dry_run s")
            case True': True
            with run' True show thesis by (intro dry[of tool d "conf_reason conf" w1]) auto
          next
            case False
            let ?v = "verify_offset_before_write ops p s tool d bin chipset serial side force timeout w1"
            have sd: "side = side_or_empty ops p mcu_type (fw_or_klipper fw) w1" by (simp add: side_def w1)
            from run' True False obtain w2 es1 v where v: "?v = Some (w2, es1, v)"
              unfolding sd by (auto split: if_splits)
            show thesis
            proof (cases v)
              case (Inl e)
              with run' True False v show thesis
                using w1 seen dev x by (intro refused[of sources d conf tool e]) (auto simp: sd)
            next
              case (Inr dev')
              obtain w3 es2 r2 where k: "katapult_write ops p s tool bin side dev' (conf_reason conf) w2 = (w3, es2, r2)"
                by (metis surj_pair)
              with run' True False v Inr show thesis
                using w1 seen dev x by (intro wrote[of sources d conf tool w2 es1 dev' es2]) (auto simp: sd)
            qed
          qed
        qed
      qed
    qed
  qed
qed


text \<open>A board that runs Klipper: the probe reboots it, and it is written under its new name.\<close>

definition demo_bus :: "nat \<Rightarrow> bus_device list" where
  "demo_bus w = [\<lparr>bd_fw = (if w = 0 then ''Klipper'' else ''katapult''), bd_chipset = ''stm32f072xb'',
     bd_serial = ''A1'', bd_path = (if w = 0 then ''k'' else ''b'')\<rparr>]"

definition demo_flash_ops :: "nat flash_ops" where
  "demo_flash_ops =
     \<lparr>fo_exists = \<lambda>w f. True,
      fo_read_json = \<lambda>w f. Some (JObj [(''app_address'', JInt 2)]),
      fo_sight = \<lambda>w. (w, Inr [(BYID, byid_sight (demo_bus w))]),
      fo_scan = \<lambda>w. (w, demo_bus w),
      fo_can_interfaces = \<lambda>w. [''can0'', ''can1''],
      fo_dfu = \<lambda>w. (w, Inl DfuDenied),
      fo_procs = \<lparr>rn_exec = \<lambda>argv cwd w.
          (1, [''Requesting U bootloader'', ''Application Start: 0x2''],
           if ''can0'' \<in> set argv then Inr 1 else Inr 0), rn_cancel_after = \<lambda>w. None\<rparr>,
      fo_sleep = \<lambda>t w. w, fo_time = \<lambda>w. 0\<rparr>"

definition demo_paths :: paths where
  "demo_paths = from_env (\<lambda>x. x) ''/home/pi'' None []"

definition demo_flash_settings :: flash_settings where
  "demo_flash_settings = \<lparr>fs_flashtool_path = ''f'', fs_dry_run = False, fs_families = [],
     fs_expanduser = (\<lambda>x. x), fs_python = ''p''\<rparr>"


definition demo_reports :: "string \<Rightarrow> report list" where
  "demo_reports c = [(''cmd'', c), (''stdout'', ''Requesting U bootloader''), (''stdout'', ''Application Start: 0x2'')]"

lemma demo_status: "run_cmd demo_flash_ops p demo_flash_settings ''f'' False (FtStatus (AtPath ''k'') ''i'') 0 =
    (1, [Ran (FtStatus (AtPath ''k'') ''i'') (demo_reports ''p f -d k -f i -s'') (Inr 0)],
     demo_reports ''p f -d k -f i -s'', Inr 0)"
  unfolding run_cmd_def run_streamed_def demo_flash_ops_def demo_flash_settings_def demo_reports_def
  by (simp add: classify_output_def) code_simp

lemma demo_write: "run_cmd demo_flash_ops p demo_flash_settings ''f'' False (FtWrite (AtPath ''b'') ''i'') 1 =
    (1, [Ran (FtWrite (AtPath ''b'') ''i'') (demo_reports ''p f -d b -f i'') (Inr 0)],
     demo_reports ''p f -d b -f i'', Inr 0)"
  unfolding run_cmd_def run_streamed_def demo_flash_ops_def demo_flash_settings_def demo_reports_def
  by (simp add: classify_output_def) code_simp

lemma demo_said:
  "requested_bootloader (transcript_of (demo_reports ''p f -d k -f i -s''))"
  "parse_application_start (transcript_of (demo_reports ''p f -d k -f i -s'')) = Some 2"
  "parse_application_start (transcript_of (demo_reports ''p f -d b -f i'')) = Some 2"
  by code_simp+

lemma demo_found:
  "device_for (confirm [(BYID, byid_sight (demo_bus 0))]) ''stm32f072xb'' ''A1'' =
     Inr (hd (demo_bus 0), UNIQUE_BUS_ID)"
  "katapult_now (demo_bus 1) ''stm32f072xb'' ''A1'' = Some (hd (demo_bus 1))"
  by code_simp+

lemma demo_settings_simps:
  "fs_dry_run demo_flash_settings = False"
  "find_flashtool demo_paths demo_flash_settings = Inr ''f''"
  "fo_exists demo_flash_ops w f = True" "fo_scan demo_flash_ops w = (w, demo_bus w)"
  "fo_sight demo_flash_ops w = (w, Inr [(BYID, byid_sight (demo_bus w))])"
  "side_or_empty demo_flash_ops demo_paths t fw w = [(''app_address'', JInt 2)]"
  by (auto simp: demo_flash_settings_def find_flashtool_def expand_home_def strip_id stripped_def is_space_def
      starts_with_def demo_flash_ops_def side_or_empty_def read_sidecar_def)

lemma demo_run_katapult:
  "\<exists>es. flash_katapult demo_flash_ops demo_paths demo_flash_settings ''t'' ''stm32f072xb'' ''A1'' (Some ''i'') None
       False 15 0 = Some (1, es, Inr ''unique_bus_id'') \<and> writes_of es = [(AtPath ''b'', Inr 0)]"
  by (simp add: Let_def flash_katapult_def demo_settings_simps demo_found verify_offset_before_write_def demo_status demo_said
      judge_offset_def await_bootloader_device.simps katapult_write_def demo_write[simplified] demo_settings_simps report_offset_mismatch_def
      demo_bus_def[of 0, simplified] demo_bus_def[of 1, simplified] demo_found[unfolded demo_bus_def, simplified])


subsection \<open>A flash by CAN uuid\<close>

text \<open>The probe doubles as finding the interface: an interface that does not answer is passed over.
  \<open>bridge\<close> is what the caller knows: a USB-CAN bridge (Some True), a native node (Some False), or
  neither (None).\<close>

fun can_probe ::
  "'w flash_ops \<Rightarrow> paths \<Rightarrow> flash_settings \<Rightarrow> string \<Rightarrow> string \<Rightarrow> string \<Rightarrow> json \<Rightarrow> bool \<Rightarrow> string list \<Rightarrow> 'w \<Rightarrow>
   'w \<times> fl_event list \<times> (flash_error + string option)" where
  "can_probe ops p s tool fw_bin uuid app_address force [] w = (w, [], Inr None)"
| "can_probe ops p s tool fw_bin uuid app_address force (candidate # interfaces) w =
     (let (w1, es, reports, r) = run_cmd ops p s tool False (FtStatus (OnCan candidate uuid) fw_bin) w;
          transcript = transcript_of reports in
      case r of
        Inl e \<Rightarrow> (w1, es, Inl (RunProblem e))
      | Inr rc \<Rightarrow>
          (if rc \<noteq> 0 then
             (let (w2, es', x) = can_probe ops p s tool fw_bin uuid app_address force interfaces w1 in (w2, es @ es', x))
           else case judge_offset app_address force (requested_bootloader transcript) transcript of
             Inl e \<Rightarrow> (w1, es, Inl e)
           | Inr notes \<Rightarrow> (w1, es @ notes, Inr (Some candidate))))"

fun can_write ::
  "'w flash_ops \<Rightarrow> paths \<Rightarrow> flash_settings \<Rightarrow> string \<Rightarrow> string \<Rightarrow> string \<Rightarrow> string list \<Rightarrow> 'w \<Rightarrow>
   'w \<times> fl_event list \<times> (flash_error + (string \<times> string list) option)" where
  "can_write ops p s tool fw_bin uuid [] w = (w, [], Inr None)"
| "can_write ops p s tool fw_bin uuid (candidate # interfaces) w =
     (let (w1, es, reports, r) = run_cmd ops p s tool (fs_dry_run s) (FtWrite (OnCan candidate uuid) fw_bin) w in
      case r of
        Inl e \<Rightarrow> (w1, es, Inl (RunProblem e))
      | Inr rc \<Rightarrow>
          (if rc = 0 then (w1, es, Inr (Some (candidate, transcript_of reports)))
           else (let (w2, es', x) = can_write ops p s tool fw_bin uuid interfaces w1 in (w2, es @ es', x))))"

definition can_find_interface ::
  "'w flash_ops \<Rightarrow> paths \<Rightarrow> flash_settings \<Rightarrow> string \<Rightarrow> string \<Rightarrow> string \<Rightarrow> json \<Rightarrow> bool \<Rightarrow> bool option \<Rightarrow>
   string list \<Rightarrow> 'w \<Rightarrow> 'w \<times> fl_event list \<times> (flash_error + string option)" where
  "can_find_interface ops p s tool fw_bin uuid app_address force bridge interfaces w =
     (if \<not> fs_dry_run s \<and> bridge \<noteq> Some True \<and> app_address \<noteq> JNull
      then (let (w1, es, x) = can_probe ops p s tool fw_bin uuid app_address force interfaces w in
        (w1, es, if x = Inr None \<and> bridge = Some False then Inl StatusFailedEverywhere else x))
      else (w, [], Inr None))"

definition can_finish ::
  "'w flash_ops \<Rightarrow> paths \<Rightarrow> flash_settings \<Rightarrow> string \<Rightarrow> string \<Rightarrow> string \<Rightarrow> sidecar \<Rightarrow> string list \<Rightarrow> 'w \<Rightarrow>
   'w \<times> fl_event list \<times> (flash_error + string)" where
  "can_finish ops p s tool fw_bin uuid side interfaces_to_try w =
     (let (w1, es, chosen) = can_write ops p s tool fw_bin uuid interfaces_to_try w in
      case chosen of
        Inl e \<Rightarrow> (w1, es, Inl e)
      | Inr None \<Rightarrow> (w1, es, Inl (WriteFailedEverywhere interfaces_to_try))
      | Inr (Some (_, transcript)) \<Rightarrow>
          (if fs_dry_run s then (w1, es, Inr ''canbus_uuid'')
           else case report_offset_mismatch side transcript of
             Inl e \<Rightarrow> (w1, es, Inl e)
           | Inr notes \<Rightarrow> (w1, es @ notes, Inr ''canbus_uuid'')))"

definition flash_katapult_can ::
  "'w flash_ops \<Rightarrow> paths \<Rightarrow> flash_settings \<Rightarrow> string \<Rightarrow> string \<Rightarrow> string option \<Rightarrow> string option \<Rightarrow> bool \<Rightarrow>
   bool option \<Rightarrow> string option \<Rightarrow> 'w \<Rightarrow> 'w \<times> fl_event list \<times> (flash_error + string)" where
  "flash_katapult_can ops p s mcu_type uuid fw_bin fw force bridge iface w =
     (case find_flashtool p s of
        Inl e \<Rightarrow> (w, [], Inl (ConfigProblem e))
      | Inr tool \<Rightarrow>
          (let fw' = fw_or_klipper fw;
               bin = (case fw_bin of None \<Rightarrow> bin_file p mcu_type fw' | Some b \<Rightarrow> b);
               interfaces = (case iface of Some i \<Rightarrow> [i] | None \<Rightarrow> fo_can_interfaces ops w);
               side = (if fs_dry_run s then [] else side_or_empty ops p mcu_type fw' w) in
           if \<not> fo_exists ops w tool then (w, [], Inl (NoTool tool))
           else if \<not> fo_exists ops w bin then (w, [], Inl (NoBinary bin))
           else if interfaces = [] then (w, [], Inl NoInterfaces)
           else
             (let (w1, es1, probed) =
                can_find_interface ops p s tool bin uuid (jget side ''app_address'') force bridge interfaces w in
              case probed of
                Inl e \<Rightarrow> (w1, es1, Inl e)
              | Inr found \<Rightarrow>
                  (let (w2, es2, r) = can_finish ops p s tool bin uuid side
                         (case found of None \<Rightarrow> interfaces | Some i \<Rightarrow> [i]) w1 in
                   (w2, es1 @ es2, r)))))"

definition failed_probes :: "string \<Rightarrow> string \<Rightarrow> string list \<Rightarrow> fl_event list \<Rightarrow> bool" where
  "failed_probes uuid bin asked es =
     list_all2 (\<lambda>i e. \<exists>reports rc. e = Ran (FtStatus (OnCan i uuid) bin) reports (Inr rc) \<and> rc \<noteq> 0) asked es"

lemma failed_probes_writes: "failed_probes uuid bin asked es \<Longrightarrow> writes_of es = []"
  unfolding failed_probes_def by (induction rule: list_all2_induct) auto

lemma failed_probes_Cons:
  "failed_probes uuid bin asked es \<Longrightarrow> rc \<noteq> 0 \<Longrightarrow>
   failed_probes uuid bin (i # asked) (Ran (FtStatus (OnCan i uuid) bin) reports (Inr rc) # es)"
  by (simp add: failed_probes_def)

lemma can_probe_shape:
  assumes "can_probe ops p s tool bin uuid j force is w = (w', es, x)"
  shows "writes_of es = [] \<and>
    (\<forall>found. x = Inr found \<longrightarrow> (\<exists>asked fails. failed_probes uuid bin asked fails \<and>
       (case found of
          None \<Rightarrow> asked = is \<and> es = fails
        | Some i \<Rightarrow> i \<in> set is \<and> (\<exists>reports ns. es = fails @ Ran (FtStatus (OnCan i uuid) bin) reports (Inr 0) # map Noted ns \<and>
            (\<not> force \<longrightarrow> ns = [] \<and> (\<exists>a. parse_application_start (transcript_of reports) = Some a \<and> eq_int j (int a)))))))"
  using assms
proof (induction "is" arbitrary: w es)
  case Nil
  then show ?case by (auto simp: failed_probes_def)
next
  case (Cons i "is")
  obtain w1 es1 reports rr where c: "run_cmd ops p s tool False (FtStatus (OnCan i uuid) bin) w =
      (w1, es1, reports, rr)" by (metis surj_pair)
  with run_cmd_events[OF c] have es1: "es1 = [Ran (FtStatus (OnCan i uuid) bin) reports rr]" by simp
  show ?case
  proof (cases rr)
    case (Inl e)
    with Cons.prems c es1 show ?thesis by auto
  next
    case (Inr rc)
    show ?thesis
    proof (cases "rc = 0")
      case False
      obtain w2 es2 x2 where rec: "can_probe ops p s tool bin uuid j force is w1 = (w2, es2, x2)" by (metis surj_pair)
      with Cons.prems c Inr False have eq: "w' = w2" "es = es1 @ es2" "x = x2" by auto
      from Cons.IH[of w1 es2] rec eq have IH: "writes_of es2 = []"
        "\<And>found. x = Inr found \<Longrightarrow> \<exists>asked fails. failed_probes uuid bin asked fails \<and>
       (case found of
          None \<Rightarrow> asked = is \<and> es2 = fails
        | Some i \<Rightarrow> i \<in> set is \<and> (\<exists>reports ns. es2 = fails @ Ran (FtStatus (OnCan i uuid) bin) reports (Inr 0) # map Noted ns \<and>
            (\<not> force \<longrightarrow> ns = [] \<and> (\<exists>a. parse_application_start (transcript_of reports) = Some a \<and> eq_int j (int a)))))"
        by auto
      show ?thesis
      proof (intro conjI allI impI)
        show "writes_of es = []" using IH(1) eq es1 by simp
        fix found assume "x = Inr found"
        from IH(2)[OF this] obtain asked fails where f: "failed_probes uuid bin asked fails"
          "case found of
          None \<Rightarrow> asked = is \<and> es2 = fails
        | Some i \<Rightarrow> i \<in> set is \<and> (\<exists>reports ns. es2 = fails @ Ran (FtStatus (OnCan i uuid) bin) reports (Inr 0) # map Noted ns \<and>
            (\<not> force \<longrightarrow> ns = [] \<and> (\<exists>a. parse_application_start (transcript_of reports) = Some a \<and> eq_int j (int a))))"
          by blast
        show "\<exists>asked fails. failed_probes uuid bin asked fails \<and>
       (case found of
          None \<Rightarrow> asked = i # is \<and> es = fails
        | Some k \<Rightarrow> k \<in> set (i # is) \<and> (\<exists>reports ns. es = fails @ Ran (FtStatus (OnCan k uuid) bin) reports (Inr 0) # map Noted ns \<and>
            (\<not> force \<longrightarrow> ns = [] \<and> (\<exists>a. parse_application_start (transcript_of reports) = Some a \<and> eq_int j (int a)))))"
          using failed_probes_Cons[OF f(1) False, of i reports] f(2) eq(2) es1 Inr
          by (intro exI[of _ "i # asked"] exI[of _ "es1 @ fails"]) (auto split: option.splits)
      qed
    next
      case True
      let ?tr = "transcript_of reports"
      show ?thesis
      proof (cases "judge_offset j force (requested_bootloader ?tr) ?tr")
        case (Inl e)
        with Cons.prems c Inr True es1 show ?thesis by auto
      next
        case (Inr ms)
        from judge_offset_ok[OF Inr] obtain ns where ns: "ms = map Noted ns"
          "\<not> force \<longrightarrow> ms = [] \<and> (\<exists>a. parse_application_start ?tr = Some a \<and> eq_int j (int a))" by blast
        from Cons.prems c \<open>rr = Inr rc\<close> True Inr have "es = es1 @ ms" "x = Inr (Some i)" by auto
        with ns es1 \<open>rr = Inr rc\<close> True have e: "writes_of es = []" "x = Inr (Some i)"
          "es = [] @ Ran (FtStatus (OnCan i uuid) bin) reports (Inr 0) # map Noted ns"
          "\<not> force \<longrightarrow> ns = [] \<and> (\<exists>a. parse_application_start ?tr = Some a \<and> eq_int j (int a))"
          by auto
        have "failed_probes uuid bin [] []" by (simp add: failed_probes_def)
        with e show ?thesis by (auto simp del: append.simps) blast
      qed
    qed
  qed
qed

lemma can_write_shape:
  assumes "can_write ops p s tool bin uuid is w = (w', es, x)"
  shows "(fs_dry_run s \<longrightarrow> es = []) \<and> (\<forall>(t, rr) \<in> set (writes_of es). \<exists>i \<in> set is. t = OnCan i uuid) \<and>
    (\<not> fs_dry_run s \<and> is \<noteq> [] \<longrightarrow> (\<exists>reports rr es'. es = Ran (FtWrite (OnCan (hd is) uuid) bin) reports rr # es' \<and>
       (length is = 1 \<longrightarrow> es' = []))) \<and>
    (\<forall>c. \<not> fs_dry_run s \<and> x = Inr (Some c) \<longrightarrow> (\<exists>i pre. writes_of es = pre @ [(OnCan i uuid, Inr 0)] \<and>
       (\<forall>y \<in> set pre. snd y \<noteq> Inr 0)))"
  using assms
proof (induction "is" arbitrary: w es)
  case (Cons i "is")
  obtain w1 es1 reports rr where c: "run_cmd ops p s tool (fs_dry_run s) (FtWrite (OnCan i uuid) bin) w =
      (w1, es1, reports, rr)" by (metis surj_pair)
  note es1 = run_cmd_events[OF c]
  show ?case
  proof (cases "\<exists>rc. rr = Inr rc \<and> rc \<noteq> 0")
    case False
    with Cons.prems c es1 show ?thesis by (auto split: sum.splits if_splits)
  next
    case True
    obtain w2 es2 x2 where rec: "can_write ops p s tool bin uuid is w1 = (w2, es2, x2)" by (metis surj_pair)
    with Cons.prems c True have eq: "w' = w2" "es = es1 @ es2" "x = x2" by auto
    note IH = Cons.IH[of w1 es2, unfolded rec, simplified eq]
    have empty: "is = [] \<Longrightarrow> es2 = []" using rec by auto
    show ?thesis
    proof (cases "fs_dry_run s")
      case True
      with IH eq es1 show ?thesis by auto
    next
      case nd: False
      have ws: "writes_of es = (OnCan i uuid, rr) # writes_of es2" using eq es1 nd by simp
      have "\<exists>k pre. writes_of es = pre @ [(OnCan k uuid, Inr 0)] \<and> (\<forall>y \<in> set pre. snd y \<noteq> Inr 0)"
        if "x2 = Inr (Some y)" for y
      proof -
        from IH nd that eq obtain k pre where "writes_of es2 = pre @ [(OnCan k uuid, Inr 0)]"
          "\<forall>y \<in> set pre. snd y \<noteq> Inr 0" by auto
        with ws True show ?thesis by (intro exI[of _ k] exI[of _ "(OnCan i uuid, rr) # pre"]) auto
      qed
      with IH eq es1 nd ws empty show ?thesis by auto
    qed
  qed
qed auto

lemma can_find_interface_shape:
  assumes "can_find_interface ops p s tool bin uuid j force bridge interfaces w = (w1, es, x)"
  shows "writes_of es = [] \<and> (fs_dry_run s \<longrightarrow> es = []) \<and>
    (\<forall>i. x = Inr (Some i) \<longrightarrow> i \<in> set interfaces) \<and>
    (\<forall>found. x = Inr found \<and> \<not> fs_dry_run s \<and> bridge \<noteq> Some True \<and> j \<noteq> JNull \<longrightarrow>
      (\<exists>asked fails. failed_probes uuid bin asked fails \<and>
       (case found of
          None \<Rightarrow> bridge = None \<and> asked = interfaces \<and> es = fails
        | Some i \<Rightarrow> i \<in> set interfaces \<and> (\<exists>reports ns. es = fails @ Ran (FtStatus (OnCan i uuid) bin) reports (Inr 0) # map Noted ns \<and>
            (\<not> force \<longrightarrow> ns = [] \<and> (\<exists>a. parse_application_start (transcript_of reports) = Some a \<and> eq_int j (int a)))))))"
proof (cases "\<not> fs_dry_run s \<and> bridge \<noteq> Some True \<and> j \<noteq> JNull")
  case False
  with assms have "es = [] \<and> x = Inr None" by (auto simp: can_find_interface_def)
  with False show ?thesis by auto
next
  case True
  obtain w2 es2 y where c: "can_probe ops p s tool bin uuid j force interfaces w = (w2, es2, y)" by (metis surj_pair)
  with True assms have e: "es = es2" "x = (if y = Inr None \<and> bridge = Some False then Inl StatusFailedEverywhere else y)"
    by (auto simp: can_find_interface_def)
  note sh = can_probe_shape[OF c]
  show ?thesis
  proof (cases y)
    case (Inl err)
    with e sh True show ?thesis by auto
  next
    case (Inr found)
    obtain asked fails where f: "failed_probes uuid bin asked fails"
       "case found of
          None \<Rightarrow> asked = interfaces \<and> es2 = fails
        | Some i \<Rightarrow> i \<in> set interfaces \<and> (\<exists>reports ns. es2 = fails @ Ran (FtStatus (OnCan i uuid) bin) reports (Inr 0) # map Noted ns \<and>
            (\<not> force \<longrightarrow> ns = [] \<and> (\<exists>a. parse_application_start (transcript_of reports) = Some a \<and> eq_int j (int a))))"
      using sh[THEN conjunct2, rule_format, OF Inr] by (elim exE conjE) (rule that)
    show ?thesis
    proof (cases found)
      case None
      show ?thesis
      proof (cases bridge)
        case None': None
        with None e Inr have "x = Inr None" by simp
        with f None None' e(1) conjunct1[OF sh] True show ?thesis by simp
      next
        case (Some b)
        with True e Inr None have "x = Inl StatusFailedEverywhere" by simp
        with e(1) sh True show ?thesis by simp
      qed
    next
      case (Some i)
      with e Inr have "x = Inr (Some i)" by simp
      with f Some e(1) conjunct1[OF sh] True show ?thesis by simp blast
    qed
  qed
qed

lemma can_finish_shape:
  assumes "can_finish ops p s tool bin uuid side is w = (w', es, r)"
  shows "\<exists>w1 es1 chosen ns. can_write ops p s tool bin uuid is w = (w1, es1, chosen) \<and> es = es1 @ map Noted ns \<and>
    (is_ok r \<longrightarrow> (\<exists>c. chosen = Inr (Some c))) \<and> (fs_dry_run s \<longrightarrow> ns = [])"
proof -
  obtain w1 es1 chosen where c: "can_write ops p s tool bin uuid is w = (w1, es1, chosen)" by (metis surj_pair)
  show ?thesis
  proof (cases "\<exists>ms i tr. chosen = Inr (Some (i, tr)) \<and> \<not> fs_dry_run s \<and> report_offset_mismatch side tr = Inr ms")
    case True
    then obtain ms i tr where m: "chosen = Inr (Some (i, tr))" "\<not> fs_dry_run s" "report_offset_mismatch side tr = Inr ms"
      by blast
    from report_offset_notes[OF m(3)] obtain ns where "ms = map Noted ns" by blast
    with assms c m have "es = es1 @ map Noted ns" by (simp add: can_finish_def)
    with c m show ?thesis by blast
  next
    case False
    with assms c have "es = es1 @ map Noted [] \<and> (is_ok r \<longrightarrow> (\<exists>c. chosen = Inr (Some c)))"
      by (auto simp: can_finish_def split: sum.splits option.splits if_splits)
    with c show ?thesis by blast
  qed
qed

lemma flash_katapult_can_cases:
  assumes "flash_katapult_can ops p s mcu_type uuid fw_bin fw force bridge iface w = (w', es, r)"
  defines "bin \<equiv> case fw_bin of None \<Rightarrow> bin_file p mcu_type (fw_or_klipper fw) | Some b \<Rightarrow> b"
    and "side \<equiv> if fs_dry_run s then [] else side_or_empty ops p mcu_type (fw_or_klipper fw) w"
    and "interfaces \<equiv> case iface of Some i \<Rightarrow> [i] | None \<Rightarrow> fo_can_interfaces ops w"
  obtains (early) e where "es = []" "r = Inl e"
  | (refused) tool e where
      "can_find_interface ops p s tool bin uuid (jget side ''app_address'') force bridge interfaces w = (w', es, Inl e)"
      "r = Inl e"
  | (wrote) tool w1 es1 found es2 where
      "can_find_interface ops p s tool bin uuid (jget side ''app_address'') force bridge interfaces w = (w1, es1, Inr found)"
      "can_finish ops p s tool bin uuid side (case found of None \<Rightarrow> interfaces | Some i \<Rightarrow> [i]) w1 = (w', es2, r)"
      "es = es1 @ es2"
proof -
  note run = assms(1)[unfolded flash_katapult_can_def Let_def bin_def[symmetric] side_def[symmetric] interfaces_def[symmetric]]
  show thesis
  proof (cases "find_flashtool p s")
    case (Inl e)
    with run show thesis by (auto intro: early)
  next
    case tool: (Inr tool)
    show thesis
    proof (cases "fo_exists ops w tool \<and> fo_exists ops w bin \<and> interfaces \<noteq> []")
      case False
      with run tool show thesis by (auto split: if_splits intro: early)
    next
      case True
      obtain w1 es1 x where f: "can_find_interface ops p s tool bin uuid (jget side ''app_address'') force bridge interfaces w
          = (w1, es1, x)" by (metis surj_pair)
      show thesis
      proof (cases x)
        case (Inl e)
        with run tool True f show thesis by (intro refused[of tool e]) auto
      next
        case (Inr found)
        obtain w2 es2 r2 where g: "can_finish ops p s tool bin uuid side
            (case found of None \<Rightarrow> interfaces | Some i \<Rightarrow> [i]) w1 = (w2, es2, r2)" by (metis surj_pair)
        with run tool True f Inr show thesis by (intro wrote[of tool w1 es1 found es2]) auto
      qed
    qed
  qed
qed

text \<open>What a flash by CAN uuid writes. A dry run starts nothing, every write is addressed to this
  uuid on an interface it was told or found, and a flash that reports success ended with a write
  that exited with 0 and was the first to do so. Unless the board is known to be a bridge, with a
  recorded address and no override, a write is preceded only by status checks: either some
  interface answered and printed exactly the recorded address, and the one write goes to that
  interface right after, or - only when it is not known whether the board is a bridge - every
  interface was asked first and none answered. A known native node is never written unchecked.\<close>

theorem can_write_guarded:
  assumes "flash_katapult_can ops p s mcu_type uuid fw_bin fw force bridge iface w = (w', es, r)"
    and "bin = (case fw_bin of None \<Rightarrow> bin_file p mcu_type (fw_or_klipper fw) | Some b \<Rightarrow> b)"
    and "j = jget (side_or_empty ops p mcu_type (fw_or_klipper fw) w) ''app_address''"
    and "interfaces = (case iface of Some i \<Rightarrow> [i] | None \<Rightarrow> fo_can_interfaces ops w)"
  shows "(fs_dry_run s \<longrightarrow> es = []) \<and>
    (\<forall>(t, rr) \<in> set (writes_of es). \<exists>i \<in> set interfaces. t = OnCan i uuid) \<and>
    (\<not> fs_dry_run s \<and> is_ok r \<longrightarrow> (\<exists>i pre. writes_of es = pre @ [(OnCan i uuid, Inr 0)] \<and> (\<forall>y \<in> set pre. snd y \<noteq> Inr 0))) \<and>
    (bridge \<noteq> Some True \<and> j \<noteq> JNull \<and> \<not> force \<and> writes_of es \<noteq> [] \<longrightarrow>
      (\<exists>asked fails. failed_probes uuid bin asked fails \<and>
        ((\<exists>i reports a wr rr ns. es = fails @ [Ran (FtStatus (OnCan i uuid) bin) reports (Inr 0),
             Ran (FtWrite (OnCan i uuid) bin) wr rr] @ map Noted ns \<and>
           parse_application_start (transcript_of reports) = Some a \<and> eq_int j (int a)) \<or>
         bridge = None \<and> asked = interfaces \<and> (\<exists>es'. es = fails @ es'))))"
proof -
  let ?side = "if fs_dry_run s then [] else side_or_empty ops p mcu_type (fw_or_klipper fw) w"
  let ?j = "jget ?side ''app_address''"
  from assms(1) show ?thesis
  proof (cases rule: flash_katapult_can_cases)
    case (early e)
    then show ?thesis by simp
  next
    case (refused tool e)
    from can_find_interface_shape[OF refused(1)] refused(2) show ?thesis by simp
  next
    case (wrote tool w1 es1 found es2)
    note wr = wrote(2)[folded assms(2,4)] and fi = can_find_interface_shape[OF wrote(1), folded assms(2,4)]
    let ?tries = "case found of None \<Rightarrow> interfaces | Some i \<Rightarrow> [i]"
    from wr obtain w2 es3 chosen ns where cw: "can_write ops p s tool bin uuid ?tries w1 = (w2, es3, chosen)"
      and es: "es = es1 @ es3 @ map Noted ns" and ok: "is_ok r \<longrightarrow> (\<exists>c. chosen = Inr (Some c))"
      and nd: "fs_dry_run s \<longrightarrow> ns = []"
      using can_finish_shape[OF wr] wrote(3) by blast
    note ws = can_write_shape[OF cw]
    have wes: "writes_of es = writes_of es3" using es fi by simp
    have "set ?tries \<subseteq> set interfaces" using fi by (auto split: option.splits)
    with ws have a: "\<forall>(t, rr) \<in> set (writes_of es). \<exists>i \<in> set interfaces. t = OnCan i uuid" unfolding wes by blast
    have b: "fs_dry_run s \<longrightarrow> es = []" using fi ws nd es by auto
    have c: "\<not> fs_dry_run s \<and> is_ok r \<longrightarrow> (\<exists>i pre. writes_of es = pre @ [(OnCan i uuid, Inr 0)] \<and>
        (\<forall>y \<in> set pre. snd y \<noteq> Inr 0))" using ws ok unfolding wes by blast
    have "\<exists>asked fails. failed_probes uuid bin asked fails \<and>
        ((\<exists>i reports a wr rr ns. es = fails @ [Ran (FtStatus (OnCan i uuid) bin) reports (Inr 0),
             Ran (FtWrite (OnCan i uuid) bin) wr rr] @ map Noted ns \<and>
           parse_application_start (transcript_of reports) = Some a \<and> eq_int j (int a)) \<or>
         bridge = None \<and> asked = interfaces \<and> (\<exists>es'. es = fails @ es'))"
      if h: "bridge \<noteq> Some True \<and> j \<noteq> JNull \<and> \<not> force \<and> writes_of es \<noteq> []"
    proof -
      from h b have dry: "\<not> fs_dry_run s" by auto
      with assms(3) have j: "?j = j" by simp
      have hs: "Inr found = Inr found \<and> \<not> fs_dry_run s \<and> bridge \<noteq> Some True \<and> j \<noteq> JNull" using h dry by simp
      obtain asked fails where f: "failed_probes uuid bin asked fails"
        "case found of
          None \<Rightarrow> bridge = None \<and> asked = interfaces \<and> es1 = fails
        | Some i \<Rightarrow> i \<in> set interfaces \<and> (\<exists>reports ns. es1 = fails @ Ran (FtStatus (OnCan i uuid) bin) reports (Inr 0) # map Noted ns \<and>
            (\<not> force \<longrightarrow> ns = [] \<and> (\<exists>a. parse_application_start (transcript_of reports) = Some a \<and> eq_int j (int a))))"
        using fi[unfolded j, THEN conjunct2, THEN conjunct2, THEN conjunct2, rule_format, OF hs]
        by (elim exE conjE) (rule that)
      show ?thesis
      proof (cases found)
        case None
        with f es show ?thesis by auto
      next
        case (Some i)
        with f(2) h obtain reports a where e1: "es1 = fails @ [Ran (FtStatus (OnCan i uuid) bin) reports (Inr 0)]"
          "parse_application_start (transcript_of reports) = Some a" "eq_int j (int a)" by auto
        from ws Some dry obtain wrep rr where "es3 = [Ran (FtWrite (OnCan i uuid) bin) wrep rr]" by auto
        with e1 es have "es = fails @ [Ran (FtStatus (OnCan i uuid) bin) reports (Inr 0),
             Ran (FtWrite (OnCan i uuid) bin) wrep rr] @ map Noted ns" by simp
        with f(1) e1(2,3) show ?thesis by blast
      qed
    qed
    with a b c show ?thesis by (intro conjI) (assumption | rule impI, assumption)+
  qed
qed

definition demo_line :: "string \<Rightarrow> string" where
  "demo_line c = join '' '' (map shlex_quote [''p'', ''f'', ''-i'', c, ''-u'', ''u'', ''-f'', ''i'', ''-s''])"

lemma demo_can_status: "run_cmd demo_flash_ops p demo_flash_settings ''f'' False (FtStatus (OnCan c ''u'') ''i'') w =
    (1, [Ran (FtStatus (OnCan c ''u'') ''i'') (demo_reports (demo_line c)) (if c = ''can0'' then Inr 1 else Inr 0)],
     demo_reports (demo_line c),
     if c = ''can0'' then Inr 1 else Inr 0)"
proof -
  have "classify_output ''Requesting U bootloader'' = ''stdout''" "classify_output ''Application Start: 0x2'' = ''stdout''"
    by code_simp+
  then show ?thesis
    by (auto simp: run_cmd_def run_streamed_def demo_flash_ops_def demo_flash_settings_def demo_reports_def demo_line_def)
qed

lemma demo_can_write: "run_cmd demo_flash_ops p demo_flash_settings ''f'' False (FtWrite (OnCan ''can1'' ''u'') ''i'') w =
    (1, [Ran (FtWrite (OnCan ''can1'' ''u'') ''i'') (demo_reports ''p f -i can1 -u u -f i'') (Inr 0)],
     demo_reports ''p f -i can1 -u u -f i'', Inr 0)"
proof -
  have "classify_output ''Requesting U bootloader'' = ''stdout''" "classify_output ''Application Start: 0x2'' = ''stdout''"
    by code_simp+
  moreover have "join '' '' (map shlex_quote [''p'', ''f'', ''-i'', ''can1'', ''-u'', ''u'', ''-f'', ''i'']) = ''p f -i can1 -u u -f i''"
    by code_simp
  ultimately show ?thesis
    by (auto simp: run_cmd_def run_streamed_def demo_flash_ops_def demo_flash_settings_def demo_reports_def)
qed

lemma demo_can_said:
  "parse_application_start (transcript_of (demo_reports (demo_line ''can1''))) = Some 2"
  "parse_application_start (transcript_of (demo_reports ''p f -i can1 -u u -f i'')) = Some 2"
  by code_simp+

lemma demo_run_can:
  "\<exists>es. flash_katapult_can demo_flash_ops demo_paths demo_flash_settings ''t'' ''u'' (Some ''i'') None False (Some False) None 0
     = (1, es, Inr ''canbus_uuid'') \<and> writes_of es = [(OnCan ''can1'' ''u'', Inr 0)]"
proof -
  have ifs: "fo_can_interfaces demo_flash_ops 0 = [''can0'', ''can1'']" by (simp add: demo_flash_ops_def)
  have "can_find_interface demo_flash_ops demo_paths demo_flash_settings ''f'' ''i'' ''u'' (JInt 2) False (Some False)
      [''can0'', ''can1''] 0 = (1, [Ran (FtStatus (OnCan ''can0'' ''u'') ''i'') (demo_reports (demo_line ''can0'')) (Inr 1),
        Ran (FtStatus (OnCan ''can1'' ''u'') ''i'') (demo_reports (demo_line ''can1'')) (Inr 0)], Inr (Some ''can1''))"
    by (simp add: can_find_interface_def demo_settings_simps demo_can_status judge_offset_def demo_can_said)
  moreover have "can_finish demo_flash_ops demo_paths demo_flash_settings ''f'' ''i'' ''u'' [(''app_address'', JInt 2)] [''can1''] 1
      = (1, [Ran (FtWrite (OnCan ''can1'' ''u'') ''i'') (demo_reports ''p f -i can1 -u u -f i'') (Inr 0)], Inr ''canbus_uuid'')"
    by (simp add: can_finish_def demo_settings_simps demo_can_write[simplified] report_offset_mismatch_def demo_can_said)
  ultimately show ?thesis
    by (simp add: flash_katapult_can_def demo_settings_simps ifs Let_def)
qed

theorem can_write_guarded_witness:
  "\<exists>w' es r reports. flash_katapult_can demo_flash_ops demo_paths demo_flash_settings ''t'' ''u'' (Some ''i'') None False
       (Some False) None 0 = (w', es, r) \<and> writes_of es = [(OnCan ''can1'' ''u'', Inr 0)] \<and>
     Ran (FtStatus (OnCan ''can1'' ''u'') ''i'') reports (Inr 0) \<in> set es \<and>
     parse_application_start (transcript_of reports) = Some 2"
proof -
  let ?run = "flash_katapult_can demo_flash_ops demo_paths demo_flash_settings ''t'' ''u'' (Some ''i'') None False
       (Some False) None 0"
  obtain w' es r where run: "?run = (w', es, r)" and ws: "writes_of es = [(OnCan ''can1'' ''u'', Inr 0)]"
    using demo_run_can by blast
  have j: "JInt 2 = jget (side_or_empty demo_flash_ops demo_paths ''t'' (fw_or_klipper None) 0) ''app_address''"
    by (simp add: demo_settings_simps)
  have ne: "Some False \<noteq> Some True \<and> JInt 2 \<noteq> JNull \<and> \<not> False \<and> writes_of es \<noteq> []" using ws by simp
  from can_write_guarded[OF run refl j refl, THEN conjunct2, THEN conjunct2, THEN conjunct2, THEN mp, OF ne]
  obtain asked fails i reports a wr rr ns where f: "failed_probes ''u'' ''i'' asked fails"
    and g: "es = fails @ [Ran (FtStatus (OnCan i ''u'') ''i'') reports (Inr 0),
             Ran (FtWrite (OnCan i ''u'') ''i'') wr rr] @ map Noted ns"
      "parse_application_start (transcript_of reports) = Some a" "eq_int (JInt 2) (int a)"
    by (auto simp only: option.case option.distinct option.inject)
  from g(1) ws failed_probes_writes[OF f] have i: "i = ''can1''" by simp
  from g(3) have "a = 2" by simp
  with run ws g(1,2) i show ?thesis by auto
qed

end
