(* ===== verification/BootselBus.thy ===== *)
theory BootselBus
  imports Discovery Locations Polling
begin

section \<open>RP2040 boards in BOOTSEL (discovery/bootsel.py)\<close>

text \<open>
  A board in BOOTSEL is a mounted volume and a block device; neither has an identity the write could
  be aimed with, only the USB port the mount point names. Globbing, directory entries and the mount
  table are arguments; what is made of the names is modelled, regular expressions included.
\<close>

definition BOOTSEL_VOLUME_NAME :: string where "BOOTSEL_VOLUME_NAME = ''RPI-RP2''"
definition BOOTSEL_MARKER :: string where "BOOTSEL_MARKER = ''INFO_UF2.TXT''"
definition BOOTSEL_UNKNOWN_PATH_LEAF :: string where "BOOTSEL_UNKNOWN_PATH_LEAF = ''unknown''"
definition BOOTSEL_MOUNT_TIMEOUT :: rat where "BOOTSEL_MOUNT_TIMEOUT = 15"
definition BOOTSEL_MOUNT_POLL :: rat where "BOOTSEL_MOUNT_POLL = 1 / 4"

definition basename :: "string \<Rightarrow> string" where
  "basename p = rev (takeWhile (\<lambda>c. c \<noteq> CHR ''/'') (rev p))"

definition is_digit :: "char \<Rightarrow> bool" where
  "is_digit c = (let n = code c in 48 \<le> n \<and> n \<le> 57)"

subsection \<open>From a serial port to a USB port\<close>

text \<open>\<open>re.sub("-usbv2-", "-usb-", s)\<close>.\<close>

fun usb_alias :: "string \<Rightarrow> string" where
  "usb_alias [] = []"
| "usb_alias (c # s) =
     (if starts_with ''-usbv2-'' (c # s) then ''-usb-'' @ usb_alias (drop 7 (c # s)) else c # usb_alias s)"

text \<open>An interface \<open>:1.0\<close>, with an optional \<open>-port0\<close>, at the very end (or before a final line feed, as
  \<open>$\<close> allows): it starts at the last colon, or nowhere.\<close>

definition digits_then :: "string \<Rightarrow> (string \<Rightarrow> bool) \<Rightarrow> bool" where
  "digits_then s k = (let ds = takeWhile is_digit s in ds \<noteq> [] \<and> k (drop (length ds) s))"

definition at_end :: "string \<Rightarrow> bool" where
  "at_end s = (s = [] \<or> s = [CHR 0x0A])"

definition interface_tail :: "string \<Rightarrow> bool" where
  "interface_tail s =
     digits_then s (\<lambda>r. starts_with ''.'' r \<and>
       digits_then (tl r) (\<lambda>q. at_end q \<or> starts_with ''-port'' q \<and> digits_then (drop 5 q) at_end))"

fun strip_interface :: "string \<Rightarrow> string option" where
  "strip_interface [] = None"
| "strip_interface (c # s) =
     (if c = CHR '':'' \<and> interface_tail s then Some [] else map_option ((#) c) (strip_interface s))"

definition normalize_serial_topology :: "string \<Rightarrow> py_error + string" where
  "normalize_serial_topology name =
     (case strip_interface (usb_alias (basename name)) of None \<Rightarrow> Inl ValueError | Some t \<Rightarrow> Inr t)"

datatype bootsel_error =
    NoByPath string
  | BadTopology string
  | NoTopology string
  | AmbiguousTopology "string list"
  | AmbiguousMounts "string list"
  | NoMatchingMount string "string list" "string list"   \<comment> \<open>topology, legacy and unknown mounts\<close>
  | BootselNotMounted "string list"
  | NoBootselDevice
  | SeveralMounts "string list"

text \<open>\<open>entries\<close> is the listing of the by-path directory (None: unreadable), \<open>same\<close> whether an entry is
  the port.\<close>

fun matched_topologies :: "(string \<Rightarrow> bool) \<Rightarrow> string list \<Rightarrow> bootsel_error + string list" where
  "matched_topologies same [] = Inr []"
| "matched_topologies same (name # names) =
     (if \<not> same name then matched_topologies same names
      else case normalize_serial_topology name of
        Inl e \<Rightarrow> Inl (BadTopology name)
      | Inr t \<Rightarrow> map_sum id ((#) t) (matched_topologies same names))"

definition serial_topology_for :: "string list option \<Rightarrow> (string \<Rightarrow> bool) \<Rightarrow> string \<Rightarrow> bootsel_error + string" where
  "serial_topology_for entries same port =
     (case entries of
        None \<Rightarrow> Inl (NoByPath port)
      | Some names \<Rightarrow>
          and_then (matched_topologies same (sort names)) (\<lambda>matched.
            case sort (remdups matched) of
              [] \<Rightarrow> Inl (NoTopology port)
            | [t] \<Rightarrow> Inr t
            | ts \<Rightarrow> Inl (AmbiguousTopology ts)))"

subsection \<open>From a USB port to a volume\<close>

definition tag_safe :: "char \<Rightarrow> bool" where
  "tag_safe c =
     (let n = code c in
      48 \<le> n \<and> n \<le> 57 \<or> 65 \<le> n \<and> n \<le> 90 \<or> 97 \<le> n \<and> n \<le> 122 \<or> c = CHR ''_'' \<or> c = CHR ''-'')"

fun ends_with_interface_port :: "string \<Rightarrow> bool" where
  "ends_with_interface_port [] = False"
| "ends_with_interface_port (c # s) =
     (starts_with '':1.0-port'' (c # s) \<and> digits_then (drop 9 (c # s)) at_end \<or> ends_with_interface_port s)"

definition topology_tag_prefix :: "string \<Rightarrow> py_error + string" where
  "topology_tag_prefix topology =
     (let parent = usb_alias (basename topology) in
      and_then (if ends_with '':1.0'' parent \<or> ends_with_interface_port parent
                then normalize_serial_topology parent else Inr parent) (\<lambda>p.
        Inr (map (\<lambda>c. if tag_safe c then c else CHR ''_'') p)))"

text \<open>What must follow the port in a volume's tag: one interface and the SCSI suffix. \<open>.\<close> is any
  character but a line feed.\<close>

definition scsi_tail :: "string \<Rightarrow> bool" where
  "scsi_tail s =
     (starts_with ''_'' s \<and> digits_then (tl s) (\<lambda>r. starts_with ''_'' r \<and> digits_then (tl r) (\<lambda>q.
        starts_with ''-scsi'' q \<and>
        (let z = drop 5 q in
         z = [] \<or> (hd z = CHR ''-'' \<or> hd z = CHR ''_'') \<and> CHR 0x0A \<notin> set (tl z)))))"

definition tag_matches :: "string \<Rightarrow> string \<Rightarrow> bool" where
  "tag_matches prefix tag = (starts_with prefix tag \<and> scsi_tail (drop (length prefix) tag))"

definition mount_matches_topology :: "string \<Rightarrow> string \<Rightarrow> py_error + bool" where
  "mount_matches_topology mount topology =
     and_then (topology_tag_prefix topology) (\<lambda>prefix. Inr (tag_matches prefix (usb_alias (basename mount))))"

text \<open>The prefix is computed once per mount and depends on the topology alone, so with no mount it is
  not computed at all.\<close>

fun mounts_matching :: "string \<Rightarrow> string list \<Rightarrow> py_error + string list" where
  "mounts_matching topology [] = Inr []"
| "mounts_matching topology (m # ms) =
     and_then (mount_matches_topology m topology) (\<lambda>yes.
       and_then (mounts_matching topology ms) (\<lambda>rest. Inr (if yes then m # rest else rest)))"

definition unmatchable :: "string list \<Rightarrow> string list \<times> string list" where
  "unmatchable mounts =
     (filter (\<lambda>m. basename m = BOOTSEL_VOLUME_NAME) mounts,
      filter (\<lambda>m. basename m = BOOTSEL_UNKNOWN_PATH_LEAF) mounts)"

definition no_match_error :: "string \<Rightarrow> string list \<Rightarrow> bootsel_error" where
  "no_match_error topology mounts =
     (let (legacy, unknown) = unmatchable mounts in NoMatchingMount topology legacy unknown)"

record 'w bootsel_ops =
  bo_scan :: "'w \<Rightarrow> 'w \<times> string list"      \<comment> \<open>\<open>bootsel_scan\<close>: the marker-bearing volumes\<close>
  bo_devices :: "'w \<Rightarrow> string list"
  bo_time :: "'w \<Rightarrow> rat"
  bo_sleep :: "rat \<Rightarrow> 'w \<Rightarrow> 'w"

datatype mount_problem = MountError bootsel_error | MountRaised py_error

partial_function (option) mount_for_topology ::
  "'w bootsel_ops \<Rightarrow> string \<Rightarrow> rat \<Rightarrow> rat \<Rightarrow> 'w \<Rightarrow> ('w \<times> (mount_problem + string)) option" where
  "mount_for_topology ops topology deadline poll w =
     (let (w1, mounts) = bo_scan ops w in
      case mounts_matching topology mounts of
        Inl e \<Rightarrow> Some (w1, Inl (MountRaised e))
      | Inr matches \<Rightarrow>
          (if length matches = 1 then Some (w1, Inr (hd matches))
           else if length matches > 1 then Some (w1, Inl (MountError (AmbiguousMounts matches)))
           else if bo_time ops w1 \<ge> deadline then Some (w1, Inl (MountError (no_match_error topology mounts)))
           else mount_for_topology ops topology deadline poll (bo_sleep ops poll w1)))"

text \<open>\<open>bootsel_scan\<close>: \<open>isfile\<close> and the glob of the by-path directory are arguments.\<close>

definition bootsel_scan ::
  "(string \<Rightarrow> bool) \<Rightarrow> (string \<Rightarrow> string list) \<Rightarrow> paths \<Rightarrow> string list \<Rightarrow> string list" where
  "bootsel_scan isfile glob p automount_roots =
     (let roots = (if p_bootsel_root p \<noteq> [] then [p_bootsel_root p] else automount_roots) in
      filter (\<lambda>candidate. isfile (path_join candidate BOOTSEL_MARKER))
        (concat (map (\<lambda>root. path_join root BOOTSEL_VOLUME_NAME #
           sort (glob (path_join (path_join (path_join root ''BOOTSEL'') ''by-path'') ''*''))) (sort roots))))"

text \<open>The serial in a block device's name: the first place where the prefix is followed by hexadecimal
  digits and a hyphen.\<close>

fun bootsel_id_for :: "string \<Rightarrow> string option" where
  "bootsel_id_for [] = None"
| "bootsel_id_for (c # s) =
     (let r = drop (length ''usb-RPI_RP2_'') (c # s); ds = takeWhile (\<lambda>x. hex_digit x \<noteq> None) r in
      if starts_with ''usb-RPI_RP2_'' (c # s) \<and> ds \<noteq> [] \<and> starts_with ''-'' (drop (length ds) r)
      then Some ds else bootsel_id_for s)"

definition find_mount :: "string list \<Rightarrow> string list \<Rightarrow> bootsel_error + string" where
  "find_mount mounts devices =
     (case mounts of
        [] \<Rightarrow> if devices \<noteq> [] then Inl (BootselNotMounted devices) else Inl NoBootselDevice
      | [m] \<Rightarrow> Inr m
      | _ \<Rightarrow> Inl (SeveralMounts mounts))"

subsection \<open>A volume answers to one port\<close>

lemma takeWhile_split:
  assumes "a @ x = b @ y" "\<forall>c \<in> set a. P c" "\<forall>c \<in> set b. P c"
    "x = [] \<or> \<not> P (hd x)" "y = [] \<or> \<not> P (hd y)"
  shows "a = b \<and> x = y"
proof -
  have "takeWhile P (a @ x) = a" using assms(2,4) by (cases x) (auto simp: takeWhile_append2)
  moreover have "takeWhile P (b @ y) = b" using assms(3,5) by (cases y) (auto simp: takeWhile_append2)
  ultimately show ?thesis using assms(1) by simp
qed

definition scsi :: string where "scsi = ''-scsi''"

text \<open>In a tag that matches, everything before the first \<open>-scsi\<close> is the prefix and two numbers.\<close>

lemma scsi_tail_shape:
  assumes "scsi_tail s"
  obtains a b z where "s = ''_'' @ a @ ''_'' @ b @ ''-scsi'' @ z" "a \<noteq> []" "b \<noteq> []"
    "\<forall>c \<in> set a. is_digit c" "\<forall>c \<in> set b. is_digit c"
proof -
  from assms obtain r where s: "s = ''_'' @ r" by (auto simp: scsi_tail_def starts_with_iff)
  let ?a = "takeWhile is_digit r"
  from assms s have a: "?a \<noteq> []" and
    r: "starts_with ''_'' (drop (length ?a) r)" and
    q: "digits_then (tl (drop (length ?a) r)) (\<lambda>q. starts_with ''-scsi'' q \<and>
        (let z = drop 5 q in z = [] \<or> (hd z = CHR ''-'' \<or> hd z = CHR ''_'') \<and> CHR 0x0A \<notin> set (tl z)))"
    by (auto simp: scsi_tail_def digits_then_def Let_def)
  from r obtain u where u: "drop (length ?a) r = ''_'' @ u" by (auto simp: starts_with_iff)
  let ?b = "takeWhile is_digit u"
  from q u have b: "?b \<noteq> []" and "starts_with ''-scsi'' (drop (length ?b) u)"
    by (auto simp: digits_then_def Let_def)
  then obtain z where z: "drop (length ?b) u = ''-scsi'' @ z" by (auto simp: starts_with_iff)
  have split: "takeWhile is_digit x @ drop (length (takeWhile is_digit x)) x = x" for x
    by (metis takeWhile_dropWhile_id dropWhile_eq_drop)
  have "r = ?a @ ''_'' @ u" using split[of r] u by simp
  moreover have "u = ?b @ ''-scsi'' @ z" using split[of u] z by simp
  ultimately have "s = ''_'' @ ?a @ ''_'' @ ?b @ ''-scsi'' @ z" using s by (metis append.assoc)
  then show thesis using that[of ?a ?b z] a b set_takeWhileD by metis
qed

lemma scsi_not_earlier:
  assumes "\<not> contains ''-scsi'' p" "\<forall>c \<in> set m. is_digit c \<or> c = CHR ''_''" "m \<noteq> []" "hd m = CHR ''_''"
  shows "partition_str ''-scsi'' (p @ m @ ''-scsi'' @ z) = (p @ m, True, z)"
  using assms(1)
proof (induction p)
  case Nil
  have "partition_str ''-scsi'' (m @ ''-scsi'' @ z) = (m, True, z)"
    using assms(2) by (induction m) (auto simp: starts_with_def is_digit_def)
  then show ?case by simp
next
  case (Cons c p)
  have "\<not> starts_with ''-scsi'' (c # p @ m @ ''-scsi'' @ z)"
  proof
    assume a: "starts_with ''-scsi'' (c # p @ m @ ''-scsi'' @ z)"
    have five: "length ''-scsi'' = (5 :: nat)" by simp
    have a5: "take 5 (c # p @ m @ ''-scsi'' @ z) = ''-scsi''" using a unfolding starts_with_def five .
    show False
    proof (cases "length p \<ge> 4")
      case True
      then have t: "take 5 (c # p @ m @ ''-scsi'' @ z) = take 5 (c # p)" by simp
      from a5 have "starts_with ''-scsi'' (c # p)" unfolding t starts_with_def five .
      with Cons.prems show False by simp
    next
      case False
      obtain m' where m: "m = CHR ''_'' # m'" using assms(3,4) by (cases m) auto
      have "CHR ''_'' \<in> set (take 5 (c # p @ m @ ''-scsi'' @ z))"
        using False by (auto simp: m take_Cons')
      then show False unfolding a5 by simp
    qed
  qed
  with Cons show ?case by simp
qed

lemma tag_matches_unique:
  assumes "tag_matches p tag" "tag_matches p' tag" "\<not> contains ''-scsi'' p" "\<not> contains ''-scsi'' p'"
  shows "p = p'"
proof -
  have shape: "\<exists>a b z. q @ ''_'' @ a @ ''_'' @ b @ ''-scsi'' @ z = tag \<and> (\<forall>c \<in> set a. is_digit c) \<and>
      (\<forall>c \<in> set b. is_digit c) \<and> partition_str ''-scsi'' tag = (q @ ''_'' @ a @ ''_'' @ b, True, z)"
    if "tag_matches q tag" "\<not> contains ''-scsi'' q" for q
  proof -
    from that(1) obtain s where s: "tag = q @ s" "scsi_tail s" by (auto simp: tag_matches_def starts_with_iff)
    obtain a b z where e: "s = ''_'' @ a @ ''_'' @ b @ ''-scsi'' @ z"
      "\<forall>c \<in> set a. is_digit c" "\<forall>c \<in> set b. is_digit c" by (rule scsi_tail_shape[OF s(2)])
    have "partition_str ''-scsi'' (q @ (''_'' @ a @ ''_'' @ b) @ ''-scsi'' @ z) = (q @ ''_'' @ a @ ''_'' @ b, True, z)"
      using scsi_not_earlier[OF that(2), of "''_'' @ a @ ''_'' @ b" z] e(2,3) by auto
    with s e show ?thesis by auto
  qed
  from shape[OF assms(1,3)] obtain a b z where
    1: "\<forall>c \<in> set a. is_digit c" "\<forall>c \<in> set b. is_digit c"
      "partition_str ''-scsi'' tag = (p @ ''_'' @ a @ ''_'' @ b, True, z)" by blast
  from shape[OF assms(2,4)] obtain a' b' z' where
    2: "\<forall>c \<in> set a'. is_digit c" "\<forall>c \<in> set b'. is_digit c"
      "partition_str ''-scsi'' tag = (p' @ ''_'' @ a' @ ''_'' @ b', True, z')" by blast
  have nd: "\<not> is_digit CHR ''_''" by (simp add: is_digit_def)
  from 1(3) 2(3) have "p @ ''_'' @ a @ ''_'' @ b = p' @ ''_'' @ a' @ ''_'' @ b'" by simp
  then have "rev (p @ ''_'' @ a @ ''_'' @ b) = rev (p' @ ''_'' @ a' @ ''_'' @ b')" by (simp only:)
  then have "rev b @ ''_'' @ rev a @ ''_'' @ rev p = rev b' @ ''_'' @ rev a' @ ''_'' @ rev p'"
    by simp
  from takeWhile_split[OF this, of is_digit] 1 2 nd
  have "''_'' @ rev a @ ''_'' @ rev p = ''_'' @ rev a' @ ''_'' @ rev p'" by auto
  then have "rev a @ ''_'' @ rev p = rev a' @ ''_'' @ rev p'" by simp
  from takeWhile_split[OF this, of is_digit] 1 2 nd show ?thesis by auto
qed

lemma mounts_matching_Inr:
  "mounts_matching t ms = Inr xs \<Longrightarrow> xs = filter (\<lambda>m. mount_matches_topology m t = Inr True) ms"
  by (induction ms arbitrary: xs) auto

lemma mount_for_topology_found:
  assumes "mount_for_topology ops t deadline poll w = Some (w', Inr m)"
  shows "\<exists>w1. filter (\<lambda>x. mount_matches_topology x t = Inr True) (snd (bo_scan ops w1)) = [m]"
proof -
  let ?P = "\<lambda>(ops :: 'a bootsel_ops) t (deadline :: rat) (poll :: rat) (w :: 'a) (y :: 'a \<times> (mount_problem + string)). \<forall>m. snd y = Inr m \<longrightarrow>
    (\<exists>w1. filter (\<lambda>x. mount_matches_topology x t = Inr True) (snd (bo_scan ops w1)) = [m])"
  have "?P ops t deadline poll w (w', Inr m)"
  proof (rule mount_for_topology.raw_induct[where P = ?P, OF _ assms])
    fix again and ops :: "'a bootsel_ops" and t deadline poll and w :: 'a and y
    assume IH: "\<And>ops t deadline poll w y. again ops t deadline poll w = Some y \<Longrightarrow> ?P ops t deadline poll w y"
      and body: "(let (w1, mounts) = bo_scan ops w in
      case mounts_matching t mounts of
        Inl e \<Rightarrow> Some (w1, Inl (MountRaised e))
      | Inr matches \<Rightarrow>
          (if length matches = 1 then Some (w1, Inr (hd matches))
           else if length matches > 1 then Some (w1, Inl (MountError (AmbiguousMounts matches)))
           else if bo_time ops w1 \<ge> deadline then Some (w1, Inl (MountError (no_match_error t mounts)))
           else again ops t deadline poll (bo_sleep ops poll w1))) = Some y"
    let ?ms = "snd (bo_scan ops w)"
    show "?P ops t deadline poll w y"
    proof (cases "\<exists>x. mounts_matching t ?ms = Inr [x]")
      case True
      then obtain x where x: "mounts_matching t ?ms = Inr [x]" by blast
      with body have "snd y = Inr x" by (auto simp: Let_def split_beta)
      with mounts_matching_Inr[OF x] show ?thesis by auto
    next
      case False
      then have "\<And>xs. mounts_matching t ?ms = Inr xs \<Longrightarrow> length xs \<noteq> 1" by (auto simp: length_Suc_conv)
      with body have "(\<exists>e. snd y = Inl e) \<or>
          again ops t deadline poll (bo_sleep ops poll (fst (bo_scan ops w))) = Some y"
        by (auto simp: Let_def split_beta split: sum.splits if_splits)
      then show ?thesis using IH by fastforce
    qed
  qed
  then show ?thesis by simp
qed

definition bootsel_clock_runs :: "'w bootsel_ops \<Rightarrow> rat \<Rightarrow> bool" where
  "bootsel_clock_runs ops poll = (\<forall>w. bo_time ops (bo_sleep ops poll w) \<ge> bo_time ops w + poll \<and>
     bo_time ops (fst (bo_scan ops w)) \<ge> bo_time ops w)"

lemma mount_for_topology_returns:
  assumes "bootsel_clock_runs ops poll" "poll > 0"
  shows "\<exists>r. mount_for_topology ops topology deadline poll w = Some r"
proof (rule polling_returns[where clock = "bo_time ops" and step = poll and deadline = deadline])
  fix w
  let ?f = "mount_for_topology ops topology deadline poll" and ?w1 = "fst (bo_scan ops w)"
  have "bo_time ops ?w1 \<ge> bo_time ops w" "bo_time ops (bo_sleep ops poll ?w1) \<ge> bo_time ops ?w1 + poll"
    using assms by (simp_all add: bootsel_clock_runs_def)
  then show "(\<exists>r. ?f w = Some r) \<or>
      (\<exists>w'. ?f w = ?f w' \<and> bo_time ops w < deadline \<and> bo_time ops w' \<ge> bo_time ops w + poll)"
    by (subst (1 2) mount_for_topology.simps)
      (auto simp: Let_def split_beta split: sum.splits intro!: exI[of _ "bo_sleep ops poll ?w1"])
qed (rule assms)

text \<open>A write asked for at a USB port goes to that port's volume. When the wait for a volume answers,
  some scan listed exactly one volume whose mount point carries the port, and it is that one; and a
  volume answers to one port only: any other port it matches has the same tag, so a board deeper in
  the same hub, or on another controller, is never taken for it. (A tag is the port's name with
  every other character replaced, which is as much as udev keeps of it.)\<close>

theorem mount_for_topology_aimed:
  assumes "mount_for_topology ops topology deadline poll w = Some (w', Inr m)"
  shows "(\<exists>w1. m \<in> set (snd (bo_scan ops w1)) \<and>
      (\<forall>m' \<in> set (snd (bo_scan ops w1)). mount_matches_topology m' topology = Inr True \<longrightarrow> m' = m)) \<and>
    mount_matches_topology m topology = Inr True \<and>
    (\<forall>other tag tag'. mount_matches_topology m other = Inr True \<and> topology_tag_prefix topology = Inr tag \<and>
       topology_tag_prefix other = Inr tag' \<and> \<not> contains ''-scsi'' tag \<and> \<not> contains ''-scsi'' tag' \<longrightarrow> tag' = tag)"
proof (intro conjI allI impI)
  from mount_for_topology_found[OF assms] obtain w1
    where f: "filter (\<lambda>x. mount_matches_topology x topology = Inr True) (snd (bo_scan ops w1)) = [m]" by blast
  from f show m: "mount_matches_topology m topology = Inr True" by (metis (mono_tags, lifting) filter_eq_Cons_iff)
  from f have s: "{x \<in> set (snd (bo_scan ops w1)). mount_matches_topology x topology = Inr True} = {m}"
    by (metis empty_set list.simps(15) set_filter)
  then show "\<exists>w1. m \<in> set (snd (bo_scan ops w1)) \<and>
      (\<forall>m' \<in> set (snd (bo_scan ops w1)). mount_matches_topology m' topology = Inr True \<longrightarrow> m' = m)"
    by blast
  fix other tag tag'
  assume "mount_matches_topology m other = Inr True \<and> topology_tag_prefix topology = Inr tag \<and>
       topology_tag_prefix other = Inr tag' \<and> \<not> contains ''-scsi'' tag \<and> \<not> contains ''-scsi'' tag'"
  with m show "tag' = tag"
    using tag_matches_unique[of tag "usb_alias (basename m)" tag'] by (auto simp: mount_matches_topology_def)
qed

definition demo_bootsel_ops :: "nat bootsel_ops" where
  "demo_bootsel_ops = \<lparr>bo_scan = (\<lambda>w. (w + 1,
       if w = 0 then [''/m/RPI-RP2''] else [''/m/p-usb-0_1_2_1_0-scsi-0'', ''/m/p-usb-0_1_1_0-scsi-0''])),
     bo_devices = (\<lambda>w. []), bo_time = of_nat, bo_sleep = (\<lambda>t w. w)\<rparr>"

theorem mount_for_topology_aimed_witness:
  "\<exists>w' m. mount_for_topology demo_bootsel_ops ''p-usb-0:1'' 5 (1/4) 0 = Some (w', Inr m) \<and> m = ''/m/p-usb-0_1_1_0-scsi-0''"
proof -
  have a: "mounts_matching ''p-usb-0:1'' [''/m/RPI-RP2''] = Inr []"
    "mounts_matching ''p-usb-0:1'' [''/m/p-usb-0_1_2_1_0-scsi-0'', ''/m/p-usb-0_1_1_0-scsi-0''] = Inr [''/m/p-usb-0_1_1_0-scsi-0'']"
    by code_simp+
  have "\<exists>w' m. mount_for_topology demo_bootsel_ops ''p-usb-0:1'' 5 (1/4) 0 = Some (w', Inr m)"
  proof -
    have b: "bo_scan demo_bootsel_ops 0 = (1, [''/m/RPI-RP2''])"
      "bo_scan demo_bootsel_ops 1 = (2, [''/m/p-usb-0_1_2_1_0-scsi-0'', ''/m/p-usb-0_1_1_0-scsi-0''])"
      "bo_time demo_bootsel_ops 1 = 1" "bo_sleep demo_bootsel_ops t 1 = 1" for t
      by (simp_all add: demo_bootsel_ops_def)
    have "mount_for_topology demo_bootsel_ops ''p-usb-0:1'' 5 (1/4) 1 = Some (2, Inr ''/m/p-usb-0_1_1_0-scsi-0'')"
      by (subst mount_for_topology.simps) (simp add: b[simplified] a del: mounts_matching.simps)
    then show ?thesis by (subst mount_for_topology.simps) (simp add: b[simplified] a del: mounts_matching.simps)
  qed
  then obtain w' m where r: "mount_for_topology demo_bootsel_ops ''p-usb-0:1'' 5 (1/4) 0 = Some (w', Inr m)" by blast
  have n: "mount_matches_topology ''/m/RPI-RP2'' ''p-usb-0:1'' = Inr False"
    "mount_matches_topology ''/m/p-usb-0_1_2_1_0-scsi-0'' ''p-usb-0:1'' = Inr False" by code_simp+
  from mount_for_topology_aimed[OF r] obtain w1 where
    "m \<in> set (snd (bo_scan demo_bootsel_ops w1))" "mount_matches_topology m ''p-usb-0:1'' = Inr True" by blast
  with n have "m = ''/m/p-usb-0_1_1_0-scsi-0''" by (auto simp: demo_bootsel_ops_def split: if_splits)
  with r show ?thesis by blast
qed

end
