(* ===== verification/Uf2.thy ===== *)
theory Uf2
  imports Complex_Main PyStr "HOL-Library.Word"
begin

unbundle bit_operations_syntax

section \<open>The flash image a UF2 container carries (uf2.py)\<close>

text \<open>
  A container is a \<open>bytes\<close> value, a list of 8-bit words. The header fields that
  \<open>struct.unpack_from("<5I", ...)\<close> reads are Python integers from then on, so an address plus an
  index never wraps: they are \<open>nat\<close> here, and the slot \<open>target + index - start\<close> is an \<open>int\<close>.
  \<open>Inl\<close> values are the \<open>Uf2Error\<close>s, one constructor per \<open>raise\<close>.

  \<open>flash_of\<close> is the specification: what each flash address holds after the blocks have been
  written in order. \<open>extract_image_refines\<close> shows that the two byte arrays of
  \<open>extract_image\<close> compute exactly that map over the asked range.
\<close>

type_synonym byte = "8 word"

definition UF2_BLOCK_SIZE :: nat where "UF2_BLOCK_SIZE = 512"
definition UF2_HEADER_SIZE :: nat where "UF2_HEADER_SIZE = 32"
definition UF2_MAX_PAYLOAD :: nat where "UF2_MAX_PAYLOAD = 476"
definition UF2_MAGIC_START0 :: nat where "UF2_MAGIC_START0 = 0x0A324655"
definition UF2_MAGIC_START1 :: nat where "UF2_MAGIC_START1 = 0x9E5D5157"
definition UF2_MAGIC_END :: nat where "UF2_MAGIC_END = 0x0AB16F30"
definition DIGEST_CRC32_ISO_HDLC :: int where "DIGEST_CRC32_ISO_HDLC = 1"

lemmas uf2_consts = UF2_BLOCK_SIZE_def UF2_HEADER_SIZE_def UF2_MAX_PAYLOAD_def
  UF2_MAGIC_START0_def UF2_MAGIC_START1_def UF2_MAGIC_END_def

datatype uf2_error =
    NotContainer nat
  | BadMagic nat
  | PayloadTooBig nat nat
  | BadImageLength int
  | NotCovered int
  | NoFlashBlocks
  | UnsupportedAlgorithm int

definition algorithm_id :: "json \<Rightarrow> int option" where
  "algorithm_id name =
     (case name of
        JStr s \<Rightarrow> dict_get [(''crc32-iso-hdlc'', DIGEST_CRC32_ISO_HDLC)] (lower (strip s))
      | _ \<Rightarrow> None)"

subsection \<open>Little-endian fields\<close>

definition le32 :: "byte list \<Rightarrow> nat" where
  "le32 bs = unat (bs ! 0) + 256 * unat (bs ! 1) + 65536 * unat (bs ! 2) + 16777216 * unat (bs ! 3)"

definition u32_at :: "byte list \<Rightarrow> nat \<Rightarrow> nat" where
  "u32_at data off = le32 (take 4 (drop off data))"

definition u32_bytes :: "nat \<Rightarrow> byte list" where
  "u32_bytes n = [of_nat (n mod 256), of_nat (n div 256 mod 256), of_nat (n div 65536 mod 256),
                  of_nat (n div 16777216 mod 256)]"

lemma length_u32_bytes [simp]: "length (u32_bytes n) = 4"
  by (simp add: u32_bytes_def)

lemma unat_byte [simp]: "unat (of_nat (n mod 256) :: byte) = n mod 256"
  by (simp add: unat_of_nat)

lemma le32_u32_bytes: "n < 2 ^ 32 \<Longrightarrow> le32 (u32_bytes n) = n"
proof -
  assume n: "n < 2 ^ 32"
  define a b c where "a = n div 256" and "b = a div 256" and "c = b div 256"
  have "n div 65536 = b" "n div 16777216 = c"
    using div_mult2_eq[of n 256 256] div_mult2_eq[of n 65536 256]
    by (simp_all add: a_def b_def c_def)
  moreover have "n = 256 * a + n mod 256" "a = 256 * b + a mod 256" "b = 256 * c + b mod 256"
    unfolding a_def b_def c_def by (rule mult_div_mod_eq[symmetric])+
  moreover have c: "c mod 256 = c" using n by (simp add: a_def b_def c_def)
  moreover have "unat (of_nat c :: byte) = c" using unat_byte[of c] by (simp only: c)
  ultimately show ?thesis by (simp add: le32_def u32_bytes_def a_def[symmetric])
qed

lemma u32_at_append: "u32_at (xs @ ys) (length xs + k) = u32_at ys k"
  by (simp add: u32_at_def)

lemma u32_at_bytes: "n < 2 ^ 32 \<Longrightarrow> u32_at (u32_bytes n @ ys) 0 = n"
  by (simp add: u32_at_def le32_u32_bytes)

subsection \<open>Blocks\<close>

text \<open>\<open>uf2_block\<close> is the body of the loop of \<open>_blocks\<close>, at one offset.\<close>

type_synonym block = "nat \<times> nat \<times> nat \<times> nat"

definition uf2_block :: "byte list \<Rightarrow> nat \<Rightarrow> uf2_error + block" where
  "uf2_block uf2 offset =
     (if u32_at uf2 offset \<noteq> UF2_MAGIC_START0 \<or> u32_at uf2 (offset + 4) \<noteq> UF2_MAGIC_START1
         \<or> u32_at uf2 (offset + UF2_BLOCK_SIZE - 4) \<noteq> UF2_MAGIC_END
      then Inl (BadMagic offset)
      else if u32_at uf2 (offset + 16) > UF2_MAX_PAYLOAD
      then Inl (PayloadTooBig offset (u32_at uf2 (offset + 16)))
      else Inr (offset, u32_at uf2 (offset + 8), u32_at uf2 (offset + 12), u32_at uf2 (offset + 16)))"

fun uf2_blocks_at :: "byte list \<Rightarrow> nat list \<Rightarrow> uf2_error + block list" where
  "uf2_blocks_at uf2 [] = Inr []"
| "uf2_blocks_at uf2 (off # offs) =
     and_then (uf2_block uf2 off) (\<lambda>b. and_then (uf2_blocks_at uf2 offs) (\<lambda>bs. Inr (b # bs)))"

definition offsets :: "byte list \<Rightarrow> nat list" where
  "offsets uf2 = map (\<lambda>i. i * UF2_BLOCK_SIZE) [0..<length uf2 div UF2_BLOCK_SIZE]"

definition uf2_blocks :: "byte list \<Rightarrow> uf2_error + block list" where
  "uf2_blocks uf2 =
     (if length uf2 mod UF2_BLOCK_SIZE \<noteq> 0 \<or> uf2 = [] then Inl (NotContainer (length uf2))
      else uf2_blocks_at uf2 (offsets uf2))"

text \<open>\<open>flags & UF2_FLAG_NOT_MAIN_FLASH\<close>: bit 0.\<close>

definition not_main :: "nat \<Rightarrow> bool" where
  "not_main flags = odd flags"

subsection \<open>Reconstructing the image\<close>

text \<open>One iteration of the inner loop of \<open>extract_image\<close>, on the pair \<open>(image, covered)\<close>.\<close>

definition put_byte ::
  "byte list \<Rightarrow> int \<Rightarrow> int \<Rightarrow> nat \<Rightarrow> nat \<Rightarrow> byte list \<times> bool list \<Rightarrow> nat \<Rightarrow> byte list \<times> bool list" where
  "put_byte uf2 start len offset target s index =
     (let slot = int target + int index - start in
      if \<not> (0 \<le> slot \<and> slot < len) then s
      else (let (image, covered) = s in
        (image[nat slot := uf2 ! (offset + UF2_HEADER_SIZE + index)], covered[nat slot := True])))"

definition put_block ::
  "byte list \<Rightarrow> int \<Rightarrow> int \<Rightarrow> byte list \<times> bool list \<Rightarrow> block \<Rightarrow> byte list \<times> bool list" where
  "put_block uf2 start len s b =
     (let (offset, flags, target, payload_size) = b in
      if not_main flags then s
      else foldl (put_byte uf2 start len offset target) s [0..<payload_size])"

fun first_uncovered :: "bool list \<Rightarrow> nat option" where
  "first_uncovered [] = None"
| "first_uncovered (c # cs) = (if \<not> c then Some 0 else map_option Suc (first_uncovered cs))"

definition extract_image :: "byte list \<Rightarrow> int \<Rightarrow> int \<Rightarrow> uf2_error + byte list" where
  "extract_image uf2 start len =
     (if len \<le> 0 then Inl (BadImageLength len)
      else and_then (uf2_blocks uf2) (\<lambda>bs.
        (let (image, covered) =
             foldl (put_block uf2 start len) (replicate (nat len) 0, replicate (nat len) False) bs in
         case first_uncovered covered of
           Some missing \<Rightarrow> Inl (NotCovered (start + int missing))
         | None \<Rightarrow> Inr image)))"

definition image_extent :: "byte list \<Rightarrow> uf2_error + nat \<times> nat" where
  "image_extent uf2 =
     and_then (uf2_blocks uf2) (\<lambda>bs.
       let spans = map (\<lambda>(off, flags, target, size). (target, target + size))
                     (filter (\<lambda>(off, flags, target, size). \<not> not_main flags \<and> size \<noteq> 0) bs) in
       if spans = [] then Inl NoFlashBlocks
       else (let start = Min (fst ` set spans) in
         Inr (start, Max (snd ` set spans) - start)))"

subsection \<open>The digest\<close>

text \<open>CRC-32/ISO-HDLC, bit by bit: reflected polynomial, initial value and final XOR all ones.\<close>

definition crc_bit :: "32 word \<Rightarrow> 32 word" where
  "crc_bit c = (if bit c 0 then drop_bit 1 c XOR 0xEDB88320 else drop_bit 1 c)"

definition crc_byte :: "32 word \<Rightarrow> byte \<Rightarrow> 32 word" where
  "crc_byte c b = (crc_bit ^^ 8) (c XOR ucast b)"

definition crc32_iso_hdlc :: "byte list \<Rightarrow> 32 word" where
  "crc32_iso_hdlc data = foldl crc_byte 0xFFFFFFFF data XOR 0xFFFFFFFF"

definition image_digest :: "byte list \<Rightarrow> int \<Rightarrow> int \<Rightarrow> int \<Rightarrow> uf2_error + int" where
  "image_digest uf2 start len algorithm =
     (if algorithm \<noteq> DIGEST_CRC32_ISO_HDLC then Inl (UnsupportedAlgorithm algorithm)
      else and_then (extract_image uf2 start len) (\<lambda>img. Inr (uint (crc32_iso_hdlc img))))"

text \<open>
  \<open>bin\<close> is what the raw image beside the container reads as: None without a path or when the
  file cannot be read. \<open>container\<close> is what the container's own file reads as.
\<close>

definition linked_length :: "byte list \<Rightarrow> nat \<Rightarrow> nat \<Rightarrow> byte list option \<Rightarrow> uf2_error + nat" where
  "linked_length uf2 start len bin =
     (case bin of
        None \<Rightarrow> Inr len
      | Some linked \<Rightarrow>
          if linked = [] \<or> length linked > len then Inr len
          else and_then (extract_image uf2 (int start) (int (length linked))) (\<lambda>img.
            if img \<noteq> linked then Inr len else Inr (length linked)))"

definition digest_fields :: "byte list option \<Rightarrow> byte list option \<Rightarrow> (string \<times> json) list" where
  "digest_fields container bin =
     (case container of
        None \<Rightarrow> []
      | Some data \<Rightarrow>
          (case and_then (image_extent data) (\<lambda>(start, len0).
                  and_then (linked_length data start len0 bin) (\<lambda>len.
                    and_then (image_digest data (int start) (int len) DIGEST_CRC32_ISO_HDLC) (\<lambda>digest.
                      Inr (digest, start, len)))) of
             Inl _ \<Rightarrow> []
           | Inr (digest, start, len) \<Rightarrow>
               [(''digest_algorithm'', JInt DIGEST_CRC32_ISO_HDLC),
                (''digest'', JInt digest),
                (''image_start'', JInt (int start)),
                (''image_length'', JInt (int len))]))"


subsection \<open>What the container places in flash\<close>

type_synonym flash_writes = "(int \<times> byte) list"

definition block_writes :: "byte list \<Rightarrow> block \<Rightarrow> flash_writes" where
  "block_writes uf2 b =
     (let (offset, flags, target, size) = b in
      if not_main flags then []
      else map (\<lambda>i. (int target + int i, uf2 ! (offset + UF2_HEADER_SIZE + i))) [0..<size])"

definition all_writes :: "byte list \<Rightarrow> block list \<Rightarrow> flash_writes" where
  "all_writes uf2 bs = concat (map (block_writes uf2) bs)"

text \<open>The last write to an address is the one that stays.\<close>

definition flash_at :: "flash_writes \<Rightarrow> int \<Rightarrow> byte option" where
  "flash_at ws = map_of (rev ws)"

definition flash_of :: "byte list \<Rightarrow> block list \<Rightarrow> int \<Rightarrow> byte option" where
  "flash_of uf2 bs = flash_at (all_writes uf2 bs)"

lemma flash_at_snoc [simp]: "flash_at (ws @ [w]) = (flash_at ws)(fst w \<mapsto> snd w)"
  by (cases w) (simp add: flash_at_def fun_eq_iff)

lemma flash_at_None: "flash_at ws a = None \<longleftrightarrow> a \<notin> fst ` set ws"
  by (simp add: flash_at_def map_of_eq_None_iff)

definition put_write :: "int \<Rightarrow> int \<Rightarrow> byte list \<times> bool list \<Rightarrow> int \<times> byte \<Rightarrow> byte list \<times> bool list" where
  "put_write start len s w =
     (let slot = fst w - start in
      if 0 \<le> slot \<and> slot < len
      then ((fst s)[nat slot := snd w], (snd s)[nat slot := True]) else s)"

lemma put_byte_write:
  "put_byte uf2 start len offset target s i =
   put_write start len s (int target + int i, uf2 ! (offset + UF2_HEADER_SIZE + i))"
  by (simp add: put_byte_def put_write_def Let_def split_beta)

lemma put_block_writes:
  "put_block uf2 start len s b = foldl (put_write start len) s (block_writes uf2 b)"
proof -
  obtain off flags target size where b: "b = (off, flags, target, size)" by (cases b)
  have "foldl (put_byte uf2 start len off target) s [0..<n] =
    foldl (put_write start len) s
      (map (\<lambda>i. (int target + int i, uf2 ! (off + UF2_HEADER_SIZE + i))) [0..<n])" for n
    by (induction n) (simp_all add: put_byte_write)
  then show ?thesis by (simp add: put_block_def block_writes_def b)
qed

lemma put_blocks_writes:
  "foldl (put_block uf2 start len) s bs = foldl (put_write start len) s (all_writes uf2 bs)"
  by (induction bs arbitrary: s) (simp_all add: put_block_writes all_writes_def)

lemma list_update_map_upt: "(map f [0..<n])[k := v] = map (f(k := v)) [0..<n]"
  by (rule nth_equalityI) (auto simp: nth_list_update)

lemma put_writes_flash:
  "foldl (put_write start len) (replicate (nat len) 0, replicate (nat len) False) ws =
   (map (\<lambda>i. case flash_at ws (start + int i) of None \<Rightarrow> 0 | Some b \<Rightarrow> b) [0..<nat len],
    map (\<lambda>i. flash_at ws (start + int i) \<noteq> None) [0..<nat len])"
proof (induction ws rule: rev_induct)
  case Nil
  then show ?case by (simp add: flash_at_def map_replicate_const)
next
  case (snoc w ws)
  have out: "start + int i \<noteq> fst w" if "\<not> (0 \<le> fst w - start \<and> fst w - start < len)" "i < nat len" for i
    using that by auto
  have at: "start + int i = fst w \<longleftrightarrow> i = nat (fst w - start)" if "0 \<le> fst w - start" for i
    using that by auto
  show ?case
    unfolding foldl_append snoc.IH
    by (auto simp: put_write_def Let_def list_update_map_upt out at)
qed

lemma first_uncovered_None: "first_uncovered cs = None \<longleftrightarrow> (\<forall>i < length cs. cs ! i)"
  by (induction cs) (auto simp: nth_Cons split: nat.splits)

lemma first_uncovered_Some:
  "first_uncovered cs = Some m \<Longrightarrow> m < length cs \<and> \<not> cs ! m \<and> (\<forall>i < m. cs ! i)"
  by (induction cs arbitrary: m) (auto simp: nth_Cons split: if_splits nat.splits)

lemma extract_image_cases:
  assumes "0 < len" and "uf2_blocks uf2 = Inr bs"
  shows "extract_image uf2 start len =
    (let covered = map (\<lambda>i. flash_of uf2 bs (start + int i) \<noteq> None) [0..<nat len] in
     case first_uncovered covered of
       Some m \<Rightarrow> Inl (NotCovered (start + int m))
     | None \<Rightarrow> Inr (map (\<lambda>i. case flash_of uf2 bs (start + int i) of None \<Rightarrow> 0 | Some b \<Rightarrow> b) [0..<nat len]))"
  using assms unfolding flash_of_def
  by (simp add: extract_image_def put_blocks_writes put_writes_flash Let_def)

lemma extract_image_Inr:
  assumes "extract_image uf2 start len = Inr img"
  shows "0 < len \<and> length img = nat len \<and>
    (\<exists>bs. uf2_blocks uf2 = Inr bs \<and> (\<forall>i < nat len. flash_of uf2 bs (start + int i) = Some (img ! i)))"
proof -
  from assms have len: "0 < len" by (auto simp: extract_image_def split: if_splits)
  from assms len obtain bs where bs: "uf2_blocks uf2 = Inr bs"
    by (auto simp: extract_image_def split: if_splits)
  from assms show ?thesis
    by (auto simp: extract_image_cases[OF len bs] Let_def len bs first_uncovered_None
        split: option.splits)
qed

text \<open>C28: \<open>extract_image\<close> reconstructs flash: for a readable container and a positive length it
  returns, at every offset of the range, the byte that the container's last block to write that
  address places there (blocks flagged as not main flash write nothing, and each block's own
  payload size bounds its writes), and it answers only when every address is written: otherwise
  the error names the lowest address no block supplies. A gap is never filled.\<close>

theorem extract_image_refines:
  assumes "0 < len" and "uf2_blocks uf2 = Inr bs"
  shows "case extract_image uf2 start len of
      Inr img \<Rightarrow> length img = nat len \<and>
        (\<forall>i < nat len. flash_of uf2 bs (start + int i) = Some (img ! i))
    | Inl e \<Rightarrow> (\<exists>m < nat len. e = NotCovered (start + int m) \<and> flash_of uf2 bs (start + int m) = None \<and>
        (\<forall>i < m. flash_of uf2 bs (start + int i) \<noteq> None))"
proof (cases "extract_image uf2 start len")
  case (Inr img)
  with extract_image_Inr[OF Inr] assms(2) show ?thesis by auto
next
  case (Inl e)
  then obtain m where m: "first_uncovered (map (\<lambda>i. flash_of uf2 bs (start + int i) \<noteq> None) [0..<nat len]) = Some m"
      and e: "e = NotCovered (start + int m)"
    by (auto simp: extract_image_cases[OF assms] Let_def split: option.splits)
  from first_uncovered_Some[OF m] have "m < nat len" "flash_of uf2 bs (start + int m) = None"
    "\<forall>i < m. flash_of uf2 bs (start + int i) \<noteq> None" by auto
  with Inl e show ?thesis by auto
qed

subsection \<open>The extent and the digest\<close>

lemma all_writes_mem:
  "(\<exists>v. (x, v) \<in> set (all_writes uf2 bs)) \<longleftrightarrow>
   (\<exists>off flags target size. (off, flags, target, size) \<in> set bs \<and> \<not> not_main flags \<and>
      int target \<le> x \<and> x < int target + int size)"
proof
  assume "\<exists>v. (x, v) \<in> set (all_writes uf2 bs)"
  then obtain v b where b: "b \<in> set bs" "(x, v) \<in> set (block_writes uf2 b)"
    by (auto simp: all_writes_def)
  obtain off flags target size where bt: "b = (off, flags, target, size)" by (cases b)
  with b show "\<exists>off flags target size. (off, flags, target, size) \<in> set bs \<and> \<not> not_main flags \<and>
      int target \<le> x \<and> x < int target + int size"
    by (intro exI[of _ off] exI[of _ flags] exI[of _ target] exI[of _ size])
       (auto simp: block_writes_def split: if_splits)
next
  assume "\<exists>off flags target size. (off, flags, target, size) \<in> set bs \<and> \<not> not_main flags \<and>
      int target \<le> x \<and> x < int target + int size"
  then obtain off flags target size where b: "(off, flags, target, size) \<in> set bs" "\<not> not_main flags"
    "int target \<le> x" "x < int target + int size" by blast
  then have "(x, uf2 ! (off + UF2_HEADER_SIZE + nat (x - int target))) \<in> set (block_writes uf2 (off, flags, target, size))"
    by (auto simp: block_writes_def image_iff intro!: bexI[of _ "nat (x - int target)"])
  with b(1) show "\<exists>v. (x, v) \<in> set (all_writes uf2 bs)" unfolding all_writes_def by force
qed

lemma flash_of_None:
  "flash_of uf2 bs x = None \<longleftrightarrow>
   \<not> (\<exists>off flags target size. (off, flags, target, size) \<in> set bs \<and> \<not> not_main flags \<and>
      int target \<le> x \<and> x < int target + int size)"
  unfolding flash_of_def flash_at_None using all_writes_mem[of x uf2 bs] by force

lemma image_extent_ok:
  assumes "uf2_blocks uf2 = Inr bs" "flash_of uf2 bs x \<noteq> None"
  shows "is_ok (image_extent uf2)"
proof -
  define spans where "spans = map (\<lambda>(off, flags, target, size). (target, target + size))
      (filter (\<lambda>(off, flags, target, size). \<not> not_main flags \<and> size \<noteq> 0) bs)"
  from assms(2) obtain off flags target size where
    "(off, flags, target, size) \<in> set bs" "\<not> not_main flags" "int target \<le> x" "x < int target + int size"
    unfolding flash_of_None by blast
  then have "(target, target + size) \<in> set spans" by (force simp: spans_def)
  then have "spans \<noteq> []" by auto
  then show ?thesis unfolding image_extent_def assms(1) and_then_simps Let_def spans_def[symmetric] by simp
qed

lemma extract_image_extent:
  assumes "extract_image uf2 a len = Inr img"
  shows "is_ok (image_extent uf2)"
proof -
  from extract_image_Inr[OF assms] obtain bs where bs: "uf2_blocks uf2 = Inr bs"
    and f: "\<forall>i < nat len. flash_of uf2 bs (a + int i) = Some (img ! i)" and "0 < nat len" by auto
  from f[rule_format, OF this(3)] show ?thesis by (intro image_extent_ok[OF bs, of a]) simp
qed


lemma image_extent_Inr:
  assumes "image_extent uf2 = Inr (start, len)" and "uf2_blocks uf2 = Inr bs"
  shows "0 < len \<and> flash_of uf2 bs (int start) \<noteq> None \<and> flash_of uf2 bs (int start + int len - 1) \<noteq> None \<and>
    (\<forall>x. flash_of uf2 bs x \<noteq> None \<longrightarrow> int start \<le> x \<and> x < int start + int len)"
proof -
  define L where "L = map (\<lambda>(off, flags, target, size). (target, target + size))
      (filter (\<lambda>(off, flags, target, size). \<not> not_main flags \<and> size \<noteq> 0) bs)"
  define S where "S = set L"
  have S: "(t, e) \<in> S \<longleftrightarrow> (\<exists>off flags size. (off, flags, t, size) \<in> set bs \<and> \<not> not_main flags \<and>
      size \<noteq> 0 \<and> e = t + size)" for t e
    by (force simp: S_def L_def image_iff)
  have "image_extent uf2 = (if L = [] then Inl NoFlashBlocks
      else Inr (Min (fst ` set L), Max (snd ` set L) - Min (fst ` set L)))"
    unfolding image_extent_def assms(2) and_then_simps Let_def L_def[symmetric] ..
  with assms(1) have ne: "S \<noteq> {}" and start: "start = Min (fst ` S)" and len: "len = Max (snd ` S) - start"
    by (auto simp: S_def split: if_splits)
  have fin: "finite S" by (simp add: S_def)
  from ne fin have "start \<in> fst ` S" unfolding start by (intro Min_in) auto
  then obtain e0 where lo: "(start, e0) \<in> S" by auto
  have "Max (snd ` S) \<in> snd ` S" using ne fin by (intro Max_in) auto
  then obtain t1 where hi: "(t1, Max (snd ` S)) \<in> S" by auto
  have bnd: "start \<le> t \<and> e \<le> Max (snd ` S) \<and> t < e" if "(t, e) \<in> S" for t e
  proof -
    from that fin have "start \<le> t" "e \<le> Max (snd ` S)"
      unfolding start by (force intro: Min_le Max_ge)+
    with that show ?thesis by (auto simp: S)
  qed
  from bnd[OF hi] have len': "start + len = Max (snd ` S)" "0 < len" by (auto simp: len)
  have in_S: "(\<exists>t e. (t, e) \<in> S \<and> int t \<le> x \<and> x < int e) \<longleftrightarrow> flash_of uf2 bs x \<noteq> None" for x
    unfolding flash_of_None S by force
  have "\<exists>t e. (t, e) \<in> S \<and> int t \<le> int start \<and> int start < int e" using lo bnd[OF lo] by auto
  moreover have "\<exists>t e. (t, e) \<in> S \<and> int t \<le> int start + int len - 1 \<and> int start + int len - 1 < int e"
  proof (intro exI conjI)
    show "(t1, Max (snd ` S)) \<in> S" by (rule hi)
    show "int t1 \<le> int start + int len - 1" "int start + int len - 1 < int (Max (snd ` S))"
      using bnd[OF hi] len' by linarith+
  qed
  moreover have "int start \<le> x \<and> x < int start + int len" if "\<exists>t e. (t, e) \<in> S \<and> int t \<le> x \<and> x < int e" for x
  proof -
    from that obtain t e where "(t, e) \<in> S" "int t \<le> x" "x < int e" by blast
    with bnd[of t e] len' show ?thesis by linarith
  qed
  ultimately show ?thesis using len'(2) unfolding in_S by blast
qed

text \<open>The range a build records: the container's extent, or the length of the raw image when its
  bytes are the container's own.\<close>

lemma linked_length_Inr:
  "linked_length uf2 start len bin = Inr l \<Longrightarrow>
   l \<le> len \<and> (l = len \<or> (\<exists>img. bin = Some img \<and> img \<noteq> [] \<and> l = length img \<and>
      extract_image uf2 (int start) (int l) = Inr img))"
  by (auto simp: linked_length_def split: option.splits if_splits)

lemma digest_fields_cases:
  "digest_fields container bin = [] \<or>
   (\<exists>data start E L img. container = Some data \<and> image_extent data = Inr (start, E) \<and>
      linked_length data start E bin = Inr L \<and> extract_image data (int start) (int L) = Inr img \<and>
      digest_fields container bin =
        [(''digest_algorithm'', JInt 1), (''digest'', JInt (uint (crc32_iso_hdlc img))),
         (''image_start'', JInt (int start)), (''image_length'', JInt (int L))])"
proof (cases container)
  case None
  then show ?thesis by (simp add: digest_fields_def)
next
  case (Some data)
  show ?thesis
  proof (cases "\<exists>start E L img. image_extent data = Inr (start, E) \<and> linked_length data start E bin = Inr L \<and>
      extract_image data (int start) (int L) = Inr img")
    case True
    with Some show ?thesis
      by (auto simp: digest_fields_def image_digest_def DIGEST_CRC32_ISO_HDLC_def)
  next
    case False
    then have "\<not> (\<exists>r. and_then (image_extent data) (\<lambda>(start, len0).
        and_then (linked_length data start len0 bin) (\<lambda>len.
          and_then (image_digest data (int start) (int len) DIGEST_CRC32_ISO_HDLC) (\<lambda>digest.
            Inr (digest, start, len)))) = Inr r)"
      by (auto simp: image_digest_def split: if_splits)
    with Some have "digest_fields container bin = []"
      by (auto simp: digest_fields_def split: sum.splits)
    then show ?thesis ..
  qed
qed

text \<open>The recorded description never invents a byte. When \<open>digest_fields\<close> describes a
  container, the digest is the CRC of bytes the container really places in flash, over a range
  that starts at its first flash address, does not run past its last, and stops earlier only
  when a raw image beside it has exactly those bytes; and no range reaching outside the
  container's extent can be extracted at all.\<close>

theorem digest_fields_sound:
  assumes "digest_fields container bin \<noteq> []"
  shows "\<exists>data bs start E L img. container = Some data \<and> uf2_blocks data = Inr bs \<and>
    image_extent data = Inr (start, E) \<and> 0 < L \<and> L \<le> E \<and> length img = L \<and>
    (\<forall>i < L. flash_of data bs (int start + int i) = Some (img ! i)) \<and>
    (\<forall>x. flash_of data bs x \<noteq> None \<longrightarrow> int start \<le> x \<and> x < int start + int E) \<and>
    (L = E \<or> bin = Some img) \<and>
    (\<forall>s l. is_ok (extract_image data s l) \<longrightarrow> int start \<le> s \<and> s + l \<le> int start + int E) \<and>
    digest_fields container bin =
      [(''digest_algorithm'', JInt 1), (''digest'', JInt (uint (crc32_iso_hdlc img))),
       (''image_start'', JInt (int start)), (''image_length'', JInt (int L))]"
proof -
  from digest_fields_cases[of container bin] assms obtain data start E L img where
    d: "container = Some data" "image_extent data = Inr (start, E)" "linked_length data start E bin = Inr L"
    "extract_image data (int start) (int L) = Inr img"
    "digest_fields container bin =
      [(''digest_algorithm'', JInt 1), (''digest'', JInt (uint (crc32_iso_hdlc img))),
       (''image_start'', JInt (int start)), (''image_length'', JInt (int L))]" by blast
  from extract_image_Inr[OF d(4)] obtain bs where
    bs: "uf2_blocks data = Inr bs" "0 < L" "length img = L"
    "\<forall>i < L. flash_of data bs (int start + int i) = Some (img ! i)" by auto
  note ext = image_extent_Inr[OF d(2) bs(1)]
  have "int start \<le> s \<and> s + l \<le> int start + int E" if "is_ok (extract_image data s l)" for s l
  proof -
    from that obtain out where "extract_image data s l = Inr out" by (auto simp: is_ok_iff)
    from extract_image_Inr[OF this] bs(1) have l: "0 < l"
      and fl: "\<forall>i < nat l. flash_of data bs (s + int i) \<noteq> None" by auto
    from l fl[rule_format, of 0] ext have "int start \<le> s" by auto
    moreover from l fl[rule_format, of "nat (l - 1)"] have "flash_of data bs (s + int (nat (l - 1))) \<noteq> None"
      by simp
    with ext have "s + int (nat (l - 1)) < int start + int E" by blast
    ultimately show ?thesis using l by auto
  qed
  then have sub: "\<forall>s l. is_ok (extract_image data s l) \<longrightarrow> int start \<le> s \<and> s + l \<le> int start + int E"
    by blast
  from linked_length_Inr[OF d(3)] d(4) have le: "L \<le> E" "L = E \<or> bin = Some img" by auto
  from ext have all: "\<forall>x. flash_of data bs x \<noteq> None \<longrightarrow> int start \<le> x \<and> x < int start + int E" by blast
  show ?thesis
    by (intro exI conjI, rule d(1), rule bs(1), rule d(2), rule bs(2), rule le(1), rule bs(3),
        rule bs(4), rule all, rule le(2), rule sub, rule d(5))
qed

end
