(* ===== verification/BootselWrite.thy ===== *)
theory BootselWrite
  imports BootselBus Selection Uf2
begin

section \<open>Copying an image to a BOOTSEL volume (flashers/bootsel.py)\<close>

text \<open>
  The write is a file copy onto a volume that disappears the moment its last block lands, so an
  error means two opposite things: with bytes outstanding the board holds half an image, after the
  last byte it has most likely just reset. The model keeps the two loops, the partial writes of a raw
  file and the point where the image counts as handed over; opening, reading, writing and closing
  the files, the clock and the helper that asks a running board for BOOTSEL are parameters. What
  reached the volume is traced as the bytes of each accepted write.
\<close>

definition FLASH_BASE :: nat where "FLASH_BASE = 0x10000000"
definition APPLY_TIMEOUT :: rat where "APPLY_TIMEOUT = 60"
definition APPLY_TIMEOUT_AFTER_ERROR :: rat where "APPLY_TIMEOUT_AFTER_ERROR = 10"
definition APPLY_POLL :: rat where "APPLY_POLL = 1 / 4"

datatype image_error =
    ImageMissing string
  | InvalidUf2 string uf2_error
  | NeedsBootloader string nat
  | NoArtifact
  | SameFile string
  | CopyFailed string
  | FindFault bootsel_error
  | MountFault mount_problem
  | RequestFault string
  | ImageRaised py_error

datatype ready_error = ReadyCancelled | ReadyFailed string

datatype image_event =
    Wrote string "byte list"        \<comment> \<open>destination and the bytes one write took\<close>
  | WarnOffset nat
  | WarnStillMounted string rat
  | WarnNotReady string
  | Requested json json

record 'w image_ops =
  io_exists :: "'w \<Rightarrow> string \<Rightarrow> bool"
  io_read :: "'w \<Rightarrow> string \<Rightarrow> byte list option"
  io_same :: "'w \<Rightarrow> string \<Rightarrow> string \<Rightarrow> bool"
  io_open :: "string \<Rightarrow> string \<Rightarrow> 'w \<Rightarrow> 'w \<times> string option"
  io_chunk :: "string \<Rightarrow> nat \<Rightarrow> 'w \<Rightarrow> 'w \<times> (string + byte list)"
  io_write :: "string \<Rightarrow> byte list \<Rightarrow> 'w \<Rightarrow> 'w \<times> (string + nat)"
  io_finish :: "string \<Rightarrow> 'w \<Rightarrow> 'w \<times> string option"
  io_marker :: "'w \<Rightarrow> string \<Rightarrow> bool"
  io_request :: "string \<Rightarrow> json \<Rightarrow> json \<Rightarrow> 'w \<Rightarrow> 'w \<times> (string + string)"
  io_ready :: "string \<Rightarrow> flash_target \<Rightarrow> 'w \<Rightarrow> 'w \<times> (ready_error + unit)"
  io_bus :: "'w bootsel_ops"

subsection \<open>The image\<close>

definition ensure_uf2 :: "'w image_ops \<Rightarrow> 'w \<Rightarrow> string \<Rightarrow> image_error + unit" where
  "ensure_uf2 ops w uf2 = (if io_exists ops w uf2 then Inr () else Inl (ImageMissing uf2))"

definition uf2_image_start :: "'w image_ops \<Rightarrow> 'w \<Rightarrow> string \<Rightarrow> image_error + nat option" where
  "uf2_image_start ops w uf2 =
     (case io_read ops w uf2 of
        None \<Rightarrow> Inr None
      | Some data \<Rightarrow>
          (case image_extent data of
             Inl e \<Rightarrow> Inl (InvalidUf2 uf2 e)
           | Inr (start, _) \<Rightarrow> Inr (Some start)))"

definition artifact_path :: "flash_target \<Rightarrow> image_error + string" where
  "artifact_path t = (case tg_artifact t of None \<Rightarrow> Inl NoArtifact | Some a \<Rightarrow> Inr (art_path a))"

subsection \<open>The copy\<close>

text \<open>\<open>while view: view = view[out.write(view):]\<close>.\<close>

partial_function (option) write_view ::
  "'w image_ops \<Rightarrow> string \<Rightarrow> byte list \<Rightarrow> 'w \<Rightarrow> ('w \<times> image_event list \<times> string option) option" where
  "write_view ops dest view w =
     (if view = [] then Some (w, [], None)
      else
        (let (w1, r) = io_write ops dest view w in
         case r of
           Inl e \<Rightarrow> Some (w1, [], Some e)
         | Inr n \<Rightarrow> Option.bind (write_view ops dest (drop n view) w1) (\<lambda>(w2, es, e).
             Some (w2, Wrote dest (take n view) # es, e))))"

datatype copy_end = Copied | VolumeVanished string | CopyBroken string

partial_function (option) copy_chunks ::
  "'w image_ops \<Rightarrow> string \<Rightarrow> string \<Rightarrow> nat \<Rightarrow> 'w \<Rightarrow> ('w \<times> image_event list \<times> copy_end) option" where
  "copy_chunks ops uf2 dest off w =
     (let (w1, r) = io_chunk ops uf2 off w in
      case r of
        Inl e \<Rightarrow> Some (w1, [], CopyBroken e)
      | Inr chunk \<Rightarrow>
          (if chunk = [] then
             (let (w2, late) = io_finish ops dest w1 in
              Some (w2, [], case late of None \<Rightarrow> Copied | Some e \<Rightarrow> VolumeVanished e))
           else Option.bind (write_view ops dest chunk w1) (\<lambda>(w2, es, e).
             case e of
               Some m \<Rightarrow> Some (w2, es, CopyBroken m)
             | None \<Rightarrow> Option.bind (copy_chunks ops uf2 dest (off + length chunk) w2) (\<lambda>(w3, es', x).
                 Some (w3, es @ es', x)))))"

definition copy_bytes ::
  "'w image_ops \<Rightarrow> string \<Rightarrow> string \<Rightarrow> 'w \<Rightarrow> ('w \<times> image_event list \<times> copy_end) option" where
  "copy_bytes ops uf2 dest w =
     (let (w1, r) = io_open ops uf2 dest w in
      case r of Some e \<Rightarrow> Some (w1, [], CopyBroken e) | None \<Rightarrow> copy_chunks ops uf2 dest 0 w1)"

partial_function (option) wait_for_apply ::
  "'w image_ops \<Rightarrow> string \<Rightarrow> rat \<Rightarrow> 'w \<Rightarrow> ('w \<times> bool) option" where
  "wait_for_apply ops mount deadline w =
     (if \<not> io_marker ops w mount then Some (w, True)
      else if bo_time (io_bus ops) w \<ge> deadline then Some (w, False)
      else wait_for_apply ops mount deadline (bo_sleep (io_bus ops) APPLY_POLL w))"

definition copy_uf2 ::
  "'w image_ops \<Rightarrow> string \<Rightarrow> string \<Rightarrow> 'w \<Rightarrow> ('w \<times> image_event list \<times> (image_error + unit)) option" where
  "copy_uf2 ops uf2 mount w =
     (let dest = path_join mount (basename uf2) in
      case ensure_uf2 ops w uf2 of
        Inl e \<Rightarrow> Some (w, [], Inl e)
      | Inr _ \<Rightarrow>
          (if io_same ops w uf2 dest then Some (w, [], Inl (SameFile dest))
           else Option.bind (copy_bytes ops uf2 dest w) (\<lambda>(w1, es, x).
             case x of
               CopyBroken e \<Rightarrow> Some (w1, es, Inl (CopyFailed e))
             | _ \<Rightarrow>
                 (let timeout = (if x = Copied then APPLY_TIMEOUT else APPLY_TIMEOUT_AFTER_ERROR) in
                  map_option (\<lambda>(w2, gone).
                    (w2, es @ (if gone then [] else [WarnStillMounted mount timeout]), Inr ()))
                    (wait_for_apply ops mount (bo_time (io_bus ops) w1 + timeout) w1)))))"

subsection \<open>The flasher's write\<close>

definition requester_of :: "flash_target \<Rightarrow> string option" where
  "requester_of t = (case jget (tg_detail t) ''helper'' of JStr h \<Rightarrow> Some h | _ \<Rightarrow> None)"

definition find_volume ::
  "'w image_ops \<Rightarrow> flash_target \<Rightarrow> 'w \<Rightarrow>
   ('w \<times> image_event list \<times> flash_target \<times> (image_error + string)) option" where
  "find_volume ops t w =
     (case requester_of t of
        None \<Rightarrow>
          (let (w1, mounts) = bo_scan (io_bus ops) w in
           Some (w1, [], t, map_sum FindFault id (find_mount mounts (bo_devices (io_bus ops) w1))))
      | Some h \<Rightarrow>
          (case dict_index (tg_detail t) ''chipset'' of
             Inl e \<Rightarrow> Some (w, [], t, Inl (ImageRaised e))
           | Inr chipset \<Rightarrow>
               (let (w1, r) = io_request ops h (tg_id t) chipset w in
                case r of
                  Inl e \<Rightarrow> Some (w1, [Requested (tg_id t) chipset], t, Inl (RequestFault e))
                | Inr topology \<Rightarrow>
                    map_option (\<lambda>(w2, m). (w2, [Requested (tg_id t) chipset],
                        t\<lparr>tg_detail := dict_set (tg_detail t) ''topology'' (JStr topology)\<rparr>,
                        map_sum MountFault id m))
                      (mount_for_topology (io_bus ops) topology
                        (bo_time (io_bus ops) w1 + BOOTSEL_MOUNT_TIMEOUT) BOOTSEL_MOUNT_POLL w1))))"

definition bootsel_write ::
  "'w image_ops \<Rightarrow> bool \<Rightarrow> flash_target \<Rightarrow> 'w \<Rightarrow>
   ('w \<times> image_event list \<times> flash_target \<times> (image_error + string option)) option" where
  "bootsel_write ops dry_run t w =
     (case and_then (artifact_path t) (\<lambda>uf2. and_then (ensure_uf2 ops w uf2) (\<lambda>_.
             and_then (uf2_image_start ops w uf2) (\<lambda>start. Inr (uf2, start)))) of
        Inl e \<Rightarrow> Some (w, [], t, Inl e)
      | Inr (uf2, start) \<Rightarrow>
          (let high = (case start of None \<Rightarrow> False | Some a \<Rightarrow> a > FLASH_BASE);
               warned = (if high then [WarnOffset (the start)] else []) in
           if high \<and> requester_of t \<noteq> None then Some (w, [], t, Inl (NeedsBootloader uf2 (the start)))
           else if dry_run then Some (w, warned, t, Inr None)
           else Option.bind (find_volume ops t w) (\<lambda>(w1, es, t', m).
             case m of
               Inl e \<Rightarrow> Some (w1, warned @ es, t', Inl e)
             | Inr mount \<Rightarrow>
                 map_option (\<lambda>(w2, es', r).
                   (w2, warned @ es @ es', t', map_sum id (\<lambda>_. Some mount) r))
                   (copy_uf2 ops uf2 mount w1))))"

text \<open>After the batch: whatever the board says then, the write itself was done, so only a cancellation
  is raised.\<close>

definition bootsel_settled ::
  "'w image_ops \<Rightarrow> bool \<Rightarrow> flash_target \<Rightarrow> 'w \<Rightarrow> 'w \<times> image_event list \<times> (ready_error + unit)" where
  "bootsel_settled ops dry_run t w =
     (case requester_of t of
        None \<Rightarrow> (w, [], Inr ())
      | Some h \<Rightarrow>
          (if dry_run then (w, [], Inr ())
           else
             (let (w1, r) = io_ready ops h t w in
              case r of
                Inr _ \<Rightarrow> (w1, [], Inr ())
              | Inl ReadyCancelled \<Rightarrow> (w1, [], Inl ReadyCancelled)
              | Inl (ReadyFailed m) \<Rightarrow> (w1, [WarnNotReady m], Inr ()))))"

subsection \<open>Half an image is never a success\<close>

text \<open>The bytes that reached a destination, and what it is to read one file: every chunk continues it, and
  an empty chunk is its end.\<close>

fun wrote_bytes :: "image_event \<Rightarrow> byte list" where
  "wrote_bytes (Wrote dest bs) = bs"
| "wrote_bytes _ = []"

definition written :: "image_event list \<Rightarrow> byte list" where
  "written es = concat (map wrote_bytes es)"

definition only_to :: "string \<Rightarrow> image_event list \<Rightarrow> bool" where
  "only_to dest es = (\<forall>d bs. Wrote d bs \<in> set es \<longrightarrow> d = dest)"

definition reads_file :: "'w image_ops \<Rightarrow> string \<Rightarrow> byte list \<Rightarrow> bool" where
  "reads_file ops f data =
     (\<forall>off w w' c. io_chunk ops f off w = (w', Inr c) \<longrightarrow>
        (\<exists>n. c = take n (drop off data)) \<and> (c = [] \<longrightarrow> length data \<le> off))"

lemma written_simps [simp]:
  "written [] = []" "written (e # es) = wrote_bytes e @ written es" "written (es @ es') = written es @ written es'"
  by (simp_all add: written_def)

lemma only_to_simps [simp]:
  "only_to dest []" "only_to dest (es @ es') \<longleftrightarrow> only_to dest es \<and> only_to dest es'"
  "only_to dest (Wrote d bs # es) \<longleftrightarrow> d = dest \<and> only_to dest es"
  "only_to dest (Requested i c # es) \<longleftrightarrow> only_to dest es"
  "only_to dest (WarnOffset n # es) \<longleftrightarrow> only_to dest es"
  "only_to dest (WarnStillMounted m x # es) \<longleftrightarrow> only_to dest es"
  by (auto simp: only_to_def)

lemma write_view_written:
  assumes "write_view ops dest view w = Some (w', es, e)"
  shows "only_to dest es \<and> (\<exists>rest. view = written es @ rest \<and> (e = None \<longrightarrow> rest = []))"
proof -
  let ?P = "\<lambda>(ops :: 'a image_ops) dest view (w :: 'a) (y :: 'a \<times> image_event list \<times> string option).
    case y of (w', es, e) \<Rightarrow> only_to dest es \<and> (\<exists>rest. view = written es @ rest \<and> (e = None \<longrightarrow> rest = []))"
  have "?P ops dest view w (w', es, e)"
  proof (rule write_view.raw_induct[where P = ?P, OF _ assms])
    fix again and ops :: "'a image_ops" and dest view and w :: 'a and y
    assume IH: "\<And>ops dest view w y. again ops dest view w = Some y \<Longrightarrow> ?P ops dest view w y"
      and body: "(if view = [] then Some (w, [], None)
      else
        (let (w1, r) = io_write ops dest view w in
         case r of
           Inl e \<Rightarrow> Some (w1, [], Some e)
         | Inr n \<Rightarrow> Option.bind (again ops dest (drop n view) w1) (\<lambda>(w2, es, e).
             Some (w2, Wrote dest (take n view) # es, e)))) = Some y"
    obtain w1 r where r: "io_write ops dest view w = (w1, r)" by (metis surj_pair)
    show "?P ops dest view w y"
    proof (cases "view = [] \<or> (\<exists>e. r = Inl e)")
      case True
      with body r show ?thesis by (auto split: if_splits)
    next
      case False
      then obtain n where n: "r = Inr n" by (cases r) auto
      with False body r obtain w2 es e where a: "again ops dest (drop n view) w1 = Some (w2, es, e)"
        and y: "y = (w2, Wrote dest (take n view) # es, e)"
        by (auto simp: bind_eq_Some_conv split: if_splits)
      from IH[OF a] obtain rest where "only_to dest es" "drop n view = written es @ rest" "e = None \<longrightarrow> rest = []"
        by auto
      moreover from this have "view = take n view @ written es @ rest" by (metis append_take_drop_id)
      ultimately show ?thesis using y by (auto intro!: exI[of _ rest])
    qed
  qed
  then show ?thesis by simp
qed

lemma copy_chunks_written:
  assumes "copy_chunks ops uf2 dest off w = Some (w', es, x)" "reads_file ops uf2 data"
  shows "only_to dest es \<and> (\<exists>rest. drop off data = written es @ rest \<and> ((\<forall>m. x \<noteq> CopyBroken m) \<longrightarrow> rest = []))"
proof -
  let ?P = "\<lambda>(ops :: 'a image_ops) uf2 dest off (w :: 'a) (y :: 'a \<times> image_event list \<times> copy_end).
    case y of (w', es, x) \<Rightarrow> \<forall>data. reads_file ops uf2 data \<longrightarrow>
      only_to dest es \<and> (\<exists>rest. drop off data = written es @ rest \<and> ((\<forall>m. x \<noteq> CopyBroken m) \<longrightarrow> rest = []))"
  have "?P ops uf2 dest off w (w', es, x)"
  proof (rule copy_chunks.raw_induct[where P = ?P, OF _ assms(1)])
    fix again and ops :: "'a image_ops" and uf2 dest off and w :: 'a and y
    assume IH: "\<And>ops uf2 dest off w y. again ops uf2 dest off w = Some y \<Longrightarrow> ?P ops uf2 dest off w y"
      and body: "(let (w1, r) = io_chunk ops uf2 off w in
      case r of
        Inl e \<Rightarrow> Some (w1, [], CopyBroken e)
      | Inr chunk \<Rightarrow>
          (if chunk = [] then
             (let (w2, late) = io_finish ops dest w1 in
              Some (w2, [], case late of None \<Rightarrow> Copied | Some e \<Rightarrow> VolumeVanished e))
           else Option.bind (write_view ops dest chunk w1) (\<lambda>(w2, es, e).
             case e of
               Some m \<Rightarrow> Some (w2, es, CopyBroken m)
             | None \<Rightarrow> Option.bind (again ops uf2 dest (off + length chunk) w2) (\<lambda>(w3, es', x).
                 Some (w3, es @ es', x))))) = Some y"
    obtain w1 r where r: "io_chunk ops uf2 off w = (w1, r)" by (metis surj_pair)
    show "?P ops uf2 dest off w y"
    proof (cases "\<exists>chunk. r = Inr chunk \<and> chunk \<noteq> []")
      case False
      show ?thesis
      proof (cases r)
        case (Inl e)
        with body r show ?thesis by auto
      next
        case (Inr c)
        with False have "c = []" by simp
        with body r Inr have "\<exists>w2 x. y = (w2, [], x)" by (auto split: prod.splits)
        moreover have "reads_file ops uf2 data \<Longrightarrow> drop off data = []" for data
          using r Inr \<open>c = []\<close> unfolding reads_file_def by fastforce
        ultimately show ?thesis by auto
      qed
    next
      case True
      then obtain chunk where c: "r = Inr chunk" "chunk \<noteq> []" by blast
      with body r obtain w2 es e where v: "write_view ops dest chunk w1 = Some (w2, es, e)"
        and rest: "(case e of
               Some m \<Rightarrow> Some (w2, es, CopyBroken m)
             | None \<Rightarrow> Option.bind (again ops uf2 dest (off + length chunk) w2) (\<lambda>(w3, es', x).
                 Some (w3, es @ es', x))) = Some y"
        by (auto simp: bind_eq_Some_conv)
      from write_view_written[OF v] obtain u where u: "only_to dest es" "chunk = written es @ u" "e = None \<longrightarrow> u = []"
        by blast
      have ch: "drop off data = chunk @ drop (off + length chunk) data" if "reads_file ops uf2 data" for data
      proof -
        from that r c obtain n where n: "chunk = take n (drop off data)" unfolding reads_file_def by fastforce
        have "take (length (take k xs)) xs = take k xs" for k and xs :: "byte list"
          by (cases "k \<le> length xs") auto
        with n have "take (length chunk) (drop off data) = chunk" by metis
        then show ?thesis by (metis append_take_drop_id drop_drop add.commute)
      qed
      show ?thesis
      proof (cases e)
        case (Some m)
        with rest have "y = (w2, es, CopyBroken m)" by simp
        with u ch show ?thesis by auto
      next
        case None
        with rest obtain w3 es' x where a: "again ops uf2 dest (off + length chunk) w2 = Some (w3, es', x)"
          and y: "y = (w3, es @ es', x)" by (auto simp: bind_eq_Some_conv)
        show ?thesis unfolding y prod.case
        proof (intro allI impI)
          fix data assume d: "reads_file ops uf2 data"
          from IH[OF a] d obtain q where q: "only_to dest es'" "drop (off + length chunk) data = written es' @ q"
            "(\<forall>m. x \<noteq> CopyBroken m) \<longrightarrow> q = []" by auto
          from u None have "chunk = written es" by simp
          then have "drop off data = written (es @ es') @ q" using ch[OF d] q(2) by simp
          with u(1) q show "only_to dest (es @ es') \<and> (\<exists>rest. drop off data = written (es @ es') @ rest \<and>
              ((\<forall>m. x \<noteq> CopyBroken m) \<longrightarrow> rest = []))" by auto
        qed
      qed
    qed
  qed
  with assms(2) show ?thesis by simp
qed

lemma copy_uf2_written:
  assumes "copy_uf2 ops uf2 mount w = Some (w', es, r)" "reads_file ops uf2 data"
  shows "only_to (path_join mount (basename uf2)) es \<and>
    (\<exists>rest. data = written es @ rest \<and> (is_ok r \<longrightarrow> rest = []))"
proof (cases "io_exists ops w uf2 \<and> \<not> io_same ops w uf2 (path_join mount (basename uf2))")
  case False
  with assms(1) have "es = [] \<and> \<not> is_ok r" by (auto simp: copy_uf2_def ensure_uf2_def split: if_splits)
  then show ?thesis by simp
next
  case True
  let ?dest = "path_join mount (basename uf2)"
  from True assms(1) obtain w1 es1 x where c: "copy_bytes ops uf2 ?dest w = Some (w1, es1, x)"
    by (auto simp: copy_uf2_def ensure_uf2_def bind_eq_Some_conv)
  have es1: "only_to ?dest es1 \<and> (\<exists>rest. data = written es1 @ rest \<and> ((\<forall>m. x \<noteq> CopyBroken m) \<longrightarrow> rest = []))"
    using c copy_chunks_written[OF _ assms(2), of ?dest 0] by (fastforce simp: copy_bytes_def split: option.splits prod.splits)
  have "\<exists>ws. es = es1 @ ws \<and> written ws = [] \<and> only_to ?dest ws \<and> (is_ok r \<longrightarrow> (\<forall>m. x \<noteq> CopyBroken m))"
    using True assms(1) c by (auto simp: copy_uf2_def ensure_uf2_def split: copy_end.splits if_splits)
  with es1 show ?thesis by auto
qed

lemma find_volume_target:
  assumes "find_volume ops t w = Some (w', es, t', r)"
  shows "written es = [] \<and> (\<forall>dest. only_to dest es) \<and>
    (\<forall>mount. r = Inr mount \<longrightarrow>
      (case requester_of t of
         None \<Rightarrow> \<exists>w1. snd (bo_scan (io_bus ops) w1) = [mount]
       | Some h \<Rightarrow> \<exists>topology. jget (tg_detail t') ''topology'' = JStr topology \<and>
           mount_matches_topology mount topology = Inr True))"
proof (cases "requester_of t")
  case None
  obtain w1 mounts where b: "bo_scan (io_bus ops) w = (w1, mounts)" by (metis surj_pair)
  with None assms have e: "es = []" "r = map_sum FindFault id (find_mount mounts (bo_devices (io_bus ops) w1))"
    by (auto simp: find_volume_def)
  have "mounts = [m]" if "r = Inr m" for m
    using that e(2) by (cases mounts rule: remdups_adj.cases) (auto simp: find_mount_def split: if_splits)
  with b e(1) None show ?thesis by (auto intro!: exI[of _ w])
next
  case (Some h)
  show ?thesis
  proof (cases "\<exists>m. r = Inr m")
    case False
    with Some assms show ?thesis
      by (auto simp: find_volume_def split: sum.splits prod.splits)
  next
    case True
    with Some assms obtain w1 topology m0 w2 c where
      m: "mount_for_topology (io_bus ops) topology (bo_time (io_bus ops) w1 + BOOTSEL_MOUNT_TIMEOUT) BOOTSEL_MOUNT_POLL w1
        = Some (w2, m0)" and r: "r = map_sum MountFault id m0" and e: "es = [Requested (tg_id t) c]"
      and t': "t' = t\<lparr>tg_detail := dict_set (tg_detail t) ''topology'' (JStr topology)\<rparr>"
      by (auto simp: find_volume_def split: sum.splits prod.splits)
    have "mount_matches_topology mount topology = Inr True" if "r = Inr mount" for mount
    proof -
      from that r have "m0 = Inr mount" by (cases m0) auto
      from mount_for_topology_found[OF m[unfolded this]] show ?thesis by (metis (mono_tags, lifting) filter_eq_Cons_iff)
    qed
    with Some e t' show ?thesis by (simp add: jget_def)
  qed
qed

lemma bootsel_write_effect:
  assumes "bootsel_write ops dry_run t w = Some (w', es, t', r)" "tg_artifact t = Some a"
    and "reads_file ops (art_path a) data"
  shows "(dry_run \<longrightarrow> w' = w \<and> written es = []) \<and> (\<exists>rest. data = written es @ rest) \<and>
    (\<forall>mount. r = Inr (Some mount) \<longrightarrow>
      written es = data \<and> only_to (path_join mount (basename (art_path a))) es \<and>
      (case requester_of t of
         None \<Rightarrow> \<exists>w1. snd (bo_scan (io_bus ops) w1) = [mount]
       | Some h \<Rightarrow> (\<exists>topology. jget (tg_detail t') ''topology'' = JStr topology \<and>
             mount_matches_topology mount topology = Inr True) \<and>
           (\<forall>bytes. io_read ops w (art_path a) = Some bytes \<longrightarrow>
             (\<exists>start len. image_extent bytes = Inr (start, len) \<and> start \<le> FLASH_BASE))))"
proof (cases "ensure_uf2 ops w (art_path a)")
  case (Inl e)
  with assms(1,2) show ?thesis by (auto simp: bootsel_write_def artifact_path_def)
next
  case (Inr u)
  show ?thesis
  proof (cases "uf2_image_start ops w (art_path a)")
    case (Inl e)
    with assms(1,2) Inr show ?thesis by (auto simp: bootsel_write_def artifact_path_def)
  next
    case start: (Inr start)
    let ?high = "case start of None \<Rightarrow> False | Some x \<Rightarrow> x > FLASH_BASE"
    let ?warned = "if ?high then [WarnOffset (the start)] else []"
    have w0: "written ?warned = []" "only_to dest ?warned" for dest by simp_all
    show ?thesis
    proof (cases "?high \<and> requester_of t \<noteq> None \<or> dry_run")
      case True
      with assms(1,2) Inr start have "w' = w \<and> written es = [] \<and> (\<forall>m. r \<noteq> Inr (Some m))"
        by (auto simp: bootsel_write_def artifact_path_def Let_def split: if_splits)
      then show ?thesis by simp
    next
      case False
      then have nd: "\<not> dry_run" by blast
      have eq: "bootsel_write ops dry_run t w = Option.bind (find_volume ops t w) (\<lambda>(w1, es, t', m).
             case m of
               Inl e \<Rightarrow> Some (w1, ?warned @ es, t', Inl e)
             | Inr mount \<Rightarrow>
                 map_option (\<lambda>(w2, es', r). (w2, ?warned @ es @ es', t', map_sum id (\<lambda>_. Some mount) r))
                   (copy_uf2 ops (art_path a) mount w1))"
        using False assms(2) Inr start by (simp add: bootsel_write_def artifact_path_def Let_def)
      then obtain w1 es1 t1 m where f1: "find_volume ops t w = Some (w1, es1, t1, m)"
        and rest1: "(case m of
             Inl e \<Rightarrow> Some (w1, ?warned @ es1, t1, Inl e)
           | Inr mount \<Rightarrow> map_option (\<lambda>(w2, es', r). (w2, ?warned @ es1 @ es', t1, map_sum id (\<lambda>_. Some mount) r))
                   (copy_uf2 ops (art_path a) mount w1)) = Some (w', es, t', r)"
        unfolding assms(1) by (cases "find_volume ops t w") auto
      from rest1 have t1: "t1 = t'" by (cases m) auto
      note f = f1[unfolded t1] and rest = rest1[unfolded t1]
      note fv = find_volume_target[OF f]
      show ?thesis
      proof (cases m)
        case (Inl e)
        with rest fv nd w0 show ?thesis by auto
      next
        case (Inr mount)
        with rest obtain es2 r2 where c: "copy_uf2 ops (art_path a) mount w1 = Some (w', es2, r2)"
          and es: "es = ?warned @ es1 @ es2" and r: "r = map_sum id (\<lambda>_. Some mount) r2"
          by (cases "copy_uf2 ops (art_path a) mount w1") auto
        from copy_uf2_written[OF c assms(3)] obtain q where q: "only_to (path_join mount (basename (art_path a))) es2"
          "data = written es2 @ q" "is_ok r2 \<longrightarrow> q = []" by blast
        have wes: "written es = written es2" "only_to (path_join mount (basename (art_path a))) es"
          using es fv q(1) by auto
        have ok: "is_ok r2 \<and> mt = mount" if "r = Inr (Some mt)" for mt using that r by (cases r2) auto
        have low: "\<exists>start len. image_extent bytes = Inr (start, len) \<and> start \<le> FLASH_BASE"
          if "requester_of t \<noteq> None" "io_read ops w (art_path a) = Some bytes" for bytes
          using that start False by (auto simp: uf2_image_start_def split: sum.splits)
        from fv Inr have vol: "case requester_of t of
           None \<Rightarrow> \<exists>w1. snd (bo_scan (io_bus ops) w1) = [mount]
         | Some h \<Rightarrow> \<exists>topology. jget (tg_detail t') ''topology'' = JStr topology \<and>
             mount_matches_topology mount topology = Inr True" by blast
        show ?thesis
        proof (intro conjI allI impI)
          show "\<exists>rest. data = written es @ rest" using q(2) wes(1) by auto
          fix mt assume mt: "r = Inr (Some mt)"
          then show "written es = data" using ok q wes by auto
          show "only_to (path_join mt (basename (art_path a))) es" using ok[OF mt] wes by simp
          show "case requester_of t of
         None \<Rightarrow> \<exists>w1. snd (bo_scan (io_bus ops) w1) = [mt]
       | Some h \<Rightarrow> (\<exists>topology. jget (tg_detail t') ''topology'' = JStr topology \<and>
             mount_matches_topology mt topology = Inr True) \<and>
           (\<forall>bytes. io_read ops w (art_path a) = Some bytes \<longrightarrow>
             (\<exists>start len. image_extent bytes = Inr (start, len) \<and> start \<le> FLASH_BASE))"
            using ok[OF mt] vol low by (auto split: option.splits)
        qed (use nd in simp_all)
      qed
    qed
  qed
qed

lemma map_sum_eq_Inr: "map_sum f g x = Inr y \<longleftrightarrow> (\<exists>z. x = Inr z \<and> y = g z)"
  by (cases x) auto

lemma bootsel_write_mount:
  "bootsel_write ops False t w = Some (w', es, t', Inr m) \<Longrightarrow> m \<noteq> None"
  by (auto simp: bootsel_write_def Let_def bind_eq_Some_conv map_sum_eq_Inr split: sum.splits if_splits prod.splits)
    (metis sum.exhaust)+

text \<open>C11: a BOOTSEL write ends well only with the whole image on the right volume. A dry run touches
  nothing. Whatever happens, what reached the volume is a beginning of the image; a write that
  reports a volume has written every byte of it, in order, to one file on that volume - an error after
  the last byte counts as the board resetting, an error before it never does. The volume is the only
  one mounted when nobody asked for the board, and otherwise the one at the USB port the helper handed
  over; then the image was not one linked above the start of flash, which a board without a
  bootloader cannot boot.\<close>

theorem bootsel_write_complete:
  assumes "bootsel_write ops dry_run t w = Some (w', es, t', r)" "tg_artifact t = Some a"
    and "reads_file ops (art_path a) data"
  shows "(dry_run \<longrightarrow> w' = w \<and> written es = []) \<and> (\<exists>rest. data = written es @ rest) \<and>
    (\<forall>mount. r = Inr (Some mount) \<longrightarrow>
      written es = data \<and> only_to (path_join mount (basename (art_path a))) es \<and>
      (case requester_of t of
         None \<Rightarrow> \<exists>w1. snd (bo_scan (io_bus ops) w1) = [mount]
       | Some h \<Rightarrow> (\<exists>topology. jget (tg_detail t') ''topology'' = JStr topology \<and>
             mount_matches_topology mount topology = Inr True) \<and>
           (\<forall>bytes. io_read ops w (art_path a) = Some bytes \<longrightarrow>
             (\<exists>start len. image_extent bytes = Inr (start, len) \<and> start \<le> FLASH_BASE))))"
  by (rule bootsel_write_effect[OF assms])

definition demo_image_ops :: "nat image_ops" where
  "demo_image_ops =
     \<lparr>io_exists = \<lambda>w f. True, io_read = \<lambda>w f. None, io_same = \<lambda>w f g. False, io_open = \<lambda>f g w. (w, None),
      io_chunk = \<lambda>f off w. (w, Inr (take 2 (drop off [1, 2, 3]))),
      io_write = \<lambda>f bs w. (w + 1, Inr 1), io_finish = \<lambda>f w. (w, Some ''I/O error''),
      io_marker = \<lambda>w m. False, io_request = \<lambda>h i c w. (w, Inl []), io_ready = \<lambda>h t w. (w, Inr ()),
      io_bus = \<lparr>bo_scan = \<lambda>w. (w, [''/m/RPI-RP2'']), bo_devices = \<lambda>w. [], bo_time = of_nat, bo_sleep = \<lambda>t w. w\<rparr>\<rparr>"

definition demo_bootsel_target :: flash_target where
  "demo_bootsel_target = \<lparr>tg_flasher = ''bootsel'', tg_type = JStr ''rp2040'', tg_id = JStr [], tg_stop_services = [],
     tg_detail = [(''chipset'', JStr ''rp2040'')], tg_needs_stop = None,
     tg_artifact = Some \<lparr>kind = KIND_UF2, art_path = ''/o/k.uf2'', sha256 = None\<rparr>\<rparr>"

theorem bootsel_write_complete_witness:
  "\<exists>w' es t' mount. bootsel_write demo_image_ops False demo_bootsel_target 0 = Some (w', es, t', Inr (Some mount)) \<and>
     written es = [1, 2, 3] \<and> only_to ''/m/RPI-RP2/k.uf2'' es"
proof -
  have b: "basename ''/o/k.uf2'' = ''k.uf2''" "path_join ''/m/RPI-RP2'' ''k.uf2'' = ''/m/RPI-RP2/k.uf2''" by code_simp+
  let ?d = "''/m/RPI-RP2/k.uf2''"
  have wv: "write_view demo_image_ops ?d [] w = Some (w, [], None)" for w by (subst write_view.simps) simp
  have wv1: "write_view demo_image_ops ?d [x] w = Some (Suc w, [Wrote ?d [x]], None)" for x w
    by (subst write_view.simps) (simp add: demo_image_ops_def[THEN arg_cong, of io_write, simplified] wv)
  have wv2: "write_view demo_image_ops ?d [x, y] w = Some (Suc (Suc w), [Wrote ?d [x], Wrote ?d [y]], None)" for x y w
    by (subst write_view.simps) (simp add: demo_image_ops_def[THEN arg_cong, of io_write, simplified] wv1)
  have ch: "io_chunk demo_image_ops f off w = (w, Inr (take 2 (drop off [1, 2, 3])))"
    "io_finish demo_image_ops f w = (w, Some ''I/O error'')" for f off w by (simp_all add: demo_image_ops_def)
  have c3: "copy_chunks demo_image_ops f ?d 3 w = Some (w, [], VolumeVanished ''I/O error'')" for f w
    by (subst copy_chunks.simps) (simp add: ch)
  have c2: "copy_chunks demo_image_ops f ?d 2 w = Some (Suc w, [Wrote ?d [3]], VolumeVanished ''I/O error'')" for f w
    by (subst copy_chunks.simps) (simp add: ch wv1 c3)
  have c0: "copy_chunks demo_image_ops f ?d 0 w =
      Some (Suc (Suc (Suc w)), [Wrote ?d [1], Wrote ?d [2], Wrote ?d [3]], VolumeVanished ''I/O error'')" for f w
    by (subst copy_chunks.simps) (simp add: ch wv2 c2[simplified] numeral_2_eq_2[symmetric])
  have r: "\<exists>w' es t'. bootsel_write demo_image_ops False demo_bootsel_target 0 = Some (w', es, t', Inr (Some ''/m/RPI-RP2''))"
    using c0 by (auto simp: bootsel_write_def demo_bootsel_target_def artifact_path_def ensure_uf2_def uf2_image_start_def
        Let_def find_volume_def requester_of_def find_mount_def copy_uf2_def copy_bytes_def wait_for_apply.simps b
        demo_image_ops_def[THEN arg_cong, of io_exists, simplified] demo_image_ops_def[THEN arg_cong, of io_read, simplified]
        demo_image_ops_def[THEN arg_cong, of io_same, simplified] demo_image_ops_def[THEN arg_cong, of io_open, simplified]
        demo_image_ops_def[THEN arg_cong, of io_marker, simplified] demo_image_ops_def[THEN arg_cong, of io_bus, simplified])
  then obtain w' es t' where run: "bootsel_write demo_image_ops False demo_bootsel_target 0 =
      Some (w', es, t', Inr (Some ''/m/RPI-RP2''))" by blast
  have art: "tg_artifact demo_bootsel_target = Some \<lparr>kind = KIND_UF2, art_path = ''/o/k.uf2'', sha256 = None\<rparr>"
    by (simp add: demo_bootsel_target_def)
  have rd: "reads_file demo_image_ops f [1, 2, 3]" for f by (auto simp: reads_file_def ch)
  from bootsel_write_complete[OF run art rd] run b show ?thesis by auto
qed

end
