(* ===== verification/Uf2Erase.thy ===== *)
theory Uf2Erase
  imports Uf2 "HOL-Library.Multiset"
begin

section \<open>A Katapult container that also blanks the application's first sector (uf2\_erase.py)\<close>

text \<open>
  \<open>with_erased_sector\<close> re-emits a container with one more sector of 0xff pages. The parser here is
  the second one the sources have: it keeps each block's payload and family.
  A block's target is an \<open>int\<close>, because a page address comes from the caller; \<open>struct.pack\<close>
  raises on a value that does not fit 32 bits (\<open>StructError\<close>).
\<close>

definition SECTOR_SIZE :: nat where "SECTOR_SIZE = 4096"
definition PAGE_SIZE :: nat where "PAGE_SIZE = 256"

datatype erase_error =
    ENotContainer nat
  | EBadMagic nat
  | EPayloadTooBig nat nat
  | Unaligned int
  | WritesNothing
  | Overlap int int
  | StructError

type_synonym eblock = "nat \<times> int \<times> byte list \<times> nat"

subsection \<open>Reading\<close>

definition e_block :: "byte list \<Rightarrow> nat \<Rightarrow> erase_error + eblock" where
  "e_block uf2 offset =
     (let size = u32_at uf2 (offset + 16) in
      if u32_at uf2 offset \<noteq> UF2_MAGIC_START0 \<or> u32_at uf2 (offset + 4) \<noteq> UF2_MAGIC_START1
         \<or> u32_at uf2 (offset + UF2_BLOCK_SIZE - 4) \<noteq> UF2_MAGIC_END
      then Inl (EBadMagic offset)
      else if size > UF2_MAX_PAYLOAD then Inl (EPayloadTooBig offset size)
      else Inr (u32_at uf2 (offset + 8), int (u32_at uf2 (offset + 12)),
                take size (drop (offset + UF2_HEADER_SIZE) uf2), u32_at uf2 (offset + 28)))"

fun e_blocks_at :: "byte list \<Rightarrow> nat list \<Rightarrow> erase_error + eblock list" where
  "e_blocks_at uf2 [] = Inr []"
| "e_blocks_at uf2 (off # offs) =
     and_then (e_block uf2 off) (\<lambda>b. and_then (e_blocks_at uf2 offs) (\<lambda>bs. Inr (b # bs)))"

definition e_blocks :: "byte list \<Rightarrow> erase_error + eblock list" where
  "e_blocks uf2 =
     (if uf2 = [] \<or> length uf2 mod UF2_BLOCK_SIZE \<noteq> 0 then Inl (ENotContainer (length uf2))
      else e_blocks_at uf2 (offsets uf2))"

subsection \<open>Writing\<close>

definition pack_u32 :: "int \<Rightarrow> erase_error + byte list" where
  "pack_u32 n = (if 0 \<le> n \<and> n < 2 ^ 32 then Inr (u32_bytes (nat n)) else Inl StructError)"

fun pack_header :: "int list \<Rightarrow> erase_error + byte list" where
  "pack_header [] = Inr []"
| "pack_header (n # ns) =
     and_then (pack_u32 n) (\<lambda>b. and_then (pack_header ns) (\<lambda>bs. Inr (b @ bs)))"

definition ljust0 :: "byte list \<Rightarrow> nat \<Rightarrow> byte list" where
  "ljust0 bs n = bs @ replicate (n - length bs) 0"

text \<open>The body of the emitting loop.\<close>

definition emit_block :: "nat \<Rightarrow> nat \<Rightarrow> eblock \<Rightarrow> erase_error + byte list" where
  "emit_block num_blocks number b =
     (let (flags, target, payload, family) = b in
      and_then (pack_header [int UF2_MAGIC_START0, int UF2_MAGIC_START1, int flags, target,
          int (length payload), int number, int num_blocks, int family]) (\<lambda>header.
        Inr (header @ ljust0 payload (UF2_BLOCK_SIZE - UF2_HEADER_SIZE - 4)
             @ u32_bytes UF2_MAGIC_END)))"

fun emit_blocks :: "nat \<Rightarrow> nat \<Rightarrow> eblock list \<Rightarrow> erase_error + byte list" where
  "emit_blocks num_blocks number [] = Inr []"
| "emit_blocks num_blocks number (b # bs) =
     and_then (emit_block num_blocks number b) (\<lambda>out.
       and_then (emit_blocks num_blocks (Suc number) bs) (\<lambda>rest. Inr (out @ rest)))"

definition e_target :: "eblock \<Rightarrow> int" where
  "e_target b = fst (snd b)"

definition e_payload :: "eblock \<Rightarrow> byte list" where
  "e_payload b = fst (snd (snd b))"

definition overlaps :: "int \<Rightarrow> eblock \<Rightarrow> bool" where
  "overlaps address b =
     (e_target b < address + int SECTOR_SIZE \<and> e_target b + int (length (e_payload b)) > address)"

definition erased_pages :: "nat \<Rightarrow> nat \<Rightarrow> int \<Rightarrow> eblock list" where
  "erased_pages flags family address =
     map (\<lambda>i. (flags, address + int (i * PAGE_SIZE), replicate PAGE_SIZE 0xff, family))
       [0..<SECTOR_SIZE div PAGE_SIZE]"

definition with_erased_sector :: "byte list \<Rightarrow> int \<Rightarrow> erase_error + byte list" where
  "with_erased_sector uf2 address =
     (if address mod int SECTOR_SIZE \<noteq> 0 then Inl (Unaligned address)
      else and_then (e_blocks uf2) (\<lambda>blocks.
        let main = filter (\<lambda>b. \<not> not_main (fst b)) blocks in
        if main = [] then Inl WritesNothing
        else case find (overlaps address) main of
          Some b \<Rightarrow> Inl (Overlap (e_target b) address)
        | None \<Rightarrow>
            (let flags = fst (hd main); family = snd (snd (snd (hd main)));
                 ordered = sort_key e_target (blocks @ erased_pages flags family address) in
             emit_blocks (length ordered) 0 ordered)))"

subsection \<open>Parsing what was emitted\<close>

lemma pack_header_Inr:
  "pack_header ns = Inr bs \<longleftrightarrow>
   (\<forall>n \<in> set ns. 0 \<le> n \<and> n < 2 ^ 32) \<and> bs = concat (map (u32_bytes \<circ> nat) ns)"
  by (induction ns arbitrary: bs) (auto simp: pack_u32_def)

declare pack_header.simps [simp del]

lemma u32_at_concat_u32:
  "i < length ns \<Longrightarrow> \<forall>n \<in> set ns. n < 2 ^ 32 \<Longrightarrow>
   u32_at (concat (map u32_bytes ns) @ ys) (4 * i) = ns ! i"
proof (induction ns arbitrary: i)
  case (Cons n ns)
  show ?case
  proof (cases i)
    case 0
    with Cons.prems show ?thesis by (simp add: u32_at_bytes)
  next
    case (Suc j)
    have "u32_at (concat (map u32_bytes (n # ns)) @ ys) (4 * i) =
      u32_at (u32_bytes n @ (concat (map u32_bytes ns) @ ys)) (length (u32_bytes n) + 4 * j)"
      by (simp add: Suc)
    also have "\<dots> = u32_at (concat (map u32_bytes ns) @ ys) (4 * j)" by (rule u32_at_append)
    finally show ?thesis using Cons Suc by simp
  qed
qed simp

definition eblock_ok :: "eblock \<Rightarrow> bool" where
  "eblock_ok b = (case b of (flags, target, payload, family) \<Rightarrow>
     flags < 2 ^ 32 \<and> 0 \<le> target \<and> target < 2 ^ 32 \<and> length payload \<le> UF2_MAX_PAYLOAD \<and> family < 2 ^ 32)"

definition numbers :: "nat \<Rightarrow> nat \<Rightarrow> eblock \<Rightarrow> nat list" where
  "numbers num_blocks number b = (case b of (flags, target, payload, family) \<Rightarrow>
     [UF2_MAGIC_START0, UF2_MAGIC_START1, flags, nat target, length payload, number, num_blocks, family])"

lemma emit_block_Inr:
  assumes "length (e_payload b) \<le> UF2_MAX_PAYLOAD"
  shows "emit_block num_blocks number b = Inr out \<longleftrightarrow>
    eblock_ok b \<and> number < 2 ^ 32 \<and> num_blocks < 2 ^ 32 \<and>
    out = concat (map u32_bytes (numbers num_blocks number b)) @ ljust0 (e_payload b) 476
      @ u32_bytes UF2_MAGIC_END"
  using assms
  by (cases b) (auto simp: emit_block_def pack_header_Inr eblock_ok_def numbers_def uf2_consts
      e_payload_def)


lemma emitted_length [simp]:
  "length (concat (map u32_bytes (numbers num_blocks number b))) = 32"
  by (cases b) (simp add: numbers_def)

lemma nth_numbers:
  "b = (flags, target, payload, family) \<Longrightarrow>
   numbers num_blocks number b ! 0 = UF2_MAGIC_START0 \<and> numbers num_blocks number b ! 1 = UF2_MAGIC_START1 \<and>
   numbers num_blocks number b ! 2 = flags \<and> numbers num_blocks number b ! 3 = nat target \<and>
   numbers num_blocks number b ! 4 = length payload \<and> numbers num_blocks number b ! 5 = number \<and>
   numbers num_blocks number b ! 6 = num_blocks \<and> numbers num_blocks number b ! 7 = family"
  by (simp add: numbers_def)

lemma numbers_bound:
  "eblock_ok b \<Longrightarrow> number < 2 ^ 32 \<Longrightarrow> num_blocks < 2 ^ 32 \<Longrightarrow>
   \<forall>n \<in> set (numbers num_blocks number b). n < 2 ^ 32"
  by (cases b) (auto simp: numbers_def eblock_ok_def uf2_consts)

text \<open>What the parser reads at the start of an emitted block.\<close>

lemma e_block_emitted:
  assumes ok: "eblock_ok b" "number < 2 ^ 32" "num_blocks < 2 ^ 32"
    and "data = concat (map u32_bytes (numbers num_blocks number b)) @ ljust0 (e_payload b) 476
      @ u32_bytes UF2_MAGIC_END @ rest"
  shows "e_block data 0 = Inr b \<and> u32_at data 20 = number \<and> u32_at data 24 = num_blocks"
proof -
  obtain flags target payload family where b: "b = (flags, target, payload, family)" by (cases b)
  let ?ns = "numbers num_blocks number b"
  define tail where "tail = ljust0 payload 476 @ u32_bytes UF2_MAGIC_END @ rest"
  have data: "data = concat (map u32_bytes ?ns) @ tail"
    using assms(4) by (simp add: tail_def b e_payload_def)
  have at: "u32_at data (4 * i) = ?ns ! i" if "i < 8" for i
    unfolding data using that numbers_bound[OF ok] by (intro u32_at_concat_u32) (simp_all add: numbers_def b)
  from at[of 0] at[of 1] at[of 2] at[of 3] at[of 4] at[of 5] at[of 6] at[of 7]
  have fields: "u32_at data 0 = UF2_MAGIC_START0" "u32_at data 4 = UF2_MAGIC_START1"
    "u32_at data 8 = flags" "u32_at data 12 = nat target" "u32_at data 16 = length payload"
    "u32_at data 20 = number" "u32_at data 24 = num_blocks" "u32_at data 28 = family"
    using nth_numbers[OF b, of num_blocks number] by simp_all
  have len: "length payload \<le> 476" using ok(1) by (simp add: eblock_ok_def b uf2_consts)
  have "data = (concat (map u32_bytes ?ns) @ ljust0 payload 476) @ u32_bytes UF2_MAGIC_END @ rest"
    by (simp add: data tail_def)
  then have "u32_at data (length (concat (map u32_bytes ?ns) @ ljust0 payload 476) + 0) =
    u32_at (u32_bytes UF2_MAGIC_END @ rest) 0" by (metis u32_at_append)
  then have end': "u32_at data 508 = UF2_MAGIC_END"
    using len by (simp add: ljust0_def u32_at_bytes uf2_consts)
  have "drop 32 data = tail" by (simp add: data)
  then have pay: "take (length payload) (drop 32 data) = payload"
    by (simp add: tail_def ljust0_def)
  show ?thesis
    using fields end' pay ok(1) len
    by (simp add: e_block_def Let_def b eblock_ok_def uf2_consts)
qed


lemma u32_at_drop: "u32_at data (off + k) = u32_at (drop off data) k"
  by (simp add: u32_at_def add.commute)

lemma e_block_drop: "e_block data off = Inr b \<longleftrightarrow> e_block (drop off data) 0 = Inr b"
  using u32_at_drop[of data off 0]
  by (simp add: e_block_def Let_def u32_at_drop uf2_consts u32_at_def add.commute)

lemma upt_Suc_map: "[0..<Suc n] = 0 # map Suc [0..<n]"
  by (simp add: upt_conv_Cons map_Suc_upt del: upt_Suc)

text \<open>Round trip over the whole list, with the block numbers.\<close>

lemma emit_blocks_parse:
  assumes "emit_blocks num_blocks number bs = Inr out"
    and "\<forall>b \<in> set bs. length (e_payload b) \<le> UF2_MAX_PAYLOAD"
  shows "length out = 512 * length bs \<and>
    e_blocks_at (pre @ out) (map (\<lambda>i. length pre + i * 512) [0..<length bs]) = Inr bs \<and>
    (\<forall>i < length bs. u32_at (pre @ out) (length pre + i * 512 + 20) = number + i \<and>
       u32_at (pre @ out) (length pre + i * 512 + 24) = num_blocks)"
  using assms
proof (induction bs arbitrary: number out pre)
  case (Cons b bs)
  from Cons.prems(1) obtain o1 o2 where o1: "emit_block num_blocks number b = Inr o1"
    and o2: "emit_blocks num_blocks (Suc number) bs = Inr o2" and out: "out = o1 @ o2" by auto
  from Cons.prems(2) have pl: "length (e_payload b) \<le> UF2_MAX_PAYLOAD" by simp
  note o1' = o1[unfolded emit_block_Inr[OF pl]]
  then have len1: "length o1 = 512" using pl by (simp add: ljust0_def uf2_consts)
  from o1' have hd: "e_block d 0 = Inr b \<and> u32_at d 20 = number \<and> u32_at d 24 = num_blocks"
    if "d = o1 @ o2" for d
    using that by (intro e_block_emitted[where rest = o2]) simp_all
  have first: "e_block (pre @ out) (length pre) = Inr b"
    using hd[OF refl] by (subst e_block_drop) (simp add: out)
  have num: "u32_at (pre @ out) (length pre + 20) = number"
    "u32_at (pre @ out) (length pre + 24) = num_blocks"
    unfolding u32_at_drop using hd[OF refl] by (simp_all add: out)
  from Cons.IH[OF o2, of "pre @ o1"] Cons.prems(2)
  have ih: "length o2 = 512 * length bs"
    "e_blocks_at (pre @ out) (map (\<lambda>i. length pre + 512 + i * 512) [0..<length bs]) = Inr bs"
    "\<forall>i < length bs. u32_at (pre @ out) (length pre + 512 + i * 512 + 20) = Suc number + i \<and>
       u32_at (pre @ out) (length pre + 512 + i * 512 + 24) = num_blocks"
    by (simp_all add: len1 out)
  have "\<forall>i < length (b # bs). u32_at (pre @ out) (length pre + i * 512 + 20) = number + i \<and>
       u32_at (pre @ out) (length pre + i * 512 + 24) = num_blocks"
  proof (intro allI impI)
    fix i assume "i < length (b # bs)"
    then show "u32_at (pre @ out) (length pre + i * 512 + 20) = number + i \<and>
       u32_at (pre @ out) (length pre + i * 512 + 24) = num_blocks"
      using num ih(3)[rule_format, of "i - 1"] by (cases i) (simp_all add: add.assoc add.left_commute)
  qed
  moreover have "e_blocks_at (pre @ out) (map (\<lambda>i. length pre + i * 512) [0..<length (b # bs)]) = Inr (b # bs)"
    using first ih(2) unfolding list.size(4) add_Suc_right add_0_right upt_Suc_map
    by (simp add: comp_def add.assoc)
  ultimately show ?case using ih(1) len1 by (simp add: out)
qed simp

lemma emit_blocks_e_blocks:
  assumes "emit_blocks num_blocks 0 bs = Inr out" and "bs \<noteq> []"
    and "\<forall>b \<in> set bs. length (e_payload b) \<le> UF2_MAX_PAYLOAD"
  shows "length out = 512 * length bs \<and> e_blocks out = Inr bs \<and>
    (\<forall>i < length bs. u32_at out (i * 512 + 20) = i \<and> u32_at out (i * 512 + 24) = num_blocks)"
proof -
  from emit_blocks_parse[OF assms(1,3), of "[]"]
  have r: "length out = 512 * length bs" "e_blocks_at out (map (\<lambda>i. i * 512) [0..<length bs]) = Inr bs"
    "\<forall>i < length bs. u32_at out (i * 512 + 20) = i \<and> u32_at out (i * 512 + 24) = num_blocks"
    by simp_all
  moreover from r(1) assms(2) have "out \<noteq> []" by auto
  ultimately show ?thesis by (simp add: e_blocks_def offsets_def uf2_consts)
qed

subsection \<open>The two parsers agree\<close>

definition e_writes :: "eblock \<Rightarrow> flash_writes" where
  "e_writes b = (case b of (flags, target, payload, family) \<Rightarrow>
     if not_main flags then []
     else map (\<lambda>i. (target + int i, payload ! i)) [0..<length payload])"

definition all_e_writes :: "eblock list \<Rightarrow> flash_writes" where
  "all_e_writes bs = concat (map e_writes bs)"

lemma unat_byte_less: "unat (b :: byte) < 256"
  by (rule order.strict_trans2[OF unsigned_less]) simp

lemma le32_bound: "le32 bs < 2 ^ 32"
  using unat_byte_less[of "bs ! 0"] unat_byte_less[of "bs ! 1"] unat_byte_less[of "bs ! 2"]
    unat_byte_less[of "bs ! 3"]
  by (simp add: le32_def)

lemma u32_at_bound: "u32_at data off < 2 ^ 32"
  by (simp only: u32_at_def le32_bound)

lemma e_block_uf2:
  assumes "e_block uf2 off = Inr e" and "off + 512 \<le> length uf2"
  shows "\<exists>b. uf2_block uf2 off = Inr b \<and> block_writes uf2 b = e_writes e \<and> eblock_ok e"
proof -
  from assms(1) have ok: "u32_at uf2 off = UF2_MAGIC_START0" "u32_at uf2 (off + 4) = UF2_MAGIC_START1"
    "u32_at uf2 (off + UF2_BLOCK_SIZE - 4) = UF2_MAGIC_END" "u32_at uf2 (off + 16) \<le> UF2_MAX_PAYLOAD"
    and e: "e = (u32_at uf2 (off + 8), int (u32_at uf2 (off + 12)),
      take (u32_at uf2 (off + 16)) (drop (off + UF2_HEADER_SIZE) uf2), u32_at uf2 (off + 28))"
    by (auto simp: e_block_def Let_def split: if_splits)
  have le: "u32_at uf2 (off + 16) \<le> length uf2 - (off + 32)"
    using ok(4) assms(2) by (simp add: uf2_consts)
  have nth: "take (u32_at uf2 (off + 16)) (drop (off + UF2_HEADER_SIZE) uf2) ! i =
      uf2 ! (off + UF2_HEADER_SIZE + i)" if "i < u32_at uf2 (off + 16)" for i
    using that assms(2) by (simp add: uf2_consts)
  have ok': "eblock_ok e"
    using u32_at_bound[of uf2 "off + 8"] u32_at_bound[of uf2 "off + 12"] u32_at_bound[of uf2 "off + 28"] ok(4)
    by (simp add: e eblock_ok_def)
  have len: "length (take (u32_at uf2 (off + 16)) (drop (off + UF2_HEADER_SIZE) uf2)) = u32_at uf2 (off + 16)"
    using le by (simp add: uf2_consts)
  have "block_writes uf2 (off, u32_at uf2 (off + 8), u32_at uf2 (off + 12), u32_at uf2 (off + 16)) = e_writes e"
    unfolding block_writes_def e_writes_def e using nth by (simp add: len del: length_take length_drop)
  moreover have "uf2_block uf2 off = Inr (off, u32_at uf2 (off + 8), u32_at uf2 (off + 12), u32_at uf2 (off + 16))"
    using ok by (simp add: uf2_block_def)
  ultimately show ?thesis using ok' by blast
qed

lemma e_blocks_at_uf2:
  assumes "e_blocks_at uf2 offs = Inr es" and "\<forall>off \<in> set offs. off + 512 \<le> length uf2"
  shows "\<exists>bs. uf2_blocks_at uf2 offs = Inr bs \<and> all_writes uf2 bs = all_e_writes es \<and> (\<forall>e \<in> set es. eblock_ok e)"
  using assms
proof (induction offs arbitrary: es)
  case Nil
  then show ?case by (simp add: all_writes_def all_e_writes_def)
next
  case (Cons off offs)
  then obtain e es' where e: "e_block uf2 off = Inr e" "e_blocks_at uf2 offs = Inr es'" "es = e # es'"
    by auto
  from e_block_uf2[OF e(1)] Cons.prems(2) obtain b where
    b: "uf2_block uf2 off = Inr b" "block_writes uf2 b = e_writes e" "eblock_ok e" by auto
  from Cons.IH[OF e(2)] Cons.prems(2) obtain bs where
    bs: "uf2_blocks_at uf2 offs = Inr bs" "all_writes uf2 bs = all_e_writes es'" "\<forall>e \<in> set es'. eblock_ok e"
    by auto
  from b bs have "uf2_blocks_at uf2 (off # offs) = Inr (b # bs)" by simp
  moreover from b bs have "all_writes uf2 (b # bs) = all_e_writes (e # es')"
    by (simp add: all_writes_def all_e_writes_def)
  ultimately show ?case using b bs e(3) by auto
qed

lemma offsets_in: "off \<in> set (offsets uf2) \<Longrightarrow> off + 512 \<le> length uf2"
proof -
  assume "off \<in> set (offsets uf2)"
  then obtain i where "off = i * 512" "i < length uf2 div 512" by (auto simp: offsets_def uf2_consts)
  then have "off + 512 \<le> (length uf2 div 512) * 512"
    by (metis Suc_leI add.commute mult_Suc mult_le_mono1)
  then show ?thesis using div_times_less_eq_dividend[of "length uf2" 512] by linarith
qed

lemma e_blocks_uf2:
  assumes "e_blocks uf2 = Inr es"
  shows "\<exists>bs. uf2_blocks uf2 = Inr bs \<and> all_writes uf2 bs = all_e_writes es \<and> (\<forall>e \<in> set es. eblock_ok e)"
proof -
  from assms have "e_blocks_at uf2 (offsets uf2) = Inr es" "uf2 \<noteq> []" "length uf2 mod UF2_BLOCK_SIZE = 0"
    by (auto simp: e_blocks_def split: if_splits)
  with e_blocks_at_uf2[OF this(1)] offsets_in show ?thesis by (simp add: uf2_blocks_def)
qed

subsection \<open>The emitted container\<close>

lemma erased_pages_ok:
  "b \<in> set (erased_pages flags family a) \<Longrightarrow> length (e_payload b) = 256 \<and> fst b = flags"
  by (auto simp: erased_pages_def e_payload_def PAGE_SIZE_def)

text \<open>What a successful call computed.\<close>

lemma with_erased_sector_Inr:
  assumes "with_erased_sector uf2 a = Inr out"
  obtains blocks flags family ordered where "e_blocks uf2 = Inr blocks" "\<not> not_main flags"
    "\<forall>b \<in> set blocks. \<not> not_main (fst b) \<longrightarrow> \<not> overlaps a b"
    "ordered = sort_key e_target (blocks @ erased_pages flags family a)"
    "emit_blocks (length ordered) 0 ordered = Inr out" "a mod 4096 = 0"
proof -
  from assms obtain blocks where bl: "e_blocks uf2 = Inr blocks" and al: "a mod 4096 = 0"
    by (auto simp: with_erased_sector_def SECTOR_SIZE_def split: if_splits)
  define main where "main = filter (\<lambda>b. \<not> not_main (fst b)) blocks"
  define flags family where "flags = fst (hd main)" and "family = snd (snd (snd (hd main)))"
  from assms bl have ne: "main \<noteq> []" and none: "find (overlaps a) main = None"
    and em: "emit_blocks (length (sort_key e_target (blocks @ erased_pages flags family a))) 0
      (sort_key e_target (blocks @ erased_pages flags family a)) = Inr out"
    by (auto simp: with_erased_sector_def Let_def main_def flags_def family_def
        split: if_splits option.splits)
  from ne have "hd main \<in> set main" by simp
  then have "\<not> not_main flags" by (auto simp: main_def flags_def)
  moreover from none have "\<forall>b \<in> set blocks. \<not> not_main (fst b) \<longrightarrow> \<not> overlaps a b"
    unfolding find_None_iff main_def set_filter by blast
  ultimately show ?thesis using that[OF bl _ _ refl em al] by blast
qed


lemma ordered_parse:
  assumes "e_blocks uf2 = Inr blocks"
    and "ordered = sort_key e_target (blocks @ erased_pages flags family a)"
    and "emit_blocks (length ordered) 0 ordered = Inr out"
  shows "length out = 512 * length ordered \<and> e_blocks out = Inr ordered \<and>
    (\<forall>i < length ordered. u32_at out (i * 512 + 20) = i \<and> u32_at out (i * 512 + 24) = length ordered)"
proof (rule emit_blocks_e_blocks)
  show "emit_blocks (length ordered) 0 ordered = Inr out" by (rule assms(3))
  have "set ordered = set blocks \<union> set (erased_pages flags family a)" by (simp add: assms(2))
  moreover have "\<forall>b \<in> set blocks. length (e_payload b) \<le> UF2_MAX_PAYLOAD"
    using e_blocks_uf2[OF assms(1)] by (auto simp: eblock_ok_def e_payload_def)
  ultimately show "\<forall>b \<in> set ordered. length (e_payload b) \<le> UF2_MAX_PAYLOAD"
    by (auto simp: uf2_consts dest: erased_pages_ok)
  show "ordered \<noteq> []"
    using assms(2) by (simp add: erased_pages_def SECTOR_SIZE_def PAGE_SIZE_def flip: length_0_conv)
qed

subsection \<open>What the extended container places in flash\<close>

lemma flash_at_filter:
  assumes "P x"
  shows "flash_at (filter (P \<circ> fst) ws) x = flash_at ws x"
  using assms by (induction ws rule: rev_induct) (auto simp: flash_at_def)

lemma flash_at_perm:
  assumes "mset ws = mset ws'" and "distinct (map fst ws)"
  shows "flash_at ws = flash_at ws'"
proof -
  have "distinct (map fst ws')"
    using assms by (metis mset_eq_imp_distinct_iff mset_map)
  moreover have "set ws = set ws'" using assms(1) by (rule mset_eq_setD)
  ultimately show ?thesis
    unfolding flash_at_def using assms(2)
    by (subst map_of_inject_set) (simp_all add: rev_map[symmetric])
qed

lemma mset_all_e_writes: "mset (all_e_writes bs) = (\<Sum>b \<in># mset bs. mset (e_writes b))"
  by (induction bs) (simp_all add: all_e_writes_def)

lemma page_writes_sector:
  assumes "w \<in> set (all_e_writes (erased_pages flags family a))"
  shows "a \<le> fst w \<and> fst w < a + 4096 \<and> snd w = 0xff"
proof -
  from assms obtain i j where "i < 16" "j < 256" "fst w = a + int (i * 256) + int j" "snd w = 0xff"
    by (auto simp: all_e_writes_def e_writes_def erased_pages_def SECTOR_SIZE_def PAGE_SIZE_def
        split: if_splits)
  then show ?thesis by auto
qed

lemma page_writes_cover:
  assumes "\<not> not_main flags" and "j < 4096"
  shows "a + int j \<in> fst ` set (all_e_writes (erased_pages flags family a))"
proof -
  have j: "int j = int (j div 256) * 256 + int (j mod 256)"
    by (metis div_mult_mod_eq of_nat_add of_nat_mult of_nat_numeral)
  have "(flags, a + int (j div 256 * PAGE_SIZE), replicate PAGE_SIZE 0xff, family)
      \<in> set (erased_pages flags family a)"
    using assms(2) by (auto simp: erased_pages_def SECTOR_SIZE_def PAGE_SIZE_def)
  moreover have "(a + int j, 0xff) \<in>
      set (e_writes (flags, a + int (j div 256 * PAGE_SIZE), replicate PAGE_SIZE 0xff, family))"
    using assms(1) j by (auto simp: e_writes_def PAGE_SIZE_def image_iff intro!: bexI[of _ "j mod 256"])
  ultimately show ?thesis unfolding all_e_writes_def by force
qed

lemma block_writes_outside:
  assumes "w \<in> set (all_e_writes blocks)"
    and "\<forall>b \<in> set blocks. \<not> not_main (fst b) \<longrightarrow> \<not> overlaps a b"
  shows "\<not> (a \<le> fst w \<and> fst w < a + 4096)"
proof -
  from assms(1) obtain b where b: "b \<in> set blocks" "w \<in> set (e_writes b)"
    by (auto simp: all_e_writes_def)
  obtain flags t p f where bt: "b = (flags, t, p, f)" by (cases b)
  with b(2) obtain i where i: "i < length p" "fst w = t + int i" "\<not> not_main flags"
    by (auto simp: e_writes_def split: if_splits)
  with assms(2) b(1) bt have "\<not> overlaps a b" by auto
  with i bt show ?thesis by (auto simp: overlaps_def e_target_def e_payload_def SECTOR_SIZE_def)
qed

lemma extract_image_cong:
  assumes "uf2_blocks u = Inr bs" "uf2_blocks v = Inr cs"
    and "\<And>x. s \<le> x \<Longrightarrow> x < s + l \<Longrightarrow> flash_of u bs x = flash_of v cs x"
  shows "extract_image u s l = extract_image v s l"
proof (cases "0 < l")
  case True
  have m1: "map (\<lambda>i. flash_of u bs (s + int i) \<noteq> None) [0..<nat l] =
      map (\<lambda>i. flash_of v cs (s + int i) \<noteq> None) [0..<nat l]"
    using assms(3) by (intro map_cong) auto
  have m2: "map (\<lambda>i. case flash_of u bs (s + int i) of None \<Rightarrow> 0 | Some b \<Rightarrow> b) [0..<nat l] =
      map (\<lambda>i. case flash_of v cs (s + int i) of None \<Rightarrow> 0 | Some b \<Rightarrow> b) [0..<nat l]"
    using assms(3) by (intro map_cong) auto
  show ?thesis
    unfolding extract_image_cases[OF True assms(1)] extract_image_cases[OF True assms(2)] m1 m2 ..
qed (simp add: extract_image_def)

subsection \<open>When the sector can be added\<close>

lemma emit_blocks_ok:
  assumes "\<forall>b \<in> set bs. length (e_payload b) \<le> UF2_MAX_PAYLOAD" and "bs \<noteq> []"
  shows "is_ok (emit_blocks n k bs) \<longleftrightarrow> (\<forall>b \<in> set bs. eblock_ok b) \<and> n < 2 ^ 32 \<and> k + length bs \<le> 2 ^ 32"
  using assms
proof (induction bs arbitrary: k)
  case (Cons b bs)
  then have len: "length (e_payload b) \<le> UF2_MAX_PAYLOAD" by simp
  have one: "is_ok (emit_block n k b) \<longleftrightarrow> eblock_ok b \<and> k < 2 ^ 32 \<and> n < 2 ^ 32"
    unfolding is_ok_iff emit_block_Inr[OF len] by blast
  have step: "is_ok (emit_blocks n k (b # bs)) \<longleftrightarrow> is_ok (emit_block n k b) \<and> is_ok (emit_blocks n (Suc k) bs)"
    by (auto simp: is_ok_iff)
  show ?case
  proof (cases "bs = []")
    case True
    then show ?thesis unfolding step one by auto
  next
    case False
    with Cons show ?thesis unfolding step one by auto
  qed
qed simp

lemma pages_ok_iff:
  assumes "flags < 2 ^ 32" "family < 2 ^ 32" "a mod 4096 = 0"
  shows "(\<forall>b \<in> set (erased_pages flags family a). eblock_ok b) \<longleftrightarrow> 0 \<le> a \<and> a + 4096 \<le> 2 ^ 32"
proof
  assume all: "\<forall>b \<in> set (erased_pages flags family a). eblock_ok b"
  have "(flags, a + int (i * PAGE_SIZE), replicate PAGE_SIZE 0xff, family) \<in> set (erased_pages flags family a)"
    if "i < 16" for i using that by (auto simp: erased_pages_def SECTOR_SIZE_def PAGE_SIZE_def)
  with all have ok: "eblock_ok (flags, a + int (i * PAGE_SIZE), replicate PAGE_SIZE 0xff, family)"
    if "i < 16" for i using that by blast
  from ok[of 0] ok[of 15] have "0 \<le> a" "a + 3840 < 2 ^ 32" by (auto simp: eblock_ok_def PAGE_SIZE_def)
  moreover obtain q where "a = 4096 * q" using assms(3) by (auto simp: mod_eq_0_iff_dvd dvd_def)
  ultimately show "0 \<le> a \<and> a + 4096 \<le> 2 ^ 32" by simp
next
  assume "0 \<le> a \<and> a + 4096 \<le> 2 ^ 32"
  with assms show "\<forall>b \<in> set (erased_pages flags family a). eblock_ok b"
    by (auto simp: erased_pages_def eblock_ok_def uf2_consts SECTOR_SIZE_def PAGE_SIZE_def)
qed

lemma with_erased_sector_ok_iff:
  "(\<exists>out. with_erased_sector uf2 a = Inr out) \<longleftrightarrow>
   a mod 4096 = 0 \<and> 0 \<le> a \<and> a + 4096 \<le> 2 ^ 32 \<and>
   (\<exists>blocks. e_blocks uf2 = Inr blocks \<and> length blocks + 16 < 2 ^ 32 \<and>
      (\<exists>b \<in> set blocks. \<not> not_main (fst b)) \<and>
      (\<forall>b \<in> set blocks. \<not> not_main (fst b) \<longrightarrow> \<not> overlaps a b))"
proof (cases "e_blocks uf2")
  case (Inl e)
  then show ?thesis by (simp add: with_erased_sector_def)
next
  case (Inr blocks)
  define main where "main = filter (\<lambda>b. \<not> not_main (fst b)) blocks"
  define flags family where "flags = fst (hd main)" and "family = snd (snd (snd (hd main)))"
  define ordered where "ordered = sort_key e_target (blocks @ erased_pages flags family a)"
  from e_blocks_uf2[OF Inr] have ok: "\<forall>b \<in> set blocks. eblock_ok b" by blast
  have len: "length ordered = length blocks + 16"
    by (simp add: ordered_def erased_pages_def SECTOR_SIZE_def PAGE_SIZE_def)
  have so: "set ordered = set blocks \<union> set (erased_pages flags family a)" by (simp add: ordered_def)
  have pay: "\<forall>b \<in> set ordered. length (e_payload b) \<le> UF2_MAX_PAYLOAD"
    using ok by (auto simp: so eblock_ok_def e_payload_def uf2_consts dest: erased_pages_ok[unfolded e_payload_def])
  have ne: "ordered \<noteq> []" using len by auto
  have emit: "is_ok (emit_blocks (length ordered) 0 ordered) \<longleftrightarrow>
      0 \<le> a \<and> a + 4096 \<le> 2 ^ 32 \<and> length blocks + 16 < 2 ^ 32"
    if "main \<noteq> []" "a mod 4096 = 0"
  proof -
    from that(1) have "hd main \<in> set blocks" using hd_in_set[OF that(1)] by (simp add: main_def)
    with ok have "eblock_ok (hd main)" by blast
    then have "flags < 2 ^ 32" "family < 2 ^ 32"
      by (cases "hd main"; simp add: flags_def family_def eblock_ok_def)+
    from pages_ok_iff[OF this that(2)] show ?thesis
      unfolding emit_blocks_ok[OF pay ne] so len using ok by auto
  qed
  have len': "length blocks + length (erased_pages flags family a) = length ordered"
    by (simp add: ordered_def)
  have "(\<exists>out. with_erased_sector uf2 a = Inr out) \<longleftrightarrow>
      a mod 4096 = 0 \<and> main \<noteq> [] \<and> find (overlaps a) main = None \<and>
      is_ok (emit_blocks (length ordered) 0 ordered)"
    using Inr by (simp add: with_erased_sector_def Let_def is_ok_iff SECTOR_SIZE_def main_def[symmetric]
        flags_def[symmetric] family_def[symmetric] ordered_def[symmetric] len' split: option.splits)
  also have "\<dots> \<longleftrightarrow> a mod 4096 = 0 \<and> main \<noteq> [] \<and> find (overlaps a) main = None \<and>
      0 \<le> a \<and> a + 4096 \<le> 2 ^ 32 \<and> length blocks + 16 < 2 ^ 32"
    by (cases "main \<noteq> [] \<and> a mod 4096 = 0") (auto simp: emit)
  also have "main \<noteq> [] \<longleftrightarrow> (\<exists>b \<in> set blocks. \<not> not_main (fst b))"
    by (simp add: main_def filter_empty_conv)
  also have "find (overlaps a) main = None \<longleftrightarrow> (\<forall>b \<in> set blocks. \<not> not_main (fst b) \<longrightarrow> \<not> overlaps a b)"
    unfolding find_None_iff main_def set_filter by blast
  finally show ?thesis using Inr by auto
qed


subsection \<open>A concrete container\<close>

text \<open>One three-byte block at the start of RP2040 flash.\<close>

definition demo_block :: eblock where
  "demo_block = (0x2000, 0x10000000, [1, 2, 3], 0xE48BFF56)"

lemma demo_container:
  obtains uf2 where "e_blocks uf2 = Inr [demo_block]"
proof -
  have "is_ok (emit_blocks 1 0 [demo_block])"
    by (subst emit_blocks_ok) (simp_all add: demo_block_def e_payload_def eblock_ok_def uf2_consts)
  then obtain uf2 where "emit_blocks 1 0 [demo_block] = Inr uf2" by (auto simp: is_ok_iff)
  then have "e_blocks uf2 = Inr [demo_block]"
    using emit_blocks_e_blocks[of 1 "[demo_block]" uf2]
    by (simp add: demo_block_def e_payload_def uf2_consts)
  then show ?thesis by (rule that)
qed

lemma demo_extended:
  obtains uf2 out where "e_blocks uf2 = Inr [demo_block]" "with_erased_sector uf2 0x10004000 = Inr out"
proof -
  obtain uf2 where uf2: "e_blocks uf2 = Inr [demo_block]" by (rule demo_container)
  have "\<exists>out. with_erased_sector uf2 0x10004000 = Inr out" unfolding with_erased_sector_ok_iff uf2
    by (simp add: demo_block_def not_main_def overlaps_def e_target_def e_payload_def)
  then show ?thesis using uf2 that by blast
qed

text \<open>The extended container is well formed: it parses, its blocks are exactly the original
  blocks plus sixteen pages at the application address, in non-decreasing address order, and
  block number i of n carries the number i and the total n, so the ROM counts every block
  before it reboots and never comes back to a sector it has left.\<close>

theorem with_erased_sector_blocks:
  assumes "with_erased_sector uf2 a = Inr out"
  shows "\<exists>blocks flags family ordered.
    e_blocks uf2 = Inr blocks \<and> e_blocks out = Inr ordered \<and> \<not> not_main flags \<and>
    mset ordered = mset blocks + mset (erased_pages flags family a) \<and>
    sorted (map e_target ordered) \<and> length out = 512 * length ordered \<and>
    (\<forall>i < length ordered. u32_at out (i * 512 + 20) = i \<and> u32_at out (i * 512 + 24) = length ordered)"
proof -
  from with_erased_sector_Inr[OF assms] obtain blocks flags family ordered where
    w: "e_blocks uf2 = Inr blocks" "\<not> not_main flags"
    "ordered = sort_key e_target (blocks @ erased_pages flags family a)"
    "emit_blocks (length ordered) 0 ordered = Inr out" by metis
  from ordered_parse[OF w(1,3,4)] w show ?thesis
    by (intro exI[of _ blocks] exI[of _ flags] exI[of _ family] exI[of _ ordered]) simp
qed

theorem with_erased_sector_blocks_witness:
  "\<exists>uf2 out. with_erased_sector uf2 0x10004000 = Inr out \<and> length out = 512 * 17"
proof -
  obtain uf2 out where d: "e_blocks uf2 = Inr [demo_block]" "with_erased_sector uf2 0x10004000 = Inr out"
    by (rule demo_extended)
  from with_erased_sector_blocks[OF d(2)] obtain flags family ordered where
    o: "mset ordered = mset [demo_block] + mset (erased_pages flags family 0x10004000)"
    "length out = 512 * length ordered" by (auto simp: d(1))
  from arg_cong[OF o(1), of size] have "length ordered = 17"
    by (simp add: erased_pages_def SECTOR_SIZE_def PAGE_SIZE_def)
  with o(2) d(2) show ?thesis by auto
qed

lemma with_erased_sector_effect:
  assumes "with_erased_sector uf2 a = Inr out"
  shows "extract_image out a 4096 = Inr (replicate 4096 0xff) \<and>
    (\<forall>blocks s l. e_blocks uf2 = Inr blocks \<and> distinct (map fst (all_e_writes blocks)) \<and>
       (s + l \<le> a \<or> a + 4096 \<le> s) \<longrightarrow> extract_image out s l = extract_image uf2 s l)"
proof -
  from with_erased_sector_Inr[OF assms] obtain blocks flags family ordered where
    w: "e_blocks uf2 = Inr blocks" "\<not> not_main flags"
    "\<forall>b \<in> set blocks. \<not> not_main (fst b) \<longrightarrow> \<not> overlaps a b"
    "ordered = sort_key e_target (blocks @ erased_pages flags family a)"
    "emit_blocks (length ordered) 0 ordered = Inr out" by metis
  let ?pages = "erased_pages flags family a"
  from ordered_parse[OF w(1,4,5)] have eo: "e_blocks out = Inr ordered" by simp
  from e_blocks_uf2[OF this] obtain obs where
    obs: "uf2_blocks out = Inr obs" "all_writes out obs = all_e_writes ordered" by auto
  from e_blocks_uf2[OF w(1)] obtain ubs where
    ubs: "uf2_blocks uf2 = Inr ubs" "all_writes uf2 ubs = all_e_writes blocks" by auto
  have ms: "mset (all_e_writes ordered) = mset (all_e_writes blocks) + mset (all_e_writes ?pages)"
    by (simp add: mset_all_e_writes w(4))
  have sw: "set (all_e_writes ordered) = set (all_e_writes blocks) \<union> set (all_e_writes ?pages)"
    by (metis ms set_mset_mset set_mset_union)
  have ff: "flash_of out obs (a + int j) = Some 0xff" if "j < 4096" for j
  proof -
    have "a + int j \<in> fst ` set (all_e_writes ordered)"
      using page_writes_cover[OF w(2) that, of a family] by (auto simp: sw)
    then obtain b where b: "flash_at (all_e_writes ordered) (a + int j) = Some b"
      by (metis flash_at_None not_None_eq)
    then have "(a + int j, b) \<in> set (all_e_writes ordered)"
      by (auto simp: flash_at_def dest: map_of_SomeD)
    then have "b = 0xff"
      using block_writes_outside[OF _ w(3), of "(a + int j, b)"] page_writes_sector[of "(a + int j, b)"] that
      by (auto simp: sw)
    with b show ?thesis by (simp add: flash_of_def obs(2))
  qed
  have "map (\<lambda>i. flash_of out obs (a + int i) \<noteq> None) [0..<4096] = replicate 4096 True"
    "map (\<lambda>i. case flash_of out obs (a + int i) of None \<Rightarrow> 0 | Some b \<Rightarrow> b) [0..<4096] = replicate 4096 0xff"
    by (simp_all add: list_eq_iff_nth_eq ff)
  moreover have "first_uncovered (replicate n True) = None" for n by (simp add: first_uncovered_None)
  ultimately have "extract_image out a 4096 = Inr (replicate 4096 0xff)"
    by (simp add: extract_image_cases[OF _ obs(1)] Let_def)
  moreover have "extract_image out s l = extract_image uf2 s l"
    if "distinct (map fst (all_e_writes blocks))" and out: "s + l \<le> a \<or> a + 4096 \<le> s" for s l
  proof (rule extract_image_cong[OF obs(1) ubs(1)])
    fix x assume x: "s \<le> x" "x < s + l"
    define P where "P = (\<lambda>x. \<not> (a \<le> x \<and> x < a + 4096))"
    have P: "P x" using x out by (auto simp: P_def)
    have "filter (P \<circ> fst) (all_e_writes ?pages) = []"
      by (auto simp: filter_empty_conv P_def dest: page_writes_sector)
    then have "mset (filter (P \<circ> fst) (all_e_writes ordered)) = mset (filter (P \<circ> fst) (all_e_writes blocks))"
      using ms by (metis add.right_neutral filter_union_mset mset.simps(1) mset_filter)
    moreover have "distinct (map fst (filter (P \<circ> fst) (all_e_writes blocks)))"
      using that(1) by (rule distinct_map_filter)
    ultimately have "flash_at (all_e_writes ordered) x = flash_at (all_e_writes blocks) x"
      using flash_at_perm flash_at_filter[of P x] P by metis
    then show "flash_of out obs x = flash_of uf2 ubs x" by (simp add: flash_of_def obs ubs)
  qed
  ultimately show ?thesis using w(1) by auto
qed

text \<open>C5: in the extended container the whole application sector reads back as 0xff, so no vector
  table of an earlier firmware survives there, and Katapult itself is untouched: over every
  range outside the sector the image extracted from the new container is the one extracted
  from the old (the same bytes, or the same missing address), for a container that writes no
  address twice.\<close>

theorem with_erased_sector_flash:
  assumes "with_erased_sector uf2 a = Inr out"
  shows "extract_image out a 4096 = Inr (replicate 4096 0xff) \<and>
    (\<forall>blocks s l. e_blocks uf2 = Inr blocks \<and> distinct (map fst (all_e_writes blocks)) \<and>
       (s + l \<le> a \<or> a + 4096 \<le> s) \<longrightarrow> extract_image out s l = extract_image uf2 s l)"
  by (rule with_erased_sector_effect[OF assms])

theorem with_erased_sector_flash_witness:
  "\<exists>uf2 out. with_erased_sector uf2 0x10004000 = Inr out \<and>
     extract_image out 0x10004000 4096 = Inr (replicate 4096 0xff) \<and>
     extract_image out 0x10000000 3 = extract_image uf2 0x10000000 3"
proof -
  obtain uf2 out where d: "e_blocks uf2 = Inr [demo_block]" "with_erased_sector uf2 0x10004000 = Inr out"
    by (rule demo_extended)
  have "distinct (map fst (all_e_writes [demo_block]))"
    by (simp add: all_e_writes_def e_writes_def demo_block_def not_main_def distinct_map inj_on_def)
  with with_erased_sector_flash[OF d(2)] d(1)
  have "extract_image out 0x10004000 4096 = Inr (replicate 4096 0xff)"
    "extract_image out 0x10000000 3 = extract_image uf2 0x10000000 3"
    by (auto elim!: allE[of _ "0x10000000"] allE[of _ 3])
  with d(2) show ?thesis by blast
qed

text \<open>\<open>with_erased_sector\<close> succeeds exactly on a readable container that writes flash, for a
  sector-aligned address whose sector lies in the 32-bit address space and is written by no
  block of the container, as long as the block count stays below 2 to the 32; in every other
  case it is one of its errors.\<close>

theorem with_erased_sector_total:
  "(\<exists>out. with_erased_sector uf2 a = Inr out) \<longleftrightarrow>
   a mod 4096 = 0 \<and> 0 \<le> a \<and> a + 4096 \<le> 2 ^ 32 \<and>
   (\<exists>blocks. e_blocks uf2 = Inr blocks \<and> length blocks + 16 < 2 ^ 32 \<and>
      (\<exists>b \<in> set blocks. \<not> not_main (fst b)) \<and>
      (\<forall>b \<in> set blocks. \<not> not_main (fst b) \<longrightarrow> \<not> overlaps a b))"
  by (rule with_erased_sector_ok_iff)

theorem with_erased_sector_total_witness:
  "\<exists>uf2. (\<exists>out. with_erased_sector uf2 0x10004000 = Inr out) \<and>
     with_erased_sector uf2 0x10004001 = Inl (Unaligned 0x10004001) \<and>
     \<not> (\<exists>out. with_erased_sector uf2 0x10000000 = Inr out)"
proof -
  obtain uf2 where uf2: "e_blocks uf2 = Inr [demo_block]" by (rule demo_container)
  note at = with_erased_sector_total[of uf2, unfolded uf2]
  have "\<exists>out. with_erased_sector uf2 0x10004000 = Inr out" unfolding at
    by (simp add: demo_block_def not_main_def overlaps_def e_target_def e_payload_def)
  moreover have "\<not> (\<exists>out. with_erased_sector uf2 0x10000000 = Inr out)" unfolding at
    by (simp add: demo_block_def not_main_def overlaps_def e_target_def e_payload_def SECTOR_SIZE_def)
  moreover have "with_erased_sector uf2 0x10004001 = Inl (Unaligned 0x10004001)"
    by (simp add: with_erased_sector_def SECTOR_SIZE_def)
  ultimately show ?thesis by blast
qed

lemma demo_uf2:
  assumes "e_blocks uf2 = Inr [demo_block]"
  shows "uf2_blocks uf2 = Inr [(0, 0x2000, 0x10000000, 3)]"
    and "flash_of uf2 [(0, 0x2000, 0x10000000, 3)] = [0x10000000 \<mapsto> 1, 0x10000001 \<mapsto> 2, 0x10000002 \<mapsto> 3]"
proof -
  have at: "e_blocks_at uf2 (offsets uf2) = Inr [demo_block]" and ne: "uf2 \<noteq> []" "length uf2 mod UF2_BLOCK_SIZE = 0"
    using assms by (auto simp: e_blocks_def split: if_splits)
  have "length offs = length es" if "e_blocks_at u offs = Inr es" for u offs es
    using that by (induction offs arbitrary: es) auto
  from this[OF at] have "length uf2 div UF2_BLOCK_SIZE = 1" by (simp add: offsets_def)
  then have offs: "offsets uf2 = [0]" by (simp add: offsets_def)
  with at have eb: "e_block uf2 0 = Inr demo_block" by auto
  then have pay: "take (u32_at uf2 16) (drop 32 uf2) = [1, 2, 3]" and u: "u32_at uf2 8 = 0x2000"
    "u32_at uf2 12 = 0x10000000"
    by (auto simp: e_block_def Let_def demo_block_def uf2_consts split: if_splits)
  have "512 \<le> length uf2" using offsets_in[of 0 uf2] offs by simp
  moreover have "u32_at uf2 16 \<le> 476" using eb by (auto simp: e_block_def Let_def uf2_consts split: if_splits)
  ultimately have n: "u32_at uf2 16 = 3" using arg_cong[OF pay, of length] by simp
  with eb u have "uf2_block uf2 0 = Inr (0, 0x2000, 0x10000000, 3)"
    by (auto simp: e_block_def uf2_block_def Let_def split: if_splits)
  with offs ne show bs: "uf2_blocks uf2 = Inr [(0, 0x2000, 0x10000000, 3)]"
    by (simp add: uf2_blocks_def)
  from e_blocks_uf2[OF assms] bs
  have "all_writes uf2 [(0, 0x2000, 0x10000000, 3)] = all_e_writes [demo_block]" by auto
  also have "\<dots> = [(0x10000000, 1), (0x10000001, 2), (0x10000002, 3)]"
    by (simp add: all_e_writes_def e_writes_def demo_block_def not_main_def upt_rec)
  finally show "flash_of uf2 [(0, 0x2000, 0x10000000, 3)] =
      [0x10000000 \<mapsto> 1, 0x10000001 \<mapsto> 2, 0x10000002 \<mapsto> 3]"
    by (simp add: flash_of_def flash_at_def fun_eq_iff)
qed

lemma demo_extract:
  assumes "e_blocks uf2 = Inr [demo_block]"
  shows "extract_image uf2 0x10000000 3 = Inr [1, 2, 3]"
    and "extract_image uf2 0x10000002 2 = Inl (NotCovered 0x10000003)"
  using extract_image_cases[OF _ demo_uf2(1)[OF assms]] demo_uf2(2)[OF assms]
  by (simp_all add: upt_rec Let_def)

theorem extract_image_refines_witness:
  "\<exists>uf2. extract_image uf2 0x10000000 3 = Inr [1, 2, 3] \<and>
     (\<exists>bs. uf2_blocks uf2 = Inr bs \<and> flash_of uf2 bs 0x10000001 = Some 2) \<and>
     extract_image uf2 0x10000002 2 = Inl (NotCovered 0x10000003)"
proof -
  obtain uf2 where uf2: "e_blocks uf2 = Inr [demo_block]" by (rule demo_container)
  from extract_image_refines[OF _ demo_uf2(1)[OF uf2], of 3 "0x10000000"] demo_extract(1)[OF uf2]
  have "\<forall>i < nat 3. flash_of uf2 [(0, 0x2000, 0x10000000, 3)] (0x10000000 + int i) = Some ([1, 2, 3] ! i)"
    by simp
  from this[rule_format, of 1] demo_uf2(1)[OF uf2] demo_extract[OF uf2] show ?thesis by auto
qed

theorem digest_fields_sound_witness:
  "\<exists>uf2 img. digest_fields (Some uf2) (Some [1, 2]) =
     [(''digest_algorithm'', JInt 1), (''digest'', JInt (uint (crc32_iso_hdlc img))),
      (''image_start'', JInt 0x10000000), (''image_length'', JInt (int (length img)))] \<and> img \<noteq> []"
proof -
  obtain uf2 where uf2: "e_blocks uf2 = Inr [demo_block]" by (rule demo_container)
  have ext: "image_extent uf2 = Inr (0x10000000, 3)"
    by (simp add: image_extent_def demo_uf2(1)[OF uf2] not_main_def)
  have "extract_image uf2 0x10000000 2 = Inr [1, 2]"
    using extract_image_cases[OF _ demo_uf2(1)[OF uf2]] demo_uf2(2)[OF uf2] by (simp add: upt_rec Let_def)
  then have "digest_fields (Some uf2) (Some [1, 2]) \<noteq> []"
    by (simp add: digest_fields_def ext linked_length_def image_digest_def)
  from digest_fields_sound[OF this] obtain start E L img where r:
    "image_extent uf2 = Inr (start, E)" "0 < L" "length img = L"
    "digest_fields (Some uf2) (Some [1, 2]) =
      [(''digest_algorithm'', JInt 1), (''digest'', JInt (uint (crc32_iso_hdlc img))),
       (''image_start'', JInt (int start)), (''image_length'', JInt (int L))]" by blast
  from r(1) ext have "start = 0x10000000" by simp
  with r show ?thesis by (intro exI[of _ uf2] exI[of _ img]) auto
qed

end
