(* ===== verification/Answers.thy ===== *)
theory Answers
  imports PyStr Discovery
begin

section \<open>Kconfig answers as text (profiles.py)\<close>

text \<open>
  A saved \<open>.config\<close> and a vendor's seed are lines \<open>CONFIG_X=y\<close> or \<open># CONFIG_X is not set\<close>. Reading
  a file that is missing or not valid UTF-8 is None, and reads as no lines; text mode turns every
  line ending into a line feed.
\<close>

definition APP_ADDRESS_SYMBOL :: string where "APP_ADDRESS_SYMBOL = ''FLASH_APPLICATION_ADDRESS''"
definition VERSION_SYMBOL :: string where "VERSION_SYMBOL = ''VERSION''"
definition LAUNCH_ADDRESS_SYMBOL :: string where "LAUNCH_ADDRESS_SYMBOL = ''LAUNCH_APP_ADDRESS''"

definition parse_answer :: "string \<Rightarrow> (string \<times> string) option" where
  "parse_answer line =
     (let text = strip line in
      if starts_with ''# CONFIG_'' text \<and> ends_with '' is not set'' text
      then Some (strip (take (length text - length ''# CONFIG_'' - length '' is not set'')
                   (drop (length ''# CONFIG_'') text)), ''n'')
      else if \<not> starts_with ''CONFIG_'' text \<or> CHR ''='' \<notin> set text then None
      else (let (name, _, val) = partition_str ''='' text in
        Some (strip (drop (length ''CONFIG_'') name), strip val)))"

fun text_lines :: "string \<Rightarrow> string \<Rightarrow> string list" where
  "text_lines acc [] = (if acc = [] then [] else [rev acc])"
| "text_lines acc (c # s) =
     (if code c = 10 then rev acc # text_lines [] s
      else if code c = 13 then rev acc # (case s of
          [] \<Rightarrow> []
        | d # t \<Rightarrow> if code d = 10 then text_lines [] t else text_lines [] (d # t))
      else text_lines (c # acc) s)"

definition answer_lines :: "string option \<Rightarrow> string list" where
  "answer_lines content =
     (case content of
        None \<Rightarrow> []
      | Some text \<Rightarrow> map strip (filter (\<lambda>line. parse_answer line \<noteq> None) (text_lines [] text)))"

fun answer_map_from :: "(string, string) dict \<Rightarrow> string list \<Rightarrow> (string, string) dict" where
  "answer_map_from out [] = out"
| "answer_map_from out (line # lines) =
     answer_map_from (case parse_answer line of None \<Rightarrow> out | Some (k, v) \<Rightarrow> dict_set out k v) lines"

definition answer_map :: "string list \<Rightarrow> (string, string) dict" where
  "answer_map lines = answer_map_from [] lines"

definition unquote :: "string \<Rightarrow> string" where
  "unquote v =
     (if length v \<ge> 2 \<and> hd v = last v \<and> (hd v = CHR 0x22 \<or> hd v = CHR 0x27)
      then butlast (tl v) else v)"

fun stamped_version_of :: "string list \<Rightarrow> string option" where
  "stamped_version_of [] = None"
| "stamped_version_of (line # lines) =
     (case parse_answer line of
        Some (k, v) \<Rightarrow> if k = VERSION_SYMBOL then Some (unquote v) else stamped_version_of lines
      | None \<Rightarrow> stamped_version_of lines)"

definition stamped_version :: "string option \<Rightarrow> string option" where
  "stamped_version content = stamped_version_of (answer_lines content)"

text \<open>\<open>int(s, 16)\<close>: outer white space, a sign, a prefix, and single underscores between digits.\<close>

fun hex_underscored :: "nat \<Rightarrow> string \<Rightarrow> nat option" where
  "hex_underscored acc [] = None"
| "hex_underscored acc (c # s) =
     (case hex_digit c of
        None \<Rightarrow> None
      | Some d \<Rightarrow>
          (let a = 16 * acc + d in
           case s of
             [] \<Rightarrow> Some a
           | e # t \<Rightarrow> if e = CHR ''_'' then hex_underscored a t else hex_underscored a (e # t)))"

definition int_base16 :: "string \<Rightarrow> int option" where
  "int_base16 s =
     (let t = strip s;
          neg = starts_with ''-'' t;
          u = (if neg \<or> starts_with ''+'' t then tl t else t);
          v = (if starts_with ''0x'' u \<or> starts_with ''0X'' u
               then (if starts_with ''_'' (drop 2 u) then drop 3 u else drop 2 u) else u) in
      map_option (\<lambda>n. if neg then - int n else int n) (hex_underscored 0 v))"

definition read_app_address :: "string option \<Rightarrow> int option" where
  "read_app_address content =
     (case dict_get (answer_map (answer_lines content)) APP_ADDRESS_SYMBOL of
        None \<Rightarrow> None
      | Some raw \<Rightarrow> if raw = [] then None else int_base16 raw)"

definition launch_address :: "string option \<Rightarrow> int option" where
  "launch_address content =
     (case dict_get (answer_map (answer_lines content)) LAUNCH_ADDRESS_SYMBOL of
        None \<Rightarrow> None
      | Some raw \<Rightarrow> if strip raw = [] then None else int_base16 (strip raw))"

subsection \<open>Writing an answer and reading it back\<close>

lemma partition_str_first:
  "CHR ''='' \<notin> set a \<Longrightarrow> partition_str ''='' (a @ CHR ''='' # b) = (a, True, b)"
  by (induction a) (auto simp: starts_with_def)

text \<open>An answer line reads back as its symbol and value, also with white space around it.\<close>

lemma parse_answer_line:
  assumes "stripped k" "stripped v" "CHR ''='' \<notin> set k"
  shows "parse_answer (''CONFIG_'' @ k @ ''='' @ v) = Some (k, v)"
proof -
  let ?t = "''CONFIG_'' @ k @ ''='' @ v"
  have st: "stripped ?t" using assms(2) by (auto simp: stripped_def is_space_def split: if_splits)
  have "partition_str ''='' ?t = (''CONFIG_'' @ k, True, v)"
    using partition_str_first[of "''CONFIG_'' @ k" v] assms(3) by simp
  moreover have "\<not> starts_with ''# CONFIG_'' ?t" by (simp add: starts_with_def)
  moreover have "starts_with ''CONFIG_'' ?t" by (simp add: starts_with_def)
  ultimately show ?thesis
    using assms(1,2) unfolding parse_answer_def strip_id[OF st] Let_def by (simp add: strip_id)
qed

text \<open>The last line for a symbol wins.\<close>

lemma answer_map_from_get:
  "dict_get (answer_map_from out lines) k =
     (case find (\<lambda>l. map_option fst (parse_answer l) = Some k) (rev lines) of
        None \<Rightarrow> dict_get out k
      | Some l \<Rightarrow> map_option snd (parse_answer l))"
proof (induction out lines rule: answer_map_from.induct)
  case (2 out line lines)
  have app: "find P (xs @ [x]) = (case find P xs of None \<Rightarrow> if P x then Some x else None | Some y \<Rightarrow> Some y)"
    for P :: "string \<Rightarrow> bool" and xs x by (induction xs) auto
  show ?case by (auto simp: 2 app split: option.splits)
qed simp

lemma text_lines_answer:
  assumes "\<forall>c \<in> set l. code c \<noteq> (10 :: nat) \<and> code c \<noteq> (13 :: nat)"
  shows "text_lines acc (l @ CHR 0x0A # s) = (rev acc @ l) # text_lines [] s"
  using assms by (induction l arbitrary: acc) auto

end
