(* ===== verification/FirstFlash.thy ===== *)
theory FirstFlash
  imports Katapult BootselWrite Uf2Erase Answers
begin

section \<open>The first image on a bare board (flashers/flash.py)\<close>

text \<open>
  A bare board has nothing but its ROM: an STM32 takes an image over DFU, which erases everything
  first, an RP2040 over BOOTSEL, which erases nothing - so a bootloader's container is extended with
  a blank sector where the old application would be found. The families and the flasher come from
  the selection; the DFU write from here, the BOOTSEL write from BootselWrite.
\<close>

subsection \<open>DFU\<close>

definition choose_dfu :: "dfu_device list \<Rightarrow> string option \<Rightarrow> flash_error + dfu_device" where
  "choose_dfu devices target_serial =
     (if devices = [] then Inl NoDfuDevice
      else case target_serial of
        Some serial \<Rightarrow>
          (case filter (\<lambda>d. dfu_serial d = Some serial) devices of
             [] \<Rightarrow> Inl (NoDfuSerial serial)
           | [d] \<Rightarrow> Inr d
           | _ \<Rightarrow> Inl AmbiguousDfu)
      | None \<Rightarrow> if length devices > 1 then Inl AmbiguousDfu else Inr (hd devices))"

definition dfu_left_successfully :: "string list \<Rightarrow> bool" where
  "dfu_left_successfully transcript =
     (let text = lower (join newline transcript) in
      (contains ''file downloaded successfully'' text \<or> contains ''download done'' text) \<and>
      (contains ''error during download get_status'' text \<or>
       contains ''unable to read dfu status after completion'' text \<or> contains ''lost device after'' text))"

definition flash_dfu_stm32 ::
  "'w flash_ops \<Rightarrow> paths \<Rightarrow> flash_settings \<Rightarrow> string \<Rightarrow> string option \<Rightarrow> 'w \<Rightarrow>
   'w \<times> fl_event list \<times> (flash_error + unit)" where
  "flash_dfu_stm32 ops p s fw_bin target_serial w =
     (if \<not> fo_exists ops w fw_bin then (w, [], Inl (NoBinary fw_bin))
      else
        (let (w1, found) = fo_dfu ops w in
         case and_then found (\<lambda>devices. choose_dfu devices target_serial) of
           Inl e \<Rightarrow> (w1, [], Inl e)
         | Inr chosen \<Rightarrow>
             (let (w2, es, reports, r) =
                run_cmd ops p s [] (fs_dry_run s) (DfuWrite (dfu_selector chosen) fw_bin) w1 in
              case r of
                Inl e \<Rightarrow> (w2, es, Inl (RunProblem e))
              | Inr rc \<Rightarrow>
                  (if rc = 0 then (w2, es, Inr ())
                   else if dfu_left_successfully (transcript_of reports) then (w2, es @ [Noted (LeftDfu rc)], Inr ())
                   else (w2, es, Inl (WriteFailed rc))))))"

text \<open>\<open>wait_for_dfu\<close>: \<open>cancelled\<close> is the event.\<close>

datatype dfu_wait = Found "string list" | WaitTimedOut | WaitCancelled | WaitRaised flash_error

partial_function (option) wait_for_dfu ::
  "'w flash_ops \<Rightarrow> ('w \<Rightarrow> bool) \<Rightarrow> rat \<Rightarrow> rat \<Rightarrow> 'w \<Rightarrow> ('w \<times> dfu_wait) option" where
  "wait_for_dfu ops cancelled deadline poll w =
     (let (w1, found) = fo_dfu ops w in
      case found of
        Inl e \<Rightarrow> Some (w1, WaitRaised e)
      | Inr devices \<Rightarrow>
          (if devices \<noteq> [] then Some (w1, Found (map dfu_raw devices))
           else if cancelled w1 then Some (w1, WaitCancelled)
           else if fo_time ops w1 \<ge> deadline then Some (w1, WaitTimedOut)
           else wait_for_dfu ops cancelled deadline poll (fo_sleep ops poll w1)))"

subsection \<open>The image\<close>

definition STM32_FLASH_BASE :: nat where "STM32_FLASH_BASE = 0x08000000"

datatype first_error =
    FirstConfig config_error
  | NoUf2Built
  | NoBinBuilt
  | NoWriter
  | FirstPy py_error
  | BareOffset "int option" int
  | NoLaunchAddress
  | Uf2Unreadable string
  | CannotErase erase_error
  | StructErrorEscapes                \<comment> \<open>\<open>struct.error\<close> out of packing a header is no \<open>Uf2EraseError\<close>\<close>
  | FirstFlashError flash_error
  | FirstImage image_error
  | FirstReady ready_error
  | OtherWriter string

text \<open>\<open>isinstance(raw, int)\<close> holds of a boolean too, and it compares as 0 or 1.\<close>

definition int_of_json :: "json \<Rightarrow> int option" where
  "int_of_json j = (case j of JInt i \<Rightarrow> Some i | JBool b \<Rightarrow> Some (if b then 1 else 0) | _ \<Rightarrow> None)"

definition refuse_unbootable_first_image ::
  "'w image_ops \<Rightarrow> 'w \<Rightarrow> sidecar \<Rightarrow> artifact \<Rightarrow> first_error + unit" where
  "refuse_unbootable_first_image ops w side a =
     (if kind a \<noteq> KIND_BIN \<and> kind a \<noteq> KIND_UF2 then Inr ()
      else
        (let (base, start) =
           (if kind a = KIND_UF2
            then (int FLASH_BASE, case uf2_image_start ops w (art_path a) of Inr (Some s) \<Rightarrow> Some (int s) | _ \<Rightarrow> None)
            else (int STM32_FLASH_BASE, int_of_json (jget side ''app_address''))) in
         if start = Some base then Inr () else Inl (BareOffset start base)))"

text \<open>The container extended with the blank sector; what is written into the staging directory is what
  the flasher reads there, so the staged file is its bytes.\<close>

definition stage_erasing_uf2 ::
  "'w image_ops \<Rightarrow> 'w \<Rightarrow> string \<Rightarrow> string option option \<Rightarrow> first_error + byte list" where
  "stage_erasing_uf2 ops w uf2_bin katapult_config =
     (case (case katapult_config of None \<Rightarrow> None | Some content \<Rightarrow> launch_address content) of
        None \<Rightarrow> Inl NoLaunchAddress
      | Some address \<Rightarrow>
          (case io_read ops w uf2_bin of
             None \<Rightarrow> Inl (Uf2Unreadable uf2_bin)
           | Some img \<Rightarrow>
               (case with_erased_sector img address of
                  Inl StructError \<Rightarrow> Inl StructErrorEscapes
                | Inl e \<Rightarrow> Inl (CannotErase e)
                | Inr extended \<Rightarrow> Inr extended)))"

definition built_set :: "family \<Rightarrow> string option \<Rightarrow> string option \<Rightarrow> staged" where
  "built_set fam fw_bin uf2_bin =
     \<lparr>st_fw = fam_name fam,
      artifacts =
        (case fw_bin of Some b \<Rightarrow> if b \<noteq> [] then [\<lparr>kind = KIND_BIN, art_path = b, sha256 = None\<rparr>] else [] | None \<Rightarrow> []) @
        (case uf2_bin of Some u \<Rightarrow> if u \<noteq> [] then [\<lparr>kind = KIND_UF2, art_path = u, sha256 = None\<rparr>] else [] | None \<Rightarrow> []),
      st_fw_sha = JNull, st_version = JNull\<rparr>"

text \<open>What is about to be written, and through which flasher: everything the source decides before it
  opens the staging directory, and the staged image.\<close>

record first_plan =
  fp_flasher :: flasher
  fp_artifact :: artifact
  fp_extended :: "byte list option"   \<comment> \<open>the staged container, when one was made\<close>
  fp_device :: device

definition plan_first_image ::
  "'w image_ops \<Rightarrow> families \<Rightarrow> 'w \<Rightarrow> string \<Rightarrow> string option \<Rightarrow> string \<Rightarrow> string \<Rightarrow> string option \<Rightarrow>
   string option option \<Rightarrow> string option \<Rightarrow> sidecar \<Rightarrow> first_error + first_plan" where
  "plan_first_image ops families w chipset fw_bin fw rom_state uf2_bin katapult_config target_serial side =
     (case resolve_family families fw of
        Inl e \<Rightarrow> Inl (FirstConfig e)
      | Inr fam \<Rightarrow>
          (if rom_state = STATE_BOOTSEL \<and> uf2_bin = None then Inl NoUf2Built
           else if rom_state = STATE_DFU \<and> fw_bin = None then Inl NoBinBuilt
           else
             (let dev = \<lparr>dev_type = chipset, dev_id = (case target_serial of None \<Rightarrow> [] | Some x \<Rightarrow> x), dev_chipset = chipset,
                dev_state = rom_state, dev_fw = fam_name fam, dev_kind = KIND_BARE, dev_detail = []\<rparr> in
              case resolve_flasher (fam_flashers fam) dev None (built_set fam fw_bin uf2_bin) of
                Inl e \<Rightarrow> Inl (FirstPy e)
              | Inr None \<Rightarrow> Inl NoWriter
              | Inr (Some (f, a)) \<Rightarrow>
                  and_then (if fam_bootloader fam then Inr () else refuse_unbootable_first_image ops w side a) (\<lambda>_.
                    if kind a = KIND_UF2 \<and> fam_bootloader fam
                    then and_then (stage_erasing_uf2 ops w (art_path a) katapult_config) (\<lambda>extended.
                      Inr \<lparr>fp_flasher = f, fp_artifact = a, fp_extended = Some extended, fp_device = dev\<rparr>)
                    else Inr \<lparr>fp_flasher = f, fp_artifact = a, fp_extended = None, fp_device = dev\<rparr>))))"

datatype first_event = FlashEvent fl_event | ImageEvent image_event

text \<open>\<open>stage\<close> writes the staged container under the artifact's own name into a fresh directory;
  \<open>volumes\<close> is what the BOOTSEL bus shows, for the target's label.\<close>

definition flash_initial_bootloader ::
  "'w flash_ops \<Rightarrow> 'w image_ops \<Rightarrow> paths \<Rightarrow> flash_settings \<Rightarrow> (string \<Rightarrow> byte list \<Rightarrow> 'w \<Rightarrow> 'w \<times> string) \<Rightarrow>
   string option list \<Rightarrow> string \<Rightarrow> string option \<Rightarrow> string \<Rightarrow> string \<Rightarrow> string option \<Rightarrow> string option option \<Rightarrow>
   string option \<Rightarrow> sidecar \<Rightarrow> 'w \<Rightarrow> ('w \<times> first_event list \<times> (first_error + unit)) option" where
  "flash_initial_bootloader fops iops p s stage volumes chipset fw_bin fw rom_state uf2_bin katapult_config
     target_serial side w =
     (case plan_first_image iops (fs_families s) w chipset fw_bin fw rom_state uf2_bin katapult_config target_serial side of
        Inl e \<Rightarrow> Some (w, [], Inl e)
      | Inr plan \<Rightarrow>
          (let (w1, a) = (case fp_extended plan of
                 None \<Rightarrow> (w, fp_artifact plan)
               | Some bytes \<Rightarrow> (let (w1, path) = stage (basename (art_path (fp_artifact plan))) bytes w in
                   (w1, \<lparr>kind = KIND_UF2, art_path = path, sha256 = None\<rparr>))) in
           if fl_name (fp_flasher plan) = ''dfu_util'' then
             (let t = dfu_util_target (fp_device plan) a;
                  (w2, es, r) = flash_dfu_stm32 fops p s (art_path a)
                    (case jget (tg_detail t) ''dfu_serial'' of JStr x \<Rightarrow> Some x | _ \<Rightarrow> None) w1 in
              Some (w2, map FlashEvent es, map_sum FirstFlashError id r))
           else if fl_name (fp_flasher plan) = ''bootsel'' then
             map_option (\<lambda>(w2, es, t, r).
               case r of
                 Inl e \<Rightarrow> (w2, map ImageEvent es, Inl (FirstImage e))
               | Inr _ \<Rightarrow>
                   (let (w3, es', x) = bootsel_settled iops (fs_dry_run s) t w2 in
                    (w3, map ImageEvent (es @ es'), map_sum FirstReady id x)))
               (bootsel_write iops (fs_dry_run s) (bootsel_target volumes (fp_device plan) None a []) w1)
           else Some (w1, [], Inl (OtherWriter (fl_name (fp_flasher plan))))))"

subsection \<open>Which board a DFU write hits\<close>

text \<open>What a selector asks dfu-util for.\<close>

definition selects :: "string list \<Rightarrow> dfu_device \<Rightarrow> bool" where
  "selects sel d =
     (case sel of
        [flag, v] \<Rightarrow>
          (if flag = ''-p'' then dfu_path d = Some v
           else if flag = ''-S'' then dfu_serial d = Some v
           else flag = ''-n'' \<and> dfu_devnum d = Some v)
      | _ \<Rightarrow> True)"

lemma dfu_group_keys:
  "set (dfu_group seen ds) \<subseteq> set ds \<and> distinct (map dfu_key (dfu_group seen ds)) \<and>
   dfu_key ` set (dfu_group seen ds) \<inter> set seen = {}"
proof (induction seen ds rule: dfu_group.induct)
  case (2 seen d ds)
  then show ?case by (cases "dfu_key d \<in> set seen") auto
qed simp

lemma choose_dfu_Inr:
  assumes "choose_dfu devices target = Inr d"
  shows "d \<in> set devices \<and> (\<forall>t. target = Some t \<longrightarrow> dfu_serial d = Some t) \<and>
    (\<forall>x \<in> set devices. (case target of None \<Rightarrow> True | Some t \<Rightarrow> dfu_serial x = Some t) \<longrightarrow> x = d)"
proof (cases target)
  case None
  with assms show ?thesis
    by (cases devices rule: remdups_adj.cases) (auto simp: choose_dfu_def split: if_splits)
next
  case (Some t)
  with assms have f: "filter (\<lambda>d. dfu_serial d = Some t) devices = [d]"
    by (auto simp: choose_dfu_def split: if_splits list.splits)
  then have "{x \<in> set devices. dfu_serial x = Some t} = {d}" by (metis empty_set list.simps(15) set_filter)
  with Some show ?thesis by auto
qed

lemma selector_unique:
  assumes "devices = dfu_group [] raw" "choose_dfu devices target = Inr d" "target \<noteq> Some []"
    "dfu_selector d \<noteq> []" "x \<in> set devices" "selects (dfu_selector d) x"
  shows "x = d"
proof -
  note c = choose_dfu_Inr[OF assms(2)]
  have inj: "dfu_key x = dfu_key d \<Longrightarrow> x = d"
    using c assms(1,5) dfu_group_keys[of "[]" raw] by (auto simp: distinct_map inj_on_def)
  show ?thesis
  proof (cases target)
    case None
    with c assms(5) show ?thesis by simp
  next
    case (Some t)
    with c assms(3) have ds: "dfu_serial d = Some t" "t \<noteq> []" by auto
    show ?thesis
    proof (cases "present (dfu_path d)")
      case True
      then obtain q where q: "dfu_path d = Some q" "q \<noteq> []" by (auto simp: present_def)
      with assms(6) have "dfu_path x = Some q" by (simp add: dfu_selector_def selects_def present_def)
      with q have "dfu_key x = dfu_key d" by (simp add: dfu_key_def present_def)
      then show ?thesis by (rule inj)
    next
      case False
      moreover have "present (dfu_serial d)" using ds by (simp add: present_def)
      ultimately have "dfu_selector d = [''-S'', t]" using ds by (simp add: dfu_selector_def)
      with assms(6) have "dfu_serial x = Some t" by (simp add: selects_def)
      with c Some assms(5) show ?thesis by simp
    qed
  qed
qed


subsection \<open>What a first install writes\<close>

definition image_events :: "first_event list \<Rightarrow> image_event list" where
  "image_events es = List.map_filter (\<lambda>e. case e of ImageEvent x \<Rightarrow> Some x | _ \<Rightarrow> None) es"

lemma image_events_simps [simp]:
  "image_events [] = []" "image_events (es @ es') = image_events es @ image_events es'"
  "image_events (ImageEvent x # es) = x # image_events es"
  by (auto simp: image_events_def map_filter_def)

lemma image_events_map [simp]: "image_events (map ImageEvent es) = es"
  by (induction es) auto

fun written_by_flasher :: "first_error \<Rightarrow> bool" where
  "written_by_flasher (FirstFlashError e) = True"
| "written_by_flasher (FirstImage e) = True"
| "written_by_flasher (FirstReady e) = True"
| "written_by_flasher _ = False"

lemma bare_writer:
  assumes "resolve_flasher names d None st = Inr (Some (f, a))" "dev_kind d = KIND_BARE"
  shows "a \<in> set (artifacts st) \<and>
    (dev_state d = STATE_BOOTSEL \<longrightarrow> fl_name f = ''bootsel'' \<and> kind a = KIND_UF2) \<and>
    (dev_state d = STATE_DFU \<longrightarrow> fl_name f = ''dfu_util'' \<and> kind a = KIND_BIN)"
proof -
  from resolve_flasher_Some[OF assms(1)] have f: "f \<in> set FLASHERS" "supports f d None" "first_of st (fl_accepts f) = Some a"
    by blast+
  from first_of_Some[OF f(3)] f(1,2) assms(2) show ?thesis
    by (auto simp: FLASHERS_def Flashtool_def PlatformIO_def DfuUtil_def Bootsel_def supports_def flashtool_supports_def
        platformio_supports_def dfu_util_supports_def bootsel_supports_def device_kind_defs kind_defs
        STATE_DFU_def STATE_BOOTSEL_def STATE_ESP_ROM_def bootsel_requester_def split: if_splits)
qed

lemma flash_dfu_bin:
  assumes "flash_dfu_stm32 ops p s fw_bin target w = (w', es, r)"
  shows "\<forall>sel b reports rr. Ran (DfuWrite sel b) reports rr \<in> set es \<longrightarrow> b = fw_bin"
proof (cases "fo_exists ops w fw_bin")
  case True
  obtain w1 found where f: "fo_dfu ops w = (w1, found)" by (metis surj_pair)
  show ?thesis
  proof (cases "and_then found (\<lambda>devices. choose_dfu devices target)")
    case (Inl e)
    with assms True f show ?thesis by (simp add: flash_dfu_stm32_def)
  next
    case (Inr d)
    obtain w2 es1 reports rr where c: "run_cmd ops p s [] (fs_dry_run s) (DfuWrite (dfu_selector d) fw_bin) w1
        = (w2, es1, reports, rr)" by (metis surj_pair)
    have "\<exists>ns. es = es1 @ map Noted ns"
      using assms True f Inr c
      by (auto simp: flash_dfu_stm32_def split: sum.splits if_splits intro: exI[of _ "[]"] exI[of _ "[_]"])
    with run_cmd_events[OF c] show ?thesis by (auto split: if_splits)
  qed
qed (use assms in \<open>auto simp: flash_dfu_stm32_def\<close>)

text \<open>A DFU write that succeeded is one run of dfu-util, with the arguments it was given.\<close>

lemma flash_dfu_ran:
  assumes "flash_dfu_stm32 ops p s fw_bin target w = (w', es, Inr ())" and "\<not> fs_dry_run s"
  shows "\<exists>sel reports rc notes ran. es = Ran (DfuWrite sel fw_bin) reports (Inr rc) # map Noted notes \<and>
    rn_exec (fo_procs ops) ([''dfu-util'', ''-a'', ''0'', ''-d'', DFU_VID_PID] @ sel @
       [''-D'', fw_bin, ''-s'', ''0x08000000:force:mass-erase:leave'']) (p_home p) (fst (fo_dfu ops w)) = (w', ran, Inr rc)"
proof -
  obtain w1 found where f: "fo_dfu ops w = (w1, found)" by (metis surj_pair)
  from assms f obtain d where d: "fo_exists ops w fw_bin" "and_then found (\<lambda>devices. choose_dfu devices target) = Inr d"
    by (auto simp: flash_dfu_stm32_def simp del: and_then_eq_Inr split: if_splits sum.splits)
  obtain w2 es1 reports rr where c: "run_cmd ops p s [] False (DfuWrite (dfu_selector d) fw_bin) w1 = (w2, es1, reports, rr)"
    by (metis surj_pair)
  from c obtain ran where x: "rn_exec (fo_procs ops) (cmd_argv (fs_python s) [] (DfuWrite (dfu_selector d) fw_bin)) (p_home p) w1 = (w2, ran, rr)"
    by (auto simp: run_cmd_def run_streamed_def Let_def simp del: cmd_argv.simps split: prod.splits)
  have e: "es1 = [Ran (DfuWrite (dfu_selector d) fw_bin) reports rr]" using run_cmd_events[OF c] by simp
  have "\<exists>rc notes. rr = Inr rc \<and> es = es1 @ map Noted notes \<and> w' = w2"
    using assms f d c
    by (auto simp: flash_dfu_stm32_def simp del: and_then_eq_Inr split: sum.splits if_splits intro: exI[of _ "[]"] exI[of _ "[_]"])
  then obtain rc nts where n: "rr = Inr rc" "es = es1 @ map Noted nts" "w' = w2" by blast
  show ?thesis
    by (intro exI[of _ "dfu_selector d"] exI[of _ reports] exI[of _ rc] exI[of _ nts] exI[of _ ran])
      (use x e f n in \<open>simp only: cmd_argv.simps append_Cons append_Nil fst_conv simp_thms\<close>)
qed

lemma plan_first_image_Inr:
  assumes "plan_first_image iops families w chipset fw_bin fw rom uf2_bin cfg tserial side = Inr plan"
    and "resolve_family families fw = Inr fam"
  shows "dev_state (fp_device plan) = rom \<and> dev_kind (fp_device plan) = KIND_BARE \<and>
    fp_artifact plan \<in> set (artifacts (built_set fam fw_bin uf2_bin)) \<and>
    (rom = STATE_BOOTSEL \<longrightarrow> fl_name (fp_flasher plan) = ''bootsel'' \<and> kind (fp_artifact plan) = KIND_UF2) \<and>
    (rom = STATE_DFU \<longrightarrow> fl_name (fp_flasher plan) = ''dfu_util'' \<and> kind (fp_artifact plan) = KIND_BIN) \<and>
    (fp_extended plan = (if kind (fp_artifact plan) = KIND_UF2 \<and> fam_bootloader fam
       then Some (projr (stage_erasing_uf2 iops w (art_path (fp_artifact plan)) cfg)) else None)) \<and>
    (kind (fp_artifact plan) = KIND_UF2 \<and> fam_bootloader fam \<longrightarrow>
       is_ok (stage_erasing_uf2 iops w (art_path (fp_artifact plan)) cfg)) \<and>
    (\<not> fam_bootloader fam \<longrightarrow> refuse_unbootable_first_image iops w side (fp_artifact plan) = Inr ())"
proof -
  let ?dev = "\<lparr>dev_type = chipset, dev_id = (case tserial of None \<Rightarrow> [] | Some x \<Rightarrow> x), dev_chipset = chipset,
     dev_state = rom, dev_fw = fam_name fam, dev_kind = KIND_BARE, dev_detail = []\<rparr>"
  have nb: "\<not> (rom = STATE_BOOTSEL \<and> uf2_bin = None)" "\<not> (rom = STATE_DFU \<and> fw_bin = None)"
    using assms by (auto simp: plan_first_image_def split: if_splits)
  obtain f a where r: "resolve_flasher (fam_flashers fam) ?dev None (built_set fam fw_bin uf2_bin) = Inr (Some (f, a))"
    using assms nb by (auto simp: plan_first_image_def Let_def split: sum.splits option.splits prod.splits if_splits)
  from bare_writer[OF r] have w: "a \<in> set (artifacts (built_set fam fw_bin uf2_bin))"
    "rom = STATE_BOOTSEL \<longrightarrow> fl_name f = ''bootsel'' \<and> kind a = KIND_UF2"
    "rom = STATE_DFU \<longrightarrow> fl_name f = ''dfu_util'' \<and> kind a = KIND_BIN" by simp_all
  have eq: "and_then (if fam_bootloader fam then Inr () else refuse_unbootable_first_image iops w side a) (\<lambda>_.
      if kind a = KIND_UF2 \<and> fam_bootloader fam
      then and_then (stage_erasing_uf2 iops w (art_path a) cfg) (\<lambda>extended.
        Inr \<lparr>fp_flasher = f, fp_artifact = a, fp_extended = Some extended, fp_device = ?dev\<rparr>)
      else Inr \<lparr>fp_flasher = f, fp_artifact = a, fp_extended = None, fp_device = ?dev\<rparr>) = Inr plan"
    using assms nb r by (simp add: plan_first_image_def Let_def split: if_splits)
  show ?thesis
  proof (cases "kind a = KIND_UF2 \<and> fam_bootloader fam")
    case True
    with eq w show ?thesis by auto
  next
    case False
    with eq w show ?thesis by (auto split: if_splits)
  qed
qed

lemma stage_erasing_Inr:
  assumes "stage_erasing_uf2 iops w u cfg = Inr data"
  shows "\<exists>img content a. io_read iops w u = Some img \<and> cfg = Some content \<and> launch_address content = Some a \<and>
    with_erased_sector img a = Inr data"
  using assms by (auto simp: stage_erasing_uf2_def split: option.splits sum.splits erase_error.splits)

text \<open>C4: what a first install puts on a bare board. A refusal that comes before the flasher starts has
  written nothing. Over BOOTSEL a bootloader is written as its container extended at the launch
  address its own configuration states: wherever the old application was looked for, the board now
  holds blank flash, and every other range holds what the container says; the flasher writes exactly
  the staged bytes. Anything else is written as built, and only when its container starts at the
  start of flash, or - over DFU - when its build recorded that very address. Over DFU a success is one
  run of dfu-util on the built image, at the start of flash and with mass-erase, so that nothing the
  board ran before is left to be found.\<close>

theorem first_image_boots:
  assumes "flash_initial_bootloader fops iops p s stage volumes chipset fw_bin fw rom uf2_bin cfg tserial side w =
      Some (w', es, r)"
    and "resolve_family (fs_families s) fw = Inr fam" and "rom \<in> {STATE_BOOTSEL, STATE_DFU}"
  shows "(\<forall>e. r = Inl e \<and> \<not> written_by_flasher e \<longrightarrow> es = []) \<and>
    (is_ok r \<and> \<not> fs_dry_run s \<and> rom = STATE_BOOTSEL \<longrightarrow>
      (\<exists>u img. uf2_bin = Some u \<and> io_read iops w u = Some img \<and>
        (if fam_bootloader fam then
           (\<exists>content a data w1 path. cfg = Some content \<and> launch_address content = Some a \<and>
              with_erased_sector img a = Inr data \<and> stage (basename u) data w = (w1, path) \<and>
              (reads_file iops path data \<longrightarrow> written (image_events es) = data) \<and>
              extract_image data a 4096 = Inr (replicate 4096 0xff) \<and>
              (\<forall>blocks b l. e_blocks img = Inr blocks \<and> distinct (map fst (all_e_writes blocks)) \<and>
                 (b + l \<le> a \<or> a + 4096 \<le> b) \<longrightarrow> extract_image data b l = extract_image img b l))
         else (\<exists>len. image_extent img = Inr (FLASH_BASE, len)) \<and>
           (\<forall>data. reads_file iops u data \<longrightarrow> written (image_events es) = data)))) \<and>
    (is_ok r \<and> \<not> fs_dry_run s \<and> rom = STATE_DFU \<longrightarrow>
      (\<exists>b. fw_bin = Some b \<and>
        (\<forall>sel b' reports rr. FlashEvent (Ran (DfuWrite sel b') reports rr) \<in> set es \<longrightarrow> b' = b) \<and>
        (\<exists>sel reports rc notes w1 ran. es = map FlashEvent (Ran (DfuWrite sel b) reports (Inr rc) # map Noted notes) \<and>
           rn_exec (fo_procs fops) ([''dfu-util'', ''-a'', ''0'', ''-d'', DFU_VID_PID] @ sel @
             [''-D'', b, ''-s'', ''0x08000000:force:mass-erase:leave'']) (p_home p) w1 = (w', ran, Inr rc)) \<and>
        (\<not> fam_bootloader fam \<longrightarrow> int_of_json (jget side ''app_address'') = Some (int STM32_FLASH_BASE))))"
proof (cases "plan_first_image iops (fs_families s) w chipset fw_bin fw rom uf2_bin cfg tserial side")
  case (Inl e)
  with assms(1) show ?thesis by (auto simp: flash_initial_bootloader_def)
next
  case (Inr plan)
  note pl = plan_first_image_Inr[OF Inr assms(2)]
  let ?a0 = "fp_artifact plan"
  have diff: "STATE_BOOTSEL \<noteq> STATE_DFU" "KIND_BIN \<noteq> KIND_UF2"
    by (simp_all add: STATE_BOOTSEL_def STATE_DFU_def kind_defs)
  show ?thesis
  proof (cases "rom = STATE_DFU")
    case dfu: True
    with pl diff have k: "fl_name (fp_flasher plan) = ''dfu_util''" "kind ?a0 = KIND_BIN" "fp_extended plan = None" by auto
    from pl k(2) diff obtain b where b: "fw_bin = Some b" "art_path ?a0 = b"
      by (auto simp: built_set_def split: option.splits if_splits)
    obtain w2 es2 r2 where f: "flash_dfu_stm32 fops p s b (case jget (tg_detail (dfu_util_target (fp_device plan) ?a0))
        ''dfu_serial'' of JStr x \<Rightarrow> Some x | _ \<Rightarrow> None) w = (w2, es2, r2)" by (metis surj_pair)
    with assms(1) Inr k b have e: "es = map FlashEvent es2" "r = map_sum FirstFlashError id r2"
      by (auto simp: flash_initial_bootloader_def)
    have "\<not> fam_bootloader fam \<Longrightarrow> int_of_json (jget side ''app_address'') = Some (int STM32_FLASH_BASE)"
      using pl k(2) diff by (auto simp: refuse_unbootable_first_image_def split: if_splits)
    moreover have "\<forall>e. r = Inl e \<longrightarrow> written_by_flasher e" using e(2) by (cases r2) auto
    moreover have "b' = b" if "FlashEvent (Ran (DfuWrite sel b') reports rr) \<in> set es" for sel b' reports rr
    proof -
      from that e(1) have "Ran (DfuWrite sel b') reports rr \<in> set es2" by auto
      with flash_dfu_bin[OF f] show ?thesis by blast
    qed
    moreover have "\<exists>sel reports rc notes w1 ran. es = map FlashEvent (Ran (DfuWrite sel b) reports (Inr rc) # map Noted notes) \<and>
           rn_exec (fo_procs fops) ([''dfu-util'', ''-a'', ''0'', ''-d'', DFU_VID_PID] @ sel @
             [''-D'', b, ''-s'', ''0x08000000:force:mass-erase:leave'']) (p_home p) w1 = (w', ran, Inr rc)"
      if "is_ok r" "\<not> fs_dry_run s"
    proof -
      from that(1) e(2) have "r2 = Inr ()" by (cases r2) auto
      from flash_dfu_ran[OF f[unfolded this] that(2)] obtain sel reports rc nts ran where
        g: "es2 = Ran (DfuWrite sel b) reports (Inr rc) # map Noted nts"
        "rn_exec (fo_procs fops) ([''dfu-util'', ''-a'', ''0'', ''-d'', DFU_VID_PID] @ sel @
             [''-D'', b, ''-s'', ''0x08000000:force:mass-erase:leave'']) (p_home p) (fst (fo_dfu fops w)) = (w2, ran, Inr rc)" by blast
      have "w' = w2" using assms(1) Inr k b f by (auto simp: flash_initial_bootloader_def)
      with g e(1) show ?thesis by blast
    qed
    ultimately show ?thesis using b(1) dfu diff(1) by auto
  next
    case False
    with assms(3) have rom: "rom = STATE_BOOTSEL" by simp
    with pl have k: "fl_name (fp_flasher plan) = ''bootsel''" "kind ?a0 = KIND_UF2" by auto
    from pl k(2) diff obtain u where u: "uf2_bin = Some u" "art_path ?a0 = u"
      by (auto simp: built_set_def split: option.splits if_splits)
    define wa where "wa = (case fp_extended plan of None \<Rightarrow> (w, ?a0)
      | Some bytes \<Rightarrow> (let (w1, path) = stage (basename (art_path ?a0)) bytes w in (w1, \<lparr>kind = KIND_UF2, art_path = path, sha256 = None\<rparr>)))"
    let ?t = "bootsel_target volumes (fp_device plan) None (snd wa) []"
    have art: "tg_artifact ?t = Some (snd wa)" by (simp add: bootsel_target_def bootsel_requester_def)
    have ne: "''bootsel'' \<noteq> ''dfu_util''" by simp
    have "flash_initial_bootloader fops iops p s stage volumes chipset fw_bin fw rom uf2_bin cfg tserial side w =
      map_option (\<lambda>(w2, es, t, r).
         case r of
           Inl e \<Rightarrow> (w2, map ImageEvent es, Inl (FirstImage e))
         | Inr _ \<Rightarrow> (let (w3, es', x) = bootsel_settled iops (fs_dry_run s) t w2 in
              (w3, map ImageEvent (es @ es'), map_sum FirstReady id x)))
         (bootsel_write iops (fs_dry_run s) ?t (fst wa))"
      unfolding flash_initial_bootloader_def Inr sum.case wa_def k(1)
      by (cases "fp_extended plan") (simp_all only: option.case Let_def split_beta ne if_False if_True simp_thms fst_conv snd_conv)
    note eq = this
    obtain y where y: "bootsel_write iops (fs_dry_run s) ?t (fst wa) = Some y"
      using assms(1) unfolding eq by (cases "bootsel_write iops (fs_dry_run s) ?t (fst wa)") simp_all
    from assms(1)[unfolded eq y option.map(2) option.inject] have fy: "(\<lambda>(w2, es, t, r).
         case r of
           Inl e \<Rightarrow> (w2, map ImageEvent es, Inl (FirstImage e))
         | Inr _ \<Rightarrow> (let (w3, es', x) = bootsel_settled iops (fs_dry_run s) t w2 in
              (w3, map ImageEvent (es @ es'), map_sum FirstReady id x))) y = (w', es, r)" .
    obtain w2 es2 t2 r2 where y4: "y = (w2, es2, t2, r2)" by (cases y) auto
    note bw = y[unfolded y4] and rest = fy[unfolded y4 prod.case]
    have req: "requester_of ?t = None" by (simp add: bootsel_target_def requester_of_def bootsel_requester_def)
    have nr: "\<forall>e. r = Inl e \<longrightarrow> written_by_flasher e"
      using rest by (auto split: sum.splits prod.splits simp: map_sum_def)
    have wes: "written (image_events es) = written es2"
      using rest by (cases r2) (auto simp: bootsel_settled_def split: option.splits if_splits sum.splits prod.splits
          ready_error.splits)
    have full: "written (image_events es) = data" if "is_ok r" "\<not> fs_dry_run s" "reads_file iops (art_path (snd wa)) data" for data
    proof -
      from that(1) rest obtain m where m: "r2 = Inr m" by (cases r2) auto
      moreover have "m \<noteq> None" using bootsel_write_mount[of iops ?t "fst wa" w2 es2 t2 m] bw that(2) m by simp
      ultimately show ?thesis using bootsel_write_effect[OF bw art that(3)] wes by auto
    qed
    have "\<exists>u img. uf2_bin = Some u \<and> io_read iops w u = Some img \<and>
        (if fam_bootloader fam then
           (\<exists>content a data w1 path. cfg = Some content \<and> launch_address content = Some a \<and>
              with_erased_sector img a = Inr data \<and> stage (basename u) data w = (w1, path) \<and>
              (reads_file iops path data \<longrightarrow> written (image_events es) = data) \<and>
              extract_image data a 4096 = Inr (replicate 4096 0xff) \<and>
              (\<forall>blocks b l. e_blocks img = Inr blocks \<and> distinct (map fst (all_e_writes blocks)) \<and>
                 (b + l \<le> a \<or> a + 4096 \<le> b) \<longrightarrow> extract_image data b l = extract_image img b l))
         else (\<exists>len. image_extent img = Inr (FLASH_BASE, len)) \<and>
           (\<forall>data. reads_file iops u data \<longrightarrow> written (image_events es) = data))" if ok: "is_ok r" "\<not> fs_dry_run s"
    proof (cases "fam_bootloader fam")
      case True
      with pl k(2) u(2) obtain data where st: "stage_erasing_uf2 iops w u cfg = Inr data" and ext: "fp_extended plan = Some data"
        by (auto simp: is_ok_iff)
      from stage_erasing_Inr[OF st] obtain img content a where i: "io_read iops w u = Some img" "cfg = Some content"
        "launch_address content = Some a" "with_erased_sector img a = Inr data" by blast
      obtain w1 path where sp: "stage (basename u) data w = (w1, path)" by (metis surj_pair)
      have wr: "reads_file iops path data \<longrightarrow> written (image_events es) = data"
        using full[OF ok] ext sp by (simp add: wa_def u(2))
      note eff = with_erased_sector_effect[OF i(4)]
      show ?thesis unfolding if_P[OF True]
        by (rule exI[of _ u], rule exI[of _ img], intro conjI, rule u(1), rule i(1), rule exI[of _ content],
            rule exI[of _ a], rule exI[of _ data], rule exI[of _ w1], rule exI[of _ path], intro conjI)
          (fact i sp wr eff[THEN conjunct1] eff[THEN conjunct2])+
    next
      case False
      with pl k(2) have "fp_extended plan = None" and ref: "refuse_unbootable_first_image iops w side ?a0 = Inr ()" by auto
      then have "snd wa = ?a0" by (simp add: wa_def)
      with full[OF ok] u(2) have wr: "\<forall>data. reads_file iops u data \<longrightarrow> written (image_events es) = data" by simp
      from ref k(2) u(2) diff(2) obtain img len where "io_read iops w u = Some img" "image_extent img = Inr (FLASH_BASE, len)"
        by (auto simp: refuse_unbootable_first_image_def uf2_image_start_def split: if_splits sum.splits option.splits)
      with False u(1) wr show ?thesis by auto
    qed
    with nr rom diff show ?thesis by auto
  qed
qed

subsection \<open>A concrete first install\<close>

definition demo_dfu :: dfu_device where
  "demo_dfu = \<lparr>dfu_vidpid = DFU_VID_PID, dfu_serial = Some ''FFFFFFFEFFFF'', dfu_path = Some ''1-2'', dfu_devnum = Some ''7'',
     dfu_raw = ''a''\<rparr>"

definition demo_dfu_ops :: "nat flash_ops" where
  "demo_dfu_ops = demo_flash_ops\<lparr>fo_dfu := (\<lambda>w. (w, Inr (dfu_group [] [demo_dfu, demo_dfu\<lparr>dfu_raw := ''b''\<rparr>]))),
     fo_procs := \<lparr>rn_exec = (\<lambda>argv cwd w. (w, [], Inr 0)), rn_cancel_after = (\<lambda>w. None)\<rparr>\<rparr>"

lemma demo_dfu_simps:
  "fo_exists demo_dfu_ops w f" "fo_dfu demo_dfu_ops w = (w, Inr (dfu_group [] [demo_dfu, demo_dfu\<lparr>dfu_raw := ''b''\<rparr>]))"
  "dfu_group [] [demo_dfu, demo_dfu\<lparr>dfu_raw := ''b''\<rparr>] = [demo_dfu]"
  "choose_dfu [demo_dfu] None = Inr demo_dfu" "dfu_selector demo_dfu = [''-p'', ''1-2'']"
  "fs_dry_run demo_flash_settings = False"
  by (simp_all add: demo_dfu_ops_def demo_flash_ops_def demo_flash_settings_def)
    (simp_all add: dfu_key_def present_def demo_dfu_def choose_dfu_def dfu_selector_def)

lemma demo_dfu_run:
  "\<exists>reports. run_cmd demo_dfu_ops p demo_flash_settings [] False (DfuWrite sel i) w =
     (w, [Ran (DfuWrite sel i) reports (Inr 0)], reports, Inr 0)"
  by (simp add: run_cmd_def run_streamed_def demo_dfu_ops_def demo_flash_settings_def)


definition demo_first_ops :: "byte list \<Rightarrow> byte list \<Rightarrow> nat image_ops" where
  "demo_first_ops uf2 out =
     \<lparr>io_exists = \<lambda>w f. True, io_read = \<lambda>w f. Some (if f = ''/o/k.uf2'' then uf2 else out), io_same = \<lambda>w f g. False, io_open = \<lambda>f g w. (w, None),
      io_chunk = \<lambda>f off w. (w, Inr (drop off out)),
      io_write = \<lambda>f bs w. (w, Inr (length bs)), io_finish = \<lambda>f w. (w, None),
      io_marker = \<lambda>w m. False, io_request = \<lambda>h i c w. (w, Inl []), io_ready = \<lambda>h t w. (w, Inr ()),
      io_bus = \<lparr>bo_scan = \<lambda>w. (w, [''/m/RPI-RP2'']), bo_devices = \<lambda>w. [], bo_time = of_nat, bo_sleep = \<lambda>t w. w\<rparr>\<rparr>"

lemma demo_first_simps [simp]:
  "io_exists (demo_first_ops uf2 out) w f = True" "io_read (demo_first_ops uf2 out) w f = Some (if f = ''/o/k.uf2'' then uf2 else out)"
  "io_same (demo_first_ops uf2 out) w f g = False" "io_open (demo_first_ops uf2 out) f g w = (w, None)"
  "io_chunk (demo_first_ops uf2 out) f off w = (w, Inr (drop off out))"
  "io_write (demo_first_ops uf2 out) f bs w = (w, Inr (length bs))" "io_finish (demo_first_ops uf2 out) f w = (w, None)"
  "io_marker (demo_first_ops uf2 out) w m = False"
  "bo_scan (io_bus (demo_first_ops uf2 out)) w = (w, [''/m/RPI-RP2''])"
  "bo_devices (io_bus (demo_first_ops uf2 out)) w = []"
  by (simp_all add: demo_first_ops_def)

lemma demo_first_copy: "\<exists>es. copy_chunks (demo_first_ops uf2 out) f dest 0 w = Some (w, es, Copied)"
proof -
  have v: "\<exists>es. write_view (demo_first_ops uf2 out) dest bs w = Some (w, es, None)" for bs w
    by (subst write_view.simps) (auto simp: write_view.simps[of _ _ "[]"])
  have e: "copy_chunks (demo_first_ops uf2 out) f dest (length out) w = Some (w, [], Copied)" for w
    by (subst copy_chunks.simps) simp
  from v[of out w] obtain es where "write_view (demo_first_ops uf2 out) dest out w = Some (w, es, None)" by blast
  with e show ?thesis by (subst copy_chunks.simps) auto
qed

definition demo_katapult :: family where
  "demo_katapult = \<lparr>fam_name = ''katapult'', fam_source = [], fam_artifact = [], fam_builder = DEFAULT_BUILDER,
     fam_cmake_args = [], fam_helper = [], fam_flashers = [''dfu_util'', ''bootsel''],
     fam_submodules = False, fam_bootloader = True, fam_auto_provision = False, fam_stop_services = None\<rparr>"

definition demo_first_settings :: flash_settings where
  "demo_first_settings = demo_flash_settings\<lparr>fs_families := [(''katapult'', demo_katapult)]\<rparr>"

definition demo_katapult_config :: "string option option" where
  "demo_katapult_config = Some (Some ''CONFIG_LAUNCH_APP_ADDRESS=0x10004000'')"

lemma demo_first_reads: "reads_file (demo_first_ops uf2 out) f out"
  unfolding reads_file_def by (auto intro!: exI[of _ "length out"])

definition demo_bare :: device where
  "demo_bare = \<lparr>dev_type = ''rp2040'', dev_id = [], dev_chipset = ''rp2040'', dev_state = STATE_BOOTSEL,
     dev_fw = ''katapult'', dev_kind = KIND_BARE, dev_detail = []\<rparr>"

abbreviation demo_uf2_artifact :: "string \<Rightarrow> artifact" where
  "demo_uf2_artifact path \<equiv> \<lparr>kind = KIND_UF2, art_path = path, sha256 = None\<rparr>"

lemma demo_answer_lines: "text_lines [] ''CONFIG_LAUNCH_APP_ADDRESS=0x10004000'' = [''CONFIG_LAUNCH_APP_ADDRESS=0x10004000'']"
  by simp
lemma demo_answer: "parse_answer ''CONFIG_LAUNCH_APP_ADDRESS=0x10004000'' = Some (''LAUNCH_APP_ADDRESS'', ''0x10004000'')"
  using parse_answer_line[of "''LAUNCH_APP_ADDRESS''" "''0x10004000''"] by (simp add: stripped_def is_space_def)
lemma demo_hex_digits: "hex_digit CHR ''0'' = Some 0" "hex_digit CHR ''1'' = Some 1" "hex_digit CHR ''4'' = Some 4"
  by code_simp+
lemma demo_address_strip: "strip ''0x10004000'' = ''0x10004000''" by code_simp
lemma demo_address_int: "int_base16 ''0x10004000'' = Some 0x10004000"
  by (simp add: int_base16_def demo_address_strip demo_hex_digits starts_with_def)
lemma demo_first_address: "launch_address (Some ''CONFIG_LAUNCH_APP_ADDRESS=0x10004000'') = Some 0x10004000"
  by (simp add: launch_address_def answer_lines_def answer_map_def demo_answer_lines demo_answer demo_address_int demo_address_strip strip_id stripped_def is_space_def LAUNCH_ADDRESS_SYMBOL_def)

lemma demo_first_name: "basename ''/o/k.uf2'' = ''k.uf2''"
  by code_simp

lemma demo_dfu_unsupported: "dfu_util_supports demo_bare None = False"
  by code_simp

lemma demo_bootsel_supported: "bootsel_supports demo_bare None = True"
  by code_simp

lemma demo_first_pick:
  "resolve_flasher [''dfu_util'', ''bootsel''] demo_bare None (built_set demo_katapult None (Some ''/o/k.uf2''))
      = Inr (Some (Bootsel, demo_uf2_artifact ''/o/k.uf2''))"
proof -
  have "by_name ''dfu_util'' = Inr DfuUtil" "by_name ''bootsel'' = Inr Bootsel"
    by (simp_all add: by_name_def by_name_get_def flasher_defs)
  then show ?thesis by (simp add: demo_dfu_unsupported demo_bootsel_supported built_set_def)
qed


lemma demo_first_plan:
  assumes "with_erased_sector uf2 0x10004000 = Inr out"
  shows "plan_first_image (demo_first_ops uf2 out) (fs_families demo_first_settings) w ''rp2040'' None ''katapult''
     STATE_BOOTSEL (Some ''/o/k.uf2'') demo_katapult_config None [] =
   Inr \<lparr>fp_flasher = Bootsel, fp_artifact = demo_uf2_artifact ''/o/k.uf2'', fp_extended = Some out, fp_device = demo_bare\<rparr>"
proof -
  have fam: "resolve_family (fs_families demo_first_settings) ''katapult'' = Inr demo_katapult"
    by (simp add: demo_first_settings_def resolve_family_def)
  have st: "stage_erasing_uf2 (demo_first_ops uf2 out) w ''/o/k.uf2'' demo_katapult_config = Inr out"
    by (simp add: stage_erasing_uf2_def demo_katapult_config_def demo_first_address assms)
  have fl: "fam_flashers demo_katapult = [''dfu_util'', ''bootsel'']" "fam_bootloader demo_katapult"
    "fam_name demo_katapult = ''katapult''" "STATE_BOOTSEL \<noteq> STATE_DFU"
    by (simp_all add: demo_katapult_def STATE_BOOTSEL_def STATE_DFU_def)
  have dev: "\<lparr>dev_type = ''rp2040'', dev_id = [], dev_chipset = ''rp2040'', dev_state = STATE_BOOTSEL,
     dev_fw = ''katapult'', dev_kind = KIND_BARE, dev_detail = []\<rparr> = demo_bare" by (simp add: demo_bare_def)
  show ?thesis unfolding plan_first_image_def fam sum.case Let_def fl option.case dev
    by (simp del: resolve_flasher.simps add: demo_first_pick st fl)
qed

lemma demo_first_write:
  assumes "with_erased_sector uf2 0x10004000 = Inr out" "tg_artifact t = Some (demo_uf2_artifact path)" "path \<noteq> ''/o/k.uf2''" "requester_of t = None"
  shows "\<exists>es m. bootsel_write (demo_first_ops uf2 out) False t w = Some (w, es, t, Inr (Some m))"
proof -
  let ?ops = "demo_first_ops uf2 out"
  obtain start len where ext: "image_extent out = Inr (start, len)"
    using extract_image_extent[OF with_erased_sector_effect[OF assms(1), THEN conjunct1]] by (auto simp: is_ok_iff)
  have "\<exists>es. \<forall>dest. copy_chunks ?ops path dest 0 w = Some (w, es dest, Copied)"
    by (rule choice) (blast intro: demo_first_copy)
  then obtain es where c: "copy_chunks ?ops path dest 0 w = Some (w, es dest, Copied)" for dest by blast
  have ap: "wait_for_apply ?ops m dl w = Some (w, True)" for m dl by (subst wait_for_apply.simps) simp
  have fv: "find_volume ?ops t w = Some (w, [], t, Inr ''/m/RPI-RP2'')"
    by (simp add: find_volume_def assms(4) find_mount_def demo_first_ops_def)
  have cp: "copy_uf2 ?ops path m w = Some (w, es (path_join m (basename path)), Inr ())" for m
    by (simp add: copy_uf2_def ensure_uf2_def copy_bytes_def c ap)
  show ?thesis
    by (simp add: bootsel_write_def artifact_path_def assms(2-4) ensure_uf2_def uf2_image_start_def ext fv cp Let_def)
qed

theorem first_image_boots_witness:
  "\<exists>uf2 out w' es. flash_initial_bootloader demo_dfu_ops (demo_first_ops uf2 out) demo_paths demo_first_settings
       (\<lambda>name bytes w. (w, ''/s/'' @ name)) [] ''rp2040'' None ''katapult'' STATE_BOOTSEL (Some ''/o/k.uf2'')
       demo_katapult_config None [] 0 = Some (w', es, Inr ()) \<and>
     written (image_events es) = out \<and> extract_image out 0x10004000 4096 = Inr (replicate 4096 0xff)"
proof -
  obtain uf2 out where d: "e_blocks uf2 = Inr [demo_block]" "with_erased_sector uf2 0x10004000 = Inr out"
    by (rule demo_extended)
  let ?a = "demo_uf2_artifact ''/s/k.uf2''" and ?s = demo_first_settings and ?st = "\<lambda>name bytes w. (w, ''/s/'' @ name)"
  let ?t = "bootsel_target [] demo_bare None ?a []"
  have t: "tg_artifact ?t = Some ?a" "requester_of ?t = None"
    by (simp_all add: bootsel_target_def bootsel_requester_def requester_of_def demo_bare_def)
  have "''/s/k.uf2'' \<noteq> ''/o/k.uf2''" by simp
  from demo_first_write[OF d(2) t(1) this t(2)] obtain es m where
    w: "bootsel_write (demo_first_ops uf2 out) False ?t 0 = Some (0, es, ?t, Inr (Some m))" by blast
  have s: "fs_dry_run ?s = False" "fl_name Bootsel \<noteq> ''dfu_util''"
    by (simp_all add: demo_first_settings_def demo_flash_settings_def)
  have run: "flash_initial_bootloader demo_dfu_ops (demo_first_ops uf2 out) demo_paths ?s ?st [] ''rp2040'' None ''katapult''
       STATE_BOOTSEL (Some ''/o/k.uf2'') demo_katapult_config None [] 0 = Some (0, map ImageEvent es, Inr ())"
    unfolding flash_initial_bootloader_def demo_first_plan[OF d(2)] sum.case
    by (simp add: demo_first_name s w bootsel_settled_def t(2))
  have fam: "resolve_family (fs_families ?s) ''katapult'' = Inr demo_katapult"
    by (simp add: demo_first_settings_def resolve_family_def)
  have boot: "fam_bootloader demo_katapult" by (simp add: demo_katapult_def)
  have rom: "STATE_BOOTSEL \<in> {STATE_BOOTSEL, STATE_DFU}" by simp
  have go: "is_ok (Inr () :: first_error + unit) \<and> \<not> fs_dry_run ?s \<and> STATE_BOOTSEL = STATE_BOOTSEL" by (simp add: s)
  from first_image_boots[OF run fam rom, THEN conjunct2, THEN conjunct1, THEN mp, OF go, unfolded if_P[OF boot]]
  obtain u img content a data w1 path where x: "Some ''/o/k.uf2'' = Some u"
    "io_read (demo_first_ops uf2 out) 0 u = Some img" "demo_katapult_config = Some content"
    "launch_address content = Some a" "with_erased_sector img a = Inr data"
    "reads_file (demo_first_ops uf2 out) path data \<longrightarrow> written (image_events (map ImageEvent es)) = data"
    "extract_image data a 4096 = Inr (replicate 4096 0xff)"
    by (elim exE conjE) (rule that)
  from x(3,4) have a: "a = 0x10004000" by (auto simp: demo_katapult_config_def demo_first_address)
  from x(1,2) have "img = uf2" by auto
  with x(5) a d(2) have "data = out" by simp
  with x(6,7) a demo_first_reads run show ?thesis by blast
qed

end
