(* ===== verification/CfgDoc.thy ===== *)
theory CfgDoc
  imports PyStr
begin

section \<open>A cfg document that survives being written back (cfgdoc.py)\<close>

text \<open>
  The document is its lines; the parse remembers at which lines each section and option lives and
  edits splice lines. \<open>parse_step\<close> is one turn of the loop of \<open>_parse\<close>. Python registers a section
  or option when it begins and keeps mutating the object; here the one being parsed is in the state
  (\<open>ps_current\<close>, \<open>ps_open\<close>) and goes into its dictionary when it ends, which is the same order.

  The regular expressions are written out: \<open>match_section\<close>, \<open>match_option\<close>, \<open>is_comment\<close> and
  \<open>strip_inline_comment\<close>. \<open>dots_end s\<close> is \<open>.*$\<close> matching \<open>s\<close>.
\<close>

subsection \<open>Lines\<close>

abbreviation nl :: char where "nl \<equiv> CHR 0x0A"

definition dots_end :: "string \<Rightarrow> bool" where
  "dots_end s = (nl \<notin> set (if s \<noteq> [] \<and> last s = nl then butlast s else s))"

definition comment_char :: "char \<Rightarrow> bool" where
  "comment_char c = (c = CHR ''#'' \<or> c = CHR '';'')"

definition match_section :: "string \<Rightarrow> string option" where
  "match_section line =
     (case line of
        [] \<Rightarrow> None
      | c # rest \<Rightarrow>
          let name = takeWhile (\<lambda>x. x \<noteq> CHR '']'') rest; after = drop (length name) rest in
          if c \<noteq> CHR ''['' \<or> name = [] \<or> after = [] then None
          else (case lstrip (tl after) of
                  [] \<Rightarrow> Some name
                | x # xs \<Rightarrow> if comment_char x \<and> dots_end xs then Some name else None))"

definition is_sep :: "char \<Rightarrow> bool" where
  "is_sep c = (c = CHR '':'' \<or> c = CHR ''='')"

definition match_option :: "string \<Rightarrow> (string \<times> string) option" where
  "match_option line =
     (let before_sep = takeWhile (\<lambda>c. \<not> is_sep c) line; after = drop (length before_sep) line in
      if before_sep = [] \<or> after = [] \<or> is_space (hd before_sep) \<or> comment_char (hd before_sep) \<or> \<not> dots_end (tl after)
      then None else Some (rstrip before_sep, tl after))"

definition is_comment :: "string \<Rightarrow> bool" where
  "is_comment line = (case lstrip line of [] \<Rightarrow> False | c # _ \<Rightarrow> comment_char c)"

definition is_blank :: "string \<Rightarrow> bool" where
  "is_blank line = (strip line = [])"

definition is_continuation :: "string \<Rightarrow> bool" where
  "is_continuation line = (line \<noteq> [] \<and> hd line \<in> {CHR '' '', CHR 0x09} \<and> \<not> is_blank line)"

text \<open>The text before the first comment mark that starts the text or follows white space.\<close>

fun before_comment :: "bool \<Rightarrow> string \<Rightarrow> string" where
  "before_comment sp [] = []"
| "before_comment sp (c # s) =
     (if sp \<and> comment_char c \<and> dots_end s then [] else c # before_comment (is_space c) s)"

definition strip_inline_comment :: "string \<Rightarrow> string" where
  "strip_inline_comment text = rstrip (before_comment True text)"

definition BOOL_TRUE :: "string list" where "BOOL_TRUE = [''true'', ''yes'', ''on'', ''1'']"
definition BOOL_FALSE :: "string list" where "BOOL_FALSE = [''false'', ''no'', ''off'', ''0'']"

definition parse_bool :: "string option \<Rightarrow> bool option \<Rightarrow> bool option" where
  "parse_bool raw dflt =
     (case raw of
        None \<Rightarrow> dflt
      | Some r \<Rightarrow>
          let v = lower (strip r) in
          if v \<in> set BOOL_TRUE then Some True else if v \<in> set BOOL_FALSE then Some False else None)"

subsection \<open>The parse\<close>

record cfg_option =
  co_key :: string
  co_start :: nat
  co_end :: nat
  co_value :: string

record cfg_section =
  cs_name :: string
  cs_header :: nat
  cs_end :: nat
  cs_options :: "(string, cfg_option) dict"

record parse_state =
  ps_sections :: "(string, cfg_section) dict"
  ps_dups :: "string list"
  ps_current :: "cfg_section option"
  ps_open :: "cfg_option option"

definition set_default :: "('k, 'v) dict \<Rightarrow> 'k \<Rightarrow> 'v \<Rightarrow> ('k, 'v) dict" where
  "set_default d k v = (if dict_has d k then d else d @ [(k, v)])"

definition close_option :: "parse_state \<Rightarrow> parse_state" where
  "close_option st =
     (case (ps_current st, ps_open st) of
        (Some sec, Some opt) \<Rightarrow>
          st\<lparr>ps_current := Some (sec\<lparr>cs_options := set_default (cs_options sec) (co_key opt) opt\<rparr>), ps_open := None\<rparr>
      | _ \<Rightarrow> st\<lparr>ps_open := None\<rparr>)"

definition close_section :: "parse_state \<Rightarrow> parse_state" where
  "close_section st0 =
     (let st = close_option st0 in
      case ps_current st of
        None \<Rightarrow> st
      | Some sec \<Rightarrow>
          if dict_has (ps_sections st) (cs_name sec)
          then st\<lparr>ps_current := None,
                  ps_dups := (if cs_name sec \<in> set (ps_dups st) then ps_dups st else ps_dups st @ [cs_name sec])\<rparr>
          else st\<lparr>ps_current := None, ps_sections := ps_sections st @ [(cs_name sec, sec)]\<rparr>)"

definition parse_step :: "nat \<Rightarrow> string \<Rightarrow> parse_state \<Rightarrow> parse_state" where
  "parse_step i line st =
     (case match_section line of
        Some name \<Rightarrow>
          (close_section st)\<lparr>ps_current := Some \<lparr>cs_name = strip name, cs_header = i, cs_end = i + 1, cs_options = []\<rparr>\<rparr>
      | None \<Rightarrow>
      (case ps_current st of
        None \<Rightarrow> st
      | Some sec \<Rightarrow>
          (let st1 = st\<lparr>ps_current := Some (sec\<lparr>cs_end := i + 1\<rparr>)\<rparr> in
           if is_comment line then
             (case ps_open st of
                Some opt \<Rightarrow>
                  if is_continuation line then st1\<lparr>ps_open := Some (opt\<lparr>co_end := i + 1\<rparr>)\<rparr> else close_option st1
              | None \<Rightarrow> st1)
           else if is_blank line then close_option st1
           else if ps_open st \<noteq> None \<and> is_continuation line then
             (let item = strip_inline_comment (strip line) in
              st1\<lparr>ps_open := map_option (\<lambda>opt. opt\<lparr>co_end := i + 1,
                 co_value := (if item \<noteq> [] then co_value opt @ nl # item else co_value opt)\<rparr>) (ps_open st)\<rparr>)
           else
             (case match_option line of
                Some (key, value) \<Rightarrow>
                  (close_option st1)\<lparr>ps_open := Some \<lparr>co_key = strip key, co_start = i, co_end = i + 1,
                     co_value = strip_inline_comment (strip value)\<rparr>\<rparr>
              | None \<Rightarrow> close_option st1))))"

fun parse_from :: "nat \<Rightarrow> string list \<Rightarrow> parse_state \<Rightarrow> parse_state" where
  "parse_from i [] st = st"
| "parse_from i (l # ls) st = parse_from (i + 1) ls (parse_step i l st)"

definition parse_init :: parse_state where
  "parse_init = \<lparr>ps_sections = [], ps_dups = [], ps_current = None, ps_open = None\<rparr>"

record cfg_doc =
  d_lines :: "string list"
  d_sections :: "(string, cfg_section) dict"
  d_dups :: "string list"
  d_frozen :: bool

definition doc_of_lines :: "bool \<Rightarrow> string list \<Rightarrow> cfg_doc" where
  "doc_of_lines frozen ls =
     (let st = close_section (parse_from 0 ls parse_init) in
      \<lparr>d_lines = ls, d_sections = ps_sections st, d_dups = ps_dups st, d_frozen = frozen\<rparr>)"

definition parse_doc :: "string \<Rightarrow> cfg_doc" where
  "parse_doc text = doc_of_lines False (if text \<noteq> [] then splitlines text else [])"

subsection \<open>Reading\<close>

definition has_section :: "cfg_doc \<Rightarrow> string \<Rightarrow> bool" where
  "has_section d name = dict_has (d_sections d) name"

definition section_names :: "cfg_doc \<Rightarrow> string option \<Rightarrow> string list" where
  "section_names d prefix =
     (let names = map fst (sort_key (\<lambda>(n, s). cs_header s) (d_sections d)) in
      case prefix of None \<Rightarrow> names
      | Some p \<Rightarrow> filter (\<lambda>n. n = p \<or> starts_with (p @ '' '') n) names)"

definition cfg_get :: "cfg_doc \<Rightarrow> string \<Rightarrow> string \<Rightarrow> string option \<Rightarrow> string option" where
  "cfg_get d sec key dflt =
     (case dict_get (d_sections d) sec of
        None \<Rightarrow> dflt
      | Some s \<Rightarrow> (case dict_get (cs_options s) key of None \<Rightarrow> dflt | Some opt \<Rightarrow> Some (co_value opt)))"

definition nonblank_parts :: "string \<Rightarrow> string list" where
  "nonblank_parts raw = filter (\<lambda>p. p \<noteq> []) (map strip (splitlines raw))"

definition get_list :: "cfg_doc \<Rightarrow> string \<Rightarrow> string \<Rightarrow> string list" where
  "get_list d sec key =
     (case cfg_get d sec key None of None \<Rightarrow> [] | Some raw \<Rightarrow> if raw = [] then [] else nonblank_parts raw)"

text \<open>\<open>re.split(r"[,\s]+", raw)\<close> without its empty parts.\<close>

fun csv_parts :: "string \<Rightarrow> string \<Rightarrow> string list" where
  "csv_parts acc [] = (if acc = [] then [] else [rev acc])"
| "csv_parts acc (c # s) =
     (if c = CHR '','' \<or> is_space c then (if acc = [] then csv_parts [] s else rev acc # csv_parts [] s)
      else csv_parts (c # acc) s)"

definition get_csv :: "cfg_doc \<Rightarrow> string \<Rightarrow> string \<Rightarrow> string list option" where
  "get_csv d sec key = map_option (csv_parts []) (cfg_get d sec key None)"

definition options_of :: "cfg_doc \<Rightarrow> string \<Rightarrow> string list" where
  "options_of d sec = (case dict_get (d_sections d) sec of None \<Rightarrow> [] | Some s \<Rightarrow> dict_keys (cs_options s))"

definition freeze :: "cfg_doc \<Rightarrow> cfg_doc" where
  "freeze d = d\<lparr>d_frozen := True\<rparr>"

subsection \<open>Writing\<close>

definition INDENT :: string where "INDENT = ''    ''"

datatype cfg_value = VList "string list" | VStr string

type_synonym decoration = "(string, string) dict \<times> (string, string list) dict \<times> string list"

fun decorate :: "string list \<Rightarrow> decoration \<Rightarrow> decoration" where
  "decorate [] dc = dc"
| "decorate (raw # rest) (inline, labels, pending) =
     (let text = strip raw in
      if text = [] then decorate rest (inline, labels, pending)
      else if is_comment raw then decorate rest (inline, labels, pending @ [text])
      else (let item = strip_inline_comment text in
        if item = [] then decorate rest (inline, labels, pending)
        else (let comment = strip (drop (length item) text);
                  inline' = (if comment \<noteq> [] then dict_set inline item comment else inline);
                  labels' = (if pending \<noteq> [] then dict_set labels item pending else labels) in
              decorate rest (inline', labels', []))))"

definition decoration_of :: "string list option \<Rightarrow> decoration" where
  "decoration_of existing = (case existing of None \<Rightarrow> ([], [], []) | Some ls \<Rightarrow> decorate (tl ls) ([], [], []))"

definition block_item :: "decoration \<Rightarrow> string \<Rightarrow> string list" where
  "block_item dc item =
     (let (inline, labels, trailing) = dc in
      map (\<lambda>c. INDENT @ c) (case dict_get labels item of None \<Rightarrow> [] | Some cs \<Rightarrow> cs) @
      [INDENT @ item @ (case dict_get inline item of Some c \<Rightarrow> if c = [] then [] else ''  '' @ c | None \<Rightarrow> [])])"

definition block :: "string \<Rightarrow> decoration \<Rightarrow> string list \<Rightarrow> string list" where
  "block key dc items =
     (if items = [] then [key @ '':'']
      else (key @ '':'') # concat (map (block_item dc) items) @ map (\<lambda>c. INDENT @ c) (snd (snd dc)))"

definition after_first :: "char \<Rightarrow> string \<Rightarrow> string" where
  "after_first c s = (case dropWhile (\<lambda>x. x \<noteq> c) s of [] \<Rightarrow> s | _ # t \<Rightarrow> t)"

definition kept_comment :: "string list option \<Rightarrow> string" where
  "kept_comment existing =
     (case existing of
        Some [line] \<Rightarrow>
          (let body = after_first CHR ''='' (after_first CHR '':'' line) in
           strip (drop (length (strip_inline_comment body)) body))
      | _ \<Rightarrow> [])"

definition render_option :: "string \<Rightarrow> cfg_value \<Rightarrow> string list option \<Rightarrow> string list" where
  "render_option key value existing =
     (case value of
        VList vs \<Rightarrow> block key (decoration_of existing) (filter (\<lambda>v. strip v \<noteq> []) vs)
      | VStr text \<Rightarrow>
          if nl \<in> set text then block key (decoration_of existing) (nonblank_parts text)
          else (let comment = kept_comment existing in
            [key @ '': '' @ text @ (if comment \<noteq> [] then ''  '' @ comment else [])]))"

datatype edit_error = FrozenDocument | SectionMissing string

definition splice :: "nat \<Rightarrow> nat \<Rightarrow> string list \<Rightarrow> cfg_doc \<Rightarrow> edit_error + cfg_doc" where
  "splice start stop replacement d =
     (if d_frozen d then Inl FrozenDocument
      else Inr (doc_of_lines False (take start (d_lines d) @ replacement @ drop (max start stop) (d_lines d))))"

definition add_section :: "string \<Rightarrow> cfg_doc \<Rightarrow> edit_error + cfg_doc" where
  "add_section name d =
     (if has_section d name then Inr d
      else (let n = length (d_lines d);
                gap = (if d_lines d \<noteq> [] \<and> \<not> is_blank (last (d_lines d)) then [[]] else []) in
            splice n n (gap @ [''['' @ name @ '']'']) d))"

fun insert_point :: "nat \<Rightarrow> string list \<Rightarrow> nat \<Rightarrow> nat" where
  "insert_point header ls 0 = 0"
| "insert_point header ls (Suc n) =
     (if n > header \<and> is_blank (ls ! n) then insert_point header ls n else Suc n)"

definition set_in :: "cfg_section \<Rightarrow> string \<Rightarrow> cfg_value \<Rightarrow> cfg_doc \<Rightarrow> edit_error + cfg_doc" where
  "set_in sec key value d =
     (case dict_get (cs_options sec) key of
        Some opt \<Rightarrow>
          splice (co_start opt) (co_end opt)
            (render_option key value (Some (take (co_end opt - co_start opt) (drop (co_start opt) (d_lines d))))) d
      | None \<Rightarrow>
          (let p = insert_point (cs_header sec) (d_lines d) (cs_end sec) in
           splice p p (render_option key value None) d))"

definition set_option :: "string \<Rightarrow> string \<Rightarrow> cfg_value \<Rightarrow> cfg_doc \<Rightarrow> edit_error + cfg_doc" where
  "set_option sec key value d =
     (case dict_get (d_sections d) sec of
        Some s \<Rightarrow> set_in s key value d
      | None \<Rightarrow>
          and_then (add_section sec d) (\<lambda>d'.
            case dict_get (d_sections d') sec of
              None \<Rightarrow> Inl (SectionMissing sec)
            | Some s \<Rightarrow> set_in s key value d'))"

definition remove_option :: "string \<Rightarrow> string \<Rightarrow> cfg_doc \<Rightarrow> edit_error + cfg_doc \<times> bool" where
  "remove_option sec key d =
     (case dict_get (d_sections d) sec of
        None \<Rightarrow> Inr (d, False)
      | Some s \<Rightarrow>
          (case dict_get (cs_options s) key of
             None \<Rightarrow> Inr (d, False)
           | Some opt \<Rightarrow> and_then (splice (co_start opt) (co_end opt) [] d) (\<lambda>d'. Inr (d', True))))"

definition rename_section :: "string \<Rightarrow> string \<Rightarrow> cfg_doc \<Rightarrow> edit_error + cfg_doc \<times> bool" where
  "rename_section old new d =
     (case dict_get (d_sections d) old of
        None \<Rightarrow> Inr (d, False)
      | Some s \<Rightarrow>
          if has_section d new then Inr (d, False)
          else (let line = d_lines d ! cs_header s;
                    suffix = tl (dropWhile (\<lambda>c. c \<noteq> CHR '']'') line) in
                and_then (splice (cs_header s) (cs_header s + 1) [''['' @ new @ '']'' @ suffix] d)
                  (\<lambda>d'. Inr (d', True))))"

definition remove_section :: "string \<Rightarrow> cfg_doc \<Rightarrow> edit_error + cfg_doc \<times> bool" where
  "remove_section name d =
     (case dict_get (d_sections d) name of
        None \<Rightarrow> Inr (d, False)
      | Some s \<Rightarrow>
          (let stop = (if cs_end s < length (d_lines d) \<and> is_blank (d_lines d ! cs_end s)
                       then cs_end s + 1 else cs_end s) in
           and_then (splice (cs_header s) stop [] d) (\<lambda>d'. Inr (d', True))))"

definition render_doc :: "cfg_doc \<Rightarrow> string" where
  "render_doc d =
     (let text = join [nl] (d_lines d) in
      if text = [] \<or> last text = nl then text else text @ [nl])"

end
