(* ===== verification/CfgTree.thy ===== *)
theory CfgTree
  imports CfgDoc
begin

section \<open>What a document says: the tree behind the line numbers\<close>

text \<open>
  The reference reading of a document: lines before the first header, then one node per header
  with its items, an item being an option with all the lines it occupies or any other line.
  Nodes and items are kept newest first, the order in which the parse meets them. \<open>tree_of\<close> builds
  the tree, \<open>flat\<close> gives back exactly the lines, \<open>parse_refines\<close> says that the indices of \<open>CfgDoc\<close>
  are the offsets in the tree, and \<open>reparse\<close> that a well-formed tree is read back as itself. An
  edit of the lines is then an edit of the tree.
\<close>

datatype cfg_item = Opt string string "string list" | Oth string

type_synonym cfg_node = "string \<times> string \<times> cfg_item list"

definition add_line :: "string \<Rightarrow> string \<Rightarrow> string" where
  "add_line v line =
     (if is_comment line then v
      else (let item = strip_inline_comment (strip line) in if item \<noteq> [] then v @ nl # item else v))"

definition fresh_item :: "string \<Rightarrow> cfg_item" where
  "fresh_item line =
     (if is_comment line \<or> is_blank line then Oth line
      else case match_option line of
        Some (k, v) \<Rightarrow> Opt (strip k) (strip_inline_comment (strip v)) [line]
      | None \<Rightarrow> Oth line)"

fun istep :: "string \<Rightarrow> cfg_item list \<Rightarrow> cfg_item list" where
  "istep line (Opt k v ls # its) =
     (if is_continuation line then Opt k (add_line v line) (ls @ [line]) # its
      else fresh_item line # Opt k v ls # its)"
| "istep line its = fresh_item line # its"

fun tstep :: "string list \<times> cfg_node list \<Rightarrow> string \<Rightarrow> string list \<times> cfg_node list" where
  "tstep (pre, nodes) line =
     (case match_section line of
        Some n \<Rightarrow> (pre, (strip n, line, []) # nodes)
      | None \<Rightarrow> (case nodes of
            [] \<Rightarrow> (pre @ [line], [])
          | (n, h, its) # rest \<Rightarrow> (pre, (n, h, istep line its) # rest)))"

definition tree_of :: "string list \<Rightarrow> string list \<times> cfg_node list" where
  "tree_of ls = foldl tstep ([], []) ls"

fun item_lines :: "cfg_item \<Rightarrow> string list" where
  "item_lines (Opt k v ls) = ls"
| "item_lines (Oth l) = [l]"

fun body :: "cfg_item list \<Rightarrow> string list" where
  "body [] = []"
| "body (it # its) = body its @ item_lines it"

fun flat_nodes :: "cfg_node list \<Rightarrow> string list" where
  "flat_nodes [] = []"
| "flat_nodes ((n, h, its) # rest) = flat_nodes rest @ h # body its"

definition flat :: "string list \<times> cfg_node list \<Rightarrow> string list" where
  "flat t = fst t @ flat_nodes (snd t)"

lemma item_lines_fresh [simp]: "item_lines (fresh_item l) = [l]"
  by (simp add: fresh_item_def split: option.split)

lemma body_istep [simp]: "body (istep l its) = body its @ [l]"
  by (cases "(l, its)" rule: istep.cases) auto

lemma flat_tstep: "flat (tstep t l) = flat t @ [l]"
  by (cases t) (auto simp: flat_def split: option.split list.split)

lemma tree_of_snoc: "tree_of (ls @ [l]) = tstep (tree_of ls) l"
  by (simp add: tree_of_def)

lemma flat_tree_of [simp]: "flat (tree_of ls) = ls"
  by (induction ls rule: rev_induct) (simp_all add: tree_of_snoc flat_tstep, simp add: tree_of_def flat_def)

subsection \<open>Well-formed trees are read back\<close>

fun is_opt :: "cfg_item \<Rightarrow> bool" where
  "is_opt (Opt k v ls) = True"
| "is_opt (Oth l) = False"

fun wf_item :: "cfg_item \<Rightarrow> bool" where
  "wf_item (Opt k v ls) =
     (\<exists>l0 rest v0. ls = l0 # rest \<and> match_section l0 = None \<and> fresh_item l0 = Opt k v0 [l0] \<and>
       list_all is_continuation rest \<and> v = foldl add_line v0 rest)"
| "wf_item (Oth l) = (match_section l = None \<and> fresh_item l = Oth l)"

fun wf_items :: "cfg_item list \<Rightarrow> bool" where
  "wf_items [] = True"
| "wf_items (it # its) =
     (wf_items its \<and> wf_item it \<and>
      (its \<noteq> [] \<and> is_opt (hd its) \<longrightarrow> \<not> is_continuation (hd (item_lines it))))"

definition wf_node :: "cfg_node \<Rightarrow> bool" where
  "wf_node nd = (map_option strip (match_section (fst (snd nd))) = Some (fst nd) \<and> wf_items (snd (snd nd)))"

definition wf_tree :: "string list \<times> cfg_node list \<Rightarrow> bool" where
  "wf_tree t = ((\<forall>l \<in> set (fst t). match_section l = None) \<and> (\<forall>nd \<in> set (snd t). wf_node nd))"

lemma continuation_not_section: "is_continuation l \<Longrightarrow> match_section l = None"
  by (cases l) (auto simp: is_continuation_def match_section_def Let_def)

lemma continuation_fresh: "is_continuation l \<Longrightarrow> fresh_item l = Oth l"
proof -
  assume c: "is_continuation l"
  then have "l \<noteq> []" "is_space (hd l)" "\<not> is_sep (hd l)"
    by (auto simp: is_continuation_def is_space_def is_sep_def)
  then have "match_option l = None"
    by (cases l) (auto simp: match_option_def Let_def)
  then show ?thesis by (simp add: fresh_item_def)
qed

lemma wf_fresh: "match_section l = None \<Longrightarrow> wf_item (fresh_item l)"
  unfolding fresh_item_def by (auto simp: fresh_item_def split: option.splits)

lemma wf_istep:
  assumes "wf_items its" "match_section l = None"
  shows "wf_items (istep l its)"
proof (cases "(l, its)" rule: istep.cases)
  case (1 line k v ls r)
  show ?thesis
  proof (cases "is_continuation l")
    case True
    from assms 1 obtain l0 rest v0 where w: "ls = l0 # rest" "match_section l0 = None"
      "fresh_item l0 = Opt k v0 [l0]" "list_all is_continuation rest" "v = foldl add_line v0 rest" by auto
    then have "wf_item (Opt k (add_line v l) (ls @ [l]))" using True by auto
    moreover have "hd (ls @ [l]) = hd ls" using w(1) by simp
    ultimately show ?thesis using assms 1 True w(1) by auto
  next
    case False
    then show ?thesis using assms 1 wf_fresh[OF assms(2)] by auto
  qed
qed (use assms wf_fresh in auto)

lemma wf_tstep: "wf_tree t \<Longrightarrow> wf_tree (tstep t l)"
  by (cases t) (auto simp: wf_tree_def wf_node_def intro: wf_istep split: option.split list.split)

lemma wf_tree_of: "wf_tree (tree_of ls)"
  by (induction ls rule: rev_induct) (simp_all add: tree_of_snoc wf_tstep, simp add: tree_of_def wf_tree_def)

lemma fold_cont:
  "list_all is_continuation rest \<Longrightarrow>
   foldl (\<lambda>its l. istep l its) (Opt k v ls # its) rest = Opt k (foldl add_line v rest) (ls @ rest) # its"
  by (induction rest arbitrary: v ls) auto

lemma reparse_item:
  assumes "wf_item it" "its \<noteq> [] \<and> is_opt (hd its) \<longrightarrow> \<not> is_continuation (hd (item_lines it))"
  shows "foldl (\<lambda>its l. istep l its) its (item_lines it) = it # its"
proof (cases it)
  case (Opt k v ls)
  with assms obtain l0 rest v0 where w: "ls = l0 # rest" "fresh_item l0 = Opt k v0 [l0]"
    "list_all is_continuation rest" "v = foldl add_line v0 rest" by auto
  have "istep l0 its = Opt k v0 [l0] # its"
    using assms(2) w Opt by (cases "(l0, its)" rule: istep.cases) auto
  then show ?thesis using Opt w fold_cont[OF w(3)] by simp
next
  case (Oth l)
  then show ?thesis using assms by (cases "(l, its)" rule: istep.cases) auto
qed

lemma item_lines_no_section: "wf_item it \<Longrightarrow> l \<in> set (item_lines it) \<Longrightarrow> match_section l = None"
  by (cases it) (auto simp: list_all_iff continuation_not_section)

lemma fold_tstep_items:
  "\<forall>l \<in> set ls. match_section l = None \<Longrightarrow>
   foldl tstep (pre, (n, h, its) # rest) ls = (pre, (n, h, foldl (\<lambda>its l. istep l its) its ls) # rest)"
  by (induction ls arbitrary: its) auto

lemma reparse_items:
  "wf_items its \<Longrightarrow> foldl tstep (pre, (n, h, []) # rest) (body its) = (pre, (n, h, its) # rest)"
proof (induction its)
  case (Cons it its)
  then have "foldl tstep (pre, (n, h, its) # rest) (item_lines it) =
      (pre, (n, h, foldl (\<lambda>its l. istep l its) its (item_lines it)) # rest)"
    using item_lines_no_section[of it] by (intro fold_tstep_items) auto
  also have "foldl (\<lambda>its l. istep l its) its (item_lines it) = it # its"
    using Cons.prems by (intro reparse_item) auto
  finally show ?case using Cons by simp
qed simp

lemma fold_tstep_pre: "\<forall>l \<in> set ls. match_section l = None \<Longrightarrow> foldl tstep (pre, []) ls = (pre @ ls, [])"
  by (induction ls arbitrary: pre) auto

lemma reparse_nodes:
  "\<forall>nd \<in> set nodes. wf_node nd \<Longrightarrow> foldl tstep (pre, []) (flat_nodes nodes) = (pre, nodes)"
proof (induction nodes)
  case (Cons nd rest)
  obtain n h its where nd: "nd = (n, h, its)" by (cases nd)
  with Cons have w: "map_option strip (match_section h) = Some n" "wf_items its" by (auto simp: wf_node_def)
  have "tstep (pre, rest) h = (pre, (n, h, []) # rest)" using w(1) by auto
  then show ?case using Cons nd reparse_items[OF w(2)] by simp
qed simp

theorem reparse: "wf_tree t \<Longrightarrow> tree_of (flat t) = t"
  unfolding tree_of_def flat_def wf_tree_def
  using fold_tstep_pre[of "fst t" "[]"] reparse_nodes[of "snd t" "fst t"] by simp

subsection \<open>The indices are the offsets in the tree\<close>

fun entries :: "nat \<Rightarrow> cfg_item list \<Rightarrow> (string \<times> cfg_option) list" where
  "entries b [] = []"
| "entries b (Oth l # its) = entries b its"
| "entries b (Opt k v ls # its) = entries b its @
     [(k, \<lparr>co_key = k, co_start = b + length (body its), co_end = b + length (body its) + length ls, co_value = v\<rparr>)]"

definition first_wins :: "(string \<times> 'v) list \<Rightarrow> (string, 'v) dict" where
  "first_wins es = foldl (\<lambda>d (k, v). set_default d k v) [] es"

definition section_of :: "nat \<Rightarrow> cfg_node \<Rightarrow> cfg_item list \<Rightarrow> cfg_section" where
  "section_of h nd done =
     \<lparr>cs_name = fst nd, cs_header = h, cs_end = h + 1 + length (body (snd (snd nd))),
      cs_options = first_wins (entries (h + 1) done)\<rparr>"

definition register :: "cfg_section \<Rightarrow> (string, cfg_section) dict \<times> string list \<Rightarrow>
    (string, cfg_section) dict \<times> string list" where
  "register sec r =
     (if dict_has (fst r) (cs_name sec)
      then (fst r, if cs_name sec \<in> set (snd r) then snd r else snd r @ [cs_name sec])
      else (fst r @ [(cs_name sec, sec)], snd r))"

fun registered :: "nat \<Rightarrow> cfg_node list \<Rightarrow> (string, cfg_section) dict \<times> string list" where
  "registered p [] = ([], [])"
| "registered p (nd # rest) =
     register (section_of (p + length (flat_nodes rest)) nd (snd (snd nd))) (registered p rest)"

fun closed_items :: "cfg_item list \<Rightarrow> cfg_item list" where
  "closed_items (Opt k v ls # its) = its"
| "closed_items its = its"

fun open_option :: "nat \<Rightarrow> cfg_item list \<Rightarrow> cfg_option option" where
  "open_option b (Opt k v ls # its) =
     Some \<lparr>co_key = k, co_start = b + length (body its), co_end = b + length (body its) + length ls, co_value = v\<rparr>"
| "open_option b its = None"

fun state_of :: "nat \<Rightarrow> cfg_node list \<Rightarrow> parse_state" where
  "state_of p [] = parse_init"
| "state_of p (nd # rest) =
     (let h = p + length (flat_nodes rest) in
      \<lparr>ps_sections = fst (registered p rest), ps_dups = snd (registered p rest),
       ps_current = Some (section_of h nd (closed_items (snd (snd nd)))),
       ps_open = open_option (h + 1) (snd (snd nd))\<rparr>)"

lemma parse_from_append: "parse_from i (xs @ ys) st = parse_from (i + length xs) ys (parse_from i xs st)"
  by (induction xs arbitrary: i st) auto

lemma first_wins_snoc: "first_wins (es @ [(k, v)]) = set_default (first_wins es) k v"
  by (simp add: first_wins_def)

lemma close_open:
  "close_option \<lparr>ps_sections = S, ps_dups = D, ps_current = Some (section_of h nd (closed_items its)),
     ps_open = open_option (h + 1) its\<rparr> =
   \<lparr>ps_sections = S, ps_dups = D, ps_current = Some (section_of h nd its), ps_open = None\<rparr>"
proof (cases its)
  case (Cons it r)
  then show ?thesis
    by (cases it) (auto simp: close_option_def section_of_def first_wins_snoc)
qed (simp add: close_option_def)

lemma close_state:
  "close_section (state_of p nodes) =
     \<lparr>ps_sections = fst (registered p nodes), ps_dups = snd (registered p nodes), ps_current = None, ps_open = None\<rparr>"
proof (cases nodes)
  case (Cons nd rest)
  then show ?thesis
    unfolding Cons state_of.simps close_section_def Let_def close_open registered.simps register_def
    by (simp add: section_of_def)
qed (simp add: close_section_def close_option_def parse_init_def)

lemma fresh_item_cases:
  "fresh_item l = (if is_comment l \<or> is_blank l then Oth l else
     case match_option l of None \<Rightarrow> Oth l | Some (k, v) \<Rightarrow> Opt (strip k) (strip_inline_comment (strip v)) [l])"
  by (simp add: fresh_item_def split: option.split)

lemma continuation_nonblank: "is_continuation l \<Longrightarrow> \<not> is_blank l"
  by (simp add: is_continuation_def)

lemma continuation_no_option: "is_continuation l \<Longrightarrow> match_option l = None"
  by (cases l) (auto simp: is_continuation_def match_option_def Let_def is_space_def is_sep_def)

lemma section_of_oth [simp]: "section_of h nd (Oth l # its) = section_of h nd its"
  by (simp add: section_of_def)

lemma parse_step_body:
  assumes "match_section l = None" and j: "j = h + 1 + length (body its)"
  shows "parse_step j l
     \<lparr>ps_sections = S, ps_dups = D, ps_current = Some (section_of h (n, hl, its) (closed_items its)),
      ps_open = open_option (h + 1) its\<rparr> =
     \<lparr>ps_sections = S, ps_dups = D, ps_current = Some (section_of h (n, hl, istep l its) (closed_items (istep l its))),
      ps_open = open_option (h + 1) (istep l its)\<rparr>"
proof -
  have grow: "section_of h (n, hl, istep l its) done = (section_of h (n, hl, its) done)\<lparr>cs_end := j + 1\<rparr>" for "done"
    by (simp add: section_of_def j)
  have closed: "close_option \<lparr>ps_sections = S, ps_dups = D,
        ps_current = Some ((section_of h (n, hl, its) (closed_items its))\<lparr>cs_end := j + 1\<rparr>),
        ps_open = open_option (h + 1) its\<rparr> =
      \<lparr>ps_sections = S, ps_dups = D, ps_current = Some ((section_of h (n, hl, its) its)\<lparr>cs_end := j + 1\<rparr>), ps_open = None\<rparr>"
    using close_open[of S D h "(n, hl, istep l its)" its] by (simp add: section_of_def j)
  show ?thesis
  proof (cases "\<exists>k v ls r. its = Opt k v ls # r \<and> is_continuation l")
    case True
    then obtain k v ls r where its: "its = Opt k v ls # r" and c: "is_continuation l" by blast
    show ?thesis
      using assms(1) c continuation_nonblank[OF c]
      by (auto simp: parse_step_def its add_line_def section_of_def j Let_def)
  next
    case False
    have i: "istep l its = fresh_item l # its"
      using False by (cases "(l, its)" rule: istep.cases) auto
    have no: "open_option (h + 1) its = None \<or> \<not> is_continuation l"
      using False by (cases "(h + 1, its)" rule: open_option.cases) auto
    have cl: "closed_items its = its" if "open_option (h + 1) its = None"
      using that by (cases its rule: closed_items.cases) auto
    have close_none: "close_option (st\<lparr>ps_open := None\<rparr>) = st\<lparr>ps_open := None\<rparr>" for st
      by (simp add: close_option_def split: option.split)
    show ?thesis
    proof (cases "is_comment l \<or> is_blank l")
      case True
      then have f: "fresh_item l = Oth l" by (auto simp: fresh_item_def)
      show ?thesis
        using assms(1) True no closed cl
        unfolding i f grow[unfolded i f]
        by (auto simp: parse_step_def Let_def split: option.split)
    next
      case nc: False
      show ?thesis
      proof (cases "match_option l")
        case None
        with nc have f: "fresh_item l = Oth l" by (auto simp: fresh_item_def)
        show ?thesis
          using assms(1) None nc no closed
          unfolding i f grow[unfolded i f]
          by (auto simp: parse_step_def Let_def)
      next
        case (Some kv)
        obtain k v where kv: "kv = (k, v)" by (cases kv)
        with Some nc have f: "fresh_item l = Opt (strip k) (strip_inline_comment (strip v)) [l]"
          by (auto simp: fresh_item_def)
        show ?thesis
          using assms(1) Some kv nc no closed
          unfolding i f grow[unfolded i f]
          by (auto simp: parse_step_def Let_def j)
      qed
    qed
  qed
qed

lemma parse_from_tree:
  "parse_from 0 ls parse_init = state_of (length (fst (tree_of ls))) (snd (tree_of ls))"
proof (induction ls rule: rev_induct)
  case Nil
  then show ?case by (simp add: tree_of_def)
next
  case (snoc l ls)
  obtain pre nodes where t: "tree_of ls = (pre, nodes)" by (cases "tree_of ls")
  have len: "length ls = length pre + length (flat_nodes nodes)"
    using flat_tree_of[of ls] t by (metis flat_def fst_conv snd_conv length_append)
  let ?p = "length pre"
  have "parse_step (length ls) l (state_of ?p nodes) =
      state_of (length (fst (tstep (pre, nodes) l))) (snd (tstep (pre, nodes) l))"
  proof (cases "match_section l")
    case (Some n)
    then show ?thesis
      by (simp add: parse_step_def close_state section_of_def len first_wins_def Let_def)
  next
    case None
    show ?thesis
    proof (cases nodes)
      case Nil
      then show ?thesis using None by (simp add: parse_step_def parse_init_def)
    next
      case (Cons nd rest)
      obtain n hl its where nd: "nd = (n, hl, its)" by (cases nd)
      show ?thesis
        using None parse_step_body[OF None, of "length ls" "?p + length (flat_nodes rest)" its] len Cons nd
        by (simp add: Let_def)
    qed
  qed
  then show ?case using snoc t by (simp add: parse_from_append tree_of_snoc)
qed

theorem parse_refines:
  "doc_of_lines f ls = (let r = registered (length (fst (tree_of ls))) (snd (tree_of ls)) in
     \<lparr>d_lines = ls, d_sections = fst r, d_dups = snd r, d_frozen = f\<rparr>)"
  by (simp add: doc_of_lines_def parse_from_tree close_state Let_def)

end
