(* ===== verification/CfgEdits.thy ===== *)
theory CfgEdits
  imports CfgTree
begin

section \<open>What an edit does to a document\<close>

text \<open>
  Lookups read the tree, an edit of the lines is an edit of one item of it, and what \<open>render_option\<close>
  writes is read back as the option that was meant, with the comments it carries over.
\<close>

subsection \<open>Lookups read the tree\<close>

fun all_sections :: "nat \<Rightarrow> cfg_node list \<Rightarrow> (string \<times> cfg_section) list" where
  "all_sections p [] = []"
| "all_sections p (nd # rest) =
     all_sections p rest @ [(fst nd, section_of (p + length (flat_nodes rest)) nd (snd (snd nd)))]"

fun values_of :: "cfg_item list \<Rightarrow> (string \<times> string) list" where
  "values_of [] = []"
| "values_of (Oth l # its) = values_of its"
| "values_of (Opt k v ls # its) = values_of its @ [(k, v)]"

fun contents :: "cfg_node list \<Rightarrow> (string \<times> (string \<times> string) list) list" where
  "contents [] = []"
| "contents ((n, h, its) # rest) = contents rest @ [(n, values_of its)]"

definition lookup2 :: "(string \<times> (string \<times> string) list) list \<Rightarrow> string \<Rightarrow> string \<Rightarrow> string option" where
  "lookup2 c s k = (case map_of c s of None \<Rightarrow> None | Some vs \<Rightarrow> map_of vs k)"

lemma dict_has_get: "dict_has d k \<longleftrightarrow> dict_get d k \<noteq> None"
  by (simp add: dict_has_iff map_of_eq_None_iff)

lemma set_default_get: "dict_get (set_default d k v) k' = (case dict_get d k' of None \<Rightarrow> (if k' = k then Some v else None) | x \<Rightarrow> x)"
  by (cases "dict_get d k'"; cases "dict_get d k") (auto simp: set_default_def dict_has_get map_add_def)

lemma first_wins_get: "dict_get (first_wins es) k = map_of es k"
proof (induction es rule: rev_induct)
  case (snoc e es)
  obtain k0 v0 where "e = (k0, v0)" by (cases e)
  with snoc show ?case
    by (auto simp: first_wins_snoc set_default_get map_add_def split: option.split)
qed (simp add: first_wins_def)

lemma registered_get: "dict_get (fst (registered p nodes)) s = map_of (all_sections p nodes) s"
proof (induction nodes)
  case (Cons nd rest)
  have n: "cs_name (section_of h nd its) = fst nd" for h its by (simp add: section_of_def)
  have "dict_has (fst (registered p rest)) x \<longleftrightarrow> map_of (all_sections p rest) x \<noteq> None" if "x = s" for x
    using Cons that by (simp add: dict_has_get)
  then show ?case using Cons
    by (cases "fst nd = s") (auto simp: register_def n map_add_def split: option.split)
qed simp

lemma entries_get: "map_option co_value (map_of (entries b its) k) = map_of (values_of its) k"
proof (induction its rule: values_of.induct)
  case (3 k0 v0 ls0 its)
  then show ?case by (cases "map_of (entries b its) k"; cases "map_of (values_of its) k") (auto simp: map_add_def)
qed auto

lemma all_sections_get:
  "map_of (all_sections p nodes) s = None \<longleftrightarrow> map_of (contents nodes) s = None"
  "map_of (all_sections p nodes) s = Some sec \<Longrightarrow>
     \<exists>vs. map_of (contents nodes) s = Some vs \<and> (\<forall>k. map_option co_value (dict_get (cs_options sec) k) = map_of vs k)"
proof (induction nodes)
  case (Cons nd rest)
  obtain n h its where nd: "nd = (n, h, its)" by (cases nd)
  { case 1 then show ?case using Cons(1) nd by (auto simp: map_add_def split: option.splits if_splits) }
  { case 2
    then show ?case using Cons(1,2) nd
      by (auto simp: map_add_def section_of_def first_wins_get entries_get split: option.splits if_splits) }
qed auto

lemma sections_get: "dict_get (d_sections (doc_of_lines f ls)) s =
    map_of (all_sections (length (fst (tree_of ls))) (snd (tree_of ls))) s"
  by (simp add: parse_refines Let_def registered_get)

lemma cfg_get_tree:
  "cfg_get (doc_of_lines f ls) s k None = lookup2 (contents (snd (tree_of ls))) s k"
proof (cases "map_of (all_sections (length (fst (tree_of ls))) (snd (tree_of ls))) s")
  case None
  then show ?thesis using all_sections_get(1)[of "length (fst (tree_of ls))" "snd (tree_of ls)" s]
    by (simp add: cfg_get_def lookup2_def sections_get)
next
  case (Some sec)
  from all_sections_get(2)[OF this] obtain vs where vs: "map_of (contents (snd (tree_of ls))) s = Some vs"
    "\<forall>k. map_option co_value (dict_get (cs_options sec) k) = map_of vs k" by blast
  from vs(2)[rule_format, of k] show ?thesis using Some vs(1)
    by (auto simp: cfg_get_def lookup2_def sections_get split: option.splits)
qed

lemma contents_append: "contents (xs @ ys) = contents ys @ contents xs"
  by (induction xs) auto

lemma values_append: "values_of (xs @ ys) = values_of ys @ values_of xs"
  by (induction xs rule: values_of.induct) auto

lemma body_append: "body (xs @ ys) = body ys @ body xs"
  by (induction xs) auto

lemma flat_append: "flat_nodes (xs @ ys) = flat_nodes ys @ flat_nodes xs"
  by (induction xs rule: flat_nodes.induct) auto

lemma all_sections_append:
  "all_sections p (xs @ ys) = all_sections p ys @ all_sections (p + length (flat_nodes ys)) xs"
  by (induction xs) (auto simp: flat_append add.assoc)

lemma contents_keys: "fst ` set (contents nodes) = fst ` set nodes"
  by (induction nodes rule: contents.induct) auto

text \<open>A section that is found is a node, the first of its name, at the offset it says.\<close>

lemma section_found:
  assumes "map_of (all_sections p nodes) s = Some sec"
  shows "\<exists>later h its earlier. nodes = later @ (s, h, its) # earlier \<and> s \<notin> fst ` set earlier \<and>
    sec = section_of (p + length (flat_nodes earlier)) (s, h, its) its"
  using assms
proof (induction nodes)
  case (Cons nd rest)
  show ?case
  proof (cases "map_of (all_sections p rest) s")
    case None
    with Cons.prems obtain h its where "nd = (s, h, its)" "sec = section_of (p + length (flat_nodes rest)) nd its"
      by (cases nd) (auto simp: map_add_def split: if_splits)
    moreover have "s \<notin> fst ` set rest"
      using None all_sections_get(1)[of p rest s] contents_keys[of rest] by (simp add: map_of_eq_None_iff)
    ultimately have "nd # rest = [] @ (s, h, its) # rest \<and> s \<notin> fst ` set rest \<and>
        sec = section_of (p + length (flat_nodes rest)) (s, h, its) its" by simp
    then show ?thesis by blast
  next
    case (Some sec')
    with Cons obtain later h its earlier where "rest = later @ (s, h, its) # earlier" "s \<notin> fst ` set earlier"
      "sec = section_of (p + length (flat_nodes earlier)) (s, h, its) its"
      by (auto simp: map_add_def)
    then have "nd # rest = (nd # later) @ (s, h, its) # earlier \<and> s \<notin> fst ` set earlier \<and>
        sec = section_of (p + length (flat_nodes earlier)) (s, h, its) its" by simp
    then show ?thesis by blast
  qed
qed simp

lemma option_found:
  assumes "map_of (entries b its) k = Some opt"
  shows "\<exists>later v ls earlier. its = later @ Opt k v ls # earlier \<and> k \<notin> fst ` set (values_of earlier) \<and>
    co_start opt = b + length (body earlier) \<and> co_end opt = b + length (body earlier) + length ls"
  using assms
proof (induction its rule: values_of.induct)
  case (2 l its)
  then obtain later v ls earlier where "its = later @ Opt k v ls # earlier" "k \<notin> fst ` set (values_of earlier)"
    "co_start opt = b + length (body earlier)" "co_end opt = b + length (body earlier) + length ls" by auto
  then have "Oth l # its = (Oth l # later) @ Opt k v ls # earlier \<and> k \<notin> fst ` set (values_of earlier) \<and>
    co_start opt = b + length (body earlier) \<and> co_end opt = b + length (body earlier) + length ls" by simp
  then show ?case by blast
next
  case (3 k0 v0 ls0 its)
  show ?case
  proof (cases "map_of (entries b its) k")
    case None
    with "3.prems" have "k0 = k" "co_start opt = b + length (body its)" "co_end opt = b + length (body its) + length ls0"
      by (auto simp: map_add_def split: if_splits)
    moreover have "k \<notin> fst ` set (values_of its)"
      using None entries_get[of b its k] by (metis map_of_eq_None_iff option.map_disc_iff)
    ultimately have "Opt k0 v0 ls0 # its = [] @ Opt k v0 ls0 # its \<and> k \<notin> fst ` set (values_of its) \<and>
        co_start opt = b + length (body its) \<and> co_end opt = b + length (body its) + length ls0" by simp
    then show ?thesis by blast
  next
    case (Some o')
    with 3 obtain later v ls earlier where "its = later @ Opt k v ls # earlier" "k \<notin> fst ` set (values_of earlier)"
      "co_start opt = b + length (body earlier)" "co_end opt = b + length (body earlier) + length ls"
      by (auto simp: map_add_def)
    then have "Opt k0 v0 ls0 # its = (Opt k0 v0 ls0 # later) @ Opt k v ls # earlier \<and>
        k \<notin> fst ` set (values_of earlier) \<and>
        co_start opt = b + length (body earlier) \<and> co_end opt = b + length (body earlier) + length ls" by simp
    then show ?thesis by blast
  qed
qed simp

lemma option_missing: "map_of (entries b its) k = None \<Longrightarrow> k \<notin> fst ` set (values_of its)"
  using entries_get[of b its k] by (metis map_of_eq_None_iff option.map_disc_iff)

subsection \<open>Editing one item\<close>

lemma wf_items_suffix: "wf_items (xs @ ys) \<Longrightarrow> wf_items ys"
  by (induction xs) auto

lemma wf_replace:
  "wf_items (xs @ it # ys) \<Longrightarrow> is_opt it \<Longrightarrow> wf_items (it' # ys) \<Longrightarrow> wf_items (xs @ it' # ys)"
proof (induction xs)
  case (Cons x xs)
  then show ?case by (cases xs) auto
qed simp

lemma wf_delete: "wf_items (xs @ it # ys) \<Longrightarrow> is_opt it \<Longrightarrow> wf_items (xs @ ys)"
proof (induction xs)
  case (Cons x xs)
  then show ?case by (cases xs) auto
qed simp

lemma wf_insert:
  "wf_items (xs @ ys) \<Longrightarrow> \<forall>x \<in> set xs. \<exists>l. x = Oth l \<and> is_blank l \<Longrightarrow> wf_items (it # ys) \<Longrightarrow> wf_items (xs @ it # ys)"
  by (induction xs) (auto simp: is_continuation_def)

lemma wf_opt_first:
  assumes "wf_item (Opt k v ls)"
  shows "ls \<noteq> [] \<and> \<not> is_continuation (hd ls)"
  using assms continuation_fresh by fastforce

lemma tree_replace:
  assumes t: "tree_of ls = (pre, later @ (s, h, its) # earlier)" and w: "wf_items its'"
  shows "tree_of (pre @ flat_nodes earlier @ h # body its' @ flat_nodes later) = (pre, later @ (s, h, its') # earlier)"
proof -
  have "wf_tree (pre, later @ (s, h, its') # earlier)"
    using wf_tree_of[of ls] t w by (auto simp: wf_tree_def wf_node_def)
  from reparse[OF this] show ?thesis by (simp add: flat_def flat_append)
qed

lemma tree_flat:
  assumes "tree_of ls = (pre, later @ (s, h, its) # earlier)"
  shows "ls = pre @ flat_nodes earlier @ h # body its @ flat_nodes later"
  using flat_tree_of[of ls] assms by (simp add: flat_def flat_append)

lemma wf_tree_items:
  assumes "tree_of ls = (pre, later @ (s, h, its) # earlier)"
  shows "wf_items its"
  using wf_tree_of[of ls] assms by (auto simp: wf_tree_def wf_node_def)

subsection \<open>What is rendered is read back\<close>

definition no_nl :: "string \<Rightarrow> bool" where
  "no_nl s = (nl \<notin> set s)"

definition comment_text :: "string \<Rightarrow> bool" where
  "comment_text c = (c \<noteq> [] \<and> comment_char (hd c) \<and> stripped c \<and> no_nl c)"

definition plain :: "string \<Rightarrow> bool" where
  "plain v = (v \<noteq> [] \<and> stripped v \<and> no_nl v \<and> before_comment True v = v)"

definition good_key :: "string \<Rightarrow> bool" where
  "good_key k = (k \<noteq> [] \<and> stripped k \<and> no_nl k \<and> \<not> comment_char (hd k) \<and> hd k \<noteq> CHR ''['' \<and>
     (\<forall>c \<in> set k. \<not> is_sep c))"

lemma dots_end_nonl [simp]: "nl \<notin> set s \<Longrightarrow> dots_end s"
  by (auto simp: dots_end_def dest: in_set_butlastD)

lemma before_comment_split: "\<exists>rest. s = before_comment sp s @ rest \<and> (rest = [] \<or> comment_char (hd rest))"
proof (induction sp s rule: before_comment.induct)
  case (2 sp c s)
  show ?case
  proof (cases "sp \<and> comment_char c \<and> dots_end s")
    case True
    then show ?thesis by (intro exI[of _ "c # s"]) auto
  next
    case False
    with 2 obtain rest where "s = before_comment (is_space c) s @ rest" "rest = [] \<or> comment_char (hd rest)" by blast
    then show ?thesis using False by (intro exI[of _ rest]) (auto simp: False)
  qed
qed simp

lemma before_comment_append:
  "no_nl (x @ y) \<Longrightarrow> before_comment sp x = x \<Longrightarrow>
   before_comment sp (x @ y) = x @ before_comment (if x = [] then sp else is_space (last x)) y"
  by (induction x arbitrary: sp) (auto simp: no_nl_def split: if_splits)

lemma before_comment_mark: "comment_text c \<Longrightarrow> before_comment True c = []"
  by (cases c) (auto simp: comment_text_def no_nl_def)

lemma comment_char_not_space: "comment_char c \<Longrightarrow> \<not> is_space c"
  by (auto simp: comment_char_def is_space_def)

lemma set_strip: "set (strip s) \<subseteq> set s"
  by (auto simp: strip_def rstrip_def lstrip_def dest!: set_dropWhileD)

lemma no_nl_strip [simp, intro]: "no_nl s \<Longrightarrow> no_nl (strip s)"
  using set_strip[of s] by (auto simp: no_nl_def)

lemma rest_comment:
  assumes "no_nl text"
  shows "let c = strip (drop (length (strip_inline_comment text)) text) in c = [] \<or> comment_text c"
proof -
  obtain rest where r: "text = before_comment True text @ rest" "rest = [] \<or> comment_char (hd rest)"
    using before_comment_split by blast
  obtain w where w: "before_comment True text = strip_inline_comment text @ w" "\<forall>c \<in> set w. is_space c"
    using rstrip_prefix[of "before_comment True text"] by (auto simp: strip_inline_comment_def)
  have "drop (length (strip_inline_comment text)) text = w @ rest"
    using r(1) w(1) by (metis append.assoc append_eq_conv_conj)
  then have e: "strip (drop (length (strip_inline_comment text)) text) = strip rest"
    using w(2) by (simp add: strip_append_space)
  show ?thesis
  proof (cases "rest = []")
    case False
    with r(2) have c: "comment_char (hd rest)" by simp
    then have "lstrip rest = rest" using comment_char_not_space by (intro lstrip_id) auto
    moreover have "no_nl (strip rest)"
      using assms r(1) by (metis no_nl_def no_nl_strip UnCI set_append)
    ultimately have "strip rest = rstrip rest" "no_nl (strip rest)" by (auto simp: strip_def)
    moreover have "rstrip rest \<noteq> []"
      using False c comment_char_not_space by (metis rstrip_eq_Nil hd_in_set)
    ultimately have "comment_text (strip rest)"
      using hd_rstrip[of rest] c stripped_strip[of rest] by (auto simp: comment_text_def)
    then show ?thesis by (simp add: e Let_def)
  qed (simp add: e)
qed

definition suffix_of :: "string \<Rightarrow> string" where
  "suffix_of c = (if c = [] then [] else ''  '' @ c)"

lemma strip_spaced:
  assumes "stripped (x @ y)" "x @ y \<noteq> []" "\<forall>c \<in> set w. is_space c"
  shows "strip (w @ x @ y) = x @ y"
  using assms by (simp add: strip_append_space strip_id)

lemma plain_suffix:
  assumes "plain v" "c = [] \<or> comment_text c"
  shows "stripped (v @ suffix_of c)" "strip_inline_comment (v @ suffix_of c) = v" "no_nl (v @ suffix_of c)"
    "v @ suffix_of c \<noteq> []"
proof -
  from assms(1) have v: "v \<noteq> []" "stripped v" "no_nl v" "before_comment True v = v" by (auto simp: plain_def)
  have sp: "is_space CHR '' ''" by (simp add: is_space_def)
  show st: "stripped (v @ suffix_of c)"
    using v assms(2) by (auto simp: suffix_of_def stripped_def comment_text_def)
  show nn: "no_nl (v @ suffix_of c)"
    using v assms(2) by (auto simp: suffix_of_def no_nl_def comment_text_def)
  show "v @ suffix_of c \<noteq> []" using v by simp
  have rs: "rstrip v = v" using v by (intro rstrip_id) (auto simp: stripped_def)
  show "strip_inline_comment (v @ suffix_of c) = v"
  proof (cases "c = []")
    case True
    then show ?thesis using v rs by (simp add: suffix_of_def strip_inline_comment_def)
  next
    case False
    with assms(2) have c: "before_comment True c = []" by (auto intro: before_comment_mark)
    have "before_comment True (v @ suffix_of c) = v @ ''  ''"
      using before_comment_append[OF nn v(4)] v(1) sp c False
      by (simp add: suffix_of_def comment_char_def)
    moreover have "rstrip (v @ ''  '') = v"
      using rs sp by (simp add: rstrip_def)
    ultimately show ?thesis by (simp add: strip_inline_comment_def)
  qed
qed

lemma plain_not_comment: "plain v \<Longrightarrow> \<not> comment_char (hd v)"
  by (cases v) (auto simp: plain_def no_nl_def)

lemma indent_strip:
  assumes "stripped s" "s \<noteq> []"
  shows "strip (INDENT @ s) = s" "is_continuation (INDENT @ s)" "is_comment (INDENT @ s) = comment_char (hd s)"
proof -
  have sp: "\<forall>c \<in> set INDENT. is_space c" by (simp add: INDENT_def is_space_def)
  show e: "strip (INDENT @ s) = s" using assms sp by (simp add: strip_append_space strip_id)
  then show "is_continuation (INDENT @ s)" using assms by (simp add: is_continuation_def INDENT_def is_blank_def)
  have "lstrip (INDENT @ s) = lstrip s" using sp by (simp add: lstrip_def)
  then show "is_comment (INDENT @ s) = comment_char (hd s)"
    using assms lstrip_id[of s] by (cases s) (auto simp: is_comment_def stripped_def)
qed

definition decor_ok :: "decoration \<Rightarrow> bool" where
  "decor_ok dc = ((\<forall>(i, c) \<in> set (fst dc). comment_text c) \<and>
     (\<forall>(i, cs) \<in> set (fst (snd dc)). \<forall>c \<in> set cs. comment_text c) \<and> (\<forall>c \<in> set (snd (snd dc)). comment_text c))"

lemma all_dict_set: "\<forall>x \<in> set d. P x \<Longrightarrow> P (k, v) \<Longrightarrow> \<forall>x \<in> set (dict_set d k v). P x"
  by (induction d k v rule: dict_set.induct) auto

lemma decor_ok_upd:
  assumes "decor_ok (inline, labels, [])" "c \<noteq> [] \<longrightarrow> comment_text c" "\<forall>c \<in> set cs. comment_text c"
  shows "decor_ok (if c \<noteq> [] then dict_set inline i c else inline, if cs \<noteq> [] then dict_set labels i cs else labels, [])"
proof -
  let ?P = "\<lambda>(j, d). comment_text d" and ?Q = "\<lambda>(j, ds). \<forall>d \<in> set ds. comment_text d"
  from assms(1) have i: "\<forall>x \<in> set inline. ?P x" and l: "\<forall>x \<in> set labels. ?Q x" by (simp_all add: decor_ok_def)
  have "\<forall>x \<in> set (if c \<noteq> [] then dict_set inline i c else inline). ?P x"
  proof (cases "c = []")
    case False
    then show ?thesis using all_dict_set[OF i, of i c] assms(2) by simp
  qed (use i in simp)
  moreover have "\<forall>x \<in> set (if cs \<noteq> [] then dict_set labels i cs else labels). ?Q x"
  proof (cases "cs = []")
    case False
    then show ?thesis using all_dict_set[OF l, of i cs] assms(3) by simp
  qed (use l in simp)
  ultimately show ?thesis by (simp add: decor_ok_def)
qed

lemma decorate_ok: "decor_ok dc \<Longrightarrow> \<forall>l \<in> set ls. no_nl l \<Longrightarrow> decor_ok (decorate ls dc)"
proof (induction ls dc rule: decorate.induct)
  case (2 raw rest inline labels pending)
  let ?text = "strip raw"
  have nn: "no_nl ?text" using "2.prems"(2) by simp
  have r: "\<forall>l \<in> set rest. no_nl l" using "2.prems"(2) by simp
  show ?case
  proof (cases "?text = []")
    case True
    from "2.IH"(1)[OF refl True "2.prems"(1) r] show ?thesis
      by (simp add: True)
  next
    case nt: False
    show ?thesis
    proof (cases "is_comment raw")
      case True
      have "lstrip raw \<noteq> []" "comment_char (hd (lstrip raw))"
        using True by (auto simp: is_comment_def split: list.splits)
      moreover have "hd (strip raw) = hd (lstrip raw)" unfolding strip_def using nt
        by (intro hd_rstrip) (simp add: strip_def)
      ultimately have "comment_text ?text" using nt nn by (simp add: comment_text_def)
      then have "decor_ok (inline, labels, pending @ [?text])" using "2.prems"(1) by (auto simp: decor_ok_def)
      from "2.IH"(2)[OF refl nt True this r] show ?thesis
        by (simp only: decorate.simps Let_def nt True if_False if_True list.set ball_simps simp_thms)
    next
      case nc: False
      let ?c = "strip (drop (length (strip_inline_comment ?text)) ?text)"
      have c: "?c \<noteq> [] \<longrightarrow> comment_text ?c" using rest_comment[OF nn] by (auto simp: Let_def)
      show ?thesis
      proof (cases "strip_inline_comment ?text = []")
        case True
        from "2.IH"(3)[OF refl nt nc refl True "2.prems"(1) r] show ?thesis
          by (simp only: decorate.simps Let_def True nt nc if_False if_True list.set ball_simps simp_thms)
      next
        case False
        have "decor_ok (if ?c \<noteq> [] then dict_set inline (strip_inline_comment ?text) ?c else inline,
            if pending \<noteq> [] then dict_set labels (strip_inline_comment ?text) pending else labels, [])"
        proof (rule decor_ok_upd)
          show "decor_ok (inline, labels, [])" using "2.prems"(1) by (simp add: decor_ok_def)
          show "?c \<noteq> [] \<longrightarrow> comment_text ?c" by (rule c)
          show "\<forall>d \<in> set pending. comment_text d" using "2.prems"(1) by (simp add: decor_ok_def)
        qed
        then show ?thesis using "2.IH"(4)[OF refl nt nc refl False refl refl refl _ r]
          by (simp only: decorate.simps Let_def False nt nc if_False list.set ball_simps simp_thms)
      qed
    qed
  qed
qed simp

lemma decoration_ok:
  assumes "\<forall>ls. existing = Some ls \<longrightarrow> (\<forall>l \<in> set ls. no_nl l)"
  shows "decor_ok (decoration_of existing)"
proof (cases existing)
  case (Some ls)
  then have "\<forall>l \<in> set (tl ls). no_nl l" using assms by (cases ls) auto
  then show ?thesis using Some using decorate_ok[of "([], [], [])" "tl ls"] by (simp add: decoration_of_def decor_ok_def)
qed (simp add: decoration_of_def decor_ok_def)

fun value_text :: "cfg_value \<Rightarrow> string" where
  "value_text (VList vs) = concat (map (\<lambda>v. nl # v) vs)"
| "value_text (VStr t) = t"

fun good_value :: "cfg_value \<Rightarrow> bool" where
  "good_value (VList vs) = list_all plain vs"
| "good_value (VStr t) = (t = [] \<or> plain t)"

lemma key_line:
  assumes "good_key k" "no_nl rest"
  shows "match_section (k @ CHR '':'' # rest) = None"
    "fresh_item (k @ CHR '':'' # rest) = Opt k (strip_inline_comment (strip rest)) [k @ CHR '':'' # rest]"
proof -
  from assms(1) obtain c cs where k: "k = c # cs" by (cases k) (auto simp: good_key_def)
  from assms(1) have g: "stripped k" "\<not> comment_char c" "c \<noteq> CHR ''['' " "\<forall>x \<in> set k. \<not> is_sep x"
    using k by (auto simp: good_key_def)
  from g(1) k have sp: "\<not> is_space c" by (simp add: stripped_def)
  let ?line = "k @ CHR '':'' # rest"
  show "match_section ?line = None" using k g(3) by (simp add: match_section_def Let_def)
  have l: "lstrip ?line = ?line" using k sp by (intro lstrip_id) auto
  have nc: "\<not> is_comment ?line" unfolding is_comment_def l using k g(2) by simp
  have nb: "\<not> is_blank ?line" unfolding is_blank_def strip_eq_Nil using k sp by auto
  have tw: "takeWhile (\<lambda>x. \<not> is_sep x) ?line = k"
    using g(4) by (simp add: takeWhile_append2 is_sep_def[of "CHR '':''"])
  have rs: "rstrip k = k" "strip k = k" using g(1) by (auto intro: rstrip_id strip_id simp: stripped_def)
  have "match_option ?line = Some (k, rest)"
    unfolding match_option_def Let_def tw
    using k sp g(2) assms(2) rs by (simp add: no_nl_def)
  then show "fresh_item ?line = Opt k (strip_inline_comment (strip rest)) [?line]"
    using nc nb rs by (simp add: fresh_item_def)
qed

lemma comment_line:
  assumes "comment_text c"
  shows "is_continuation (INDENT @ c)" "add_line v (INDENT @ c) = v"
  using assms indent_strip[of c] by (auto simp: comment_text_def add_line_def)

lemma item_line:
  assumes "plain v" "c = [] \<or> comment_text c"
  shows "is_continuation (INDENT @ v @ suffix_of c)" "add_line u (INDENT @ v @ suffix_of c) = u @ nl # v"
proof -
  note p = plain_suffix[OF assms]
  note i = indent_strip[OF p(1,4)]
  have "hd (v @ suffix_of c) = hd v" using assms(1) by (simp add: plain_def)
  then have "\<not> is_comment (INDENT @ v @ suffix_of c)" using i(3) plain_not_comment[OF assms(1)] by simp
  then show "add_line u (INDENT @ v @ suffix_of c) = u @ nl # v"
    using i(1) p(2) assms(1) by (simp add: add_line_def plain_def)
  show "is_continuation (INDENT @ v @ suffix_of c)" by (rule i(2))
qed

lemma fold_comments:
  "\<forall>c \<in> set cs. comment_text c \<Longrightarrow> foldl add_line v (map (\<lambda>c. INDENT @ c) cs) = v"
  by (induction cs arbitrary: v) (auto simp: comment_line)

lemma block_item_shape:
  assumes "decor_ok dc"
  shows "\<exists>cs c. block_item dc v = map (\<lambda>c. INDENT @ c) cs @ [INDENT @ v @ suffix_of c] \<and>
    (\<forall>c \<in> set cs. comment_text c) \<and> (c = [] \<or> comment_text c)"
proof -
  obtain inline labels trailing where dc: "dc = (inline, labels, trailing)" by (cases dc) auto
  define cs where "cs = (case dict_get labels v of None \<Rightarrow> [] | Some cs \<Rightarrow> cs)"
  define c where "c = (case dict_get inline v of None \<Rightarrow> [] | Some c \<Rightarrow> c)"
  from assms have ok: "\<forall>x \<in> set inline. comment_text (snd x)"
      "\<forall>x \<in> set labels. \<forall>c \<in> set (snd x). comment_text c"
    by (simp_all add: decor_ok_def dc case_prod_unfold)
  have "\<forall>c \<in> set cs. comment_text c"
  proof (cases "dict_get labels v")
    case (Some ds)
    with bspec[OF ok(2) map_of_in_set[OF Some]] show ?thesis by (simp add: cs_def)
  qed (simp add: cs_def)
  moreover have "c = [] \<or> comment_text c"
  proof (cases "dict_get inline v")
    case (Some d)
    with bspec[OF ok(1) map_of_in_set[OF Some]] show ?thesis by (simp add: c_def)
  qed (simp add: c_def)
  moreover have "block_item dc v = map (\<lambda>c. INDENT @ c) cs @ [INDENT @ v @ suffix_of c]"
    by (auto simp: block_item_def dc cs_def c_def suffix_of_def split: option.split)
  ultimately show ?thesis by blast
qed

lemma block_item_parse:
  assumes "decor_ok dc" "plain v"
  shows "list_all is_continuation (block_item dc v)" "foldl add_line u (block_item dc v) = u @ nl # v"
proof -
  obtain cs c where b: "block_item dc v = map (\<lambda>c. INDENT @ c) cs @ [INDENT @ v @ suffix_of c]"
    "\<forall>c \<in> set cs. comment_text c" "c = [] \<or> comment_text c"
    using block_item_shape[OF assms(1)] by blast
  show "list_all is_continuation (block_item dc v)"
    using b item_line[OF assms(2) b(3)] by (auto simp: list_all_iff comment_line)
  show "foldl add_line u (block_item dc v) = u @ nl # v"
    using b item_line[OF assms(2) b(3)] by (simp add: fold_comments)
qed

lemma block_items_parse:
  assumes "decor_ok dc" "list_all plain vs"
  shows "list_all is_continuation (concat (map (block_item dc) vs)) \<and>
    foldl add_line u (concat (map (block_item dc) vs)) = u @ concat (map (\<lambda>v. nl # v) vs)"
  using assms(2) by (induction vs arbitrary: u) (auto simp: block_item_parse[OF assms(1)])

lemma block_wf:
  assumes "good_key k" "decor_ok dc" "list_all plain vs"
  shows "wf_item (Opt k (concat (map (\<lambda>v. nl # v) vs)) (block k dc vs))"
proof -
  let ?l0 = "k @ '':''"
  have k0: "match_section ?l0 = None" "fresh_item ?l0 = Opt k [] [?l0]"
    using key_line[OF assms(1), of "[]"] by (simp_all add: no_nl_def strip_inline_comment_def)
  define rest where "rest = (if vs = [] then [] else concat (map (block_item dc) vs) @ map (\<lambda>c. INDENT @ c) (snd (snd dc)))"
  have tr: "\<forall>c \<in> set (snd (snd dc)). comment_text c" using assms(2) by (simp add: decor_ok_def)
  have "block k dc vs = ?l0 # rest" by (simp add: block_def rest_def)
  moreover have "list_all is_continuation rest"
    using block_items_parse[OF assms(2,3)] tr by (auto simp: rest_def list_all_iff comment_line)
  moreover have "foldl add_line [] rest = concat (map (\<lambda>v. nl # v) vs)"
    using block_items_parse[OF assms(2,3)] tr by (simp add: rest_def fold_comments)
  ultimately show ?thesis using k0 by auto
qed

lemma filter_plain: "list_all plain vs \<Longrightarrow> filter (\<lambda>v. strip v \<noteq> []) vs = vs"
  by (auto simp: list_all_iff plain_def strip_id intro!: filter_True)

lemma after_first_no_nl: "no_nl s \<Longrightarrow> no_nl (after_first c s)"
  by (auto simp: after_first_def no_nl_def split: list.split dest!: set_dropWhileD[rotated])
    (metis list.set_intros(2) set_dropWhileD)+

lemma kept_comment_ok:
  assumes "\<forall>ls. existing = Some ls \<longrightarrow> (\<forall>l \<in> set ls. no_nl l)"
  shows "kept_comment existing = [] \<or> comment_text (kept_comment existing)"
proof (cases "\<exists>l. existing = Some [l]")
  case True
  then obtain l where l: "existing = Some [l]" by blast
  with assms have "no_nl (after_first CHR ''='' (after_first CHR '':'' l))" by (simp add: after_first_no_nl)
  from rest_comment[OF this] show ?thesis by (simp add: kept_comment_def l Let_def)
qed (auto simp: kept_comment_def split: option.split list.split)

lemma render_wf:
  assumes k: "good_key k" and v: "good_value val"
    and ex: "\<forall>ls. existing = Some ls \<longrightarrow> (\<forall>l \<in> set ls. no_nl l)"
  shows "wf_item (Opt k (value_text val) (render_option k val existing))"
proof (cases val)
  case (VList vs)
  then show ?thesis
    using block_wf[OF k decoration_ok[OF ex]] v by (simp add: render_option_def filter_plain)
next
  case (VStr t)
  let ?c = "kept_comment existing"
  note c = kept_comment_ok[OF ex]
  from v VStr have t: "t = [] \<or> plain t" by simp
  then have nt: "nl \<notin> set t" by (auto simp: plain_def no_nl_def)
  have r: "render_option k val existing = [k @ CHR '':'' # '' '' @ t @ suffix_of ?c]"
    using VStr nt by (simp add: render_option_def suffix_of_def Let_def)
  have sp: "\<forall>x \<in> set '' ''. is_space x" "\<forall>x \<in> set ''   ''. is_space x" by (simp_all add: is_space_def)
  have nn: "no_nl ('' '' @ t @ suffix_of ?c)"
    using nt c by (auto simp: no_nl_def suffix_of_def comment_text_def)
  have "strip_inline_comment (strip ('' '' @ t @ suffix_of ?c)) = t"
  proof (cases "t = []")
    case False
    with t have p: "plain t" by simp
    show ?thesis using strip_spaced[OF plain_suffix(1,4)[OF p c] sp(1)] plain_suffix(2)[OF p c] by simp
  next
    case te: True
    show ?thesis
    proof (cases "?c = []")
      case True
      have "strip '' '' = []" using sp(1) by (simp add: strip_eq_Nil)
      then show ?thesis using te True by (simp add: suffix_of_def strip_inline_comment_def)
    next
      case False
      with c have ct: "comment_text ?c" by simp
      then have "strip (''   '' @ ?c) = ?c"
        using sp(2) by (subst strip_append_space) (auto simp: comment_text_def strip_id)
      then show ?thesis using te False before_comment_mark[OF ct]
        by (simp add: suffix_of_def strip_inline_comment_def)
    qed
  qed
  then show ?thesis using key_line[OF k nn] r VStr by auto
qed

text \<open>No rendered line has a character that its key, its value or the old lines did not have.\<close>

definition all_chars :: "(char \<Rightarrow> bool) \<Rightarrow> string list \<Rightarrow> bool" where
  "all_chars P ls = (\<forall>l \<in> set ls. \<forall>c \<in> set l. P c)"

fun value_lines :: "cfg_value \<Rightarrow> string list" where
  "value_lines (VList vs) = vs"
| "value_lines (VStr t) = [t]"

definition decor_chars :: "(char \<Rightarrow> bool) \<Rightarrow> decoration \<Rightarrow> bool" where
  "decor_chars P dc = (all_chars P (map snd (fst dc)) \<and> (\<forall>cs \<in> snd ` set (fst (snd dc)). all_chars P cs) \<and> all_chars P (snd (snd dc)))"

lemma all_chars_simps [simp]:
  "all_chars P []" "all_chars P (l # ls) \<longleftrightarrow> (\<forall>c \<in> set l. P c) \<and> all_chars P ls"
  "all_chars P (ls @ ls') \<longleftrightarrow> all_chars P ls \<and> all_chars P ls'"
  by (auto simp: all_chars_def)

lemma all_chars_nonl: "all_chars P ls \<Longrightarrow> \<not> P nl \<Longrightarrow> \<forall>l \<in> set ls. no_nl l"
  by (auto simp: all_chars_def no_nl_def)

lemma snd_dict_set: "snd ` set (dict_set d k v) \<subseteq> insert v (snd ` set d)"
  by (induction d k v rule: dict_set.induct) auto

lemma decorate_chars: "decor_chars P dc \<Longrightarrow> all_chars P ls \<Longrightarrow> decor_chars P (decorate ls dc)"
proof (induction ls dc rule: decorate.induct)
  case (2 raw rest inline labels pending)
  let ?text = "strip raw"
  have t: "\<forall>c \<in> set ?text. P c" using "2.prems"(2) set_strip[of raw] by auto
  have r: "all_chars P rest" using "2.prems"(2) by simp
  let ?c = "strip (drop (length (strip_inline_comment ?text)) ?text)"
  have c: "\<forall>x \<in> set ?c. P x" using t set_strip[of "drop (length (strip_inline_comment ?text)) ?text"]
    by (auto dest: in_set_dropD)
  have p: "decor_chars P (inline, labels, pending @ [?text])" using "2.prems"(1) t by (simp add: decor_chars_def)
  have q: "decor_chars P (if ?c \<noteq> [] then dict_set inline i ?c else inline, if pending \<noteq> [] then dict_set labels i pending else labels, [])" for i
    using "2.prems"(1) c snd_dict_set[of inline i ?c] snd_dict_set[of labels i pending]
    by (auto simp: decor_chars_def all_chars_def)
  show ?case
    using "2.IH"(1)[OF refl _ "2.prems"(1) r] "2.IH"(2)[OF refl _ _ p r] "2.IH"(3)[OF refl _ _ refl _ "2.prems"(1) r]
      "2.IH"(4)[OF refl _ _ refl _ refl refl refl q r]
    by (simp add: Let_def)
qed simp

lemma render_chars:
  assumes k: "\<forall>c \<in> set key. P c" and v: "all_chars P (value_lines val)" and sp: "P CHR '':''" "P CHR '' ''"
    and g: "good_value val" and ex: "\<forall>ls. existing = Some ls \<longrightarrow> all_chars P ls"
  shows "all_chars P (render_option key val existing)"
proof -
  have ind: "\<forall>c \<in> set INDENT. P c" using sp by (simp add: INDENT_def)
  have dc: "decor_chars P (decoration_of existing)"
  proof (cases existing)
    case (Some ls)
    with ex have "all_chars P (tl ls)" by (cases ls) auto
    with Some decorate_chars[of P "([], [], [])" "tl ls"] show ?thesis by (simp add: decoration_of_def decor_chars_def)
  qed (simp add: decoration_of_def decor_chars_def)
  have item: "all_chars P (block_item (decoration_of existing) i)" if i: "\<forall>c \<in> set i. P c" for i
  proof -
    obtain inline labels trailing where d: "decoration_of existing = (inline, labels, trailing)" by (cases "decoration_of existing") auto
    have "\<forall>x \<in> set c. P x" if "dict_get inline i = Some c" for c
      using dc that d by (force simp: decor_chars_def all_chars_def dest!: map_of_SomeD)
    moreover have "all_chars P cs" if "dict_get labels i = Some cs" for cs
      using dc that d by (force simp: decor_chars_def dest!: map_of_SomeD)
    ultimately show ?thesis using i ind sp
      by (cases "dict_get labels i"; cases "dict_get inline i") (auto simp: block_item_def d all_chars_def)
  qed
  have blk: "all_chars P (block key (decoration_of existing) vs)" if "all_chars P vs" for vs
    using that item dc ind sp k by (auto simp: block_def all_chars_def decor_chars_def)
  have com: "\<forall>c \<in> set (kept_comment existing). P c"
  proof (cases "\<exists>l. existing = Some [l]")
    case True
    then obtain l where l: "existing = Some [l]" by blast
    with ex have P: "\<forall>c \<in> set l. P c" by simp
    have af: "set (after_first c x) \<subseteq> set x" for c x
      by (auto simp: after_first_def split: list.splits dest!: arg_cong[of _ _ set] set_dropWhileD)
    let ?b = "after_first CHR ''='' (after_first CHR '':'' l)"
    have "set (strip (drop n ?b)) \<subseteq> set l" for n
      using set_strip[of "drop n ?b"] set_drop_subset[of n ?b] af[of "CHR ''=''" "after_first CHR '':'' l"] af[of "CHR '':''" l] by blast
    with P l show ?thesis by (auto simp: kept_comment_def Let_def)
  qed (auto simp: kept_comment_def split: option.split list.split)
  show ?thesis
  proof (cases val)
    case (VList vs)
    with blk[of vs] v g show ?thesis by (simp add: render_option_def filter_plain)
  next
    case (VStr t)
    with g have "nl \<notin> set t" by (auto simp: plain_def no_nl_def)
    with VStr v k com sp show ?thesis by (auto simp: render_option_def Let_def)
  qed
qed

subsection \<open>Setting an option\<close>

definition good_name :: "string \<Rightarrow> bool" where
  "good_name s = (s \<noteq> [] \<and> stripped s \<and> no_nl s \<and> CHR '']'' \<notin> set s)"

lemma match_header:
  assumes "good_name s"
  shows "match_section (''['' @ s @ '']'') = Some s" "strip s = s"
proof -
  have tw: "takeWhile (\<lambda>x. x \<noteq> CHR '']'') (s @ '']'') = s"
    using assms by (subst takeWhile_append2) (auto simp: good_name_def)
  show "match_section (''['' @ s @ '']'') = Some s"
    using assms tw by (simp add: match_section_def Let_def good_name_def)
  show "strip s = s" using assms by (simp add: good_name_def strip_id)
qed

definition blank_item :: "cfg_item \<Rightarrow> bool" where
  "blank_item it = (case it of Oth l \<Rightarrow> is_blank l | _ \<Rightarrow> False)"

lemma last_line_blank:
  assumes "wf_item it" "\<not> blank_item it"
  shows "item_lines it \<noteq> [] \<and> \<not> is_blank (last (item_lines it))"
proof (cases it)
  case (Opt k v ls)
  with assms obtain l0 rest v0 where w: "ls = l0 # rest" "fresh_item l0 = Opt k v0 [l0]" "list_all is_continuation rest"
    by auto
  have "\<not> is_blank l0" using w(2) by (auto simp: fresh_item_def)
  moreover have "\<not> is_blank (last rest)" if "rest \<noteq> []"
    using w(3) that last_in_set[OF that] by (auto simp: list_all_iff is_continuation_def)
  ultimately show ?thesis using Opt w(1) by simp
qed (use assms in \<open>simp add: blank_item_def\<close>)

lemma insert_point_eq:
  assumes "wf_items its" "ls = P @ h # body its @ R" "length P = H"
  shows "insert_point H ls (H + 1 + length (body its)) = H + 1 + length (body (dropWhile blank_item its))"
  using assms
proof (induction its arbitrary: R)
  case Nil
  then show ?case by simp
next
  case (Cons it its)
  show ?case
  proof (cases "blank_item it")
    case True
    then obtain l where it: "it = Oth l" "is_blank l" by (cases it) (auto simp: blank_item_def)
    have "ls ! (H + 1 + length (body its)) = l"
      using Cons.prems it by (simp add: nth_append)
    then show ?thesis using Cons.IH[of "l # R"] Cons.prems it True by simp
  next
    case False
    from Cons.prems(1) False have l: "item_lines it \<noteq> [] \<and> \<not> is_blank (last (item_lines it))"
      by (intro last_line_blank) auto
    let ?n = "H + length (body its) + length (item_lines it)"
    let ?Q = "P @ h # body its @ butlast (item_lines it)"
    have "ls = ?Q @ last (item_lines it) # R" using Cons.prems(2) l by simp
    moreover have "length ?Q = ?n" using Cons.prems(3) l by (cases "item_lines it") auto
    ultimately have "ls ! ?n = last (item_lines it)" by (metis nth_append_length)
    moreover have "H + 1 + length (body (it # its)) = Suc ?n" by simp
    ultimately show ?thesis using l False by (simp add: add.assoc)
  qed
qed

lemma map_of_replace:
  "k \<notin> fst ` set e \<Longrightarrow> map_of (e @ (k, v') # l) = (map_of (e @ (k, v) # l))(k \<mapsto> v')"
  by (auto simp: fun_eq_iff map_add_def map_of_eq_None_iff[symmetric] split: option.splits)

lemma map_of_extra:
  "k \<notin> fst ` set e \<Longrightarrow> map_of (e @ [(k, v')]) = (map_of e)(k \<mapsto> v')"
  by (auto simp: fun_eq_iff map_add_def map_of_eq_None_iff[symmetric] split: option.splits)

lemma blank_values: "\<forall>x \<in> set bl. blank_item x \<Longrightarrow> values_of bl = []"
proof (induction bl)
  case (Cons x bl)
  then show ?case by (cases x) (auto simp: blank_item_def)
qed simp

definition option_lines :: "string \<Rightarrow> string list \<Rightarrow> bool" where
  "option_lines k ls = (\<exists>l0 rest v0. ls = l0 # rest \<and> fresh_item l0 = Opt k v0 [l0] \<and> list_all is_continuation rest)"

text \<open>A section that gives no option twice.\<close>

definition once :: "cfg_item list \<Rightarrow> bool" where
  "once its = distinct (map fst (values_of its))"

definition clean :: "string list \<Rightarrow> bool" where
  "clean ls = (\<forall>nd \<in> set (snd (tree_of ls)). once (snd (snd nd)))"

text \<open>A property of characters that an edit keeps.\<close>

definition keeps :: "(char \<Rightarrow> bool) \<Rightarrow> string \<Rightarrow> string \<Rightarrow> cfg_value \<Rightarrow> string list \<Rightarrow> bool" where
  "keeps P s k val ls = (P CHR '':'' \<and> P CHR '' '' \<and> P CHR ''['' \<and> P CHR '']'' \<and> all_chars P [s, k] \<and>
     all_chars P (value_lines val) \<and> all_chars P ls)"

lemma set_in_tree:
  assumes t: "tree_of ls = (pre, later @ (s, h, its) # earlier)"
    and sec: "sec = section_of (length pre + length (flat_nodes earlier)) (s, h, its) its"
    and k: "good_key k" and v: "good_value val" and nn: "\<forall>l \<in> set ls. no_nl l"
  shows "\<exists>its' A old new C. wf_items its' \<and> ls = A @ old @ C \<and>
     A @ new @ C = (pre @ flat_nodes earlier) @ h # body its' @ flat_nodes later \<and>
     set_in sec k val (doc_of_lines False ls) = Inr (doc_of_lines False (A @ new @ C)) \<and>
     map_of (values_of its') = (map_of (values_of its))(k \<mapsto> value_text val) \<and>
     (if k \<in> fst ` set (values_of its) then option_lines k old else old = []) \<and> option_lines k new \<and>
     (once its \<longrightarrow> once its') \<and> (\<forall>P. keeps P s k val ls \<longrightarrow> all_chars P new)"
proof -
  let ?P = "pre @ flat_nodes earlier" and ?b = "length pre + length (flat_nodes earlier) + 1"
  note fl = tree_flat[OF t] and wf = wf_tree_items[OF t]
  have so: "cs_options sec = first_wins (entries ?b its)" "cs_header sec = length ?P" "cs_end sec = length ?P + 1 + length (body its)"
    by (simp_all add: sec section_of_def)
  have dl: "d_lines (doc_of_lines False ls) = ls" "d_frozen (doc_of_lines False ls) = False"
    by (simp_all add: doc_of_lines_def Let_def)
  have ol: "option_lines k l" if "wf_item (Opt k u l)" for l u
    using that by (auto simp: option_lines_def)
  show ?thesis
  proof (cases "map_of (entries ?b its) k")
    case (Some opt)
    from option_found[OF this] obtain l v0 ols e where
      its: "its = l @ Opt k v0 ols # e" "k \<notin> fst ` set (values_of e)"
      and o: "co_start opt = ?b + length (body e)" "co_end opt = ?b + length (body e) + length ols" by blast
    let ?A = "?P @ h # body e" and ?C = "body l @ flat_nodes later"
    let ?new = "render_option k val (Some ols)"
    let ?its = "l @ Opt k (value_text val) ?new # e"
    have ls: "ls = ?A @ ols @ ?C" using fl its(1) by (simp add: body_append)
    have A: "length ?A = co_start opt" using o by simp
    have w: "wf_item (Opt k (value_text val) ?new)"
      using nn ls by (intro render_wf[OF k v]) auto
    have nw: "\<forall>P. keeps P s k val ls \<longrightarrow> all_chars P ?new"
    proof (intro allI impI)
      fix P assume P: "keeps P s k val ls"
      then have "all_chars P ols" unfolding keeps_def ls by simp
      with P show "all_chars P ?new" by (intro render_chars[OF _ _ _ _ v]) (simp_all add: keeps_def)
    qed
    have we: "wf_items (Opt k v0 ols # e)" using wf[unfolded its(1)] by (rule wf_items_suffix)
    have "wf_items (Opt k (value_text val) ?new # e)"
      using we w wf_opt_first[OF w] by (simp only: wf_items.simps item_lines.simps) blast
    with wf_replace[OF wf[unfolded its(1)]] have wf': "wf_items ?its" by simp
    have "splice (co_start opt) (co_end opt) ?new (doc_of_lines False ls) = Inr (doc_of_lines False (?A @ ?new @ ?C))"
      unfolding splice_def dl A[symmetric] o(2) using A o by (simp add: ls)
    moreover have "take (co_end opt - co_start opt) (drop (co_start opt) ls) = ols"
      using A o by (subst ls) simp
    ultimately have "set_in sec k val (doc_of_lines False ls) = Inr (doc_of_lines False (?A @ ?new @ ?C))"
      using Some by (simp add: set_in_def so first_wins_get dl)
    moreover have "map_of (values_of ?its) = (map_of (values_of its))(k \<mapsto> value_text val)"
      using map_of_replace[OF its(2)] by (simp add: its(1) values_append)
    moreover have "k \<in> fst ` set (values_of its)" by (simp add: its(1) values_append)
    moreover have on: "once its \<longrightarrow> once ?its" by (simp add: its(1) values_append once_def)
    moreover have "?A @ ?new @ ?C = ?P @ h # body ?its @ flat_nodes later" by (simp add: body_append)
    moreover have "option_lines k ols" using we by (intro ol[of v0]) simp
    ultimately have "wf_items ?its \<and> ls = ?A @ ols @ ?C \<and>
       ?A @ ?new @ ?C = ?P @ h # body ?its @ flat_nodes later \<and>
       set_in sec k val (doc_of_lines False ls) = Inr (doc_of_lines False (?A @ ?new @ ?C)) \<and>
       map_of (values_of ?its) = (map_of (values_of its))(k \<mapsto> value_text val) \<and>
       (if k \<in> fst ` set (values_of its) then option_lines k ols else ols = []) \<and> option_lines k ?new \<and>
       (once its \<longrightarrow> once ?its) \<and> (\<forall>P. keeps P s k val ls \<longrightarrow> all_chars P ?new)"
      using wf' ls ol[OF w] on nw by (intro conjI) (assumption | simp only: if_True)+
    then show ?thesis by - (rule exI[of _ ?its], rule exI[of _ ?A], rule exI[of _ ols], rule exI[of _ ?new], rule exI[of _ ?C], assumption)
  next
    case None
    note missing = option_missing[OF None]
    let ?e = "dropWhile blank_item its" and ?l = "takeWhile blank_item its"
    have its: "its = ?l @ ?e" by simp
    have bl: "\<forall>x \<in> set ?l. blank_item x" by (auto dest: set_takeWhileD)
    let ?A = "?P @ h # body ?e" and ?C = "body ?l @ flat_nodes later"
    let ?new = "render_option k val None"
    let ?its = "?l @ Opt k (value_text val) ?new # ?e"
    have b: "body its = body ?e @ body ?l" by (subst its) (simp only: body_append)
    have ls: "ls = ?A @ [] @ ?C" using fl b by simp
    have w: "wf_item (Opt k (value_text val) ?new)" by (intro render_wf[OF k v]) simp
    have nw: "\<forall>P. keeps P s k val ls \<longrightarrow> all_chars P ?new"
      by (intro allI impI render_chars[OF _ _ _ _ v]) (simp_all add: keeps_def)
    have we: "wf_items ?e" using wf its wf_items_suffix by metis
    have "wf_items (Opt k (value_text val) ?new # ?e)"
      using we w wf_opt_first[OF w] by (simp only: wf_items.simps item_lines.simps) blast
    moreover have "\<forall>x \<in> set ?l. \<exists>l. x = Oth l \<and> is_blank l"
      using bl unfolding blank_item_def by (metis cfg_item.exhaust cfg_item.simps(5,6))
    ultimately have wf': "wf_items ?its" using wf its wf_insert[of ?l ?e] by metis
    have ip: "insert_point (length ?P) ls (length ?P + 1 + length (body its)) = length ?A"
      using insert_point_eq[OF wf, of ls ?P h "flat_nodes later" "length ?P"] fl by simp
    have "set_in sec k val (doc_of_lines False ls) = Inr (doc_of_lines False (?A @ ?new @ ?C))"
      unfolding set_in_def so first_wins_get None option.case Let_def dl ip splice_def
      by (simp add: ls)
    moreover have vo: "values_of its = values_of ?e" using blank_values[OF bl] values_append[of ?l ?e] its by simp
    moreover have "map_of (values_of ?its) = (map_of (values_of its))(k \<mapsto> value_text val)"
      unfolding vo values_append values_of.simps blank_values[OF bl]
      using map_of_extra[of k "values_of ?e"] missing vo by simp
    moreover have on: "once its \<longrightarrow> once ?its"
      unfolding once_def vo values_append values_of.simps blank_values[OF bl] using missing[unfolded vo] by simp
    moreover have "?A @ ?new @ ?C = ?P @ h # body ?its @ flat_nodes later" by (simp add: body_append)
    ultimately have "wf_items ?its \<and> ls = ?A @ [] @ ?C \<and>
       ?A @ ?new @ ?C = ?P @ h # body ?its @ flat_nodes later \<and>
       set_in sec k val (doc_of_lines False ls) = Inr (doc_of_lines False (?A @ ?new @ ?C)) \<and>
       map_of (values_of ?its) = (map_of (values_of its))(k \<mapsto> value_text val) \<and>
       (if k \<in> fst ` set (values_of its) then option_lines k [] else ([] :: string list) = []) \<and> option_lines k ?new \<and>
       (once its \<longrightarrow> once ?its) \<and> (\<forall>P. keeps P s k val ls \<longrightarrow> all_chars P ?new)"
      using wf' ls ol[OF w] missing on nw by (intro conjI) (assumption | simp only: if_False simp_thms)+
    then show ?thesis by - (rule exI[of _ ?its], rule exI[of _ ?A], rule exI[of _ "[]"], rule exI[of _ ?new], rule exI[of _ ?C], assumption)
  qed
qed

lemma lookup2_node:
  assumes "s \<notin> fst ` set earlier"
  shows "lookup2 (contents (later @ (s, h, its) # earlier)) s' k' =
     (if s' = s then map_of (values_of its) k' else lookup2 (contents earlier @ contents later) s' k')"
proof -
  have "map_of (contents earlier) s = None"
    using assms contents_keys[of earlier] by (simp add: map_of_eq_None_iff)
  then show ?thesis
    by (auto simp: lookup2_def contents_append map_add_def split: option.splits)
qed

lemma tree_gap:
  "tree_of (ls @ gap @ [''['' @ s @ '']'']) =
     (fst (tree_of (ls @ gap)), (s, ''['' @ s @ '']'', []) # snd (tree_of (ls @ gap)))" if "good_name s"
  using match_header[OF that] tree_of_snoc[of "ls @ gap" "''['' @ s @ '']''"]
  by (cases "tree_of (ls @ gap)") simp

lemma contents_gap:
  assumes "gap = [] \<or> gap = [[]]"
  shows "contents (snd (tree_of (ls @ gap))) = contents (snd (tree_of ls))"
proof (cases "gap = []")
  case False
  with assms have g: "gap = [[]]" by simp
  have f: "fresh_item [] = Oth []" "match_section [] = None" "\<not> is_continuation []"
    by (simp_all add: fresh_item_def is_blank_def match_section_def is_continuation_def)
  have v: "values_of (istep [] its) = values_of its" for its
    by (cases "([] :: string, its)" rule: istep.cases) (auto simp: f)
  obtain pre nodes where "tree_of ls = (pre, nodes)" by (cases "tree_of ls")
  then show ?thesis using g f v by (cases nodes) (auto simp: tree_of_snoc)
qed simp

lemma set_in_get:
  assumes t: "tree_of ls = (pre, later @ (s, h, its) # earlier)" and s: "s \<notin> fst ` set earlier"
    and sec: "sec = section_of (length pre + length (flat_nodes earlier)) (s, h, its) its"
    and k: "good_key k" and v: "good_value val" and nn: "\<forall>l \<in> set ls. no_nl l"
  shows "\<exists>A old new C its'. ls = A @ old @ C \<and> A @ new @ C = pre @ flat_nodes earlier @ h # body its' @ flat_nodes later \<and>
     tree_of (A @ new @ C) = (pre, later @ (s, h, its') # earlier) \<and> (once its \<longrightarrow> once its') \<and>
     (\<forall>P. keeps P s k val ls \<longrightarrow> all_chars P (A @ new @ C)) \<and>
     set_in sec k val (doc_of_lines False ls) = Inr (doc_of_lines False (A @ new @ C)) \<and>
     (if k \<in> fst ` set (values_of its) then option_lines k old else old = []) \<and>
     (\<forall>s' k'. cfg_get (doc_of_lines False (A @ new @ C)) s' k' None =
        (if s' = s \<and> k' = k then Some (value_text val) else cfg_get (doc_of_lines False ls) s' k' None))"
proof -
  obtain its' A old new C where r: "wf_items its'" "ls = A @ old @ C"
    "A @ new @ C = (pre @ flat_nodes earlier) @ h # body its' @ flat_nodes later"
    "set_in sec k val (doc_of_lines False ls) = Inr (doc_of_lines False (A @ new @ C))"
    "map_of (values_of its') = (map_of (values_of its))(k \<mapsto> value_text val)"
    "if k \<in> fst ` set (values_of its) then option_lines k old else old = []" "once its \<longrightarrow> once its'" "\<forall>P. keeps P s k val ls \<longrightarrow> all_chars P new"
    using set_in_tree[OF t sec k v nn] by blast
  have nn': "\<forall>P. keeps P s k val ls \<longrightarrow> all_chars P (A @ new @ C)"
    using r(8) unfolding r(2) by (auto simp: keeps_def)
  have e: "A @ new @ C = pre @ flat_nodes earlier @ h # body its' @ flat_nodes later" using r(3) by simp
  have t': "tree_of (A @ new @ C) = (pre, later @ (s, h, its') # earlier)"
    unfolding e by (rule tree_replace[OF t r(1)])
  then have "cfg_get (doc_of_lines False (A @ new @ C)) s' k' None =
        (if s' = s \<and> k' = k then Some (value_text val) else cfg_get (doc_of_lines False ls) s' k' None)" for s' k'
    by (simp add: cfg_get_tree t lookup2_node[OF s] r(5))
  then show ?thesis using r(2,4,6,7) e t' nn' by blast
qed

lemma gap_items:
  assumes "gap = [] \<or> gap = [[]]"
  shows "map (\<lambda>nd. (fst nd, values_of (snd (snd nd)))) (snd (tree_of (ls @ gap))) =
    map (\<lambda>nd. (fst nd, values_of (snd (snd nd)))) (snd (tree_of ls))"
proof (cases "gap = []")
  case False
  with assms have g: "gap = [[]]" by simp
  have f: "fresh_item [] = Oth []" "match_section [] = None" "\<not> is_continuation []"
    by (simp_all add: fresh_item_def is_blank_def match_section_def is_continuation_def)
  have v: "values_of (istep [] its) = values_of its" for its
    by (cases "([] :: string, its)" rule: istep.cases) (auto simp: f)
  obtain pre nodes where "tree_of ls = (pre, nodes)" by (cases "tree_of ls")
  then show ?thesis using g f v by (cases nodes) (auto simp: tree_of_snoc)
qed simp

lemma names_gap: "gap = [] \<or> gap = [[]] \<Longrightarrow> map fst (snd (tree_of (ls @ gap))) = map fst (snd (tree_of ls))"
  using arg_cong[OF gap_items, of gap "map fst" ls] by (simp add: comp_def)

lemma once_gap:
  assumes "gap = [] \<or> gap = [[]]"
  shows "(\<forall>nd \<in> set (snd (tree_of (ls @ gap))). once (snd (snd nd))) \<longleftrightarrow> (\<forall>nd \<in> set (snd (tree_of ls)). once (snd (snd nd)))"
proof -
  have "(\<forall>nd \<in> set nds. once (snd (snd nd))) \<longleftrightarrow> list_all (\<lambda>x. distinct (map fst (snd x))) (map (\<lambda>nd. (fst nd, values_of (snd (snd nd)))) nds)" for nds :: "cfg_node list"
    by (simp add: list_all_iff once_def)
  then show ?thesis using gap_items[OF assms, of ls] by simp
qed

lemma set_option_effect:
  assumes "\<forall>l \<in> set ls. no_nl l" and "good_name s" and "good_key k" and "good_value val"
  shows "\<exists>A old new C. ls = A @ old @ C \<and>
     set_option s k val (doc_of_lines False ls) = Inr (doc_of_lines False (A @ new @ C)) \<and>
     cfg_get (doc_of_lines False (A @ new @ C)) s k None = Some (value_text val) \<and>
     (\<forall>s' k'. (s', k') \<noteq> (s, k) \<longrightarrow>
        cfg_get (doc_of_lines False (A @ new @ C)) s' k' None = cfg_get (doc_of_lines False ls) s' k' None) \<and>
     (if cfg_get (doc_of_lines False ls) s k None = None then old = [] else option_lines k old) \<and>
     map fst (snd (tree_of (A @ new @ C))) =
       (if has_section (doc_of_lines False ls) s then map fst (snd (tree_of ls)) else s # map fst (snd (tree_of ls))) \<and>
     (clean ls \<longrightarrow> clean (A @ new @ C)) \<and> (\<forall>P. keeps P s k val ls \<longrightarrow> all_chars P (A @ new @ C))"
proof -
  obtain pre nodes where t: "tree_of ls = (pre, nodes)" by (cases "tree_of ls")
  show ?thesis
  proof (cases "dict_get (d_sections (doc_of_lines False ls)) s")
    case (Some sec)
    then have "map_of (all_sections (length pre) nodes) s = Some sec" by (simp add: sections_get t)
    from section_found[OF this] obtain later h its earlier where
      n: "nodes = later @ (s, h, its) # earlier" "s \<notin> fst ` set earlier"
        "sec = section_of (length pre + length (flat_nodes earlier)) (s, h, its) its" by blast
    have g: "cfg_get (doc_of_lines False ls) s k None = map_of (values_of its) k"
      by (simp add: cfg_get_tree t n(1) lookup2_node[OF n(2)])
    obtain A old new C its' where r: "ls = A @ old @ C"
     "set_in sec k val (doc_of_lines False ls) = Inr (doc_of_lines False (A @ new @ C))"
     "if k \<in> fst ` set (values_of its) then option_lines k old else old = []"
     "\<forall>s' k'. cfg_get (doc_of_lines False (A @ new @ C)) s' k' None =
        (if s' = s \<and> k' = k then Some (value_text val) else cfg_get (doc_of_lines False ls) s' k' None)"
     "tree_of (A @ new @ C) = (pre, later @ (s, h, its') # earlier)" "once its \<longrightarrow> once its'" "\<forall>P. keeps P s k val ls \<longrightarrow> all_chars P (A @ new @ C)"
      using set_in_get[OF t[unfolded n(1)] n(2,3) assms(3,4,1)] by blast
    have "if cfg_get (doc_of_lines False ls) s k None = None then old = [] else option_lines k old"
      using r(3) by (auto simp: g map_of_eq_None_iff split: if_splits)
    moreover have "set_option s k val (doc_of_lines False ls) = Inr (doc_of_lines False (A @ new @ C))"
      by (simp add: set_option_def Some r(2))
    moreover have "has_section (doc_of_lines False ls) s" by (simp add: has_section_def dict_has_get Some)
    moreover have "map fst (snd (tree_of (A @ new @ C))) = map fst (snd (tree_of ls))" by (simp add: r(5) t n(1))
    moreover have "clean ls \<longrightarrow> clean (A @ new @ C)" using r(6) by (simp add: clean_def r(5) t n(1))
    ultimately show ?thesis using r(1,4,7) by (intro exI[of _ A] exI[of _ old] exI[of _ new] exI[of _ C]) simp
  next
    case None
    define gap where "gap = (if ls \<noteq> [] \<and> \<not> is_blank (last ls) then [[] :: string] else [])"
    let ?hd = "''['' @ s @ '']''"
    let ?ls = "ls @ gap @ [?hd]"
    obtain pre' nodes' where t': "tree_of (ls @ gap) = (pre', nodes')" by (cases "tree_of (ls @ gap)")
    have tn: "tree_of ?ls = (pre', [] @ (s, ?hd, []) # nodes')" using tree_gap[OF assms(2)] t' by simp
    have c: "contents nodes' = contents nodes" using contents_gap[of gap ls] t t' by (simp add: gap_def)
    have sn: "s \<notin> fst ` set nodes'"
      using None all_sections_get(1)[of "length pre" nodes s] contents_keys[of nodes'] c
      by (simp add: sections_get t map_of_eq_None_iff)
    have add: "add_section s (doc_of_lines False ls) = Inr (doc_of_lines False ?ls)"
      using None by (simp add: add_section_def has_section_def dict_has_get splice_def gap_def
          doc_of_lines_def Let_def)
    let ?sec = "section_of (length pre' + length (flat_nodes nodes')) (s, ?hd, []) []"
    have "map_of (all_sections (length pre') nodes') s = None"
      using sn all_sections_get(1)[of "length pre'" nodes' s] contents_keys[of nodes']
      by (simp add: map_of_eq_None_iff)
    then have sec: "dict_get (d_sections (doc_of_lines False ?ls)) s = Some ?sec"
      unfolding sections_get tn by (simp add: map_add_def)
    have nn: "\<forall>l \<in> set ?ls. no_nl l"
      using assms(1,2) by (auto simp: gap_def no_nl_def good_name_def)
    obtain A old new C its' where r: "?ls = A @ old @ C" "A @ new @ C = pre' @ flat_nodes nodes' @ ?hd # body its' @ flat_nodes []"
     "set_in ?sec k val (doc_of_lines False ?ls) = Inr (doc_of_lines False (A @ new @ C))"
     "\<forall>s' k'. cfg_get (doc_of_lines False (A @ new @ C)) s' k' None =
        (if s' = s \<and> k' = k then Some (value_text val) else cfg_get (doc_of_lines False ?ls) s' k' None)"
     "tree_of (A @ new @ C) = (pre', [] @ (s, ?hd, its') # nodes')" "once [] \<longrightarrow> once its'"
     "\<forall>P. keeps P s k val ?ls \<longrightarrow> all_chars P (A @ new @ C)"
      using set_in_get[OF tn sn refl assms(3,4) nn] by blast
    have fl: "ls @ gap = pre' @ flat_nodes nodes'" using flat_tree_of[of "ls @ gap"] t' by (simp add: flat_def)
    have e: "A @ new @ C = ls @ (gap @ ?hd # body its') @ []" using r(2) fl by simp
    have same: "cfg_get (doc_of_lines False ?ls) s' k' None = cfg_get (doc_of_lines False ls) s' k' None" for s' k'
    proof -
      have "cfg_get (doc_of_lines False ?ls) s' k' None = lookup2 (contents nodes' @ [(s, [])]) s' k'"
        unfolding cfg_get_tree tn by simp
      moreover have "map_of (contents nodes') s = None"
        using sn contents_keys[of nodes'] by (simp add: map_of_eq_None_iff)
      ultimately show ?thesis
        by (auto simp: cfg_get_tree t lookup2_def map_add_def c split: option.splits)
    qed
    have "cfg_get (doc_of_lines False ls) s k None = None" using None by (simp add: cfg_get_def)
    moreover have "set_option s k val (doc_of_lines False ls) = Inr (doc_of_lines False (ls @ (gap @ ?hd # body its') @ []))"
      using r(3) unfolding e set_option_def None add option.case and_then_simps sec by simp
    moreover have "\<not> has_section (doc_of_lines False ls) s" by (simp add: has_section_def dict_has_get None)
    moreover have "map fst (snd (tree_of (ls @ (gap @ ?hd # body its') @ []))) = s # map fst (snd (tree_of ls))"
      using r(5) names_gap[of gap ls] t t' unfolding e by (simp add: gap_def)
    moreover have "clean ls \<longrightarrow> clean (ls @ (gap @ ?hd # body its') @ [])"
      using r(5,6) once_gap[of gap ls] t t' unfolding e by (simp add: clean_def once_def gap_def)
    moreover have "\<forall>P. keeps P s k val ls \<longrightarrow> all_chars P (ls @ (gap @ ?hd # body its') @ [])"
      using r(7) unfolding e by (auto simp: keeps_def gap_def)
    moreover have "cfg_get (doc_of_lines False (ls @ (gap @ ?hd # body its') @ [])) s' k' None =
        (if s' = s \<and> k' = k then Some (value_text val) else cfg_get (doc_of_lines False ls) s' k' None)" for s' k'
      using r(4) same unfolding e by simp
    ultimately show ?thesis
      apply -
      apply (rule exI[of _ ls], rule exI[of _ "[]"], rule exI[of _ "gap @ ?hd # body its'"], rule exI[of _ "[]"])
      apply (intro conjI)
      apply (simp_all del: all_chars_simps)
      done
  qed
qed

text \<open>C6: writing one option changes that option and nothing else. For any document of one-line lines,
  any well-formed section name, key and value, \<open>set\<close> succeeds; a reload then gives the value that
  was set, and every other option of every section reads as before. In the text, only the lines
  of that option are replaced (none when it is new): every line before and after them - comments,
  blank lines, unknown keys, duplicate sections - is kept as it was, in order.\<close>

theorem set_option_sound:
  assumes "\<forall>l \<in> set ls. no_nl l" and "good_name s" and "good_key k" and "good_value val"
  shows "\<exists>A old new C. ls = A @ old @ C \<and>
     set_option s k val (doc_of_lines False ls) = Inr (doc_of_lines False (A @ new @ C)) \<and>
     cfg_get (doc_of_lines False (A @ new @ C)) s k None = Some (value_text val) \<and>
     (\<forall>s' k'. (s', k') \<noteq> (s, k) \<longrightarrow>
        cfg_get (doc_of_lines False (A @ new @ C)) s' k' None = cfg_get (doc_of_lines False ls) s' k' None) \<and>
     (if cfg_get (doc_of_lines False ls) s k None = None then old = [] else option_lines k old)"
  using set_option_effect[OF assms] by blast

definition demo_lines :: "string list" where
  "demo_lines = [''# boards'', ''[mcu ebb]'', ''chipset: rp2040'', ''serials:'', ''    # left'', ''    A1  # EBBT0'', [], ''[updater]'']"

theorem set_option_sound_witness:
  "\<exists>A old new C. demo_lines = A @ old @ C \<and>
     set_option ''mcu ebb'' ''serials'' (VList [''A1'', ''B2'']) (doc_of_lines False demo_lines) =
       Inr (doc_of_lines False (A @ new @ C)) \<and>
     cfg_get (doc_of_lines False (A @ new @ C)) ''mcu ebb'' ''serials'' None = Some (nl # ''A1'' @ nl # ''B2'') \<and>
     cfg_get (doc_of_lines False (A @ new @ C)) ''mcu ebb'' ''chipset'' None =
       cfg_get (doc_of_lines False demo_lines) ''mcu ebb'' ''chipset'' None"
proof -
  have a: "\<forall>l \<in> set demo_lines. no_nl l" by (simp add: demo_lines_def no_nl_def)
  have b: "good_name ''mcu ebb''" by (simp add: good_name_def stripped_def is_space_def no_nl_def)
  have c: "good_key ''serials''" by (simp add: good_key_def stripped_def is_space_def no_nl_def comment_char_def is_sep_def)
  have d: "good_value (VList [''A1'', ''B2''])"
    by (simp add: plain_def stripped_def is_space_def no_nl_def comment_char_def)
  obtain A old new C where r: "demo_lines = A @ old @ C"
    "set_option ''mcu ebb'' ''serials'' (VList [''A1'', ''B2'']) (doc_of_lines False demo_lines) =
       Inr (doc_of_lines False (A @ new @ C))"
    "cfg_get (doc_of_lines False (A @ new @ C)) ''mcu ebb'' ''serials'' None = Some (value_text (VList [''A1'', ''B2'']))"
    and o: "\<forall>s' k'. (s', k') \<noteq> (''mcu ebb'', ''serials'') \<longrightarrow>
      cfg_get (doc_of_lines False (A @ new @ C)) s' k' None = cfg_get (doc_of_lines False demo_lines) s' k' None"
    using set_option_sound[OF a b c d] by blast
  from o[rule_format, of "''mcu ebb''" "''chipset''"] r show ?thesis
    by (intro exI[of _ A] exI[of _ old] exI[of _ new] exI[of _ C]) simp
qed

subsection \<open>Removing and renaming\<close>

lemma sections_of_doc:
  assumes "dict_get (d_sections (doc_of_lines f ls)) s = Some sec"
  shows "\<exists>pre later h its earlier. tree_of ls = (pre, later @ (s, h, its) # earlier) \<and> s \<notin> fst ` set earlier \<and>
    sec = section_of (length pre + length (flat_nodes earlier)) (s, h, its) its"
proof -
  obtain pre nodes where t: "tree_of ls = (pre, nodes)" by (cases "tree_of ls")
  with assms have "map_of (all_sections (length pre) nodes) s = Some sec" by (simp add: sections_get)
  from section_found[OF this] t show ?thesis by blast
qed

lemma doc_fields [simp]: "d_lines (doc_of_lines f ls) = ls" "d_frozen (doc_of_lines f ls) = f"
  by (simp_all add: doc_of_lines_def Let_def)

lemma splice_doc:
  "splice (length A) (length A + length old) new (doc_of_lines False (A @ old @ C)) = Inr (doc_of_lines False (A @ new @ C))"
  by (simp add: splice_def)

lemma remove_option_effect:
  "(cfg_get (doc_of_lines False ls) s k None = None \<longrightarrow>
      remove_option s k (doc_of_lines False ls) = Inr (doc_of_lines False ls, False)) \<and>
   (cfg_get (doc_of_lines False ls) s k None \<noteq> None \<longrightarrow>
      (\<exists>A old C. ls = A @ old @ C \<and> option_lines k old \<and>
         remove_option s k (doc_of_lines False ls) = Inr (doc_of_lines False (A @ C), True) \<and>
         (\<forall>s' k'. (s', k') \<noteq> (s, k) \<longrightarrow>
            cfg_get (doc_of_lines False (A @ C)) s' k' None = cfg_get (doc_of_lines False ls) s' k' None) \<and>
         map fst (snd (tree_of (A @ C))) = map fst (snd (tree_of ls)) \<and>
         (clean ls \<longrightarrow> clean (A @ C) \<and> cfg_get (doc_of_lines False (A @ C)) s k None = None)))"
proof (cases "dict_get (d_sections (doc_of_lines False ls)) s")
  case None
  then show ?thesis by (simp add: cfg_get_def remove_option_def)
next
  case (Some sec)
  from sections_of_doc[OF this] obtain pre later h its earlier where
    t: "tree_of ls = (pre, later @ (s, h, its) # earlier)" and sn: "s \<notin> fst ` set earlier"
    and sec: "sec = section_of (length pre + length (flat_nodes earlier)) (s, h, its) its" by blast
  let ?b = "length pre + length (flat_nodes earlier) + 1"
  have so: "dict_get (cs_options sec) k = map_of (entries ?b its) k" by (simp add: sec section_of_def first_wins_get)
  show ?thesis
  proof (cases "map_of (entries ?b its) k")
    case None
    then show ?thesis using Some so by (simp add: cfg_get_def remove_option_def)
  next
    case o: (Some opt)
    from option_found[OF o] obtain l v0 ols e where
      its: "its = l @ Opt k v0 ols # e" "k \<notin> fst ` set (values_of e)"
      and oo: "co_start opt = ?b + length (body e)" "co_end opt = ?b + length (body e) + length ols" by blast
    let ?A = "pre @ flat_nodes earlier @ h # body e" and ?C = "body l @ flat_nodes later"
    note wf = wf_tree_items[OF t]
    have ls: "ls = ?A @ ols @ ?C" using tree_flat[OF t] its(1) by (simp add: body_append)
    have we: "wf_item (Opt k v0 ols)" using wf[unfolded its(1)] wf_items_suffix by fastforce
    then have ol: "option_lines k ols" by (auto simp: option_lines_def)
    have wd: "wf_items (l @ e)" using wf_delete[OF wf[unfolded its(1)]] by simp
    have "?A @ ?C = pre @ flat_nodes earlier @ h # body (l @ e) @ flat_nodes later" by (simp add: body_append)
    then have t': "tree_of (?A @ ?C) = (pre, later @ (s, h, l @ e) # earlier)" using tree_replace[OF t wd] by metis
    have "cfg_get (doc_of_lines False (?A @ ?C)) s' k' None = cfg_get (doc_of_lines False ls) s' k' None"
      if "(s', k') \<noteq> (s, k)" for s' k'
      unfolding cfg_get_tree t' t snd_conv lookup2_node[OF sn] using that
      by (auto simp: its(1) values_append map_add_def split: option.split)
    moreover have "length ?A = co_start opt" using oo by simp
    then have "splice (co_start opt) (co_end opt) [] (doc_of_lines False ls) = Inr (doc_of_lines False (?A @ ?C))"
      using splice_doc[of ?A ols "[]" ?C] oo ls by (simp add: add.assoc)
    then have "remove_option s k (doc_of_lines False ls) = Inr (doc_of_lines False (?A @ ?C), True)"
      by (simp add: remove_option_def Some so[unfolded o])
    moreover have "cfg_get (doc_of_lines False ls) s k None \<noteq> None" using Some so[unfolded o] by (simp add: cfg_get_def)
    moreover have "map fst (snd (tree_of (?A @ ?C))) = map fst (snd (tree_of ls))" unfolding t' t by simp
    moreover have "clean ls \<longrightarrow> clean (?A @ ?C) \<and> cfg_get (doc_of_lines False (?A @ ?C)) s k None = None"
    proof
      assume "clean ls"
      then have c: "\<forall>nd \<in> set (later @ (s, h, its) # earlier). once (snd (snd nd))" by (simp add: clean_def t)
      then have on: "once (l @ Opt k v0 ols # e)" using its(1) by simp
      then have "k \<notin> fst ` set (values_of (l @ e))" "once (l @ e)" by (auto simp: once_def values_append)
      then show "clean (?A @ ?C) \<and> cfg_get (doc_of_lines False (?A @ ?C)) s k None = None"
        using c unfolding cfg_get_tree clean_def t' snd_conv lookup2_node[OF sn] by (auto simp: map_of_eq_None_iff)
    qed
    ultimately show ?thesis using ls ol by blast
  qed
qed

text \<open>Removing an option takes exactly its own lines - its key line, its items and the comments
  between them - and no other option of any section reads differently afterwards; an option that
  is not there is reported and nothing changes.\<close>

theorem remove_option_sound:
  "(cfg_get (doc_of_lines False ls) s k None = None \<longrightarrow>
      remove_option s k (doc_of_lines False ls) = Inr (doc_of_lines False ls, False)) \<and>
   (cfg_get (doc_of_lines False ls) s k None \<noteq> None \<longrightarrow>
      (\<exists>A old C. ls = A @ old @ C \<and> option_lines k old \<and>
         remove_option s k (doc_of_lines False ls) = Inr (doc_of_lines False (A @ C), True) \<and>
         (\<forall>s' k'. (s', k') \<noteq> (s, k) \<longrightarrow>
            cfg_get (doc_of_lines False (A @ C)) s' k' None = cfg_get (doc_of_lines False ls) s' k' None)))"
proof (intro conjI impI)
  assume "cfg_get (doc_of_lines False ls) s k None = None"
  then show "remove_option s k (doc_of_lines False ls) = Inr (doc_of_lines False ls, False)"
    by (rule remove_option_effect[THEN conjunct1, rule_format])
next
  assume "cfg_get (doc_of_lines False ls) s k None \<noteq> None"
  from remove_option_effect[THEN conjunct2, rule_format, OF this] obtain A old C where
    r: "ls = A @ old @ C" "option_lines k old" "remove_option s k (doc_of_lines False ls) = Inr (doc_of_lines False (A @ C), True)"
      "\<forall>s' k'. (s', k') \<noteq> (s, k) \<longrightarrow> cfg_get (doc_of_lines False (A @ C)) s' k' None = cfg_get (doc_of_lines False ls) s' k' None"
    by (elim exE conjE) (rule that)
  show "\<exists>A old C. ls = A @ old @ C \<and> option_lines k old \<and>
     remove_option s k (doc_of_lines False ls) = Inr (doc_of_lines False (A @ C), True) \<and>
     (\<forall>s' k'. (s', k') \<noteq> (s, k) \<longrightarrow> cfg_get (doc_of_lines False (A @ C)) s' k' None = cfg_get (doc_of_lines False ls) s' k' None)"
    by (intro exI[of _ A] exI[of _ old] exI[of _ C] conjI) (fact r)+
qed

theorem remove_option_sound_witness:
  "\<exists>A old C. demo_lines = A @ old @ C \<and> option_lines ''serials'' old \<and>
     remove_option ''mcu ebb'' ''serials'' (doc_of_lines False demo_lines) = Inr (doc_of_lines False (A @ C), True)"
proof -
  have "cfg_get (doc_of_lines False demo_lines) ''mcu ebb'' ''serials'' None \<noteq> None" by code_simp
  from remove_option_sound[THEN conjunct2, rule_format, OF this] show ?thesis by blast
qed

lemma header_split:
  assumes "match_section h = Some n"
  shows "\<exists>suf. h = ''['' @ n @ '']'' @ suf \<and> n \<noteq> [] \<and> CHR '']'' \<notin> set n \<and>
    tl (dropWhile (\<lambda>c. c \<noteq> CHR '']'') h) = suf \<and>
    (\<forall>m. m \<noteq> [] \<and> CHR '']'' \<notin> set m \<longrightarrow> match_section (''['' @ m @ '']'' @ suf) = Some m)"
proof -
  from assms obtain rest where h: "h = CHR ''['' # rest"
    by (cases h) (auto simp: match_section_def Let_def split: if_splits)
  let ?n = "takeWhile (\<lambda>x. x \<noteq> CHR '']'') rest"
  have dr: "drop (length ?n) rest = dropWhile (\<lambda>x. x \<noteq> CHR '']'') rest"
    by (simp add: dropWhile_eq_drop)
  have n: "n = ?n" "n \<noteq> []" and ne: "drop (length ?n) rest \<noteq> []"
    using assms h by (auto simp: match_section_def Let_def split: if_splits list.splits)
  have n3: "dropWhile (\<lambda>x. x \<noteq> CHR '']'') rest \<noteq> []" using ne unfolding dr .
  obtain suf where suf: "dropWhile (\<lambda>x. x \<noteq> CHR '']'') rest = CHR '']'' # suf"
    using hd_dropWhile[OF n3] n3 by (cases "dropWhile (\<lambda>x. x \<noteq> CHR '']'') rest") auto
  have rest: "rest = n @ CHR '']'' # suf" using n(1) suf by (metis takeWhile_dropWhile_id)
  have nn: "CHR '']'' \<notin> set n" using n(1) by (auto dest: set_takeWhileD)
  have tw: "takeWhile (\<lambda>x. x \<noteq> CHR '']'') (m @ CHR '']'' # suf) = m" if "CHR '']'' \<notin> set m" for m
    using that by (subst takeWhile_append2) auto
  have "match_section (''['' @ m @ '']'' @ suf) = Some m" if "m \<noteq> []" "CHR '']'' \<notin> set m" for m
    using assms that n(2) nn unfolding h rest
    by (auto simp: match_section_def Let_def tw split: list.splits if_splits)
  moreover have "tl (dropWhile (\<lambda>c. c \<noteq> CHR '']'') h) = suf" using h suf by simp
  ultimately show ?thesis using h rest n(2) nn by auto
qed

text \<open>Renaming a section moves everything it declares to the new name: only its header line
  changes, keeping what follows the bracket, every option of the section reads under the new name
  as it did under the old, and every other section reads as before. A missing section or a name
  already taken changes nothing.\<close>

theorem rename_section_sound:
  assumes "good_name new"
  shows "(\<not> has_section (doc_of_lines False ls) old \<or> has_section (doc_of_lines False ls) new \<longrightarrow>
      rename_section old new (doc_of_lines False ls) = Inr (doc_of_lines False ls, False)) \<and>
    (has_section (doc_of_lines False ls) old \<and> \<not> has_section (doc_of_lines False ls) new \<longrightarrow>
      (\<exists>A n suf C. ls = A @ (''['' @ n @ '']'' @ suf) # C \<and> strip n = old \<and>
         (let d' = doc_of_lines False (A @ (''['' @ new @ '']'' @ suf) # C) in
          rename_section old new (doc_of_lines False ls) = Inr (d', True) \<and>
          (\<forall>k. cfg_get d' new k None = cfg_get (doc_of_lines False ls) old k None) \<and>
          (\<forall>s' k. s' \<noteq> old \<and> s' \<noteq> new \<longrightarrow> cfg_get d' s' k None = cfg_get (doc_of_lines False ls) s' k None))))"
proof (cases "dict_get (d_sections (doc_of_lines False ls)) old")
  case None
  then show ?thesis by (simp add: rename_section_def has_section_def dict_has_get)
next
  case (Some sec)
  show ?thesis
  proof (cases "has_section (doc_of_lines False ls) new")
    case True
    then show ?thesis by (simp add: rename_section_def Some)
  next
    case new: False
    from sections_of_doc[OF Some] obtain pre later h its earlier where
      t: "tree_of ls = (pre, later @ (old, h, its) # earlier)" and sn: "old \<notin> fst ` set earlier"
      and sec: "sec = section_of (length pre + length (flat_nodes earlier)) (old, h, its) its" by blast
    from wf_tree_of[of ls] t have wn: "wf_node (old, h, its)" "wf_tree (pre, later @ (old, h, its) # earlier)"
      by (auto simp: wf_tree_def)
    from wn(1) obtain n where n: "match_section h = Some n" "strip n = old" by (auto simp: wf_node_def)
    from assms have gn: "new \<noteq> []" "CHR '']'' \<notin> set new" by (auto simp: good_name_def)
    from header_split[OF n(1)] gn obtain suf where hs: "h = ''['' @ n @ '']'' @ suf"
      "tl (dropWhile (\<lambda>c. c \<noteq> CHR '']'') h) = suf" "match_section (''['' @ new @ '']'' @ suf) = Some new"
      by blast
    let ?h = "''['' @ new @ '']'' @ suf"
    let ?A = "pre @ flat_nodes earlier" and ?C = "body its @ flat_nodes later"
    have ls: "ls = ?A @ h # ?C" using tree_flat[OF t] by simp
    have "wf_node (new, ?h, its)" using wn(1) hs(3) assms by (simp add: wf_node_def match_header(2))
    then have "wf_tree (pre, later @ (new, ?h, its) # earlier)" using wn(2) by (auto simp: wf_tree_def)
    from reparse[OF this] have t': "tree_of (?A @ ?h # ?C) = (pre, later @ (new, ?h, its) # earlier)"
      by (simp add: flat_def flat_append)
    have nk: "new \<notin> fst ` set (later @ (old, h, its) # earlier)"
      using new all_sections_get(1)[of "length pre" "later @ (old, h, its) # earlier" new]
        contents_keys[of "later @ (old, h, its) # earlier"]
      by (simp add: has_section_def dict_has_get sections_get t map_of_eq_None_iff)
    then have ne: "new \<notin> fst ` set earlier" by auto
    have hd: "ls ! cs_header sec = h" "cs_header sec = length ?A"
      using ls by (simp_all add: sec section_of_def nth_append)
    let ?d = "doc_of_lines False (?A @ ?h # ?C)"
    have "rename_section old new (doc_of_lines False ls) = Inr (?d, True)"
    proof -
      have "splice (cs_header sec) (cs_header sec + 1) [?h] (doc_of_lines False ls) = Inr ?d"
        using splice_doc[of ?A "[h]" "[?h]" ?C] unfolding ls hd(2) by simp
      then show ?thesis using new by (simp add: rename_section_def Some Let_def hd(1) hs(2))
    qed
    moreover have "cfg_get ?d new k None = cfg_get (doc_of_lines False ls) old k None" for k
      unfolding cfg_get_tree t' t snd_conv lookup2_node[OF sn] lookup2_node[OF ne] by simp
    moreover have "cfg_get ?d s' k None = cfg_get (doc_of_lines False ls) s' k None" if "s' \<noteq> old" "s' \<noteq> new" for s' k
      unfolding cfg_get_tree t' t snd_conv lookup2_node[OF sn] lookup2_node[OF ne] using that by simp
    moreover have "has_section (doc_of_lines False ls) old" using Some by (simp add: has_section_def dict_has_get)
    ultimately show ?thesis using ls new hs(1) n(2) unfolding Let_def by blast
  qed
qed

theorem rename_section_sound_witness:
  "\<exists>d'. rename_section ''mcu ebb'' ''mcu EBB 36'' (doc_of_lines False demo_lines) = Inr (d', True) \<and>
     cfg_get d' ''mcu EBB 36'' ''chipset'' None = Some ''rp2040''"
proof -
  have g: "good_name ''mcu EBB 36''" by (simp add: good_name_def stripped_def is_space_def no_nl_def)
  have "has_section (doc_of_lines False demo_lines) ''mcu ebb'' \<and> \<not> has_section (doc_of_lines False demo_lines) ''mcu EBB 36''"
    by code_simp
  moreover have "cfg_get (doc_of_lines False demo_lines) ''mcu ebb'' ''chipset'' None = Some ''rp2040''" by code_simp
  ultimately show ?thesis using rename_section_sound[OF g, of demo_lines "''mcu ebb''"] unfolding Let_def by metis
qed

subsection \<open>Saving and loading\<close>

lemma join_lines: "ls \<noteq> [] \<Longrightarrow> join [nl] ls @ [nl] = concat (map (\<lambda>l. l @ [nl]) ls)"
  by (induction "[nl]" ls rule: join.induct) auto

lemma splitlines_saved:
  "\<forall>l \<in> set ls. \<forall>c \<in> set l. \<not> is_linebreak c \<Longrightarrow> splitlines (concat (map (\<lambda>l. l @ [nl]) ls)) = ls"
proof (induction ls)
  case (Cons l ls)
  then show ?case using splitlines_line[of l "concat (map (\<lambda>l. l @ [nl]) ls)"] by simp
qed (simp add: splitlines_def)

lemma last_join: "ls \<noteq> [] \<Longrightarrow> last ls \<noteq> [] \<Longrightarrow> join [nl] ls \<noteq> [] \<and> last (join [nl] ls) = last (last ls)"
  by (induction "[nl]" ls rule: join.induct) auto

lemma saved_lines:
  assumes "\<forall>l \<in> set ls. \<forall>c \<in> set l. \<not> is_linebreak c" and "ls \<noteq> []" and "last ls \<noteq> []"
  shows "render_doc (doc_of_lines f ls) = concat (map (\<lambda>l. l @ [nl]) ls) \<and>
    parse_doc (render_doc (doc_of_lines f ls)) = doc_of_lines False ls"
proof -
  have "is_linebreak nl" by (simp add: is_linebreak_def)
  then have "last (last ls) \<noteq> nl" using assms last_in_set by metis
  then have r: "render_doc (doc_of_lines f ls) = concat (map (\<lambda>l. l @ [nl]) ls)"
    using last_join[OF assms(2,3)] join_lines[OF assms(2)] by (simp add: render_doc_def)
  moreover have "concat (map (\<lambda>l. l @ [nl]) ls) \<noteq> []" using assms(2) by simp
  ultimately show ?thesis using splitlines_saved[OF assms(1)] by (simp add: parse_doc_def)
qed

text \<open>A document that is saved is read back line for line. Rendering writes every line of it and
  one newline after each, and parsing that text gives the same document, so an unedited file is
  written back as it was and an edit survives the save and the reload.\<close>

theorem save_load_round_trip:
  assumes "\<forall>l \<in> set ls. \<forall>c \<in> set l. \<not> is_linebreak c" and "ls \<noteq> []" and "last ls \<noteq> []"
  shows "render_doc (doc_of_lines f ls) = concat (map (\<lambda>l. l @ [nl]) ls) \<and>
    parse_doc (render_doc (doc_of_lines f ls)) = doc_of_lines False ls"
  using saved_lines[OF assms] .

theorem save_load_round_trip_witness:
  "parse_doc (render_doc (doc_of_lines True demo_lines)) = doc_of_lines False demo_lines"
proof -
  have a: "\<forall>l \<in> set demo_lines. \<forall>c \<in> set l. \<not> is_linebreak c" by code_simp
  have b: "demo_lines \<noteq> []" "last demo_lines \<noteq> []" by (simp_all add: demo_lines_def)
  from save_load_round_trip[OF a b] show ?thesis by blast
qed

text \<open>Comments \<open>set\<close> does not keep. A trailing comment with an equals sign in it is dropped when
  its value is replaced, and so is the comment on the key line of a list; and when the last item
  of a list goes, the comments of the block go with it, the trailing ones included.\<close>

theorem render_drops_comments:
  "render_option ''k'' (VStr ''w'') (Some [''k: v  # was a=b'']) = [''k: w''] \<and>
   render_option ''k'' (VList [''A'']) (Some [''k:  # boards'', ''    A'']) = [''k:'', ''    A''] \<and>
   render_option ''k'' (VList []) (Some [''k:'', ''    # left'', ''    A  # EBBT0'', ''    # spare'']) = [''k:'']"
  by code_simp

text \<open>A section runs up to the next header or the end of the file.\<close>

lemma section_ends_at_header:
  assumes "dict_get (d_sections (doc_of_lines f ls)) s = Some sec" and "cs_end sec < length ls"
  shows "match_section (ls ! cs_end sec) \<noteq> None"
proof -
  from sections_of_doc[OF assms(1)] obtain pre later h its earlier where
    t: "tree_of ls = (pre, later @ (s, h, its) # earlier)"
    and sec: "sec = section_of (length pre + length (flat_nodes earlier)) (s, h, its) its" by blast
  let ?A = "pre @ flat_nodes earlier @ h # body its"
  have ls: "ls = ?A @ flat_nodes later" using tree_flat[OF t] by simp
  have e: "cs_end sec = length ?A" by (simp add: sec section_of_def)
  then have "flat_nodes later \<noteq> []" using assms(2) ls by auto
  then obtain init n h' its' where l: "later = init @ [(n, h', its')]"
    by (cases later rule: rev_cases) auto
  have "wf_node (n, h', its')" using wf_tree_of[of ls] t l by (auto simp: wf_tree_def)
  then have "match_section h' \<noteq> None" by (auto simp: wf_node_def)
  moreover have "ls ! cs_end sec = h'" unfolding e ls l by (simp add: flat_append nth_append)
  ultimately show ?thesis by simp
qed

end
