(* ===== verification/CfgStore.thy ===== *)
theory CfgStore
  imports CfgEdits
begin

section \<open>A document as a store of options\<close>

text \<open>
  What the registry and the settings rely on: a document whose sections and options are each given
  once is a two-level map, \<open>set\<close> and \<open>remove_option\<close> are its updates, and the sections keep their
  order. \<open>option_store\<close> states it as an interface, interpreted on the documents of \<open>CfgDoc\<close>; a list of
  edits is reasoned about inside it.
\<close>

subsection \<open>The order of the sections\<close>

lemma registered_names:
  assumes "map fst nodes = map fst nodes'"
  shows "dict_keys (fst (registered p nodes)) = dict_keys (fst (registered p' nodes')) \<and>
    snd (registered p nodes) = snd (registered p' nodes')"
  using assms
proof (induction nodes arbitrary: nodes')
  case (Cons nd nodes)
  then obtain nd' rest where n: "nodes' = nd' # rest" "fst nd' = fst nd" "map fst nodes = map fst rest"
    by (cases nodes') auto
  from Cons.IH[OF n(3)] n(1,2) show ?case
    by (simp add: register_def section_of_def dict_has_iff)
qed simp

lemma registered_fresh:
  assumes "s \<notin> set (map fst nodes)" "map fst nodes' = s # map fst nodes"
  shows "dict_keys (fst (registered p nodes')) = dict_keys (fst (registered p' nodes)) @ [s] \<and>
    snd (registered p nodes') = snd (registered p' nodes)"
proof -
  obtain nd rest where n: "nodes' = nd # rest" "fst nd = s" "map fst rest = map fst nodes"
    using assms(2) by (cases nodes') auto
  have k: "set (dict_keys (fst (registered p nodes))) = set (map fst nodes)" for p and nodes :: "cfg_node list"
    by (induction nodes) (auto simp: register_def section_of_def dict_has_iff)
  from registered_names[OF n(3), of p p'] k[of p rest] assms(1) n show ?thesis
    by (simp add: register_def section_of_def dict_has_iff)
qed

lemma registered_headers:
  "sorted (map (\<lambda>(n, s). cs_header s) (fst (registered p nodes))) \<and>
   (\<forall>(n, s) \<in> set (fst (registered p nodes)). cs_header s < p + length (flat_nodes nodes))"
proof (induction nodes)
  case (Cons nd rest)
  obtain n h its where nd: "nd = (n, h, its)" by (cases nd)
  from Cons show ?case
    by (auto simp: nd register_def section_of_def sorted_append split: prod.splits)
qed simp

lemma section_names_keys:
  "section_names (doc_of_lines f ls) None = dict_keys (d_sections (doc_of_lines f ls))"
  using registered_headers[of "length (fst (tree_of ls))" "snd (tree_of ls)"]
  by (simp add: section_names_def parse_refines Let_def sorted_sort_id sort_key_id_if_sorted)

subsection \<open>The laws of a store\<close>

text \<open>Lines a save keeps apart: no character of them ends a line.\<close>

definition file_char :: "char \<Rightarrow> bool" where "file_char c = (\<not> is_linebreak c)"

definition file_safe :: "string \<Rightarrow> bool" where "file_safe s = (\<forall>c \<in> set s. file_char c)"

lemma file_char_simps [simp]: "\<not> file_char nl" "file_char CHR '':''" "file_char CHR '' ''" "file_char CHR ''[''" "file_char CHR '']''"
  by (simp_all add: file_char_def is_linebreak_def)

definition store_ok :: "cfg_doc \<Rightarrow> bool" where
  "store_ok d = (d = doc_of_lines False (d_lines d) \<and> all_chars file_char (d_lines d) \<and>
     clean (d_lines d) \<and> d_dups d = [])"

lemma store_okE:
  assumes "store_ok d"
  obtains ls where "d = doc_of_lines False ls" "all_chars file_char ls" "\<forall>l \<in> set ls. no_nl l" "clean ls" "d_dups d = []"
  using assms all_chars_nonl[of file_char "d_lines d"] unfolding store_ok_def by (metis file_char_simps(1))

lemma doc_dups: "d_dups (doc_of_lines f ls) = snd (registered 0 (snd (tree_of ls)))"
  using registered_names[OF refl, of "length (fst (tree_of ls))" "snd (tree_of ls)" 0]
  by (simp add: parse_refines Let_def)

lemma doc_names: "dict_keys (d_sections (doc_of_lines f ls)) = dict_keys (fst (registered 0 (snd (tree_of ls))))"
  using registered_names[OF refl, of "length (fst (tree_of ls))" "snd (tree_of ls)" 0]
  by (simp add: parse_refines Let_def)

lemma doc_has: "has_section (doc_of_lines f ls) s \<longleftrightarrow> s \<in> set (map fst (snd (tree_of ls)))"
  using all_sections_get(1)[of "length (fst (tree_of ls))" "snd (tree_of ls)" s] contents_keys[of "snd (tree_of ls)"]
  by (simp add: has_section_def dict_has_get sections_get map_of_eq_None_iff)

lemma store_put:
  assumes "store_ok d" "good_name s" "good_key k" "good_value v"
    and safe: "file_safe s" "file_safe k" "list_all file_safe (value_lines v)"
  shows "\<exists>d'. set_option s k v d = Inr d' \<and> store_ok d' \<and>
    (\<forall>s' k'. cfg_get d' s' k' None = (if s' = s \<and> k' = k then Some (value_text v) else cfg_get d s' k' None)) \<and>
    section_names d' None = (if has_section d s then section_names d None else section_names d None @ [s])"
proof -
  from assms(1) obtain ls where d: "d = doc_of_lines False ls" "all_chars file_char ls" "\<forall>l \<in> set ls. no_nl l" "clean ls" "d_dups d = []"
    by (rule store_okE)
  from set_option_effect[OF d(3) assms(2-4)] obtain A old new C where r: "ls = A @ old @ C"
     "set_option s k v (doc_of_lines False ls) = Inr (doc_of_lines False (A @ new @ C))"
     "cfg_get (doc_of_lines False (A @ new @ C)) s k None = Some (value_text v)"
     "\<forall>s' k'. (s', k') \<noteq> (s, k) \<longrightarrow> cfg_get (doc_of_lines False (A @ new @ C)) s' k' None = cfg_get (doc_of_lines False ls) s' k' None"
     "map fst (snd (tree_of (A @ new @ C))) =
       (if has_section (doc_of_lines False ls) s then map fst (snd (tree_of ls)) else s # map fst (snd (tree_of ls)))"
     "clean ls \<longrightarrow> clean (A @ new @ C)" "\<forall>P. keeps P s k v ls \<longrightarrow> all_chars P (A @ new @ C)"
    by (elim exE conjE) (rule that)
  let ?d' = "doc_of_lines False (A @ new @ C)"
  have nm: "section_names ?d' None = (if has_section d s then section_names d None else section_names d None @ [s]) \<and> d_dups ?d' = []"
  proof (cases "has_section d s")
    case True
    with r(5) registered_names[of "snd (tree_of (A @ new @ C))" "snd (tree_of ls)" 0 0] d(1,5) show ?thesis
      unfolding section_names_keys d(1) doc_names doc_dups by simp
  next
    case False
    with doc_has have "s \<notin> set (map fst (snd (tree_of ls)))" unfolding d(1) by metis
    from registered_fresh[OF this, of "snd (tree_of (A @ new @ C))" 0 0] False r(5) d(1,5) show ?thesis
      unfolding section_names_keys d(1) doc_names doc_dups by simp
  qed
  have "keeps file_char s k v ls"
    using d(2) safe by (simp add: keeps_def all_chars_def file_safe_def list_all_iff)
  then have "store_ok ?d'" using r(6,7) d(4) nm unfolding store_ok_def doc_fields by blast
  with r(2-4) nm show ?thesis unfolding d(1) by (intro exI[of _ ?d']) auto
qed

lemma store_del:
  assumes "store_ok d"
  shows "\<exists>d' b. remove_option s k d = Inr (d', b) \<and> store_ok d' \<and>
    (\<forall>s' k'. cfg_get d' s' k' None = (if s' = s \<and> k' = k then None else cfg_get d s' k' None)) \<and>
    section_names d' None = section_names d None"
proof -
  from assms(1) obtain ls where d: "d = doc_of_lines False ls" "all_chars file_char ls" "\<forall>l \<in> set ls. no_nl l" "clean ls" "d_dups d = []"
    by (rule store_okE)
  show ?thesis
  proof (cases "cfg_get d s k None = None")
    case True
    with remove_option_effect[THEN conjunct1, of ls s k] assms show ?thesis unfolding d(1) by auto
  next
    case False
    from remove_option_effect[THEN conjunct2, rule_format, OF this[unfolded d(1)]] obtain A old C where
      r: "ls = A @ old @ C" "remove_option s k (doc_of_lines False ls) = Inr (doc_of_lines False (A @ C), True)"
      "\<forall>s' k'. (s', k') \<noteq> (s, k) \<longrightarrow> cfg_get (doc_of_lines False (A @ C)) s' k' None = cfg_get (doc_of_lines False ls) s' k' None"
      "map fst (snd (tree_of (A @ C))) = map fst (snd (tree_of ls))"
      "clean ls \<longrightarrow> clean (A @ C) \<and> cfg_get (doc_of_lines False (A @ C)) s k None = None"
      by (elim exE conjE) (rule that)
    let ?d' = "doc_of_lines False (A @ C)"
    have nm: "section_names ?d' None = section_names d None \<and> d_dups ?d' = []"
      using r(4) registered_names[of "snd (tree_of (A @ C))" "snd (tree_of ls)" 0 0] d(1,5)
      unfolding section_names_keys d(1) doc_names doc_dups by simp
    have "store_ok ?d'" using r(1,5) d(2,4) nm by (simp add: store_ok_def)
    with r(2,3,5) d(4) nm show ?thesis unfolding d(1) by (intro exI[of _ ?d'] exI[of _ True]) auto
  qed
qed

subsection \<open>The interface, and lists of edits\<close>

text \<open>Setting and removing, in the order the code does it. \<open>edit_of\<close> is what the last edit of a key
  leaves, if there is one.\<close>

datatype edit = Put string cfg_value | Drop string

fun edit_key :: "edit \<Rightarrow> string" where
  "edit_key (Put k v) = k"
| "edit_key (Drop k) = k"

fun edit_text :: "edit \<Rightarrow> string option" where
  "edit_text (Put k v) = Some (value_text v)"
| "edit_text (Drop k) = None"

fun good_edit :: "edit \<Rightarrow> bool" where
  "good_edit (Put k v) = (good_key k \<and> good_value v \<and> file_safe k \<and> list_all file_safe (value_lines v))"
| "good_edit (Drop k) = True"

fun is_put :: "edit \<Rightarrow> bool" where
  "is_put (Put k v) = True"
| "is_put (Drop k) = False"

fun edit_of :: "edit list \<Rightarrow> string \<Rightarrow> string option \<Rightarrow> string option" where
  "edit_of [] k v = v"
| "edit_of (e # es) k v = edit_of es k (if edit_key e = k then edit_text e else v)"

fun run_edits ::
  "(string \<Rightarrow> string \<Rightarrow> cfg_value \<Rightarrow> 'd \<Rightarrow> 'e + 'd) \<Rightarrow> (string \<Rightarrow> string \<Rightarrow> 'd \<Rightarrow> 'e + 'd \<times> bool) \<Rightarrow> string \<Rightarrow> edit list \<Rightarrow>
   'd \<Rightarrow> 'e + 'd" where
  "run_edits put del s [] d = Inr d"
| "run_edits put del s (Put k v # es) d = and_then (put s k v d) (run_edits put del s es)"
| "run_edits put del s (Drop k # es) d = and_then (del s k d) (\<lambda>(d', _). run_edits put del s es d')"

definition good_section :: "string \<Rightarrow> bool" where
  "good_section s = (good_name s \<and> file_safe s)"

lemma edit_of_absent: "k \<notin> edit_key ` set es \<Longrightarrow> edit_of es k v = v"
  by (induction es k v rule: edit_of.induct) auto

lemma edit_of_mem:
  assumes "distinct (map edit_key es)" "e \<in> set es"
  shows "edit_of es (edit_key e) v = edit_text e"
  using assms by (induction es arbitrary: v) (auto simp: edit_of_absent)

locale option_store =
  fixes ok :: "'d \<Rightarrow> bool"
    and lookup :: "'d \<Rightarrow> string \<Rightarrow> string \<Rightarrow> string option"
    and names :: "'d \<Rightarrow> string list"
    and put :: "string \<Rightarrow> string \<Rightarrow> cfg_value \<Rightarrow> 'd \<Rightarrow> 'e + 'd"
    and del :: "string \<Rightarrow> string \<Rightarrow> 'd \<Rightarrow> 'e + 'd \<times> bool"
  assumes put_law: "\<lbrakk>ok d; good_section s; good_edit (Put k v)\<rbrakk> \<Longrightarrow>
      \<exists>d'. put s k v d = Inr d' \<and> ok d' \<and>
        (\<forall>s' k'. lookup d' s' k' = (if s' = s \<and> k' = k then Some (value_text v) else lookup d s' k')) \<and>
        names d' = (if s \<in> set (names d) then names d else names d @ [s])"
    and del_law: "ok d \<Longrightarrow>
      \<exists>d' b. del s k d = Inr (d', b) \<and> ok d' \<and>
        (\<forall>s' k'. lookup d' s' k' = (if s' = s \<and> k' = k then None else lookup d s' k')) \<and> names d' = names d"
begin

lemma run_edits_effect:
  assumes "ok d" "good_section s" "list_all good_edit es"
  shows "\<exists>d'. run_edits put del s es d = Inr d' \<and> ok d' \<and>
    (\<forall>k. lookup d' s k = edit_of es k (lookup d s k)) \<and> (\<forall>s' k. s' \<noteq> s \<longrightarrow> lookup d' s' k = lookup d s' k) \<and>
    names d' = (if s \<in> set (names d) \<or> list_all (\<lambda>e. \<not> is_put e) es then names d else names d @ [s])"
  using assms
proof (induction es arbitrary: d)
  case (Cons e es)
  obtain d1 where d1: "run_edits put del s [e] d = Inr d1" "ok d1"
      "\<forall>s' k'. lookup d1 s' k' = (if s' = s \<and> k' = edit_key e then edit_text e else lookup d s' k')"
      "names d1 = (if s \<in> set (names d) \<or> \<not> is_put e then names d else names d @ [s])"
  proof (cases e)
    case (Put k v)
    with put_law[OF Cons.prems(1,2), of k v] Cons.prems(3) that show ?thesis by auto
  next
    case (Drop k)
    with del_law[OF Cons.prems(1), of s k] that show ?thesis by auto
  qed
  have r: "run_edits put del s (e # es) d = run_edits put del s es d1"
    using d1(1) by (cases e) auto
  have nm: "(if s \<in> set (names d1) \<or> list_all (\<lambda>e. \<not> is_put e) es then names d1 else names d1 @ [s]) =
      (if s \<in> set (names d) \<or> list_all (\<lambda>e. \<not> is_put e) (e # es) then names d else names d @ [s])"
    using d1(4) by (auto split: if_splits)
  from Cons.IH[OF d1(2) Cons.prems(2)] Cons.prems(3) obtain d' where d': "run_edits put del s es d1 = Inr d'" "ok d'"
     "\<forall>k. lookup d' s k = edit_of es k (lookup d1 s k)" "\<forall>s' k. s' \<noteq> s \<longrightarrow> lookup d' s' k = lookup d1 s' k"
     "names d' = (if s \<in> set (names d1) \<or> list_all (\<lambda>e. \<not> is_put e) es then names d1 else names d1 @ [s])" by auto
  have "\<forall>k. lookup d' s k = edit_of (e # es) k (lookup d s k)" using d'(3) d1(3) by auto
  moreover have "\<forall>s' k. s' \<noteq> s \<longrightarrow> lookup d' s' k = lookup d s' k" using d'(4) d1(3) by auto
  ultimately show ?case unfolding r using d'(1,2,5) nm by auto
qed (auto)

text \<open>What a distinct list of edits leaves under each key.\<close>

lemma run_edits_distinct:
  assumes "ok d" "good_section s" "list_all good_edit es" "distinct (map edit_key es)"
  shows "\<exists>d'. run_edits put del s es d = Inr d' \<and> ok d' \<and>
    (\<forall>e \<in> set es. lookup d' s (edit_key e) = edit_text e) \<and>
    (\<forall>k. k \<notin> edit_key ` set es \<longrightarrow> lookup d' s k = lookup d s k) \<and> (\<forall>s' k. s' \<noteq> s \<longrightarrow> lookup d' s' k = lookup d s' k) \<and>
    names d' = (if s \<in> set (names d) \<or> list_all (\<lambda>e. \<not> is_put e) es then names d else names d @ [s])"
  using run_edits_effect[OF assms(1-3)] edit_of_mem[OF assms(4)] edit_of_absent by fastforce

end

lemma has_section_names: "store_ok d \<Longrightarrow> has_section d s \<longleftrightarrow> s \<in> set (section_names d None)"
  by (erule store_okE) (simp only: section_names_keys has_section_def dict_has_iff)

interpretation doc: option_store store_ok "\<lambda>d s k. cfg_get d s k None" "\<lambda>d. section_names d None" set_option remove_option
proof unfold_locales
  fix d s k v assume a: "store_ok d" "good_section s" "good_edit (Put k v)"
  then have "\<exists>d'. set_option s k v d = Inr d' \<and> store_ok d' \<and>
        (\<forall>s' k'. cfg_get d' s' k' None = (if s' = s \<and> k' = k then Some (value_text v) else cfg_get d s' k' None)) \<and>
        section_names d' None = (if has_section d s then section_names d None else section_names d None @ [s])"
    by (intro store_put) (simp_all add: good_section_def)
  then show "\<exists>d'. set_option s k v d = Inr d' \<and> store_ok d' \<and>
        (\<forall>s' k'. cfg_get d' s' k' None = (if s' = s \<and> k' = k then Some (value_text v) else cfg_get d s' k' None)) \<and>
        section_names d' None = (if s \<in> set (section_names d None) then section_names d None else section_names d None @ [s])"
    unfolding has_section_names[OF a(1)] .
qed (rule store_del)

subsection \<open>Dropping a section\<close>

lemma registered_distinct:
  "snd (registered p nodes) = [] \<longleftrightarrow> distinct (map fst nodes)"
proof (induction nodes)
  case (Cons nd rest)
  have k: "dict_has (fst (registered p rest)) x \<longleftrightarrow> x \<in> set (map fst rest)" for x
    unfolding dict_has_iff by (induction rest) (auto simp: register_def section_of_def dict_has_iff)
  from Cons show ?case by (auto simp: register_def section_of_def k)
qed simp

lemma registered_order:
  "distinct (map fst nodes) \<Longrightarrow> dict_keys (fst (registered p nodes)) = rev (map fst nodes)"
proof (induction nodes)
  case (Cons nd rest)
  then show ?case by (simp add: register_def section_of_def dict_has_iff)
qed simp

lemma store_drop:
  assumes "store_ok d"
  shows "\<exists>d'. remove_section s d = Inr (d', has_section d s) \<and> store_ok d' \<and>
    (\<forall>s' k. cfg_get d' s' k None = (if s' = s then None else cfg_get d s' k None)) \<and>
    section_names d' None = filter (\<lambda>n. n \<noteq> s) (section_names d None)"
proof (cases "dict_get (d_sections d) s")
  case None
  then have h: "\<not> has_section d s" by (simp add: has_section_def dict_has_get)
  with has_section_names[OF assms] have "filter (\<lambda>n. n \<noteq> s) (section_names d None) = section_names d None"
    by (simp add: filter_id_conv) blast
  with None assms h show ?thesis by (auto simp: remove_section_def cfg_get_def)
next
  case (Some sec)
  from assms(1) obtain ls where d: "d = doc_of_lines False ls" "all_chars file_char ls" "\<forall>l \<in> set ls. no_nl l" "clean ls" "d_dups d = []"
    by (rule store_okE)
  from sections_of_doc[OF Some[unfolded d(1)]] obtain pre later h its earlier where
    t: "tree_of ls = (pre, later @ (s, h, its) # earlier)" and sn: "s \<notin> fst ` set earlier"
    and sec: "sec = section_of (length pre + length (flat_nodes earlier)) (s, h, its) its" by blast
  let ?A = "pre @ flat_nodes earlier" and ?C = "flat_nodes later"
  have ls: "ls = ?A @ (h # body its) @ ?C" using tree_flat[OF t] by simp
  have idx: "cs_header sec = length ?A" "cs_end sec = length ?A + length (h # body its)"
    by (simp_all add: sec section_of_def)
  have stop: "\<not> (cs_end sec < length ls \<and> is_blank (ls ! cs_end sec))"
  proof
    assume a: "cs_end sec < length ls \<and> is_blank (ls ! cs_end sec)"
    with section_ends_at_header[OF Some[unfolded d(1)]] have "match_section (ls ! cs_end sec) \<noteq> None" by simp
    with a show False by (auto simp: match_section_def is_blank_def strip_eq_Nil Let_def is_space_def split: list.splits if_splits)
  qed
  have r: "remove_section s d = Inr (doc_of_lines False (?A @ ?C), True)"
  proof -
    have sp: "splice (cs_header sec) (cs_end sec) [] (doc_of_lines False ls) = Inr (doc_of_lines False (?A @ ?C))"
      using splice_doc[of ?A "h # body its" "[]" ?C] unfolding ls[symmetric] idx by simp
    then have "(if cs_end sec < length ls \<and> is_blank (ls ! cs_end sec) then cs_end sec + 1 else cs_end sec) = cs_end sec"
      using stop by (rule_tac if_not_P)
    then show ?thesis unfolding remove_section_def Some option.case Let_def unfolding d(1) doc_fields by (simp only: sp and_then_simps)
  qed
  have wf: "wf_tree (pre, later @ earlier)" using wf_tree_of[of ls] t by (auto simp: wf_tree_def)
  from reparse[OF wf] have t': "tree_of (?A @ ?C) = (pre, later @ earlier)" by (simp add: flat_def flat_append)
  have dist: "distinct (map fst (later @ (s, h, its) # earlier))"
    using d(5) registered_distinct[of 0 "snd (tree_of ls)"] unfolding d(1) doc_dups t by simp
  then have sl: "s \<notin> fst ` set later" by auto
  have dist': "distinct (map fst (later @ earlier))" using dist by auto
  have "store_ok (doc_of_lines False (?A @ ?C))"
  proof -
    have "clean (?A @ ?C)" using d(4) unfolding clean_def t' t by auto
    moreover have "all_chars file_char (?A @ ?C)" using d(2) by (subst (asm) ls) simp
    moreover have "d_dups (doc_of_lines False (?A @ ?C)) = []"
      unfolding doc_dups t' snd_conv registered_distinct by (rule dist')
    ultimately show ?thesis unfolding store_ok_def doc_fields by blast
  qed
  moreover have "cfg_get (doc_of_lines False (?A @ ?C)) s' k None = (if s' = s then None else cfg_get d s' k None)" for s' k
  proof (cases "s' = s")
    case True
    have "map_of (contents (later @ earlier)) s = None"
      using sn sl contents_keys[of "later @ earlier"] by (auto simp: map_of_eq_None_iff)
    with True show ?thesis unfolding cfg_get_tree t' by (simp add: lookup2_def)
  next
    case False
    then show ?thesis unfolding d(1) cfg_get_tree t' t snd_conv lookup2_node[OF sn] by (simp add: contents_append)
  qed
  moreover have "section_names (doc_of_lines False (?A @ ?C)) None = filter (\<lambda>n. n \<noteq> s) (section_names d None)"
  proof -
    have f: "filter (\<lambda>n. n \<noteq> s) (rev (map fst nds)) = rev (map fst nds)" if "s \<notin> fst ` set nds" for nds :: "cfg_node list"
      using that by (subst filter_id_conv) force
    show ?thesis using registered_order[OF dist', of 0] registered_order[OF dist, of 0] f[OF sn] f[OF sl]
      unfolding d(1) section_names_keys doc_names t' t by simp
  qed
  ultimately show ?thesis using r Some by (auto simp: has_section_def dict_has_get)
qed

subsection \<open>Saving a store and loading it\<close>

text \<open>What a reader of a document can tell: its sections, in order, and their options.\<close>

definition same_view :: "cfg_doc \<Rightarrow> cfg_doc \<Rightarrow> bool" where
  "same_view d d' = (section_names d None = section_names d' None \<and> (\<forall>s k. cfg_get d s k None = cfg_get d' s k None))"

lemma contents_values:
  "map (\<lambda>nd. (fst nd, values_of (snd (snd nd)))) nodes = map (\<lambda>nd. (fst nd, values_of (snd (snd nd)))) nodes' \<Longrightarrow>
   contents nodes = contents nodes'"
proof -
  have c: "contents nds = rev (map (\<lambda>nd. (fst nd, values_of (snd (snd nd)))) nds)" for nds
    by (induction nds rule: contents.induct) simp_all
  assume "map (\<lambda>nd. (fst nd, values_of (snd (snd nd)))) nodes = map (\<lambda>nd. (fst nd, values_of (snd (snd nd)))) nodes'"
  then show ?thesis unfolding c by simp
qed

lemma last_blank_gone:
  assumes "ls = ls' @ [[]]"
  shows "same_view (doc_of_lines f ls) (doc_of_lines g ls')" "clean ls \<longleftrightarrow> clean ls'"
    "d_dups (doc_of_lines f ls) = d_dups (doc_of_lines g ls')"
proof -
  let ?gap = "[[]] :: string list"
  have i: "map (\<lambda>nd. (fst nd, values_of (snd (snd nd)))) (snd (tree_of ls)) = map (\<lambda>nd. (fst nd, values_of (snd (snd nd)))) (snd (tree_of ls'))"
    using gap_items[of ?gap ls'] assms by simp
  have n: "map fst (snd (tree_of ls)) = map fst (snd (tree_of ls'))" using names_gap[of ?gap ls'] assms by simp
  from registered_names[OF n, of 0 0] contents_values[OF i]
  show "same_view (doc_of_lines f ls) (doc_of_lines g ls')" "d_dups (doc_of_lines f ls) = d_dups (doc_of_lines g ls')"
    unfolding same_view_def section_names_keys doc_names doc_dups cfg_get_tree by simp_all
  show "clean ls \<longleftrightarrow> clean ls'" using once_gap[of ?gap ls'] assms by (simp add: clean_def)
qed

lemma render_blank_last: "render_doc (doc_of_lines f (ls @ [[]])) = (if ls = [] then [] else concat (map (\<lambda>l. l @ [nl]) ls))"
proof -
  have j: "join [nl] (ls @ [[]]) = concat (map (\<lambda>l. l @ [nl]) ls)" if "ls \<noteq> []"
    using that by (induction "[nl]" ls rule: join.induct) auto
  have "concat (map (\<lambda>l. l @ [nl]) ls) \<noteq> [] \<and> last (concat (map (\<lambda>l. l @ [nl]) ls)) = nl" if "ls \<noteq> []"
    using that by (induction ls rule: rev_induct) auto
  with j show ?thesis by (cases "ls = []") (simp_all add: render_doc_def)
qed

lemma store_reload:
  assumes "store_ok d"
  shows "store_ok (parse_doc (render_doc d)) \<and> same_view (parse_doc (render_doc d)) d"
proof -
  from assms obtain ls where d: "d = doc_of_lines False ls" "all_chars file_char ls" "clean ls" "d_dups d = []"
    by (rule store_okE)
  have ch: "\<forall>l \<in> set ls. \<forall>c \<in> set l. \<not> is_linebreak c" using d(2) by (simp add: all_chars_def file_char_def)
  show ?thesis
  proof (cases ls rule: rev_cases)
    case Nil
    then have "parse_doc (render_doc d) = d" by (simp add: d(1) render_doc_def parse_doc_def)
    with assms show ?thesis by (simp add: same_view_def)
  next
    case (snoc ls' l)
    show ?thesis
    proof (cases "l = []")
      case False
      then have l: "ls \<noteq> []" "last ls \<noteq> []" using snoc by simp_all
      have "parse_doc (render_doc d) = d" unfolding d(1) by (rule saved_lines[OF ch l, THEN conjunct2])
      with assms show ?thesis by (simp add: same_view_def)
    next
      case True
      with snoc have ls: "ls = ls' @ [[]]" by simp
      have "parse_doc (render_doc d) = doc_of_lines False ls'"
        using render_blank_last[of False ls'] splitlines_saved[of ls'] ch by (simp add: d(1) ls parse_doc_def)
      moreover have "store_ok (doc_of_lines False ls')"
        using last_blank_gone(2)[OF ls] last_blank_gone(3)[OF ls, of False False] d ls by (simp add: store_ok_def)
      moreover have "same_view (doc_of_lines False ls') d"
        using last_blank_gone(1)[OF ls, of False False] by (simp add: d(1) same_view_def)
      ultimately show ?thesis by simp
    qed
  qed
qed

end
