(* ===== verification/TypeList.thy ===== *)
theory TypeList
  imports CfgStore Families
begin

section \<open>The declared types of a document (sections.py, firmware.py, typelist.py)\<close>

text \<open>
  One walk over the \<open>[type ...]\<close> sections, whatever builds them: \<open>read_types\<close> never fails,
  \<open>validate_types\<close> refuses what it let through. A \<open>Block\<close> is a section of the document it came from,
  so a \<open>type_entry\<close> keeps the section's name. What the file system says of the config file
  (an unreadable file, no file, its text) is an argument.
\<close>

subsection \<open>Sections and families\<close>

definition TYPE_PREFIX :: string where "TYPE_PREFIX = ''type''"
definition FIRMWARE_PREFIX :: string where "FIRMWARE_PREFIX = ''firmware''"

definition named_sections :: "string \<Rightarrow> cfg_doc \<Rightarrow> (string \<times> string) list" where
  "named_sections prefix d =
     filter (\<lambda>(name, sec). name \<noteq> [])
       (map (\<lambda>sec. (strip (drop (length prefix) sec), sec)) (section_names d (Some prefix)))"

definition type_sections :: "cfg_doc \<Rightarrow> (string \<times> string) list" where
  "type_sections d = named_sections TYPE_PREFIX d"

definition section_for :: "cfg_doc \<Rightarrow> string \<Rightarrow> string" where
  "section_for d name =
     (case find (\<lambda>(n, sec). n = name) (type_sections d) of
        Some (n, sec) \<Rightarrow> sec
      | None \<Rightarrow> TYPE_PREFIX @ '' '' @ name)"

text \<open>\<open>(doc.get(section, key) or "").strip()\<close>, and \<open>bool(parse_bool(...))\<close>.\<close>

definition get_text :: "cfg_doc \<Rightarrow> string \<Rightarrow> string \<Rightarrow> string" where
  "get_text d sec key = (case cfg_get d sec key None of None \<Rightarrow> [] | Some v \<Rightarrow> strip v)"

definition get_flag :: "cfg_doc \<Rightarrow> string \<Rightarrow> string \<Rightarrow> bool \<Rightarrow> bool" where
  "get_flag d sec key dflt = (parse_bool (cfg_get d sec key None) (Some dflt) = Some True)"

definition csv_or_empty :: "cfg_doc \<Rightarrow> string \<Rightarrow> string \<Rightarrow> string list" where
  "csv_or_empty d sec key = (case get_csv d sec key of None \<Rightarrow> [] | Some xs \<Rightarrow> xs)"

definition family_of_section :: "cfg_doc \<Rightarrow> string \<Rightarrow> string \<Rightarrow> family" where
  "family_of_section d name sec =
     \<lparr>fam_name = name, fam_source = get_text d sec ''source'', fam_artifact = get_text d sec ''artifact'',
      fam_builder = (let b = get_text d sec ''builder'' in if b = [] then DEFAULT_BUILDER else b),
      fam_cmake_args = get_text d sec ''cmake_args'', fam_helper = get_text d sec ''helper'',
      fam_flashers = csv_or_empty d sec ''flashers'', fam_submodules = get_flag d sec ''submodules'' False,
      fam_bootloader = get_flag d sec ''bootloader'' (name = ''katapult''),
      fam_auto_provision = get_flag d sec ''auto_provision'' False,
      fam_stop_services = get_csv d sec ''stop_services''\<rparr>"

definition load_families :: "cfg_doc \<Rightarrow> families" where
  "load_families d =
     foldl (\<lambda>out (name, sec). dict_set out name (family_of_section d name sec)) [] (named_sections FIRMWARE_PREFIX d)"

subsection \<open>Entries\<close>

record type_entry =
  te_name :: string
  te_section :: string
  te_firmwares :: "string list"
  te_chipset :: string
  te_serials :: "string list"
  te_canbus_uuids :: "string list"
  te_stop_services :: "string list option"
  te_builders :: "string list"

definition te_builder :: "type_entry \<Rightarrow> string" where
  "te_builder e = (case te_builders e of [] \<Rightarrow> [] | b # _ \<Rightarrow> b)"

definition block_has :: "cfg_doc \<Rightarrow> type_entry \<Rightarrow> string \<Rightarrow> bool" where
  "block_has d e key = (key \<in> set (options_of d (te_section e)))"

definition builder_of :: "families \<Rightarrow> string \<Rightarrow> string" where
  "builder_of fams fw = (case dict_get fams fw of Some f \<Rightarrow> fam_builder f | None \<Rightarrow> [])"

definition read_entry :: "cfg_doc \<Rightarrow> families \<Rightarrow> string \<times> string \<Rightarrow> type_entry" where
  "read_entry d fams ns =
     (case ns of (name, sec) \<Rightarrow>
        (let fws = csv_or_empty d sec ''firmware'' in
         \<lparr>te_name = name, te_section = sec, te_firmwares = fws, te_chipset = get_text d sec ''chipset'',
          te_serials = get_list d sec ''serials'', te_canbus_uuids = get_list d sec ''canbus_uuids'',
          te_stop_services = get_csv d sec ''stop_services'', te_builders = map (builder_of fams) fws\<rparr>))"

definition read_types :: "cfg_doc \<Rightarrow> families \<Rightarrow> type_entry list" where
  "read_types d fams = map (read_entry d fams) (type_sections d)"

subsection \<open>What is refused\<close>

datatype types_error =
    Unreadable string
  | DuplicateSections "string list"
  | UnknownBuilders "(string \<times> string) list"
  | NoFlashers "string list"
  | UnknownFlashers "(string \<times> string list) list"
  | CannotProvision "string list"
  | RenamedKey string string
  | RemovedKey string string
  | NoFirmware string
  | MixedBuilders string "string list"
  | MissingFamilies "(string \<times> string list) list"
  | BadPatch string string

definition RENAMED_KEYS :: "(string \<times> string) list" where
  "RENAMED_KEYS = [(''env'', ''platformio_env''), (''profile'', ''kconfig_make_profile''),
     (''device_map'', ''knomi_serial_device_map'')]"

definition REMOVED_KEYS :: "string list" where "REMOVED_KEYS = [''klipper_section'']"

definition refuse_renamed_keys :: "cfg_doc \<Rightarrow> type_entry \<Rightarrow> types_error + unit" where
  "refuse_renamed_keys d e =
     (case find (\<lambda>(old, new). block_has d e old) RENAMED_KEYS of
        Some (old, new) \<Rightarrow> Inl (RenamedKey (te_name e) old)
      | None \<Rightarrow>
          (case find (block_has d e) REMOVED_KEYS of
             Some gone \<Rightarrow> Inl (RemovedKey (te_name e) gone)
           | None \<Rightarrow> Inr ()))"

definition refuse_family_keys :: "families \<Rightarrow> types_error + unit" where
  "refuse_family_keys fams =
     (let no_flashers = map fst (filter (\<lambda>(n, f). fam_flashers f = []) fams);
          unknown = filter (\<lambda>(n, bad). bad \<noteq> [])
            (map (\<lambda>(n, f). (fam_name f, filter (\<lambda>x. x \<notin> set FLASHER_NAMES) (fam_flashers f))) fams);
          cannot = map fst (filter (\<lambda>(n, f). fam_auto_provision f \<and> fam_helper f \<notin> set PROVISIONING_HELPERS) fams) in
      if no_flashers \<noteq> [] then Inl (NoFlashers no_flashers)
      else if unknown \<noteq> [] then Inl (UnknownFlashers unknown)
      else if cannot \<noteq> [] then Inl (CannotProvision cannot)
      else Inr ())"

text \<open>The walk over the entries; \<open>missing\<close> collects the undeclared families of each type.\<close>

fun check_entries ::
  "cfg_doc \<Rightarrow> families \<Rightarrow> (string, string list) dict \<Rightarrow> type_entry list \<Rightarrow> types_error + (string, string list) dict" where
  "check_entries d fams missing [] = Inr missing"
| "check_entries d fams missing (e # es) =
     and_then (refuse_renamed_keys d e) (\<lambda>_.
       if te_firmwares e = [] then Inl (NoFirmware (te_name e))
       else
         (let bad = filter (\<lambda>fw. \<not> dict_has fams fw) (te_firmwares e);
              missing' = (if bad = [] then missing
                else dict_set missing (te_name e) ((case dict_get missing (te_name e) of None \<Rightarrow> [] | Some x \<Rightarrow> x) @ bad));
              builders = sort (dedup (filter (\<lambda>b. b \<noteq> []) (te_builders e))) in
          if length builders > 1 then Inl (MixedBuilders (te_name e) builders)
          else check_entries d fams missing' es))"

definition validate_types :: "cfg_doc \<Rightarrow> type_entry list \<Rightarrow> families \<Rightarrow> types_error + unit" where
  "validate_types d es fams =
     (let unknown_builders = map (\<lambda>(n, f). (n, fam_builder f)) (filter (\<lambda>(n, f). fam_builder f \<notin> set BUILDERS) fams) in
      if unknown_builders \<noteq> [] then Inl (UnknownBuilders unknown_builders)
      else and_then (refuse_family_keys fams) (\<lambda>_.
        and_then (check_entries d fams [] es) (\<lambda>missing.
          if missing \<noteq> [] then Inl (MissingFamilies (map (\<lambda>(n, fws). (n, dedup fws)) missing)) else Inr ())))"

subsection \<open>Reading the file\<close>

text \<open>\<open>Inl\<close> is an \<open>OSError\<close>, \<open>None\<close> no file. The snapshot hands out a frozen parse, a writer gets its own.\<close>

definition read_doc :: "string + string option \<Rightarrow> bool \<Rightarrow> types_error + cfg_doc option" where
  "read_doc file_text fresh =
     (case file_text of
        Inl e \<Rightarrow> Inl (Unreadable e)
      | Inr None \<Rightarrow> Inr None
      | Inr (Some text) \<Rightarrow>
          (let d = (if fresh then parse_doc text else freeze (parse_doc text)) in
           if d_dups d \<noteq> [] then Inl (DuplicateSections (d_dups d)) else Inr (Some d)))"

definition read_config :: "string + string option \<Rightarrow> type_entry list \<times> families" where
  "read_config file_text =
     (case file_text of
        Inr (Some text) \<Rightarrow>
          (let d = freeze (parse_doc text); fams = load_families d in (read_types d fams, fams))
      | _ \<Rightarrow> ([], []))"

definition load_types :: "string + string option \<Rightarrow> types_error + type_entry list" where
  "load_types file_text =
     and_then (read_doc file_text False) (\<lambda>doc.
       case doc of
         None \<Rightarrow> Inr []
       | Some d \<Rightarrow>
           (let fams = load_families d; es = read_types d fams in
            and_then (validate_types d es fams) (\<lambda>_. Inr es)))"

subsection \<open>What the walk depends on\<close>

text \<open>Two documents with the same sections and the same options are read, and refused, alike.\<close>

lemma view_gets:
  assumes "same_view d d'"
  shows "cfg_get d s k None = cfg_get d' s k None" "get_text d s k = get_text d' s k"
    "get_flag d s k b = get_flag d' s k b" "csv_or_empty d s k = csv_or_empty d' s k"
    "get_list d s k = get_list d' s k" "get_csv d s k = get_csv d' s k"
    "section_names d None = section_names d' None"
proof -
  show g: "cfg_get d s k None = cfg_get d' s k None" "section_names d None = section_names d' None"
    using assms by (simp_all add: same_view_def)
  show "get_text d s k = get_text d' s k" "get_flag d s k b = get_flag d' s k b"
    "csv_or_empty d s k = csv_or_empty d' s k" "get_list d s k = get_list d' s k" "get_csv d s k = get_csv d' s k"
    by (simp_all add: get_text_def get_flag_def csv_or_empty_def get_list_def get_csv_def g)
qed

lemma named_sections_names:
  "named_sections p d = filter (\<lambda>(name, sec). name \<noteq> [])
     (map (\<lambda>sec. (strip (drop (length p) sec), sec)) (filter (\<lambda>n. n = p \<or> starts_with (p @ '' '') n) (section_names d None)))"
  by (simp add: named_sections_def section_names_def)

lemma view_sections: "same_view d d' \<Longrightarrow> named_sections p d = named_sections p d'"
  by (simp add: named_sections_names same_view_def)

lemma has_option: "key \<in> set (options_of d s) \<longleftrightarrow> cfg_get d s key None \<noteq> None"
proof (cases "dict_get (d_sections d) s")
  case (Some sec)
  then show ?thesis using dict_has_iff[of "cs_options sec" key]
    by (cases "dict_get (cs_options sec) key") (simp_all add: options_of_def cfg_get_def dict_has_def)
qed (simp add: options_of_def cfg_get_def)

lemma view_types:
  assumes "same_view d d'"
  shows "load_families d = load_families d'" "read_types d fams = read_types d' fams"
    "type_sections d = type_sections d'" "section_for d name = section_for d' name"
proof -
  show t: "type_sections d = type_sections d'" using view_sections[OF assms] by (simp add: type_sections_def)
  have "family_of_section d = family_of_section d'"
    by (intro ext) (simp add: family_of_section_def view_gets[OF assms])
  then show "load_families d = load_families d'" by (simp add: load_families_def view_sections[OF assms])
  have "read_entry d fams = read_entry d' fams"
    by (intro ext) (auto simp: read_entry_def view_gets[OF assms])
  then show "read_types d fams = read_types d' fams" by (simp add: read_types_def t)
  show "section_for d name = section_for d' name" by (simp add: section_for_def t)
qed

lemma view_refused:
  assumes "same_view d d'"
  shows "validate_types d es fams = validate_types d' es fams"
proof -
  have b: "block_has d = block_has d'"
    by (intro ext) (simp add: block_has_def has_option view_gets(1)[OF assms])
  have "refuse_renamed_keys d = refuse_renamed_keys d'" unfolding refuse_renamed_keys_def b ..
  then have "check_entries d fams missing es = check_entries d' fams missing es" for missing
    by (induction es arbitrary: missing) (simp_all add: Let_def)
  then show ?thesis by (simp add: validate_types_def)
qed

lemmas view_simps = view_gets view_types view_refused

end
