(* ===== verification/Registry.thy ===== *)
theory Registry
  imports TypeList LockFile
begin

section \<open>The registry: boards by type, over the hand-edited document (config.py)\<close>

text \<open>
  A \<open>Registry\<close> is the kconfig types of the document and the document itself. Reading is
  \<open>registry_of_doc\<close>; \<open>registry_save\<close> turns every type into edits of its own section; \<open>registry_mutate\<close> is
  one load, change and save under the registry's own lock. A raise anywhere leaves the file as it
  was: only \<open>Inr\<close> carries a text to write.
\<close>

datatype id_kind = SerialId | UuidId

datatype registry_error =
    TypesRefused types_error
  | EditRefused edit_error
  | UnknownType string "string list"
  | DuplicateType string string
  | BadTypeName name_error
  | UndeclaredFamily string string
  | TrackedElsewhere id_kind string string "string list"
  | UnknownId id_kind string "string option"
  | AmbiguousId id_kind string "string list"
  | RegistryBusy "lock_record option"

record registry =
  rg_types :: "(string, mcu_type) dict"
  rg_doc :: cfg_doc

definition empty_doc :: cfg_doc where "empty_doc = parse_doc []"

subsection \<open>Reading\<close>

fun parse_patches :: "string \<Rightarrow> string list \<Rightarrow> types_error + makefile_patch list" where
  "parse_patches name [] = Inr []"
| "parse_patches name (raw # raws) =
     (case patch_parse raw of
        None \<Rightarrow> Inl (BadPatch name raw)
      | Some p \<Rightarrow> and_then (parse_patches name raws) (\<lambda>ps. Inr (p # ps)))"

text \<open>\<open>mcu.fw(fw)\<close> is the slot already there, so a family named twice gets its patches twice.\<close>

fun read_fws ::
  "cfg_doc \<Rightarrow> string \<Rightarrow> string \<Rightarrow> (string, fw_config) dict \<Rightarrow> string list \<Rightarrow> types_error + (string, fw_config) dict" where
  "read_fws d sec name fws [] = Inr fws"
| "read_fws d sec name fws (fw # rest) =
     (let slot = (case dict_get fws fw of Some c \<Rightarrow> c | None \<Rightarrow> empty_fw_config) in
      and_then (parse_patches name (get_list d sec (fw @ ''_makefile_patches''))) (\<lambda>ps.
        read_fws d sec name
          (dict_set fws fw \<lparr>extra_args = get_text d sec (fw @ ''_extra_args''),
             makefile_patches = makefile_patches slot @ ps, extra_repos = get_list d sec (fw @ ''_extra_repos'')\<rparr>)
          rest))"

definition read_mcu :: "cfg_doc \<Rightarrow> type_entry \<Rightarrow> types_error + mcu_type" where
  "read_mcu d e =
     and_then (read_fws d (te_section e) (te_name e) [] (te_firmwares e)) (\<lambda>fws.
       Inr \<lparr>mt_name = te_name e, mt_chipset = te_chipset e, mt_serials = te_serials e,
         mt_canbus_uuids = te_canbus_uuids e, mt_fws = fws, mt_firmwares = te_firmwares e,
         mt_profile = get_text d (te_section e) ''kconfig_make_profile'',
         mt_stop_services = get_csv d (te_section e) ''stop_services''\<rparr>)"

fun read_mcus ::
  "cfg_doc \<Rightarrow> (string, mcu_type) dict \<Rightarrow> type_entry list \<Rightarrow> types_error + (string, mcu_type) dict" where
  "read_mcus d types [] = Inr types"
| "read_mcus d types (e # es) =
     (if te_builder e \<noteq> ''kconfig_make'' then read_mcus d types es
      else and_then (read_mcu d e) (\<lambda>m. read_mcus d (dict_set types (te_name e) m) es))"

definition registry_of_doc :: "cfg_doc option \<Rightarrow> types_error + registry" where
  "registry_of_doc doc =
     (case doc of
        None \<Rightarrow> Inr \<lparr>rg_types = [], rg_doc = empty_doc\<rparr>
      | Some d \<Rightarrow>
          (let fams = load_families d; es = read_types d fams in
           and_then (validate_types d es fams) (\<lambda>_.
             and_then (read_mcus d [] es) (\<lambda>types. Inr \<lparr>rg_types = types, rg_doc = d\<rparr>))))"

definition registry_load :: "string + string option \<Rightarrow> types_error + registry" where
  "registry_load file_text = and_then (read_doc file_text False) registry_of_doc"

subsection \<open>Writing\<close>

definition fw_edits :: "mcu_type \<Rightarrow> string \<Rightarrow> edit list" where
  "fw_edits m fw =
     (let cfg = dict_get (mt_fws m) fw;
          args = (case cfg of None \<Rightarrow> [] | Some c \<Rightarrow> strip (extra_args c));
          valid = filter patch_valid (case cfg of None \<Rightarrow> [] | Some c \<Rightarrow> makefile_patches c);
          repos = (case cfg of None \<Rightarrow> [] | Some c \<Rightarrow> extra_repos c) in
      [if args \<noteq> [] then Put (fw @ ''_extra_args'') (VStr args) else Drop (fw @ ''_extra_args''),
       if valid \<noteq> [] then Put (fw @ ''_makefile_patches'') (VList (map patch_render valid)) else Drop (fw @ ''_makefile_patches''),
       if repos \<noteq> [] then Put (fw @ ''_extra_repos'') (VList repos) else Drop (fw @ ''_extra_repos'')])"

definition type_edits :: "string list \<Rightarrow> mcu_type \<Rightarrow> edit list" where
  "type_edits fw_names m =
     [Put ''chipset'' (VStr (mt_chipset m)),
      Put ''serials'' (VList (mt_serials m)),
      if mt_canbus_uuids m \<noteq> [] then Put ''canbus_uuids'' (VList (mt_canbus_uuids m)) else Drop ''canbus_uuids'',
      Put ''firmware'' (VStr (join '', '' (mt_firmwares m))),
      if strip (mt_profile m) \<noteq> [] then Put ''kconfig_make_profile'' (VStr (strip (mt_profile m))) else Drop ''kconfig_make_profile'',
      case mt_stop_services m of None \<Rightarrow> Drop ''stop_services'' | Some s \<Rightarrow> Put ''stop_services'' (VStr (join '', '' s)),
      Drop ''katapult_installed''] @
     concat (map (fw_edits m) (dedup (dict_keys (mt_fws m) @ fw_names)))"

fun save_types :: "string list \<Rightarrow> (string \<times> mcu_type) list \<Rightarrow> cfg_doc \<Rightarrow> edit_error + cfg_doc" where
  "save_types fw_names [] d = Inr d"
| "save_types fw_names ((name, m) # ts) d =
     and_then (run_edits set_option remove_option (section_for d name) (type_edits fw_names m) d) (save_types fw_names ts)"

definition registry_save :: "registry \<Rightarrow> registry_error + registry \<times> string" where
  "registry_save rg =
     (let fams = load_families (rg_doc rg) in
      and_then (map_sum EditRefused id (save_types (names_of fams) (rg_types rg) (rg_doc rg))) (\<lambda>d.
        and_then (map_sum TypesRefused id (validate_types d (read_types d fams) fams)) (\<lambda>_.
          Inr (rg\<lparr>rg_doc := d\<rparr>, render_doc d))))"

definition registry_mutate ::
  "string + string option \<Rightarrow> (registry \<Rightarrow> registry_error + registry \<times> 'a) \<Rightarrow> registry_error + string \<times> 'a" where
  "registry_mutate file_text change =
     and_then (map_sum TypesRefused id (and_then (read_doc file_text True) registry_of_doc)) (\<lambda>rg.
       and_then (change rg) (\<lambda>(rg', x).
         and_then (registry_save rg') (\<lambda>(_, text). Inr (text, x))))"

text \<open>The same under the registry's lock file, which is only held for this.\<close>

definition locked_mutate ::
  "nat \<Rightarrow> int \<Rightarrow> string \<Rightarrow> json \<Rightarrow> (registry \<Rightarrow> registry_error + registry \<times> 'a) \<Rightarrow>
   lock_file \<times> string option \<Rightarrow> (lock_file \<times> string option) \<times> (registry_error + 'a)" where
  "locked_mutate me pid label now change s =
     (case acquire me pid label now (fst s) of
        Inl (Busy r) \<Rightarrow> (s, Inl (RegistryBusy r))
      | Inr l \<Rightarrow>
          (case registry_mutate (Inr (snd s)) change of
             Inl e \<Rightarrow> ((release me l, snd s), Inl e)
           | Inr (text, x) \<Rightarrow> ((release me l, Some text), Inr x)))"

subsection \<open>Lookups\<close>

definition registry_names :: "registry \<Rightarrow> string list" where
  "registry_names rg = sort (dict_keys (rg_types rg))"

definition declared_type_names :: "registry \<Rightarrow> string list" where
  "declared_type_names rg = sort (map fst (type_sections (rg_doc rg)))"

definition declared_section :: "registry \<Rightarrow> string \<Rightarrow> registry_error + string" where
  "declared_section rg name =
     (case find (\<lambda>(n, sec). n = name) (type_sections (rg_doc rg)) of
        Some (n, sec) \<Rightarrow> Inr sec
      | None \<Rightarrow> Inl (UnknownType name (declared_type_names rg)))"

definition get_declared_chipset :: "registry \<Rightarrow> string \<Rightarrow> registry_error + string" where
  "get_declared_chipset rg name =
     (case dict_get (rg_types rg) name of
        Some m \<Rightarrow> Inr (mt_chipset m)
      | None \<Rightarrow> and_then (declared_section rg name) (\<lambda>sec. Inr (get_text (rg_doc rg) sec ''chipset'')))"

definition registry_get :: "registry \<Rightarrow> string \<Rightarrow> registry_error + mcu_type" where
  "registry_get rg name =
     (case dict_get (rg_types rg) name of Some m \<Rightarrow> Inr m | None \<Rightarrow> Inl (UnknownType name (registry_names rg)))"

definition all_serials :: "registry \<Rightarrow> string list" where
  "all_serials rg = dedup (concat (map (mt_serials \<circ> snd) (rg_types rg)))"

definition find_types_for_serial :: "registry \<Rightarrow> string \<Rightarrow> string list" where
  "find_types_for_serial rg serial = map fst (filter (\<lambda>(n, m). serial \<in> set (mt_serials m)) (rg_types rg))"

definition find_types_for_uuid :: "registry \<Rightarrow> string \<Rightarrow> string list" where
  "find_types_for_uuid rg uuid = map fst (filter (\<lambda>(n, m). uuid \<in> set (mt_canbus_uuids m)) (rg_types rg))"

definition declared_with :: "registry \<Rightarrow> string \<Rightarrow> string \<Rightarrow> string list" where
  "declared_with rg key ident =
     map fst (filter (\<lambda>(n, sec). ident \<in> set (get_list (rg_doc rg) sec key)) (type_sections (rg_doc rg)))"

definition find_declared_types_for_serial :: "registry \<Rightarrow> string \<Rightarrow> string list" where
  "find_declared_types_for_serial rg serial = declared_with rg ''serials'' serial"

definition find_declared_types_for_uuid :: "registry \<Rightarrow> string \<Rightarrow> string list" where
  "find_declared_types_for_uuid rg uuid = declared_with rg ''canbus_uuids'' uuid"

text \<open>The three \<open>resolve\<close> methods share one shape: \<open>own\<close> is what the named type tracks, \<open>found\<close> the types
  that track the identity.\<close>

definition resolve_id ::
  "id_kind \<Rightarrow> (string \<Rightarrow> registry_error + string list) \<Rightarrow> string list \<Rightarrow> string \<Rightarrow> string option \<Rightarrow> registry_error + string" where
  "resolve_id ik own found ident mcu_type =
     (case mcu_type of
        Some t \<Rightarrow>
          and_then (own t) (\<lambda>ids.
            if ident \<in> set ids then Inr t
            else if found \<noteq> [] then Inl (TrackedElsewhere ik ident t found)
            else Inl (UnknownId ik ident (Some t)))
      | None \<Rightarrow>
          (if found = [] then Inl (UnknownId ik ident None)
           else if length found > 1 then Inl (AmbiguousId ik ident (sort found))
           else Inr (hd found)))"

definition resolve_serial :: "registry \<Rightarrow> string \<Rightarrow> string option \<Rightarrow> registry_error + string" where
  "resolve_serial rg serial mcu_type =
     resolve_id SerialId (\<lambda>t. map_sum id mt_serials (registry_get rg t)) (find_types_for_serial rg serial) serial mcu_type"

definition resolve_declared_serial :: "registry \<Rightarrow> string \<Rightarrow> string option \<Rightarrow> registry_error + string" where
  "resolve_declared_serial rg serial mcu_type =
     resolve_id SerialId (\<lambda>t. map_sum id (\<lambda>sec. get_list (rg_doc rg) sec ''serials'') (declared_section rg t))
       (find_declared_types_for_serial rg serial) serial mcu_type"

definition resolve_uuid :: "registry \<Rightarrow> string \<Rightarrow> string option \<Rightarrow> registry_error + string" where
  "resolve_uuid rg uuid mcu_type =
     resolve_id UuidId (\<lambda>t. map_sum id mt_canbus_uuids (registry_get rg t)) (find_types_for_uuid rg uuid) uuid mcu_type"

subsection \<open>Changes\<close>

definition add_type ::
  "registry \<Rightarrow> string \<Rightarrow> string \<Rightarrow> string \<Rightarrow> string \<Rightarrow> bool \<Rightarrow> string \<Rightarrow> string \<Rightarrow> bool \<Rightarrow> registry_error + registry \<times> mcu_type" where
  "add_type rg name chipset klipper_args katapult_args katapult_installed application profile overwrite =
     and_then (map_sum BadTypeName id (validate_type_name name)) (\<lambda>_.
       if dict_get (rg_types rg) name = None \<and> name \<in> set (declared_type_names rg)
       then (let fams = load_families (rg_doc rg) in
         Inl (DuplicateType name (case find (\<lambda>e. te_name e = name) (read_types (rg_doc rg) fams) of
           Some e \<Rightarrow> te_builder e | None \<Rightarrow> [])))
       else if dict_get (rg_types rg) name \<noteq> None \<and> \<not> overwrite then Inl (DuplicateType name ''kconfig_make'')
       else
         (let firmwares = [application] @ (if katapult_installed \<and> application \<noteq> ''katapult'' then [''katapult''] else []) in
          case find (\<lambda>fw. \<not> dict_has (load_families (rg_doc rg)) fw) firmwares of
            Some fw \<Rightarrow> Inl (UndeclaredFamily name fw)
          | None \<Rightarrow>
              (let m = \<lparr>mt_name = name, mt_chipset = chipset, mt_serials = [], mt_canbus_uuids = [],
                 mt_fws = [(''katapult'', empty_fw_config\<lparr>extra_args := katapult_args\<rparr>),
                           (''klipper'', empty_fw_config\<lparr>extra_args := klipper_args\<rparr>)],
                 mt_firmwares = firmwares, mt_profile = strip profile, mt_stop_services = None\<rparr> in
               Inr (rg\<lparr>rg_types := dict_set (rg_types rg) name m\<rparr>, m))))"

definition drop_section :: "registry \<Rightarrow> string \<Rightarrow> registry_error + registry" where
  "drop_section rg name =
     (if name \<in> set (declared_type_names rg)
      then and_then (declared_section rg name) (\<lambda>sec.
        map_sum EditRefused (\<lambda>(d, _). rg\<lparr>rg_doc := d\<rparr>) (remove_section sec (rg_doc rg)))
      else Inr rg)"

definition remove_type :: "registry \<Rightarrow> string \<Rightarrow> registry_error + registry \<times> mcu_type" where
  "remove_type rg name =
     and_then (registry_get rg name) (\<lambda>m.
       map_sum id (\<lambda>rg'. (rg', m)) (drop_section (rg\<lparr>rg_types := dict_del (rg_types rg) name\<rparr>) name))"

definition set_mcu :: "registry \<Rightarrow> string \<Rightarrow> mcu_type \<Rightarrow> registry" where
  "set_mcu rg name m = rg\<lparr>rg_types := dict_set (rg_types rg) name m\<rparr>"

definition add_serial :: "registry \<Rightarrow> string \<Rightarrow> string \<Rightarrow> registry_error + registry \<times> bool" where
  "add_serial rg name serial =
     and_then (registry_get rg name) (\<lambda>m.
       if serial \<in> set (mt_serials m) then Inr (rg, False)
       else Inr (set_mcu rg name (m\<lparr>mt_serials := mt_serials m @ [serial]\<rparr>), True))"

definition remove_serial :: "registry \<Rightarrow> string \<Rightarrow> string \<Rightarrow> registry_error + registry \<times> bool" where
  "remove_serial rg name serial =
     and_then (registry_get rg name) (\<lambda>m.
       if serial \<notin> set (mt_serials m) then Inr (rg, False)
       else Inr (set_mcu rg name (m\<lparr>mt_serials := remove1 serial (mt_serials m)\<rparr>), True))"

definition add_canbus_uuid :: "registry \<Rightarrow> string \<Rightarrow> string \<Rightarrow> registry_error + registry \<times> bool" where
  "add_canbus_uuid rg name uuid =
     and_then (registry_get rg name) (\<lambda>m.
       if uuid \<in> set (mt_canbus_uuids m) then Inr (rg, False)
       else Inr (set_mcu rg name (m\<lparr>mt_canbus_uuids := mt_canbus_uuids m @ [uuid]\<rparr>), True))"

definition remove_canbus_uuid :: "registry \<Rightarrow> string \<Rightarrow> string \<Rightarrow> registry_error + registry \<times> bool" where
  "remove_canbus_uuid rg name uuid =
     and_then (registry_get rg name) (\<lambda>m.
       if uuid \<notin> set (mt_canbus_uuids m) then Inr (rg, False)
       else Inr (set_mcu rg name (m\<lparr>mt_canbus_uuids := remove1 uuid (mt_canbus_uuids m)\<rparr>), True))"

text \<open>Another builder's type is edited in the document itself.\<close>

definition edit_doc :: "registry \<Rightarrow> edit_error + cfg_doc \<Rightarrow> registry_error + registry \<times> bool" where
  "edit_doc rg r = map_sum EditRefused (\<lambda>d. (rg\<lparr>rg_doc := d\<rparr>, True)) r"

definition add_declared_serial :: "registry \<Rightarrow> string \<Rightarrow> string \<Rightarrow> registry_error + registry \<times> bool" where
  "add_declared_serial rg name serial =
     (if dict_has (rg_types rg) name then add_serial rg name serial
      else and_then (declared_section rg name) (\<lambda>sec.
        let serials = get_list (rg_doc rg) sec ''serials'' in
        if serial \<in> set serials then Inr (rg, False)
        else edit_doc rg (set_option sec ''serials'' (VList (serials @ [serial])) (rg_doc rg))))"

definition remove_declared_serial :: "registry \<Rightarrow> string \<Rightarrow> string \<Rightarrow> registry_error + registry \<times> bool" where
  "remove_declared_serial rg name serial =
     (if dict_has (rg_types rg) name then remove_serial rg name serial
      else and_then (declared_section rg name) (\<lambda>sec.
        let serials = get_list (rg_doc rg) sec ''serials'' in
        if serial \<notin> set serials then Inr (rg, False)
        else edit_doc rg (set_option sec ''serials'' (VList (filter (\<lambda>x. x \<noteq> serial) serials)) (rg_doc rg))))"

definition declared_serials :: "registry \<Rightarrow> string \<Rightarrow> registry_error + string list" where
  "declared_serials rg name =
     (case dict_get (rg_types rg) name of
        Some m \<Rightarrow> Inr (mt_serials m)
      | None \<Rightarrow> and_then (declared_section rg name) (\<lambda>sec. Inr (get_list (rg_doc rg) sec ''serials'')))"

definition remove_declared_type :: "registry \<Rightarrow> string \<Rightarrow> registry_error + registry \<times> string list" where
  "remove_declared_type rg name =
     and_then (declared_serials rg name) (\<lambda>serials.
       map_sum id (\<lambda>rg'. (rg', serials)) (drop_section (rg\<lparr>rg_types := dict_del (rg_types rg) name\<rparr>) name))"

definition add_declared_canbus_uuid :: "registry \<Rightarrow> string \<Rightarrow> string \<Rightarrow> registry_error + registry \<times> bool" where
  "add_declared_canbus_uuid rg name uuid =
     (if dict_has (rg_types rg) name then add_canbus_uuid rg name uuid
      else and_then (declared_section rg name) (\<lambda>sec.
        let uuids = get_list (rg_doc rg) sec ''canbus_uuids'' in
        if uuid \<in> set uuids then Inr (rg, False)
        else edit_doc rg (set_option sec ''canbus_uuids'' (VList (uuids @ [uuid])) (rg_doc rg))))"

definition remove_declared_canbus_uuid :: "registry \<Rightarrow> string \<Rightarrow> string \<Rightarrow> registry_error + registry \<times> bool" where
  "remove_declared_canbus_uuid rg name uuid =
     (if dict_has (rg_types rg) name then remove_canbus_uuid rg name uuid
      else and_then (declared_section rg name) (\<lambda>sec.
        let uuids = get_list (rg_doc rg) sec ''canbus_uuids''; remaining = filter (\<lambda>x. x \<noteq> uuid) uuids in
        if uuid \<notin> set uuids then Inr (rg, False)
        else if remaining \<noteq> [] then edit_doc rg (set_option sec ''canbus_uuids'' (VList remaining) (rg_doc rg))
        else edit_doc rg (map_sum id fst (remove_option sec ''canbus_uuids'' (rg_doc rg)))))"

end
