(* ===== verification/RegValues.thy ===== *)
theory RegValues
  imports Registry
begin

section \<open>What the registry writes is what it reads\<close>

text \<open>
  The values of a type section, as text: a list one item per line, words joined by commas, a patch
  as \<open>file -> line\<close>. Each is read back by the operation the loader uses for its key.
\<close>

subsection \<open>Lists\<close>

definition listable :: "string \<Rightarrow> bool" where
  "listable v = (plain v \<and> file_safe v)"

lemma splitlines_single: "\<forall>c \<in> set l. \<not> is_linebreak c \<Longrightarrow> splitlines l = (if l = [] then [] else [l])"
  using splitlines_from_plain[of l "[]" "[]"] by (simp add: splitlines_def)

lemma splitlines_values:
  assumes "list_all (\<lambda>v. v \<noteq> [] \<and> file_safe v) vs" and "file_safe l" and "vs \<noteq> [] \<or> l \<noteq> []"
  shows "splitlines (l @ concat (map (\<lambda>v. nl # v) vs)) = l # vs"
  using assms
proof (induction vs arbitrary: l)
  case Nil
  then show ?case by (simp add: splitlines_single file_safe_def file_char_def)
next
  case (Cons v vs)
  then show ?case
    using splitlines_line[of l "v @ concat (map (\<lambda>v. nl # v) vs)"] by (simp add: file_safe_def file_char_def)
qed

lemma nonblank_values:
  assumes "list_all listable vs"
  shows "nonblank_parts (value_text (VList vs)) = vs"
proof (cases "vs = []")
  case False
  have "list_all (\<lambda>v. v \<noteq> [] \<and> file_safe v) vs" and s: "map strip vs = vs" and n: "filter (\<lambda>p. p \<noteq> []) vs = vs"
    using assms by (auto simp: list_all_iff listable_def plain_def strip_id map_idI filter_id_conv)
  with splitlines_values[of vs "[]"] False have "splitlines (value_text (VList vs)) = [] # vs"
    by (simp add: file_safe_def)
  then show ?thesis by (simp add: nonblank_parts_def s n)
qed (simp add: nonblank_parts_def splitlines_def)

lemma get_list_value:
  assumes "cfg_get d s k None = Some (value_text (VList vs))" and "list_all listable vs"
  shows "get_list d s k = vs"
  using assms nonblank_values[OF assms(2)] by (cases vs) (auto simp: get_list_def)

lemma get_list_optional:
  assumes "cfg_get d s k None = (if vs = [] then None else Some (value_text (VList vs)))" and "list_all listable vs"
  shows "get_list d s k = vs"
  using assms get_list_value[of d s k vs] by (cases "vs = []") (simp_all add: get_list_def)

subsection \<open>Words\<close>

definition csv_word :: "string \<Rightarrow> bool" where
  "csv_word w = (w \<noteq> [] \<and> (\<forall>c \<in> set w. c \<noteq> CHR '','' \<and> \<not> is_space c) \<and> \<not> comment_char (hd w))"

lemma csv_parts_word: "\<forall>c \<in> set w. c \<noteq> CHR '','' \<and> \<not> is_space c \<Longrightarrow> csv_parts acc (w @ s) = csv_parts (rev w @ acc) s"
  by (induction w arbitrary: acc) auto

lemma csv_join: "list_all csv_word ws \<Longrightarrow> csv_parts [] (join '', '' ws) = ws"
proof (induction "'', '' :: string" ws rule: join.induct)
  case (2 x)
  then show ?case using csv_parts_word[of x "[]" "[]"] by (simp add: csv_word_def)
next
  case (3 x y xs)
  have sp: "is_space CHR '' ''" by (simp add: is_space_def)
  have x: "x \<noteq> []" "\<forall>c \<in> set x. c \<noteq> CHR '','' \<and> \<not> is_space c" using 3 by (auto simp: csv_word_def)
  have "csv_parts [] (join '', '' (x # y # xs)) = x # csv_parts [] (join '', '' (y # xs))"
    using csv_parts_word[OF x(2), of "[]" "'', '' @ join '', '' (y # xs)"] x(1) sp by simp
  with 3 show ?case by simp
qed simp

lemma space_breaks: "is_linebreak c \<Longrightarrow> is_space c"
  by (auto simp: is_linebreak_def is_space_def Let_def)

lemma join_chars: "c \<in> set (join sep ws) \<Longrightarrow> c \<in> set sep \<or> (\<exists>w \<in> set ws. c \<in> set w)"
  by (induction sep ws rule: join.induct) auto

lemma word_before_comment:
  assumes "csv_word w" shows "before_comment sp w = w"
proof -
  have rest: "before_comment False s = s" if "\<forall>c \<in> set s. \<not> is_space c" for s
    using that by (induction s) auto
  show ?thesis using assms rest[of "tl w"] by (cases w) (auto simp: csv_word_def)
qed

lemma csv_plain:
  assumes "list_all csv_word ws" "ws \<noteq> []"
  shows "plain (join '', '' ws) \<and> file_safe (join '', '' ws)"
proof
  have sp: "is_space CHR '' ''" "\<not> is_space CHR '',''" by (simp_all add: is_space_def)
  have fs: "file_char CHR '','' \<and> file_char CHR '' ''" by (simp add: file_char_def is_linebreak_def)
  have w: "csv_word w \<Longrightarrow> c \<in> set w \<Longrightarrow> file_char c" for w c
    using space_breaks[of c] by (auto simp: csv_word_def file_char_def)
  show safe: "file_safe (join '', '' ws)"
    using assms(1) fs by (auto simp: file_safe_def list_all_iff dest!: join_chars dest: w)
  then have nn: "no_nl (join '', '' ws)" unfolding file_safe_def no_nl_def by (metis file_char_simps(1))
  have "join '', '' ws \<noteq> [] \<and> hd (join '', '' ws) = hd (hd ws) \<and> last (join '', '' ws) = last (last ws)"
    using assms by (induction "'', '' :: string" ws rule: join.induct) (auto simp: csv_word_def)
  moreover have "csv_word (hd ws)" "csv_word (last ws)" using assms by (auto simp: list_all_iff)
  ultimately have ends: "join '', '' ws \<noteq> []" "stripped (join '', '' ws)"
    by (auto simp: csv_word_def stripped_def)
  have "before_comment True (join '', '' ws) = join '', '' ws" using assms nn
  proof (induction "'', '' :: string" ws rule: join.induct)
    case (3 x y xs)
    have nn: "no_nl (x @ '', '' @ join '', '' (y # xs))" using 3(4) by simp
    have IH: "before_comment True (join '', '' (y # xs)) = join '', '' (y # xs)"
      using 3 by (simp add: no_nl_def)
    have x: "csv_word x" using 3 by simp
    have "before_comment (is_space (last x)) ('', '' @ join '', '' (y # xs)) = '', '' @ join '', '' (y # xs)"
      using IH sp by (simp add: comment_char_def)
    moreover have "x \<noteq> []" using x by (simp add: csv_word_def)
    ultimately show ?case using before_comment_append[OF nn word_before_comment[OF x]] by simp
  qed (auto simp: word_before_comment)
  with ends nn show "plain (join '', '' ws)" by (simp add: plain_def)
qed

subsection \<open>Patches\<close>

definition good_patch :: "makefile_patch \<Rightarrow> bool" where
  "good_patch p = (patch_valid p \<and> stripped (patch_file p) \<and> stripped (patch_line p) \<and>
     \<not> contains PATCH_SEPARATOR (patch_file p) \<and> listable (patch_render p))"

lemma parse_patches_rendered: "list_all good_patch ps \<Longrightarrow> parse_patches name (map patch_render ps) = Inr ps"
proof (induction ps)
  case (Cons p ps)
  then have "patch_parse (patch_render p) = Some p"
    by (intro patch_round_trip[THEN conjunct1, THEN mp]) (auto simp: good_patch_def)
  with Cons show ?case by simp
qed simp

end
