(* ===== verification/RegistrySave.thy ===== *)
theory RegistrySave
  imports RegValues
begin

section \<open>Saving the registry and loading it again\<close>

text \<open>
  Every type is written into its own section and read back from it; what the registry does not
  manage reads as before.
\<close>

subsection \<open>The edits of one type\<close>

definition optional_text :: "string \<Rightarrow> bool" where
  "optional_text t = (t = [] \<or> listable t)"

definition good_fw_key :: "string \<Rightarrow> bool" where
  "good_fw_key fw = (\<forall>suffix \<in> {''_extra_args'', ''_makefile_patches'', ''_extra_repos''}.
     good_key (fw @ suffix) \<and> file_safe (fw @ suffix))"

definition good_fw_config :: "fw_config \<Rightarrow> bool" where
  "good_fw_config c = (optional_text (strip (extra_args c)) \<and> list_all good_patch (filter patch_valid (makefile_patches c)) \<and>
     list_all listable (extra_repos c))"

definition good_mcu :: "mcu_type \<Rightarrow> bool" where
  "good_mcu m = (optional_text (mt_chipset m) \<and> list_all listable (mt_serials m) \<and> list_all listable (mt_canbus_uuids m) \<and>
     mt_firmwares m \<noteq> [] \<and> distinct (mt_firmwares m) \<and> list_all csv_word (mt_firmwares m) \<and>
     optional_text (strip (mt_profile m)) \<and>
     (case mt_stop_services m of None \<Rightarrow> True | Some us \<Rightarrow> list_all csv_word us) \<and>
     list_all (\<lambda>(fw, c). good_fw_key fw \<and> good_fw_config c) (mt_fws m))"

lemma good_const_keys:
  "k \<in> {''chipset'', ''serials'', ''canbus_uuids'', ''firmware'', ''kconfig_make_profile'', ''stop_services''} \<Longrightarrow>
   good_key k \<and> file_safe k"
  by (auto simp: good_key_def file_safe_def file_char_def stripped_def no_nl_def comment_char_def is_sep_def is_space_def is_linebreak_def)

lemma good_put_text: "good_key k \<and> file_safe k \<Longrightarrow> optional_text t \<Longrightarrow> good_edit (Put k (VStr t))"
  by (auto simp: optional_text_def listable_def file_safe_def)

lemma good_put_list: "good_key k \<and> file_safe k \<Longrightarrow> list_all listable vs \<Longrightarrow> good_edit (Put k (VList vs))"
  by (simp add: listable_def list_all_iff)

lemma csv_optional: "list_all csv_word ws \<Longrightarrow> optional_text (join '', '' ws)"
  using csv_plain[of ws] by (cases ws) (auto simp: optional_text_def listable_def)

lemma fw_edits_good:
  assumes "good_fw_key fw" and "\<forall>c. dict_get (mt_fws m) fw = Some c \<longrightarrow> good_fw_config c"
  shows "list_all good_edit (fw_edits m fw)"
proof -
  let ?c = "fw_get m fw"
  have c: "good_fw_config ?c" using assms(2)
    by (auto simp: fw_get_def good_fw_config_def empty_fw_config_def optional_text_def split: option.split)
  have k: "good_key (fw @ s) \<and> file_safe (fw @ s)" if "s \<in> {''_extra_args'', ''_makefile_patches'', ''_extra_repos''}" for s
    using assms(1) that by (auto simp: good_fw_key_def)
  have e: "fw_edits m fw =
     [if strip (extra_args ?c) \<noteq> [] then Put (fw @ ''_extra_args'') (VStr (strip (extra_args ?c))) else Drop (fw @ ''_extra_args''),
      if filter patch_valid (makefile_patches ?c) \<noteq> []
        then Put (fw @ ''_makefile_patches'') (VList (map patch_render (filter patch_valid (makefile_patches ?c)))) else Drop (fw @ ''_makefile_patches''),
      if extra_repos ?c \<noteq> [] then Put (fw @ ''_extra_repos'') (VList (extra_repos ?c)) else Drop (fw @ ''_extra_repos'')]"
    by (simp add: fw_edits_def fw_get_def empty_fw_config_def Let_def split: option.split)
  have p: "list_all listable (map patch_render (filter patch_valid (makefile_patches ?c)))"
    using c by (auto simp: good_fw_config_def good_patch_def list_all_iff)
  show ?thesis unfolding e
    using good_put_text[OF k, of "''_extra_args''"] good_put_list[OF k, of "''_makefile_patches''", OF _ p]
      good_put_list[OF k, of "''_extra_repos''" "extra_repos ?c"] c
    by (simp add: good_fw_config_def del: good_edit.simps(1))
qed

lemma dedup_mem: "x \<in> set (dedup xs) \<Longrightarrow> x \<in> set xs" by simp

lemma type_edits_good:
  assumes "good_mcu m" "list_all good_fw_key fw_names"
  shows "list_all good_edit (type_edits fw_names m)"
proof -
  note k = good_const_keys
  have f: "list_all good_edit (fw_edits m fw)" if "fw \<in> set (dedup (dict_keys (mt_fws m) @ fw_names))" for fw
    using that assms by (intro fw_edits_good) (auto simp: good_mcu_def list_all_iff dest!: map_of_SomeD)
  have fs: "list_all good_edit (concat (map (fw_edits m) (dedup (dict_keys (mt_fws m) @ fw_names))))"
    using f by (auto simp: list_all_iff simp del: set_dedup)
  have "good_edit (Put ''chipset'' (VStr (mt_chipset m)))" "good_edit (Put ''serials'' (VList (mt_serials m)))"
    "good_edit (Put ''canbus_uuids'' (VList (mt_canbus_uuids m)))" "good_edit (Put ''firmware'' (VStr (join '', '' (mt_firmwares m))))"
    "good_edit (Put ''kconfig_make_profile'' (VStr (strip (mt_profile m))))"
    using assms(1) by (auto intro!: good_put_text good_put_list k csv_optional simp: good_mcu_def simp del: good_edit.simps(1))
  moreover have "good_edit (Put ''stop_services'' (VStr (join '', '' us)))" if "mt_stop_services m = Some us" for us
    using assms(1) that by (auto intro!: good_put_text k csv_optional simp: good_mcu_def simp del: good_edit.simps(1))
  ultimately show ?thesis using fs by (auto simp: type_edits_def simp del: good_edit.simps(1) split: option.split)
qed

text \<open>No two edits of a type share a key: the keys of a family end in one of three suffixes.\<close>

definition fw_suffixes :: "string list" where
  "fw_suffixes = [''_extra_args'', ''_makefile_patches'', ''_extra_repos'']"

lemma fw_edit_keys: "map edit_key (fw_edits m fw) = map (\<lambda>s. fw @ s) fw_suffixes"
  by (simp add: fw_edits_def fw_suffixes_def Let_def split: option.split)

definition own_keys :: "string list" where
  "own_keys = [''chipset'', ''serials'', ''canbus_uuids'', ''firmware'', ''kconfig_make_profile'', ''stop_services'', ''katapult_installed'']"

lemma type_edit_keys:
  "map edit_key (type_edits fw_names m) = own_keys @ concat (map (\<lambda>fw. map (\<lambda>s. fw @ s) fw_suffixes) (dedup (dict_keys (mt_fws m) @ fw_names)))"
proof -
  have "map edit_key (concat (map (fw_edits m) fws)) = concat (map (\<lambda>fw. map (\<lambda>s. fw @ s) fw_suffixes) fws)" for fws
    by (induction fws) (simp_all add: fw_edit_keys)
  then show ?thesis by (simp add: type_edits_def own_keys_def split: option.split)
qed

lemma key_ends:
  "list_all (\<lambda>k. list_all (\<lambda>s. take 3 (rev k) \<noteq> take 3 (rev s)) fw_suffixes) own_keys"
  "distinct (map (\<lambda>s. take 3 (rev s)) fw_suffixes)" "list_all (\<lambda>s. 3 \<le> length s) fw_suffixes" "distinct own_keys"
  by code_simp+

lemma suffix_end: "s \<in> set fw_suffixes \<Longrightarrow> take 3 (rev (fw @ s)) = take 3 (rev s)"
  using key_ends(3) by (simp add: list_all_iff)

lemma suffix_inj:
  assumes "fw @ s = fw' @ s'" "s \<in> set fw_suffixes" "s' \<in> set fw_suffixes" shows "fw = fw' \<and> s = s'"
proof -
  have "take 3 (rev s) = take 3 (rev s')" using suffix_end[OF assms(2), of fw] suffix_end[OF assms(3), of fw'] assms(1) by simp
  with key_ends(2) assms(2,3) have "s = s'" by (auto simp: distinct_map dest: inj_onD)
  with assms(1) show ?thesis by simp
qed

lemma own_not_suffix: "k \<in> set own_keys \<Longrightarrow> s \<in> set fw_suffixes \<Longrightarrow> k \<noteq> fw @ s"
  using key_ends(1)[unfolded list_all_iff] suffix_end[of s fw] by metis

lemma type_edits_distinct: "distinct (map edit_key (type_edits fw_names m))"
proof -
  have "distinct (concat (map (\<lambda>fw. map (\<lambda>s. fw @ s) fw_suffixes) fws))" if "distinct fws" for fws :: "string list"
    using that
  proof (induction fws)
    case (Cons fw fws)
    have "fw @ s \<notin> set (concat (map (\<lambda>fw. map (\<lambda>s. fw @ s) fw_suffixes) fws))" if "s \<in> set fw_suffixes" for s
    proof
      assume "fw @ s \<in> set (concat (map (\<lambda>fw. map (\<lambda>s. fw @ s) fw_suffixes) fws))"
      then obtain fw' s' where "fw' \<in> set fws" "s' \<in> set fw_suffixes" "fw @ s = fw' @ s'" by auto
      with suffix_inj[OF this(3) that] Cons.prems show False by simp
    qed
    moreover have "distinct (map (\<lambda>s. fw @ s) fw_suffixes)" by (simp add: fw_suffixes_def)
    ultimately show ?case using Cons by auto
  qed simp
  moreover have "distinct own_keys" by (rule key_ends)
  moreover have "k \<notin> set (concat (map (\<lambda>fw. map (\<lambda>s. fw @ s) fw_suffixes) fws))" if "k \<in> set own_keys" for k and fws :: "string list"
    using own_not_suffix[OF that] by auto
  ultimately show ?thesis unfolding type_edit_keys distinct_append by (intro conjI) (simp, simp, blast)
qed

subsection \<open>Type sections\<close>

text \<open>A name a type can be declared under; \<open>validate_type_name\<close> accepts no others.\<close>

definition good_type_name :: "string \<Rightarrow> bool" where
  "good_type_name n = (n \<noteq> [] \<and> stripped n \<and> file_safe n \<and> CHR '']'' \<notin> set n)"

definition is_type_section :: "string \<Rightarrow> bool" where
  "is_type_section sec = ((sec = TYPE_PREFIX \<or> starts_with (TYPE_PREFIX @ '' '') sec) \<and> strip (drop 4 sec) \<noteq> [])"

lemma type_sections_names:
  "type_sections d = map (\<lambda>sec. (strip (drop 4 sec), sec)) (filter is_type_section (section_names d None))"
proof -
  have "filter (\<lambda>(name, sec). name \<noteq> []) (map (\<lambda>sec. (strip (drop 4 sec), sec)) (filter P xs)) =
      map (\<lambda>sec. (strip (drop 4 sec), sec)) (filter (\<lambda>sec. P sec \<and> strip (drop 4 sec) \<noteq> []) xs)" for P xs
    by (induction xs) auto
  moreover have "length TYPE_PREFIX = 4" by (simp add: TYPE_PREFIX_def)
  ultimately show ?thesis
    by (simp add: type_sections_def named_sections_names is_type_section_def[abs_def])
qed

lemma new_type_section:
  assumes "good_type_name n"
  shows "is_type_section (''type '' @ n)" "strip (drop 4 (''type '' @ n)) = n" "good_section (''type '' @ n)"
proof -
  have "strip ('' '' @ n) = n" using assms strip_append_space[of "'' ''" n]
    by (simp add: good_type_name_def strip_id is_space_def)
  then show n: "strip (drop 4 (''type '' @ n)) = n" by simp
  show "is_type_section (''type '' @ n)"
    using assms n by (simp add: is_type_section_def TYPE_PREFIX_def good_type_name_def starts_with_def)
  have "file_char c" if "c \<in> set ''type ''" for c
    using that by (auto simp: file_char_def is_linebreak_def)
  then have f: "file_safe (''type '' @ n)" using assms by (auto simp: good_type_name_def file_safe_def)
  then have "no_nl (''type '' @ n)" unfolding file_safe_def no_nl_def by (metis file_char_simps(1))
  with f assms show "good_section (''type '' @ n)"
    by (auto simp: good_section_def good_name_def good_type_name_def stripped_def is_space_def)
qed

lemma section_for_find:
  "section_for d n = (case find (\<lambda>sec. strip (drop 4 sec) = n) (filter is_type_section (section_names d None)) of
     Some sec \<Rightarrow> sec | None \<Rightarrow> ''type '' @ n)"
proof -
  have "find (\<lambda>(x, sec). x = n) (map (\<lambda>sec. (strip (drop 4 sec), sec)) xs) =
     map_option (\<lambda>sec. (strip (drop 4 sec), sec)) (find (\<lambda>sec. strip (drop 4 sec) = n) xs)" for xs
    by (induction xs) auto
  then show ?thesis
    by (simp add: section_for_def type_sections_names TYPE_PREFIX_def split: option.split)
qed

lemma find_sat: "find P xs = Some x \<Longrightarrow> x \<in> set xs \<and> P x"
  by (auto simp: find_Some_iff)

lemma section_for_type:
  assumes "good_type_name n"
  shows "is_type_section (section_for d n) \<and> strip (drop 4 (section_for d n)) = n"
  using new_type_section[OF assms] unfolding section_for_find
  by (auto split: option.split dest!: find_sat)

lemma section_for_inj: "good_type_name n \<Longrightarrow> good_type_name n' \<Longrightarrow> section_for d n = section_for d' n' \<Longrightarrow> n = n'"
  using section_for_type by metis

lemma find_append: "find P (xs @ ys) = (case find P xs of Some x \<Rightarrow> Some x | None \<Rightarrow> find P ys)"
  by (induction xs) auto

lemma section_for_grow:
  assumes "section_names d' None = section_names d None @ xs" "\<forall>x \<in> set xs. strip (drop 4 x) \<noteq> n"
  shows "section_for d' n = section_for d n"
proof -
  have "find (\<lambda>sec. strip (drop 4 sec) = n) (filter is_type_section xs) = None"
    using assms(2) by (simp add: find_None_iff)
  then show ?thesis unfolding section_for_find assms(1) filter_append find_append by (simp split: option.split)
qed

lemma doc_section_good:
  assumes "store_ok d" "s \<in> set (section_names d None)" "s \<noteq> []"
  shows "good_section s"
proof -
  from assms(1) obtain ls where d: "d = doc_of_lines False ls" "all_chars file_char ls" "\<forall>l \<in> set ls. no_nl l" "clean ls" "d_dups d = []"
    by (rule store_okE)
  have "has_section d s" using has_section_names[OF assms(1)] assms(2) by blast
  then obtain sec where "dict_get (d_sections d) s = Some sec" by (auto simp: has_section_def dict_has_def)
  from sections_of_doc[OF this[unfolded d(1)]] obtain pre later h its earlier where
    t: "tree_of ls = (pre, later @ (s, h, its) # earlier)" by blast
  have "wf_node (s, h, its)" using wf_tree_of[of ls] t by (auto simp: wf_tree_def)
  then obtain raw where raw: "match_section h = Some raw" "s = strip raw" by (auto simp: wf_node_def)
  have h: "\<forall>c \<in> set h. file_char c" using d(2) tree_flat[OF t] by (auto simp: all_chars_def)
  have tw: "c \<noteq> CHR '']''" if "c \<in> set (takeWhile (\<lambda>x. x \<noteq> CHR '']'') xs)" for c xs
    using that by (auto dest: set_takeWhileD)
  have "set raw \<subseteq> set h \<and> CHR '']'' \<notin> set raw"
    using raw(1) tw by (auto simp: match_section_def Let_def split: list.splits if_splits dest: set_takeWhileD)
  with set_strip[of raw] raw(2) h have s: "\<forall>c \<in> set s. file_char c" "CHR '']'' \<notin> set s" by auto
  then have "no_nl s" unfolding no_nl_def by (metis file_char_simps(1))
  with s raw(2) assms(3) show ?thesis by (simp add: good_section_def good_name_def file_safe_def)
qed

lemma section_for_good:
  assumes "store_ok d" "good_type_name n" shows "good_section (section_for d n)"
proof (cases "section_for d n \<in> set (section_names d None)")
  case True
  have "section_for d n \<noteq> []" using section_for_type[OF assms(2), of d] by (auto simp: is_type_section_def TYPE_PREFIX_def starts_with_def)
  with doc_section_good[OF assms(1) True] show ?thesis .
next
  case False
  then have "section_for d n = ''type '' @ n" unfolding section_for_find by (auto split: option.splits dest!: find_sat)
  with new_type_section(3)[OF assms(2)] show ?thesis by simp
qed

subsection \<open>Saving every type\<close>

definition saveable :: "string list \<Rightarrow> (string \<times> mcu_type) list \<Rightarrow> bool" where
  "saveable fw_names ts = (list_all good_fw_key fw_names \<and> distinct (map fst ts) \<and>
     list_all (\<lambda>(n, m). good_type_name n \<and> good_mcu m) ts)"

lemma save_types_effect:
  assumes "store_ok d" "saveable fw_names ts"
  shows "\<exists>d'. save_types fw_names ts d = Inr d' \<and> store_ok d' \<and>
    (\<forall>(n, m) \<in> set ts. \<forall>e \<in> set (type_edits fw_names m). cfg_get d' (section_for d n) (edit_key e) None = edit_text e) \<and>
    (\<forall>s k. (\<forall>(n, m) \<in> set ts. s = section_for d n \<longrightarrow> k \<notin> edit_key ` set (type_edits fw_names m)) \<longrightarrow>
       cfg_get d' s k None = cfg_get d s k None) \<and>
    section_names d' None = section_names d None @ filter (\<lambda>s. s \<notin> set (section_names d None)) (map (section_for d \<circ> fst) ts)"
  using assms
proof (induction ts arbitrary: d)
  case (Cons nm ts)
  obtain n m where nm: "nm = (n, m)" by (cases nm)
  let ?s = "section_for d n" and ?es = "type_edits fw_names m"
  have g: "good_type_name n" "good_mcu m" "list_all good_fw_key fw_names" "saveable fw_names ts" "n \<notin> fst ` set ts"
    "\<forall>n' \<in> fst ` set ts. good_type_name n'"
    using Cons.prems(2) nm by (auto simp: saveable_def list_all_iff)
  have put: "\<not> list_all (\<lambda>e. \<not> is_put e) ?es" by (simp add: type_edits_def)
  from doc.run_edits_distinct[OF Cons.prems(1) section_for_good[OF Cons.prems(1) g(1)] type_edits_good[OF g(2,3)] type_edits_distinct] put
  obtain d1 where d1: "run_edits set_option remove_option ?s ?es d = Inr d1" "store_ok d1"
     "\<forall>e \<in> set ?es. cfg_get d1 ?s (edit_key e) None = edit_text e"
     "\<forall>k. k \<notin> edit_key ` set ?es \<longrightarrow> cfg_get d1 ?s k None = cfg_get d ?s k None"
     "\<forall>s' k. s' \<noteq> ?s \<longrightarrow> cfg_get d1 s' k None = cfg_get d s' k None"
     "section_names d1 None = section_names d None @ (if ?s \<in> set (section_names d None) then [] else [?s])"
    by auto
  have same: "section_for d1 n' = section_for d n'" if "n' \<noteq> n" for n'
    using d1(6) section_for_type[OF g(1), of d] that by (intro section_for_grow) (auto split: if_splits)
  have sm: "section_for d1 n' = section_for d n' \<and> section_for d n' \<noteq> ?s" if "n' \<in> fst ` set ts" for n'
  proof
    have "n' \<noteq> n" "good_type_name n'" using that g(5,6) by auto
    then show "section_for d1 n' = section_for d n'" "section_for d n' \<noteq> ?s"
      using same section_for_inj[OF _ g(1)] by blast+
  qed
  from Cons.IH[OF d1(2) g(4)] obtain d' where d': "save_types fw_names ts d1 = Inr d'" "store_ok d'"
    "\<forall>(n, m) \<in> set ts. \<forall>e \<in> set (type_edits fw_names m). cfg_get d' (section_for d1 n) (edit_key e) None = edit_text e"
    "\<forall>s k. (\<forall>(n, m) \<in> set ts. s = section_for d1 n \<longrightarrow> k \<notin> edit_key ` set (type_edits fw_names m)) \<longrightarrow>
       cfg_get d' s k None = cfg_get d1 s k None"
    "section_names d' None = section_names d1 None @ filter (\<lambda>s. s \<notin> set (section_names d1 None)) (map (section_for d1 \<circ> fst) ts)"
    by (elim exE conjE) (rule that)
  have later: "cfg_get d' ?s k None = cfg_get d1 ?s k None" for k
    using sm by (intro d'(4)[rule_format]) force
  have "save_types fw_names (nm # ts) d = Inr d'" using d1(1) d'(1) nm by simp
  moreover have "\<forall>(n, m) \<in> set (nm # ts). \<forall>e \<in> set (type_edits fw_names m). cfg_get d' (section_for d n) (edit_key e) None = edit_text e"
    using d'(3) d1(3) later sm nm by (fastforce simp: image_iff)
  moreover have "cfg_get d' s k None = cfg_get d s k None"
    if "\<forall>(n, m) \<in> set (nm # ts). s = section_for d n \<longrightarrow> k \<notin> edit_key ` set (type_edits fw_names m)" for s k
  proof -
    have "cfg_get d' s k None = cfg_get d1 s k None"
      using that sm by (intro d'(4)[rule_format]) force
    moreover have "cfg_get d1 s k None = cfg_get d s k None"
      using that d1(4,5) nm by (cases "s = ?s") auto
    ultimately show ?thesis by simp
  qed
  moreover have "section_names d' None = section_names d None @ filter (\<lambda>s. s \<notin> set (section_names d None)) (map (section_for d \<circ> fst) (nm # ts))"
  proof -
    have "map (section_for d1 \<circ> fst) ts = map (section_for d \<circ> fst) ts" using sm by auto
    moreover have "filter (\<lambda>s. s \<notin> set (section_names d1 None)) (map (section_for d \<circ> fst) ts) =
        filter (\<lambda>s. s \<notin> set (section_names d None)) (map (section_for d \<circ> fst) ts)"
      using sm d1(6) by (intro filter_cong) auto
    ultimately have e: "filter (\<lambda>s. s \<notin> set (section_names d1 None)) (map (section_for d1 \<circ> fst) ts) =
        filter (\<lambda>s. s \<notin> set (section_names d None)) (map (section_for d \<circ> fst) ts)" by (simp only:)
    show ?thesis unfolding d'(5) e by (simp add: d1(6) nm)
  qed
  ultimately show ?case using d'(2) by blast
qed simp

end
