(* ===== verification/RegistryLoad.thy ===== *)
theory RegistryLoad
  imports RegistrySave
begin

section \<open>Loading a saved registry\<close>

subsection \<open>One type\<close>

definition saved_config :: "fw_config \<Rightarrow> fw_config" where
  "saved_config c = \<lparr>extra_args = strip (extra_args c), makefile_patches = filter patch_valid (makefile_patches c),
     extra_repos = extra_repos c\<rparr>"

text \<open>What a load finds of a type: the families it declares, with the settings it had for them.\<close>

definition saved_mcu :: "mcu_type \<Rightarrow> mcu_type" where
  "saved_mcu m = m\<lparr>mt_fws := map (\<lambda>fw. (fw, saved_config (fw_get m fw))) (mt_firmwares m), mt_profile := strip (mt_profile m)\<rparr>"

definition written :: "cfg_doc \<Rightarrow> string \<Rightarrow> string list \<Rightarrow> mcu_type \<Rightarrow> bool" where
  "written d s fw_names m = (\<forall>e \<in> set (type_edits fw_names m). cfg_get d s (edit_key e) None = edit_text e)"

lemma written_own:
  assumes "written d s fw_names m"
  shows "cfg_get d s ''chipset'' None = Some (mt_chipset m)"
    "cfg_get d s ''serials'' None = Some (value_text (VList (mt_serials m)))"
    "cfg_get d s ''canbus_uuids'' None = (if mt_canbus_uuids m = [] then None else Some (value_text (VList (mt_canbus_uuids m))))"
    "cfg_get d s ''firmware'' None = Some (join '', '' (mt_firmwares m))"
    "cfg_get d s ''kconfig_make_profile'' None = (if strip (mt_profile m) = [] then None else Some (strip (mt_profile m)))"
    "cfg_get d s ''stop_services'' None = map_option (join '', '') (mt_stop_services m)"
  using assms unfolding written_def type_edits_def by (auto split: if_splits option.splits)

lemma written_fw:
  assumes "written d s fw_names m" "fw \<in> set (dict_keys (mt_fws m) @ fw_names)"
  shows "cfg_get d s (fw @ ''_extra_args'') None =
      (if strip (extra_args (fw_get m fw)) = [] then None else Some (strip (extra_args (fw_get m fw))))"
    "cfg_get d s (fw @ ''_makefile_patches'') None = (let ps = filter patch_valid (makefile_patches (fw_get m fw)) in
      if map patch_render ps = [] then None else Some (value_text (VList (map patch_render ps))))"
    "cfg_get d s (fw @ ''_extra_repos'') None =
      (if extra_repos (fw_get m fw) = [] then None else Some (value_text (VList (extra_repos (fw_get m fw)))))"
proof -
  have "set (fw_edits m fw) \<subseteq> set (type_edits fw_names m)"
    using assms(2) unfolding type_edits_def by (auto simp del: set_append)
  then have e: "\<forall>e \<in> set (fw_edits m fw). cfg_get d s (edit_key e) None = edit_text e"
    using assms(1) by (auto simp: written_def)
  show "cfg_get d s (fw @ ''_extra_args'') None =
      (if strip (extra_args (fw_get m fw)) = [] then None else Some (strip (extra_args (fw_get m fw))))"
    "cfg_get d s (fw @ ''_makefile_patches'') None = (let ps = filter patch_valid (makefile_patches (fw_get m fw)) in
      if map patch_render ps = [] then None else Some (value_text (VList (map patch_render ps))))"
    "cfg_get d s (fw @ ''_extra_repos'') None =
      (if extra_repos (fw_get m fw) = [] then None else Some (value_text (VList (extra_repos (fw_get m fw)))))"
    using e by (auto simp: fw_edits_def fw_get_def empty_fw_config_def Let_def split: if_splits option.splits)
qed

lemma optional_strip: "optional_text t \<Longrightarrow> strip t = t"
  by (auto simp: optional_text_def listable_def plain_def strip_id)

lemma read_fws_written:
  assumes w: "written d s fw_names m" and g: "good_mcu m"
    and sub: "set fws \<subseteq> set (dict_keys (mt_fws m) @ fw_names)" and dist: "distinct (dict_keys acc @ fws)"
  shows "read_fws d s name acc fws = Inr (acc @ map (\<lambda>fw. (fw, saved_config (fw_get m fw))) fws)"
  using sub dist
proof (induction fws arbitrary: acc)
  case (Cons fw fws)
  let ?c = "fw_get m fw"
  have c: "good_fw_config ?c"
    using g by (auto simp: fw_get_def good_mcu_def list_all_iff empty_fw_config_def good_fw_config_def optional_text_def
        split: option.split dest!: map_of_SomeD)
  note f = written_fw[OF w, of fw]
  have fw: "fw \<in> set (dict_keys (mt_fws m) @ fw_names)" using Cons.prems(1) by simp
  have ps: "list_all listable (map patch_render (filter patch_valid (makefile_patches ?c)))"
    using c by (auto simp: good_fw_config_def good_patch_def list_all_iff)
  have gl: "get_list d s (fw @ ''_makefile_patches'') = map patch_render (filter patch_valid (makefile_patches ?c))"
    using f(2)[OF fw] unfolding Let_def by (rule get_list_optional[OF _ ps])
  have gr: "get_list d s (fw @ ''_extra_repos'') = extra_repos ?c"
    using f(3)[OF fw] c by (intro get_list_optional) (auto simp: good_fw_config_def)
  have ga: "get_text d s (fw @ ''_extra_args'') = strip (extra_args ?c)"
    using f(1)[OF fw] by (simp add: get_text_def)
  have new: "fw \<notin> fst ` set acc" using Cons.prems(2) by simp
  then have slot: "dict_get acc fw = None" by (simp add: map_of_eq_None_iff)
  have pp: "parse_patches name (map patch_render (filter patch_valid (makefile_patches ?c))) = Inr (filter patch_valid (makefile_patches ?c))"
    using c by (intro parse_patches_rendered) (simp add: good_fw_config_def)
  have set: "dict_set acc fw x = acc @ [(fw, x)]" for x
    using new by (induction acc) auto
  show ?case
    using Cons.IH[of "acc @ [(fw, saved_config ?c)]"] Cons.prems
    by (simp add: gl gr ga slot pp set saved_config_def empty_fw_config_def)
qed simp

lemma read_mcu_written:
  assumes w: "written d (te_section e) fw_names m" and g: "good_mcu m" and n: "te_name e = mt_name m"
    and e: "e = read_entry d fams (te_name e, te_section e)"
    and sub: "set (mt_firmwares m) \<subseteq> set (dict_keys (mt_fws m) @ fw_names)"
  shows "read_mcu d e = Inr (saved_mcu m) \<and> te_firmwares e = mt_firmwares m"
proof -
  let ?s = "te_section e"
  note o = written_own[OF w]
  have csv: "csv_parts [] (join '', '' ws) = ws" if "list_all csv_word ws" for ws using csv_join[OF that] .
  have fws: "csv_or_empty d ?s ''firmware'' = mt_firmwares m"
    using o(4) csv g by (simp add: csv_or_empty_def get_csv_def good_mcu_def)
  have chip: "get_text d ?s ''chipset'' = mt_chipset m"
    using o(1) g optional_strip by (simp add: get_text_def good_mcu_def)
  have ser: "get_list d ?s ''serials'' = mt_serials m"
    using o(2) g by (intro get_list_value) (auto simp: good_mcu_def)
  have can: "get_list d ?s ''canbus_uuids'' = mt_canbus_uuids m"
    using o(3) g by (intro get_list_optional) (auto simp: good_mcu_def)
  have stop: "get_csv d ?s ''stop_services'' = mt_stop_services m"
    using o(6) csv g by (cases "mt_stop_services m") (auto simp: get_csv_def good_mcu_def)
  have prof: "get_text d ?s ''kconfig_make_profile'' = strip (mt_profile m)"
    using o(5) by (simp add: get_text_def)
  have te: "te_firmwares e = mt_firmwares m" "te_chipset e = mt_chipset m" "te_serials e = mt_serials m" "te_canbus_uuids e = mt_canbus_uuids m"
    by (subst e, simp add: read_entry_def Let_def fws chip ser can)+
  have r: "read_fws d ?s (te_name e) [] (mt_firmwares m) = Inr (map (\<lambda>fw. (fw, saved_config (fw_get m fw))) (mt_firmwares m))"
    using read_fws_written[OF w g sub, of "[]"] g by (simp add: good_mcu_def)
  have x: "\<lparr>mt_name = mt_name m, mt_chipset = mt_chipset m, mt_serials = mt_serials m, mt_canbus_uuids = mt_canbus_uuids m,
      mt_fws = F, mt_firmwares = mt_firmwares m, mt_profile = P, mt_stop_services = mt_stop_services m\<rparr> = m\<lparr>mt_fws := F, mt_profile := P\<rparr>" for F P
    by (cases m) simp
  show ?thesis unfolding read_mcu_def by (simp add: te r[unfolded n] prof stop n saved_mcu_def x)
qed

subsection \<open>All the types\<close>

lemma read_mcus_result:
  assumes "\<forall>e \<in> set es. te_builder e = ''kconfig_make'' \<longrightarrow> read_mcu d e = Inr (f (te_name e))"
  shows "\<exists>types. read_mcus d acc es = Inr types \<and>
    (\<forall>n. dict_get types n = (if \<exists>e \<in> set es. te_name e = n \<and> te_builder e = ''kconfig_make'' then Some (f n) else dict_get acc n))"
  using assms
proof (induction es arbitrary: acc)
  case (Cons e es)
  show ?case
  proof (cases "te_builder e = ''kconfig_make''")
    case True
    with Cons.prems have r: "read_mcus d acc (e # es) = read_mcus d (dict_set acc (te_name e) (f (te_name e))) es" by simp
    from Cons.IH[of "dict_set acc (te_name e) (f (te_name e))"] Cons.prems obtain types where
      t: "read_mcus d (dict_set acc (te_name e) (f (te_name e))) es = Inr types"
       "\<forall>n. dict_get types n = (if \<exists>e \<in> set es. te_name e = n \<and> te_builder e = ''kconfig_make'' then Some (f n)
         else dict_get (dict_set acc (te_name e) (f (te_name e))) n)" by auto
    show ?thesis unfolding r by (intro exI[of _ types] conjI t(1)) (use t(2) True in auto)
  next
    case False
    with Cons show ?thesis by simp
  qed
qed simp

lemma view_mcu:
  assumes "same_view d d'" shows "read_mcus d types es = read_mcus d' types es"
proof -
  have f: "read_fws d s name fws rest = read_fws d' s name fws rest" for s name fws rest
    by (induction rest arbitrary: fws) (simp_all add: view_gets[OF assms] Let_def)
  have "read_mcu d e = read_mcu d' e" for e
    by (simp add: read_mcu_def f view_gets[OF assms])
  then show ?thesis by (induction es arbitrary: types) simp_all
qed

subsection \<open>A save, seen by the next load\<close>

text \<open>The registry holds the \<open>kconfig_make\<close> types of its document, and perhaps new ones.\<close>

definition registry_ok :: "registry \<Rightarrow> bool" where
  "registry_ok rg = (let d = rg_doc rg; fams = load_families d in
     store_ok d \<and> distinct (map fst (type_sections d)) \<and> saveable (names_of fams) (rg_types rg) \<and>
     list_all (\<lambda>(n, m). mt_name m = n \<and> builder_of fams (hd (mt_firmwares m)) = ''kconfig_make'' \<and>
       set (mt_firmwares m) \<subseteq> set (dict_keys fams)) (rg_types rg) \<and>
     list_all (\<lambda>e. te_builder e = ''kconfig_make'' \<longrightarrow> te_name e \<in> fst ` set (rg_types rg)) (read_types d fams))"

lemma section_for_unique:
  assumes "distinct (map fst (type_sections d))" "(n, sec) \<in> set (type_sections d)"
  shows "section_for d n = sec"
proof -
  have "find (\<lambda>(x, s). x = n) xs = Some (n, sec)" if "distinct (map fst xs)" "(n, sec) \<in> set xs" for xs :: "(string \<times> string) list"
    using that by (induction xs) (auto, force)
  from this[OF assms] show ?thesis by (simp add: section_for_def)
qed

lemma section_for_new:
  assumes "section_for d n \<notin> set (section_names d None)"
  shows "section_for d n = ''type '' @ n" "n \<notin> fst ` set (type_sections d)"
proof -
  show "section_for d n = ''type '' @ n"
    using assms unfolding section_for_find by (auto split: option.splits dest!: find_sat)
  show "n \<notin> fst ` set (type_sections d)"
  proof
    assume "n \<in> fst ` set (type_sections d)"
    then have "find (\<lambda>sec. strip (drop 4 sec) = n) (filter is_type_section (section_names d None)) \<noteq> None"
      unfolding type_sections_names by (auto simp: find_None_iff)
    with assms show False unfolding section_for_find by (auto split: option.splits dest!: find_sat)
  qed
qed

lemma type_sections_after:
  assumes "section_names d' None = section_names d None @ filter (\<lambda>s. s \<notin> set (section_names d None)) (map (section_for d) ns)"
    and "\<forall>n \<in> set ns. good_type_name n"
  shows "type_sections d' = type_sections d @
     map (\<lambda>n. (n, section_for d n)) (filter (\<lambda>n. section_for d n \<notin> set (section_names d None)) ns)"
proof -
  have "map (\<lambda>sec. (strip (drop 4 sec), sec)) (filter is_type_section (filter (\<lambda>s. s \<notin> set (section_names d None)) (map (section_for d) ns))) =
     map (\<lambda>n. (n, section_for d n)) (filter (\<lambda>n. section_for d n \<notin> set (section_names d None)) ns)"
    using assms(2) section_for_type by (induction ns) auto
  then show ?thesis unfolding type_sections_names assms(1) by simp
qed

lemma firmware_not_type:
  assumes "s = FIRMWARE_PREFIX \<or> starts_with (FIRMWARE_PREFIX @ '' '') s" shows "\<not> is_type_section s"
  using assms by (auto simp: is_type_section_def FIRMWARE_PREFIX_def TYPE_PREFIX_def starts_with_iff)

lemma foldl_eq: "(\<And>acc x. x \<in> set xs \<Longrightarrow> f acc x = g acc x) \<Longrightarrow> foldl f a xs = foldl g a xs"
  by (induction xs arbitrary: a) simp_all

lemma families_after:
  assumes n: "section_names d' None = section_names d None @ xs" and t: "\<forall>x \<in> set xs. is_type_section x"
    and same: "\<And>s k. \<not> is_type_section s \<Longrightarrow> cfg_get d' s k None = cfg_get d s k None"
  shows "load_families d' = load_families d"
proof -
  have "filter (\<lambda>n. n = FIRMWARE_PREFIX \<or> starts_with (FIRMWARE_PREFIX @ '' '') n) xs = []"
    using t firmware_not_type by (auto simp: filter_empty_conv)
  then have "named_sections FIRMWARE_PREFIX d' = named_sections FIRMWARE_PREFIX d"
    by (simp add: named_sections_names n)
  moreover have "family_of_section d' name sec = family_of_section d name sec" if "(name, sec) \<in> set (named_sections FIRMWARE_PREFIX d)" for name sec
  proof -
    have "sec = FIRMWARE_PREFIX \<or> starts_with (FIRMWARE_PREFIX @ '' '') sec"
      using that by (auto simp: named_sections_names)
    then have "cfg_get d' sec k None = cfg_get d sec k None" for k using same[OF firmware_not_type] by blast
    then show ?thesis by (simp add: family_of_section_def get_text_def get_flag_def csv_or_empty_def get_csv_def)
  qed
  ultimately show ?thesis unfolding load_families_def by (simp, intro foldl_eq) auto
qed

definition saved_doc :: "registry \<Rightarrow> families \<Rightarrow> cfg_doc \<Rightarrow> bool" where
  "saved_doc rg fams d = (\<forall>n m. dict_get (rg_types rg) n = Some m \<longrightarrow>
     written d (section_for (rg_doc rg) n) (names_of fams) m \<and> (n, section_for (rg_doc rg) n) \<in> set (type_sections d))"

definition sections_after :: "registry \<Rightarrow> cfg_doc \<Rightarrow> bool" where
  "sections_after rg d = (\<forall>n sec. (n, sec) \<in> set (type_sections d) \<longrightarrow>
     (n \<in> fst ` set (rg_types rg) \<longrightarrow> sec = section_for (rg_doc rg) n) \<and>
     (n \<notin> fst ` set (rg_types rg) \<longrightarrow>
        (n, sec) \<in> set (type_sections (rg_doc rg)) \<and> (\<forall>k. cfg_get d sec k None = cfg_get (rg_doc rg) sec k None)))"

text \<open>Everything a save does, for the claims below.\<close>

lemma save_doc:
  assumes ok: "registry_ok rg" and fams: "fams = load_families (rg_doc rg)"
  shows "\<exists>d'. save_types (names_of fams) (rg_types rg) (rg_doc rg) = Inr d' \<and> store_ok d' \<and> load_families d' = fams \<and>
    saved_doc rg fams d' \<and> sections_after rg d' \<and>
    (\<forall>s k. (\<forall>(n, m) \<in> set (rg_types rg). s = section_for (rg_doc rg) n \<longrightarrow> k \<notin> edit_key ` set (type_edits (names_of fams) m)) \<longrightarrow>
       cfg_get d' s k None = cfg_get (rg_doc rg) s k None) \<and>
    section_names d' None = section_names (rg_doc rg) None @
      filter (\<lambda>s. s \<notin> set (section_names (rg_doc rg) None)) (map (section_for (rg_doc rg) \<circ> fst) (rg_types rg))"
proof -
  let ?d = "rg_doc rg" and ?ts = "rg_types rg"
  have o: "store_ok ?d" "distinct (map fst (type_sections ?d))" "saveable (names_of fams) ?ts"
    using ok fams by (simp_all add: registry_ok_def Let_def)
  have tn: "good_type_name n" if "n \<in> fst ` set ?ts" for n using o(3) that by (auto simp: saveable_def list_all_iff)
  from save_types_effect[OF o(1,3)] obtain d' where d': "save_types (names_of fams) ?ts ?d = Inr d'" "store_ok d'"
    "\<forall>(n, m) \<in> set ?ts. \<forall>e \<in> set (type_edits (names_of fams) m). cfg_get d' (section_for ?d n) (edit_key e) None = edit_text e"
    "\<forall>s k. (\<forall>(n, m) \<in> set ?ts. s = section_for ?d n \<longrightarrow> k \<notin> edit_key ` set (type_edits (names_of fams) m)) \<longrightarrow>
       cfg_get d' s k None = cfg_get ?d s k None"
    "section_names d' None = section_names ?d None @ filter (\<lambda>s. s \<notin> set (section_names ?d None)) (map (section_for ?d \<circ> fst) ?ts)"
    by (elim exE conjE) (rule that)
  have ts: "type_sections d' = type_sections ?d @ map (\<lambda>n. (n, section_for ?d n)) (filter (\<lambda>n. section_for ?d n \<notin> set (section_names ?d None)) (map fst ?ts))"
    using d'(5) tn by (intro type_sections_after) auto
  have untouched: "cfg_get d' s k None = cfg_get ?d s k None" if "s \<notin> section_for ?d ` fst ` set ?ts" for s k
    using that by (intro d'(4)[rule_format]) force
  have fam: "load_families d' = fams" unfolding fams
  proof (rule families_after[OF d'(5)])
    show "\<forall>x \<in> set (filter (\<lambda>s. s \<notin> set (section_names ?d None)) (map (section_for ?d \<circ> fst) ?ts)). is_type_section x"
      using section_for_type tn by auto
    show "cfg_get d' s k None = cfg_get ?d s k None" if "\<not> is_type_section s" for s k
      using that section_for_type tn by (intro untouched) auto
  qed
  have w: "written d' (section_for ?d n) (names_of fams) m \<and> (n, section_for ?d n) \<in> set (type_sections d')"
    if "dict_get ?ts n = Some m" for n m
  proof
    have nm: "(n, m) \<in> set ?ts" using map_of_SomeD[OF that] .
    then show "written d' (section_for ?d n) (names_of fams) m" using d'(3) by (auto simp: written_def)
    have n: "n \<in> fst ` set ?ts" using nm by force
    show "(n, section_for ?d n) \<in> set (type_sections d')"
    proof (cases "section_for ?d n \<in> set (section_names ?d None)")
      case True
      with section_for_type[OF tn[OF n], of ?d] have "(n, section_for ?d n) \<in> set (type_sections ?d)"
        unfolding type_sections_names by force
      then show ?thesis unfolding ts by simp
    next
      case False
      with n show ?thesis unfolding ts by auto
    qed
  qed
  have sec: "(n \<in> fst ` set ?ts \<longrightarrow> sec = section_for ?d n) \<and> (n \<notin> fst ` set ?ts \<longrightarrow>
       (n, sec) \<in> set (type_sections ?d) \<and> (\<forall>k. cfg_get d' sec k None = cfg_get ?d sec k None))"
    if "(n, sec) \<in> set (type_sections d')" for n sec
  proof (cases "n \<in> fst ` set ?ts")
    case True
    with that section_for_unique[OF o(2)] show ?thesis unfolding ts by auto
  next
    case False
    with that have old: "(n, sec) \<in> set (type_sections ?d)" unfolding ts by auto
    then have "strip (drop 4 sec) = n" unfolding type_sections_names by auto
    with section_for_type[OF tn] False have "sec \<notin> section_for ?d ` fst ` set ?ts" by auto
    with untouched old False show ?thesis by simp
  qed
  have sd: "saved_doc rg fams d'" "sections_after rg d'" using w sec unfolding saved_doc_def sections_after_def by blast+
  show ?thesis by (intro exI[of _ d'] conjI) (rule d'(1) d'(2) fam sd d'(4) d'(5))+
qed

lemma raised_as [simp]: "map_sum f id r = Inr x \<longleftrightarrow> r = Inr x"
  by (cases r) auto

lemma entry_shape:
  assumes "e \<in> set (read_types d fams)"
  shows "e = read_entry d fams (te_name e, te_section e)" "(te_name e, te_section e) \<in> set (type_sections d)"
    "te_builders e = map (builder_of fams) (te_firmwares e)"
  using assms by (auto simp: read_types_def read_entry_def Let_def)

lemma entry_after:
  assumes ok: "registry_ok rg" and f: "fams = load_families (rg_doc rg)" and d: "saved_doc rg fams d" "sections_after rg d"
    and e: "e \<in> set (read_types d fams)" and n: "dict_get (rg_types rg) (te_name e) = Some m"
  shows "read_mcu d e = Inr (saved_mcu m)" "te_builder e = ''kconfig_make''"
proof -
  let ?d = "rg_doc rg"
  have "te_name e \<in> fst ` set (rg_types rg)" using map_of_SomeD[OF n] by force
  with d(2) entry_shape(2)[OF e] have "te_section e = section_for ?d (te_name e)"
    unfolding sections_after_def by blast
  with d(1) n have w: "written d (te_section e) (names_of fams) m" by (simp add: saved_doc_def)
  have g: "good_mcu m" "te_name e = mt_name m" "builder_of fams (hd (mt_firmwares m)) = ''kconfig_make''" "set (mt_firmwares m) \<subseteq> set (dict_keys fams)"
    using ok map_of_SomeD[OF n] unfolding registry_ok_def Let_def f[symmetric] saveable_def list_all_iff by auto
  have "set (mt_firmwares m) \<subseteq> set (dict_keys (mt_fws m) @ names_of fams)" using g(4) by (auto simp: names_of_def)
  from read_mcu_written[OF w g(1,2) entry_shape(1)[OF e] this]
  show "read_mcu d e = Inr (saved_mcu m)" and "te_builder e = ''kconfig_make''"
    using entry_shape(3)[OF e] g(1,3) by (cases "mt_firmwares m"; simp add: te_builder_def good_mcu_def)+
qed

lemma other_after:
  assumes ok: "registry_ok rg" and f: "fams = load_families (rg_doc rg)" and d: "sections_after rg d"
    and e: "e \<in> set (read_types d fams)" and n: "te_name e \<notin> fst ` set (rg_types rg)"
  shows "te_builder e \<noteq> ''kconfig_make''"
proof
  let ?d = "rg_doc rg"
  assume b: "te_builder e = ''kconfig_make''"
  from d entry_shape(2)[OF e] n have old: "(te_name e, te_section e) \<in> set (type_sections ?d)"
    "\<forall>k. cfg_get d (te_section e) k None = cfg_get ?d (te_section e) k None"
    unfolding sections_after_def by blast+
  then have "read_entry d fams (te_name e, te_section e) = read_entry ?d fams (te_name e, te_section e)"
    by (simp add: read_entry_def get_text_def csv_or_empty_def get_list_def get_csv_def)
  with entry_shape(1)[OF e] old(1) have "e \<in> set (read_types ?d fams)" unfolding read_types_def by force
  with ok b n show False unfolding registry_ok_def Let_def f[symmetric] list_all_iff by blast
qed

lemma types_after:
  assumes ok: "registry_ok rg" and f: "fams = load_families (rg_doc rg)" and d: "saved_doc rg fams d" "sections_after rg d"
  shows "\<exists>types. read_mcus d [] (read_types d fams) = Inr types \<and>
    (\<forall>n. dict_get types n = map_option saved_mcu (dict_get (rg_types rg) n))"
proof -
  let ?ts = "rg_types rg" and ?es = "read_types d fams"
  have r: "te_builder e = ''kconfig_make'' \<longleftrightarrow> dict_get ?ts (te_name e) \<noteq> None"
    "te_builder e = ''kconfig_make'' \<longrightarrow> read_mcu d e = Inr (saved_mcu (the (dict_get ?ts (te_name e))))" if e: "e \<in> set ?es" for e
    using entry_after[OF ok f d e] other_after[OF ok f d(2) e]
    by (cases "dict_get ?ts (te_name e)"; simp add: map_of_eq_None_iff)+
  from read_mcus_result[of ?es d "\<lambda>n. saved_mcu (the (dict_get ?ts n))" "[]"] r(2)
  obtain types where types: "read_mcus d [] ?es = Inr types"
     "\<forall>n. dict_get types n = (if \<exists>e \<in> set ?es. te_name e = n \<and> te_builder e = ''kconfig_make''
        then Some (saved_mcu (the (dict_get ?ts n))) else None)" by auto
  have "dict_get types n = map_option saved_mcu (dict_get ?ts n)" for n
  proof (cases "dict_get ?ts n")
    case None
    with r(1) show ?thesis unfolding types(2)[rule_format] by auto
  next
    case (Some m)
    with d(1) have "(n, section_for (rg_doc rg) n) \<in> set (type_sections d)" by (simp add: saved_doc_def)
    then have "\<exists>e \<in> set ?es. te_name e = n" by (force simp: read_types_def read_entry_def Let_def)
    with Some r(1) show ?thesis unfolding types(2)[rule_format] by auto
  qed
  with types(1) show ?thesis by blast
qed

lemma reload:
  assumes ok: "registry_ok rg" and save: "registry_save rg = Inr (rg', text)"
  shows "\<exists>d p. rg' = rg\<lparr>rg_doc := d\<rparr> \<and> store_ok d \<and> text = render_doc d \<and> read_doc (Inr (Some text)) False = Inr (Some p) \<and>
     same_view p d \<and> (\<exists>rg2. registry_load (Inr (Some text)) = Inr rg2 \<and> rg_doc rg2 = p \<and>
       (\<forall>n. dict_get (rg_types rg2) n = map_option saved_mcu (dict_get (rg_types rg) n)))"
proof -
  let ?d = "rg_doc rg" and ?ts = "rg_types rg"
  define fams where "fams = load_families ?d"
  from save_doc[OF ok fams_def] obtain d where d: "save_types (names_of fams) ?ts ?d = Inr d" "store_ok d" "load_families d = fams"
    "saved_doc rg fams d" "sections_after rg d"
    by (elim exE conjE) (rule that)
  from save d(1) have rg': "rg' = rg\<lparr>rg_doc := d\<rparr>" "text = render_doc d" and valid: "validate_types d (read_types d fams) fams = Inr ()"
    unfolding registry_save_def fams_def[symmetric] Let_def by simp_all
  let ?p = "parse_doc text"
  from store_reload[OF d(2)] have p: "store_ok ?p" "same_view ?p d" unfolding rg' by blast+
  have fr: "same_view (freeze ?p) d" using p(2) by (simp add: same_view_def section_names_def cfg_get_def freeze_def)
  have rd: "read_doc (Inr (Some text)) False = Inr (Some (freeze ?p))"
    using p(1) by (simp add: read_doc_def store_ok_def freeze_def Let_def)
  from types_after[OF ok fams_def d(4,5)] obtain types where types: "read_mcus d [] (read_types d fams) = Inr types"
    "\<forall>n. dict_get types n = map_option saved_mcu (dict_get ?ts n)" by blast
  have "registry_load (Inr (Some text)) = Inr \<lparr>rg_types = types, rg_doc = freeze ?p\<rparr>"
    unfolding registry_load_def rd and_then_simps registry_of_doc_def option.case Let_def view_types[OF fr] view_refused[OF fr]
      view_mcu[OF fr] d(3) valid types(1) ..
  with rg' d(2) rd fr types(2) show ?thesis by (intro exI[of _ d] exI[of _ "freeze ?p"] conjI) auto
qed

end
