(* ===== verification/RegClaims.thy ===== *)
theory RegClaims
  imports RegistryLoad
begin

section \<open>What the registry promises\<close>

subsection \<open>A saved registry is loaded again\<close>

text \<open>C8: a registry that was saved is the registry that is loaded. Whatever types it holds - new ones, types with
  changed serials, CAN ids, families, patches or services, types read from the file and left alone -
  a load of the text a save writes succeeds and finds exactly those types, each with every setting
  it had; of the per-family settings it finds those of the families the type declares.\<close>

theorem registry_round_trip:
  assumes "registry_ok rg" and "registry_save rg = Inr (rg', text)"
  shows "\<exists>rg2. registry_load (Inr (Some text)) = Inr rg2 \<and>
     (\<forall>n. dict_get (rg_types rg2) n = map_option saved_mcu (dict_get (rg_types rg) n))"
  using reload[OF assms] by blast

definition demo_text :: "string list" where
  "demo_text = [''[firmware klipper]'', ''flashers: flashtool'', ''[type ebb]'', ''chipset: rp2040'', ''serials:'', ''    A1'',
     ''firmware: klipper'']"

definition demo_mcu :: mcu_type where
  "demo_mcu = \<lparr>mt_name = ''ebb'', mt_chipset = ''rp2040'', mt_serials = [''A1'', ''B2''], mt_canbus_uuids = [],
     mt_fws = [], mt_firmwares = [''klipper''], mt_profile = [], mt_stop_services = None\<rparr>"

definition demo_registry :: registry where
  "demo_registry = \<lparr>rg_types = [(''ebb'', demo_mcu)], rg_doc = doc_of_lines False demo_text\<rparr>"

lemma demo_families: "load_families (rg_doc demo_registry) =
  [(''klipper'', \<lparr>fam_name = ''klipper'', fam_source = [], fam_artifact = [], fam_builder = ''kconfig_make'',
      fam_cmake_args = [], fam_helper = [], fam_flashers = [''flashtool''], fam_submodules = False,
      fam_bootloader = False, fam_auto_provision = False, fam_stop_services = None\<rparr>)]"
  by code_simp

definition demo_after :: "string list" where
  "demo_after = [''[firmware klipper]'', ''flashers: flashtool'', ''[type ebb]'', ''chipset: rp2040'', ''serials:'', ''    A1'', ''    B2'',
     ''firmware: klipper'']"

lemma demo_saved: "registry_save demo_registry =
   Inr (demo_registry\<lparr>rg_doc := doc_of_lines False demo_after\<rparr>, render_doc (doc_of_lines False demo_after))"
  by code_simp

lemma demo_store: "store_ok (doc_of_lines False demo_text)"
  by code_simp

lemma demo_ok: "registry_ok demo_registry"
  by code_simp

theorem registry_round_trip_witness:
  "\<exists>rg2. registry_load (Inr (Some (render_doc (doc_of_lines False demo_after)))) = Inr rg2 \<and>
     map_option mt_serials (dict_get (rg_types rg2) ''ebb'') = Some [''A1'', ''B2'']"
proof -
  from registry_round_trip[OF demo_ok demo_saved] obtain rg2 where
    r: "registry_load (Inr (Some (render_doc (doc_of_lines False demo_after)))) = Inr rg2"
      "\<forall>n. dict_get (rg_types rg2) n = map_option saved_mcu (dict_get (rg_types demo_registry) n)" by blast
  have "map_option mt_serials (map_option saved_mcu (dict_get (rg_types demo_registry) ''ebb'')) = Some [''A1'', ''B2'']"
    by (simp add: demo_registry_def saved_mcu_def demo_mcu_def)
  with r show ?thesis by auto
qed

subsection \<open>A save leaves the rest alone\<close>

text \<open>The keys a save writes or removes in a type's section.\<close>

definition managed_keys :: "registry \<Rightarrow> mcu_type \<Rightarrow> string list" where
  "managed_keys rg m = own_keys @
     concat (map (\<lambda>fw. map (\<lambda>s. fw @ s) fw_suffixes) (dedup (dict_keys (mt_fws m) @ names_of (load_families (rg_doc rg)))))"

lemma managed: "set (managed_keys rg m) = edit_key ` set (type_edits (names_of (load_families (rg_doc rg))) m)"
  using arg_cong[OF type_edit_keys[of "names_of (load_families (rg_doc rg))" m], of set] unfolding managed_keys_def by (metis set_map)

lemma save_frame:
  assumes ok: "registry_ok rg" and save: "registry_save rg = Inr (rg', text)"
  shows "\<exists>p. read_doc (Inr (Some text)) False = Inr (Some p) \<and>
    (\<forall>s k. (\<forall>(n, m) \<in> set (rg_types rg). s = section_for (rg_doc rg) n \<longrightarrow> k \<notin> set (managed_keys rg m)) \<longrightarrow>
       cfg_get p s k None = cfg_get (rg_doc rg) s k None) \<and>
    (\<forall>n m. dict_get (rg_types rg) n = Some m \<longrightarrow>
       (\<forall>e \<in> set (type_edits (names_of (load_families (rg_doc rg))) m). cfg_get p (section_for (rg_doc rg) n) (edit_key e) None = edit_text e)) \<and>
    section_names p None = section_names (rg_doc rg) None @
      filter (\<lambda>s. s \<notin> set (section_names (rg_doc rg) None)) (map (section_for (rg_doc rg) \<circ> fst) (rg_types rg))"
proof -
  let ?fams = "load_families (rg_doc rg)"
  from save_doc[OF ok refl] obtain d where d: "save_types (names_of ?fams) (rg_types rg) (rg_doc rg) = Inr d" "saved_doc rg ?fams d"
    "\<forall>s k. (\<forall>(n, m) \<in> set (rg_types rg). s = section_for (rg_doc rg) n \<longrightarrow> k \<notin> edit_key ` set (type_edits (names_of ?fams) m)) \<longrightarrow>
       cfg_get d s k None = cfg_get (rg_doc rg) s k None"
    "section_names d None = section_names (rg_doc rg) None @
      filter (\<lambda>s. s \<notin> set (section_names (rg_doc rg) None)) (map (section_for (rg_doc rg) \<circ> fst) (rg_types rg))"
    by (elim exE conjE) (rule that)
  from reload[OF ok save] obtain d' p where p: "rg' = rg\<lparr>rg_doc := d'\<rparr>" "read_doc (Inr (Some text)) False = Inr (Some p)" "same_view p d'" by blast
  have "rg' = rg\<lparr>rg_doc := d\<rparr>" using save d(1) by (simp add: registry_save_def Let_def)
  with p(1) have v: "same_view p d" using p(3) by (metis registry.select_convs(2) registry.surjective registry.update_convs(2))
  show ?thesis
  proof (intro exI[of _ p] conjI allI impI p(2))
    fix s k assume a: "\<forall>(n, m) \<in> set (rg_types rg). s = section_for (rg_doc rg) n \<longrightarrow> k \<notin> set (managed_keys rg m)"
    then have "cfg_get d s k None = cfg_get (rg_doc rg) s k None" unfolding managed by (rule d(3)[THEN spec, THEN spec, THEN mp])
    then show "cfg_get p s k None = cfg_get (rg_doc rg) s k None" by (simp add: view_gets(1)[OF v])
  next
    fix n m assume "dict_get (rg_types rg) n = Some m"
    with d(2) show "\<forall>e \<in> set (type_edits (names_of ?fams) m). cfg_get p (section_for (rg_doc rg) n) (edit_key e) None = edit_text e"
      by (simp add: saved_doc_def written_def view_gets(1)[OF v])
  next
    show "section_names p None = section_names (rg_doc rg) None @
      filter (\<lambda>s. s \<notin> set (section_names (rg_doc rg) None)) (map (section_for (rg_doc rg) \<circ> fst) (rg_types rg))"
      using d(4) by (simp add: view_gets(7)[OF v])
  qed
qed

text \<open>C24: a save leaves the rest of the file alone. Every section is kept, in its order, and a new type's
  section comes after them; every option that is not one of the keys the registry manages in a
  type's own section - other builders' types, families, settings, keys it does not know - reads
  after the save as it did before.\<close>

theorem registry_save_frame:
  assumes "registry_ok rg" and "registry_save rg = Inr (rg', text)"
  shows "\<exists>p. read_doc (Inr (Some text)) False = Inr (Some p) \<and>
    (\<forall>s k. (\<forall>(n, m) \<in> set (rg_types rg). s = section_for (rg_doc rg) n \<longrightarrow> k \<notin> set (managed_keys rg m)) \<longrightarrow>
       cfg_get p s k None = cfg_get (rg_doc rg) s k None) \<and>
    section_names p None = section_names (rg_doc rg) None @
      filter (\<lambda>s. s \<notin> set (section_names (rg_doc rg) None)) (map (section_for (rg_doc rg) \<circ> fst) (rg_types rg))"
  using save_frame[OF assms] by blast

theorem registry_save_frame_witness:
  "\<exists>p. read_doc (Inr (Some (render_doc (doc_of_lines False demo_after)))) False = Inr (Some p) \<and>
     cfg_get p ''firmware klipper'' ''flashers'' None = Some ''flashtool''"
proof -
  have s: "section_for (rg_doc demo_registry) ''ebb'' = ''type ebb''" by code_simp
  have f: "cfg_get (rg_doc demo_registry) ''firmware klipper'' ''flashers'' None = Some ''flashtool''" by code_simp
  from registry_save_frame[OF demo_ok demo_saved] obtain p where
    p: "read_doc (Inr (Some (render_doc (doc_of_lines False demo_after)))) False = Inr (Some p)"
      "\<forall>s k. (\<forall>(n, m) \<in> set (rg_types demo_registry). s = section_for (rg_doc demo_registry) n \<longrightarrow> k \<notin> set (managed_keys demo_registry m)) \<longrightarrow>
         cfg_get p s k None = cfg_get (rg_doc demo_registry) s k None" by blast
  have "set (rg_types demo_registry) = {(''ebb'', demo_mcu)}" by (simp add: demo_registry_def)
  with p(2) s have "cfg_get p ''firmware klipper'' ''flashers'' None = cfg_get (rg_doc demo_registry) ''firmware klipper'' ''flashers'' None" by simp
  with p(1) f show ?thesis by auto
qed

text \<open>\<open>_save\<close> preserves everything but the settings of a declared family its type has no slot for: a load makes
  slots only for the families a type declares, so the three keys of the others are removed by the
  next save, whatever it was for.\<close>

theorem save_drops_other_family_keys:
  assumes "registry_ok rg" and "registry_save rg = Inr (rg', text)" and m: "dict_get (rg_types rg) n = Some m"
    and fw: "fw \<in> set (dict_keys (load_families (rg_doc rg)))" "dict_get (mt_fws m) fw = None" "suffix \<in> set fw_suffixes"
  shows "\<exists>p. read_doc (Inr (Some text)) False = Inr (Some p) \<and> cfg_get p (section_for (rg_doc rg) n) (fw @ suffix) None = None"
proof -
  from save_frame[OF assms(1,2)] m obtain p where p: "read_doc (Inr (Some text)) False = Inr (Some p)"
    "\<forall>e \<in> set (type_edits (names_of (load_families (rg_doc rg))) m). cfg_get p (section_for (rg_doc rg) n) (edit_key e) None = edit_text e"
    by blast
  have "Drop (fw @ suffix) \<in> set (fw_edits m fw)"
    using fw(2,3) by (auto simp: fw_edits_def fw_suffixes_def)
  then have "Drop (fw @ suffix) \<in> set (type_edits (names_of (load_families (rg_doc rg))) m)"
    using fw(1) by (auto simp: type_edits_def names_of_def)
  with p show ?thesis by force
qed

subsection \<open>What is loaded is well formed\<close>

definition family_ok :: "string \<times> family \<Rightarrow> bool" where
  "family_ok nf = (let f = snd nf in fam_builder f \<in> set BUILDERS \<and> fam_flashers f \<noteq> [] \<and>
     set (fam_flashers f) \<subseteq> set FLASHER_NAMES \<and> (fam_auto_provision f \<longrightarrow> fam_helper f \<in> set PROVISIONING_HELPERS))"

definition entry_ok :: "cfg_doc \<Rightarrow> families \<Rightarrow> type_entry \<Rightarrow> bool" where
  "entry_ok d fams e =
     ((\<forall>(old, new) \<in> set RENAMED_KEYS. \<not> block_has d e old) \<and> (\<forall>gone \<in> set REMOVED_KEYS. \<not> block_has d e gone) \<and>
      te_firmwares e \<noteq> [] \<and> (\<forall>fw \<in> set (te_firmwares e). dict_has fams fw) \<and>
      length (dedup (filter (\<lambda>b. b \<noteq> []) (te_builders e))) \<le> 1)"

lemma refuse_renamed_ok: "refuse_renamed_keys d e = Inr () \<longleftrightarrow>
   (\<forall>(old, new) \<in> set RENAMED_KEYS. \<not> block_has d e old) \<and> (\<forall>gone \<in> set REMOVED_KEYS. \<not> block_has d e gone)"
  by (auto simp: refuse_renamed_keys_def find_None_iff split: option.split dest!: find_sat)

lemma refuse_family_ok: "refuse_family_keys fams = Inr () \<longleftrightarrow>
   (\<forall>(n, f) \<in> set fams. fam_flashers f \<noteq> [] \<and> set (fam_flashers f) \<subseteq> set FLASHER_NAMES \<and>
      (fam_auto_provision f \<longrightarrow> fam_helper f \<in> set PROVISIONING_HELPERS))"
proof -
  have e: "filter P xs = [] \<longleftrightarrow> (\<forall>x \<in> set xs. \<not> P x)" for P and xs :: "'a list" by (simp add: filter_empty_conv)
  show ?thesis unfolding refuse_family_keys_def Let_def
    by (simp only: map_is_Nil_conv e split: if_split) (force simp: e subset_iff)
qed

lemma check_entries_ok:
  "(\<exists>missing'. check_entries d fams missing es = Inr missing' \<and> missing' = []) \<longleftrightarrow> missing = [] \<and> (\<forall>e \<in> set es. entry_ok d fams e)"
proof (induction es arbitrary: missing)
  case (Cons e es)
  have ne: "dict_set m k v \<noteq> []" for m :: "(string, string list) dict" and k v by (cases "(m, k, v)" rule: dict_set.cases) auto
  have b: "filter (\<lambda>fw. \<not> dict_has fams fw) (te_firmwares e) = [] \<longleftrightarrow> (\<forall>fw \<in> set (te_firmwares e). dict_has fams fw)"
    by (simp add: filter_empty_conv)
  show ?case
  proof (cases "refuse_renamed_keys d e = Inr () \<and> te_firmwares e \<noteq> [] \<and> \<not> length (sort (dedup (filter (\<lambda>b. b \<noteq> []) (te_builders e)))) > 1")
    case True
    then show ?thesis using Cons refuse_renamed_ok[of d e] ne b by (auto simp: Let_def entry_ok_def)
  next
    case False
    then show ?thesis using refuse_renamed_ok[of d e] by (cases "refuse_renamed_keys d e") (auto simp: Let_def entry_ok_def)
  qed
qed simp

text \<open>C23: what \<open>validate\<close> lets through is well formed, and everything well formed is let through. A set of
  declarations is accepted exactly when every family has a builder this program knows, at least one
  flasher, only flashers it knows, and provisions on its own only through a helper that can; and
  every type lists at least one family, only declared ones, all built by the same builder, and
  carries no renamed or removed key.\<close>

theorem validate_types_iff:
  "validate_types d es fams = Inr () \<longleftrightarrow> (\<forall>nf \<in> set fams. family_ok nf) \<and> (\<forall>e \<in> set es. entry_ok d fams e)"
proof -
  have "validate_types d es fams = Inr () \<longleftrightarrow> (\<forall>(n, f) \<in> set fams. fam_builder f \<in> set BUILDERS) \<and>
     refuse_family_keys fams = Inr () \<and> (\<exists>missing'. check_entries d fams [] es = Inr missing' \<and> missing' = [])"
    by (auto simp: validate_types_def Let_def filter_empty_conv split: if_splits)
  then show ?thesis unfolding check_entries_ok refuse_family_ok
    by (simp add: family_ok_def Let_def case_prod_unfold) blast
qed

lemma demo_validates: "validate_types (rg_doc demo_registry) (read_types (rg_doc demo_registry) (load_families (rg_doc demo_registry)))
    (load_families (rg_doc demo_registry)) = Inr ()"
  by code_simp

lemma demo_entries: "type_sections (rg_doc demo_registry) = [(''ebb'', ''type ebb'')]"
  by code_simp

theorem validate_types_iff_witness:
  "entry_ok (rg_doc demo_registry) (load_families (rg_doc demo_registry))
     (read_entry (rg_doc demo_registry) (load_families (rg_doc demo_registry)) (''ebb'', ''type ebb''))"
  using validate_types_iff[of "rg_doc demo_registry" "read_types (rg_doc demo_registry) (load_families (rg_doc demo_registry))"
      "load_families (rg_doc demo_registry)"] demo_validates
  by (simp add: read_types_def demo_entries)

subsection \<open>Which type an identity belongs to\<close>

lemma found_types: "t \<in> set (find_types_for_serial rg serial) \<longleftrightarrow> (\<exists>m. (t, m) \<in> set (rg_types rg) \<and> serial \<in> set (mt_serials m))"
  by (auto simp: find_types_for_serial_def image_iff)

text \<open>A serial is resolved to a type only when that is the one answer. Asked without a type, \<open>resolve_serial\<close> answers
  with a type exactly when one type and no other tracks the serial, says unknown exactly when none
  does, and ambiguous - naming all of them - otherwise; asked for a type, it answers that type
  exactly when the type tracks the serial, and names the types that do when only others do.\<close>

theorem resolve_serial_outcomes:
  "(resolve_serial rg serial None =
      (case find_types_for_serial rg serial of
         [] \<Rightarrow> Inl (UnknownId SerialId serial None)
       | [t] \<Rightarrow> Inr t
       | ts \<Rightarrow> Inl (AmbiguousId SerialId serial (sort ts)))) \<and>
   (resolve_serial rg serial (Some t) =
      (case dict_get (rg_types rg) t of
         None \<Rightarrow> Inl (UnknownType t (registry_names rg))
       | Some m \<Rightarrow>
           if serial \<in> set (mt_serials m) then Inr t
           else if find_types_for_serial rg serial = [] then Inl (UnknownId SerialId serial (Some t))
           else Inl (TrackedElsewhere SerialId serial t (find_types_for_serial rg serial)))) \<and>
   (\<forall>u. u \<in> set (find_types_for_serial rg serial) \<longleftrightarrow> (\<exists>m. (u, m) \<in> set (rg_types rg) \<and> serial \<in> set (mt_serials m)))"
  by (auto simp: resolve_serial_def resolve_id_def registry_get_def found_types split: option.split list.split)

theorem resolve_serial_outcomes_witness:
  "resolve_serial demo_registry ''B2'' None = Inr ''ebb'' \<and>
   resolve_serial demo_registry ''C3'' (Some ''ebb'') = Inl (UnknownId SerialId ''C3'' (Some ''ebb''))"
proof -
  have f: "find_types_for_serial demo_registry ''B2'' = [''ebb'']" "find_types_for_serial demo_registry ''C3'' = []"
     "dict_get (rg_types demo_registry) ''ebb'' = Some demo_mcu" "''C3'' \<notin> set (mt_serials demo_mcu)"
    by (simp_all add: find_types_for_serial_def demo_registry_def demo_mcu_def)
  show ?thesis
    using resolve_serial_outcomes[of demo_registry "''B2''" "''ebb''"] resolve_serial_outcomes[of demo_registry "''C3''" "''ebb''"]
    by (simp add: f)
qed

subsection \<open>Changing the registry under its lock\<close>

text \<open>C21: a change of the registry is written whole or not at all. With the lock held elsewhere nothing is written and
  the call says busy; otherwise, if the file cannot be loaded, the change raises or the result does
  not validate, the file stays as it was, byte for byte; and when the call succeeds the change was
  made to the registry of the file as it was under the lock, and the next load finds every type of
  the changed registry. The lock is free again either way.\<close>

theorem locked_mutate_all_or_nothing:
  assumes "locked_mutate me pid label now change (l, file) = ((l', file'), r)"
  shows "(\<forall>e. r = Inl e \<longrightarrow> file' = file) \<and>
     (if lf_owner l = None then lf_owner l' = None else l' = l \<and> (\<exists>holder. r = Inl (RegistryBusy holder))) \<and>
     (\<forall>x. r = Inr x \<longrightarrow> (\<exists>rg rg1. and_then (read_doc (Inr file) True) registry_of_doc = Inr rg \<and> change rg = Inr (rg1, x) \<and>
        (registry_ok rg1 \<longrightarrow> (\<exists>rg2. registry_load (Inr file') = Inr rg2 \<and>
           (\<forall>n. dict_get (rg_types rg2) n = map_option saved_mcu (dict_get (rg_types rg1) n))))))"
proof (cases "lf_owner l = None")
  case False
  then show ?thesis using assms by (auto simp: locked_mutate_def acquire_def)
next
  case True
  define l1 where "l1 = \<lparr>lf_owner = Some me, lf_text = Some (JObj (lock_payload pid label now))\<rparr>"
  have a: "acquire me pid label now l = Inr l1" and f: "lf_owner (release me l1) = None"
    using True by (simp_all add: acquire_def l1_def release_def)
  show ?thesis
  proof (cases "registry_mutate (Inr file) change")
    case (Inl e)
    then show ?thesis using assms a f True by (auto simp: locked_mutate_def)
  next
    case (Inr ok)
    obtain t x where ok: "ok = (t, x)" by (cases ok)
    with Inr obtain rg rg1 rg' where c: "and_then (read_doc (Inr file) True) registry_of_doc = Inr rg" "change rg = Inr (rg1, x)"
      "registry_save rg1 = Inr (rg', t)" by (auto simp: registry_mutate_def split: prod.splits)
    have v: "l' = release me l1" "file' = Some t" "r = Inr x" using assms a Inr ok by (simp_all add: locked_mutate_def)
    have "\<exists>rg2. registry_load (Inr file') = Inr rg2 \<and> (\<forall>n. dict_get (rg_types rg2) n = map_option saved_mcu (dict_get (rg_types rg1) n))"
      if "registry_ok rg1" using reload[OF that c(3)] v(2) by blast
    with c(1,2) v f True show ?thesis by auto
  qed
qed

definition demo_change :: "registry \<Rightarrow> registry_error + registry \<times> bool" where
  "demo_change rg = add_serial rg ''ebb'' ''B2''"

lemma demo_mutate:
  "locked_mutate 0 1 ''add serial B2'' JNull demo_change (\<lparr>lf_owner = None, lf_text = None\<rparr>, Some (render_doc (doc_of_lines False demo_text))) =
     ((\<lparr>lf_owner = None, lf_text = None\<rparr>, Some (render_doc (doc_of_lines False demo_after))), Inr True)"
  by code_simp

theorem locked_mutate_all_or_nothing_witness:
  "\<exists>rg. and_then (read_doc (Inr (Some (render_doc (doc_of_lines False demo_text)))) True) registry_of_doc = Inr rg \<and>
     (\<exists>rg1. demo_change rg = Inr (rg1, True))"
  using locked_mutate_all_or_nothing[OF demo_mutate] by blast

end
