(* ===== verification/RegRead.thy ===== *)
theory RegRead
  imports RegClaims
begin

section \<open>What was read can be written\<close>

text \<open>
  A value of a parsed document is one line of text, or the lines of a block; each of them is a text
  that is written and read back as itself, so the lists the registry reads are lists it can write.
\<close>

definition value_shape :: "string \<Rightarrow> bool" where
  "value_shape v = (\<exists>y0 ys. v = y0 @ concat (map (\<lambda>y. nl # y) ys) \<and> optional_text y0 \<and> list_all listable ys)"

lemma before_comment_prefix: "no_nl (y @ w) \<Longrightarrow> before_comment sp (y @ w) = y @ w \<Longrightarrow> before_comment sp y = y"
  by (induction y arbitrary: sp) (auto simp: no_nl_def split: if_splits)

lemma before_comment_idem: "no_nl s \<Longrightarrow> before_comment sp (before_comment sp s) = before_comment sp s"
  by (induction sp s rule: before_comment.induct) (auto simp: no_nl_def dest: subsetD)

lemma set_before_comment: "set (before_comment sp s) \<subseteq> set s"
  by (induction sp s rule: before_comment.induct) auto

lemma hd_before_comment: "before_comment sp s \<noteq> [] \<Longrightarrow> hd (before_comment sp s) = hd s"
  by (cases s) (auto split: if_splits)

lemma comment_stripped_text:
  assumes "\<forall>c \<in> set t. file_char c" "stripped t"
  shows "optional_text (strip_inline_comment t)"
proof (cases "strip_inline_comment t = []")
  case False
  let ?b = "before_comment True t" and ?y = "strip_inline_comment t"
  have nn: "no_nl t" using assms(1) unfolding no_nl_def by (metis file_char_simps(1))
  obtain w where w: "?b = ?y @ w" using rstrip_prefix[of ?b] by (auto simp: strip_inline_comment_def)
  have sub: "set ?y \<subseteq> set t" using w set_before_comment[of True t] by auto
  then have safe: "file_safe ?y" and nny: "no_nl ?y" using assms(1) nn by (auto simp: file_safe_def no_nl_def)
  have b: "?b \<noteq> []" using False w by auto
  then have "t \<noteq> []" by auto
  then have "\<not> is_space (hd t)" using assms(2) by (simp add: stripped_def)
  moreover have "hd ?y = hd t" using False w hd_before_comment[OF b] by (metis hd_append2)
  ultimately have "\<not> is_space (hd ?y)" by simp
  moreover have "\<not> is_space (last ?y)" using False rstrip_last unfolding strip_inline_comment_def by blast
  ultimately have "stripped ?y" by (simp add: stripped_def)
  moreover have "before_comment True ?y = ?y"
  proof (rule before_comment_prefix)
    show "no_nl (?y @ w)" using w nn set_before_comment[of True t] unfolding no_nl_def by (metis subsetD)
    show "before_comment True (?y @ w) = ?y @ w" using before_comment_idem[OF nn, of True] w by simp
  qed
  ultimately show ?thesis using False safe nny by (simp add: optional_text_def listable_def plain_def)
qed (simp add: optional_text_def)

lemma strip_chars: "\<forall>c \<in> set l. file_char c \<Longrightarrow> optional_text (strip_inline_comment (strip l))"
  using set_strip[of l] by (intro comment_stripped_text) auto

lemma add_line_shape:
  assumes "value_shape v" "\<forall>c \<in> set l. file_char c" shows "value_shape (add_line v l)"
proof (cases "is_comment l \<or> strip_inline_comment (strip l) = []")
  case True
  then show ?thesis using assms(1) by (auto simp: add_line_def)
next
  case False
  from assms(1) obtain y0 ys where v: "v = y0 @ concat (map (\<lambda>y. nl # y) ys)" "optional_text y0" "list_all listable ys"
    by (auto simp: value_shape_def)
  have "listable (strip_inline_comment (strip l))" using strip_chars[OF assms(2)] False by (simp add: optional_text_def)
  with v False show ?thesis unfolding value_shape_def
    by (intro exI[of _ y0] exI[of _ "ys @ [strip_inline_comment (strip l)]"]) (simp add: add_line_def Let_def)
qed

lemma option_shape:
  assumes "wf_item (Opt k v ls)" "all_chars file_char ls" shows "value_shape v"
proof -
  from assms(1) obtain l0 rest v0 where w: "ls = l0 # rest" "fresh_item l0 = Opt k v0 [l0]" "v = foldl add_line v0 rest" by auto
  from w(2) obtain a b where m: "match_option l0 = Some (a, b)" "v0 = strip_inline_comment (strip b)"
    by (auto simp: fresh_item_def split: if_splits option.splits)
  then obtain n where "b = tl (drop n l0)" by (auto simp: match_option_def Let_def split: if_splits)
  then have "b = drop (Suc n) l0" by (simp add: drop_Suc tl_drop)
  then have "set b \<subseteq> set l0" using set_drop_subset[of "Suc n" l0] by simp
  then have "optional_text v0" using m(2) assms(2) w(1) by (auto intro!: strip_chars)
  then have v0: "value_shape v0" unfolding value_shape_def by (intro exI[of _ v0] exI[of _ "[]"]) simp
  have "value_shape (foldl add_line v rest)" if "value_shape v" "all_chars file_char rest" for v and rest :: "string list"
    using that by (induction rest arbitrary: v) (auto intro: add_line_shape)
  with v0 assms(2) w show ?thesis by simp
qed

lemma read_value_shape:
  assumes "all_chars file_char ls" "cfg_get (doc_of_lines f ls) s k None = Some v"
  shows "value_shape v"
proof -
  have item: "\<exists>ls0. Opt k v ls0 \<in> set its" if "(k, v) \<in> set (values_of its)" for its
    using that by (induction its rule: values_of.induct) auto
  have node: "\<exists>n h its. (n, h, its) \<in> set nds \<and> vs = values_of its" if "(s, vs) \<in> set (contents nds)" for nds vs
    using that by (induction nds rule: contents.induct) auto
  from assms(2) obtain vs where "(s, vs) \<in> set (contents (snd (tree_of ls)))" "(k, v) \<in> set vs"
    unfolding cfg_get_tree by (auto simp: lookup2_def split: option.splits dest!: map_of_SomeD)
  with node item obtain n h its ls0 where i: "(n, h, its) \<in> set (snd (tree_of ls))" "Opt k v ls0 \<in> set its" by metis
  have wf: "wf_item (Opt k v ls0)"
  proof -
    have "wf_items its" using wf_tree_of[of ls] i(1) by (auto simp: wf_tree_def wf_node_def)
    then show ?thesis using i(2) by (induction its rule: wf_items.induct) auto
  qed
  have b: "set ls0 \<subseteq> set (body its)" using i(2) by (induction its rule: body.induct) auto
  have "set (body its) \<subseteq> set (flat_nodes nds)" if "(n, h, its) \<in> set nds" for nds
    using that by (induction nds rule: flat_nodes.induct) auto
  with i(1) have "set (body its) \<subseteq> set (flat (tree_of ls))" by (force simp: flat_def)
  with b assms(1) have "all_chars file_char ls0" by (auto simp: all_chars_def)
  with option_shape[OF wf] show ?thesis .
qed

lemma shape_parts:
  assumes "value_shape v" shows "list_all listable (nonblank_parts v)"
proof -
  from assms obtain y0 ys where v: "v = y0 @ concat (map (\<lambda>y. nl # y) ys)" "optional_text y0" "list_all listable ys"
    by (auto simp: value_shape_def)
  show ?thesis
  proof (cases "y0 = []")
    case True
    with v show ?thesis using nonblank_values[OF v(3)] by simp
  next
    case False
    then have l: "listable y0" using v(2) by (simp add: optional_text_def)
    have "list_all (\<lambda>v. v \<noteq> [] \<and> file_safe v) ys" using v(3) by (auto simp: list_all_iff listable_def plain_def)
    with splitlines_values[of ys y0] l False have "splitlines v = y0 # ys" by (simp add: v(1) listable_def)
    moreover have "strip y = y \<and> y \<noteq> []" if "listable y" for y using that by (simp add: listable_def plain_def strip_id)
    ultimately show ?thesis using v(3) l by (auto simp: nonblank_parts_def list_all_iff)
  qed
qed

lemma read_list_listable:
  assumes "store_ok d" shows "list_all listable (get_list d s k)"
proof -
  from assms obtain ls where d: "d = doc_of_lines False ls" "all_chars file_char ls" by (rule store_okE)
  show ?thesis using shape_parts[OF read_value_shape[OF d(2), of False s k]]
    by (auto simp: get_list_def d(1) split: option.split)
qed

end
