(* ===== verification/Tracking.thy ===== *)
theory Tracking
  imports RegRead
begin

section \<open>Tracking boards (tracking.py, provisioning.py, helpers)\<close>

text \<open>
  Tracking a serial, for every builder: the family's helper may reject an identity that will not
  last and name a remedy; \<open>provision\<close> writes a lasting one into the board, under the operation lock,
  before the registry is touched. A helper is its capabilities: \<open>hp_trackable\<close> judges a serial,
  \<open>hp_provision\<close> writes one into a board (the boards are the abstract world \<open>'w\<close>). Both are arguments, as is
  the world.
\<close>

subsection \<open>Helpers\<close>

record track_verdict =
  tv_ok :: bool
  tv_reason :: "string option"
  tv_remedy :: "string option"

datatype board_error = BoardBusy | BoardFailed string

record 'w helper =
  hp_name :: string
  hp_trackable :: "(string \<Rightarrow> track_verdict) option"
  hp_provision :: "(string \<Rightarrow> 'w \<Rightarrow> (string + string) \<times> 'w) option"

text \<open>The table of the registered helpers is an argument; a family's \<open>helper:\<close> is looked up in it.\<close>

definition helper_named :: "(string, 'w helper) dict \<Rightarrow> string \<Rightarrow> string \<Rightarrow> config_error + 'w helper option" where
  "helper_named table name family =
     (if name = [] then Inr None
      else (case dict_get table name of
        None \<Rightarrow> Inl (ConfigCorrupt (''firmware family '' @ repr_str family @ '' configures unknown helper '' @ repr_str name))
      | Some h \<Rightarrow> Inr (Some h)))"

definition trackable_of :: "'w helper option \<Rightarrow> (string \<Rightarrow> track_verdict) option" where
  "trackable_of h = (case h of None \<Rightarrow> None | Some x \<Rightarrow> hp_trackable x)"

definition provisioner_of :: "'w helper option \<Rightarrow> (string \<Rightarrow> 'w \<Rightarrow> (string + string) \<times> 'w) option" where
  "provisioner_of h = (case h of None \<Rightarrow> None | Some x \<Rightarrow> hp_provision x)"

definition helper_for :: "(string, 'w helper) dict \<Rightarrow> string option \<Rightarrow> string \<Rightarrow> config_error + 'w helper option" where
  "helper_for table file name =
     (case read_config (Inr file) of (es, fams) \<Rightarrow>
        (case find (\<lambda>e. te_name e = name) es of
           None \<Rightarrow> Inr None
         | Some e \<Rightarrow>
             (case te_firmwares e of
                [] \<Rightarrow> Inr None
              | fw # _ \<Rightarrow>
                  and_then (resolve_family fams fw) (\<lambda>f. helper_named table (fam_helper f) (fam_name f)))))"

subsection \<open>Adding a serial\<close>

definition tracked_elsewhere :: "registry \<Rightarrow> string \<Rightarrow> string \<Rightarrow> registry_error option" where
  "tracked_elsewhere rg serial name =
     (case filter (\<lambda>t. t \<noteq> name) (find_declared_types_for_serial rg serial) of
        [] \<Rightarrow> None
      | ts \<Rightarrow> Some (TrackedElsewhere SerialId serial name ts))"

definition record_serial :: "string \<Rightarrow> string \<Rightarrow> registry \<Rightarrow> registry_error + registry \<times> (bool \<times> string)" where
  "record_serial name serial rg =
     and_then (get_declared_chipset rg name) (\<lambda>chipset.
       case tracked_elsewhere rg serial name of
         Some e \<Rightarrow> Inl e
       | None \<Rightarrow> and_then (add_declared_serial rg name serial) (\<lambda>(rg', added). Inr (rg', (added, chipset))))"

record tracked =
  tk_added :: bool
  tk_chipset :: string
  tk_serial :: string
  tk_provisioned_from :: "string option"

datatype track_error =
    HelperUnknown config_error
  | Unprovisioned string "string option"
  | RegistryRefused registry_error
  | OpBusy "lock_record option"
  | ProvisionFailed string
  | ProvisionedButRefused string string registry_error

record 'w track_world =
  tw_op_lock :: lock_file
  tw_lock :: lock_file
  tw_file :: "string option"
  tw_boards :: 'w

text \<open>\<open>with exclusive(...)\<close>: the operation lock is held for the call and released however it ends.\<close>

definition exclusively ::
  "nat \<Rightarrow> int \<Rightarrow> string \<Rightarrow> json \<Rightarrow> ('w \<Rightarrow> (string + string) \<times> 'w) \<Rightarrow> 'w track_world \<Rightarrow> (track_error + string) \<times> 'w track_world" where
  "exclusively me pid label now act w =
     (case acquire me pid label now (tw_op_lock w) of
        Inl (Busy r) \<Rightarrow> (Inl (OpBusy r), w)
      | Inr l \<Rightarrow>
          (case act (tw_boards w) of (r, b) \<Rightarrow>
             (map_sum ProvisionFailed id r, w\<lparr>tw_op_lock := release me l, tw_boards := b\<rparr>)))"

definition record_locked ::
  "nat \<Rightarrow> int \<Rightarrow> json \<Rightarrow> string \<Rightarrow> string \<Rightarrow> 'w track_world \<Rightarrow> (registry_error + bool \<times> string) \<times> 'w track_world" where
  "record_locked me pid now name serial w =
     (case locked_mutate me pid (''add serial '' @ serial) now (record_serial name serial) (tw_lock w, tw_file w) of
        ((l, f), r) \<Rightarrow> (r, w\<lparr>tw_lock := l, tw_file := f\<rparr>))"

text \<open>The provisioning half of \<open>add_serial\<close>: the serial to track, and the one it came from.\<close>

definition provision_first ::
  "nat \<Rightarrow> int \<Rightarrow> json \<Rightarrow> (string, 'w helper) dict \<Rightarrow> bool \<Rightarrow> string \<Rightarrow> string \<Rightarrow> 'w track_world \<Rightarrow>
   (track_error + string \<times> string option) \<times> 'w track_world" where
  "provision_first me pid now table may_provision name serial w =
     (case helper_for table (tw_file w) name of
        Inl e \<Rightarrow> (Inl (HelperUnknown e), w)
      | Inr h \<Rightarrow>
          (let verdict = (case trackable_of h of None \<Rightarrow> \<lparr>tv_ok = True, tv_reason = None, tv_remedy = None\<rparr> | Some judge \<Rightarrow> judge serial) in
           if tv_ok verdict then (Inr (serial, None), w)
           else
             (case provisioner_of h of
                None \<Rightarrow> (Inl (Unprovisioned serial (tv_reason verdict)), w)
              | Some prov \<Rightarrow>
                  if tv_remedy verdict \<noteq> Some ''provision'' \<or> \<not> may_provision
                  then (Inl (Unprovisioned serial (tv_reason verdict)), w)
                  else
                    (case registry_load (Inr (tw_file w)) of
                       Inl e \<Rightarrow> (Inl (RegistryRefused (TypesRefused e)), w)
                     | Inr rg \<Rightarrow>
                         (case tracked_elsewhere rg serial name of
                            Some e \<Rightarrow> (Inl (RegistryRefused e), w)
                          | None \<Rightarrow>
                              (case exclusively me pid (''provision '' @ serial @ '' for '' @ name) now (prov serial) w of
                                 (Inl e, w') \<Rightarrow> (Inl e, w')
                               | (Inr new, w') \<Rightarrow> (Inr (new, Some serial), w')))))))"

definition track_serial ::
  "nat \<Rightarrow> int \<Rightarrow> json \<Rightarrow> (string, 'w helper) dict \<Rightarrow> bool \<Rightarrow> string \<Rightarrow> string \<Rightarrow> 'w track_world \<Rightarrow>
   (track_error + tracked) \<times> 'w track_world" where
  "track_serial me pid now table may_provision name serial w =
     (case provision_first me pid now table may_provision name serial w of
        (Inl e, w') \<Rightarrow> (Inl e, w')
      | (Inr (serial', origin), w') \<Rightarrow>
          (case record_locked me pid now name serial' w' of
             (Inl e, w'') \<Rightarrow>
               (Inl (case origin of None \<Rightarrow> RegistryRefused e | Some old \<Rightarrow> ProvisionedButRefused old serial' e), w'')
           | (Inr (added, chipset), w'') \<Rightarrow>
               (Inr \<lparr>tk_added = added, tk_chipset = chipset, tk_serial = serial', tk_provisioned_from = origin\<rparr>, w'')))"

definition untrack_serial :: "string \<Rightarrow> string \<Rightarrow> registry \<Rightarrow> registry_error + registry \<times> bool" where
  "untrack_serial name serial rg =
     and_then (get_declared_chipset rg name) (\<lambda>_. remove_declared_serial rg name serial)"

definition untrack_type :: "string \<Rightarrow> registry \<Rightarrow> registry_error + registry \<times> string list" where
  "untrack_type name rg = remove_declared_type rg name"

subsection \<open>Provisioning what appeared on the bus\<close>

text \<open>One family's pass over the serials of a sweep; \<open>tried\<close> are the serials a family already wrote. The
  judge may raise (\<open>None\<close>), which ends the family's pass.\<close>

record auto_state =
  au_retry :: bool
  au_tried :: "string list"

fun auto_serials ::
  "nat \<Rightarrow> int \<Rightarrow> json \<Rightarrow> bool \<Rightarrow> (string \<Rightarrow> track_verdict option) \<Rightarrow> (string \<Rightarrow> 'w \<Rightarrow> (string + string) \<times> 'w) \<Rightarrow>
   string list \<Rightarrow> auto_state \<Rightarrow> 'w track_world \<Rightarrow> auto_state \<times> 'w track_world" where
  "auto_serials me pid now may judge prov [] a w = (a, w)"
| "auto_serials me pid now may judge prov (serial # rest) a w =
     (case judge serial of
        None \<Rightarrow> (a, w)
      | Some v \<Rightarrow>
          if tv_ok v \<or> tv_remedy v \<noteq> Some ''provision'' \<or> \<not> may \<or> serial \<in> set (au_tried a)
          then auto_serials me pid now may judge prov rest a w
          else
            (let a1 = a\<lparr>au_tried := au_tried a @ [serial]\<rparr> in
             case exclusively me pid (''auto-provision '' @ serial) now (prov serial) w of
               (r, w') \<Rightarrow>
                 auto_serials me pid now may judge prov rest
                   (case r of Inl (OpBusy _) \<Rightarrow> a1\<lparr>au_retry := True\<rparr> | _ \<Rightarrow> a1) w'))"

fun auto_families ::
  "nat \<Rightarrow> int \<Rightarrow> json \<Rightarrow> bool \<Rightarrow> (string, 'w helper) dict \<Rightarrow> ('w helper \<Rightarrow> (string \<Rightarrow> track_verdict option) option) \<Rightarrow>
   string list \<Rightarrow> family list \<Rightarrow> auto_state \<Rightarrow> 'w track_world \<Rightarrow> auto_state \<times> 'w track_world" where
  "auto_families me pid now may table judge serials [] a w = (a, w)"
| "auto_families me pid now may table judge serials (f # fs) a w =
     (if \<not> fam_auto_provision f then auto_families me pid now may table judge serials fs a w
      else
        (case helper_named table (fam_helper f) (fam_name f) of
           Inr (Some h) \<Rightarrow>
             (case (judge h, hp_provision h) of
                (Some j, Some prov) \<Rightarrow>
                  (case auto_serials me pid now may j prov serials a w of
                     (a', w') \<Rightarrow> auto_families me pid now may table judge serials fs a' w')
              | _ \<Rightarrow> auto_families me pid now may table judge serials fs a w)
         | _ \<Rightarrow> auto_families me pid now may table judge serials fs a w))"

definition auto_provision ::
  "nat \<Rightarrow> int \<Rightarrow> json \<Rightarrow> bool \<Rightarrow> (string, 'w helper) dict \<Rightarrow> ('w helper \<Rightarrow> (string \<Rightarrow> track_verdict option) option) \<Rightarrow>
   string list \<Rightarrow> 'w track_world \<Rightarrow> bool \<times> 'w track_world" where
  "auto_provision me pid now may table judge devices w =
     (case auto_families me pid now may table judge (sort devices) (map snd (snd (read_config (Inr (tw_file w)))))
             \<lparr>au_retry = False, au_tried = []\<rparr> w of
        (a, w') \<Rightarrow> (au_retry a, w'))"

subsection \<open>What a document declares\<close>

definition declared_under :: "cfg_doc \<Rightarrow> string \<Rightarrow> string \<Rightarrow> bool" where
  "declared_under d t x = (\<exists>sec. (t, sec) \<in> set (type_sections d) \<and> x \<in> set (get_list d sec ''serials''))"

lemma find_declared: "t \<in> set (find_declared_types_for_serial rg x) \<longleftrightarrow> declared_under (rg_doc rg) t x"
  by (auto simp: find_declared_types_for_serial_def declared_with_def declared_under_def image_iff)

lemma declared_unique:
  "(t, s0) \<in> set (type_sections d) \<Longrightarrow> (\<And>sec. (t, sec) \<in> set (type_sections d) \<Longrightarrow> sec = s0) \<Longrightarrow>
   declared_under d t x \<longleftrightarrow> x \<in> set (get_list d s0 ''serials'')"
  unfolding declared_under_def by blast

lemma saved_view:
  assumes ok: "registry_ok rg" and save: "registry_save rg = Inr (rg', text)" and rd: "read_doc (Inr (Some text)) False = Inr (Some p)"
    and d: "save_types (names_of (load_families (rg_doc rg))) (rg_types rg) (rg_doc rg) = Inr d"
  shows "same_view p d"
proof -
  from reload[OF ok save] obtain d' p' where r: "rg' = rg\<lparr>rg_doc := d'\<rparr>" "read_doc (Inr (Some text)) False = Inr (Some p')" "same_view p' d'" by blast
  have "rg_doc rg' = d" using save d by (auto simp: registry_save_def Let_def)
  then have "d' = d" using r(1) by simp
  moreover have "p' = p" using r(2) rd by simp
  ultimately show ?thesis using r(3) by simp
qed

text \<open>The serials of a saved registry: of its own types those it holds, of the others those of its document.\<close>

lemma declared_saved:
  assumes ok: "registry_ok rg" and save: "registry_save rg = Inr (rg', text)" and rd: "read_doc (Inr (Some text)) False = Inr (Some p)"
  shows "declared_under p t x \<longleftrightarrow>
    (case dict_get (rg_types rg) t of Some m \<Rightarrow> x \<in> set (mt_serials m) | None \<Rightarrow> declared_under (rg_doc rg) t x)"
proof -
  let ?d = "rg_doc rg"
  define fams where "fams = load_families ?d"
  from save_doc[OF ok fams_def] obtain d where d: "save_types (names_of fams) (rg_types rg) ?d = Inr d" "saved_doc rg fams d" "sections_after rg d"
    "section_names d None = section_names ?d None @ filter (\<lambda>s. s \<notin> set (section_names ?d None)) (map (section_for ?d \<circ> fst) (rg_types rg))"
    by (elim exE conjE) (rule that)
  have v: "same_view p d" using saved_view[OF ok save rd] d(1) by (simp add: fams_def)
  have e: "declared_under p t x \<longleftrightarrow> declared_under d t x" by (simp add: declared_under_def view_simps[OF v])
  show ?thesis
  proof (cases "dict_get (rg_types rg) t")
    case (Some m)
    then have w: "written d (section_for ?d t) (names_of fams) m" "(t, section_for ?d t) \<in> set (type_sections d)"
      using d(2) by (auto simp: saved_doc_def)
    have g: "good_mcu m" using ok map_of_SomeD[OF Some] by (auto simp: registry_ok_def Let_def saveable_def list_all_iff)
    have l: "get_list d (section_for ?d t) ''serials'' = mt_serials m"
      using written_own(2)[OF w(1)] g by (intro get_list_value) (auto simp: good_mcu_def)
    have "t \<in> fst ` set (rg_types rg)" using map_of_SomeD[OF Some] by force
    then have u: "sec = section_for ?d t" if "(t, sec) \<in> set (type_sections d)" for sec
      using d(3) that unfolding sections_after_def by blast
    from declared_unique[OF w(2) u, of x] l Some e show ?thesis by simp
  next
    case None
    then have t: "t \<notin> fst ` set (rg_types rg)" by (simp add: map_of_eq_None_iff)
    have a: "get_list d sec ''serials'' = get_list ?d sec ''serials'' \<and> (t, sec) \<in> set (type_sections ?d)" if "(t, sec) \<in> set (type_sections d)" for sec
      using d(3) that t by (auto simp: sections_after_def get_list_def)
    have b: "set (type_sections ?d) \<subseteq> set (type_sections d)" unfolding type_sections_names d(4) by auto
    have "declared_under d t x \<longleftrightarrow> declared_under ?d t x"
      unfolding declared_under_def
    proof (intro iffI; elim exE conjE)
      fix sec assume s: "(t, sec) \<in> set (type_sections d)" "x \<in> set (get_list d sec ''serials'')"
      then show "\<exists>sec. (t, sec) \<in> set (type_sections ?d) \<and> x \<in> set (get_list ?d sec ''serials'')"
        using a[OF s(1)] by (intro exI[of _ sec]) simp
    next
      fix sec assume s: "(t, sec) \<in> set (type_sections ?d)" "x \<in> set (get_list ?d sec ''serials'')"
      then have i: "(t, sec) \<in> set (type_sections d)" using b by blast
      show "\<exists>sec. (t, sec) \<in> set (type_sections d) \<and> x \<in> set (get_list d sec ''serials'')"
        using a[OF i] i s by (intro exI[of _ sec]) simp
    qed
    with None e show ?thesis by simp
  qed
qed

text \<open>A registry as it was loaded agrees with its document.\<close>

lemma read_mcus_source:
  "read_mcus d acc es = Inr types \<Longrightarrow> dict_get types n = Some m \<Longrightarrow>
   dict_get acc n = Some m \<or> (\<exists>e \<in> set es. te_name e = n \<and> te_builder e = ''kconfig_make'' \<and> read_mcu d e = Inr m)"
proof (induction es arbitrary: acc)
  case (Cons e es)
  show ?case
  proof (cases "te_builder e = ''kconfig_make''")
    case True
    with Cons.prems(1) obtain m' where m': "read_mcu d e = Inr m'" "read_mcus d (dict_set acc (te_name e) m') es = Inr types" by auto
    from Cons.IH[OF m'(2) Cons.prems(2)] m'(1) True show ?thesis by (auto split: if_splits)
  next
    case False
    with Cons show ?thesis by auto
  qed
qed simp

lemma loaded_declared:
  assumes ld: "registry_of_doc (Some d) = Inr rg" and dist: "distinct (map fst (type_sections d))" and m: "dict_get (rg_types rg) t = Some m"
  shows "declared_under d t x \<longleftrightarrow> x \<in> set (mt_serials m)" "rg_doc rg = d"
proof -
  let ?fams = "load_families d"
  from ld obtain types where r: "read_mcus d [] (read_types d ?fams) = Inr types" "rg = \<lparr>rg_types = types, rg_doc = d\<rparr>"
    by (auto simp: registry_of_doc_def Let_def)
  from read_mcus_source[OF r(1), of t m] m r(2) obtain e where e: "e \<in> set (read_types d ?fams)" "te_name e = t" "read_mcu d e = Inr m"
    by auto
  have s: "mt_serials m = get_list d (te_section e) ''serials''"
    using e(1,3) by (auto simp: read_mcu_def read_types_def read_entry_def Let_def)
  have t: "(t, te_section e) \<in> set (type_sections d)" using entry_shape(2)[OF e(1)] e(2) by simp
  have u: "sec = te_section e" if "(t, sec) \<in> set (type_sections d)" for sec
    using section_for_unique[OF dist that] section_for_unique[OF dist t] by simp
  show "declared_under d t x \<longleftrightarrow> x \<in> set (mt_serials m)" using declared_unique[OF t u, of x] s by simp
  show "rg_doc rg = d" using r(2) by simp
qed

subsection \<open>One board, one type\<close>

lemma registry_ok_set_mcu:
  assumes ok: "registry_ok rg" and m: "dict_get (rg_types rg) n = Some m"
    and m': "good_mcu m'" "mt_name m' = mt_name m" "mt_firmwares m' = mt_firmwares m"
  shows "registry_ok (set_mcu rg n m')"
proof -
  have k: "dict_keys (dict_set (rg_types rg) n m') = dict_keys (rg_types rg)"
    using map_of_SomeD[OF m] by (force simp: dict_keys_set)
  have sub: "set (dict_set d n m') \<subseteq> insert (n, m') (set d)" for d :: "(string, mcu_type) dict"
    by (induction d n m' rule: dict_set.induct) auto
  have keys: "fst ` set (dict_set (rg_types rg) n m') = fst ` set (rg_types rg)"
    using arg_cong[OF k, of set] by simp
  have all: "list_all P (dict_set (rg_types rg) n m')" if "list_all P (rg_types rg)" "P (n, m')" for P
    using that sub[of "rg_types rg"] by (auto simp: list_all_iff)
  have nm: "good_type_name n" "mt_name m = n"
    "builder_of (load_families (rg_doc rg)) (hd (mt_firmwares m)) = ''kconfig_make''" "set (mt_firmwares m) \<subseteq> set (dict_keys (load_families (rg_doc rg)))"
    using ok map_of_SomeD[OF m] unfolding registry_ok_def Let_def saveable_def list_all_iff by auto
  show ?thesis
    using ok m' nm k unfolding registry_ok_def Let_def set_mcu_def saveable_def
    by (simp add: all keys del: fst_set_dict_set)
qed

lemma registry_ok_doc:
  assumes ok: "registry_ok rg" and d: "store_ok d" "section_names d None = section_names (rg_doc rg) None"
    and same: "\<And>s k. k \<noteq> ''serials'' \<or> \<not> is_type_section s \<Longrightarrow> cfg_get d s k None = cfg_get (rg_doc rg) s k None"
  shows "registry_ok (rg\<lparr>rg_doc := d\<rparr>)"
proof -
  have n: "section_names d None = section_names (rg_doc rg) None @ []" using d(2) by simp
  have f: "load_families d = load_families (rg_doc rg)" by (rule families_after[OF n]) (simp_all add: same)
  have t: "type_sections d = type_sections (rg_doc rg)" by (simp add: type_sections_names d(2))
  have "te_name e \<in> fst ` set (rg_types rg)" if e: "e \<in> set (read_types d fams)" and b: "te_builder e = ''kconfig_make''"
      and f: "fams = load_families (rg_doc rg)" for e fams
  proof -
    from e obtain ns where ns: "ns \<in> set (type_sections (rg_doc rg))" "e = read_entry d fams ns" by (auto simp: read_types_def t)
    let ?e = "read_entry (rg_doc rg) fams ns"
    have "te_name ?e = te_name e \<and> te_builder ?e = te_builder e"
      unfolding ns(2) by (cases ns) (simp add: read_entry_def Let_def csv_or_empty_def get_csv_def same te_builder_def)
    moreover have "?e \<in> set (read_types (rg_doc rg) fams)" using ns(1) by (simp add: read_types_def)
    ultimately show ?thesis using ok b f unfolding registry_ok_def Let_def list_all_iff by metis
  qed
  with ok d(1) show ?thesis unfolding registry_ok_def Let_def by (simp add: f t list_all_iff)
qed

text \<open>Both halves of \<open>add_declared_serial\<close>: the registry that is saved, and what it declares.\<close>

lemma add_declared_effect:
  assumes ok: "registry_ok rg" and ld: "registry_of_doc (Some d) = Inr rg" and x: "listable x"
    and add: "add_declared_serial rg n x = Inr (rg1, b)"
  shows "registry_ok rg1 \<and> (\<forall>t y. (case dict_get (rg_types rg1) t of Some m \<Rightarrow> y \<in> set (mt_serials m) | None \<Rightarrow> declared_under (rg_doc rg1) t y) \<longleftrightarrow>
     declared_under d t y \<or> t = n \<and> y = x)"
proof -
  have doc: "rg_doc rg = d" using ld by (auto simp: registry_of_doc_def Let_def)
  have dist: "distinct (map fst (type_sections d))" and st: "store_ok d" using ok by (simp_all add: registry_ok_def Let_def doc)
  have own: "(case dict_get (rg_types rg) t of Some m \<Rightarrow> y \<in> set (mt_serials m) | None \<Rightarrow> declared_under d t y) \<longleftrightarrow> declared_under d t y" for t y
    using loaded_declared(1)[OF ld dist, of t] by (simp split: option.split)
  show ?thesis
  proof (cases "dict_get (rg_types rg) n")
    case (Some m)
    then have h: "dict_has (rg_types rg) n" by (simp add: dict_has_def)
    have g: "good_mcu m" using ok map_of_SomeD[OF Some] by (auto simp: registry_ok_def Let_def saveable_def list_all_iff)
    have dm: "declared_under d n y \<longleftrightarrow> y \<in> set (mt_serials m)" for y by (rule loaded_declared(1)[OF ld dist Some])
    show ?thesis
    proof (cases "x \<in> set (mt_serials m)")
      case True
      with add h Some have "rg1 = rg" by (simp add: add_declared_serial_def add_serial_def registry_get_def)
      then show ?thesis using ok own True dm doc by auto
    next
      case False
      let ?m = "m\<lparr>mt_serials := mt_serials m @ [x]\<rparr>"
      from False add h Some have r: "rg1 = set_mcu rg n ?m" by (simp add: add_declared_serial_def add_serial_def registry_get_def)
      have "good_mcu ?m" using g x by (simp add: good_mcu_def)
      then have "registry_ok rg1" unfolding r by (intro registry_ok_set_mcu[OF ok Some]) simp_all
      moreover have "dict_get (rg_types rg1) t = (if t = n then Some ?m else dict_get (rg_types rg) t)" "rg_doc rg1 = d" for t
        using doc by (simp_all add: r set_mcu_def)
      ultimately show ?thesis using own dm by auto
    qed
  next
    case None
    then have h: "\<not> dict_has (rg_types rg) n" by (simp add: dict_has_def)
    from add h obtain sec where sec: "declared_section rg n = Inr sec" by (auto simp: add_declared_serial_def)
    then have t: "(n, sec) \<in> set (type_sections d)"
      by (auto simp: declared_section_def doc split: option.splits dest!: find_sat)
    have u: "s = sec" if "(n, s) \<in> set (type_sections d)" for s
      using section_for_unique[OF dist that] section_for_unique[OF dist t] by simp
    have ty: "is_type_section sec" "sec \<in> set (section_names d None)" using t by (auto simp: type_sections_names)
    show ?thesis
    proof (cases "x \<in> set (get_list d sec ''serials'')")
      case True
      with add h sec doc have "rg1 = rg" by (simp add: add_declared_serial_def Let_def)
      then show ?thesis using ok own doc True declared_unique[OF t u] by auto
    next
      case False
      let ?v = "VList (get_list d sec ''serials'' @ [x])"
      from False add h sec doc obtain d1 where r: "set_option sec ''serials'' ?v d = Inr d1" "rg1 = rg\<lparr>rg_doc := d1\<rparr>"
        by (cases "set_option sec ''serials'' ?v d") (auto simp: add_declared_serial_def Let_def edit_doc_def)
      have "sec \<noteq> []" using ty(1) by (cases sec) (auto simp: is_type_section_def TYPE_PREFIX_def starts_with_def)
      with doc_section_good[OF st ty(2)] have gs: "good_section sec" by blast
      have ge: "good_edit (Put ''serials'' ?v)"
        using read_list_listable[OF st, of sec "''serials''"] x by (intro good_put_list good_const_keys) simp_all
      from doc.put_law[OF st gs ge] r(1) ty(2) have d1: "store_ok d1"
        "\<forall>s' k'. cfg_get d1 s' k' None = (if s' = sec \<and> k' = ''serials'' then Some (value_text ?v) else cfg_get d s' k' None)"
        "section_names d1 None = section_names d None" by auto
      have ok1: "registry_ok rg1" unfolding r(2)
        by (rule registry_ok_doc[OF ok d1(1)]) (use d1(2,3) doc ty(1) in auto)
      have t1: "type_sections d1 = type_sections d" by (simp add: type_sections_names d1(3))
      have l: "get_list d1 sec ''serials'' = get_list d sec ''serials'' @ [x]"
        using d1(2) read_list_listable[OF st, of sec "''serials''"] x by (intro get_list_value) simp_all
      have o: "get_list d1 s ''serials'' = get_list d s ''serials''" if "s \<noteq> sec" for s
        using d1(2) that by (simp add: get_list_def)
      have main: "declared_under d1 t y \<longleftrightarrow> declared_under d t y \<or> t = n \<and> y = x" for t y
      proof (cases "t = n")
        case True
        have a: "declared_under d n y \<longleftrightarrow> y \<in> set (get_list d sec ''serials'')" by (rule declared_unique[OF t u])
        have b: "declared_under d1 n y \<longleftrightarrow> y \<in> set (get_list d1 sec ''serials'')"
          by (rule declared_unique[OF _ u]) (simp_all add: t1 t)
        show ?thesis unfolding True a b l by auto
      next
        case False
        have "s \<noteq> sec" if "(t, s) \<in> set (type_sections d)" for s
          using that t False by (auto simp: type_sections_names)
        with o False show ?thesis by (auto simp: declared_under_def t1)
      qed
      have "(case dict_get (rg_types rg1) t of Some m \<Rightarrow> y \<in> set (mt_serials m) | None \<Rightarrow> declared_under (rg_doc rg1) t y) \<longleftrightarrow>
         declared_under d t y \<or> t = n \<and> y = x" for t y
      proof (cases "dict_get (rg_types rg) t")
        case None
        with main show ?thesis by (simp add: r(2))
      next
        case (Some m)
        with None have "t \<noteq> n" by auto
        with Some own[of t y] show ?thesis by (simp add: r(2))
      qed
      with ok1 show ?thesis by blast
    qed
  qed
qed

definition one_type_each :: "cfg_doc \<Rightarrow> bool" where
  "one_type_each d = (\<forall>x t u. declared_under d t x \<and> declared_under d u x \<longrightarrow> t = u)"

text \<open>C9: one board is never tracked under two types. When recording a serial under a type is saved, the
  next load finds the serial under that type and under no other - whichever builders own the types -
  and every other declared serial where it was; so if each serial was declared under one type
  before, it still is.\<close>

theorem one_board_one_type:
  assumes "registry_of_doc (Some d) = Inr rg" and "registry_ok rg" and "listable serial"
    and "record_serial name serial rg = Inr (rg1, added, chipset)" and "registry_save rg1 = Inr (rg', text)"
  shows "\<exists>p. read_doc (Inr (Some text)) False = Inr (Some p) \<and>
     (\<forall>t x. declared_under p t x \<longleftrightarrow> declared_under d t x \<or> t = name \<and> x = serial) \<and>
     (\<forall>t. declared_under p t serial \<longleftrightarrow> t = name) \<and> (one_type_each d \<longrightarrow> one_type_each p)"
proof -
  have doc: "rg_doc rg = d" using assms(1) by (auto simp: registry_of_doc_def Let_def)
  from assms(4) have none: "tracked_elsewhere rg serial name = None" and add: "add_declared_serial rg name serial = Inr (rg1, added)"
    by (auto simp: record_serial_def split: option.splits prod.splits)
  from none have only: "t = name" if "declared_under d t serial" for t
    using that find_declared[of t rg serial] by (auto simp: tracked_elsewhere_def doc filter_empty_conv split: list.splits)
  from add_declared_effect[OF assms(2,1,3) add] have ok1: "registry_ok rg1" and
    eff: "\<forall>t y. (case dict_get (rg_types rg1) t of Some m \<Rightarrow> y \<in> set (mt_serials m) | None \<Rightarrow> declared_under (rg_doc rg1) t y) \<longleftrightarrow>
       declared_under d t y \<or> t = name \<and> y = serial" by blast+
  from reload[OF ok1 assms(5)] obtain p where p: "read_doc (Inr (Some text)) False = Inr (Some p)" by blast
  have all: "declared_under p t x \<longleftrightarrow> declared_under d t x \<or> t = name \<and> x = serial" for t x
    using declared_saved[OF ok1 assms(5) p, of t x] eff by simp
  then have "one_type_each p" if "one_type_each d" using that only unfolding one_type_each_def by metis
  with p all only show ?thesis by blast
qed

definition demo_loaded :: registry where
  "demo_loaded = \<lparr>rg_types = [(''ebb'', demo_mcu\<lparr>mt_serials := [''A1''], mt_fws := [(''klipper'', empty_fw_config)]\<rparr>)],
     rg_doc = doc_of_lines False demo_text\<rparr>"

definition demo_recorded :: registry where
  "demo_recorded = demo_loaded\<lparr>rg_types := [(''ebb'', demo_mcu\<lparr>mt_fws := [(''klipper'', empty_fw_config)]\<rparr>)]\<rparr>"

lemma demo_tracking_loaded: "registry_of_doc (Some (doc_of_lines False demo_text)) = Inr demo_loaded"
  by code_simp

lemma demo_tracking_ok: "registry_ok demo_loaded"
proof -
  have d: "rg_doc demo_loaded = doc_of_lines False demo_text" by (simp add: demo_loaded_def)
  have f: "load_families (doc_of_lines False demo_text) = load_families (rg_doc demo_registry)" by (simp add: demo_registry_def)
  have s: "distinct (map fst (type_sections (doc_of_lines False demo_text)))" by code_simp
  have sv: "saveable (names_of (load_families (rg_doc demo_registry))) (rg_types demo_loaded)" unfolding demo_families by code_simp
  have t: "list_all (\<lambda>(n, m). mt_name m = n \<and> builder_of (load_families (rg_doc demo_registry)) (hd (mt_firmwares m)) = ''kconfig_make'' \<and>
       set (mt_firmwares m) \<subseteq> set (dict_keys (load_families (rg_doc demo_registry)))) (rg_types demo_loaded)" unfolding demo_families by code_simp
  have e: "list_all (\<lambda>e. te_builder e = ''kconfig_make'' \<longrightarrow> te_name e \<in> fst ` set (rg_types demo_loaded))
      (read_types (doc_of_lines False demo_text) (load_families (rg_doc demo_registry)))" unfolding demo_families by code_simp
  show ?thesis unfolding registry_ok_def Let_def d f by (intro conjI demo_store s sv t e)
qed

lemma demo_tracking_recorded:
  "listable ''B2''" "record_serial ''ebb'' ''B2'' demo_loaded = Inr (demo_recorded, True, ''rp2040'')"
  by code_simp+

lemma demo_tracking_saved: "registry_save demo_recorded =
   Inr (demo_recorded\<lparr>rg_doc := doc_of_lines False demo_after\<rparr>, render_doc (doc_of_lines False demo_after))"
  by code_simp

theorem one_board_one_type_witness:
  "\<exists>p. read_doc (Inr (Some (render_doc (doc_of_lines False demo_after)))) False = Inr (Some p) \<and>
     (\<forall>t. declared_under p t ''B2'' \<longleftrightarrow> t = ''ebb'')"
  using one_board_one_type[OF demo_tracking_loaded demo_tracking_ok demo_tracking_recorded demo_tracking_saved] by (elim exE conjE) (intro exI conjI; assumption)

subsection \<open>A board is written only when nothing else can refuse\<close>

lemma exclusively_world:
  "tw_boards (snd (exclusively me pid label now act w)) \<noteq> tw_boards w \<Longrightarrow>
   lf_owner (tw_op_lock w) = None \<and> tw_boards (snd (exclusively me pid label now act w)) = snd (act (tw_boards w))"
  by (auto simp: exclusively_def acquire_def split: if_splits prod.splits)

lemma exclusively_other: "tw_file (snd (exclusively me pid label now act w)) = tw_file w"
  by (auto simp: exclusively_def acquire_def split: if_splits prod.splits)

lemma record_locked_boards: "tw_boards (snd (record_locked me pid now name serial w)) = tw_boards w"
  by (simp add: record_locked_def split: prod.split)

text \<open>C10: tracking a serial writes a board at most once, and only when nothing else could have refused it: the type's
  helper rejected the serial and named provisioning as the remedy, the caller may provision, the
  configuration loads, no other type tracks the serial, and no other operation holds the lock. The
  write is that helper's, for that serial. When a board was written and the registry then refuses,
  the error names the old and the new serial.\<close>

theorem provision_guarded:
  assumes "track_serial me pid now table may name serial w = (r, w')" and "tw_boards w' \<noteq> tw_boards w"
  shows "may \<and> lf_owner (tw_op_lock w) = None \<and>
    (\<exists>h judge prov rg. helper_for table (tw_file w) name = Inr (Some h) \<and> hp_trackable h = Some judge \<and> hp_provision h = Some prov \<and>
       \<not> tv_ok (judge serial) \<and> tv_remedy (judge serial) = Some ''provision'' \<and>
       registry_load (Inr (tw_file w)) = Inr rg \<and> (\<forall>t. declared_under (rg_doc rg) t serial \<longrightarrow> t = name) \<and>
       tw_boards w' = snd (prov serial (tw_boards w)) \<and>
       (\<forall>e. r \<noteq> Inl (RegistryRefused e)) \<and>
       (\<forall>t. r = Inr t \<longrightarrow> tk_provisioned_from t = Some serial \<and> fst (prov serial (tw_boards w)) = Inr (tk_serial t)))"
proof -
  obtain r1 w1 where p: "provision_first me pid now table may name serial w = (r1, w1)" by fastforce
  have b: "tw_boards w' = tw_boards w1"
    using assms(1) p record_locked_boards[of me pid now name _ w1]
    by (auto simp: track_serial_def split: sum.splits prod.splits) (metis snd_conv)+
  with assms(2) have ne: "tw_boards w1 \<noteq> tw_boards w" by simp
  from p ne obtain h where h: "helper_for table (tw_file w) name = Inr h"
    by (auto simp: provision_first_def split: sum.splits)
  define verdict where "verdict = (case trackable_of h of None \<Rightarrow> \<lparr>tv_ok = True, tv_reason = None, tv_remedy = None\<rparr> | Some judge \<Rightarrow> judge serial)"
  from p ne h obtain prov rg where q: "\<not> tv_ok verdict" "provisioner_of h = Some prov" "tv_remedy verdict = Some ''provision''" "may"
    "registry_load (Inr (tw_file w)) = Inr rg" "tracked_elsewhere rg serial name = None"
    by (auto simp: provision_first_def verdict_def[symmetric] Let_def split: if_splits option.splits sum.splits)
  let ?x = "exclusively me pid (''provision '' @ serial @ '' for '' @ name) now (prov serial) w"
  from p h q have x: "(r1, w1) = (case ?x of (Inl e, w') \<Rightarrow> (Inl e, w') | (Inr new, w') \<Rightarrow> (Inr (new, Some serial), w'))"
    by (simp add: provision_first_def verdict_def[symmetric] Let_def split: if_splits)
  then have w1: "w1 = snd ?x" by (auto split: prod.splits sum.splits)
  from exclusively_world[of me pid "''provision '' @ serial @ '' for '' @ name" now "prov serial" w] ne w1
  have e: "lf_owner (tw_op_lock w) = None" "tw_boards w1 = snd (prov serial (tw_boards w))" by simp_all
  have r1: "r1 = (case fst (prov serial (tw_boards w)) of Inl m \<Rightarrow> Inl (ProvisionFailed m) | Inr new \<Rightarrow> Inr (new, Some serial))"
    using x e(1) by (auto simp: exclusively_def acquire_def split: prod.splits sum.splits)
  obtain hp judge where hp: "h = Some hp" "hp_trackable hp = Some judge" "hp_provision hp = Some prov" "verdict = judge serial"
    using q(1,2) by (auto simp: verdict_def provisioner_of_def trackable_of_def split: option.splits)
  have none: "\<forall>t. declared_under (rg_doc rg) t serial \<longrightarrow> t = name"
    using q(6) find_declared[of _ rg serial] by (auto simp: tracked_elsewhere_def filter_empty_conv split: list.splits)
  have res: "(\<forall>e. r \<noteq> Inl (RegistryRefused e)) \<and>
       (\<forall>t. r = Inr t \<longrightarrow> tk_provisioned_from t = Some serial \<and> fst (prov serial (tw_boards w)) = Inr (tk_serial t))"
    using assms(1) p r1 by (auto simp: track_serial_def split: sum.splits prod.splits)
  show ?thesis using q(3,4) hp h e none res b q(1) q(5)
    by (intro conjI exI[of _ hp] exI[of _ judge] exI[of _ prov] exI[of _ rg]) simp_all
qed

definition demo_board :: "nat helper" where
  "demo_board = \<lparr>hp_name = ''rr'',
     hp_trackable = Some (\<lambda>s. \<lparr>tv_ok = s \<noteq> ''NEW'', tv_reason = None, tv_remedy = Some ''provision''\<rparr>),
     hp_provision = Some (\<lambda>s n. (Inr ''B2'', n + 1))\<rparr>"

definition demo_with_helper :: "string list" where
  "demo_with_helper = [''[firmware klipper]'', ''flashers: flashtool'', ''helper: rr'', ''[type ebb]'', ''chipset: rp2040'', ''serials:'', ''    A1'',
     ''firmware: klipper'']"

definition demo_world :: "nat track_world" where
  "demo_world = \<lparr>tw_op_lock = \<lparr>lf_owner = None, lf_text = None\<rparr>, tw_lock = \<lparr>lf_owner = None, lf_text = None\<rparr>,
     tw_file = Some (render_doc (doc_of_lines False demo_with_helper)), tw_boards = 0\<rparr>"

lemma demo_track:
  "fst (track_serial 0 1 JNull [(''rr'', demo_board)] True ''ebb'' ''NEW'' demo_world) =
     Inr \<lparr>tk_added = True, tk_chipset = ''rp2040'', tk_serial = ''B2'', tk_provisioned_from = Some ''NEW''\<rparr>"
  "tw_boards (snd (track_serial 0 1 JNull [(''rr'', demo_board)] True ''ebb'' ''NEW'' demo_world)) = 1"
  by code_simp+

theorem provision_guarded_witness:
  "tw_boards (snd (track_serial 0 1 JNull [(''rr'', demo_board)] True ''ebb'' ''NEW'' demo_world)) = 1 \<and>
   (\<exists>h. helper_for [(''rr'', demo_board)] (tw_file demo_world) ''ebb'' = Inr (Some h))"
proof -
  have ne: "tw_boards (snd (track_serial 0 1 JNull [(''rr'', demo_board)] True ''ebb'' ''NEW'' demo_world)) \<noteq> tw_boards demo_world"
    by (simp add: demo_track(2)) (simp add: demo_world_def)
  from provision_guarded[OF surjective_pairing ne] demo_track(2) show ?thesis by blast
qed

end
