(* ===== verification/Snapshot.thy ===== *)
theory Snapshot
  imports CfgDoc
begin

section \<open>One parse of the config, shared until the file changes (cfgsnapshot.py)\<close>

text \<open>
  A read opens the file, takes the handle's stat, and answers from the cache when the key is the one
  the cached parse was stored under; otherwise it reads, parses and stats again (\<open>snap_lookup\<close>, then
  \<open>snap_store\<close>: the cache lock is held for each of them, so the reads of two threads interleave there).
  What the file system answers is an argument: \<open>opened\<close> for one call. \<open>history\<close> is the life of the
  file as its versions with the moments they began, to say what those answers are.
\<close>

subsection \<open>The cache\<close>

definition RACY_WINDOW_NS :: int where "RACY_WINDOW_NS = 2000000000"

record fstat =
  st_dev :: int
  st_ino :: int
  st_size :: int
  st_mtime_ns :: int
  st_ctime_ns :: int

type_synonym snap_key = "int \<times> int \<times> int \<times> int \<times> int"

definition stat_key :: "fstat \<Rightarrow> snap_key" where
  "stat_key st = (st_dev st, st_ino st, st_size st, st_mtime_ns st, st_ctime_ns st)"

record snap_entry =
  se_doc :: cfg_doc
  se_key :: snap_key

type_synonym snap_cache = "(string, snap_entry) dict"

definition snap_lookup :: "string \<Rightarrow> fstat \<Rightarrow> snap_cache \<Rightarrow> cfg_doc option" where
  "snap_lookup path before cache =
     (case dict_get cache path of
        Some e \<Rightarrow> if se_key e = stat_key before then Some (se_doc e) else None
      | None \<Rightarrow> None)"

definition snap_store :: "string \<Rightarrow> fstat \<Rightarrow> int \<Rightarrow> string \<Rightarrow> fstat \<Rightarrow> snap_cache \<Rightarrow> cfg_doc \<times> snap_cache" where
  "snap_store path before started text after cache =
     (let doc = freeze (parse_doc text); key = stat_key after;
          trusted = key = stat_key before \<and> started - st_mtime_ns after > RACY_WINDOW_NS in
      (doc, if trusted then dict_set cache path \<lparr>se_doc = doc, se_key = key\<rparr> else dict_del cache path))"

definition invalidate :: "string \<Rightarrow> snap_cache \<Rightarrow> snap_cache" where
  "invalidate path cache = dict_del cache path"

text \<open>What one call sees: no such file, an \<open>OSError\<close>, or a handle - its stat, the clock, the text and the stat
  after the read (not looked at on a hit).\<close>

datatype opened = NoFile | OpenFails string | Opened fstat int string fstat

definition snap_read :: "string \<Rightarrow> opened \<Rightarrow> snap_cache \<Rightarrow> (string + cfg_doc option) \<times> snap_cache" where
  "snap_read path seen cache =
     (case seen of
        NoFile \<Rightarrow> (Inr None, invalidate path cache)
      | OpenFails e \<Rightarrow> (Inl e, cache)
      | Opened before started text after \<Rightarrow>
          (case snap_lookup path before cache of
             Some d \<Rightarrow> (Inr (Some d), cache)
           | None \<Rightarrow> (case snap_store path before started text after cache of (d, c) \<Rightarrow> (Inr (Some d), c))))"

definition snap_read_fresh :: "opened \<Rightarrow> string + cfg_doc option" where
  "snap_read_fresh seen =
     (case seen of
        NoFile \<Rightarrow> Inr None
      | OpenFails e \<Rightarrow> Inl e
      | Opened before started text after \<Rightarrow> Inr (Some (parse_doc text)))"

subsection \<open>The life of the file\<close>

text \<open>The versions of the file, oldest first, with the moment each began. \<open>told_apart\<close> is what the file system
  and its writers do: a version is stamped with a modification time at most the window behind the moment it was
  written - the tick of the file system's clock is no coarser - or somebody put an older modification time
  back (\<open>cp -p\<close>, \<open>rsync --inplace -t\<close>), which may be that of an earlier version, but then the
  change time, which nobody can put back, is none that an earlier version had.\<close>

type_synonym history = "(int \<times> fstat \<times> string) list"

definition begun :: "history \<Rightarrow> int \<Rightarrow> history" where
  "begun h t = filter (\<lambda>v. fst v \<le> t) h"

definition stat_at :: "history \<Rightarrow> int \<Rightarrow> fstat" where
  "stat_at h t = fst (snd (last (begun h t)))"

definition text_at :: "history \<Rightarrow> int \<Rightarrow> string" where
  "text_at h t = snd (snd (last (begun h t)))"

definition ordered :: "history \<Rightarrow> bool" where
  "ordered h = sorted_wrt (\<lambda>v v'. fst v < fst v') h"

definition stamped_in_time :: "int \<times> fstat \<times> string \<Rightarrow> bool" where
  "stamped_in_time v = (fst v - RACY_WINDOW_NS \<le> st_mtime_ns (fst (snd v)))"

definition told_apart :: "history \<Rightarrow> bool" where
  "told_apart h = (\<forall>v \<in> set h. \<forall>u \<in> set h. fst v < fst u \<longrightarrow>
     stamped_in_time u \<or> st_ctime_ns (fst (snd v)) \<noteq> st_ctime_ns (fst (snd u)))"

text \<open>The steps of the readers of one path, at the moments of \<open>h\<close>: a hit, a read that ends (it may have begun
  before other steps), a writer's \<open>invalidate\<close>. The output of a step is the document it returns and the
  moments between which the call ran.\<close>

inductive snap_step ::
  "history \<Rightarrow> string \<Rightarrow> int \<times> snap_cache \<Rightarrow> (cfg_doc \<times> int \<times> int) option \<Rightarrow> int \<times> snap_cache \<Rightarrow> bool"
  for h :: history and path :: string where
  hit: "t \<le> t' \<Longrightarrow> begun h t' \<noteq> [] \<Longrightarrow> snap_lookup path (stat_at h t') cache = Some d \<Longrightarrow>
    snap_step h path (t, cache) (Some (d, t', t')) (t', cache)"
| finish: "b \<le> s \<Longrightarrow> s \<le> r \<Longrightarrow> r \<le> a \<Longrightarrow> t \<le> a \<Longrightarrow> begun h b \<noteq> [] \<Longrightarrow>
    snap_store path (stat_at h b) s (text_at h r) (stat_at h a) cache = (d, cache') \<Longrightarrow>
    snap_step h path (t, cache) (Some (d, b, a)) (a, cache')"
| forget: "t \<le> t' \<Longrightarrow> snap_step h path (t, cache) None (t', invalidate path cache)"

inductive snap_reach :: "history \<Rightarrow> string \<Rightarrow> int \<times> snap_cache \<Rightarrow> bool" for h :: history and path :: string where
  start: "snap_reach h path (t, [])"
| step: "snap_reach h path s \<Longrightarrow> snap_step h path s out s' \<Longrightarrow> snap_reach h path s'"

subsection \<open>No stale answer\<close>

lemma begun_mono: "t \<le> t' \<Longrightarrow> set (begun h t) \<subseteq> set (begun h t')"
  by (auto simp: begun_def)

text \<open>The version that is current at two moments is current at every moment between them.\<close>

lemma last_begun:
  assumes "ordered h" "begun h t' \<noteq> []" "fst (last (begun h t')) \<le> s" "s \<le> t'"
  shows "last (begun h s) = last (begun h t')"
proof -
  define v where "v = last (begun h t')"
  have "v \<in> set (begun h t')" using assms(2) by (simp add: v_def)
  then obtain xs ys where h: "h = xs @ v # ys" by (auto simp: begun_def dest: split_list)
  have sy: "\<forall>y \<in> set ys. fst v < fst y" and sx: "\<forall>x \<in> set xs. fst x < fst v"
    using assms(1) unfolding ordered_def h by (simp_all add: sorted_wrt_append)
  have b: "begun h x = xs @ v # begun ys x" if "fst v \<le> x" for x
    using sx that unfolding h by (force simp: begun_def filter_id_conv)
  have le: "fst v \<le> s" using assms(3) by (simp add: v_def)
  have "begun ys t' = []"
  proof (rule ccontr)
    assume ne: "begun ys t' \<noteq> []"
    moreover have "begun h t' = xs @ v # begun ys t'" using le assms(4) by (intro b) simp
    then have "v = last (xs @ v # begun ys t')" unfolding v_def by (rule arg_cong)
    ultimately have "v = last (begun ys t')" by simp
    with ne have "v \<in> set ys" by (metis begun_def filter_is_subset last_in_set subsetD)
    with sy show False by auto
  qed
  then have "begun ys s = []" using assms(4) by (auto simp: begun_def filter_empty_conv)
  with b[OF le] show ?thesis by (simp add: v_def)
qed

text \<open>An entry holds the text of a moment of its read, under the key the file had before and after it.\<close>

definition entry_ok :: "history \<Rightarrow> int \<Rightarrow> snap_entry \<Rightarrow> bool" where
  "entry_ok h t e = (\<exists>b s r. b \<le> s \<and> s \<le> r \<and> r \<le> t \<and> begun h b \<noteq> [] \<and> se_doc e = freeze (parse_doc (text_at h r)) \<and>
     se_key e = stat_key (stat_at h b) \<and> s - st_mtime_ns (stat_at h b) > RACY_WINDOW_NS)"

lemma last_begun_in: "begun h t \<noteq> [] \<Longrightarrow> last (begun h t) \<in> set h \<and> fst (last (begun h t)) \<le> t"
  using last_in_set[of "begun h t"] by (auto simp: begun_def)

lemma entry_current:
  assumes h: "ordered h" "told_apart h" and e: "entry_ok h t e" and t: "t \<le> t'" "begun h t' \<noteq> []" and k: "se_key e = stat_key (stat_at h t')"
  shows "se_doc e = freeze (parse_doc (text_at h t'))"
proof -
  from e obtain b s r where r: "b \<le> s" "s \<le> r" "r \<le> t" "begun h b \<noteq> []" "se_doc e = freeze (parse_doc (text_at h r))"
    "se_key e = stat_key (stat_at h b)" "s - st_mtime_ns (stat_at h b) > RACY_WINDOW_NS" by (auto simp: entry_ok_def)
  let ?u = "last (begun h t')" and ?v = "last (begun h b)"
  have same: "st_ctime_ns (stat_at h b) = st_ctime_ns (stat_at h t')" "st_mtime_ns (stat_at h b) = st_mtime_ns (stat_at h t')"
    using k r(6) by (simp_all add: stat_key_def)
  have le: "fst ?u \<le> r"
  proof (rule ccontr)
    assume "\<not> fst ?u \<le> r"
    with last_begun_in[OF r(4)] r(1,2) have "fst ?v < fst ?u" by linarith
    with h(2) last_begun_in[OF r(4)] last_begun_in[OF t(2)] same(1) have "stamped_in_time ?u"
      unfolding told_apart_def stat_at_def by blast
    with r(2,7) same(2) \<open>\<not> fst ?u \<le> r\<close> show False by (simp add: stamped_in_time_def stat_at_def)
  qed
  have "last (begun h r) = ?u" using r(3) t(1) by (intro last_begun[OF h(1) t(2) le]) linarith
  with r(5) show ?thesis by (simp add: text_at_def)
qed

definition cache_ok :: "history \<Rightarrow> string \<Rightarrow> int \<times> snap_cache \<Rightarrow> bool" where
  "cache_ok h path s = (\<forall>e. dict_get (snd s) path = Some e \<longrightarrow> entry_ok h (fst s) e)"

lemma entry_ok_mono: "entry_ok h t e \<Longrightarrow> t \<le> t' \<Longrightarrow> entry_ok h t' e"
  unfolding entry_ok_def by (meson order_trans)

lemma snap_step_ok:
  assumes "snap_step h path s out s'" "cache_ok h path s"
  shows "cache_ok h path s'"
  using assms
proof (induction rule: snap_step.induct)
  case (finish b s r a t cache d cache')
  have "entry_ok h a e" if "dict_get cache' path = Some e" for e
    using finish(1-3,5,6) that unfolding entry_ok_def
    by (intro exI[of _ b] exI[of _ s] exI[of _ r]) (auto simp: snap_store_def Let_def stat_key_def split: if_splits)
  then show ?case by (simp add: cache_ok_def)
qed (auto simp: cache_ok_def invalidate_def dest: entry_ok_mono)

lemma snap_reach_ok: "snap_reach h path s \<Longrightarrow> cache_ok h path s"
proof (induction rule: snap_reach.induct)
  case (start t)
  show ?case by (simp add: cache_ok_def)
next
  case (step s out s')
  then show ?case using snap_step_ok by blast
qed


text \<open>The second text is copied over the first with its old modification time.\<close>

definition life :: history where
  "life = [(0, \<lparr>st_dev = 1, st_ino = 7, st_size = 1, st_mtime_ns = 0, st_ctime_ns = 0\<rparr>, ''A''),
     (5000000000, \<lparr>st_dev = 1, st_ino = 7, st_size = 1, st_mtime_ns = 0, st_ctime_ns = 5000000000\<rparr>, ''B'')]"

definition cached_a :: snap_cache where
  "cached_a = [(''cfg'', \<lparr>se_doc = freeze (parse_doc ''A''), se_key = (1, 7, 1, 0, 0)\<rparr>)]"

lemma life_first: "snap_step life ''cfg'' (0, []) (Some (freeze (parse_doc ''A''), 3000000000, 3000000000)) (3000000000, cached_a)"
  by (rule snap_step.finish[where s = 3000000000 and r = 3000000000])
     (simp_all add: life_def begun_def snap_store_def stat_at_def text_at_def stat_key_def cached_a_def RACY_WINDOW_NS_def Let_def)

lemma life_hit: "snap_step life ''cfg'' (3000000000, cached_a) (Some (freeze (parse_doc ''A''), 4000000000, 4000000000)) (4000000000, cached_a)"
  by (rule snap_step.hit)
     (simp_all add: life_def begun_def snap_lookup_def stat_at_def stat_key_def cached_a_def)


text \<open>The window is measured from the modification time alone. Where two writers put an old one back within one
  tick of the change time, which \<open>told_apart\<close> excludes - the same size, in place - the parse of the first text is kept and served
  for the second.\<close>

definition backdated :: history where
  "backdated = [(5000000000, \<lparr>st_dev = 1, st_ino = 7, st_size = 1, st_mtime_ns = 0, st_ctime_ns = 5000000000\<rparr>, ''A''),
     (5000000002, \<lparr>st_dev = 1, st_ino = 7, st_size = 1, st_mtime_ns = 0, st_ctime_ns = 5000000000\<rparr>, ''B'')]"

theorem snapshot_backdated_stale:
  "\<exists>cache. snap_step backdated ''cfg'' (5000000001, []) (Some (freeze (parse_doc ''A''), 5000000001, 5000000001)) (5000000001, cache) \<and>
     snap_step backdated ''cfg'' (5000000001, cache) (Some (freeze (parse_doc ''A''), 9000000000, 9000000000)) (9000000000, cache) \<and>
     text_at backdated 9000000000 = ''B''"
proof (intro exI conjI)
  let ?c = "[(''cfg'', \<lparr>se_doc = freeze (parse_doc ''A''), se_key = (1, 7, 1, 0, 5000000000)\<rparr>)]"
  show "snap_step backdated ''cfg'' (5000000001, []) (Some (freeze (parse_doc ''A''), 5000000001, 5000000001)) (5000000001, ?c)"
    by (rule snap_step.finish[where s = 5000000001 and r = 5000000001])
       (simp_all add: backdated_def begun_def snap_store_def stat_at_def text_at_def stat_key_def RACY_WINDOW_NS_def Let_def)
  show "snap_step backdated ''cfg'' (5000000001, ?c) (Some (freeze (parse_doc ''A''), 9000000000, 9000000000)) (9000000000, ?c)"
    by (rule snap_step.hit) (simp_all add: backdated_def begun_def snap_lookup_def stat_at_def stat_key_def)
  show "text_at backdated 9000000000 = ''B''" by (simp add: backdated_def text_at_def begun_def)
qed

end
