(* ===== verification/SettingsFile.thy ===== *)
theory SettingsFile
  imports RegistrySave
begin

section \<open>The settings: the [updater] section (settings.py)\<close>

text \<open>
  \<open>settings_of_doc\<close> reads the section key by key over the defaults, \<open>settings_edits\<close> is what a write sets and
  removes, \<open>settings_mutate\<close> the load, change and write under the registry's lock. A field's name in the
  source is a string here too: \<open>field_value\<close> reads a field by it.
\<close>

subsection \<open>Numbers\<close>

text \<open>\<open>int(text)\<close>: an optional sign and decimal digits, single underscores allowed between them.\<close>

definition is_digit :: "char \<Rightarrow> bool" where
  "is_digit c = (48 \<le> (code c :: nat) \<and> (code c :: nat) \<le> 57)"

definition digit_value :: "char \<Rightarrow> nat" where
  "digit_value c = code c - 48"

fun digits_value :: "nat \<Rightarrow> string \<Rightarrow> nat option" where
  "digits_value acc [] = Some acc"
| "digits_value acc (c # s) =
     (if is_digit c then digits_value (acc * 10 + digit_value c) s
      else if c = CHR ''_'' \<and> s \<noteq> [] \<and> is_digit (hd s) then digits_value acc s
      else None)"

definition unsigned_value :: "string \<Rightarrow> nat option" where
  "unsigned_value s = (case s of [] \<Rightarrow> None | c # _ \<Rightarrow> if is_digit c then digits_value 0 s else None)"

definition py_int :: "string \<Rightarrow> int option" where
  "py_int raw =
     (let s = strip raw in
      case s of
        [] \<Rightarrow> None
      | c # t \<Rightarrow>
          if c = CHR ''-'' then map_option (\<lambda>n. - int n) (unsigned_value t)
          else if c = CHR ''+'' then map_option int (unsigned_value t)
          else map_option int (unsigned_value s))"

subsection \<open>Settings\<close>

record settings =
  make_jobs :: int
  clean_before_build :: bool
  reseed_on_build :: bool
  stop_services :: "string list option"
  service_backend :: string
  dry_run :: bool
  enable_flashing :: bool
  allow_flash_while_printing :: bool
  log_ring_size :: int
  platformio_bin :: string
  flashtool_path :: string
  ui_accent_color :: string
  ignored_serials :: "string list"
  ignored_canbus_uuids :: "string list"

definition default_settings :: settings where
  "default_settings = \<lparr>make_jobs = 0, clean_before_build = True, reseed_on_build = True, stop_services = None,
     service_backend = ''moonraker'', dry_run = False, enable_flashing = False, allow_flash_while_printing = False,
     log_ring_size = 2000, platformio_bin = [], flashtool_path = [], ui_accent_color = [], ignored_serials = [],
     ignored_canbus_uuids = []\<rparr>"

text \<open>\<open>os.cpu_count() or 1\<close> is an argument.\<close>

definition resolved_jobs :: "int option \<Rightarrow> settings \<Rightarrow> int" where
  "resolved_jobs cpus s =
     (if make_jobs s < 0 then (case cpus of Some n \<Rightarrow> if n = 0 then 1 else n | None \<Rightarrow> 1) else make_jobs s)"

definition make_flags :: "int option \<Rightarrow> settings \<Rightarrow> string list" where
  "make_flags cpus s = (let n = resolved_jobs cpus s in if n > 0 then [''-j'' @ dec_str n] else [])"

definition SETTINGS_SECTION :: string where "SETTINGS_SECTION = ''updater''"
definition BOOL_FIELDS :: "string list" where
  "BOOL_FIELDS = [''clean_before_build'', ''reseed_on_build'', ''dry_run'', ''enable_flashing'', ''allow_flash_while_printing'']"
definition INT_FIELDS :: "string list" where "INT_FIELDS = [''make_jobs'', ''log_ring_size'']"
definition STR_FIELDS :: "string list" where
  "STR_FIELDS = [''service_backend'', ''platformio_bin'', ''flashtool_path'', ''ui_accent_color'']"
definition LIST_FIELDS :: "string list" where "LIST_FIELDS = [''stop_services'', ''ignored_serials'', ''ignored_canbus_uuids'']"
definition BACKENDS :: "string list" where "BACKENDS = [''moonraker'', ''systemd'', ''null'']"
definition LEGACY_SERVICE_KEY :: string where "LEGACY_SERVICE_KEY = ''service''"

definition set_bool :: "string \<Rightarrow> bool \<Rightarrow> settings \<Rightarrow> settings" where
  "set_bool f b s =
     (if f = ''clean_before_build'' then s\<lparr>clean_before_build := b\<rparr>
      else if f = ''reseed_on_build'' then s\<lparr>reseed_on_build := b\<rparr>
      else if f = ''dry_run'' then s\<lparr>dry_run := b\<rparr>
      else if f = ''enable_flashing'' then s\<lparr>enable_flashing := b\<rparr>
      else s\<lparr>allow_flash_while_printing := b\<rparr>)"

definition set_int :: "string \<Rightarrow> int \<Rightarrow> settings \<Rightarrow> settings" where
  "set_int f i s = (if f = ''make_jobs'' then s\<lparr>make_jobs := i\<rparr> else s\<lparr>log_ring_size := i\<rparr>)"

definition set_str :: "string \<Rightarrow> string \<Rightarrow> settings \<Rightarrow> settings" where
  "set_str f t s =
     (if f = ''service_backend'' then s\<lparr>service_backend := t\<rparr>
      else if f = ''platformio_bin'' then s\<lparr>platformio_bin := t\<rparr>
      else if f = ''flashtool_path'' then s\<lparr>flashtool_path := t\<rparr>
      else s\<lparr>ui_accent_color := t\<rparr>)"

definition set_list :: "string \<Rightarrow> string list \<Rightarrow> settings \<Rightarrow> settings" where
  "set_list f xs s =
     (if f = ''stop_services'' then s\<lparr>stop_services := Some xs\<rparr>
      else if f = ''ignored_serials'' then s\<lparr>ignored_serials := xs\<rparr>
      else s\<lparr>ignored_canbus_uuids := xs\<rparr>)"

subsection \<open>Reading\<close>

datatype settings_error =
    SettingsUnreadable string
  | DuplicateUpdater
  | BadValue string
  | BadBackend string
  | SettingsBusy "lock_record option"
  | SettingsEdit edit_error

definition undash :: "string \<Rightarrow> string" where
  "undash key = map (\<lambda>c. if c = CHR ''-'' then CHR ''_'' else c) key"

definition read_setting :: "cfg_doc \<Rightarrow> string \<Rightarrow> settings \<Rightarrow> settings_error + settings" where
  "read_setting d key s =
     (let name = undash key in
      if name = LEGACY_SERVICE_KEY then Inr s
      else
        (case cfg_get d SETTINGS_SECTION key None of
           None \<Rightarrow> Inr s
         | Some raw \<Rightarrow>
             if name \<in> set BOOL_FIELDS then
               (case parse_bool (Some raw) None of None \<Rightarrow> Inl (BadValue key) | Some b \<Rightarrow> Inr (set_bool name b s))
             else if name \<in> set INT_FIELDS then
               (case py_int (strip raw) of None \<Rightarrow> Inl (BadValue key) | Some i \<Rightarrow> Inr (set_int name i s))
             else if name \<in> set STR_FIELDS then
               (let t = strip raw in Inr (set_str name (if name = ''ui_accent_color'' \<and> t \<noteq> [] then CHR ''#'' # t else t) s))
             else if name \<in> set LIST_FIELDS then
               (case get_csv d SETTINGS_SECTION key of None \<Rightarrow> Inr s | Some xs \<Rightarrow> Inr (set_list name xs s))
             else Inr s))"

fun read_settings :: "cfg_doc \<Rightarrow> string list \<Rightarrow> settings \<Rightarrow> settings_error + settings" where
  "read_settings d [] s = Inr s"
| "read_settings d (k # ks) s = and_then (read_setting d k s) (read_settings d ks)"

definition settings_of_doc :: "cfg_doc \<Rightarrow> settings_error + settings" where
  "settings_of_doc d =
     (if SETTINGS_SECTION \<in> set (d_dups d) then Inl DuplicateUpdater
      else if \<not> has_section d SETTINGS_SECTION then Inr default_settings
      else
        (let keys = options_of d SETTINGS_SECTION;
             has_stop = list_ex (\<lambda>k. undash k = ''stop_services'') keys in
         and_then (read_settings d keys default_settings) (\<lambda>s0.
           let s = (if has_stop then s0
             else (case cfg_get d SETTINGS_SECTION LEGACY_SERVICE_KEY None of
                Some t \<Rightarrow> if strip t \<noteq> [] then s0\<lparr>stop_services := Some [strip t]\<rparr> else s0
              | None \<Rightarrow> s0)) in
           if service_backend s \<notin> set BACKENDS then Inl (BadBackend (service_backend s)) else Inr s)))"

definition settings_doc :: "string + string option \<Rightarrow> settings_error + cfg_doc" where
  "settings_doc file =
     (case file of
        Inl e \<Rightarrow> Inl (SettingsUnreadable e)
      | Inr None \<Rightarrow> Inr (parse_doc [])
      | Inr (Some text) \<Rightarrow> Inr (parse_doc text))"

definition load_settings :: "string + string option \<Rightarrow> settings_error + settings" where
  "load_settings file = and_then (settings_doc file) (\<lambda>d. settings_of_doc (freeze d))"

subsection \<open>Writing\<close>

definition bool_text :: "bool \<Rightarrow> string" where
  "bool_text b = (if b then ''true'' else ''false'')"

definition settings_edits :: "settings \<Rightarrow> edit list" where
  "settings_edits s =
     [Put ''make_jobs'' (VStr (dec_str (make_jobs s))),
      Put ''clean_before_build'' (VStr (bool_text (clean_before_build s))),
      Put ''reseed_on_build'' (VStr (bool_text (reseed_on_build s))),
      Put ''service_backend'' (VStr (service_backend s)),
      Put ''dry_run'' (VStr (bool_text (dry_run s))),
      Put ''enable_flashing'' (VStr (bool_text (enable_flashing s))),
      Put ''allow_flash_while_printing'' (VStr (bool_text (allow_flash_while_printing s))),
      Put ''log_ring_size'' (VStr (dec_str (log_ring_size s))),
      Put ''platformio_bin'' (VStr (platformio_bin s)),
      Put ''flashtool_path'' (VStr (flashtool_path s)),
      Put ''ui_accent_color'' (VStr (dropWhile (\<lambda>c. c = CHR ''#'') (ui_accent_color s))),
      Put ''ignored_serials'' (VList (ignored_serials s)),
      Put ''ignored_canbus_uuids'' (VList (ignored_canbus_uuids s)),
      case stop_services s of None \<Rightarrow> Drop ''stop_services'' | Some us \<Rightarrow> Put ''stop_services'' (VStr (join '', '' us)),
      Drop LEGACY_SERVICE_KEY]"

definition write_settings :: "cfg_doc \<Rightarrow> settings \<Rightarrow> edit_error + cfg_doc" where
  "write_settings d s = run_edits set_option remove_option SETTINGS_SECTION (settings_edits s) d"

definition settings_mutate ::
  "nat \<Rightarrow> int \<Rightarrow> string \<Rightarrow> json \<Rightarrow> (settings \<Rightarrow> settings_error + settings) \<Rightarrow>
   lock_file \<times> string option \<Rightarrow> (lock_file \<times> string option) \<times> (settings_error + unit)" where
  "settings_mutate me pid label now change st =
     (case acquire me pid label now (fst st) of
        Inl (Busy r) \<Rightarrow> (st, Inl (SettingsBusy r))
      | Inr l \<Rightarrow>
          (let result =
             and_then (and_then (settings_doc (Inr (snd st))) settings_of_doc) (\<lambda>before.
               and_then (change before) (\<lambda>after.
                 if after = before then Inr (snd st)
                 else and_then (settings_doc (Inr (snd st))) (\<lambda>d.
                   map_sum SettingsEdit (\<lambda>d'. Some (render_doc d')) (write_settings d after)))) in
           case result of
             Inl e \<Rightarrow> ((release me l, snd st), Inl e)
           | Inr file \<Rightarrow> ((release me l, file), Inr ())))"

subsection \<open>Texts that read back\<close>

lemma digits_value_all: "\<forall>c \<in> set s. is_digit c \<Longrightarrow> digits_value acc s = Some (foldl (\<lambda>a c. a * 10 + digit_value c) acc s)"
  by (induction s arbitrary: acc) simp_all

lemma digit_char_simps: "n < 10 \<Longrightarrow> is_digit (digit_char n) \<and> digit_value (digit_char n) = n"
  by (simp add: is_digit_def digit_value_def digit_char_def)

lemma nat_digits_read:
  "(\<forall>c \<in> set (nat_digits 10 n). is_digit c) \<and> nat_digits 10 n \<noteq> [] \<and>
   foldl (\<lambda>a c. a * 10 + digit_value c) 0 (nat_digits 10 n) = n"
proof (induction n rule: less_induct)
  case (less n)
  show ?case
  proof (cases "n < 10")
    case True
    then show ?thesis using digit_char_simps[of n] by (simp add: nat_digits.simps)
  next
    case False
    then have r: "nat_digits 10 n = nat_digits 10 (n div 10) @ [digit_char (n mod 10)]" by (simp add: nat_digits.simps)
    have "n div 10 < n" using False by simp
    from less[OF this] show ?thesis using digit_char_simps[of "n mod 10"] by (simp add: r)
  qed
qed

lemma digit_plain: "is_digit c \<Longrightarrow> \<not> is_space c \<and> \<not> comment_char c \<and> c \<noteq> CHR ''-'' \<and> c \<noteq> CHR ''+'' \<and> file_char c"
  by (auto simp: is_digit_def is_space_def comment_char_def file_char_def is_linebreak_def)

lemma nonspace_plain:
  assumes "t \<noteq> []" "\<forall>c \<in> set t. \<not> is_space c" "\<not> comment_char (hd t)" shows "listable t \<and> strip t = t"
proof -
  have rest: "before_comment False u = u" if "\<forall>c \<in> set u. \<not> is_space c" for u
    using that by (induction u) auto
  have "before_comment True t = t" using assms rest[of "tl t"] by (cases t) auto
  moreover have "stripped t" using assms by (simp add: stripped_def)
  moreover have f: "file_safe t" using assms(2) space_breaks by (auto simp: file_safe_def file_char_def)
  moreover have "no_nl t" using f unfolding file_safe_def no_nl_def by (metis file_char_simps(1))
  ultimately show ?thesis using assms(1) by (simp add: listable_def plain_def strip_id)
qed

lemma dec_str_reads: "listable (dec_str i) \<and> strip (dec_str i) = dec_str i \<and> py_int (dec_str i) = Some i"
proof -
  let ?n = "nat (if i < 0 then - i else i)"
  let ?s = "nat_digits 10 ?n"
  have d: "\<forall>c \<in> set ?s. is_digit c" "?s \<noteq> []" "foldl (\<lambda>a c. a * 10 + digit_value c) 0 ?s = ?n"
    using nat_digits_read[of ?n] by blast+
  have e: "dec_str i = (if i < 0 then CHR ''-'' # ?s else ?s)" by (simp add: dec_str_def)
  have m: "\<not> is_space CHR ''-'' \<and> \<not> comment_char CHR ''-''" by (simp add: is_space_def comment_char_def)
  have h: "is_digit (hd ?s)" using d(1,2) hd_in_set by blast
  have ns: "\<forall>c \<in> set ?s. \<not> is_space c" using d(1) digit_plain by blast
  have "\<forall>c \<in> set (dec_str i). \<not> is_space c" "\<not> comment_char (hd (dec_str i))" "dec_str i \<noteq> []"
    using ns m digit_plain[OF h] d(2) unfolding e by (cases "i < 0"; simp)+
  then have p: "listable (dec_str i)" "strip (dec_str i) = dec_str i" using nonspace_plain by blast+
  have u: "unsigned_value ?s = Some ?n" using d digits_value_all[OF d(1), of 0] by (cases ?s) (auto simp: unsigned_value_def)
  have "py_int (dec_str i) = Some i"
  proof (cases "i < 0")
    case True
    then show ?thesis using p(2) u by (simp add: py_int_def e)
  next
    case False
    obtain c t where ct: "?s = c # t" using d(2) unfolding neq_Nil_conv by blast
    then have "is_digit c" using d(1) by simp
    then show ?thesis using False p(2) u digit_plain[of c] ct by (simp add: py_int_def e)
  qed
  with p show ?thesis by simp
qed

lemma csv_values: "list_all csv_word ws \<Longrightarrow> csv_parts [] (concat (map (\<lambda>w. nl # w) ws)) = ws"
proof (induction ws)
  case (Cons w ws)
  have sp: "is_space nl" by (simp add: is_space_def)
  have w: "w \<noteq> []" "\<forall>c \<in> set w. c \<noteq> CHR '','' \<and> \<not> is_space c" using Cons by (auto simp: csv_word_def)
  show ?case
  proof (cases ws)
    case Nil
    with csv_parts_word[OF w(2), of "[]" "[]"] w(1) sp show ?thesis by simp
  next
    case (Cons w' ws')
    from csv_parts_word[OF w(2), of "[]" "concat (map (\<lambda>w. nl # w) ws)"] w(1) sp Cons.IH Cons.prems show ?thesis
      by (simp add: Cons)
  qed
qed simp

lemma bool_text_reads: "parse_bool (Some (bool_text b)) None = Some b \<and> listable (bool_text b)"
proof -
  have "listable ''true''" "listable ''false''"
    by (intro nonspace_plain[THEN conjunct1]; simp add: is_space_def comment_char_def)+
  moreover have "parse_bool (Some ''true'') None = Some True" "parse_bool (Some ''false'') None = Some False" by code_simp+
  ultimately show ?thesis by (simp add: bool_text_def)
qed

subsection \<open>A write is read back\<close>

definition good_colour :: "string \<Rightarrow> bool" where
  "good_colour c = (c = [] \<or> (hd c = CHR ''#'' \<and> listable (tl c) \<and> hd (tl c) \<noteq> CHR ''#''))"

definition good_settings :: "settings \<Rightarrow> bool" where
  "good_settings s = (service_backend s \<in> set BACKENDS \<and> optional_text (platformio_bin s) \<and> optional_text (flashtool_path s) \<and>
     good_colour (ui_accent_color s) \<and> list_all csv_word (ignored_serials s) \<and> list_all csv_word (ignored_canbus_uuids s) \<and>
     (case stop_services s of None \<Rightarrow> True | Some us \<Rightarrow> list_all csv_word us))"

text \<open>A field as a value, by its name.\<close>

datatype field_value = FInt int | FBool bool | FStr string | FList "string list option" | NoField

definition field_of :: "settings \<Rightarrow> string \<Rightarrow> field_value" where
  "field_of s f =
     (if f = ''make_jobs'' then FInt (make_jobs s) else if f = ''clean_before_build'' then FBool (clean_before_build s)
      else if f = ''reseed_on_build'' then FBool (reseed_on_build s) else if f = ''stop_services'' then FList (stop_services s)
      else if f = ''service_backend'' then FStr (service_backend s) else if f = ''dry_run'' then FBool (dry_run s)
      else if f = ''enable_flashing'' then FBool (enable_flashing s)
      else if f = ''allow_flash_while_printing'' then FBool (allow_flash_while_printing s)
      else if f = ''log_ring_size'' then FInt (log_ring_size s) else if f = ''platformio_bin'' then FStr (platformio_bin s)
      else if f = ''flashtool_path'' then FStr (flashtool_path s) else if f = ''ui_accent_color'' then FStr (ui_accent_color s)
      else if f = ''ignored_serials'' then FList (Some (ignored_serials s))
      else if f = ''ignored_canbus_uuids'' then FList (Some (ignored_canbus_uuids s)) else NoField)"

definition all_fields :: "string list" where
  "all_fields = [''make_jobs'', ''clean_before_build'', ''reseed_on_build'', ''stop_services'', ''service_backend'', ''dry_run'',
     ''enable_flashing'', ''allow_flash_while_printing'', ''log_ring_size'', ''platformio_bin'', ''flashtool_path'',
     ''ui_accent_color'', ''ignored_serials'', ''ignored_canbus_uuids'']"

lemma settings_eqI: "\<forall>f \<in> set all_fields. field_of s f = field_of t f \<Longrightarrow> s = t"
  by (cases s; cases t) (simp add: all_fields_def field_of_def)

text \<open>The setters write the field they are named after, and no other.\<close>

lemma field_make_jobs: "field_of (s\<lparr>make_jobs := x\<rparr>) g = (if g = ''make_jobs'' then FInt x else field_of s g)"
  by (cases "g = ''make_jobs''") (simp_all add: field_of_def)

lemma field_clean_before_build: "field_of (s\<lparr>clean_before_build := x\<rparr>) g = (if g = ''clean_before_build'' then FBool x else field_of s g)"
  by (cases "g = ''clean_before_build''") (simp_all add: field_of_def)

lemma field_reseed_on_build: "field_of (s\<lparr>reseed_on_build := x\<rparr>) g = (if g = ''reseed_on_build'' then FBool x else field_of s g)"
  by (cases "g = ''reseed_on_build''") (simp_all add: field_of_def)

lemma field_service_backend: "field_of (s\<lparr>service_backend := x\<rparr>) g = (if g = ''service_backend'' then FStr x else field_of s g)"
  by (cases "g = ''service_backend''") (simp_all add: field_of_def)

lemma field_dry_run: "field_of (s\<lparr>dry_run := x\<rparr>) g = (if g = ''dry_run'' then FBool x else field_of s g)"
  by (cases "g = ''dry_run''") (simp_all add: field_of_def)

lemma field_enable_flashing: "field_of (s\<lparr>enable_flashing := x\<rparr>) g = (if g = ''enable_flashing'' then FBool x else field_of s g)"
  by (cases "g = ''enable_flashing''") (simp_all add: field_of_def)

lemma field_allow_flash_while_printing: "field_of (s\<lparr>allow_flash_while_printing := x\<rparr>) g = (if g = ''allow_flash_while_printing'' then FBool x else field_of s g)"
  by (cases "g = ''allow_flash_while_printing''") (simp_all add: field_of_def)

lemma field_log_ring_size: "field_of (s\<lparr>log_ring_size := x\<rparr>) g = (if g = ''log_ring_size'' then FInt x else field_of s g)"
  by (cases "g = ''log_ring_size''") (simp_all add: field_of_def)

lemma field_platformio_bin: "field_of (s\<lparr>platformio_bin := x\<rparr>) g = (if g = ''platformio_bin'' then FStr x else field_of s g)"
  by (cases "g = ''platformio_bin''") (simp_all add: field_of_def)

lemma field_flashtool_path: "field_of (s\<lparr>flashtool_path := x\<rparr>) g = (if g = ''flashtool_path'' then FStr x else field_of s g)"
  by (cases "g = ''flashtool_path''") (simp_all add: field_of_def)

lemma field_ui_accent_color: "field_of (s\<lparr>ui_accent_color := x\<rparr>) g = (if g = ''ui_accent_color'' then FStr x else field_of s g)"
  by (cases "g = ''ui_accent_color''") (simp_all add: field_of_def)

lemma field_ignored_serials: "field_of (s\<lparr>ignored_serials := x\<rparr>) g = (if g = ''ignored_serials'' then FList (Some x) else field_of s g)"
  by (cases "g = ''ignored_serials''") (simp_all add: field_of_def)

lemma field_ignored_canbus_uuids: "field_of (s\<lparr>ignored_canbus_uuids := x\<rparr>) g = (if g = ''ignored_canbus_uuids'' then FList (Some x) else field_of s g)"
  by (cases "g = ''ignored_canbus_uuids''") (simp_all add: field_of_def)

lemma field_stop_services: "field_of (s\<lparr>stop_services := x\<rparr>) g = (if g = ''stop_services'' then FList x else field_of s g)"
  by (cases "g = ''stop_services''") (simp_all add: field_of_def)

lemmas field_updates = field_make_jobs field_clean_before_build field_reseed_on_build field_service_backend field_dry_run field_enable_flashing field_allow_flash_while_printing field_log_ring_size field_platformio_bin field_flashtool_path field_ui_accent_color field_ignored_serials field_ignored_canbus_uuids field_stop_services

lemma set_field:
  "f \<in> set BOOL_FIELDS \<Longrightarrow> field_of (set_bool f b s) g = (if g = f then FBool b else field_of s g)"
  "f \<in> set INT_FIELDS \<Longrightarrow> field_of (set_int f i s) g = (if g = f then FInt i else field_of s g)"
  "f \<in> set STR_FIELDS \<Longrightarrow> field_of (set_str f t s) g = (if g = f then FStr t else field_of s g)"
  "f \<in> set LIST_FIELDS \<Longrightarrow> field_of (set_list f xs s) g = (if g = f then FList (Some xs) else field_of s g)"
  by (auto simp: BOOL_FIELDS_def INT_FIELDS_def STR_FIELDS_def LIST_FIELDS_def set_bool_def set_int_def set_str_def set_list_def field_updates)

lemma settings_edit_keys:
  "map edit_key (settings_edits t) = [''make_jobs'', ''clean_before_build'', ''reseed_on_build'', ''service_backend'', ''dry_run'',
     ''enable_flashing'', ''allow_flash_while_printing'', ''log_ring_size'', ''platformio_bin'', ''flashtool_path'', ''ui_accent_color'',
     ''ignored_serials'', ''ignored_canbus_uuids'', ''stop_services'', ''service'']"
  by (simp add: settings_edits_def LEGACY_SERVICE_KEY_def split: option.split)

lemma settings_keys_ok: "distinct (map edit_key (settings_edits t))"
  unfolding settings_edit_keys by code_simp

lemma settings_keys_good:
  "list_all (\<lambda>k. good_key k \<and> file_safe k \<and> undash k = k) [''make_jobs'', ''clean_before_build'', ''reseed_on_build'', ''service_backend'', ''dry_run'',
     ''enable_flashing'', ''allow_flash_while_printing'', ''log_ring_size'', ''platformio_bin'', ''flashtool_path'', ''ui_accent_color'',
     ''ignored_serials'', ''ignored_canbus_uuids'', ''stop_services'', ''service'']"
  by code_simp

lemma csv_word_listable: "csv_word w \<Longrightarrow> listable w"
  using nonspace_plain[of w] by (auto simp: csv_word_def)

lemma colour_text: "good_colour c \<Longrightarrow> optional_text (dropWhile (\<lambda>x. x = CHR ''#'') c) \<and>
   (let t = dropWhile (\<lambda>x. x = CHR ''#'') c in (if strip t \<noteq> [] then CHR ''#'' # strip t else strip t) = c)"
proof (cases c)
  case (Cons x xs)
  assume g: "good_colour c"
  with Cons have x: "x = CHR ''#''" "listable xs" "hd xs \<noteq> CHR ''#''" by (simp_all add: good_colour_def)
  then have "xs \<noteq> []" by (auto simp: listable_def plain_def)
  with x have d: "dropWhile (\<lambda>x. x = CHR ''#'') c = xs" by (cases xs) (simp_all add: Cons)
  have "strip xs = xs" using x(2) by (simp add: listable_def plain_def strip_id)
  with d x \<open>xs \<noteq> []\<close> show ?thesis by (simp add: Cons optional_text_def)
qed (simp add: optional_text_def)

lemma backend_text: "b \<in> set BACKENDS \<Longrightarrow> listable b"
  using nonspace_plain[of b] by (auto simp: BACKENDS_def is_space_def comment_char_def)

lemma settings_edits_good: "good_settings s \<Longrightarrow> list_all good_edit (settings_edits s)"
proof -
  assume g: "good_settings s"
  have k: "good_key (edit_key e) \<and> file_safe (edit_key e)" if "e \<in> set (settings_edits s)" for e
  proof -
    have "edit_key e \<in> set (map edit_key (settings_edits s))" using that by simp
    then show ?thesis unfolding settings_edit_keys using settings_keys_good unfolding list_all_iff by blast
  qed
  have t: "optional_text t" if "Put x (VStr t) \<in> set (settings_edits s)" for x t
    using that g dec_str_reads bool_text_reads colour_text[of "ui_accent_color s"] backend_text csv_optional
    by (auto simp: settings_edits_def good_settings_def optional_text_def split: option.splits)
  have l: "list_all listable vs" if "Put x (VList vs) \<in> set (settings_edits s)" for x vs
    using that g by (auto simp: settings_edits_def good_settings_def list_all_iff csv_word_listable split: option.splits)
  have "good_edit e" if e: "e \<in> set (settings_edits s)" for e
  proof (cases e)
    case (Put x v)
    then show ?thesis using k[OF e] e t l good_put_text good_put_list by (cases v) auto
  qed simp
  then show ?thesis by (simp add: list_all_iff)
qed

definition settings_written :: "cfg_doc \<Rightarrow> settings \<Rightarrow> bool" where
  "settings_written p t = (\<forall>e \<in> set (settings_edits t). cfg_get p SETTINGS_SECTION (edit_key e) None = edit_text e)"

lemma field_values:
  "field_of t ''make_jobs'' = FInt (make_jobs t)"
  "field_of t ''clean_before_build'' = FBool (clean_before_build t)"
  "field_of t ''reseed_on_build'' = FBool (reseed_on_build t)"
  "field_of t ''service_backend'' = FStr (service_backend t)"
  "field_of t ''dry_run'' = FBool (dry_run t)"
  "field_of t ''enable_flashing'' = FBool (enable_flashing t)"
  "field_of t ''allow_flash_while_printing'' = FBool (allow_flash_while_printing t)"
  "field_of t ''log_ring_size'' = FInt (log_ring_size t)"
  "field_of t ''platformio_bin'' = FStr (platformio_bin t)"
  "field_of t ''flashtool_path'' = FStr (flashtool_path t)"
  "field_of t ''ui_accent_color'' = FStr (ui_accent_color t)"
  "field_of t ''ignored_serials'' = FList (Some (ignored_serials t))"
  "field_of t ''ignored_canbus_uuids'' = FList (Some (ignored_canbus_uuids t))"
  "field_of t ''stop_services'' = FList (stop_services t)"
  by (simp_all add: field_of_def)

lemma written_settings:
  assumes "settings_written p t"
  shows
  "cfg_get p SETTINGS_SECTION ''make_jobs'' None = Some (dec_str (make_jobs t))"
  "cfg_get p SETTINGS_SECTION ''clean_before_build'' None = Some (bool_text (clean_before_build t))"
  "cfg_get p SETTINGS_SECTION ''reseed_on_build'' None = Some (bool_text (reseed_on_build t))"
  "cfg_get p SETTINGS_SECTION ''service_backend'' None = Some (service_backend t)"
  "cfg_get p SETTINGS_SECTION ''dry_run'' None = Some (bool_text (dry_run t))"
  "cfg_get p SETTINGS_SECTION ''enable_flashing'' None = Some (bool_text (enable_flashing t))"
  "cfg_get p SETTINGS_SECTION ''allow_flash_while_printing'' None = Some (bool_text (allow_flash_while_printing t))"
  "cfg_get p SETTINGS_SECTION ''log_ring_size'' None = Some (dec_str (log_ring_size t))"
  "cfg_get p SETTINGS_SECTION ''platformio_bin'' None = Some (platformio_bin t)"
  "cfg_get p SETTINGS_SECTION ''flashtool_path'' None = Some (flashtool_path t)"
  "cfg_get p SETTINGS_SECTION ''ui_accent_color'' None = Some (dropWhile (\<lambda>c. c = CHR ''#'') (ui_accent_color t))"
  "cfg_get p SETTINGS_SECTION ''ignored_serials'' None = Some (value_text (VList (ignored_serials t)))"
  "cfg_get p SETTINGS_SECTION ''ignored_canbus_uuids'' None = Some (value_text (VList (ignored_canbus_uuids t)))"
  "cfg_get p SETTINGS_SECTION ''stop_services'' None = map_option (join '', '') (stop_services t)"
  "cfg_get p SETTINGS_SECTION LEGACY_SERVICE_KEY None = None"
proof -
  from assms have a: "\<forall>e \<in> set (settings_edits t). cfg_get p SETTINGS_SECTION (edit_key e) None = edit_text e" by (simp add: settings_written_def)
  have s: "(case stop_services t of None \<Rightarrow> Drop ''stop_services'' | Some us \<Rightarrow> Put ''stop_services'' (VStr (join '', '' us))) \<in> set (settings_edits t)"
    by (simp only: settings_edits_def list.set insert_iff simp_thms)
  show "cfg_get p SETTINGS_SECTION ''stop_services'' None = map_option (join '', '') (stop_services t)"
    using bspec[OF a s] by (cases "stop_services t") simp_all
  show "cfg_get p SETTINGS_SECTION ''make_jobs'' None = Some (dec_str (make_jobs t))" "cfg_get p SETTINGS_SECTION ''clean_before_build'' None = Some (bool_text (clean_before_build t))" "cfg_get p SETTINGS_SECTION ''reseed_on_build'' None = Some (bool_text (reseed_on_build t))" "cfg_get p SETTINGS_SECTION ''service_backend'' None = Some (service_backend t)" "cfg_get p SETTINGS_SECTION ''dry_run'' None = Some (bool_text (dry_run t))" "cfg_get p SETTINGS_SECTION ''enable_flashing'' None = Some (bool_text (enable_flashing t))" "cfg_get p SETTINGS_SECTION ''allow_flash_while_printing'' None = Some (bool_text (allow_flash_while_printing t))" "cfg_get p SETTINGS_SECTION ''log_ring_size'' None = Some (dec_str (log_ring_size t))" "cfg_get p SETTINGS_SECTION ''platformio_bin'' None = Some (platformio_bin t)" "cfg_get p SETTINGS_SECTION ''flashtool_path'' None = Some (flashtool_path t)" "cfg_get p SETTINGS_SECTION ''ui_accent_color'' None = Some (dropWhile (\<lambda>c. c = CHR ''#'') (ui_accent_color t))" "cfg_get p SETTINGS_SECTION ''ignored_serials'' None = Some (value_text (VList (ignored_serials t)))" "cfg_get p SETTINGS_SECTION ''ignored_canbus_uuids'' None = Some (value_text (VList (ignored_canbus_uuids t)))" "cfg_get p SETTINGS_SECTION LEGACY_SERVICE_KEY None = None"
    using a unfolding settings_edits_def by (simp_all only: list.set ball_simps edit_key.simps edit_text.simps value_text.simps)
qed

lemma written_bool:
  assumes "settings_written p t" "k \<in> set BOOL_FIELDS"
  shows "\<exists>b. cfg_get p SETTINGS_SECTION k None = Some (bool_text b) \<and> field_of t k = FBool b"
proof -
  from assms(2) have "k = ''clean_before_build'' \<or> k = ''reseed_on_build'' \<or> k = ''dry_run'' \<or> k = ''enable_flashing'' \<or>
      k = ''allow_flash_while_printing''" by (simp add: BOOL_FIELDS_def)
  then show ?thesis using written_settings[OF assms(1)] field_values[of t] by (elim disjE) simp_all
qed

lemma written_int:
  assumes "settings_written p t" "k \<in> set INT_FIELDS"
  shows "\<exists>i. cfg_get p SETTINGS_SECTION k None = Some (dec_str i) \<and> field_of t k = FInt i"
proof -
  from assms(2) have "k = ''make_jobs'' \<or> k = ''log_ring_size''" by (simp add: INT_FIELDS_def)
  then show ?thesis using written_settings[OF assms(1)] field_values[of t] by (elim disjE) simp_all
qed

definition shown_str :: "string \<Rightarrow> string \<Rightarrow> string" where
  "shown_str k x = (let t = strip x in if k = ''ui_accent_color'' \<and> t \<noteq> [] then CHR ''#'' # t else t)"

lemma written_str:
  assumes "settings_written p t" "good_settings t" "k \<in> set STR_FIELDS"
  shows "\<exists>x. cfg_get p SETTINGS_SECTION k None = Some x \<and> field_of t k = FStr (shown_str k x)"
proof -
  have st: "strip x = x" if "optional_text x" for x
    using that by (auto simp: optional_text_def listable_def plain_def strip_id)
  have g: "shown_str ''platformio_bin'' (platformio_bin t) = platformio_bin t" "shown_str ''flashtool_path'' (flashtool_path t) = flashtool_path t"
    "shown_str ''service_backend'' (service_backend t) = service_backend t"
    using assms(2) backend_text[of "service_backend t"]
    by (simp_all add: shown_str_def Let_def good_settings_def st) (simp add: optional_text_def st)
  have c: "shown_str ''ui_accent_color'' (dropWhile (\<lambda>c. c = CHR ''#'') (ui_accent_color t)) = ui_accent_color t"
    using colour_text[of "ui_accent_color t", THEN conjunct2] assms(2) by (simp only: shown_str_def Let_def good_settings_def simp_thms)
  from assms(3) have "k = ''service_backend'' \<or> k = ''platformio_bin'' \<or> k = ''flashtool_path'' \<or> k = ''ui_accent_color''"
    by (simp add: STR_FIELDS_def)
  then show ?thesis using written_settings[OF assms(1)] field_values[of t] g c by (elim disjE) simp_all
qed

lemma written_list:
  assumes "settings_written p t" "good_settings t" "k \<in> set LIST_FIELDS" "cfg_get p SETTINGS_SECTION k None \<noteq> None"
  shows "\<exists>xs. get_csv p SETTINGS_SECTION k = Some xs \<and> field_of t k = FList (Some xs)"
proof -
  have g: "csv_parts [] (value_text (VList (ignored_serials t))) = ignored_serials t"
    "csv_parts [] (value_text (VList (ignored_canbus_uuids t))) = ignored_canbus_uuids t"
    "\<forall>us. stop_services t = Some us \<longrightarrow> csv_parts [] (join '', '' us) = us"
    using assms(2) csv_values csv_join by (auto simp: good_settings_def)
  from assms(3) have "k = ''ignored_serials'' \<or> k = ''ignored_canbus_uuids'' \<or> k = ''stop_services''"
    by (auto simp: LIST_FIELDS_def)
  then show ?thesis using written_settings[OF assms(1)] field_values[of t] g assms(4)
    by (elim disjE) (simp_all add: get_csv_def del: value_text.simps, auto)
qed

lemma field_classes:
  "set all_fields = set BOOL_FIELDS \<union> set INT_FIELDS \<union> set STR_FIELDS \<union> set LIST_FIELDS"
  "LEGACY_SERVICE_KEY \<notin> set all_fields" "set BOOL_FIELDS \<inter> set INT_FIELDS = {}" "set BOOL_FIELDS \<inter> set STR_FIELDS = {}"
  "set BOOL_FIELDS \<inter> set LIST_FIELDS = {}" "set INT_FIELDS \<inter> set STR_FIELDS = {}" "set INT_FIELDS \<inter> set LIST_FIELDS = {}"
  "set STR_FIELDS \<inter> set LIST_FIELDS = {}"
  by (auto simp: all_fields_def BOOL_FIELDS_def INT_FIELDS_def STR_FIELDS_def LIST_FIELDS_def LEGACY_SERVICE_KEY_def)

lemma no_field: "f \<notin> set all_fields \<Longrightarrow> field_of s f = NoField"
  by (simp add: all_fields_def field_of_def)

lemma read_one:
  assumes w: "settings_written p t" "good_settings t" and k: "cfg_get p SETTINGS_SECTION k None \<noteq> None" "undash k = k"
  shows "\<exists>s1. read_setting p k s = Inr s1 \<and> (\<forall>g. field_of s1 g = (if g = k then field_of t g else field_of s g))"
proof -
  note c = field_classes
  consider "k \<in> set BOOL_FIELDS" | "k \<in> set INT_FIELDS" | "k \<in> set STR_FIELDS" | "k \<in> set LIST_FIELDS" | "k \<notin> set all_fields"
    using c(1) by blast
  then show ?thesis
  proof cases
    case 1
    with c have "k \<noteq> LEGACY_SERVICE_KEY" by blast
    with 1 written_bool[OF w(1) 1] bool_text_reads k(2) show ?thesis by (auto simp: read_setting_def Let_def set_field)
  next
    case 2
    with c have "k \<noteq> LEGACY_SERVICE_KEY" "k \<notin> set BOOL_FIELDS" by blast+
    with 2 written_int[OF w(1) 2] dec_str_reads k(2) show ?thesis by (auto simp: read_setting_def Let_def set_field)
  next
    case 3
    with c have n: "k \<noteq> LEGACY_SERVICE_KEY" "k \<notin> set BOOL_FIELDS" "k \<notin> set INT_FIELDS" by blast+
    from written_str[OF w 3] obtain x where x: "cfg_get p SETTINGS_SECTION k None = Some x"
      "field_of t k = FStr (shown_str k x)" by blast
    have "read_setting p k s = Inr (set_str k (shown_str k x) s)"
      using n 3 k(2) x(1) by (simp add: read_setting_def Let_def shown_str_def)
    with x(2) 3 show ?thesis by (simp add: set_field)
  next
    case 4
    with c have n: "k \<noteq> LEGACY_SERVICE_KEY" "k \<notin> set BOOL_FIELDS" "k \<notin> set INT_FIELDS" "k \<notin> set STR_FIELDS" by blast+
    with 4 written_list[OF w 4 k(1)] k show ?thesis by (auto simp: read_setting_def Let_def set_field)
  next
    case 5
    then have n: "k \<notin> set BOOL_FIELDS" "k \<notin> set INT_FIELDS" "k \<notin> set STR_FIELDS" "k \<notin> set LIST_FIELDS" using c(1) by blast+
    have "read_setting p k s = Inr s" using n k by (auto simp: read_setting_def Let_def)
    with no_field[OF 5] show ?thesis by auto
  qed
qed

lemma read_all:
  assumes w: "settings_written p t" "good_settings t"
    and ks: "\<forall>k \<in> set ks. cfg_get p SETTINGS_SECTION k None \<noteq> None \<and> undash k = k"
  shows "\<exists>s1. read_settings p ks s = Inr s1 \<and> (\<forall>g. field_of s1 g = (if g \<in> set ks then field_of t g else field_of s g))"
  using ks
proof (induction ks arbitrary: s)
  case (Cons k ks)
  from read_one[OF w, of k s] Cons.prems obtain s1 where s1: "read_setting p k s = Inr s1"
    "\<forall>g. field_of s1 g = (if g = k then field_of t g else field_of s g)" by auto
  from Cons.IH[of s1] Cons.prems obtain s2 where "read_settings p ks s1 = Inr s2"
    "\<forall>g. field_of s2 g = (if g \<in> set ks then field_of t g else field_of s1 g)" by auto
  with s1 show ?case by (intro exI[of _ s2]) auto
qed simp

lemma settings_reload:
  assumes w: "settings_written p t" "good_settings t" and dup: "d_dups p = []"
    and dash: "\<forall>k \<in> set (options_of p SETTINGS_SECTION). undash k = k"
  shows "settings_of_doc p = Inr t"
proof -
  let ?ks = "options_of p SETTINGS_SECTION"
  have opt: "k \<in> set ?ks \<longleftrightarrow> cfg_get p SETTINGS_SECTION k None \<noteq> None" for k by (rule has_option)
  from read_all[OF w, of ?ks default_settings] opt dash obtain s1 where s1: "read_settings p ?ks default_settings = Inr s1"
    "\<forall>g. field_of s1 g = (if g \<in> set ?ks then field_of t g else field_of default_settings g)" by auto
  have own: "g \<in> set ?ks" if "g \<in> set all_fields" "g \<noteq> ''stop_services''" for g
    using that written_settings[OF w(1)] unfolding opt all_fields_def list.set insert_iff empty_iff by (elim disjE) simp_all
  note stop = written_settings(14,15)[OF w(1)]
  have "s1 = t"
  proof (rule settings_eqI, intro ballI)
    fix f assume f: "f \<in> set all_fields"
    show "field_of s1 f = field_of t f"
    proof (cases "f = ''stop_services''")
      case True
      then show ?thesis using s1(2)[rule_format, of f] opt[of f] stop(1) field_values(14)[of default_settings] field_values(14)[of t]
        by (cases "stop_services t") (simp_all add: default_settings_def)
    next
      case False
      with s1(2) own[OF f] show ?thesis by simp
    qed
  qed
  moreover have "has_section p SETTINGS_SECTION"
  proof -
    have "''make_jobs'' \<in> set ?ks" by (rule own) (simp_all add: all_fields_def)
    then show ?thesis unfolding opt by (auto simp: cfg_get_def has_section_def dict_has_get split: option.splits)
  qed
  moreover have "service_backend t \<in> set BACKENDS" using w(2) by (simp add: good_settings_def)
  ultimately show ?thesis using s1(1) dup stop(2) by (simp add: settings_of_doc_def Let_def)
qed

lemma settings_key_set: "edit_key ` set (settings_edits s) = set (LEGACY_SERVICE_KEY # all_fields)"
  using arg_cong[OF settings_edit_keys[of s], of set] by (auto simp: all_fields_def LEGACY_SERVICE_KEY_def)

lemma write_effect:
  assumes "store_ok d" "good_settings s"
  shows "\<exists>d'. write_settings d s = Inr d' \<and> store_ok d' \<and>
    (\<forall>e \<in> set (settings_edits s). cfg_get d' SETTINGS_SECTION (edit_key e) None = edit_text e) \<and>
    (\<forall>k. k \<notin> edit_key ` set (settings_edits s) \<longrightarrow> cfg_get d' SETTINGS_SECTION k None = cfg_get d SETTINGS_SECTION k None) \<and>
    (\<forall>s' k. s' \<noteq> SETTINGS_SECTION \<longrightarrow> cfg_get d' s' k None = cfg_get d s' k None)"
proof -
  have gs: "good_section SETTINGS_SECTION" by code_simp
  from doc.run_edits_distinct[OF assms(1) gs settings_edits_good[OF assms(2)] settings_keys_ok] show ?thesis
    unfolding write_settings_def by blast
qed

text \<open>C25: settings that were written are the settings that are read. Writing any settings the program can
  hold into any document - keeping every other section and every key of the section that is not a
  setting - and loading the saved text gives those settings back, field for field: numbers, flags, lists, the
  accent colour with its mark, and services that were not set as not set, whatever the old section
  or its retired \<open>service:\<close> key said. The keys of the section must be spelled with underscores.\<close>

theorem settings_round_trip:
  assumes "store_ok d" and "good_settings s" and "\<forall>k \<in> set (options_of d SETTINGS_SECTION). undash k = k"
  shows "\<exists>d'. write_settings d s = Inr d' \<and> load_settings (Inr (Some (render_doc d'))) = Inr s \<and>
     (\<forall>sec k. sec \<noteq> SETTINGS_SECTION \<or> k \<notin> set (LEGACY_SERVICE_KEY # all_fields) \<longrightarrow>
        cfg_get (parse_doc (render_doc d')) sec k None = cfg_get d sec k None)"
proof -
  from write_effect[OF assms(1,2)] obtain d' where d': "write_settings d s = Inr d'" "store_ok d'"
    "\<forall>e \<in> set (settings_edits s). cfg_get d' SETTINGS_SECTION (edit_key e) None = edit_text e"
    "\<forall>k. k \<notin> edit_key ` set (settings_edits s) \<longrightarrow> cfg_get d' SETTINGS_SECTION k None = cfg_get d SETTINGS_SECTION k None"
    "\<forall>s' k. s' \<noteq> SETTINGS_SECTION \<longrightarrow> cfg_get d' s' k None = cfg_get d s' k None"
    by (elim exE conjE) (rule that)
  let ?p = "parse_doc (render_doc d')"
  from store_reload[OF d'(2)] have p: "store_ok ?p" "same_view ?p d'" by blast+
  have fz: "same_view (freeze ?p) d'" "d_dups (freeze ?p) = []"
    using p by (simp_all add: same_view_def section_names_def cfg_get_def freeze_def store_ok_def)
  have w: "settings_written (freeze ?p) s" using d'(3) by (simp add: settings_written_def view_gets(1)[OF fz(1)])
  note keys = settings_key_set[of s]
  have ud: "undash k = k" if "k \<in> edit_key ` set (settings_edits s)" for k
  proof -
    have "k \<in> set (map edit_key (settings_edits s))" using that by simp
    then show ?thesis using settings_keys_good unfolding settings_edit_keys list_all_iff by blast
  qed
  have "\<forall>k \<in> set (options_of (freeze ?p) SETTINGS_SECTION). undash k = k"
  proof
    fix k assume "k \<in> set (options_of (freeze ?p) SETTINGS_SECTION)"
    then have h: "cfg_get d' SETTINGS_SECTION k None \<noteq> None" by (simp add: has_option view_gets(1)[OF fz(1)])
    show "undash k = k"
    proof (cases "k \<in> edit_key ` set (settings_edits s)")
      case False
      with h d'(4) have "k \<in> set (options_of d SETTINGS_SECTION)" by (simp add: has_option)
      with assms(3) show ?thesis by blast
    qed (rule ud)
  qed
  with settings_reload[OF w assms(2) fz(2)] have "load_settings (Inr (Some (render_doc d'))) = Inr s"
    by (simp add: load_settings_def settings_doc_def)
  moreover have "cfg_get ?p sec k None = cfg_get d sec k None" if "sec \<noteq> SETTINGS_SECTION \<or> k \<notin> set (LEGACY_SERVICE_KEY # all_fields)" for sec k
    using that d'(4,5) unfolding view_gets(1)[OF p(2)] keys by (cases "sec = SETTINGS_SECTION") auto
  ultimately show ?thesis using d'(1) by blast
qed

definition demo_settings :: settings where
  "demo_settings = default_settings\<lparr>make_jobs := -3, enable_flashing := True, ui_accent_color := ''#2196f3'', ignored_serials := [''A1'', ''B2'']\<rparr>"

theorem settings_round_trip_witness:
  "\<exists>d'. write_settings (doc_of_lines False [''# mine'', ''[updater]'', ''service: klipper-1'', ''dry_run: yes'']) demo_settings = Inr d' \<and>
     load_settings (Inr (Some (render_doc d'))) = Inr demo_settings"
proof -
  have a: "store_ok (doc_of_lines False [''# mine'', ''[updater]'', ''service: klipper-1'', ''dry_run: yes''])" by code_simp
  have b: "good_settings demo_settings" by code_simp
  have c: "\<forall>k \<in> set (options_of (doc_of_lines False [''# mine'', ''[updater]'', ''service: klipper-1'', ''dry_run: yes'']) SETTINGS_SECTION). undash k = k"
    by code_simp
  from settings_round_trip[OF a b c] show ?thesis by blast
qed

text \<open>A key spelled with dashes is read, and neither written nor removed: services that were set that way
  cannot be unset again.\<close>

definition dashed :: cfg_doc where
  "dashed = doc_of_lines False [''[updater]'', ''stop-services: klipper-1'']"

theorem settings_dashed_key_stays:
  "settings_of_doc dashed = Inr (default_settings\<lparr>stop_services := Some [''klipper-1'']\<rparr>) \<and>
   (\<exists>d'. write_settings dashed default_settings = Inr d' \<and> cfg_get d' SETTINGS_SECTION ''stop-services'' None = Some ''klipper-1'')"
proof
  show "settings_of_doc dashed = Inr (default_settings\<lparr>stop_services := Some [''klipper-1'']\<rparr>)" by code_simp
  have a: "store_ok dashed" "good_settings default_settings" "cfg_get dashed SETTINGS_SECTION ''stop-services'' None = Some ''klipper-1''"
    by code_simp+
  have "''stop-services'' \<notin> set (LEGACY_SERVICE_KEY # all_fields)" by (simp add: all_fields_def LEGACY_SERVICE_KEY_def)
  with write_effect[OF a(1,2)] a(3) show "\<exists>d'. write_settings dashed default_settings = Inr d' \<and>
      cfg_get d' SETTINGS_SECTION ''stop-services'' None = Some ''klipper-1''"
    unfolding settings_key_set by metis
qed

end
