(* ===== verification/Rpc.thy ===== *)
theory Rpc
  imports SettingsFile "HOL-Library.Word"
begin

section \<open>The JSON-RPC peer (agent/rpc.py)\<close>

text \<open>
  Messages on the socket are JSON texts, each ended by one ETX byte; the reader buffers what
  \<open>recv\<close> gives it and cuts complete messages off the front. The model has the bytes as words and
  \<open>json.dumps\<close> as it is called here (the default separators, \<open>ensure_ascii\<close>); \<open>json.loads\<close> is a
  parameter, \<open>None\<close> for the \<open>ValueError\<close> it raises. Handlers, the socket and the thread pool are
  parameters: what a handler does is an \<open>handler_outcome\<close>, what a write does is whether it raised.

  Outbound calls are a step relation: callers, the reader and \<open>close\<close> interleave between the
  points where the code takes a lock or touches a future.
\<close>

subsection \<open>The text of a message\<close>

type_synonym bytes = "8 word list"

definition ETX :: "8 word" where "ETX = 3"

definition json_char :: "char \<Rightarrow> string" where
  "json_char c =
     (let n = code c in
      if n = 34 \<or> n = 92 then [CHR 0x5C, c]
      else if n = 10 then [CHR 0x5C, CHR ''n'']
      else if n = 13 then [CHR 0x5C, CHR ''r'']
      else if n = 9 then [CHR 0x5C, CHR ''t'']
      else if n = 12 then [CHR 0x5C, CHR ''f'']
      else if n = 8 then [CHR 0x5C, CHR ''b'']
      else if n < 32 \<or> 126 < n then [CHR 0x5C, CHR ''u'', CHR ''0'', CHR ''0'', digit_char (n div 16), digit_char (n mod 16)]
      else [c])"

definition json_str :: "string \<Rightarrow> string" where
  "json_str s = CHR 0x22 # concat (map json_char s) @ [CHR 0x22]"

fun dumps :: "json \<Rightarrow> string" where
  "dumps JNull = ''null''"
| "dumps (JBool b) = (if b then ''true'' else ''false'')"
| "dumps (JInt i) = dec_str i"
| "dumps (JFloat q r) = r"
| "dumps (JStr s) = json_str s"
| "dumps (JList xs) = ''['' @ join '', '' (map dumps xs) @ '']''"
| "dumps (JObj kvs) = ''{'' @ join '', '' (map (\<lambda>kv. json_str (fst kv) @ '': '' @ dumps (snd kv)) kvs) @ ''}''"

definition encode :: "string \<Rightarrow> bytes" where
  "encode s = map (\<lambda>c. of_nat (code c)) s"

definition frame :: "json \<Rightarrow> bytes" where
  "frame payload = encode (dumps payload) @ [ETX]"

subsection \<open>Cutting messages off the buffer\<close>

text \<open>\<open>bytes.strip\<close> takes ASCII whitespace only.\<close>

definition blank_byte :: "8 word \<Rightarrow> bool" where
  "blank_byte b = (b \<in> {9, 10, 11, 12, 13, 32})"

function unframe :: "bytes \<Rightarrow> bytes list \<times> bytes" where
  "unframe buf =
     (if ETX \<notin> set buf then ([], buf)
      else (let chunk = takeWhile (\<lambda>b. b \<noteq> ETX) buf; (out, left_over) = unframe (drop (length chunk + 1) buf) in
            (if list_all blank_byte chunk then out else chunk # out, left_over)))"
  by pat_completeness auto
termination
  by (relation "measure length") (auto simp: Let_def intro!: diff_less length_pos_if_in_set)

declare unframe.simps [simp del]

text \<open>One pass of the read loop per \<open>recv\<close>: the buffer kept between passes and the messages handled.\<close>

fun read_chunks :: "bytes \<Rightarrow> bytes list \<Rightarrow> bytes list \<times> bytes" where
  "read_chunks buf [] = ([], buf)"
| "read_chunks buf (c # cs) =
     (let (out, buf') = unframe (buf @ c); (later, left_over) = read_chunks buf' cs in (out @ later, left_over))"

lemma unframe_none: "ETX \<notin> set buf \<Longrightarrow> unframe buf = ([], buf)"
  by (simp add: unframe.simps)

lemma takeWhile_cut: "x \<notin> set xs \<Longrightarrow> takeWhile (\<lambda>b. b \<noteq> x) (xs @ x # ys) = xs"
  by (induction xs) auto

lemma unframe_cut: "ETX \<notin> set chunk \<Longrightarrow> unframe (chunk @ ETX # buf) =
   (if list_all blank_byte chunk then fst (unframe buf) else chunk # fst (unframe buf), snd (unframe buf))"
  by (subst unframe.simps) (simp add: takeWhile_cut Let_def split_beta)

lemma etx_split: "ETX \<in> set buf \<Longrightarrow> \<exists>chunk rest. buf = chunk @ ETX # rest \<and> ETX \<notin> set chunk"
  by (metis split_list_first)

lemma unframe_append:
  "unframe (buf @ later) =
     (fst (unframe buf) @ fst (unframe (snd (unframe buf) @ later)), snd (unframe (snd (unframe buf) @ later)))"
proof (induction "length buf" arbitrary: buf rule: less_induct)
  case less
  show ?case
  proof (cases "ETX \<in> set buf")
    case True
    then obtain chunk rest where b: "buf = chunk @ ETX # rest" "ETX \<notin> set chunk" using etx_split by blast
    then show ?thesis using less[of rest] by (simp add: unframe_cut)
  qed (simp add: unframe_none)
qed

lemma unframe_left: "ETX \<notin> set (snd (unframe buf))"
proof (induction "length buf" arbitrary: buf rule: less_induct)
  case less
  show ?case
  proof (cases "ETX \<in> set buf")
    case True
    then obtain chunk rest where b: "buf = chunk @ ETX # rest" "ETX \<notin> set chunk" using etx_split by blast
    then show ?thesis using less[of rest] by (simp add: unframe_cut)
  qed (simp add: unframe_none)
qed

lemma read_chunks_eq: "ETX \<notin> set buf \<Longrightarrow> read_chunks buf cs = unframe (buf @ concat cs)"
proof (induction cs arbitrary: buf)
  case (Cons c cs)
  have "read_chunks (snd (unframe (buf @ c))) cs = unframe (snd (unframe (buf @ c)) @ concat cs)"
    by (rule Cons.IH) (rule unframe_left)
  then show ?case using unframe_append[of "buf @ c" "concat cs"] by (simp add: split_beta Let_def)
qed (simp add: unframe_none)

subsection \<open>What is written can be read\<close>

fun floats_plain :: "json \<Rightarrow> bool" where
  "floats_plain (JFloat q r) = list_all (\<lambda>c. 32 \<le> code c \<and> code c \<le> 126) r"
| "floats_plain (JList xs) = list_all floats_plain xs"
| "floats_plain (JObj kvs) = list_all (\<lambda>kv. floats_plain (snd kv)) kvs"
| "floats_plain _ = True"

abbreviation printable :: "char \<Rightarrow> bool" where "printable c \<equiv> 32 \<le> code c \<and> code c \<le> 126"

lemma digit_char_printable: "d < 16 \<Longrightarrow> printable (digit_char d)"
  by (simp add: digit_char_def)

lemma code_bound: "code c < 256"
  by (cases c) (simp add: of_char_def horner_sum_simps of_bool_def)

lemma json_char_printable: "\<forall>d \<in> set (json_char c). printable d"
proof -
  have "code c div 16 < 16" by (rule less_mult_imp_div_less) (use code_bound[of c] in simp)
  from digit_char_printable[OF this] digit_char_printable[of "code c mod 16"]
  show ?thesis by (simp add: json_char_def Let_def)
qed

lemma json_str_printable: "\<forall>d \<in> set (json_str s). printable d"
  using json_char_printable by (auto simp: json_str_def)

lemma nat_digits_printable: "2 \<le> b \<Longrightarrow> b \<le> 16 \<Longrightarrow> \<forall>d \<in> set (nat_digits b n). printable d"
proof (induction b n rule: nat_digits.induct)
  case (1 b n)
  show ?case
  proof (cases "b < 2 \<or> n < b")
    case True
    then have "n < 16" using 1(2,3) by simp
    from True digit_char_printable[OF this] show ?thesis by (subst nat_digits.simps) simp
  next
    case False
    then have "\<forall>d \<in> set (nat_digits b (n div b)). printable d" using 1 by blast
    moreover have "printable (digit_char (n mod b))"
      using 1(2,3) mod_less_divisor[of b n] by (intro digit_char_printable) linarith
    ultimately show ?thesis using False by (subst nat_digits.simps) auto
  qed
qed

lemma join_all: "\<forall>d \<in> set sep. P d \<Longrightarrow> \<forall>p \<in> set ps. \<forall>d \<in> set p. P d \<Longrightarrow> \<forall>d \<in> set (join sep ps). P d"
  by (induction sep ps rule: join.induct) (simp_all add: ball_Un)

lemma join_printable: "\<forall>p \<in> set ps. \<forall>d \<in> set p. printable d \<Longrightarrow> \<forall>d \<in> set (join '', '' ps). printable d"
  by (rule join_all) simp_all

lemma dec_str_printable: "\<forall>d \<in> set (dec_str i). printable d"
  using nat_digits_printable[of 10 "nat i"] nat_digits_printable[of 10 "nat (- i)"]
  by (simp add: dec_str_def)

lemma dumps_printable: "floats_plain j \<Longrightarrow> \<forall>d \<in> set (dumps j). printable d"
proof (induction j rule: dumps.induct)
  case (6 xs)
  then have "\<forall>p \<in> set (map dumps xs). \<forall>d \<in> set p. printable d" by (simp add: list_all_iff)
  from join_printable[OF this] show ?case by (simp add: ball_Un)
next
  case (7 kvs)
  then have "\<forall>p \<in> set (map (\<lambda>kv. json_str (fst kv) @ '': '' @ dumps (snd kv)) kvs). \<forall>d \<in> set p. printable d"
    using json_str_printable by (simp add: list_all_iff ball_Un)
  from join_printable[OF this] show ?case by (simp add: ball_Un)
qed (simp_all add: list_all_iff dec_str_printable json_str_printable)

lemma encode_no_etx: "\<forall>d \<in> set s. printable d \<Longrightarrow> ETX \<notin> set (encode s)"
proof
  assume p: "\<forall>d \<in> set s. printable d" and "ETX \<in> set (encode s)"
  then obtain c where c: "c \<in> set s" "(of_nat (code c) :: 8 word) = 3" by (auto simp: encode_def ETX_def)
  then have "unat (of_nat (code c) :: 8 word) = 3" by simp
  then have "code c mod 256 = 3" by (simp add: unat_of_nat)
  then show False using p c(1) code_bound[of c] by force
qed

lemma encode_brace: "\<not> list_all blank_byte (encode (dumps (JObj kvs)))"
  by (simp add: encode_def blank_byte_def)

text \<open>What one side writes with \<open>_send\<close>, one frame after another, the other side's reader cuts into the
  texts of those messages, in order, with what follows left in the buffer.\<close>

lemma unframe_frames:
  assumes "\<forall>m \<in> set msgs. (\<exists>kvs. m = JObj kvs) \<and> floats_plain m" and "ETX \<notin> set left_over"
  shows "unframe (concat (map frame msgs) @ left_over) = (map (\<lambda>m. encode (dumps m)) msgs, left_over)"
  using assms(1)
proof (induction msgs)
  case Nil
  then show ?case using assms(2) by (simp add: unframe_none)
next
  case (Cons m msgs)
  then obtain kvs where m: "m = JObj kvs" by auto
  have "ETX \<notin> set (encode (dumps m))" using dumps_printable[of m] Cons.prems by (intro encode_no_etx) simp
  moreover have "concat (map frame (m # msgs)) @ left_over = encode (dumps m) @ ETX # concat (map frame msgs) @ left_over"
    by (simp add: frame_def)
  ultimately show ?case using Cons m encode_brace[of kvs] unframe_cut[of "encode (dumps m)" "concat (map frame msgs) @ left_over"]
    by (simp del: dumps.simps)
qed

subsection \<open>What a message is\<close>

datatype rpc_action =
    ServeRequest "(string \<times> json) list"
  | Notified json json
  | Resolve "(string \<times> json) list"
  | Discarded

definition handle_raw :: "(bytes \<Rightarrow> json option) \<Rightarrow> bytes \<Rightarrow> rpc_action" where
  "handle_raw loads raw =
     (case loads raw of
        Some (JObj msg) \<Rightarrow>
          (let has_method = map_of msg ''method'' \<noteq> None; has_id = jget msg ''id'' \<noteq> JNull in
           if has_method \<and> has_id then ServeRequest msg
           else if has_method then Notified (jget msg ''method'') (jget msg ''params'')
           else if has_id then Resolve msg
           else Discarded)
      | _ \<Rightarrow> Discarded)"

subsection \<open>Answering a request\<close>

definition ERR_INTERNAL :: int where "ERR_INTERNAL = -32603"
definition ERR_APPLICATION :: int where "ERR_APPLICATION = -32000"
definition ERR_METHOD_NOT_FOUND :: int where "ERR_METHOD_NOT_FOUND = -32601"

text \<open>How a handler ends: it returns a value (\<open>None\<close> when it is one \<open>json.dumps\<close> raises on), it raises an
  \<open>RpcError\<close>, or it raises anything else, whose \<open>to_dict\<close> may be absent, give a value or raise itself.\<close>

datatype to_dict = NoToDict | ToDict "json option" | ToDictRaises

datatype handler_outcome =
    HandlerReturned "json option"
  | HandlerRpcError int string "json option option" \<comment> \<open>the code, the message and the data, None when there is none\<close>
  | HandlerRaised string string to_dict \<comment> \<open>the text, the class name\<close>

definition result_message :: "json \<Rightarrow> json \<Rightarrow> json" where
  "result_message req_id result = JObj [(''jsonrpc'', JStr ''2.0''), (''id'', req_id), (''result'', result)]"

definition error_message :: "json \<Rightarrow> int \<Rightarrow> string \<Rightarrow> json option \<Rightarrow> json" where
  "error_message req_id code' message data =
     JObj [(''jsonrpc'', JStr ''2.0''), (''id'', req_id),
       (''error'', JObj ([(''code'', JInt code'), (''message'', JStr message)] @
          (case data of None \<Rightarrow> [] | Some d \<Rightarrow> [(''data'', d)])))]"

text \<open>What is handed to \<open>sendall\<close>: nothing when \<open>json.dumps\<close> raises, which \<open>_respond_result\<close> and
  \<open>_respond_error\<close> catch and log; nothing when \<open>to_dict\<close> raises, which leaves \<open>_serve_request\<close> in
  the worker.\<close>

definition respond_result :: "json \<Rightarrow> json option \<Rightarrow> json list" where
  "respond_result req_id result = (case result of None \<Rightarrow> [] | Some r \<Rightarrow> [result_message req_id r])"

definition respond_error :: "json \<Rightarrow> int \<Rightarrow> string \<Rightarrow> json option option \<Rightarrow> json list" where
  "respond_error req_id code' message data =
     (case data of
        None \<Rightarrow> [error_message req_id code' message None]
      | Some None \<Rightarrow> []
      | Some (Some d) \<Rightarrow> [error_message req_id code' message (if d = JNull then None else Some d)])"

definition serve_request :: "(json \<Rightarrow> json \<Rightarrow> handler_outcome) \<Rightarrow> (string \<times> json) list \<Rightarrow> json list" where
  "serve_request on_request msg =
     (let req_id = jget msg ''id''; called = (case map_of msg ''method'' of None \<Rightarrow> JStr [] | Some m \<Rightarrow> m) in
      case on_request called (jget msg ''params'') of
        HandlerReturned result \<Rightarrow> respond_result req_id result
      | HandlerRpcError code' message data \<Rightarrow> respond_error req_id code' message data
      | HandlerRaised text class_name d \<Rightarrow>
          (let message = (if text = [] then class_name else text) in
           case d of
             NoToDict \<Rightarrow> respond_error req_id ERR_APPLICATION message None
           | ToDict data \<Rightarrow> respond_error req_id ERR_APPLICATION message (Some data)
           | ToDictRaises \<Rightarrow> []))"

text \<open>The values the wire can carry.\<close>

fun encodable :: "handler_outcome \<Rightarrow> bool" where
  "encodable (HandlerReturned result) = (result \<noteq> None)"
| "encodable (HandlerRpcError c m data) = (data \<noteq> Some None)"
| "encodable (HandlerRaised t c d) = (d \<noteq> ToDict None \<and> d \<noteq> ToDictRaises)"

text \<open>A request submitted while the pool is gone is answered by the reader itself. These are the messages handed to the
  connection: that a send fails, and that \<open>submit\<close> raises when the pool is shut down between the test and
  the call, is not in the model.\<close>

definition answer_request :: "bool \<Rightarrow> (json \<Rightarrow> json \<Rightarrow> handler_outcome) \<Rightarrow> (string \<times> json) list \<Rightarrow> json list" where
  "answer_request pool on_request msg =
     (if pool then serve_request on_request msg
      else respond_error (jget msg ''id'') ERR_INTERNAL ''agent is shutting down'' None)"

lemma answer_once:
  assumes "encodable (on_request (case map_of msg ''method'' of None \<Rightarrow> JStr [] | Some m \<Rightarrow> m) (jget msg ''params''))"
  shows "\<exists>kvs. answer_request pool on_request msg = [JObj kvs] \<and> jget kvs ''id'' = jget msg ''id'' \<and>
     (map_of kvs ''result'' = None) \<noteq> (map_of kvs ''error'' = None)"
  using assms
  by (cases "on_request (case map_of msg ''method'' of None \<Rightarrow> JStr [] | Some m \<Rightarrow> m) (jget msg ''params'')")
     (auto simp: answer_request_def serve_request_def respond_result_def respond_error_def result_message_def error_message_def Let_def
       split: option.splits to_dict.splits)

subsection \<open>What a response says\<close>

datatype rpc_failure =
    PeerError string int json
  | NotConnected
  | WriteFailed
  | ConnectionGone
  | CallTimedOut

text \<open>The id a response is for: \<open>isinstance(req_id, int)\<close>, which a \<open>bool\<close> passes as 0 or 1.\<close>

fun response_id :: "json \<Rightarrow> int option" where
  "response_id (JInt i) = Some i"
| "response_id (JBool b) = Some (if b then 1 else 0)"
| "response_id _ = None"

text \<open>\<open>int(...)\<close> of the error's code; \<open>None\<close> where it raises.\<close>

fun int_of :: "json \<Rightarrow> int option" where
  "int_of (JInt i) = Some i"
| "int_of (JBool b) = Some (if b then 1 else 0)"
| "int_of (JFloat q r) = Some (if q < 0 then - \<lfloor>- q\<rfloor> else \<lfloor>q\<rfloor>)"
| "int_of (JStr t) = py_int (strip t)"
| "int_of _ = None"

definition answer_of :: "(string \<times> json) list \<Rightarrow> (rpc_failure + json) option" where
  "answer_of msg =
     (case jget msg ''error'' of
        JNull \<Rightarrow> Some (Inr (jget msg ''result''))
      | JObj err \<Rightarrow>
          map_option (\<lambda>c. Inl (PeerError (case map_of err ''message'' of None \<Rightarrow> ''unknown error'' | Some m \<Rightarrow> py_str m) c (jget err ''data'')))
            (case map_of err ''code'' of None \<Rightarrow> Some ERR_APPLICATION | Some j \<Rightarrow> int_of j)
      | other \<Rightarrow> Some (Inl (PeerError (py_str other) ERR_APPLICATION JNull)))"

subsection \<open>Calls in flight\<close>

datatype future = Waiting | Completed "rpc_failure + json"

datatype caller =
    Allocated
  | Registered
  | SendFailed rpc_failure
  | Awaiting
  | Expired
  | Finished "rpc_failure + json"

record peer =
  p_next :: int
  p_table :: "int list"
  p_futures :: "int \<Rightarrow> future option"
  p_callers :: "int \<Rightarrow> caller option"
  p_connected :: bool
  p_taken :: "(int \<times> (string \<times> json) list) option" \<comment> \<open>popped by the reader, its future not yet set\<close>
  p_failing :: "int list" \<comment> \<open>swapped out of the table by \<open>_fail_pending\<close>, not yet failed\<close>
  p_reading :: bool
  p_seen :: "(string \<times> json) list list"

definition new_peer :: peer where
  "new_peer = \<lparr>p_next = 0, p_table = [], p_futures = (\<lambda>_. None), p_callers = (\<lambda>_. None), p_connected = True,
     p_taken = None, p_failing = [], p_reading = True, p_seen = []\<rparr>"

definition set_caller :: "int \<Rightarrow> caller \<Rightarrow> peer \<Rightarrow> peer" where
  "set_caller i c p = p\<lparr>p_callers := (p_callers p)(i \<mapsto> c)\<rparr>"

definition set_future :: "int \<Rightarrow> future \<Rightarrow> peer \<Rightarrow> peer" where
  "set_future i f p = p\<lparr>p_futures := (p_futures p)(i \<mapsto> f)\<rparr>"

definition unlist :: "int \<Rightarrow> peer \<Rightarrow> peer" where
  "unlist i p = p\<lparr>p_table := filter (\<lambda>j. j \<noteq> i) (p_table p)\<rparr>"

definition allocate_id :: "peer \<Rightarrow> peer" where
  "allocate_id p = set_caller (p_next p + 1) Allocated (p\<lparr>p_next := p_next p + 1\<rparr>)"

definition register :: "int \<Rightarrow> peer \<Rightarrow> peer" where
  "register i p = set_caller i Registered (set_future i Waiting (p\<lparr>p_table := p_table p @ [i]\<rparr>))"

text \<open>\<open>_resolve\<close>, up to popping the future, and setting it. A code \<open>int\<close> raises on ends the reader.\<close>

definition resolve :: "(string \<times> json) list \<Rightarrow> peer \<Rightarrow> peer" where
  "resolve msg p =
     (let q = p\<lparr>p_seen := p_seen p @ [msg]\<rparr> in
      case response_id (jget msg ''id'') of
        None \<Rightarrow> q
      | Some i \<Rightarrow> if i \<in> set (p_table p) then (unlist i q)\<lparr>p_taken := Some (i, msg)\<rparr> else q)"

definition settle :: "int \<Rightarrow> (string \<times> json) list \<Rightarrow> peer \<Rightarrow> peer" where
  "settle i msg p =
     (let q = p\<lparr>p_taken := None\<rparr> in
      case answer_of msg of None \<Rightarrow> q\<lparr>p_reading := False\<rparr> | Some r \<Rightarrow> set_future i (Completed r) q)"

definition swap_pending :: "peer \<Rightarrow> peer" where
  "swap_pending p = p\<lparr>p_failing := p_failing p @ p_table p, p_table := []\<rparr>"

definition fail_one :: "int \<Rightarrow> peer \<Rightarrow> peer" where
  "fail_one i p =
     (let q = p\<lparr>p_failing := filter (\<lambda>j. j \<noteq> i) (p_failing p)\<rparr> in
      if p_futures p i = Some Waiting then set_future i (Completed (Inl ConnectionGone)) q else q)"

inductive pstep :: "peer \<Rightarrow> peer \<Rightarrow> bool" where
  alloc: "pstep p (allocate_id p)"
| reg: "p_callers p i = Some Allocated \<Longrightarrow> pstep p (register i p)"
| sent: "p_callers p i = Some Registered \<Longrightarrow> p_connected p \<Longrightarrow> pstep p (set_caller i Awaiting p)"
| send_failed: "p_callers p i = Some Registered \<Longrightarrow> pstep p (set_caller i (SendFailed (if p_connected p then WriteFailed else NotConnected)) p)"
| send_gone: "p_callers p i = Some (SendFailed f) \<Longrightarrow> pstep p (set_caller i (Finished (Inl f)) (unlist i p))"
| collect: "p_callers p i = Some Awaiting \<Longrightarrow> p_futures p i = Some (Completed r) \<Longrightarrow> pstep p (set_caller i (Finished r) p)"
| expire: "p_callers p i = Some Awaiting \<Longrightarrow> p_futures p i = Some Waiting \<Longrightarrow> pstep p (set_caller i Expired p)"
| expired: "p_callers p i = Some Expired \<Longrightarrow> pstep p (set_caller i (Finished (Inl CallTimedOut)) (unlist i p))"
| response: "p_reading p \<Longrightarrow> p_taken p = None \<Longrightarrow> pstep p (resolve msg p)"
| settled: "p_taken p = Some (i, msg) \<Longrightarrow> pstep p (settle i msg p)"
| lost: "p_taken p = None \<Longrightarrow> pstep p (p\<lparr>p_reading := False\<rparr>)"
| disconnect: "pstep p (p\<lparr>p_connected := False\<rparr>)"
| swap: "pstep p (swap_pending p)"
| fail: "i \<in> set (p_failing p) \<Longrightarrow> pstep p (fail_one i p)"

inductive preach :: "peer \<Rightarrow> bool" where
  start: "preach new_peer"
| step: "preach p \<Longrightarrow> pstep p q \<Longrightarrow> preach q"

text \<open>A future is owned by one place at a time, and only an owned future can be set.\<close>

definition owned :: "peer \<Rightarrow> int list" where
  "owned p = p_table p @ p_failing p @ (case p_taken p of None \<Rightarrow> [] | Some (i, m) \<Rightarrow> [i])"

definition answered :: "peer \<Rightarrow> int \<Rightarrow> json \<Rightarrow> bool" where
  "answered p i r = (\<exists>msg \<in> set (p_seen p). response_id (jget msg ''id'') = Some i \<and> answer_of msg = Some (Inr r))"

definition peer_inv :: "peer \<Rightarrow> bool" where
  "peer_inv p =
     (distinct (owned p) \<and> (\<forall>i \<in> set (owned p). p_futures p i = Some Waiting) \<and>
      (\<forall>i. p_callers p i \<noteq> None \<longleftrightarrow> 1 \<le> i \<and> i \<le> p_next p) \<and>
      (\<forall>i. p_futures p i \<noteq> None \<longleftrightarrow> p_callers p i \<noteq> None \<and> p_callers p i \<noteq> Some Allocated) \<and>
      (\<forall>i r. p_futures p i = Some (Completed (Inr r)) \<longrightarrow> answered p i r) \<and>
      (\<forall>i r. p_callers p i = Some (Finished (Inr r)) \<longrightarrow> answered p i r) \<and>
      (\<forall>i m. p_taken p = Some (i, m) \<longrightarrow> m \<in> set (p_seen p) \<and> response_id (jget m ''id'') = Some i) \<and> 0 \<le> p_next p)"

lemmas peer_ops = allocate_id_def register_def set_caller_def set_future_def unlist_def swap_pending_def

lemma peer_invI:
  assumes "distinct (owned p)" "\<And>i. i \<in> set (owned p) \<Longrightarrow> p_futures p i = Some Waiting"
    and "\<And>i. p_callers p i \<noteq> None \<longleftrightarrow> 1 \<le> i \<and> i \<le> p_next p"
    and "\<And>i. p_futures p i \<noteq> None \<longleftrightarrow> p_callers p i \<noteq> None \<and> p_callers p i \<noteq> Some Allocated"
    and "\<And>i r. p_futures p i = Some (Completed (Inr r)) \<Longrightarrow> answered p i r"
    and "\<And>i r. p_callers p i = Some (Finished (Inr r)) \<Longrightarrow> answered p i r"
    and "\<And>i m. p_taken p = Some (i, m) \<Longrightarrow> m \<in> set (p_seen p) \<and> response_id (jget m ''id'') = Some i" "0 \<le> p_next p"
  shows "peer_inv p"
  using assms unfolding peer_inv_def by blast

lemma peer_invD:
  assumes "peer_inv p"
  shows "distinct (owned p)" "i \<in> set (owned p) \<Longrightarrow> p_futures p i = Some Waiting"
    "p_callers p i \<noteq> None \<longleftrightarrow> 1 \<le> i \<and> i \<le> p_next p"
    "p_futures p i \<noteq> None \<longleftrightarrow> p_callers p i \<noteq> None \<and> p_callers p i \<noteq> Some Allocated"
    "p_futures p i = Some (Completed (Inr r)) \<Longrightarrow> answered p i r"
    "p_callers p i = Some (Finished (Inr r)) \<Longrightarrow> answered p i r"
    "p_taken p = Some (i, m) \<Longrightarrow> m \<in> set (p_seen p) \<and> response_id (jget m ''id'') = Some i" "0 \<le> p_next p"
  using assms unfolding peer_inv_def by blast+

lemma owned_known: "peer_inv p \<Longrightarrow> i \<in> set (owned p) \<Longrightarrow> p_callers p i \<noteq> None \<and> p_callers p i \<noteq> Some Allocated"
  using peer_invD(2)[of p i] peer_invD(4)[of p i] by simp

lemma caller_fields [simp]:
  "p_callers (set_caller i c p) = (p_callers p)(i \<mapsto> c)" "p_futures (set_caller i c p) = p_futures p"
  "p_next (set_caller i c p) = p_next p" "p_taken (set_caller i c p) = p_taken p" "p_seen (set_caller i c p) = p_seen p"
  "owned (set_caller i c p) = owned p"
  by (simp_all add: set_caller_def owned_def)

lemma future_fields [simp]:
  "p_futures (set_future i f p) = (p_futures p)(i \<mapsto> f)" "p_callers (set_future i f p) = p_callers p"
  "p_next (set_future i f p) = p_next p" "p_taken (set_future i f p) = p_taken p" "p_seen (set_future i f p) = p_seen p"
  "owned (set_future i f p) = owned p"
  by (simp_all add: set_future_def owned_def)

lemma unlist_fields [simp]:
  "p_futures (unlist i p) = p_futures p" "p_callers (unlist i p) = p_callers p"
  "p_next (unlist i p) = p_next p" "p_taken (unlist i p) = p_taken p" "p_seen (unlist i p) = p_seen p"
  by (simp_all add: unlist_def)

lemma answered_mono: "answered p i r \<Longrightarrow> set (p_seen p) \<subseteq> set (p_seen q) \<Longrightarrow> answered q i r"
  unfolding answered_def by blast

lemma answered_same: "p_seen q = p_seen p \<Longrightarrow> answered q i r = answered p i r"
  by (simp add: answered_def)

text \<open>A step that leaves futures, callers and messages alone, and takes from what is owned.\<close>

lemma inv_owned:
  assumes "peer_inv p" "p_futures q = p_futures p" "p_callers q = p_callers p" "p_next q = p_next p" "p_seen q = p_seen p"
    and "distinct (owned q)" "set (owned q) \<subseteq> set (owned p)" "p_taken q = None \<or> p_taken q = p_taken p"
  shows "peer_inv q"
  using peer_invD[OF assms(1)] assms(2-8)
  by (intro peer_invI) (simp_all add: answered_same[of q p] subset_iff, metis option.distinct(1))

text \<open>A caller moves on, with its future left alone.\<close>

lemma inv_caller:
  assumes "peer_inv p" "p_callers p i \<noteq> None" "p_callers p i \<noteq> Some Allocated" "c \<noteq> Allocated"
    and "\<And>r. c = Finished (Inr r) \<Longrightarrow> answered p i r"
  shows "peer_inv (set_caller i c p)"
  using peer_invD[OF assms(1)] assms(2-5)
  by (intro peer_invI) (simp_all add: answered_same[of "set_caller i c p" p] split: if_splits)

lemma inv_unlist: "peer_inv p \<Longrightarrow> peer_inv (unlist i p)"
  by (rule inv_owned[of p]) (auto simp: peer_inv_def owned_def unlist_def)

lemma inv_complete:
  assumes "peer_inv p" "i \<notin> set (owned p)" "p_futures p i \<noteq> None" "\<And>x. r = Inr x \<Longrightarrow> answered p i x"
  shows "peer_inv (set_future i (Completed r) p)"
proof (rule peer_invI)
  note d = peer_invD[OF assms(1)]
  show "distinct (owned (set_future i (Completed r) p))" using d(1) by simp
  show "p_futures (set_future i (Completed r) p) j = Some Waiting" if "j \<in> set (owned (set_future i (Completed r) p))" for j
    using that d(2)[of j] assms(2) by auto
  show "(p_futures (set_future i (Completed r) p) j \<noteq> None) = (p_callers (set_future i (Completed r) p) j \<noteq> None \<and>
      p_callers (set_future i (Completed r) p) j \<noteq> Some Allocated)" for j
    using d(4)[of j] assms(3) by auto
  show "answered (set_future i (Completed r) p) j x" if "p_futures (set_future i (Completed r) p) j = Some (Completed (Inr x))" for j x
    using that d(5)[of j x] assms(4) by (auto simp: answered_same[of "set_future i (Completed r) p" p] split: if_splits)
qed (use peer_invD[OF assms(1)] in \<open>simp_all add: answered_same[of "set_future i (Completed r) p" p]\<close>)

lemma alloc_fields:
  "owned (allocate_id p) = owned p" "p_futures (allocate_id p) = p_futures p" "p_seen (allocate_id p) = p_seen p"
  "p_taken (allocate_id p) = p_taken p" "p_next (allocate_id p) = p_next p + 1"
  "p_callers (allocate_id p) = (p_callers p)(p_next p + 1 \<mapsto> Allocated)"
  by (simp_all add: allocate_id_def set_caller_def owned_def)

lemma inv_alloc:
  assumes "peer_inv p" shows "peer_inv (allocate_id p)"
proof (rule peer_invI)
  note d = peer_invD[OF assms]
  have none: "p_callers p (p_next p + 1) = None" using d(3)[of "p_next p + 1"] by simp
  then have gone: "p_futures p (p_next p + 1) = None" using d(4)[of "p_next p + 1"] by simp
  show "(p_callers (allocate_id p) j \<noteq> None) = (1 \<le> j \<and> j \<le> p_next (allocate_id p))" for j
    unfolding alloc_fields using d(3)[of j] d(8) by (cases "j = p_next p + 1") auto
  show "(p_futures (allocate_id p) j \<noteq> None) = (p_callers (allocate_id p) j \<noteq> None \<and> p_callers (allocate_id p) j \<noteq> Some Allocated)" for j
    unfolding alloc_fields using d(4)[of j] gone by (cases "j = p_next p + 1") auto
qed (use peer_invD[OF assms] in \<open>simp_all add: alloc_fields answered_same[of "allocate_id p" p] split: if_splits\<close>)

lemma register_fields:
  "p_table (register i p) = p_table p @ [i]" "p_failing (register i p) = p_failing p"
  "p_futures (register i p) = (p_futures p)(i \<mapsto> Waiting)" "p_seen (register i p) = p_seen p"
  "p_taken (register i p) = p_taken p" "p_next (register i p) = p_next p" "p_callers (register i p) = (p_callers p)(i \<mapsto> Registered)"
  by (simp_all add: peer_ops)

lemma inv_register:
  assumes "peer_inv p" "p_callers p i = Some Allocated" shows "peer_inv (register i p)"
proof (rule peer_invI)
  note d = peer_invD[OF assms(1)]
  have n: "i \<notin> set (owned p)" using owned_known[OF assms(1), of i] assms(2) by auto
  have o: "set (owned (register i p)) = insert i (set (owned p))" "distinct (owned (register i p)) = (i \<notin> set (owned p) \<and> distinct (owned p))"
    by (auto simp: owned_def register_fields)
  show "distinct (owned (register i p))" using d(1) n o(2) by simp
  show "p_futures (register i p) j = Some Waiting" if "j \<in> set (owned (register i p))" for j
    using that d(2)[of j] unfolding o(1) by (auto simp: register_fields)
  show "(p_callers (register i p) j \<noteq> None) = (1 \<le> j \<and> j \<le> p_next (register i p))" for j
    using d(3)[of j] assms(2) by (auto simp: register_fields)
  show "(p_futures (register i p) j \<noteq> None) = (p_callers (register i p) j \<noteq> None \<and> p_callers (register i p) j \<noteq> Some Allocated)" for j
    using d(4)[of j] by (auto simp: register_fields)
qed (use peer_invD[OF assms(1)] in \<open>simp_all add: register_fields answered_same[of "register i p" p] split: if_splits\<close>)

text \<open>More messages seen only add evidence.\<close>

lemma inv_seen: "peer_inv p \<Longrightarrow> peer_inv (p\<lparr>p_seen := p_seen p @ ms\<rparr>)"
proof -
  assume i: "peer_inv p"
  have a: "answered p j r \<Longrightarrow> answered (p\<lparr>p_seen := p_seen p @ ms\<rparr>) j r" for j r by (rule answered_mono) auto
  show ?thesis using peer_invD[OF i] by (intro peer_invI) (auto simp: owned_def intro: a)
qed

lemma inv_resolve:
  assumes "peer_inv p" "p_taken p = None" shows "peer_inv (resolve msg p)"
proof (cases "\<exists>i. response_id (jget msg ''id'') = Some i \<and> i \<in> set (p_table p)")
  case True
  then obtain i where i: "response_id (jget msg ''id'') = Some i" "i \<in> set (p_table p)" by blast
  define q where "q = p\<lparr>p_seen := p_seen p @ [msg]\<rparr>"
  have q: "peer_inv (unlist i q)" unfolding q_def by (rule inv_unlist[OF inv_seen[OF assms(1)]])
  have t: "p_taken (unlist i q) = None" "i \<notin> set (owned (unlist i q))" "p_futures q i = Some Waiting"
    using assms i peer_invD(1)[OF assms(1)] peer_invD(2)[OF assms(1), of i] by (auto simp: q_def unlist_def owned_def)
  have r: "resolve msg p = (unlist i q)\<lparr>p_taken := Some (i, msg)\<rparr>" using i by (simp add: resolve_def q_def)
  have o: "owned (resolve msg p) = owned (unlist i q) @ [i]" using t(1) by (simp add: r owned_def)
  have f: "p_futures (resolve msg p) = p_futures (unlist i q)" "p_callers (resolve msg p) = p_callers (unlist i q)"
    "p_next (resolve msg p) = p_next (unlist i q)" "p_seen (resolve msg p) = p_seen (unlist i q)" "p_taken (resolve msg p) = Some (i, msg)"
    by (simp_all add: r)
  have m: "msg \<in> set (p_seen (unlist i q))" by (simp add: q_def)
  show ?thesis
    by (rule peer_invI) (use peer_invD[OF q] t(2,3) o f i(1) m in \<open>auto simp: answered_same[of "resolve msg p" "unlist i q"]\<close>)
next
  case False
  then have "resolve msg p = p\<lparr>p_seen := p_seen p @ [msg]\<rparr>" by (auto simp: resolve_def Let_def split: option.splits)
  then show ?thesis using inv_seen[OF assms(1)] by simp
qed

lemma inv_settle:
  assumes "peer_inv p" "p_taken p = Some (i, msg)" shows "peer_inv (settle i msg p)"
proof -
  define q where "q = p\<lparr>p_taken := None\<rparr>"
  have q: "peer_inv q" unfolding q_def
    by (rule inv_owned[OF assms(1)]) (use peer_invD(1)[OF assms(1)] assms(2) in \<open>auto simp: owned_def\<close>)
  have n: "i \<notin> set (owned q)" using peer_invD(1)[OF assms(1)] assms(2) by (auto simp: q_def owned_def)
  have w: "p_futures q i = Some Waiting" using peer_invD(2)[OF assms(1), of i] assms(2) by (simp add: q_def owned_def)
  have m: "msg \<in> set (p_seen q) \<and> response_id (jget msg ''id'') = Some i" using peer_invD(7)[OF assms(1,2)] by (simp add: q_def)
  show ?thesis
  proof (cases "answer_of msg")
    case None
    have "peer_inv (q\<lparr>p_reading := False\<rparr>)"
      by (rule inv_owned[OF q]) (use peer_invD(1)[OF q] in \<open>auto simp: owned_def\<close>)
    then show ?thesis using None by (simp add: settle_def q_def)
  next
    case (Some r)
    have "peer_inv (set_future i (Completed r) q)"
      by (rule inv_complete[OF q n]) (use w m Some in \<open>auto simp: answered_def\<close>)
    then show ?thesis using Some by (simp add: settle_def q_def)
  qed
qed

lemma inv_fail:
  assumes "peer_inv p" "i \<in> set (p_failing p)" shows "peer_inv (fail_one i p)"
proof -
  define q where "q = p\<lparr>p_failing := filter (\<lambda>j. j \<noteq> i) (p_failing p)\<rparr>"
  have q: "peer_inv q" unfolding q_def
    by (rule inv_owned[OF assms(1)]) (use peer_invD(1)[OF assms(1)] in \<open>auto simp: owned_def\<close>)
  have n: "i \<notin> set (owned q)" using peer_invD(1)[OF assms(1)] assms(2) by (auto simp: q_def owned_def)
  have "peer_inv (set_future i (Completed (Inl ConnectionGone)) q)" if "p_futures p i = Some Waiting"
    by (rule inv_complete[OF q n]) (use that in \<open>auto simp: q_def\<close>)
  then show ?thesis using q by (simp add: fail_one_def q_def Let_def)
qed

lemma owned_switches: "owned (p\<lparr>p_reading := b\<rparr>) = owned p" "owned (p\<lparr>p_connected := b\<rparr>) = owned p"
  by (simp_all add: owned_def)

lemma owned_swap:
  assumes "distinct (owned p)"
  shows "distinct (owned (p\<lparr>p_failing := p_failing p @ p_table p, p_table := []\<rparr>))"
    "set (owned (p\<lparr>p_failing := p_failing p @ p_table p, p_table := []\<rparr>)) \<subseteq> set (owned p)"
  using assms by (auto simp: owned_def)

lemma inv_step: "pstep p q \<Longrightarrow> peer_inv p \<Longrightarrow> peer_inv q"
proof (induction rule: pstep.induct)
  case (send_gone p i f)
  then show ?case using inv_caller[OF inv_unlist[of p i], of i "Finished (Inl f)"] by simp
next
  case (expired p i)
  then show ?case using inv_caller[OF inv_unlist[of p i], of i "Finished (Inl CallTimedOut)"] by simp
next
  case (collect p i r)
  have a: "answered p i x" if "Finished r = Finished (Inr x)" for x
    using peer_invD(5)[OF collect(3), of i x] collect(2) that by simp
  show ?case by (rule inv_caller[OF collect(3)]) (use collect(1) in simp, use collect(1) in simp, simp, rule a)
next
  case (lost p)
  show ?case by (rule inv_owned[OF lost(2)]) (simp_all add: peer_invD(1)[OF lost(2)] owned_switches)
next
  case (disconnect p)
  show ?case by (rule inv_owned[OF disconnect]) (simp_all add: peer_invD(1)[OF disconnect] owned_switches)
next
  case (swap p)
  show ?case by (rule inv_owned[OF swap]) (simp_all add: swap_pending_def owned_swap[OF peer_invD(1)[OF swap]])
next
  case (alloc p)
  then show ?case by (rule inv_alloc)
next
  case (reg p i)
  then show ?case by (intro inv_register)
next
  case (sent p i)
  then show ?case by (intro inv_caller) simp_all
next
  case (send_failed p i)
  then show ?case by (intro inv_caller) simp_all
next
  case (expire p i)
  then show ?case by (intro inv_caller) simp_all
next
  case (response p msg)
  then show ?case by (intro inv_resolve)
next
  case (settled p i msg)
  then show ?case by (intro inv_settle)
next
  case (fail i p)
  then show ?case by (intro inv_fail)
qed

lemma inv_reach: "preach p \<Longrightarrow> peer_inv p"
proof (induction rule: preach.induct)
  case start
  show ?case by (simp add: peer_inv_def new_peer_def owned_def)
qed (rule inv_step)

lemma finished_final:
  assumes "pstep p q" "p_callers p i = Some (Finished r)" "peer_inv p"
  shows "p_callers q i = Some (Finished r)"
proof -
  have "i \<noteq> p_next p + 1" using peer_invD(3)[OF assms(3), of i] assms(2) by auto
  with assms(1,2) show ?thesis
    by (induction rule: pstep.induct)
       (auto simp: allocate_id_def register_def swap_pending_def resolve_def settle_def fail_one_def unlist_def Let_def split: option.splits)
qed

lemma await_finishes:
  assumes "p_callers p i = Some Awaiting" "p_futures p i \<noteq> None"
  shows "\<exists>q r. pstep\<^sup>*\<^sup>* p q \<and> p_callers q i = Some (Finished r) \<and> p_seen q = p_seen p"
proof (cases "the (p_futures p i)")
  case Waiting
  have "pstep p (set_caller i Expired p)" by (rule pstep.expire) (use assms Waiting in auto)
  moreover have "pstep (set_caller i Expired p) (set_caller i (Finished (Inl CallTimedOut)) (unlist i (set_caller i Expired p)))"
    by (rule pstep.expired) simp
  ultimately have "pstep\<^sup>*\<^sup>* p (set_caller i (Finished (Inl CallTimedOut)) (unlist i (set_caller i Expired p)))" by simp
  then show ?thesis by (intro exI conjI) (assumption, simp_all)
next
  case (Completed r)
  have "pstep p (set_caller i (Finished r) p)" by (rule pstep.collect) (use assms Completed in auto)
  then have "pstep\<^sup>*\<^sup>* p (set_caller i (Finished r) p)" by simp
  then show ?thesis by (intro exI conjI) (assumption, simp_all)
qed

lemma registered_finishes:
  assumes "p_callers p i = Some Registered"
  shows "\<exists>q r. pstep\<^sup>*\<^sup>* p q \<and> p_callers q i = Some (Finished r) \<and> p_seen q = p_seen p"
proof -
  let ?f = "if p_connected p then WriteFailed else NotConnected"
  have "pstep p (set_caller i (SendFailed ?f) p)" by (rule pstep.send_failed) (rule assms)
  moreover have "pstep (set_caller i (SendFailed ?f) p) (set_caller i (Finished (Inl ?f)) (unlist i (set_caller i (SendFailed ?f) p)))"
    by (rule pstep.send_gone) simp
  ultimately have "pstep\<^sup>*\<^sup>* p (set_caller i (Finished (Inl ?f)) (unlist i (set_caller i (SendFailed ?f) p)))" by simp
  then show ?thesis by (intro exI conjI) (assumption, simp_all)
qed

lemma caller_finishes:
  assumes "preach p" "p_callers p i = Some c"
  shows "\<exists>q r. pstep\<^sup>*\<^sup>* p q \<and> p_callers q i = Some (Finished r) \<and> p_seen q = p_seen p"
proof (cases c)
  case Allocated
  then have s: "pstep p (register i p)" using assms(2) by (intro pstep.reg) simp
  obtain q r where "pstep\<^sup>*\<^sup>* (register i p) q" "p_callers q i = Some (Finished r)"
    "p_seen q = p_seen p"
    using registered_finishes[of "register i p" i] by (auto simp: register_fields)
  with s show ?thesis by (meson converse_rtranclp_into_rtranclp)
next
  case (SendFailed f)
  have "pstep p (set_caller i (Finished (Inl f)) (unlist i p))" by (rule pstep.send_gone) (use assms(2) SendFailed in simp)
  then have "pstep\<^sup>*\<^sup>* p (set_caller i (Finished (Inl f)) (unlist i p))" by simp
  then show ?thesis by (intro exI conjI) (assumption, simp_all)
next
  case Awaiting
  then show ?thesis using await_finishes[of p i] peer_invD(4)[OF inv_reach[OF assms(1)], of i] assms(2) by simp
next
  case Expired
  have "pstep p (set_caller i (Finished (Inl CallTimedOut)) (unlist i p))" by (rule pstep.expired) (use assms(2) Expired in simp)
  then have "pstep\<^sup>*\<^sup>* p (set_caller i (Finished (Inl CallTimedOut)) (unlist i p))" by simp
  then show ?thesis by (intro exI conjI) (assumption, simp_all)
qed (use assms(2) registered_finishes in auto)

subsection \<open>What the peer promises\<close>

text \<open>C37: where \<open>recv\<close> happens to cut the byte stream makes no difference. Read in any pieces, the reader handles
  the messages one cut of the whole stream gives, in the same order, and keeps the same partial tail.\<close>

theorem recv_boundaries_irrelevant:
  "read_chunks [] cs = unframe (concat cs) \<and> ETX \<notin> set (snd (read_chunks [] cs))"
  using read_chunks_eq[of "[]" cs] unframe_left by simp

text \<open>C38: what \<open>_send\<close> writes is what the other side's reader gets. The frames of any messages, followed by a
  part of another and read in any pieces, are cut into exactly the texts of those messages, in order;
  no text contains the terminator, whatever strings are in it.\<close>

theorem framing_round_trip:
  assumes "\<forall>m \<in> set msgs. (\<exists>kvs. m = JObj kvs) \<and> floats_plain m" and "ETX \<notin> set left_over"
    and "concat cs = concat (map frame msgs) @ left_over"
  shows "read_chunks [] cs = (map (\<lambda>m. encode (dumps m)) msgs, left_over)"
  using read_chunks_eq[of "[]" cs] unframe_frames[OF assms(1,2)] assms(3) by simp

definition demo_message :: json where
  "demo_message = JObj [(''id'', JInt 7), (''t'', JStr [CHR 0x03, CHR ''a'', CHR 0x22])]"

lemma demo_frame: "frame demo_message =
  [123, 34, 105, 100, 34, 58, 32, 55, 44, 32, 34, 116, 34, 58, 32, 34, 92, 117, 48, 48, 48, 51, 97, 92, 34, 34, 125, 3]"
  by code_simp

theorem framing_round_trip_witness:
  "read_chunks [] [[123, 34, 105, 100, 34, 58], [32, 55, 44, 32, 34, 116, 34, 58, 32, 34, 92, 117, 48, 48, 48, 51, 97, 92, 34, 34, 125, 3, 123]]
     = ([encode (dumps demo_message)], [123])"
  using framing_round_trip[of "[demo_message]" "[123]"
      "[[123, 34, 105, 100, 34, 58], [32, 55, 44, 32, 34, 116, 34, 58, 32, 34, 92, 117, 48, 48, 48, 51, 97, 92, 34, 34, 125, 3, 123]]"]
  by (simp add: demo_frame ETX_def) (simp add: demo_message_def)

text \<open>C36: every inbound request is answered once. Whatever the handler does - returns, raises an \<open>RpcError\<close>, raises
  anything else, or is not run because the agent is closing - exactly one message is written, with the
  request's own id and either a result or an error, as long as the value it hands over is one JSON
  can carry.\<close>

theorem request_answered_once:
  assumes "handle_raw loads raw = ServeRequest msg"
    and "\<forall>called params. encodable (on_request called params)"
  shows "jget msg ''id'' \<noteq> JNull \<and>
    (\<exists>kvs. answer_request pool on_request msg = [JObj kvs] \<and> jget kvs ''id'' = jget msg ''id'' \<and>
       (map_of kvs ''result'' = None) \<noteq> (map_of kvs ''error'' = None))"
proof -
  have "jget msg ''id'' \<noteq> JNull"
    using assms(1) by (auto simp: handle_raw_def Let_def split: option.splits json.splits if_splits)
  then show ?thesis using answer_once[of on_request msg pool] assms(2) by blast
qed

definition demo_handler :: "json \<Rightarrow> json \<Rightarrow> handler_outcome" where
  "demo_handler called params =
     (if called = JStr ''fw.status'' then HandlerReturned (Some JNull) else HandlerRpcError ERR_METHOD_NOT_FOUND ''unknown method'' None)"

theorem request_answered_once_witness:
  "\<exists>kvs. answer_request True demo_handler [(''method'', JStr ''fw.nope''), (''id'', JInt 3)] = [JObj kvs] \<and>
     jget kvs ''id'' = JInt 3"
proof -
  have h: "handle_raw (\<lambda>_. Some (JObj [(''method'', JStr ''fw.nope''), (''id'', JInt 3)])) [123] =
      ServeRequest [(''method'', JStr ''fw.nope''), (''id'', JInt 3)]"
    by (simp add: handle_raw_def)
  have e: "\<forall>called params. encodable (demo_handler called params)" by (simp add: demo_handler_def)
  from request_answered_once[OF h e, of True] show ?thesis by auto
qed

text \<open>The limit of that: a handler whose result \<open>json.dumps\<close> raises on, or whose exception's \<open>to_dict\<close>
  raises, leaves the request without any answer.\<close>

theorem unencodable_result_unanswered:
  assumes "on_request (case map_of msg ''method'' of None \<Rightarrow> JStr [] | Some m \<Rightarrow> m) (jget msg ''params'') \<in>
    {HandlerReturned None, HandlerRaised text cls ToDictRaises}"
  shows "answer_request True on_request msg = []"
  using assms by (auto simp: answer_request_def serve_request_def respond_result_def Let_def)

text \<open>C31: a call gets its own answer or an error, once. Under every interleaving of callers, reader, time-outs and
  \<open>close\<close>: a call that returned a value returned the result of a response the reader saw with that
  call's id; the future the reader is about to set is not set yet, so setting it cannot fail; and a
  call that has ended stays as it ended.\<close>

theorem call_answer_matched:
  assumes "preach p"
  shows "(p_callers p i = Some (Finished (Inr r)) \<longrightarrow>
      (\<exists>msg \<in> set (p_seen p). response_id (jget msg ''id'') = Some i \<and> answer_of msg = Some (Inr r))) \<and>
    (p_taken p = Some (i, m) \<longrightarrow> p_futures p i = Some Waiting) \<and>
    (pstep p q \<longrightarrow> p_callers p i = Some (Finished x) \<longrightarrow> p_callers q i = Some (Finished x))"
proof -
  note inv = inv_reach[OF assms]
  have "p_futures p i = Some Waiting" if "p_taken p = Some (i, m)"
    using peer_invD(2)[OF inv, of i] that by (simp add: owned_def)
  then show ?thesis using peer_invD(6)[OF inv, of i r] finished_final[OF _ _ inv] unfolding answered_def by blast
qed

definition demo_response :: "(string \<times> json) list" where
  "demo_response = [(''id'', JInt 1), (''result'', JStr ''ok'')]"

definition demo_called :: peer where
  "demo_called = set_caller 1 (Finished (Inr (JStr ''ok'')))
     (settle 1 demo_response (resolve demo_response (set_caller 1 Awaiting (register 1 (allocate_id new_peer)))))"

lemmas demo_peer_defs = new_peer_def allocate_id_def set_caller_def register_def set_future_def resolve_def settle_def
  unlist_def demo_response_def answer_of_def

lemma demo_called_reach: "preach demo_called"
proof -
  have 1: "preach (register 1 (allocate_id new_peer))"
    by (rule preach.step[OF preach.step[OF preach.start pstep.alloc] pstep.reg]) (simp add: demo_peer_defs)
  have 2: "preach (set_caller 1 Awaiting (register 1 (allocate_id new_peer)))"
    by (rule preach.step[OF 1 pstep.sent]) (simp_all add: demo_peer_defs)
  have 3: "preach (resolve demo_response (set_caller 1 Awaiting (register 1 (allocate_id new_peer))))"
    by (rule preach.step[OF 2 pstep.response]) (simp_all add: demo_peer_defs)
  have 4: "preach (settle 1 demo_response (resolve demo_response (set_caller 1 Awaiting (register 1 (allocate_id new_peer)))))"
    by (rule preach.step[OF 3 pstep.settled]) (simp add: demo_peer_defs)
  show ?thesis unfolding demo_called_def
    by (rule preach.step[OF 4 pstep.collect]) (simp_all add: demo_peer_defs)
qed

theorem call_answer_matched_witness:
  "\<exists>msg \<in> set (p_seen demo_called). response_id (jget msg ''id'') = Some 1 \<and> answer_of msg = Some (Inr (JStr ''ok''))"
proof -
  have "p_callers demo_called 1 = Some (Finished (Inr (JStr ''ok'')))" by (simp add: demo_called_def)
  with call_answer_matched[OF demo_called_reach, of 1 "JStr ''ok''"] show ?thesis by blast
qed

text \<open>No call hangs. Whatever state the connection is in - the reader gone, the socket closed, the peer silent -
  a call that was made can still run to its end without another message from the peer: it is never
  left waiting on anything but its time-out.\<close>

theorem call_can_return:
  assumes "preach p" "p_callers p i = Some c"
  shows "\<exists>q r. pstep\<^sup>*\<^sup>* p q \<and> p_callers q i = Some (Finished r) \<and> p_seen q = p_seen p"
  using caller_finishes[OF assms] .

theorem call_can_return_witness:
  "\<exists>q r. pstep\<^sup>*\<^sup>* (allocate_id new_peer) q \<and> p_callers q 1 = Some (Finished r) \<and> p_seen q = p_seen (allocate_id new_peer)"
proof (rule call_can_return)
  show "preach (allocate_id new_peer)" by (rule preach.step[OF preach.start pstep.alloc])
  show "p_callers (allocate_id new_peer) 1 = Some Allocated" by (simp add: demo_peer_defs)
qed

end
