(* ===== verification/Events.thy ===== *)
theory Events
  imports Jobs Discovery "HOL-Library.Product_Lexorder" "HOL-Library.List_Lexorder" "HOL-Library.Char_ord"
begin

section \<open>Events to the front end (agent/events.py)\<close>

text \<open>
  The publisher, the batcher that coalesces log lines, the worker that rebuilds \<open>state\<close>, and the
  watcher that reports the bus. Each operation of the batcher holds its lock throughout, so its
  histories are sequences of operations; the state worker shares one flag with its callers and is a
  step relation.
\<close>

subsection \<open>Publishing\<close>

definition RESERVED_EVENTS :: "string list" where
  "RESERVED_EVENTS = [''connected'', ''disconnected'']"

text \<open>\<open>Inl\<close> is the \<open>ValueError\<close>. The peer is absent or has a connection state, and \<open>notify\<close> raises or not;
  the message is handed to \<open>notify\<close> only on a connected peer.\<close>

definition event_message :: "string \<Rightarrow> json option \<Rightarrow> json" where
  "event_message name data =
     JObj [(''jsonrpc'', JStr ''2.0''), (''method'', JStr ''connection.send_event''),
       (''params'', JObj ((''event'', JStr name) # (case data of None \<Rightarrow> [] | Some d \<Rightarrow> [(''data'', d)])))]"

definition emit_event :: "bool option \<Rightarrow> bool \<Rightarrow> string \<Rightarrow> json option \<Rightarrow> py_error + json option \<times> bool" where
  "emit_event peer notify_ok name data =
     (if name \<in> set RESERVED_EVENTS then Inl ValueError
      else if peer \<noteq> Some True then Inr (None, False)
      else Inr (Some (event_message name data), notify_ok))"

subsection \<open>Batching log lines\<close>

definition MAX_LINES :: nat where "MAX_LINES = 40"
definition MAX_BYTES :: nat where "MAX_BYTES = 32 * 1024"
definition MAX_LINE_BYTES :: nat where "MAX_LINE_BYTES = 8 * 1024"

record batcher =
  lb_job :: "string option"
  lb_pending :: "log_line list"
  lb_first :: "nat option"
  lb_bytes :: nat

record log_event =
  le_job :: string
  le_seq :: "nat option"
  le_lines :: "log_line list"

definition new_batcher :: batcher where
  "new_batcher = \<lparr>lb_job = None, lb_pending = [], lb_first = None, lb_bytes = 0\<rparr>"

definition flush_locked :: "batcher \<Rightarrow> batcher \<times> log_event list" where
  "flush_locked b =
     (case lb_job b of
        None \<Rightarrow> (b, [])
      | Some j \<Rightarrow>
          if lb_pending b = [] then (b, [])
          else (b\<lparr>lb_pending := [], lb_first := None, lb_bytes := 0\<rparr>,
                [\<lparr>le_job = j, le_seq = lb_first b, le_lines = lb_pending b\<rparr>]))"

definition clip_line :: "log_line \<Rightarrow> log_line" where
  "clip_line l =
     (if length (ll_text l) > MAX_LINE_BYTES
      then l\<lparr>ll_text := take MAX_LINE_BYTES (ll_text l) @ '' ...[truncated]''\<rparr> else l)"

definition line_cost :: "log_line \<Rightarrow> nat" where
  "line_cost l = length (ll_text l) + 24"

definition add_line :: "batcher \<Rightarrow> string \<Rightarrow> log_line \<Rightarrow> batcher \<times> log_event list" where
  "add_line b job line =
     (let l = clip_line line;
          (b1, out1) = (if lb_job b \<noteq> None \<and> lb_job b \<noteq> Some job then flush_locked b else (b, []));
          b2 = b1\<lparr>lb_job := Some job, lb_first := (if lb_first b1 = None then Some (ll_seq line) else lb_first b1),
                  lb_pending := lb_pending b1 @ [l], lb_bytes := lb_bytes b1 + line_cost l\<rparr>;
          (b3, out2) = (if length (lb_pending b2) \<ge> MAX_LINES \<or> lb_bytes b2 \<ge> MAX_BYTES then flush_locked b2 else (b2, []))
      in (b3, out1 @ out2))"

datatype log_op = AddLine string log_line | FlushLines

fun batch_op :: "log_op \<Rightarrow> batcher \<Rightarrow> batcher \<times> log_event list" where
  "batch_op (AddLine job l) b = add_line b job l"
| "batch_op FlushLines b = flush_locked b"

fun batch_run :: "batcher \<Rightarrow> log_op list \<Rightarrow> batcher \<times> log_event list" where
  "batch_run b [] = (b, [])"
| "batch_run b (op # ops) =
     (let (b1, out1) = batch_op op b; (b2, out2) = batch_run b1 ops in (b2, out1 @ out2))"

fun lines_added :: "log_op list \<Rightarrow> (string \<times> log_line) list" where
  "lines_added [] = []"
| "lines_added (AddLine job l # ops) = (job, clip_line l) # lines_added ops"
| "lines_added (FlushLines # ops) = lines_added ops"

definition lines_sent :: "log_event list \<Rightarrow> (string \<times> log_line) list" where
  "lines_sent out = concat (map (\<lambda>e. map (Pair (le_job e)) (le_lines e)) out)"

definition lines_held :: "batcher \<Rightarrow> (string \<times> log_line) list" where
  "lines_held b = (case lb_job b of None \<Rightarrow> [] | Some j \<Rightarrow> map (Pair j) (lb_pending b))"

definition batcher_ok :: "batcher \<Rightarrow> bool" where
  "batcher_ok b =
     ((lb_job b = None \<longrightarrow> lb_pending b = []) \<and>
      lb_first b = (if lb_pending b = [] then None else Some (ll_seq (hd (lb_pending b)))) \<and>
      lb_bytes b = sum_list (map line_cost (lb_pending b)) \<and>
      length (lb_pending b) < MAX_LINES \<and> lb_bytes b < MAX_BYTES)"

definition MAX_EVENT_BYTES :: nat where
  "MAX_EVENT_BYTES = MAX_BYTES + MAX_LINE_BYTES + 38"

definition event_ok :: "log_event \<Rightarrow> bool" where
  "event_ok e =
     (le_lines e \<noteq> [] \<and> le_seq e = Some (ll_seq (hd (le_lines e))) \<and> length (le_lines e) \<le> MAX_LINES \<and>
      sum_list (map line_cost (le_lines e)) \<le> MAX_EVENT_BYTES)"

lemma clip_cost: "line_cost (clip_line l) \<le> MAX_LINE_BYTES + 39"
  by (simp add: line_cost_def clip_line_def MAX_LINE_BYTES_def)

lemma clip_seq [simp]: "ll_seq (clip_line l) = ll_seq l"
  by (simp add: clip_line_def)

lemma sent_simps [simp]: "lines_sent [] = []" "lines_sent (e # out) = map (Pair (le_job e)) (le_lines e) @ lines_sent out"
  "lines_sent (out1 @ out2) = lines_sent out1 @ lines_sent out2"
  by (simp_all add: lines_sent_def)

text \<open>What a flush sends is what was held.\<close>

lemma flush_effect:
  assumes "flush_locked b = (b', out)"
    and "lb_first b = (if lb_pending b = [] then None else Some (ll_seq (hd (lb_pending b))))"
    and "lb_bytes b = sum_list (map line_cost (lb_pending b))" "length (lb_pending b) \<le> MAX_LINES" "lb_bytes b \<le> MAX_EVENT_BYTES"
    and "lb_job b = None \<longrightarrow> lb_pending b = []"
  shows "lines_held b = lines_sent out" "batcher_ok b'" "lb_pending b' = []" "lb_job b' = lb_job b" "\<forall>e \<in> set out. event_ok e"
  using assms
  by (auto simp: flush_locked_def lines_held_def batcher_ok_def event_ok_def MAX_LINES_def MAX_BYTES_def split: option.splits if_splits)

lemma flush_other:
  assumes "batcher_ok b" "(if lb_job b \<noteq> None \<and> lb_job b \<noteq> Some job then flush_locked b else (b, [])) = (b1, out1)"
  shows "batcher_ok b1" "lines_held b = lines_sent out1 @ lines_held b1" "\<forall>e \<in> set out1. event_ok e"
    "lb_job b1 = Some job \<or> lb_pending b1 = []"
proof -
  have "batcher_ok b1 \<and> lines_held b = lines_sent out1 @ lines_held b1 \<and> (\<forall>e \<in> set out1. event_ok e) \<and>
    (lb_job b1 = Some job \<or> lb_pending b1 = [])"
  proof (cases "lb_job b \<noteq> None \<and> lb_job b \<noteq> Some job")
    case True
    then have f: "flush_locked b = (b1, out1)" using assms(2) by simp
    have "lb_bytes b \<le> MAX_EVENT_BYTES" using assms(1) by (simp add: batcher_ok_def MAX_EVENT_BYTES_def)
    note e = flush_effect[OF f] this assms(1)[unfolded batcher_ok_def]
    have "lines_held b1 = []" using e by (auto simp: lines_held_def split: option.split)
    then show ?thesis using e by auto
  next
    case False
    then have "b1 = b" "out1 = []" using assms(2) by (auto split: if_splits)
    then show ?thesis using False assms(1) by (auto simp: batcher_ok_def)
  qed
  then show "batcher_ok b1" "lines_held b = lines_sent out1 @ lines_held b1" "\<forall>e \<in> set out1. event_ok e"
    "lb_job b1 = Some job \<or> lb_pending b1 = []" by blast+
qed

lemma add_line_effect:
  assumes "batcher_ok b" "add_line b job line = (b', out)"
  shows "batcher_ok b'" "lines_held b @ [(job, clip_line line)] = lines_sent out @ lines_held b'" "\<forall>e \<in> set out. event_ok e"
proof -
  let ?l = "clip_line line"
  obtain b1 out1 where 1: "(if lb_job b \<noteq> None \<and> lb_job b \<noteq> Some job then flush_locked b else (b, [])) = (b1, out1)"
    by (cases "if lb_job b \<noteq> None \<and> lb_job b \<noteq> Some job then flush_locked b else (b, [])")
  note o = flush_other[OF assms(1) 1]
  define b2 where "b2 = b1\<lparr>lb_job := Some job, lb_first := (if lb_first b1 = None then Some (ll_seq line) else lb_first b1),
     lb_pending := lb_pending b1 @ [?l], lb_bytes := lb_bytes b1 + line_cost ?l\<rparr>"
  have f2: "lb_job b2 = Some job" "lb_pending b2 = lb_pending b1 @ [?l]" "lb_bytes b2 = lb_bytes b1 + line_cost ?l"
    "lb_first b2 = Some (ll_seq (hd (lb_pending b2)))"
    using o(1) by (auto simp: b2_def batcher_ok_def hd_append)
  have n2: "length (lb_pending b2) \<le> MAX_LINES" "lb_bytes b2 \<le> MAX_EVENT_BYTES"
    "lb_bytes b2 = sum_list (map line_cost (lb_pending b2))"
    using o(1) clip_cost[of line] by (auto simp: f2 batcher_ok_def MAX_EVENT_BYTES_def)
  have h2: "lines_held b @ [(job, ?l)] = lines_sent out1 @ lines_held b2"
    using o(2,4) by (auto simp: lines_held_def f2 split: option.splits)
  have r: "(if length (lb_pending b2) \<ge> MAX_LINES \<or> lb_bytes b2 \<ge> MAX_BYTES then flush_locked b2 else (b2, [])) = (b', drop (length out1) out) \<and>
     out = out1 @ drop (length out1) out"
    using assms(2) unfolding add_line_def Let_def 1 prod.case b2_def[symmetric] by (auto split: prod.splits if_splits)
  have "batcher_ok b' \<and> lines_held b2 = lines_sent (drop (length out1) out) @ lines_held b' \<and> (\<forall>e \<in> set (drop (length out1) out). event_ok e)"
  proof (cases "length (lb_pending b2) \<ge> MAX_LINES \<or> lb_bytes b2 \<ge> MAX_BYTES")
    case True
    then have f: "flush_locked b2 = (b', drop (length out1) out)" using r by simp
    note e = flush_effect[OF f]
    have "lines_held b' = []" using e f2 n2 by (auto simp: lines_held_def)
    then show ?thesis using e f2 n2 by auto
  next
    case False
    then have "b' = b2" "drop (length out1) out = []" using r by simp_all
    then show ?thesis using False f2 n2 by (simp add: batcher_ok_def)
  qed
  then show "batcher_ok b'" "lines_held b @ [(job, ?l)] = lines_sent out @ lines_held b'" "\<forall>e \<in> set out. event_ok e"
    using h2 o(3) r by (metis append.assoc sent_simps(3), metis append.assoc sent_simps(3), metis Un_iff set_append)
qed

lemma batch_op_effect:
  assumes "batcher_ok b" "batch_op op b = (b', out)"
  shows "batcher_ok b' \<and> lines_held b @ lines_added [op] = lines_sent out @ lines_held b' \<and> (\<forall>e \<in> set out. event_ok e)"
proof (cases op)
  case (AddLine job l)
  then show ?thesis using add_line_effect[OF assms(1), of job l b' out] assms(2) by simp
next
  case FlushLines
  then have f: "flush_locked b = (b', out)" using assms(2) by simp
  have "lb_bytes b \<le> MAX_EVENT_BYTES" using assms(1) by (simp add: batcher_ok_def MAX_EVENT_BYTES_def)
  note e = flush_effect[OF f] this assms(1)[unfolded batcher_ok_def]
  have "lines_held b' = []" using e by (auto simp: lines_held_def split: option.split)
  then show ?thesis using e FlushLines by auto
qed

lemma batch_run_effect:
  "batcher_ok b \<Longrightarrow> batch_run b ops = (b', out) \<Longrightarrow>
     batcher_ok b' \<and> lines_held b @ lines_added ops = lines_sent out @ lines_held b' \<and> (\<forall>e \<in> set out. event_ok e)"
proof (induction ops arbitrary: b out)
  case (Cons op ops)
  obtain b1 out1 where 1: "batch_op op b = (b1, out1)" by (cases "batch_op op b")
  obtain out2 where 2: "batch_run b1 ops = (b', out2)" "out = out1 @ out2"
    using Cons.prems(2) 1 by (auto split: prod.splits)
  have a: "lines_added (op # ops) = lines_added [op] @ lines_added ops" by (cases op) simp_all
  note e = batch_op_effect[OF Cons.prems(1) 1]
  note i = Cons.IH[OF _ 2(1)]
  show ?case using e i a 2(2) by (metis Un_iff append.assoc sent_simps(3) set_append)
qed simp

text \<open>\<open>stop\<close> flushes what is left.\<close>

definition batch_stop :: "log_op list \<Rightarrow> log_event list" where
  "batch_stop ops = (let (b, out) = batch_run new_batcher ops in out @ snd (flush_locked b))"

lemma batch_stop_effect: "lines_sent (batch_stop ops) = lines_added ops \<and> (\<forall>e \<in> set (batch_stop ops). event_ok e)"
proof -
  obtain b out where r: "batch_run new_batcher ops = (b, out)" by (cases "batch_run new_batcher ops")
  have n: "batcher_ok new_batcher" "lines_held new_batcher = []"
    by (simp_all add: batcher_ok_def new_batcher_def lines_held_def MAX_LINES_def MAX_BYTES_def)
  note e = batch_run_effect[OF n(1) r]
  obtain b' out' where f: "flush_locked b = (b', out')" by (cases "flush_locked b")
  note e' = batch_op_effect[of b FlushLines b' out'] 
  have h: "lines_held b' = []" using f by (auto simp: flush_locked_def lines_held_def split: option.splits if_splits)
  show ?thesis using e e' f h n(2) by (simp add: batch_stop_def r) (metis Un_iff)
qed

text \<open>C39: a log event stays small. However the lines come - many at once, from several jobs, one line a compiler's
  whole output - no \<open>log\<close> event is empty, holds more than forty lines or more than the byte budget plus
  one clipped line, and each says the number of its first line.\<close>

theorem log_events_bounded:
  "\<forall>e \<in> set (batch_stop ops). le_lines e \<noteq> [] \<and> le_seq e = Some (ll_seq (hd (le_lines e))) \<and>
     length (le_lines e) \<le> 40 \<and> sum_list (map (\<lambda>l. length (ll_text l) + 24) (le_lines e)) \<le> 40998"
  using batch_stop_effect[of ops]
  by (simp add: event_ok_def line_cost_def[abs_def] MAX_LINES_def MAX_EVENT_BYTES_def MAX_BYTES_def MAX_LINE_BYTES_def)

definition demo_ops :: "log_op list" where
  "demo_ops = [AddLine ''j1'' \<lparr>ll_seq = 0, ll_stream = ''stdout'', ll_text = ''CC''\<rparr>,
     AddLine ''j1'' \<lparr>ll_seq = 1, ll_stream = ''stdout'', ll_text = ''LD''\<rparr>, FlushLines,
     AddLine ''j1'' \<lparr>ll_seq = 2, ll_stream = ''info'', ll_text = ''done''\<rparr>]"

lemma demo_events: "map le_seq (batch_stop demo_ops) = [Some 0, Some 2]"
  by code_simp

theorem log_events_bounded_witness: "length (le_lines (hd (batch_stop demo_ops))) \<le> 40"
proof -
  have "hd (batch_stop demo_ops) \<in> set (batch_stop demo_ops)" using demo_events by (intro hd_in_set) auto
  then show ?thesis using log_events_bounded[of demo_ops] by blast
qed

lemma sent_mem: "k < length es \<Longrightarrow> l \<in> set (le_lines (es ! k)) \<Longrightarrow> (le_job (es ! k), l) \<in> set (lines_sent es)"
proof (induction es arbitrary: k)
  case (Cons e es)
  then show ?case by (cases k) auto
qed simp

lemma lines_offset:
  assumes "concat (map le_lines es) = xs" "k < length es"
  shows "le_lines (es ! k) = take (length (le_lines (es ! k))) (drop (sum_list (map (\<lambda>e. length (le_lines e)) (take k es))) xs)"
  using assms
proof (induction es arbitrary: xs k)
  case (Cons e es)
  show ?case
  proof (cases k)
    case 0
    then show ?thesis using Cons.prems by auto
  next
    case (Suc j)
    then show ?thesis using Cons.IH[of "drop (length (le_lines e)) xs" j] Cons.prems by (auto simp: add.commute)
  qed
qed simp

lemma sent_of_job:
  "map snd (filter (\<lambda>p. fst p = job) (lines_sent es)) = concat (map le_lines (filter (\<lambda>e. le_job e = job) es))"
proof (induction es)
  case (Cons e es)
  have "map snd (filter (\<lambda>p. fst p = job) (map (Pair (le_job e)) (le_lines e))) = (if le_job e = job then le_lines e else [])"
    by (simp add: filter_map comp_def)
  with Cons show ?case by (auto simp del: filter_map)
qed simp

text \<open>C40: a job's log reaches the front end whole, and a gap can be told. Every line handed to the batcher is sent
  once, in order and under its own job, however many jobs there are, however their lines alternate and
  whenever the batcher is flushed. If the lines handed over for one job are the lines it logged - numbered
  by its ring - then that job's events carry every one of them, each clipped at the limit; and each
  event's \<open>seq\<close> is the number of lines in that job's events before it, so a client that misses one sees
  the numbers jump.\<close>

theorem log_events_gapless:
  assumes "map snd (filter (\<lambda>p. fst p = job) (lines_added ops)) = map clip_line (numbered ls)"
    and "es = filter (\<lambda>e. le_job e = job) (batch_stop ops)"
  shows "lines_sent (batch_stop ops) = lines_added ops \<and> concat (map le_lines es) = map clip_line (numbered ls) \<and>
     (\<forall>k < length es. le_seq (es ! k) = Some (sum_list (map (\<lambda>e. length (le_lines e)) (take k es))))"
proof (intro conjI allI impI)
  note e = batch_stop_effect[of ops]
  from e show "lines_sent (batch_stop ops) = lines_added ops" by blast
  show c: "concat (map le_lines es) = map clip_line (numbered ls)"
    using sent_of_job[of job "batch_stop ops"] e assms by simp
  fix k assume k: "k < length es"
  let ?n = "sum_list (map (\<lambda>e. length (le_lines e)) (take k es))"
  have "es ! k \<in> set (batch_stop ops)" using nth_mem[OF k] assms(2) by simp
  then have ok: "event_ok (es ! k)" using e by blast
  then have ne: "le_lines (es ! k) \<noteq> []" by (simp add: event_ok_def)
  have o: "le_lines (es ! k) = take (length (le_lines (es ! k))) (drop ?n (map clip_line (numbered ls)))"
    by (rule lines_offset[OF c k])
  with ne have d: "drop ?n (map clip_line (numbered ls)) \<noteq> []" by (metis take_Nil)
  have "hd (le_lines (es ! k)) = hd (drop ?n (map clip_line (numbered ls)))"
    using o ne by (metis hd_take length_greater_0_conv)
  also have "\<dots> = clip_line (numbered ls ! ?n)" using d by (simp add: hd_drop_conv_nth)
  finally have "ll_seq (hd (le_lines (es ! k))) = ?n" using d by (simp add: numbered_def)
  then show "le_seq (es ! k) = Some ?n" using ok by (simp add: event_ok_def)
qed

text \<open>Two jobs, the second started before the first one's lines were flushed.\<close>

definition two_jobs :: "log_op list" where
  "two_jobs = [AddLine ''j1'' \<lparr>ll_seq = 0, ll_stream = ''stdout'', ll_text = ''CC''\<rparr>,
     AddLine ''j1'' \<lparr>ll_seq = 1, ll_stream = ''stdout'', ll_text = ''LD''\<rparr>,
     AddLine ''j2'' \<lparr>ll_seq = 0, ll_stream = ''info'', ll_text = ''go''\<rparr>, FlushLines,
     AddLine ''j2'' \<lparr>ll_seq = 1, ll_stream = ''info'', ll_text = ''done''\<rparr>]"

lemma two_jobs_sent: "batch_stop two_jobs =
   [\<lparr>le_job = ''j1'', le_seq = Some 0, le_lines = [\<lparr>ll_seq = 0, ll_stream = ''stdout'', ll_text = ''CC''\<rparr>, \<lparr>ll_seq = 1, ll_stream = ''stdout'', ll_text = ''LD''\<rparr>]\<rparr>,
    \<lparr>le_job = ''j2'', le_seq = Some 0, le_lines = [\<lparr>ll_seq = 0, ll_stream = ''info'', ll_text = ''go''\<rparr>]\<rparr>,
    \<lparr>le_job = ''j2'', le_seq = Some 1, le_lines = [\<lparr>ll_seq = 1, ll_stream = ''info'', ll_text = ''done''\<rparr>]\<rparr>]"
  by (simp add: batch_stop_def two_jobs_def new_batcher_def add_line_def flush_locked_def clip_line_def line_cost_def
      MAX_LINES_def MAX_BYTES_def MAX_LINE_BYTES_def)

theorem log_events_gapless_witness:
  "concat (map le_lines (filter (\<lambda>e. le_job e = ''j2'') (batch_stop two_jobs))) = map clip_line (numbered [(''info'', ''go''), (''info'', ''done'')]) \<and>
   le_seq (filter (\<lambda>e. le_job e = ''j2'') (batch_stop two_jobs) ! 1) = Some 1"
proof -
  have a: "map snd (filter (\<lambda>p. fst p = ''j2'') (lines_added two_jobs)) = map clip_line (numbered [(''info'', ''go''), (''info'', ''done'')])"
    by (simp add: two_jobs_def numbered_def upt_rec clip_line_def MAX_LINE_BYTES_def)
  have l: "length (filter (\<lambda>e. le_job e = ''j2'') (batch_stop two_jobs)) = 2"
    "sum_list (map (\<lambda>e. length (le_lines e)) (take 1 (filter (\<lambda>e. le_job e = ''j2'') (batch_stop two_jobs)))) = 1"
    by (simp_all add: two_jobs_sent)
  from log_events_gapless[OF a refl] l show ?thesis by simp
qed

subsection \<open>Rebuilding the state payload\<close>

text \<open>The worker's place in its loop: waiting for the flag, letting a burst settle, about to clear the flag,
  about to build. What it reports on is a version number that any change of the system raises; a
  change is made first and poked afterwards. \<open>sw_tries\<close> has what the worker looked at, newest first: the version
  a build started from, and whether the payload was handed on or the build (or the emitter) raised, which
  is caught and logged. \<open>sw_poked\<close> is the version at the last poke.\<close>

datatype state_pc = WaitDirty | Settling | Clearing | Building | Left

record state_worker =
  sw_dirty :: bool
  sw_stop :: bool
  sw_pc :: state_pc
  sw_version :: nat
  sw_poked :: "nat option"
  sw_tries :: "(nat \<times> bool) list"

definition new_state_worker :: state_worker where
  "new_state_worker = \<lparr>sw_dirty = False, sw_stop = False, sw_pc = WaitDirty, sw_version = 0, sw_poked = None, sw_tries = []\<rparr>"

definition poke_state :: "state_worker \<Rightarrow> state_worker" where
  "poke_state w = w\<lparr>sw_dirty := True, sw_poked := Some (sw_version w)\<rparr>"

text \<open>One move of the worker; \<open>emitted\<close> says whether a build that is due ends without raising.\<close>

definition worker_move :: "bool \<Rightarrow> state_worker \<Rightarrow> state_worker" where
  "worker_move emitted w =
     (case sw_pc w of
        WaitDirty \<Rightarrow> if sw_stop w then w\<lparr>sw_pc := Left\<rparr> else if sw_dirty w then w\<lparr>sw_pc := Settling\<rparr> else w
      | Settling \<Rightarrow> if sw_stop w then w\<lparr>sw_pc := Left\<rparr> else w\<lparr>sw_pc := Clearing\<rparr>
      | Clearing \<Rightarrow> w\<lparr>sw_dirty := False, sw_pc := Building\<rparr>
      | Building \<Rightarrow> w\<lparr>sw_tries := (sw_version w, emitted) # sw_tries w, sw_pc := WaitDirty\<rparr>
      | Left \<Rightarrow> w)"

inductive sstep :: "state_worker \<Rightarrow> state_worker \<Rightarrow> bool" where
  changed: "sstep w (w\<lparr>sw_version := sw_version w + 1\<rparr>)"
| poked: "sstep w (poke_state w)"
| worked: "sstep w (worker_move emitted w)"
| stopped: "sstep w (w\<lparr>sw_stop := True, sw_dirty := True\<rparr>)"

inductive sreach :: "state_worker \<Rightarrow> bool" where
  sstart: "sreach new_state_worker"
| sstep: "sreach w \<Longrightarrow> sstep w w' \<Longrightarrow> sreach w'"

text \<open>The last build started from a state no older than the last poke.\<close>

definition looked_at :: "state_worker \<Rightarrow> bool" where
  "looked_at w = (case sw_poked w of None \<Rightarrow> True | Some v \<Rightarrow> (\<exists>v' emitted older. sw_tries w = (v', emitted) # older \<and> v \<le> v'))"

definition state_inv :: "state_worker \<Rightarrow> bool" where
  "state_inv w = ((\<forall>v. sw_poked w = Some v \<longrightarrow> v \<le> sw_version w) \<and> (\<forall>(v, emitted) \<in> set (sw_tries w). v \<le> sw_version w) \<and>
     (sw_dirty w \<or> sw_pc w = Building \<or> looked_at w) \<and> (sw_pc w \<in> {Settling, Clearing} \<longrightarrow> sw_dirty w))"

lemma state_inv_reach: "sreach w \<Longrightarrow> state_inv w"
proof (induction rule: sreach.induct)
  case sstart
  show ?case by (simp add: state_inv_def new_state_worker_def looked_at_def)
next
  case (sstep w w')
  from sstep(2,3) show ?case
    by (induction rule: sstep.induct)
      (fastforce simp: state_inv_def poke_state_def worker_move_def looked_at_def split: state_pc.splits option.splits)+
qed

definition moves :: "bool \<Rightarrow> state_worker \<Rightarrow> state_worker" where
  "moves emitted w = worker_move emitted (worker_move emitted (worker_move emitted (worker_move emitted w)))"

lemma dirty_builds:
  assumes "sw_dirty w" "\<not> sw_stop w" "sw_pc w = WaitDirty"
  shows "sw_tries (moves emitted w) = (sw_version w, emitted) # sw_tries w" "sw_pc (moves emitted w) = WaitDirty"
    "\<not> sw_dirty (moves emitted w)" "sw_poked (moves emitted w) = sw_poked w"
  using assms by (simp_all add: worker_move_def moves_def)

text \<open>C35: no change that was announced is overlooked. Whatever the interleaving of changes, pokes, the worker and
  builds that raise: when the worker is waiting and the flag is down, its last build started from a state
  at least as new as the last poke - also when that poke came while a payload was being built - so
  unless that build raised, which is logged, a payload that new was emitted; and when the
  flag is up and nobody stopped it, four steps of the worker start one more build, of the present state.\<close>

theorem poke_never_lost:
  assumes "sreach w" "sw_pc w = WaitDirty"
  shows "(\<forall>v. \<not> sw_dirty w \<and> sw_poked w = Some v \<longrightarrow>
       (\<exists>v' emitted older. sw_tries w = (v', emitted) # older \<and> v \<le> v' \<and> v' \<le> sw_version w)) \<and>
    (sw_dirty w \<and> \<not> sw_stop w \<longrightarrow> (\<forall>emitted. sw_tries (moves emitted w) = (sw_version w, emitted) # sw_tries w \<and> sw_pc (moves emitted w) = WaitDirty))"
  using state_inv_reach[OF assms(1)] dirty_builds[of w] assms(2) by (fastforce simp: state_inv_def looked_at_def)

text \<open>The second build raises; the poke it was for is then reported by no payload until another comes.\<close>

definition demo_poked :: state_worker where
  "demo_poked = moves False (poke_state (moves True (poke_state new_state_worker)))"

theorem poke_never_lost_witness: "\<exists>v' emitted older. sw_tries demo_poked = (v', emitted) # older \<and> 0 \<le> v'"
proof -
  have "sreach (moves e (poke_state w))" if "sreach w" for w e
    unfolding moves_def by (intro sreach.sstep[OF _ sstep.worked] sreach.sstep[OF that sstep.poked])
  then have "sreach demo_poked" unfolding demo_poked_def by (meson sreach.sstart)
  moreover have "sw_pc demo_poked = WaitDirty" "\<not> sw_dirty demo_poked" "sw_poked demo_poked = Some 0" by code_simp+
  ultimately show ?thesis using poke_never_lost[of demo_poked] by blast
qed

lemma raising_build_drops_a_poke:
  "sw_tries demo_poked = [(0, False), (0, True)]" "\<not> sw_dirty demo_poked" "worker_move True demo_poked = demo_poked"
  by code_simp+

subsection \<open>Watching the bus\<close>

text \<open>\<open>_poll\<close>: the sweep is a parameter, \<open>None\<close> when it raises, and so is what the handler answers (\<open>None\<close>: it
  raised). The trace has the handler's calls and the events in order.\<close>

record bus_watch =
  bw_last :: "(string \<times> string \<times> string) list option"
  bw_retry :: bool

datatype bus_act = HandleBus "bus_device list" | EmitBus "bus_device list"

definition fingerprint :: "bus_device list \<Rightarrow> (string \<times> string \<times> string) list" where
  "fingerprint ds = sort (map (\<lambda>d. (lower (bd_fw d), bd_chipset d, bd_serial d)) ds)"

definition bus_poll :: "(bus_device list \<Rightarrow> bool option) \<Rightarrow> bus_device list option \<Rightarrow> bus_watch \<Rightarrow> bus_watch \<times> bus_act list" where
  "bus_poll on_change found_or_raised b =
     (case found_or_raised of
        None \<Rightarrow> (b, [])
      | Some found \<Rightarrow>
          (let fp = fingerprint found; is_new = (bw_last b \<noteq> Some fp) in
           if \<not> is_new \<and> \<not> bw_retry b then (b, [])
           else (\<lparr>bw_last = Some fp, bw_retry = (on_change found = Some True)\<rparr>,
                 HandleBus found # (if is_new then [EmitBus found] else []))))"

fun bus_run :: "(bus_device list \<Rightarrow> bool option) \<Rightarrow> bus_device list option list \<Rightarrow> bus_watch \<Rightarrow> bus_watch \<times> bus_act list" where
  "bus_run on_change [] b = (b, [])"
| "bus_run on_change (f # fs) b =
     (let (b1, a1) = bus_poll on_change f b; (b2, a2) = bus_run on_change fs b1 in (b2, a1 @ a2))"

definition bus_interval :: "rat \<Rightarrow> rat \<Rightarrow> bool \<Rightarrow> rat" where
  "bus_interval busy_interval idle_interval busy = (if busy then busy_interval else idle_interval)"

definition reset_watch :: "bus_watch \<Rightarrow> bus_watch" where
  "reset_watch b = b\<lparr>bw_last := None\<rparr>"

definition emitted_buses :: "bus_act list \<Rightarrow> bus_device list list" where
  "emitted_buses acts = concat (map (\<lambda>a. case a of EmitBus d \<Rightarrow> [d] | HandleBus d \<Rightarrow> []) acts)"

text \<open>Dropping repetitions: a sweep is kept when it differs from the one before it.\<close>

fun changes :: "(string \<times> string \<times> string) list option \<Rightarrow> bus_device list list \<Rightarrow> bus_device list list" where
  "changes prev [] = []"
| "changes prev (f # fs) = (if prev = Some (fingerprint f) then changes prev fs else f # changes (Some (fingerprint f)) fs)"

lemma bus_poll_effect:
  "bus_poll on_change (Some f) b = (b', acts) \<Longrightarrow>
     bw_last b' = Some (fingerprint f) \<and> emitted_buses acts = (if bw_last b = Some (fingerprint f) then [] else [f])"
  by (auto simp: bus_poll_def Let_def emitted_buses_def split: if_splits)

lemma bus_run_emits:
  "emitted_buses (snd (bus_run on_change fs b)) = changes (bw_last b) (map the (filter (\<lambda>f. f \<noteq> None) fs))"
proof (induction fs arbitrary: b)
  case (Cons f fs)
  obtain b1 a1 where 1: "bus_poll on_change f b = (b1, a1)" by (cases "bus_poll on_change f b")
  have s: "emitted_buses (a1 @ acts) = emitted_buses a1 @ emitted_buses acts" for acts by (simp add: emitted_buses_def)
  show ?case
  proof (cases f)
    case None
    then have "b1 = b" "a1 = []" using 1 by (simp_all add: bus_poll_def)
    then show ?thesis using Cons[of b] None 1 by (simp add: split_beta Let_def)
  next
    case (Some g)
    show ?thesis using bus_poll_effect[of on_change g b b1 a1] Cons[of b1] 1 Some s
      by (auto simp: split_beta Let_def)
  qed
qed (simp add: emitted_buses_def)

text \<open>The bus is reported exactly when it changes. Over any run of polls - whatever the handler answers,
  raises or asks to retry, and with sweeps that fail in between - the \<open>bus\<close> events are the sweeps that
  differ from the sweep before, each once, in order; after a reset the next sweep is always reported.\<close>

theorem bus_events_are_changes:
  "emitted_buses (snd (bus_run on_change sweeps b)) = changes (bw_last b) (map the (filter (\<lambda>f. f \<noteq> None) sweeps)) \<and>
   emitted_buses (snd (bus_run on_change (Some found # sweeps) (reset_watch b))) =
     found # changes (Some (fingerprint found)) (map the (filter (\<lambda>f. f \<noteq> None) sweeps))"
  unfolding bus_run_emits by (simp add: reset_watch_def)

text \<open>The handler runs before the event, and again on the next poll when it asked for it.\<close>

lemma handler_first: "EmitBus d \<in> set (snd (bus_poll on_change f b)) \<Longrightarrow> snd (bus_poll on_change f b) = [HandleBus d, EmitBus d]"
  by (auto simp: bus_poll_def Let_def split: option.splits if_splits)

lemma handler_retried:
  assumes "bus_poll on_change (Some f) b = (b1, acts)" "acts \<noteq> []" "on_change f = Some True"
  shows "HandleBus g \<in> set (snd (bus_poll on_change (Some g) b1))"
  using assms by (auto simp: bus_poll_def Let_def split: if_splits)

subsection \<open>The agent around them (agent/service.py)\<close>

definition BACKOFF :: "rat list" where "BACKOFF = [1, 2, 4, 8, 16, 30]"

text \<open>The delay before the next connection attempt, and the attempt count after it.\<close>

definition backoff_delay :: "nat \<Rightarrow> rat \<times> nat" where
  "backoff_delay attempt = (BACKOFF ! min attempt (length BACKOFF - 1), attempt + 1)"

text \<open>Stopping: a job of a kind that cannot be interrupted is waited for first; \<open>wait\<close> tells whether it ended.\<close>

datatype shutdown_act = WaitForJob string | JobNotDone | StopAll

definition request_stop :: "job option \<Rightarrow> bool \<Rightarrow> shutdown_act list" where
  "request_stop current wait_ok =
     (case current of
        None \<Rightarrow> [StopAll]
      | Some j \<Rightarrow>
          if j_kind j \<in> set IMMEDIATELY_CANCELLABLE then [StopAll]
          else WaitForJob (j_kind j) # (if wait_ok then [] else [JobNotDone]) @ [StopAll])"

text \<open>What a change of a job does, in order.\<close>

datatype job_act = FlushLog | EmitJob | SetBusy bool | PokeBus | PokeState

definition on_job_change :: "job \<Rightarrow> job_act list" where
  "on_job_change j =
     [FlushLog, EmitJob, SetBusy (\<not> is_terminal j)] @ (if is_terminal j then [PokeBus, PokeState] else [])"

lemma backoff_bounded: "1 \<le> fst (backoff_delay n) \<and> fst (backoff_delay n) \<le> 30"
proof -
  have "BACKOFF ! i \<in> set BACKOFF" if "i < 6" for i using that by (intro nth_mem) (simp add: BACKOFF_def)
  then have "fst (backoff_delay n) \<in> set BACKOFF" by (simp add: backoff_delay_def BACKOFF_def del: nth_Cons_Suc)
  then show ?thesis by (auto simp: BACKOFF_def)
qed

end
