(* ===== verification/Provenance.thy ===== *)
theory Provenance
  imports Artifacts States Locations Families
begin

section \<open>What produced an image, and what was written to a board (build.py)\<close>

text \<open>
  The readers of a build's sidecar and of the flash ledger. What the file system and git answer is a
  record of functions: whether a path exists, the digest of a file (\<open>None\<close> when it cannot be read), the
  JSON in a file (\<open>None\<close> when it cannot be read or parsed) and the short HEAD of a source tree.
\<close>

record prov_host =
  ph_exists :: "string \<Rightarrow> bool"
  ph_hash :: "string \<Rightarrow> string option"
  ph_json :: "string \<Rightarrow> json option"
  ph_head :: "string \<Rightarrow> string option"

definition jopt :: "string option \<Rightarrow> json" where
  "jopt s = (case s of None \<Rightarrow> JNull | Some t \<Rightarrow> JStr t)"

definition opt_truthy :: "string option \<Rightarrow> bool" where
  "opt_truthy s = (case s of None \<Rightarrow> False | Some t \<Rightarrow> t \<noteq> [])"

subsection \<open>The record of a build\<close>

record build_result =
  br_bin_path :: "string option"
  br_uf2_path :: "string option"
  br_duration :: rat
  br_fw_sha :: "string option"
  br_config_sha256 :: "string option"
  br_bin_sha256 :: "string option"
  br_uf2_sha256 :: "string option"
  br_config_rewritten :: bool
  br_reseeded :: "string option"
  br_app_address :: "int option"
  br_version :: "string option"
  br_extra_repo_shas :: "(string \<times> string option) list"

definition staged_hashes :: "build_result \<Rightarrow> (string \<times> string option) list" where
  "staged_hashes r =
     (if br_bin_path r \<noteq> None then [(KIND_BIN, br_bin_sha256 r)] else []) @
     (if br_uf2_path r \<noteq> None then [(KIND_UF2, br_uf2_sha256 r)] else [])"

text \<open>The rounded duration and the time stamp are given as JSON numbers.\<close>

definition to_sidecar :: "build_result \<Rightarrow> json \<Rightarrow> json \<Rightarrow> sidecar" where
  "to_sidecar r rounded stamp =
     [(''fw_sha'', jopt (br_fw_sha r)), (''config_sha256'', jopt (br_config_sha256 r)), (''bin_sha256'', jopt (br_bin_sha256 r)),
      (''artifacts'', sidecar_field (staged_hashes r)), (''duration'', rounded), (''timestamp'', stamp),
      (''config_rewritten'', JBool (br_config_rewritten r)),
      (''app_address'', case br_app_address r of None \<Rightarrow> JNull | Some a \<Rightarrow> JInt a), (''version'', jopt (br_version r)),
      (''extra_repo_shas'', JObj (map (\<lambda>(p, h). (p, jopt h)) (br_extra_repo_shas r)))]"

definition read_sidecar :: "prov_host \<Rightarrow> paths \<Rightarrow> string \<Rightarrow> string \<Rightarrow> sidecar option" where
  "read_sidecar ph p t fw = (case ph_json ph (sidecar_file p t fw) of Some (JObj d) \<Rightarrow> Some d | _ \<Rightarrow> None)"

subsection \<open>Does the image still match what produced it?\<close>

datatype status_error = NoFamily config_error | NotADict

text \<open>Something known now, something recorded, and they differ: an unknown on either side accuses nothing.\<close>

definition moved :: "string option \<Rightarrow> json \<Rightarrow> bool" where
  "moved now recorded = (opt_truthy now \<and> truthy recorded \<and> \<not> eq_str recorded (the now))"

text \<open>The digest of a file against a recorded one: an unreadable file differs from any record.\<close>

definition hash_differs :: "prov_host \<Rightarrow> string \<Rightarrow> json \<Rightarrow> bool" where
  "hash_differs ph path recorded = (case ph_hash ph path of None \<Rightarrow> True | Some h \<Rightarrow> \<not> eq_str recorded h)"

definition uf2_foreign :: "prov_host \<Rightarrow> sidecar \<Rightarrow> string \<Rightarrow> bool" where
  "uf2_foreign ph side uf2 =
     (case recorded_sha256 side KIND_UF2 KIND_BIN of
        None \<Rightarrow> False
      | Some h \<Rightarrow> h \<noteq> [] \<and> ph_exists ph uf2 \<and> ph_hash ph uf2 \<noteq> Some h)"

definition config_now :: "prov_host \<Rightarrow> string \<Rightarrow> string option \<Rightarrow> string option" where
  "config_now ph path config_sha = (case config_sha of Some h \<Rightarrow> Some h | None \<Rightarrow> ph_hash ph path)"

definition source_status :: "prov_host \<Rightarrow> sidecar \<Rightarrow> (config_error + string) \<Rightarrow> string list \<Rightarrow> status_error + reason option" where
  "source_status ph side source extra =
     (case source of
        Inl e \<Rightarrow> Inl (NoFamily e)
      | Inr dir \<Rightarrow>
          if moved (ph_head ph dir) (jget side ''fw_sha'') then Inr (Some SOURCE_CHANGED)
          else (case (if truthy (jget side ''extra_repo_shas'') then jget side ''extra_repo_shas'' else JObj []) of
                  JObj recorded \<Rightarrow>
                    if list_ex (\<lambda>repo. moved (ph_head ph repo) (jget recorded repo)) extra then Inr (Some SOURCE_CHANGED) else Inr None
                | _ \<Rightarrow> if extra = [] then Inr None else Inl NotADict))"

definition artifact_status ::
  "prov_host \<Rightarrow> paths \<Rightarrow> string \<Rightarrow> string \<Rightarrow> (config_error + string) \<Rightarrow> string option \<Rightarrow> string list \<Rightarrow> status_error + reason option" where
  "artifact_status ph p t fw source config_sha extra =
     (let bin = bin_file p t fw; uf2 = uf2_file p t fw in
      if \<not> (ph_exists ph bin \<or> ph_exists ph uf2) then Inr (Some NEVER_BUILT)
      else case read_sidecar ph p t fw of
        None \<Rightarrow> Inr (Some NO_PROVENANCE)
      | Some side \<Rightarrow>
          if truthy (jget side ''bin_sha256'') \<and> hash_differs ph bin (jget side ''bin_sha256'') then Inr (Some FOREIGN_BUILD)
          else if uf2_foreign ph side uf2 then Inr (Some FOREIGN_BUILD)
          else if moved (config_now ph (config_file p t fw) config_sha) (jget side ''config_sha256'') then Inr (Some CONFIG_CHANGED)
          else source_status ph side source extra)"

subsection \<open>What is staged\<close>

definition verified :: "prov_host \<Rightarrow> string \<Rightarrow> string option \<Rightarrow> string option" where
  "verified ph path recorded = (if opt_truthy recorded \<and> ph_hash ph path = recorded then recorded else None)"

definition staged_of :: "prov_host \<Rightarrow> paths \<Rightarrow> string \<Rightarrow> string \<Rightarrow> string \<Rightarrow> staged" where
  "staged_of ph p t fw dir =
     (let side = (case read_sidecar ph p t fw of None \<Rightarrow> [] | Some d \<Rightarrow> d); bin = bin_file p t fw; uf2 = uf2_file p t fw in
      \<lparr>st_fw = fw,
       artifacts =
         (if ph_exists ph bin then [\<lparr>kind = KIND_BIN, art_path = bin, sha256 = verified ph bin (recorded_sha256 side KIND_BIN KIND_BIN)\<rparr>] else []) @
         (if KIND_UF2 \<in> recorded_kinds side \<and> ph_exists ph uf2
          then [\<lparr>kind = KIND_UF2, art_path = uf2, sha256 = verified ph uf2 (recorded_sha256 side KIND_UF2 KIND_BIN)\<rparr>] else []),
       st_fw_sha = (if truthy (jget side ''fw_sha'') then jget side ''fw_sha'' else jopt (ph_head ph dir)),
       st_version = jget side ''version''\<rparr>)"

subsection \<open>The flash ledger\<close>

definition hardware_id_key :: "string \<Rightarrow> string" where
  "hardware_id_key ident = ''hwid:'' @ lower ident"

definition ledger_read :: "json option \<Rightarrow> (string \<times> json) list" where
  "ledger_read content = (case content of Some (JObj d) \<Rightarrow> d | _ \<Rightarrow> [])"

definition entry_for :: "json option \<Rightarrow> string \<Rightarrow> string option \<Rightarrow> string option \<Rightarrow> (string \<times> json) list option" where
  "entry_for content serial running_sha running_version =
     (case map_of (ledger_read content) serial of
        Some (JObj e) \<Rightarrow>
          (if opt_truthy running_sha then
             (case jget e ''fw_sha'' of
                JStr recorded \<Rightarrow> if recorded \<noteq> [] \<and> \<not> starts_with (the running_sha) recorded then None else Some e
              | _ \<Rightarrow> Some e)
           else if opt_truthy running_version then
             (case jget e ''version'' of
                JStr recorded \<Rightarrow> if recorded \<noteq> [] \<and> recorded \<noteq> the running_version then None else Some e
              | _ \<Rightarrow> Some e)
           else Some e)
      | _ \<Rightarrow> None)"

record flash_note =
  fn_type :: string
  fn_fw :: string
  fn_bin_sha256 :: "string option"
  fn_fw_sha :: "string option"
  fn_confidence :: "string option"
  fn_version :: "string option"

definition note_json :: "flash_note \<Rightarrow> json \<Rightarrow> (string \<times> json) list" where
  "note_json n at_time =
     [(''type'', JStr (fn_type n)), (''fw'', JStr (fn_fw n)), (''bin_sha256'', jopt (fn_bin_sha256 n)), (''fw_sha'', jopt (fn_fw_sha n)),
      (''confidence'', jopt (fn_confidence n)), (''version'', jopt (fn_version n)), (''at'', at_time)]"

text \<open>The file after it: unchanged when the write or the rename fails. Keys are written sorted, which no reader
  sees.\<close>

definition ledger_record :: "bool \<Rightarrow> string \<Rightarrow> flash_note \<Rightarrow> json \<Rightarrow> json option \<Rightarrow> json option" where
  "ledger_record write_ok serial n at_time content =
     (if write_ok then Some (JObj (dict_set (ledger_read content) serial (JObj (note_json n at_time)))) else content)"

definition ledger_forget :: "bool \<Rightarrow> string \<Rightarrow> json option \<Rightarrow> json option \<times> bool" where
  "ledger_forget write_ok serial content =
     (if map_of (ledger_read content) serial = None then (content, False)
      else if write_ok then (Some (JObj (dict_del (ledger_read content) serial)), True)
      else (content, False))"

subsection \<open>The HEAD of a source tree, remembered for a while\<close>

type_synonym head_cache = "(string, rat \<times> string option) dict"

definition HEAD_TTL :: rat where "HEAD_TTL = 5"

text \<open>What one run of git says, \<open>None\<close> for a failed start, a non-zero exit or no output.\<close>

definition git_head_uncached :: "(int \<times> string) option \<Rightarrow> string option" where
  "git_head_uncached run =
     (case run of None \<Rightarrow> None | Some (rc, out) \<Rightarrow> if rc \<noteq> 0 \<or> strip out = [] then None else Some (strip out))"

definition git_head :: "rat \<Rightarrow> rat \<Rightarrow> rat \<Rightarrow> (int \<times> string) option \<Rightarrow> string \<Rightarrow> head_cache \<Rightarrow> head_cache \<times> string option" where
  "git_head ttl before_run after_run run key cache =
     (case (if ttl > 0 then dict_get cache key else None) of
        Some (at_time, v) \<Rightarrow>
          if before_run - at_time < ttl then (cache, v)
          else (dict_set cache key (after_run, git_head_uncached run), git_head_uncached run)
      | None \<Rightarrow> (dict_set cache key (after_run, git_head_uncached run), git_head_uncached run))"

lemma git_head_fresh:
  assumes "git_head ttl t0 t1 run key cache = (cache', v)"
  shows "v = git_head_uncached run \<and> dict_get cache' key = Some (t1, v) \<or>
     (\<exists>at_time. dict_get cache key = Some (at_time, v) \<and> t0 - at_time < ttl \<and> cache' = cache)"
  using assms by (auto simp: git_head_def split: option.splits if_splits)

subsection \<open>What a status says\<close>

lemma uf2_foreign_iff: "uf2_foreign ph side uf2 \<longleftrightarrow>
   (\<exists>h. recorded_sha256 side KIND_UF2 KIND_BIN = Some h \<and> h \<noteq> [] \<and> ph_exists ph uf2 \<and> ph_hash ph uf2 \<noteq> Some h)"
  by (auto simp: uf2_foreign_def split: option.splits)

lemma hash_same: "\<not> hash_differs ph path j \<longleftrightarrow> (\<exists>h. ph_hash ph path = Some h \<and> j = JStr h)"
  by (auto simp: hash_differs_def eq_str_def split: option.splits)

lemma moved_iff: "moved now recorded \<longleftrightarrow> (\<exists>h. now = Some h \<and> h \<noteq> [] \<and> truthy recorded \<and> recorded \<noteq> JStr h)"
  by (auto simp: moved_def opt_truthy_def eq_str_def split: option.splits)

lemma source_status_found:
  assumes "source_status ph side source extra = Inr r"
  shows "\<exists>dir. source = Inr dir \<and>
    (r = None \<and> \<not> moved (ph_head ph dir) (jget side ''fw_sha'') \<and>
       (\<forall>repo \<in> set extra. \<forall>recorded. jget side ''extra_repo_shas'' = JObj recorded \<longrightarrow> \<not> moved (ph_head ph repo) (jget recorded repo)) \<or>
     r = Some SOURCE_CHANGED \<and> (moved (ph_head ph dir) (jget side ''fw_sha'') \<or>
       (\<exists>repo \<in> set extra. \<exists>recorded. jget side ''extra_repo_shas'' = JObj recorded \<and> moved (ph_head ph repo) (jget recorded repo))))"
proof -
  from assms obtain dir where d: "source = Inr dir" by (cases source) (simp_all add: source_status_def)
  have empty: "\<not> moved x (jget [] y)" for x y by (simp add: moved_def)
  show ?thesis
  proof (cases "moved (ph_head ph dir) (jget side ''fw_sha'')")
    case True
    with assms d show ?thesis by (simp add: source_status_def)
  next
    case m: False
    show ?thesis
    proof (cases "truthy (jget side ''extra_repo_shas'')")
      case True
      with assms d m show ?thesis
        by (auto simp: source_status_def list_ex_iff split: json.splits if_splits)
    next
      case False
      then have "jget side ''extra_repo_shas'' = JObj recorded \<Longrightarrow> recorded = []" for recorded by simp
      with False assms d m empty show ?thesis by (auto simp: source_status_def list_ex_iff split: if_splits)
    qed
  qed
qed


subsection \<open>A build, and the readers of its sidecar\<close>

lemma sidecar_gets:
  "jget (to_sidecar r d s) ''bin_sha256'' = jopt (br_bin_sha256 r)" "jget (to_sidecar r d s) ''config_sha256'' = jopt (br_config_sha256 r)"
  "jget (to_sidecar r d s) ''fw_sha'' = jopt (br_fw_sha r)" "jget (to_sidecar r d s) ''artifacts'' = sidecar_field (staged_hashes r)"
  "jget (to_sidecar r d s) ''extra_repo_shas'' = JObj (map (\<lambda>(p, h). (p, jopt h)) (br_extra_repo_shas r))"
  "jget (to_sidecar r d s) ''version'' = jopt (br_version r)"
  by (simp_all add: to_sidecar_def)

lemma sidecar_hash:
  "recorded_sha256 (to_sidecar r d s) KIND_UF2 KIND_BIN =
     (if br_uf2_path r \<noteq> None \<and> opt_truthy (br_uf2_sha256 r) then br_uf2_sha256 r else None)"
  "br_bin_path r \<noteq> None \<Longrightarrow> recorded_sha256 (to_sidecar r d s) KIND_BIN KIND_BIN = (if opt_truthy (br_bin_sha256 r) then br_bin_sha256 r else None)"
  "recorded_kinds (to_sidecar r d s) = (if br_bin_path r \<noteq> None then {KIND_BIN} else {}) \<union> (if br_uf2_path r \<noteq> None then {KIND_UF2} else {})"
  by (auto simp: recorded_sha256_def recorded_kinds_def sidecar_gets sidecar_field_def staged_hashes_def KIND_BIN_def KIND_UF2_def
      opt_truthy_def jopt_def entry_sha_def split: option.splits)

text \<open>What a finished build leaves behind, seen by the readers: the sidecar it wrote, the images it staged and no
  others, each with the digest it took, the configuration it compiled and the trees it compiled from.\<close>

definition left_by :: "prov_host \<Rightarrow> paths \<Rightarrow> string \<Rightarrow> string \<Rightarrow> string \<Rightarrow> build_result \<Rightarrow> bool" where
  "left_by ph p t fw dir r =
     ((\<exists>d s. ph_json ph (sidecar_file p t fw) = Some (JObj (to_sidecar r d s))) \<and>
      br_bin_path r = (if ph_exists ph (bin_file p t fw) then Some (bin_file p t fw) else None) \<and>
      br_uf2_path r = (if ph_exists ph (uf2_file p t fw) then Some (uf2_file p t fw) else None) \<and>
      (br_bin_path r \<noteq> None \<or> br_uf2_path r \<noteq> None) \<and>
      br_bin_sha256 r = (if br_bin_path r = None then None else ph_hash ph (bin_file p t fw)) \<and>
      br_uf2_sha256 r = (if br_uf2_path r = None then None else ph_hash ph (uf2_file p t fw)) \<and>
      br_config_sha256 r = ph_hash ph (config_file p t fw) \<and> br_fw_sha r = ph_head ph dir \<and>
      (\<forall>(repo, h) \<in> set (br_extra_repo_shas r). h = ph_head ph repo))"

lemma not_moved [simp]: "\<not> moved v (jopt v)"
  by (auto simp: moved_def jopt_def opt_truthy_def eq_str_def split: option.splits)

lemma repos_settled:
  assumes "\<forall>(repo, h) \<in> set shas. h = ph_head ph repo"
  shows "\<not> moved (ph_head ph repo) (jget (map (\<lambda>(p, h). (p, jopt h)) shas) repo)"
proof -
  have "jget (map (\<lambda>(p, h). (p, jopt h)) shas) repo \<in> {JNull, jopt (ph_head ph repo)}"
    using assms by (induction shas) auto
  moreover have "\<not> moved now JNull" for now by (simp add: moved_def)
  ultimately show ?thesis by auto
qed

lemma built_then_current:
  assumes "left_by ph p t fw dir r"
  shows "artifact_status ph p t fw (Inr dir) None extra = Inr None"
proof -
  from assms obtain d s where j: "ph_json ph (sidecar_file p t fw) = Some (JObj (to_sidecar r d s))" by (auto simp: left_by_def)
  let ?side = "to_sidecar r d s"
  have side: "read_sidecar ph p t fw = Some ?side" using j by (simp add: read_sidecar_def)
  have ex: "ph_exists ph (bin_file p t fw) \<or> ph_exists ph (uf2_file p t fw)" using assms by (auto simp: left_by_def split: if_splits)
  have bin: "\<not> (truthy (jget ?side ''bin_sha256'') \<and> hash_differs ph (bin_file p t fw) (jget ?side ''bin_sha256''))"
    using assms by (auto simp: left_by_def sidecar_gets hash_differs_def jopt_def eq_str_def split: option.splits if_splits)
  have uf2: "\<not> uf2_foreign ph ?side (uf2_file p t fw)"
    using assms by (auto simp: uf2_foreign_iff sidecar_hash left_by_def split: if_splits)
  have cfg: "\<not> moved (config_now ph (config_file p t fw) None) (jget ?side ''config_sha256'')"
    using assms by (simp add: config_now_def sidecar_gets left_by_def)
  have rep: "\<forall>(repo, h) \<in> set (br_extra_repo_shas r). h = ph_head ph repo" using assms unfolding left_by_def by blast
  have head: "br_fw_sha r = ph_head ph dir" using assms unfolding left_by_def by blast
  have "source_status ph ?side (Inr dir) extra = Inr None"
    using repos_settled[OF rep] by (auto simp: source_status_def sidecar_gets head list_ex_iff)
  then show ?thesis using side ex bin uf2 cfg by (simp add: artifact_status_def Let_def)
qed

lemma built_then_staged:
  assumes "left_by ph p t fw dir r"
  shows "set (map (\<lambda>a. (kind a, art_path a)) (artifacts (staged_of ph p t fw dir))) =
      {(KIND_BIN, f) |f. br_bin_path r = Some f} \<union> {(KIND_UF2, f) |f. br_uf2_path r = Some f}"
    "a \<in> set (artifacts (staged_of ph p t fw dir)) \<Longrightarrow> ph_hash ph (art_path a) = Some h \<Longrightarrow> h \<noteq> [] \<Longrightarrow> sha256 a = Some h"
proof -
  from assms obtain d s where j: "ph_json ph (sidecar_file p t fw) = Some (JObj (to_sidecar r d s))" by (auto simp: left_by_def)
  have side: "read_sidecar ph p t fw = Some (to_sidecar r d s)" using j by (simp add: read_sidecar_def)
  have b: "br_bin_path r = (if ph_exists ph (bin_file p t fw) then Some (bin_file p t fw) else None)"
    "br_uf2_path r = (if ph_exists ph (uf2_file p t fw) then Some (uf2_file p t fw) else None)"
    "br_bin_sha256 r = (if br_bin_path r = None then None else ph_hash ph (bin_file p t fw))"
    "br_uf2_sha256 r = (if br_uf2_path r = None then None else ph_hash ph (uf2_file p t fw))"
    using assms unfolding left_by_def by blast+
  have kinds: "KIND_UF2 \<noteq> KIND_BIN" by (simp add: KIND_BIN_def KIND_UF2_def)
  show "set (map (\<lambda>a. (kind a, art_path a)) (artifacts (staged_of ph p t fw dir))) =
      {(KIND_BIN, f) |f. br_bin_path r = Some f} \<union> {(KIND_UF2, f) |f. br_uf2_path r = Some f}"
    using kinds by (auto simp: staged_of_def side Let_def sidecar_hash(3) b(1,2))
  show "sha256 a = Some h" if "a \<in> set (artifacts (staged_of ph p t fw dir))" "ph_hash ph (art_path a) = Some h" "h \<noteq> []" for a h
    using that kinds b sidecar_hash(1)[of r d s] sidecar_hash(2)[of r d s]
    by (auto simp: staged_of_def side Let_def sidecar_hash(3) verified_def opt_truthy_def split: if_splits)
qed

definition demo_side :: sidecar where
  "demo_side = [(''bin_sha256'', JStr ''aa''), (''config_sha256'', JStr ''cc''), (''fw_sha'', JStr ''0a1b''),
     (''artifacts'', JObj [(''bin'', JObj [(''sha256'', JStr ''aa'')])])]"

definition demo_prov_paths :: paths where
  "demo_prov_paths = \<lparr>p_home = ''/h'', p_config_dir = ''/c'', p_data_dir = ''/d'', p_serial_by_id = [], p_printer_data = [],
     p_bootsel_root = [], p_can_sysfs_net = [], p_usb_sysfs = [], p_tty_sysfs = [], p_block_sysfs = []\<rparr>"

definition demo_prov :: prov_host where
  "demo_prov = \<lparr>ph_exists = (\<lambda>f. f = ''/d/ebb/klipper.bin''),
     ph_hash = (\<lambda>f. if f = ''/d/ebb/klipper.bin'' then Some ''aa'' else if f = ''/c/types/ebb/klipper.config'' then Some ''c2'' else None),
     ph_json = (\<lambda>f. if f = ''/d/ebb/klipper.build.json'' then Some (JObj demo_side) else None), ph_head = (\<lambda>_. Some ''0a1b'')\<rparr>"

lemma demo_prov_status:
  "artifact_status demo_prov demo_prov_paths ''ebb'' ''klipper'' (Inr ''/h/klipper'') None [] = Inr (Some CONFIG_CHANGED)"
  by code_simp


subsection \<open>What the ledger promises\<close>

lemma entry_for_source: "entry_for content serial sha v = Some e \<Longrightarrow> map_of (ledger_read content) serial = Some (JObj e)"
  by (auto simp: entry_for_def split: option.splits json.splits if_splits)

lemma ledger_read_record:
  "map_of (ledger_read (ledger_record True serial n at_time content)) s =
     (if s = serial then Some (JObj (note_json n at_time)) else map_of (ledger_read content) s)"
  using dict_get_set[of "ledger_read content" serial "JObj (note_json n at_time)" s]
  by (simp add: ledger_record_def ledger_read_def)

text \<open>A flash that was recorded is found again, and an outdated record is not believed. After a write the
  ledger's entry for the board is that write - for a board that reports the commit it was built from,
  however abbreviated, or reports no commit and the recorded version - and every other board's entry
  is as before; an entry is never returned for a board that reports a commit the recorded one does not
  begin with, or, with no commit to go by, another version.\<close>

theorem ledger_round_trip:
  assumes sha: "opt_truthy running \<longrightarrow> (\<forall>h. fn_fw_sha n = Some h \<longrightarrow> h = [] \<or> starts_with (the running) h)"
    and ver: "\<not> opt_truthy running \<longrightarrow> opt_truthy reported \<longrightarrow> (\<forall>v. fn_version n = Some v \<longrightarrow> v = [] \<or> v = the reported)"
  shows "entry_for (ledger_record True serial n at_time content) serial running reported = Some (note_json n at_time) \<and>
    (s \<noteq> serial \<longrightarrow> entry_for (ledger_record w serial n at_time content) s r2 v2 = entry_for content s r2 v2) \<and>
    (entry_for content s r2 v2 = Some e \<longrightarrow> opt_truthy r2 \<longrightarrow> jget e ''fw_sha'' = JStr h \<longrightarrow> h = [] \<or> starts_with (the r2) h) \<and>
    (entry_for content s r2 v2 = Some e \<longrightarrow> \<not> opt_truthy r2 \<longrightarrow> opt_truthy v2 \<longrightarrow> jget e ''version'' = JStr h \<longrightarrow> h = [] \<or> h = the v2)"
proof (intro conjI impI)
  have g: "jget (note_json n at_time) ''fw_sha'' = jopt (fn_fw_sha n)" "jget (note_json n at_time) ''version'' = jopt (fn_version n)"
    by (simp_all add: note_json_def)
  show "entry_for (ledger_record True serial n at_time content) serial running reported = Some (note_json n at_time)"
    unfolding entry_for_def ledger_read_record using sha ver by (auto simp: g jopt_def split: option.splits)
  show "entry_for (ledger_record w serial n at_time content) s r2 v2 = entry_for content s r2 v2" if "s \<noteq> serial"
    unfolding entry_for_def using that by (cases w) (simp_all add: ledger_read_record, simp add: ledger_record_def)
  show "h = [] \<or> starts_with (the r2) h" if "entry_for content s r2 v2 = Some e" "opt_truthy r2" "jget e ''fw_sha'' = JStr h"
    using that entry_for_source[OF that(1)] by (auto simp: entry_for_def split: if_splits)
  show "h = [] \<or> h = the v2" if "entry_for content s r2 v2 = Some e" "\<not> opt_truthy r2" "opt_truthy v2" "jget e ''version'' = JStr h"
    using that entry_for_source[OF that(1)] by (auto simp: entry_for_def split: if_splits)
qed

definition demo_note :: flash_note where
  "demo_note = \<lparr>fn_type = ''ebb'', fn_fw = ''klipper'', fn_bin_sha256 = Some ''aa'', fn_fw_sha = Some ''0a1b2c3'',
     fn_confidence = Some ''unique_bus_id'', fn_version = None\<rparr>"

theorem ledger_round_trip_witness:
  "entry_for (ledger_record True ''A1'' demo_note (JInt 5) None) ''A1'' (Some ''0a1b'') None = Some (note_json demo_note (JInt 5))"
  by (rule ledger_round_trip[THEN conjunct1]) (simp_all add: demo_note_def opt_truthy_def starts_with_def)

lemma ledger_forgotten:
  assumes "ledger_forget True serial content = (content', dropped)"
  shows "map_of (ledger_read content') serial = None" "dropped \<longleftrightarrow> map_of (ledger_read content) serial \<noteq> None"
  using assms dict_wf_del by (auto simp: ledger_forget_def ledger_read_def dict_del_def map_of_eq_None_iff split: if_splits)

end
