(* ===== verification/Building.thy ===== *)
theory Building
  imports Process Registry Answers SettingsFile Provenance
begin

section \<open>Compiling one firmware (build.py, build)\<close>

text \<open>
  The world is the files by path, the JSON files by path and whatever else the programs it runs
  depend on. Programs are \<open>Process\<close>'s parameter and may change anything; git, the digest, which paths
  are directories or can be written, \<open>shlex.split\<close>, the clock and the profile refresh are
  parameters. Everything reported is collected in order; the command lines among the reports are the
  commands that were run.
\<close>

record 'x build_world =
  bw_files :: "string \<Rightarrow> string option"
  bw_json :: "string \<Rightarrow> json option"
  bw_rest :: 'x

datatype build_error =
    NoType registry_error
  | NoFirmware config_error
  | SourceTreeMissing string
  | ConfigNotFound string
  | ReseedFailed string
  | BadExtraArgs
  | RunFailed run_error
  | MakeFailed int
  | NothingBuilt string string
  | CleanupFailed int
  | OsFailed string

record 'x build_ops =
  bo_procs :: "'x build_world procs"
  bo_is_dir :: "string \<Rightarrow> bool"
  bo_writable :: "string \<Rightarrow> bool"
  bo_digest :: "string \<Rightarrow> string"
  bo_head :: "'x build_world \<Rightarrow> string \<Rightarrow> string option"
  bo_reseed :: "'x build_world \<Rightarrow> 'x build_world \<times> report list \<times> (build_error + string option)"
  bo_shlex :: "string \<Rightarrow> string list option"
  bo_clock :: "'x build_world \<Rightarrow> rat"
  bo_rounded :: "rat \<Rightarrow> json"
  bo_stamp :: "'x build_world \<Rightarrow> json"
  bo_cpus :: "int option"
  bo_expanduser :: "string \<Rightarrow> string"

type_synonym ('x, 'a) step = "'x build_world \<Rightarrow> 'x build_world \<times> report list \<times> (build_error + 'a)"

definition put_file :: "string \<Rightarrow> string option \<Rightarrow> 'x build_world \<Rightarrow> 'x build_world" where
  "put_file path content w = w\<lparr>bw_files := (bw_files w)(path := content)\<rparr>"

definition put_json :: "string \<Rightarrow> json \<Rightarrow> 'x build_world \<Rightarrow> 'x build_world" where
  "put_json path j w = w\<lparr>bw_json := (bw_json w)(path \<mapsto> j)\<rparr>"

definition quoted :: "string \<Rightarrow> string" where
  "quoted s = [CHR 0x27] @ s @ [CHR 0x27]"

subsection \<open>Temporary Makefile lines\<close>

text \<open>\<open>str.encode\<close>, for code points below 256.\<close>

definition utf8 :: "string \<Rightarrow> string" where
  "utf8 s = concat (map (\<lambda>c. if code c < 128 then [c] else [char_of (192 + code c div 64), char_of (128 + code c mod 64)]) s)"

type_synonym backups = "(string \<times> string option) list"

definition patched :: "string \<Rightarrow> string \<Rightarrow> string" where
  "patched original line = original @ (if ends_with [CHR 0x0A] original then [] else [CHR 0x0A]) @ utf8 line @ [CHR 0x0A]"

text \<open>One patch: the world and the backups after it, and what was reported; \<open>Inl\<close> is the \<open>OSError\<close> of an
  append that fails, with the backup already listed.\<close>

definition patch_one ::
  "'x build_ops \<Rightarrow> bool \<Rightarrow> string \<Rightarrow> makefile_patch \<Rightarrow> 'x build_world \<times> backups \<Rightarrow>
     ('x build_world \<times> backups) \<times> report list \<times> (build_error + unit)" where
  "patch_one ops dry fw_dir patch s =
     (case s of (w, saved) \<Rightarrow>
        (let target = path_join fw_dir (patch_file patch); line = patch_line patch in
         case bw_files w target of
           None \<Rightarrow> (s, [(''warn'', ''patch target '' @ target @ '' not found, skipping '' @ quoted line)], Inr ())
         | Some original \<Rightarrow>
             if dry then (s, [(''info'', ''[dry-run] would patch '' @ target @ '': add '' @ quoted line)], Inr ())
             else if contains (utf8 line) original
             then ((w, saved @ [(target, None)]), [(''warn'', quoted line @ '' already present in '' @ target @ '' (left over from an interrupted run?) - leaving it alone, not reverting it.'')], Inr ())
             else if \<not> bo_writable ops target then ((w, saved @ [(target, Some original)]), [], Inl (OsFailed target))
             else ((put_file target (Some (patched original line)) w, saved @ [(target, Some original)]),
                   [(''info'', ''Temporarily patched '' @ target @ '': added '' @ quoted line)], Inr ())))"

fun patch_all ::
  "'x build_ops \<Rightarrow> bool \<Rightarrow> string \<Rightarrow> makefile_patch list \<Rightarrow> 'x build_world \<times> backups \<Rightarrow>
     ('x build_world \<times> backups) \<times> report list \<times> (build_error + unit)" where
  "patch_all ops dry fw_dir [] s = (s, [], Inr ())"
| "patch_all ops dry fw_dir (patch # rest) s =
     (case patch_one ops dry fw_dir patch s of
        (s1, rs, Inl e) \<Rightarrow> (s1, rs, Inl e)
      | (s1, rs, Inr _) \<Rightarrow> (let (s2, rs2, r) = patch_all ops dry fw_dir rest s1 in (s2, rs @ rs2, r)))"

text \<open>Putting the saved bytes back, in the order they were saved.\<close>

fun restore_all :: "'x build_ops \<Rightarrow> backups \<Rightarrow> 'x build_world \<Rightarrow> 'x build_world \<times> report list" where
  "restore_all ops [] w = (w, [])"
| "restore_all ops ((target, None) # rest) w = restore_all ops rest w"
| "restore_all ops ((target, Some original) # rest) w =
     (if bo_writable ops target then
        (let (w', rs) = restore_all ops rest (put_file target (Some original) w) in
         (w', (''info'', ''Restored '' @ target @ '' to its original contents'') # rs))
      else (let (w', rs) = restore_all ops rest w in (w', (''error'', ''FAILED to restore '' @ target) # rs)))"

definition with_patches :: "'x build_ops \<Rightarrow> bool \<Rightarrow> string \<Rightarrow> makefile_patch list \<Rightarrow> ('x, 'a) step \<Rightarrow> ('x, 'a) step" where
  "with_patches ops dry fw_dir patches act w =
     (let ((w1, saved), rs1, r1) = patch_all ops dry fw_dir (filter patch_valid patches) (w, []);
          (w2, rs2, r2) = (case r1 of Inl e \<Rightarrow> (w1, [], Inl e) | Inr _ \<Rightarrow> act w1);
          (w3, rs3) = restore_all ops saved w2
      in (w3, rs1 @ rs2 @ rs3, r2))"

subsection \<open>Cleaning up after every attempt\<close>

definition run_make :: "'x build_ops \<Rightarrow> bool \<Rightarrow> string \<Rightarrow> string list \<Rightarrow> ('x, int) step" where
  "run_make ops dry fw_dir args w =
     (let (w', rs, r) = run_streamed (bo_procs ops) (''make'' # args) fw_dir dry w in
      (w', rs, case r of Inl e \<Rightarrow> Inl (RunFailed e) | Inr rc \<Rightarrow> Inr rc))"

definition then_clean :: "'x build_ops \<Rightarrow> bool \<Rightarrow> string \<Rightarrow> string \<Rightarrow> ('x, 'a) step \<Rightarrow> ('x, 'a) step" where
  "then_clean ops dry fw_dir kconfig_arg act w =
     (let (w1, rs1, r1) = act w;
          (w2, rs2, r2) = run_make ops dry fw_dir [kconfig_arg, ''clean''] w1;
          cleanup = (case r2 of Inl e \<Rightarrow> Some e | Inr rc \<Rightarrow> if rc \<noteq> 0 then Some (CleanupFailed rc) else None)
      in case cleanup of
           None \<Rightarrow> (w2, rs1 @ rs2, r1)
         | Some e \<Rightarrow>
             (case r1 of
                Inr _ \<Rightarrow> (w2, rs1 @ rs2, Inl e)
              | Inl first \<Rightarrow> (w2, rs1 @ rs2 @ [(''error'', ''firmware source cleanup failed after build error'')], Inl first)))"

subsection \<open>The build\<close>

definition digest_at :: "'x build_ops \<Rightarrow> string \<Rightarrow> 'x build_world \<Rightarrow> string option" where
  "digest_at ops path w = map_option (bo_digest ops) (bw_files w path)"

text \<open>\<open>_stage_or_remove\<close>; copying a file onto itself raises.\<close>

definition stage_or_remove :: "'x build_ops \<Rightarrow> string \<Rightarrow> string \<Rightarrow> bool \<Rightarrow> ('x, string option) step" where
  "stage_or_remove ops compiled staged_path made w =
     (if made then
        (if compiled = staged_path \<or> \<not> bo_writable ops staged_path then (w, [], Inl (OsFailed staged_path))
         else (put_file staged_path (bw_files w compiled) w, [], Inr (Some staged_path)))
      else if bw_files w staged_path = None then (w, [], Inr None)
      else if \<not> bo_writable ops staged_path then (w, [], Inl (OsFailed staged_path))
      else (put_file staged_path None w, [], Inr None))"

definition seq :: "('x, 'a) step \<Rightarrow> ('a \<Rightarrow> ('x, 'b) step) \<Rightarrow> ('x, 'b) step" where
  "seq m f w = (case m w of (w1, rs, Inl e) \<Rightarrow> (w1, rs, Inl e)
     | (w1, rs, Inr x) \<Rightarrow> (let (w2, rs2, r) = f x w1 in (w2, rs @ rs2, r)))"

definition compile :: "'x build_ops \<Rightarrow> bool \<Rightarrow> string \<Rightarrow> string \<Rightarrow> string list \<Rightarrow> bool \<Rightarrow> ('x, int) step" where
  "compile ops dry fw_dir kconfig_arg flags do_clean =
     (if do_clean then seq (run_make ops dry fw_dir [kconfig_arg, ''clean'']) (\<lambda>_. run_make ops dry fw_dir (kconfig_arg # flags))
      else run_make ops dry fw_dir (kconfig_arg # flags))"

definition stub_image :: string where
  "stub_image = replicate 1024 (CHR 0x00)"

definition stage_images ::
  "'x build_ops \<Rightarrow> bool \<Rightarrow> string \<Rightarrow> string \<Rightarrow> string \<Rightarrow> string \<Rightarrow> ('x, string option \<times> string option) step" where
  "stage_images ops dry compiled_bin compiled_uf2 bin uf2 w =
     (if dry then
        (if bo_writable ops bin then (put_file bin (Some stub_image) w, [(''info'', ''[dry-run] wrote stub firmware to '' @ bin)], Inr (Some bin, None))
         else (w, [], Inl (OsFailed bin)))
      else
        (let made_bin = (bw_files w compiled_bin \<noteq> None); made_uf2 = (bw_files w compiled_uf2 \<noteq> None) in
         if \<not> made_bin \<and> \<not> made_uf2 then (w, [], Inl (NothingBuilt compiled_bin compiled_uf2))
         else seq (stage_or_remove ops compiled_bin bin made_bin) (\<lambda>b.
              seq (stage_or_remove ops compiled_uf2 uf2 made_uf2) (\<lambda>u w2.
                (w2, map (\<lambda>f. (''info'', ''Firmware built and copied to '' @ f)) (List.map_filter id [b, u]), Inr (b, u)))) w))"

record build_plan =
  bp_type :: string
  bp_fw :: string
  bp_dir :: string
  bp_config :: string
  bp_flags :: "string list"
  bp_patches :: "makefile_patch list"
  bp_repos :: "string list"
  bp_clean :: bool
  bp_dry :: bool
  bp_compiled_bin :: string
  bp_compiled_uf2 :: string

definition file_result ::
  "'x build_ops \<Rightarrow> paths \<Rightarrow> build_plan \<Rightarrow> rat \<Rightarrow> string option \<Rightarrow> bool \<Rightarrow> string option \<Rightarrow> string option \<times> string option \<Rightarrow> ('x, build_result) step" where
  "file_result ops p b spent config_sha rewritten reseeded images w =
     (let result = \<lparr>br_bin_path = fst images, br_uf2_path = snd images, br_duration = spent,
            br_fw_sha = bo_head ops w (bp_dir b), br_config_sha256 = config_sha,
            br_bin_sha256 = (case fst images of None \<Rightarrow> None | Some f \<Rightarrow> digest_at ops f w),
            br_uf2_sha256 = (case snd images of None \<Rightarrow> None | Some f \<Rightarrow> digest_at ops f w),
            br_config_rewritten = rewritten, br_reseeded = reseeded,
            br_app_address = read_app_address (bw_files w (bp_config b)), br_version = stamped_version (bw_files w (bp_config b)),
            br_extra_repo_shas = map (\<lambda>r. (r, bo_head ops w r)) (dedup (bp_repos b))\<rparr>;
          side = sidecar_file p (bp_type b) (bp_fw b)
      in if bo_writable ops side
         then (put_json side (JObj (to_sidecar result (bo_rounded ops spent) (bo_stamp ops w))) w, [], Inr result)
         else (w, [(''warn'', ''could not write build sidecar'')], Inr result))"

text \<open>From the first command to the sidecar, inside the clean-up.\<close>

definition compile_and_stage :: "'x build_ops \<Rightarrow> paths \<Rightarrow> build_plan \<Rightarrow> string option \<Rightarrow> ('x, build_result) step" where
  "compile_and_stage ops p b reseeded w =
     (let kconfig_arg = ''KCONFIG_CONFIG='' @ bp_config b; before_sha = digest_at ops (bp_config b) w; started = bo_clock ops w in
      seq (with_patches ops (bp_dry b) (bp_dir b) (bp_patches b) (compile ops (bp_dry b) (bp_dir b) kconfig_arg (bp_flags b) (bp_clean b)))
        (\<lambda>rc w1.
          let spent = bo_clock ops w1 - started in
          if rc \<noteq> 0 then (w1, [], Inl (MakeFailed rc))
          else (let after_sha = digest_at ops (bp_config b) w1;
                    rewritten = (opt_truthy before_sha \<and> opt_truthy after_sha \<and> before_sha \<noteq> after_sha);
                    warned = (if rewritten then [(''warn'', ''make rewrote the saved .config (klipper ran olddefconfig, most likely because src/Kconfig changed in a git pull). Review your settings.'')] else []) in
                if \<not> bo_writable ops (artifact_dir p (bp_type b)) then (w1, warned, Inl (OsFailed (artifact_dir p (bp_type b))))
                else (let (w2, rs, r) = seq (stage_images ops (bp_dry b) (bp_compiled_bin b) (bp_compiled_uf2 b)
                            (bin_file p (bp_type b) (bp_fw b)) (uf2_file p (bp_type b) (bp_fw b)))
                          (file_result ops p b spent after_sha rewritten reseeded) w1 in (w2, warned @ rs, r)))) w)"

text \<open>Everything \<open>build\<close> settles before it runs anything.\<close>

definition plan_build ::
  "'x build_ops \<Rightarrow> paths \<Rightarrow> registry \<Rightarrow> families \<Rightarrow> settings \<Rightarrow> string \<Rightarrow> string \<Rightarrow> int option \<Rightarrow> bool option \<Rightarrow> 'x build_world \<Rightarrow> build_error + build_plan" where
  "plan_build ops p rg fams s t fw jobs do_clean w =
     (case registry_get rg t of
        Inl e \<Rightarrow> Inl (NoType e)
      | Inr mcu \<Rightarrow>
          (case resolve_family fams fw of
             Inl e \<Rightarrow> Inl (NoFirmware e)
           | Inr family \<Rightarrow>
               (let fw_dir = source_dir (bo_expanduser ops) (p_home p) family; config = config_file p t fw in
                if \<not> bo_is_dir ops fw_dir then Inl (SourceTreeMissing fw_dir)
                else if bw_files w config = None then Inl (ConfigNotFound config)
                else Inr \<lparr>bp_type = t, bp_fw = fw, bp_dir = fw_dir, bp_config = config,
                  bp_flags = (case jobs of None \<Rightarrow> make_flags (bo_cpus ops) s | Some n \<Rightarrow> if n > 0 then [''-j'' @ dec_str n] else []),
                  bp_patches = makefile_patches (fw_get mcu fw), bp_repos = extra_repos (fw_get mcu fw),
                  bp_clean = (case do_clean of None \<Rightarrow> clean_before_build s | Some c \<Rightarrow> c), bp_dry = dry_run s,
                  bp_compiled_bin = built_artifact (bo_expanduser ops) (p_home p) family ''bin'',
                  bp_compiled_uf2 = built_artifact (bo_expanduser ops) (p_home p) family ''uf2''\<rparr>)))"

definition build ::
  "'x build_ops \<Rightarrow> paths \<Rightarrow> registry \<Rightarrow> families \<Rightarrow> settings \<Rightarrow> string \<Rightarrow> string \<Rightarrow> int option \<Rightarrow> bool option \<Rightarrow> bool option \<Rightarrow> ('x, build_result) step" where
  "build ops p rg fams s t fw jobs do_clean reseed w =
     (case plan_build ops p rg fams s t fw jobs do_clean w of
        Inl e \<Rightarrow> (w, [], Inl e)
      | Inr b \<Rightarrow>
          seq (if (case reseed of None \<Rightarrow> reseed_on_build s | Some r \<Rightarrow> r) then bo_reseed ops else (\<lambda>w. (w, [], Inr None)))
            (\<lambda>reseeded w1.
              case bo_shlex ops (case registry_get rg t of Inl _ \<Rightarrow> [] | Inr mcu \<Rightarrow> extra_args (fw_get mcu fw)) of
                None \<Rightarrow> (w1, [], Inl BadExtraArgs)
              | Some args \<Rightarrow>
                  (let told = (if args = [] then [] else [(''info'', ''Extra make args: '' @ py_repr (JList (map JStr args)))]) @
                              [(''info'', ''Building '' @ fw @ '' for '' @ t @ ''...'')];
                       (w2, rs, r) = then_clean ops (bp_dry b) (bp_dir b) (''KCONFIG_CONFIG='' @ bp_config b)
                          (compile_and_stage ops p (b\<lparr>bp_flags := bp_flags b @ args\<rparr>) reseeded) w1
                   in (w2, told @ rs, r))) w)"

subsection \<open>The Makefiles are put back\<close>

abbreviation target_of :: "string \<Rightarrow> makefile_patch \<Rightarrow> string" where
  "target_of fw_dir patch \<equiv> path_join fw_dir (patch_file patch)"

definition saves :: "'x build_world \<Rightarrow> 'x build_world \<Rightarrow> backups \<Rightarrow> string set \<Rightarrow> bool" where
  "saves w w' fresh targets =
     (distinct (map fst fresh) \<and> fst ` set fresh \<subseteq> targets \<and>
      (\<forall>path old. (path, Some old) \<in> set fresh \<longrightarrow> bw_files w path = Some old) \<and>
      (\<forall>path. (\<forall>old. (path, Some old) \<notin> set fresh) \<longrightarrow> bw_files w' path = bw_files w path) \<and>
      bw_json w' = bw_json w \<and> bw_rest w' = bw_rest w)"

lemma patch_one_saves:
  assumes "patch_one ops dry fw_dir patch (w, saved) = ((w', saved'), rs, r)"
  shows "\<exists>fresh. saved' = saved @ fresh \<and> saves w w' fresh {target_of fw_dir patch}"
  using assms
  by (auto simp: patch_one_def Let_def saves_def put_file_def split: option.splits if_splits)

lemma saves_join:
  assumes "saves w w1 f1 t1" "saves w1 w2 f2 t2" "t1 \<inter> t2 = {}"
  shows "saves w w2 (f1 @ f2) (t1 \<union> t2)"
proof -
  note a = assms(1)[unfolded saves_def] and b = assms(2)[unfolded saves_def]
  have d: "fst ` set f1 \<inter> fst ` set f2 = {}" using a b assms(3) by blast
  have keep: "bw_files w1 path = bw_files w path" if "path \<notin> fst ` set f1" for path
  proof -
    have "\<forall>old. (path, Some old) \<notin> set f1" using that by force
    then show ?thesis using a by blast
  qed
  have "bw_files w path = Some old" if m: "(path, Some old) \<in> set (f1 @ f2)" for path old
  proof (cases "(path, Some old) \<in> set f1")
    case True
    then show ?thesis using a by blast
  next
    case False
    then have "(path, Some old) \<in> set f2" using m by simp
    moreover from this have "path \<notin> fst ` set f1" using d by force
    ultimately show ?thesis using b keep by metis
  qed
  then show ?thesis using a b d unfolding saves_def by (simp add: image_Un) blast
qed

lemma patch_all_saves:
  "distinct (map (target_of fw_dir) ps) \<Longrightarrow> patch_all ops dry fw_dir ps (w, saved) = ((w', saved'), rs, r) \<Longrightarrow>
     \<exists>fresh. saved' = saved @ fresh \<and> saves w w' fresh (set (map (target_of fw_dir) ps))"
proof (induction ps arbitrary: w saved rs r)
  case Nil
  then show ?case by (auto simp: saves_def)
next
  case (Cons q ps)
  obtain w1 saved1 rs1 r1 where 1: "patch_one ops dry fw_dir q (w, saved) = ((w1, saved1), rs1, r1)"
    by (metis surj_pair)
  obtain f1 where f1: "saved1 = saved @ f1" "saves w w1 f1 {target_of fw_dir q}" using patch_one_saves[OF 1] by blast
  show ?case
  proof (cases r1)
    case (Inl e)
    then have "w' = w1" "saved' = saved1" using Cons.prems(2) 1 by simp_all
    then show ?thesis using f1 by (auto simp: saves_def)
  next
    case (Inr u)
    then obtain rs2 r2 where 2: "patch_all ops dry fw_dir ps (w1, saved1) = ((w', saved'), rs2, r2)"
      using Cons.prems(2) 1 by (auto split: prod.splits)
    obtain f2 where f2: "saved' = saved1 @ f2" "saves w1 w' f2 (set (map (target_of fw_dir) ps))"
      using Cons.IH[OF _ 2] Cons.prems(1) by auto
    have "{target_of fw_dir q} \<inter> set (map (target_of fw_dir) ps) = {}" using Cons.prems(1) by simp
    from saves_join[OF f1(2) f2(2) this] show ?thesis using f1(1) f2(1) by auto
  qed
qed

lemma restore_all_files:
  "distinct (map fst saved) \<Longrightarrow> (\<And>path old. (path, Some old) \<in> set saved \<Longrightarrow> bo_writable ops path) \<Longrightarrow>
   bw_files (fst (restore_all ops saved w)) path =
     (case map_of saved path of Some (Some old) \<Rightarrow> Some old | _ \<Rightarrow> bw_files w path) \<and>
   bw_json (fst (restore_all ops saved w)) = bw_json w \<and> bw_rest (fst (restore_all ops saved w)) = bw_rest w"
proof (induction ops saved w rule: restore_all.induct)
  case (3 ops target original rest w)
  have w: "bo_writable ops target" by (rule "3.prems"(2)[of target original]) simp
  have "map_of rest target = None" using "3.prems"(1) by (auto simp: map_of_eq_None_iff)
  moreover have "bw_files (fst (restore_all ops rest (put_file target (Some original) w))) path =
        (case map_of rest path of Some (Some old) \<Rightarrow> Some old | _ \<Rightarrow> bw_files (put_file target (Some original) w) path) \<and>
      bw_json (fst (restore_all ops rest (put_file target (Some original) w))) = bw_json (put_file target (Some original) w) \<and>
      bw_rest (fst (restore_all ops rest (put_file target (Some original) w))) = bw_rest (put_file target (Some original) w)"
    by (rule "3.IH"(1)[OF w]) (use "3.prems" in auto)
  ultimately show ?case using w by (cases "path = target") (auto simp: split_beta Let_def put_file_def split: option.split)
next
  case (2 ops target rest w)
  have n: "map_of rest target = None" using "2.prems"(1) by (auto simp: map_of_eq_None_iff)
  have i: "bw_files (fst (restore_all ops rest w)) path = (case map_of rest path of Some (Some old) \<Rightarrow> Some old | _ \<Rightarrow> bw_files w path) \<and>
    bw_json (fst (restore_all ops rest w)) = bw_json w \<and> bw_rest (fst (restore_all ops rest w)) = bw_rest w"
    using 2 by simp
  show ?case using i n by (cases "path = target") auto
qed simp

lemma patch_one_other:
  assumes "patch_one ops dry fw_dir patch (w, saved) = ((w', saved'), rs, r)" "path \<noteq> target_of fw_dir patch"
  shows "bw_files w' path = bw_files w path \<and> set saved \<subseteq> set saved'"
  using assms by (auto simp: patch_one_def Let_def put_file_def split: option.splits if_splits)

lemma patch_all_grows: "patch_all ops dry fw_dir ps (w, saved) = ((w', saved'), rs, r) \<Longrightarrow> set saved \<subseteq> set saved'"
proof (induction ps arbitrary: w saved rs r)
  case (Cons q ps)
  obtain w1 saved1 rs1 r1 where 1: "patch_one ops dry fw_dir q (w, saved) = ((w1, saved1), rs1, r1)" by (metis surj_pair)
  obtain f where "saved1 = saved @ f" using patch_one_saves[OF 1] by blast
  then show ?case using Cons.IH[of w1 saved1] Cons.prems 1 by (cases r1) (auto split: prod.splits)
qed simp

lemma patch_all_complete:
  "distinct (map (target_of fw_dir) ps) \<Longrightarrow> patch_all ops False fw_dir ps (w, saved) = ((w', saved'), rs, Inr u) \<Longrightarrow>
     q \<in> set ps \<Longrightarrow> bw_files w (target_of fw_dir q) = Some old \<Longrightarrow> \<not> contains (utf8 (patch_line q)) old \<Longrightarrow>
     (target_of fw_dir q, Some old) \<in> set saved'"
proof (induction ps arbitrary: w saved rs u)
  case (Cons q' ps)
  obtain w1 saved1 rs1 r1 where 1: "patch_one ops False fw_dir q' (w, saved) = ((w1, saved1), rs1, r1)" by (metis surj_pair)
  from Cons.prems(2) 1 obtain u1 where r1: "r1 = Inr u1" by (cases r1) simp_all
  obtain rs2 r2 where 2: "patch_all ops False fw_dir ps (w1, saved1) = ((w', saved'), rs2, Inr r2)"
    using Cons.prems(2) 1 r1 by (auto split: prod.splits)
  show ?case
  proof (cases "q = q'")
    case True
    then have "(target_of fw_dir q, Some old) \<in> set saved1"
      using 1 r1 Cons.prems(4,5) by (auto simp: patch_one_def Let_def split: if_splits)
    then show ?thesis using patch_all_grows[OF 2] by blast
  next
    case False
    then have q: "q \<in> set ps" using Cons.prems(3) by simp
    have m: "target_of fw_dir q \<in> set (map (target_of fw_dir) ps)" using q by auto
    have "target_of fw_dir q \<noteq> target_of fw_dir q'"
    proof
      assume "target_of fw_dir q = target_of fw_dir q'"
      with m have "target_of fw_dir q' \<in> set (map (target_of fw_dir) ps)" by simp
      then show False using Cons.prems(1) by simp
    qed
    then have "bw_files w1 (target_of fw_dir q) = Some old" using patch_one_other[OF 1] Cons.prems(4) by simp
    then show ?thesis using Cons.IH[OF _ 2 q] Cons.prems(1,5) by simp
  qed
qed simp

lemma with_patches_world:
  assumes dist: "distinct (map (target_of fw_dir) (filter patch_valid patches))"
    and writable: "\<And>q. q \<in> set patches \<Longrightarrow> bo_writable ops (target_of fw_dir q)"
    and run: "with_patches ops False fw_dir patches act w = (w3, rs, r)"
  shows "(\<exists>e. r = Inl e \<and> bw_files w3 = bw_files w) \<or>
     (\<exists>w1 w2 rs2. act w1 = (w2, rs2, r) \<and> bw_json w1 = bw_json w \<and> bw_rest w1 = bw_rest w \<and>
        bw_json w3 = bw_json w2 \<and> bw_rest w3 = bw_rest w2 \<and>
        (\<forall>path. path \<notin> target_of fw_dir ` set (filter patch_valid patches) \<longrightarrow>
            bw_files w1 path = bw_files w path \<and> bw_files w3 path = bw_files w2 path) \<and>
        (\<forall>q old. q \<in> set patches \<longrightarrow> patch_valid q \<longrightarrow> bw_files w (target_of fw_dir q) = Some old \<longrightarrow>
            \<not> contains (utf8 (patch_line q)) old \<longrightarrow> bw_files w3 (target_of fw_dir q) = Some old))"
proof -
  let ?ps = "filter patch_valid patches"
  obtain w1 saved rs1 r1 where 1: "patch_all ops False fw_dir ?ps (w, []) = ((w1, saved), rs1, r1)" by (metis surj_pair)
  from patch_all_saves[OF dist 1] have sv: "saves w w1 saved (set (map (target_of fw_dir) ?ps))" by auto
  note s = sv[unfolded saves_def]
  have wr: "bo_writable ops path" if "(path, Some old) \<in> set saved" for path old
  proof -
    have "path \<in> set (map (target_of fw_dir) ?ps)" using s that by force
    then show ?thesis using writable by auto
  qed
  have rest: "bw_files (fst (restore_all ops saved w2)) path = (case map_of saved path of Some (Some old) \<Rightarrow> Some old | _ \<Rightarrow> bw_files w2 path) \<and>
      bw_json (fst (restore_all ops saved w2)) = bw_json w2 \<and> bw_rest (fst (restore_all ops saved w2)) = bw_rest w2" for w2 path
    by (rule restore_all_files) (use s wr in blast)+
  have old: "map_of saved path = Some (Some old) \<Longrightarrow> bw_files w path = Some old" for path old
    using s map_of_SomeD by metis
  show ?thesis
  proof (cases r1)
    case (Inl e)
    then have r: "r = Inl e" "w3 = fst (restore_all ops saved w1)" using run 1 by (auto simp: with_patches_def split_beta Let_def)
    have "bw_files w3 path = bw_files w path" for path
    proof (cases "\<exists>o'. map_of saved path = Some (Some o')")
      case True
      then show ?thesis using rest[of w1 path] old r(2) by auto
    next
      case False
      then have "\<forall>o'. (path, Some o') \<notin> set saved" using s by (metis map_of_is_SomeI)
      then have "bw_files w1 path = bw_files w path" using s by blast
      then show ?thesis using rest[of w1 path] False r(2) by (auto split: option.splits)
    qed
    then show ?thesis using r(1) by auto
  next
    case (Inr u)
    obtain w2 rs2 r2 where 2: "act w1 = (w2, rs2, r2)" by (metis surj_pair)
    have r: "r = r2" "w3 = fst (restore_all ops saved w2)" using run 1 2 Inr by (auto simp: with_patches_def split_beta Let_def)
    have outside: "bw_files w1 path = bw_files w path \<and> bw_files w3 path = bw_files w2 path"
      if "path \<notin> target_of fw_dir ` set ?ps" for path
    proof -
      have n: "path \<notin> fst ` set saved" using s that by auto
      then have "\<forall>o'. (path, Some o') \<notin> set saved" by force
      then have "bw_files w1 path = bw_files w path" using s by blast
      moreover have "map_of saved path = None" using n by (simp add: map_of_eq_None_iff)
      ultimately show ?thesis using rest[of w2 path] r(2) by simp
    qed
    have undone: "bw_files w3 (target_of fw_dir q) = Some old" if "q \<in> set patches" "patch_valid q"
        "bw_files w (target_of fw_dir q) = Some old" "\<not> contains (utf8 (patch_line q)) old" for q old
    proof -
      have "(target_of fw_dir q, Some old) \<in> set saved"
        by (rule patch_all_complete[OF dist]) (use 1 Inr that in auto)
      then have "map_of saved (target_of fw_dir q) = Some (Some old)" using s by (metis map_of_is_SomeI)
      then show ?thesis using rest[of w2 "target_of fw_dir q"] r(2) by simp
    qed
    show ?thesis
      by (rule disjI2, intro exI[of _ w1] exI[of _ w2] exI[of _ rs2] conjI)
        (use 2 r rest[of w2] s outside undone in auto)
  qed
qed

text \<open>C33: a build leaves the source tree's Makefiles as they were. When the configured patches go to different
  files, then whatever the compilation does, returns or raises - and also when a later patch cannot be
  applied - every file a line was added to has its original bytes again, nothing outside the patched
  files was touched by patching or restoring, and the compilation's own outcome is passed on.\<close>

theorem makefiles_restored:
  assumes "distinct (map (target_of fw_dir) (filter patch_valid patches))"
    and "\<forall>q \<in> set patches. bo_writable ops (target_of fw_dir q)"
    and "with_patches ops False fw_dir patches act w = (w3, rs, r)"
  shows "(\<exists>e. r = Inl e \<and> bw_files w3 = bw_files w) \<or>
     (\<exists>w1 w2 rs2. act w1 = (w2, rs2, r) \<and> bw_json w1 = bw_json w \<and> bw_rest w1 = bw_rest w \<and>
        bw_json w3 = bw_json w2 \<and> bw_rest w3 = bw_rest w2 \<and>
        (\<forall>path. path \<notin> target_of fw_dir ` set (filter patch_valid patches) \<longrightarrow>
            bw_files w1 path = bw_files w path \<and> bw_files w3 path = bw_files w2 path) \<and>
        (\<forall>q old. q \<in> set patches \<longrightarrow> patch_valid q \<longrightarrow> bw_files w (target_of fw_dir q) = Some old \<longrightarrow>
            \<not> contains (utf8 (patch_line q)) old \<longrightarrow> bw_files w3 (target_of fw_dir q) = Some old))"
  by (rule with_patches_world[OF assms(1) _ assms(3)]) (rule bspec[OF assms(2)])

definition demo_build_ops :: "unit build_ops" where
  "demo_build_ops = \<lparr>bo_procs = \<lparr>rn_exec = (\<lambda>cmd cwd w.
       if last cmd = ''clean'' then (w\<lparr>bw_files := (bw_files w)(''/h/klipper/out/klipper.bin'' := None)\<rparr>, [''rm''], Inr 0)
       else (w\<lparr>bw_files := (bw_files w)(''/h/klipper/out/klipper.bin'' \<mapsto> ''image'')\<rparr>, [''CC''], Inr 0)), rn_cancel_after = (\<lambda>_. None)\<rparr>,
     bo_is_dir = (\<lambda>_. True), bo_writable = (\<lambda>_. True), bo_digest = (\<lambda>s. ''d'' @ s), bo_head = (\<lambda>w d. Some ''0a1b''),
     bo_reseed = (\<lambda>w. (w, [], Inr None)), bo_shlex = (\<lambda>_. Some []), bo_clock = (\<lambda>_. 0), bo_rounded = (\<lambda>_. JInt 0),
     bo_stamp = (\<lambda>_. JInt 0), bo_cpus = Some 4, bo_expanduser = id\<rparr>"

definition demo_build_world :: "unit build_world" where
  "demo_build_world = \<lparr>bw_files = [''/h/klipper/src/Makefile'' \<mapsto> ''src-y += a.c'', ''/c/types/ebb/klipper.config'' \<mapsto> ''CONFIG_X=y''],
     bw_json = (\<lambda>_. None), bw_rest = ()\<rparr>"

definition demo_patches :: "makefile_patch list" where
  "demo_patches = [\<lparr>patch_file = ''src/Makefile'', patch_line = ''src-y += b.c''\<rparr>]"

theorem makefiles_restored_witness:
  "bw_files (fst (with_patches demo_build_ops False ''/h/klipper'' demo_patches (run_make demo_build_ops False ''/h/klipper'' [''all'']) demo_build_world))
     ''/h/klipper/src/Makefile'' = Some ''src-y += a.c''"
proof -
  let ?r = "with_patches demo_build_ops False ''/h/klipper'' demo_patches (run_make demo_build_ops False ''/h/klipper'' [''all'']) demo_build_world"
  obtain w3 rs r where r: "?r = (w3, rs, r)" by (metis surj_pair)
  have d: "distinct (map (target_of ''/h/klipper'') (filter patch_valid demo_patches))" by code_simp
  have wr: "\<forall>q \<in> set demo_patches. bo_writable demo_build_ops (target_of ''/h/klipper'' q)" by (simp add: demo_build_ops_def)
  have f: "bw_files demo_build_world ''/h/klipper/src/Makefile'' = Some ''src-y += a.c''" by (simp add: demo_build_world_def)
  have q: "\<lparr>patch_file = ''src/Makefile'', patch_line = ''src-y += b.c''\<rparr> \<in> set demo_patches" by (simp add: demo_patches_def)
  have t: "path_join ''/h/klipper'' ''src/Makefile'' = ''/h/klipper/src/Makefile''" by code_simp
  have n: "\<not> contains (utf8 ''src-y += b.c'') ''src-y += a.c''" by code_simp
  have v: "patch_valid \<lparr>patch_file = ''src/Makefile'', patch_line = ''src-y += b.c''\<rparr>" by (simp add: patch_valid_def)
  from makefiles_restored[OF d wr r] have "bw_files w3 ''/h/klipper/src/Makefile'' = Some ''src-y += a.c''"
  proof (elim disjE exE conjE)
    fix e assume "bw_files w3 = bw_files demo_build_world"
    then show ?thesis using f by simp
  next
    fix w1 w2 rs2
    assume a: "\<forall>q old. q \<in> set demo_patches \<longrightarrow> patch_valid q \<longrightarrow> bw_files demo_build_world (target_of ''/h/klipper'' q) = Some old \<longrightarrow>
            \<not> contains (utf8 (patch_line q)) old \<longrightarrow> bw_files w3 (target_of ''/h/klipper'' q) = Some old"
    from a[rule_format, OF q v] f n show ?thesis by (simp add: t)
  qed
  then show ?thesis by (simp add: r)
qed

text \<open>The limit of it: two lines for one file. The second backup already holds the first line and is put back last,
  so the first line stays in the tree.\<close>

theorem repeated_target_keeps_first_line:
  assumes "bw_files w (target_of fw_dir q) = Some old" "patch_file q' = patch_file q" "patch_valid q" "patch_valid q'"
    and "\<not> contains (utf8 (patch_line q)) old" "\<not> contains (utf8 (patch_line q')) (patched old (patch_line q))"
    and "bo_writable ops (target_of fw_dir q)"
  shows "bw_files (fst (with_patches ops False fw_dir [q, q'] act w)) (target_of fw_dir q) = Some (patched old (patch_line q))"
  using assms
  by (simp add: with_patches_def patch_one_def Let_def put_file_def split_beta split: prod.split)

subsection \<open>A build is current when it returns\<close>

definition host_of :: "'x build_ops \<Rightarrow> 'x build_world \<Rightarrow> prov_host" where
  "host_of ops w = \<lparr>ph_exists = (\<lambda>f. bw_files w f \<noteq> None), ph_hash = (\<lambda>f. digest_at ops f w), ph_json = bw_json w, ph_head = bo_head ops w\<rparr>"

text \<open>What \<open>make clean\<close> in the source tree leaves alone: the staged images, the saved configuration, the sidecar and
  what git says. And git does not look at the sidecar.\<close>

definition clean_keeps :: "'x build_ops \<Rightarrow> paths \<Rightarrow> build_plan \<Rightarrow> bool" where
  "clean_keeps ops p b =
     ((\<forall>w w' rs r. run_make ops False (bp_dir b) [''KCONFIG_CONFIG='' @ bp_config b, ''clean''] w = (w', rs, r) \<longrightarrow>
         (\<forall>f \<in> {bin_file p (bp_type b) (bp_fw b), uf2_file p (bp_type b) (bp_fw b), bp_config b}. bw_files w' f = bw_files w f) \<and>
         bw_json w' (sidecar_file p (bp_type b) (bp_fw b)) = bw_json w (sidecar_file p (bp_type b) (bp_fw b)) \<and>
         bo_head ops w' = bo_head ops w) \<and>
      (\<forall>f j w. bo_head ops (put_json f j w) = bo_head ops w))"

lemma seq_Inr:
  assumes "seq m f w = (w', rs, Inr y)"
  shows "\<exists>w1 rs1 x rs2. m w = (w1, rs1, Inr x) \<and> f x w1 = (w', rs2, Inr y)"
  using assms by (auto simp: seq_def split: prod.splits sum.splits)

lemma stage_Inr:
  assumes "stage_or_remove ops compiled dest made w = (w', rs, Inr r)" "made \<longleftrightarrow> bw_files w compiled \<noteq> None"
  shows "r = (if made then Some dest else None)" "bw_files w' dest \<noteq> None \<longleftrightarrow> made" "\<And>f. f \<noteq> dest \<Longrightarrow> bw_files w' f = bw_files w f"
  using assms by (auto simp: stage_or_remove_def put_file_def split: if_splits)

lemma stage_images_Inr:
  assumes "stage_images ops False cb cu bin uf2 w = (w', rs, Inr (b, u))" and "bin \<noteq> uf2" "cu \<noteq> bin"
  shows "b = (if bw_files w' bin \<noteq> None then Some bin else None)" "u = (if bw_files w' uf2 \<noteq> None then Some uf2 else None)"
    "b \<noteq> None \<or> u \<noteq> None" "\<And>f. f \<noteq> bin \<Longrightarrow> f \<noteq> uf2 \<Longrightarrow> bw_files w' f = bw_files w f"
proof -
  let ?mb = "bw_files w cb \<noteq> None" and ?mu = "bw_files w cu \<noteq> None"
  have m: "?mb \<or> ?mu" using assms(1) by (auto simp: stage_images_def split: if_splits)
  have "seq (stage_or_remove ops cb bin ?mb) (\<lambda>b. seq (stage_or_remove ops cu uf2 ?mu) (\<lambda>u w2.
      (w2, map (\<lambda>f. (''info'', ''Firmware built and copied to '' @ f)) (List.map_filter id [b, u]), Inr (b, u)))) w = (w', rs, Inr (b, u))"
    using assms(1) m by (simp add: stage_images_def Let_def split: if_splits)
  from seq_Inr[OF this] obtain w1 rs1 b' rs2 where 1: "stage_or_remove ops cb bin ?mb w = (w1, rs1, Inr b')"
    "seq (stage_or_remove ops cu uf2 ?mu) (\<lambda>u w2.
      (w2, map (\<lambda>f. (''info'', ''Firmware built and copied to '' @ f)) (List.map_filter id [b', u]), Inr (b', u))) w1 = (w', rs2, Inr (b, u))"
    by blast
  from seq_Inr[OF 1(2)] have 2: "stage_or_remove ops cu uf2 ?mu w1 = (w', fst (snd (stage_or_remove ops cu uf2 ?mu w1)), Inr u)" "b' = b"
    by auto
  note s1 = stage_Inr(1-3)[OF 1(1) refl]
  have "bw_files w1 cu = bw_files w cu" using s1(3) assms(3) by blast
  then have "?mu \<longleftrightarrow> bw_files w1 cu \<noteq> None" by simp
  note s2 = stage_Inr(1-3)[OF 2(1) this]
  have eb: "bw_files w' bin = bw_files w1 bin" using s2(3) assms(2) by blast
  show "b = (if bw_files w' bin \<noteq> None then Some bin else None)" using s1(1,2) eb 2(2) by simp
  show "u = (if bw_files w' uf2 \<noteq> None then Some uf2 else None)" using s2(1,2) by simp
  show "b \<noteq> None \<or> u \<noteq> None" using m s1(1) s2(1) 2(2) by auto
  show "bw_files w' f = bw_files w f" if "f \<noteq> bin" "f \<noteq> uf2" for f using s1(3) s2(3) that by simp
qed

lemma extensions_differ:
  "config_file p t fw \<noteq> bin_file p t fw" "config_file p t fw \<noteq> uf2_file p t fw" "built_artifact ex home family ''uf2'' \<noteq> bin_file p t fw"
proof -
  obtain a where a: "config_file p t fw = a @ ''.config''" using path_join_suffix[of "type_dir p t" fw "''.config''"] by (auto simp: config_file_def)
  obtain b where b: "bin_file p t fw = b @ ''.bin''" using path_join_suffix[of "artifact_dir p t" fw "''.bin''"] by (auto simp: bin_file_def)
  obtain c where c: "uf2_file p t fw = c @ ''.uf2''" using path_join_suffix[of "artifact_dir p t" fw "''.uf2''"] by (auto simp: uf2_file_def)
  obtain d where d: "built_artifact ex home family ''uf2'' = d @ ''.uf2''"
    using path_join_suffix[of "path_join (source_dir ex home family) ''out''" "artifact_name family" "''.uf2''"] by (auto simp: built_artifact_def)
  have "x @ ''.config'' \<noteq> y @ ''.bin''" "x @ ''.config'' \<noteq> y @ ''.uf2''" "x @ ''.uf2'' \<noteq> y @ ''.bin''" for x y
    by (rule notI, drule arg_cong[of _ _ last], simp)+
  then show "config_file p t fw \<noteq> bin_file p t fw" "config_file p t fw \<noteq> uf2_file p t fw" "built_artifact ex home family ''uf2'' \<noteq> bin_file p t fw"
    unfolding a b c d by blast+
qed

lemma then_clean_Inr:
  assumes "then_clean ops dry fw_dir karg act w = (w', rs, Inr r)"
  shows "\<exists>w1 rs1 rs2. act w = (w1, rs1, Inr r) \<and> run_make ops dry fw_dir [karg, ''clean''] w1 = (w', rs2, Inr 0)"
proof -
  obtain w1 rs1 r1 where 1: "act w = (w1, rs1, r1)" by (metis surj_pair)
  obtain w2 rs2 r2 where 2: "run_make ops dry fw_dir [karg, ''clean''] w1 = (w2, rs2, r2)" by (metis surj_pair)
  have "r1 = Inr r \<and> r2 = Inr 0 \<and> w2 = w'"
    using assms 1 2 by (auto simp: then_clean_def Let_def split: sum.splits if_splits)
  then show ?thesis using 1 2 by blast
qed

lemma file_result_left:
  assumes "file_result ops p b spent (digest_at ops (bp_config b) w) rewritten reseeded (bi, u) w = (w', rs, Inr r)"
    and "bi = (if bw_files w (bin_file p (bp_type b) (bp_fw b)) \<noteq> None then Some (bin_file p (bp_type b) (bp_fw b)) else None)"
    and "u = (if bw_files w (uf2_file p (bp_type b) (bp_fw b)) \<noteq> None then Some (uf2_file p (bp_type b) (bp_fw b)) else None)"
    and "bi \<noteq> None \<or> u \<noteq> None" and "bo_writable ops (sidecar_file p (bp_type b) (bp_fw b))"
    and "\<forall>f j w. bo_head ops (put_json f j w) = bo_head ops w" and "bp_config b = config_file p (bp_type b) (bp_fw b)"
  shows "left_by (host_of ops w') p (bp_type b) (bp_fw b) (bp_dir b) r"
proof -
  let ?side = "sidecar_file p (bp_type b) (bp_fw b)"
  have w': "w' = put_json ?side (JObj (to_sidecar r (bo_rounded ops spent) (bo_stamp ops w))) w"
    and r: "br_bin_path r = bi" "br_uf2_path r = u" "br_fw_sha r = bo_head ops w (bp_dir b)"
      "br_config_sha256 r = digest_at ops (bp_config b) w"
      "br_bin_sha256 r = (case bi of None \<Rightarrow> None | Some f \<Rightarrow> digest_at ops f w)"
      "br_uf2_sha256 r = (case u of None \<Rightarrow> None | Some f \<Rightarrow> digest_at ops f w)"
      "br_extra_repo_shas r = map (\<lambda>r. (r, bo_head ops w r)) (dedup (bp_repos b))"
    using assms(1,5) by (auto simp: file_result_def Let_def)
  have d: "digest_at ops f w' = digest_at ops f w" "bw_files w' f = bw_files w f" for f by (simp_all add: w' put_json_def digest_at_def)
  have h: "bo_head ops w' = bo_head ops w" using assms(6) by (simp add: w')
  have j: "bw_json w' ?side = Some (JObj (to_sidecar r (bo_rounded ops spent) (bo_stamp ops w)))" by (simp add: w' put_json_def)
  show ?thesis unfolding left_by_def using assms(2-4,7) r
    by (auto simp: host_of_def d h j)
qed

lemma left_by_cong:
  assumes "left_by ph p t fw dir r"
    and "ph_json ph' (sidecar_file p t fw) = ph_json ph (sidecar_file p t fw)" "ph_head ph' = ph_head ph"
    and "\<And>f. f \<in> {bin_file p t fw, uf2_file p t fw} \<Longrightarrow> ph_exists ph' f = ph_exists ph f"
    and "\<And>f. f \<in> {bin_file p t fw, uf2_file p t fw, config_file p t fw} \<Longrightarrow> ph_hash ph' f = ph_hash ph f"
  shows "left_by ph' p t fw dir r"
proof -
  have e: "ph_exists ph' (bin_file p t fw) = ph_exists ph (bin_file p t fw)" "ph_exists ph' (uf2_file p t fw) = ph_exists ph (uf2_file p t fw)"
    "ph_hash ph' (bin_file p t fw) = ph_hash ph (bin_file p t fw)" "ph_hash ph' (uf2_file p t fw) = ph_hash ph (uf2_file p t fw)"
    "ph_hash ph' (config_file p t fw) = ph_hash ph (config_file p t fw)"
    by (rule assms(4) assms(5), simp)+
  show ?thesis using assms(1) unfolding left_by_def assms(2,3) e .
qed

lemma compile_and_stage_left:
  assumes "compile_and_stage ops p b reseeded w = (w', rs, Inr r)" and "\<not> bp_dry b"
    and "bo_writable ops (sidecar_file p (bp_type b) (bp_fw b))" and "\<forall>f j w. bo_head ops (put_json f j w) = bo_head ops w"
    and "bp_config b = config_file p (bp_type b) (bp_fw b)" and "bp_compiled_uf2 b \<noteq> bin_file p (bp_type b) (bp_fw b)"
  shows "left_by (host_of ops w') p (bp_type b) (bp_fw b) (bp_dir b) r"
proof -
  let ?bin = "bin_file p (bp_type b) (bp_fw b)" and ?uf2 = "uf2_file p (bp_type b) (bp_fw b)"
  from assms(1) obtain w1 rs1 rc where 1: "with_patches ops (bp_dry b) (bp_dir b) (bp_patches b)
      (compile ops (bp_dry b) (bp_dir b) (''KCONFIG_CONFIG='' @ bp_config b) (bp_flags b) (bp_clean b)) w = (w1, rs1, Inr rc)"
    unfolding compile_and_stage_def Let_def by (blast dest: seq_Inr)
  have "\<exists>spent rewritten rs2. seq (stage_images ops False (bp_compiled_bin b) (bp_compiled_uf2 b) ?bin ?uf2)
      (file_result ops p b spent (digest_at ops (bp_config b) w1) rewritten reseeded) w1 = (w', rs2, Inr r)"
    using assms(1,2) unfolding compile_and_stage_def Let_def seq_def[of "with_patches _ _ _ _ _"] 1
    by (auto split: prod.splits if_splits)
  then obtain spent rewritten rs2 where 2: "seq (stage_images ops False (bp_compiled_bin b) (bp_compiled_uf2 b) ?bin ?uf2)
      (file_result ops p b spent (digest_at ops (bp_config b) w1) rewritten reseeded) w1 = (w', rs2, Inr r)" by blast
  from seq_Inr[OF 2] obtain w2 rs3 bi u rs4 where 3: "stage_images ops False (bp_compiled_bin b) (bp_compiled_uf2 b) ?bin ?uf2 w1 = (w2, rs3, Inr (bi, u))"
    "file_result ops p b spent (digest_at ops (bp_config b) w1) rewritten reseeded (bi, u) w2 = (w', rs4, Inr r)" by auto
  have ne: "?bin \<noteq> ?uf2" using artifact_files_distinct[of p "bp_type b" "bp_fw b"] by simp
  note st = stage_images_Inr[OF 3(1) ne assms(6)]
  have "digest_at ops (bp_config b) w1 = digest_at ops (bp_config b) w2"
    using st(4)[of "bp_config b"] extensions_differ(1,2)[of p "bp_type b" "bp_fw b"] assms(5) by (simp add: digest_at_def)
  with 3(2) have "file_result ops p b spent (digest_at ops (bp_config b) w2) rewritten reseeded (bi, u) w2 = (w', rs4, Inr r)" by simp
  from file_result_left[OF this st(1-3) assms(3-5)] show ?thesis .
qed

lemma plan_build_Inr:
  assumes "plan_build ops p rg fams s t fw jobs do_clean w = Inr b"
  shows "bp_type b = t" "bp_fw b = fw" "bp_config b = config_file p t fw" "bp_dry b = dry_run s" "bp_compiled_uf2 b \<noteq> bin_file p t fw"
    "\<exists>family. resolve_family fams fw = Inr family \<and> bp_dir b = source_dir (bo_expanduser ops) (p_home p) family"
  using assms extensions_differ(3)[of "bo_expanduser ops" "p_home p" _ p t fw]
  by (auto simp: plan_build_def Let_def split: sum.splits if_splits)

lemma build_left:
  assumes "build ops p rg fams s t fw jobs do_clean reseed w = (w', rs, Inr r)" and "\<not> dry_run s"
    and "plan_build ops p rg fams s t fw jobs do_clean w = Inr b"
    and "clean_keeps ops p b" and "bo_writable ops (sidecar_file p t fw)"
  shows "left_by (host_of ops w') p t fw (bp_dir b) r"
proof -
  note pl = plan_build_Inr[OF assms(3)]
  from assms(1,3) obtain w1 rs1 reseeded args rs2 where
    1: "then_clean ops (bp_dry b) (bp_dir b) (''KCONFIG_CONFIG='' @ bp_config b)
          (compile_and_stage ops p (b\<lparr>bp_flags := bp_flags b @ args\<rparr>) reseeded) w1 = (w', rs2, Inr r)"
    unfolding build_def
    by (auto dest!: seq_Inr simp: Let_def split: option.splits prod.splits)
  let ?b = "b\<lparr>bp_flags := bp_flags b @ args\<rparr>"
  obtain w2 rs3 rs4 where 2: "compile_and_stage ops p ?b reseeded w1 = (w2, rs3, Inr r)"
    "run_make ops False (bp_dir b) [''KCONFIG_CONFIG='' @ bp_config b, ''clean''] w2 = (w', rs4, Inr 0)"
    using then_clean_Inr[OF 1] pl(4) assms(2) by auto
  note k = assms(4)[unfolded clean_keeps_def pl(1-3)]
  have l: "left_by (host_of ops w2) p (bp_type ?b) (bp_fw ?b) (bp_dir ?b) r"
    by (rule compile_and_stage_left[OF 2(1)]) (use pl assms(2,5) k in auto)
  have keep: "bw_json w' (sidecar_file p t fw) = bw_json w2 (sidecar_file p t fw)" "bo_head ops w' = bo_head ops w2"
    "\<And>f. f \<in> {bin_file p t fw, uf2_file p t fw, config_file p t fw} \<Longrightarrow> bw_files w' f = bw_files w2 f"
    using k 2(2)[unfolded pl(3)] by blast+
  show ?thesis
    by (rule left_by_cong[of "host_of ops w2"]) (use l keep pl in \<open>auto simp: host_of_def digest_at_def\<close>)
qed

text \<open>C32: a build that returns has left what it says, and the readers agree. Straight after a build the artifact is
  current, whatever secondary trees are asked about; what is staged is exactly the images the result
  names, so an image of the other kind from an earlier build is gone; and each is vouched for by the
  digest of the bytes on disk. It is assumed that \<open>make clean\<close> in the source tree leaves the staged
  files alone and that the sidecar could be written.\<close>

theorem build_then_current:
  assumes "build ops p rg fams s t fw jobs do_clean reseed w = (w', rs, Inr r)" and "\<not> dry_run s"
    and "plan_build ops p rg fams s t fw jobs do_clean w = Inr b"
    and "clean_keeps ops p b" and "bo_writable ops (sidecar_file p t fw)"
  shows "artifact_status (host_of ops w') p t fw (Inr (bp_dir b)) None extra = Inr None \<and>
    set (map (\<lambda>a. (kind a, art_path a)) (artifacts (staged_of (host_of ops w') p t fw (bp_dir b)))) =
      {(KIND_BIN, f) |f. br_bin_path r = Some f} \<union> {(KIND_UF2, f) |f. br_uf2_path r = Some f} \<and>
    (br_bin_path r \<noteq> None \<or> br_uf2_path r \<noteq> None) \<and>
    (\<forall>a \<in> set (artifacts (staged_of (host_of ops w') p t fw (bp_dir b))). \<forall>h.
       digest_at ops (art_path a) w' = Some h \<longrightarrow> h \<noteq> [] \<longrightarrow> sha256 a = Some h)"
proof -
  note l = build_left[OF assms]
  have "ph_hash (host_of ops w') f = digest_at ops f w'" for f by (simp add: host_of_def)
  moreover have "br_bin_path r \<noteq> None \<or> br_uf2_path r \<noteq> None" using l unfolding left_by_def by blast
  ultimately show ?thesis using built_then_current[OF l] built_then_staged(1)[OF l] built_then_staged(2)[OF l] by simp
qed

definition demo_build_mcu :: mcu_type where
  "demo_build_mcu = \<lparr>mt_name = ''ebb'', mt_chipset = ''rp2040'', mt_serials = [], mt_canbus_uuids = [],
     mt_fws = [(''klipper'', \<lparr>extra_args = [], makefile_patches = demo_patches, extra_repos = []\<rparr>)],
     mt_firmwares = [''klipper''], mt_profile = [], mt_stop_services = None\<rparr>"

definition demo_build_registry :: registry where
  "demo_build_registry = \<lparr>rg_types = [(''ebb'', demo_build_mcu)], rg_doc = doc_of_lines False []\<rparr>"

definition demo_build_families :: families where
  "demo_build_families = [(''klipper'', \<lparr>fam_name = ''klipper'', fam_source = [], fam_artifact = [], fam_builder = ''kconfig_make'',
      fam_cmake_args = [], fam_helper = [], fam_flashers = [''flashtool''], fam_submodules = False,
      fam_bootloader = False, fam_auto_provision = False, fam_stop_services = None\<rparr>)]"

definition demo_built :: "unit build_world \<times> report list \<times> (build_error + build_result)" where
  "demo_built = build demo_build_ops demo_prov_paths demo_build_registry demo_build_families default_settings ''ebb'' ''klipper''
     None None None demo_build_world"

definition demo_plan :: build_plan where
  "demo_plan = \<lparr>bp_type = ''ebb'', bp_fw = ''klipper'', bp_dir = ''/h/klipper'', bp_config = ''/c/types/ebb/klipper.config'', bp_flags = [],
     bp_patches = demo_patches, bp_repos = [], bp_clean = True, bp_dry = False,
     bp_compiled_bin = ''/h/klipper/out/klipper.bin'', bp_compiled_uf2 = ''/h/klipper/out/klipper.uf2''\<rparr>"

lemma demo_planned: "plan_build demo_build_ops demo_prov_paths demo_build_registry demo_build_families default_settings ''ebb'' ''klipper''
     None None demo_build_world = Inr demo_plan"
  by code_simp

lemma demo_built_ok: "is_ok (snd (snd demo_built))"
  by code_simp

lemma demo_files: "bin_file demo_prov_paths ''ebb'' ''klipper'' = ''/d/ebb/klipper.bin''" "uf2_file demo_prov_paths ''ebb'' ''klipper'' = ''/d/ebb/klipper.uf2''"
  by code_simp+

lemma demo_keeps: "clean_keeps demo_build_ops demo_prov_paths demo_plan"
  unfolding clean_keeps_def
  by (simp add: demo_plan_def demo_files run_make_def run_streamed_def demo_build_ops_def)

theorem build_then_current_witness:
  "artifact_status (host_of demo_build_ops (fst demo_built)) demo_prov_paths ''ebb'' ''klipper'' (Inr ''/h/klipper'') None [] = Inr None"
proof -
  obtain r where "snd (snd demo_built) = Inr r" using demo_built_ok unfolding is_ok_iff by blast
  then have b: "build demo_build_ops demo_prov_paths demo_build_registry demo_build_families default_settings ''ebb'' ''klipper''
     None None None demo_build_world = (fst demo_built, fst (snd demo_built), Inr r)"
    unfolding demo_built_def by (metis prod.collapse)
  have d: "\<not> dry_run default_settings" by (simp add: default_settings_def)
  have wr: "bo_writable demo_build_ops (sidecar_file demo_prov_paths ''ebb'' ''klipper'')" by (simp add: demo_build_ops_def)
  from build_then_current[OF b d demo_planned demo_keeps wr, of "[]"] show ?thesis by (simp add: demo_plan_def)
qed

subsection \<open>A build that fails\<close>

text \<open>Whatever went wrong, the clean-up ran: its command is the last one reported.\<close>

lemma then_clean_always:
  assumes "then_clean ops False fw_dir karg act w = (w', rs, r)"
  shows "\<exists>before_clean after_clean. rs = before_clean @ (''cmd'', join '' '' (map shlex_quote [''make'', karg, ''clean''])) # after_clean"
proof -
  obtain w1 rs1 r1 where 1: "act w = (w1, rs1, r1)" by (metis surj_pair)
  obtain w2 lines r2 where 2: "rn_exec (bo_procs ops) [''make'', karg, ''clean''] fw_dir w1 = (w2, lines, r2)" by (metis surj_pair)
  have m: "run_make ops False fw_dir [karg, ''clean''] w1 = (w2, (''cmd'', join '' '' (map shlex_quote [''make'', karg, ''clean''])) #
      map (\<lambda>l. (classify_output l, l)) lines, case r2 of Inl e \<Rightarrow> Inl (RunFailed e) | Inr rc \<Rightarrow> Inr rc)"
    by (simp add: run_make_def run_streamed_def 2)
  show ?thesis using assms unfolding then_clean_def 1 Let_def prod.case m
    by (auto split: sum.splits if_splits option.splits)
qed

end
