(* ===== verification/AgentApi.thy ===== *)
theory AgentApi
  imports Rpc Discovery Tracking Jobs SettingsFile
begin

section \<open>The agent's methods: what is offered, and who may write a board (agent/methods/status.py)\<close>

text \<open>
  \<open>METHODS\<close> names every method; \<open>available_methods\<close> withholds what this deployment may not do, and
  \<open>dispatch\<close> runs only what is left. The handlers are an argument (by attribute name), each a function
  of its arguments and a world. The second half is the identity writes \<open>fw.identity.provision\<close> and
  \<open>fw.identity.clear\<close> and \<open>fw.serial.add\<close>, the three operations that can write a board's identity
  outside a job, over the registry, the locks and the boards of \<open>Tracking\<close>. \<open>AgentServe\<close> puts the handlers
  together over one world.
\<close>

subsection \<open>The tables\<close>

definition METHODS :: "(string, string) dict" where
  "METHODS =
     [(''fw.ping'', ''ping''), (''fw.status'', ''status''), (''fw.type.list'', ''type_list''), (''fw.target.get'', ''target_get''),
      (''fw.bus.scan'', ''bus_scan''), (''fw.bus.ignore'', ''bus_ignore''), (''fw.bus.unignore'', ''bus_unignore''),
      (''fw.dfu.scan'', ''dfu_scan''), (''fw.bootsel.scan'', ''bootsel_scan''), (''fw.add_mcu.scan'', ''add_mcu_scan''),
      (''fw.canbus.scan'', ''canbus_scan''), (''fw.canbus.ignore'', ''canbus_ignore''), (''fw.canbus.unignore'', ''canbus_unignore''),
      (''fw.identity.provision'', ''identity_provision''), (''fw.identity.clear'', ''identity_clear''),
      (''fw.artifacts'', ''artifacts''), (''fw.settings.get'', ''settings_get''), (''fw.settings.set'', ''settings_set''),
      (''fw.build'', ''build''), (''fw.clean'', ''clean''), (''fw.flash'', ''flash''), (''fw.job.get'', ''job_get''),
      (''fw.job.cancel'', ''job_cancel''), (''fw.build_all'', ''build_all''), (''fw.flash_all'', ''flash_all''),
      (''fw.update_all'', ''update_all''), (''fw.add_mcu.start'', ''add_mcu_start''), (''fw.serial.add'', ''serial_add''),
      (''fw.serial.remove'', ''serial_remove''), (''fw.canbus.add'', ''canbus_add''), (''fw.canbus.remove'', ''canbus_remove''),
      (''fw.type.add'', ''type_add''), (''fw.type.update'', ''type_update''), (''fw.type.remove'', ''type_remove''),
      (''fw.kconfig.open'', ''kconfig_open''), (''fw.kconfig.menu'', ''kconfig_menu''), (''fw.kconfig.enter'', ''kconfig_enter''),
      (''fw.kconfig.up'', ''kconfig_up''), (''fw.kconfig.set'', ''kconfig_set''), (''fw.kconfig.help'', ''kconfig_help''),
      (''fw.kconfig.search'', ''kconfig_search''), (''fw.kconfig.reset'', ''kconfig_reset''), (''fw.kconfig.save'', ''kconfig_save''),
      (''fw.kconfig.close'', ''kconfig_close''), (''fw.profile.list'', ''profile_list''), (''fw.profile.apply'', ''profile_apply''),
      (''fw.profile.forget'', ''profile_forget'')]"

definition JOB_METHODS :: "string list" where
  "JOB_METHODS =
     [''fw.build'', ''fw.flash'', ''fw.job.get'', ''fw.job.cancel'', ''fw.build_all'', ''fw.flash_all'', ''fw.update_all'',
      ''fw.add_mcu.start'', ''fw.profile.apply'', ''fw.clean'']"

definition FLASH_METHODS :: "string list" where
  "FLASH_METHODS = [''fw.flash'', ''fw.flash_all'', ''fw.update_all'', ''fw.add_mcu.start'']"

definition HARDWARE_METHODS :: "string list" where
  "HARDWARE_METHODS = [''fw.identity.provision'', ''fw.identity.clear'']"

text \<open>\<open>for name in names: out.pop(name, None)\<close>.\<close>

definition withhold :: "string list \<Rightarrow> (string, string) dict \<Rightarrow> (string, string) dict" where
  "withhold names d = foldl dict_del d names"

text \<open>The settings are read again for every call; a section that is invalid reads as the defaults.\<close>

definition agent_settings :: "string + string option \<Rightarrow> settings" where
  "agent_settings file = (case load_settings file of Inl _ \<Rightarrow> default_settings | Inr s \<Rightarrow> s)"

definition hardware_writes_allowed :: "bool \<Rightarrow> settings \<Rightarrow> bool" where
  "hardware_writes_allowed has_runner s = (has_runner \<and> enable_flashing s)"

definition available_methods :: "bool \<Rightarrow> settings \<Rightarrow> (string, string) dict" where
  "available_methods has_runner s =
     (if \<not> has_runner then
        (let out = withhold JOB_METHODS METHODS in
         if \<not> hardware_writes_allowed has_runner s then withhold HARDWARE_METHODS out else out)
      else
        (let out = (if \<not> enable_flashing s then withhold FLASH_METHODS METHODS else METHODS) in
         if \<not> hardware_writes_allowed has_runner s then withhold HARDWARE_METHODS out else out))"

definition capabilities :: "bool \<Rightarrow> settings \<Rightarrow> string list" where
  "capabilities has_runner s = sort (dict_keys (available_methods has_runner s))"

subsection \<open>Dispatch\<close>

definition ERR_INVALID_PARAMS :: int where "ERR_INVALID_PARAMS = -32602"

text \<open>How a method ends. An \<open>UpdaterError\<close> carries its message and its \<open>to_dict()\<close>.\<close>

datatype method_end =
    Gave json
  | EndsRpc int string json
  | EndsUpdater string json
  | EndsOther string string

fun rpc_outcome :: "method_end \<Rightarrow> handler_outcome" where
  "rpc_outcome (Gave v) = HandlerReturned (Some v)"
| "rpc_outcome (EndsRpc c m d) = HandlerRpcError c m (Some (Some d))"
| "rpc_outcome (EndsUpdater m d) = HandlerRpcError ERR_APPLICATION m (Some (Some d))"
| "rpc_outcome (EndsOther t c) = HandlerRaised t c NoToDict"

fun type_name :: "json \<Rightarrow> string" where
  "type_name JNull = ''NoneType''"
| "type_name (JBool _) = ''bool''"
| "type_name (JInt _) = ''int''"
| "type_name (JFloat _ _) = ''float''"
| "type_name (JStr _) = ''str''"
| "type_name (JList _) = ''list''"
| "type_name (JObj _) = ''dict''"

definition method_not_found :: "string \<Rightarrow> method_end" where
  "method_not_found m = EndsRpc ERR_METHOD_NOT_FOUND (''unknown method '' @ [CHR 0x27] @ m @ [CHR 0x27]) JNull"

fun bind_args :: "string \<Rightarrow> json \<Rightarrow> method_end + (string \<times> json) list" where
  "bind_args m JNull = Inr []"
| "bind_args m (JObj args) = Inr args"
| "bind_args m (JList xs) =
     (if xs \<noteq> [] then Inl (EndsRpc ERR_INVALID_PARAMS (m @ '' takes named arguments, got a positional list'') JNull) else Inr [])"
| "bind_args m p = Inl (EndsRpc ERR_INVALID_PARAMS (m @ '' expects an object of arguments, got '' @ type_name p) JNull)"

type_synonym 'w handlers = "string \<Rightarrow> (string \<times> json) list \<Rightarrow> 'w \<Rightarrow> method_end \<times> 'w"

text \<open>\<open>dict.get\<close> of a method that is no string finds nothing, or raises on a list or an object.\<close>

definition dispatch :: "bool \<Rightarrow> settings \<Rightarrow> 'w handlers \<Rightarrow> json \<Rightarrow> json \<Rightarrow> 'w \<Rightarrow> method_end \<times> 'w" where
  "dispatch has_runner s handlers called params w =
     (if unhashable called then (EndsOther (''unhashable type: '' @ repr_str (type_name called)) ''TypeError'', w)
      else
        (case (case called of JStr m \<Rightarrow> dict_get (available_methods has_runner s) m | _ \<Rightarrow> None) of
           None \<Rightarrow> (method_not_found (py_str called), w)
         | Some attr \<Rightarrow>
             (case bind_args (py_str called) params of
                Inl e \<Rightarrow> (e, w)
              | Inr args \<Rightarrow> handlers attr args w)))"

definition on_request :: "bool \<Rightarrow> settings \<Rightarrow> 'w handlers \<Rightarrow> 'w \<Rightarrow> json \<Rightarrow> json \<Rightarrow> handler_outcome" where
  "on_request has_runner s handlers w called params = rpc_outcome (fst (dispatch has_runner s handlers called params w))"

lemma get_withhold: "dict_get (withhold names d) m = (if m \<in> set names then None else dict_get d m)"
  unfolding withhold_def by (induction names arbitrary: d) auto

lemma available_get:
  "dict_get (available_methods has_runner s) m =
     (if \<not> has_runner \<and> m \<in> set JOB_METHODS \<or> \<not> enable_flashing s \<and> m \<in> set FLASH_METHODS \<or>
         \<not> (has_runner \<and> enable_flashing s) \<and> m \<in> set HARDWARE_METHODS
      then None else dict_get METHODS m)"
proof -
  have "set FLASH_METHODS \<subseteq> set JOB_METHODS" by code_simp
  then show ?thesis
    by (auto simp: available_methods_def hardware_writes_allowed_def get_withhold Let_def)
qed

lemma encodable_outcome [simp]: "encodable (rpc_outcome e)"
  by (cases e) simp_all

subsection \<open>Arguments and errors\<close>

definition require_str :: "(string \<times> json) list \<Rightarrow> string \<Rightarrow> method_end + string" where
  "require_str args key =
     (let v = jget args key in
      if \<not> truthy v \<or> strip (py_str v) = []
      then Inl (EndsRpc ERR_INVALID_PARAMS ([CHR 0x27] @ key @ [CHR 0x27] @ '' is required'') JNull)
      else Inr (strip (py_str v)))"

definition error_dict :: "string \<Rightarrow> string \<Rightarrow> (string \<times> json) list \<Rightarrow> json" where
  "error_dict code' message data = JObj [(''code'', JStr code'), (''message'', JStr message), (''data'', JObj data)]"

text \<open>Who this process is, and how an error of the components below reads: its message and \<open>to_dict()\<close>.\<close>

record 'e caller_env =
  ce_party :: nat
  ce_pid :: int
  ce_now :: json
  ce_reads :: "'e \<Rightarrow> string \<times> json"

definition updater_end :: "'e caller_env \<Rightarrow> 'e \<Rightarrow> method_end" where
  "updater_end env e = (case ce_reads env e of (m, d) \<Rightarrow> EndsUpdater m d)"

text \<open>\<open>except UpdaterError as exc: raise RpcError(exc.message, data=exc.to_dict())\<close>.\<close>

definition rpc_end :: "'e caller_env \<Rightarrow> 'e \<Rightarrow> method_end" where
  "rpc_end env e = (case ce_reads env e of (m, d) \<Rightarrow> EndsRpc ERR_APPLICATION m d)"

subsection \<open>One identity write, or one serial add, at a time\<close>

record 'w agent_world =
  aw_identity :: bool       \<comment> \<open>\<open>_identity_lock\<close> is held\<close>
  aw_track :: "'w track_world"
  aw_changed :: nat         \<comment> \<open>how often a change was announced\<close>

definition busy_end :: "string \<Rightarrow> method_end" where
  "busy_end m = EndsUpdater m (error_dict ''busy'' m [])"

definition identity_change :: "('w agent_world \<Rightarrow> method_end \<times> 'w agent_world) \<Rightarrow> 'w agent_world \<Rightarrow> method_end \<times> 'w agent_world" where
  "identity_change act w =
     (if aw_identity w
      then (busy_end ''a board's identity is being written, or a serial is being tracked. Try again once that finishes.'', w)
      else (case act (w\<lparr>aw_identity := True\<rparr>) of (e, w') \<Rightarrow> (e, w'\<lparr>aw_identity := False\<rparr>)))"

record 'w provisioner =
  pv_name :: string
  pv_state :: "string \<Rightarrow> string option"
  pv_provision :: "string \<Rightarrow> 'w \<Rightarrow> (string + string) \<times> 'w"
  pv_clear :: "string \<Rightarrow> 'w \<Rightarrow> (string + string) \<times> 'w"

definition identity_states :: "'w provisioner list \<Rightarrow> string \<Rightarrow> (string, string option) dict" where
  "identity_states provs serial = foldl (\<lambda>d p. dict_set d (pv_name p) (pv_state p serial)) [] provs"

definition identity_claimant :: "'w provisioner list \<Rightarrow> string \<Rightarrow> string \<Rightarrow> method_end + 'w provisioner" where
  "identity_claimant provs serial want =
     (let states = identity_states provs serial;
          verb = (if want = ''unprovisioned'' then ''provision'' else ''clear'') in
      case filter (\<lambda>p. dict_get states (pv_name p) = Some (Some want)) provs of
        [p] \<Rightarrow> Inr p
      | _ \<Rightarrow> Inl (EndsRpc ERR_APPLICATION (''No single firmware can '' @ verb @ '' '' @ [CHR 0x27] @ serial @ [CHR 0x27] @ ''.'')
               (error_dict ''not_provisionable'' (''exactly one helper must be able to '' @ verb @ '' this serial'')
                  [(''serial'', JStr serial),
                   (''helpers'', JList (map JStr (sort (map fst (filter (\<lambda>(n, st). st \<noteq> None) states)))))])))"

definition identity_untracked :: "track_error caller_env \<Rightarrow> string \<Rightarrow> 'w track_world \<Rightarrow> method_end option" where
  "identity_untracked env serial tw =
     (case registry_load (Inr (tw_file tw)) of
        Inl e \<Rightarrow> Some (updater_end env (RegistryRefused (TypesRefused e)))
      | Inr rg \<Rightarrow>
          (case find_declared_types_for_serial rg serial of
             [] \<Rightarrow> None
           | owner # others \<Rightarrow>
               Some (EndsRpc ERR_APPLICATION ([CHR 0x27] @ serial @ [CHR 0x27] @ '' is already tracked under '' @ [CHR 0x27] @ owner @ [CHR 0x27] @ ''.'')
                 (error_dict ''device_tracked'' ''untrack the device before changing its identity''
                    [(''serial'', JStr serial), (''tracked_under'', JList (map JStr (owner # others)))]))))"

text \<open>\<open>_identity_provision\<close> and \<open>_identity_clear\<close> are one body: the state wanted, the operation's word in
  the lock, the write, and the state afterwards.\<close>

definition identity_write ::
  "track_error caller_env \<Rightarrow> 'w provisioner list \<Rightarrow> string \<Rightarrow> string \<Rightarrow> ('w provisioner \<Rightarrow> string \<Rightarrow> 'w \<Rightarrow> (string + string) \<times> 'w) \<Rightarrow> string \<Rightarrow>
   (string \<times> json) list \<Rightarrow> 'w agent_world \<Rightarrow> method_end \<times> 'w agent_world" where
  "identity_write env provs want verb act after args w =
     (case require_str args ''serial'' of
        Inl e \<Rightarrow> (e, w)
      | Inr serial \<Rightarrow>
          (case identity_claimant provs serial want of
             Inl e \<Rightarrow> (e, w)
           | Inr p \<Rightarrow>
               (case identity_untracked env serial (aw_track w) of
                  Some e \<Rightarrow> (e, w)
                | None \<Rightarrow>
                    (case exclusively (ce_party env) (ce_pid env) (verb @ '' '' @ serial) (ce_now env) (act p serial) (aw_track w) of
                       (Inl e, tw) \<Rightarrow> (rpc_end env e, w\<lparr>aw_track := tw\<rparr>)
                     | (Inr new, tw) \<Rightarrow>
                         (Gave (JObj [(''serial'', JStr new), (''prior_serial'', JStr serial), (''state'', JStr after)]),
                          w\<lparr>aw_track := tw, aw_changed := aw_changed w + 1\<rparr>)))))"

definition identity_provision ::
  "track_error caller_env \<Rightarrow> 'w provisioner list \<Rightarrow> (string \<times> json) list \<Rightarrow> 'w agent_world \<Rightarrow> method_end \<times> 'w agent_world" where
  "identity_provision env provs args = identity_change (identity_write env provs ''unprovisioned'' ''provision'' pv_provision ''provisioned'' args)"

definition identity_clear ::
  "track_error caller_env \<Rightarrow> 'w provisioner list \<Rightarrow> (string \<times> json) list \<Rightarrow> 'w agent_world \<Rightarrow> method_end \<times> 'w agent_world" where
  "identity_clear env provs args = identity_change (identity_write env provs ''provisioned'' ''clear'' pv_clear ''unprovisioned'' args)"

text \<open>\<open>fw.serial.add\<close>: a bus device that is no MCU is refused, then \<open>tracking.add_serial\<close>, which may
  provision only where the identity methods are offered.\<close>

definition not_an_mcu :: "bus_device list \<Rightarrow> string \<Rightarrow> method_end option" where
  "not_an_mcu sweep serial =
     (case find (\<lambda>d. bd_serial d = serial) sweep of
        None \<Rightarrow> None
      | Some d \<Rightarrow>
          if is_mcu d then None
          else Some (EndsRpc ERR_APPLICATION (serial @ '' is on the bus but does not look like a Klipper or Katapult board (it enumerates as '' @
                 [CHR 0x27] @ bd_fw d @ [CHR 0x27] @ ''). Refusing to track it - building firmware for a USB serial adapter cannot end well.'')
               (error_dict ''not_an_mcu'' ''device is not a Klipper or Katapult board''
                  [(''serial'', JStr serial), (''fw'', JStr (bd_fw d)), (''path'', JStr (bd_path d))])))"

definition track_reply :: "string \<Rightarrow> tracked \<Rightarrow> json" where
  "track_reply name t =
     JObj ([(''name'', JStr name), (''serial'', JStr (tk_serial t)), (''added'', JBool (tk_added t)), (''chipset'', JStr (tk_chipset t))] @
       (case tk_provisioned_from t of None \<Rightarrow> [] | Some old \<Rightarrow> [(''prior_serial'', JStr old)]))"

definition serial_add ::
  "track_error caller_env \<Rightarrow> (string, 'w helper) dict \<Rightarrow> bool \<Rightarrow> settings \<Rightarrow> bus_device list \<Rightarrow>
   (string \<times> json) list \<Rightarrow> 'w agent_world \<Rightarrow> method_end \<times> 'w agent_world" where
  "serial_add env table has_runner s sweep args = identity_change (\<lambda>w.
     case and_then (require_str args ''name'') (\<lambda>name. and_then (require_str args ''serial'') (\<lambda>serial. Inr (name, serial))) of
       Inl e \<Rightarrow> (e, w)
     | Inr (name, serial) \<Rightarrow>
         (case not_an_mcu sweep serial of
            Some e \<Rightarrow> (e, w)
          | None \<Rightarrow>
              (case track_serial (ce_party env) (ce_pid env) (ce_now env) table (hardware_writes_allowed has_runner s) name serial (aw_track w) of
                 (Inl (Unprovisioned sn why), tw) \<Rightarrow> (rpc_end env (Unprovisioned sn why), w\<lparr>aw_track := tw\<rparr>)
               | (Inl e, tw) \<Rightarrow> (updater_end env e, w\<lparr>aw_track := tw\<rparr>)
               | (Inr t, tw) \<Rightarrow> (Gave (track_reply name t), w\<lparr>aw_track := tw, aw_changed := aw_changed w + 1\<rparr>))))"

subsection \<open>Exactly what is advertised is served\<close>

lemma capabilities_iff: "m \<in> set (capabilities has_runner s) \<longleftrightarrow> dict_get (available_methods has_runner s) m \<noteq> None"
  by (simp add: capabilities_def map_of_eq_None_iff)

lemma available_attr: "dict_get (available_methods has_runner s) m = Some attr \<Longrightarrow> dict_get METHODS m = Some attr"
  by (simp add: available_get split: if_splits)

text \<open>C19: exactly the advertised methods are served. A request for a method in the capabilities list runs that
  method's handler, once, on the arguments given; any other name is answered with method not found
  and nothing runs. The list lacks the job methods when there is no runner, the flash methods when
  flashing is disabled, and the identity methods unless there is a runner and flashing is enabled.\<close>

theorem advertised_is_served:
  "dispatch has_runner s handlers (JStr m) (JObj args) w =
     (if m \<in> set (capabilities has_runner s) then handlers (the (dict_get METHODS m)) args w
      else (EndsRpc ERR_METHOD_NOT_FOUND (''unknown method '' @ [CHR 0x27] @ m @ [CHR 0x27]) JNull, w)) \<and>
   (m \<in> set (capabilities has_runner s) \<longleftrightarrow> m \<in> set (dict_keys METHODS) \<and>
      (has_runner \<or> m \<notin> set JOB_METHODS) \<and> (enable_flashing s \<or> m \<notin> set FLASH_METHODS) \<and>
      (has_runner \<and> enable_flashing s \<or> m \<notin> set HARDWARE_METHODS))"
proof -
  have "m \<in> set (dict_keys METHODS) \<longleftrightarrow> dict_get METHODS m \<noteq> None" by (simp add: map_of_eq_None_iff)
  then show ?thesis
    by (auto simp: dispatch_def capabilities_iff method_not_found_def available_get split: option.splits if_splits)
qed

theorem advertised_is_served_witness:
  "dispatch True default_settings (\<lambda>attr args n. (Gave JNull, n + 1)) (JStr ''fw.flash'') (JObj []) (0 :: nat) =
     (EndsRpc ERR_METHOD_NOT_FOUND (''unknown method '' @ [CHR 0x27] @ ''fw.flash'' @ [CHR 0x27]) JNull, 0) \<and>
   ''fw.flash'' \<notin> set (capabilities True default_settings)"
proof -
  note a = advertised_is_served[of True default_settings "\<lambda>attr args n. (Gave JNull, n + 1)" "''fw.flash''" "[]" "0 :: nat"]
  have "\<not> enable_flashing default_settings" "''fw.flash'' \<in> set FLASH_METHODS" by (simp_all add: default_settings_def FLASH_METHODS_def)
  then have "''fw.flash'' \<notin> set (capabilities True default_settings)" using a[THEN conjunct2] by blast
  with a[THEN conjunct1] show ?thesis by simp
qed

subsection \<open>Tracking a serial writes no board where flashing is not allowed\<close>

abbreviation boards :: "'w agent_world \<Rightarrow> 'w" where "boards w \<equiv> tw_boards (aw_track w)"

lemma track_keeps_boards: "tw_boards (snd (track_serial me pid now table False name serial tw)) = tw_boards tw"
proof (rule ccontr)
  obtain r tw' where t: "track_serial me pid now table False name serial tw = (r, tw')" by fastforce
  obtain r1 w1 where p: "provision_first me pid now table False name serial tw = (r1, w1)" by fastforce
  assume "tw_boards (snd (track_serial me pid now table False name serial tw)) \<noteq> tw_boards tw"
  then have "tw_boards tw' \<noteq> tw_boards tw" using t by simp
  moreover have "w1 = tw"
    using p by (auto simp: provision_first_def Let_def split: sum.splits option.splits if_splits)
  ultimately show False
    using t p record_locked_boards[of me pid now name _ w1]
    by (auto simp: track_serial_def split: sum.splits prod.splits) (metis snd_conv)+
qed

lemma serial_add_keeps_boards:
  assumes "\<not> hardware_writes_allowed has_runner s"
  shows "boards (snd (serial_add env table has_runner s sweep args w)) = boards w"
proof -
  have "tw_boards (snd (track_serial me pid now table (hardware_writes_allowed has_runner s) name serial tw)) = tw_boards tw" for me pid now name serial and tw :: "'a track_world"
    using track_keeps_boards assms by simp
  note keep = this[unfolded surjective_pairing[symmetric]]
  have keep': "track_serial me pid now table (hardware_writes_allowed has_runner s) name serial tw = (r, tw') \<Longrightarrow> tw_boards tw' = tw_boards tw"
    for me pid now name serial r tw' and tw :: "'a track_world" using keep[of me pid now name serial tw] by simp
  show ?thesis
    by (auto simp: serial_add_def identity_change_def split: sum.splits option.splits prod.splits track_error.splits dest: keep')
qed

subsection \<open>An identity is written only when nothing stands against it\<close>

lemma states_get:
  assumes "distinct (map pv_name provs)" and "p \<in> set provs"
  shows "dict_get (identity_states provs serial) (pv_name p) = Some (pv_state p serial)"
proof -
  have "dict_get (foldl (\<lambda>d p. dict_set d (pv_name p) (pv_state p serial)) d ps) (pv_name p) =
      (if p \<in> set ps then Some (pv_state p serial) else dict_get d (pv_name p))"
    if "distinct (map pv_name ps)" "\<forall>q \<in> set ps. pv_name q = pv_name p \<longrightarrow> q = p" for ps d
    using that by (induction ps arbitrary: d) auto
  moreover have "\<forall>q \<in> set provs. pv_name q = pv_name p \<longrightarrow> q = p"
    using assms by (metis distinct_map inj_onD)
  ultimately show ?thesis using assms by (simp add: identity_states_def)
qed

lemma claimant_iff:
  assumes "distinct (map pv_name provs)"
  shows "identity_claimant provs serial want = Inr p \<longleftrightarrow> filter (\<lambda>q. pv_state q serial = Some want) provs = [p]"
proof -
  have "filter (\<lambda>q. dict_get (identity_states provs serial) (pv_name q) = Some (Some want)) provs = filter (\<lambda>q. pv_state q serial = Some want) provs"
    by (rule filter_cong) (auto simp: states_get[OF assms])
  then show ?thesis by (auto simp: identity_claimant_def Let_def split: list.splits)
qed

lemma untracked_iff:
  "identity_untracked env serial tw = None \<longleftrightarrow>
     (\<exists>rg. registry_load (Inr (tw_file tw)) = Inr rg \<and> (\<forall>t. \<not> declared_under (rg_doc rg) t serial))"
proof (cases "registry_load (Inr (tw_file tw))")
  case (Inr rg)
  have "find_declared_types_for_serial rg serial = [] \<longleftrightarrow> (\<forall>t. \<not> declared_under (rg_doc rg) t serial)"
    using find_declared[of _ rg serial] by (metis empty_iff empty_set list.set_intros(1) neq_Nil_conv)
  with Inr show ?thesis by (auto simp: identity_untracked_def split: list.splits)
qed (simp add: identity_untracked_def)

lemma identity_write_effect:
  assumes "distinct (map pv_name provs)"
    and "identity_change (identity_write env provs want verb act after args) w = (r, w')" and "boards w' \<noteq> boards w"
  shows "\<not> aw_identity w \<and> \<not> aw_identity w' \<and> lf_owner (tw_op_lock (aw_track w)) = None \<and> lf_owner (tw_op_lock (aw_track w')) = None \<and>
    (\<exists>serial p rg. require_str args ''serial'' = Inr serial \<and> filter (\<lambda>q. pv_state q serial = Some want) provs = [p] \<and>
       registry_load (Inr (tw_file (aw_track w))) = Inr rg \<and> (\<forall>t. \<not> declared_under (rg_doc rg) t serial) \<and>
       boards w' = snd (act p serial (boards w)) \<and>
       (\<forall>v. r = Gave v \<longrightarrow> (\<exists>new. fst (act p serial (boards w)) = Inr new \<and>
          v = JObj [(''serial'', JStr new), (''prior_serial'', JStr serial), (''state'', JStr after)])))"
proof -
  let ?w = "w\<lparr>aw_identity := True\<rparr>"
  have free: "\<not> aw_identity w" using assms(2,3) by (auto simp: identity_change_def split: if_splits)
  obtain e w1 where i: "identity_write env provs want verb act after args ?w = (e, w1)" by fastforce
  with assms(2) free have r: "r = e" "w' = w1\<lparr>aw_identity := False\<rparr>" by (auto simp: identity_change_def)
  have ne: "boards w1 \<noteq> boards w" using assms(3) r by simp
  obtain serial where s: "require_str args ''serial'' = Inr serial" using i ne by (auto simp: identity_write_def split: sum.splits)
  obtain p where p: "identity_claimant provs serial want = Inr p" using i ne s by (auto simp: identity_write_def split: sum.splits)
  have u: "identity_untracked env serial (aw_track w) = None" using i ne s p by (auto simp: identity_write_def split: option.splits)
  let ?x = "exclusively (ce_party env) (ce_pid env) (verb @ '' '' @ serial) (ce_now env) (act p serial) (aw_track w)"
  have x: "(e, w1) = (case ?x of (Inl e, tw) \<Rightarrow> (rpc_end env e, ?w\<lparr>aw_track := tw\<rparr>)
      | (Inr new, tw) \<Rightarrow> (Gave (JObj [(''serial'', JStr new), (''prior_serial'', JStr serial), (''state'', JStr after)]), ?w\<lparr>aw_track := tw, aw_changed := aw_changed ?w + 1\<rparr>))"
    using i s p u by (simp add: identity_write_def)
  then have b: "aw_track w1 = snd ?x" by (auto split: prod.splits sum.splits)
  from exclusively_world[of "ce_party env" "ce_pid env" "verb @ '' '' @ serial" "ce_now env" "act p serial" "aw_track w"] ne b
  have l: "lf_owner (tw_op_lock (aw_track w)) = None" and bw: "boards w1 = snd (act p serial (boards w))" by simp_all
  from x l have l': "lf_owner (tw_op_lock (aw_track w1)) = None"
    and g: "\<forall>v. e = Gave v \<longrightarrow> (\<exists>new. fst (act p serial (boards w)) = Inr new \<and>
          v = JObj [(''serial'', JStr new), (''prior_serial'', JStr serial), (''state'', JStr after)])"
    by (auto simp: exclusively_def acquire_def release_def rpc_end_def split: prod.splits sum.splits)
  obtain rg where rg: "registry_load (Inr (tw_file (aw_track w))) = Inr rg" "\<forall>t. \<not> declared_under (rg_doc rg) t serial"
    using u untracked_iff by blast
  show ?thesis
    using free r l l' s p[unfolded claimant_iff[OF assms(1)]] rg bw g
    by (intro conjI exI[of _ serial] exI[of _ p] exI[of _ rg]) simp_all
qed

text \<open>C15: a board's identity is provisioned or cleared only when nothing stands against it: no other identity write or
  serial add is running and no other operation holds the lock, exactly one firmware calls the serial
  its own in the right state, and no declared type of any builder tracks it. The one write is that
  firmware's, both locks are free again afterwards, and a success reports what the write returned.\<close>

theorem identity_write_guarded:
  assumes "distinct (map pv_name provs)"
    and "(if want = ''unprovisioned'' then identity_provision env provs args w else identity_clear env provs args w) = (r, w')"
    and "want \<in> {''unprovisioned'', ''provisioned''}" and "boards w' \<noteq> boards w"
  shows "\<not> aw_identity w \<and> \<not> aw_identity w' \<and> lf_owner (tw_op_lock (aw_track w)) = None \<and> lf_owner (tw_op_lock (aw_track w')) = None \<and>
    (\<exists>serial p rg act. act = (if want = ''unprovisioned'' then pv_provision p else pv_clear p) \<and>
       require_str args ''serial'' = Inr serial \<and> filter (\<lambda>q. pv_state q serial = Some want) provs = [p] \<and>
       registry_load (Inr (tw_file (aw_track w))) = Inr rg \<and> (\<forall>t. \<not> declared_under (rg_doc rg) t serial) \<and>
       boards w' = snd (act serial (boards w)) \<and>
       (\<forall>v. r = Gave v \<longrightarrow> (\<exists>new kvs. fst (act serial (boards w)) = Inr new \<and> v = JObj kvs \<and> jget kvs ''serial'' = JStr new)))"
proof (cases "want = ''unprovisioned''")
  case True
  with assms(2) have "identity_change (identity_write env provs want ''provision'' pv_provision ''provisioned'' args) w = (r, w')"
    by (simp add: identity_provision_def)
  from identity_write_effect[OF assms(1) this assms(4)] True show ?thesis by auto
next
  case False
  with assms(3) have w: "want = ''provisioned''" by simp
  with assms(2) have "identity_change (identity_write env provs want ''clear'' pv_clear ''unprovisioned'' args) w = (r, w')"
    by (simp add: identity_clear_def)
  from identity_write_effect[OF assms(1) this assms(4)] False show ?thesis by auto
qed

definition demo_env :: "track_error caller_env" where
  "demo_env = \<lparr>ce_party = 0, ce_pid = 1, ce_now = JNull, ce_reads = (\<lambda>_. (''refused'', JNull))\<rparr>"

definition demo_provisioner :: "nat provisioner" where
  "demo_provisioner = \<lparr>pv_name = ''rr'', pv_state = (\<lambda>s. if s = ''NEW'' then Some ''unprovisioned'' else None),
     pv_provision = (\<lambda>s n. (Inr ''RR1'', n + 1)), pv_clear = (\<lambda>s n. (Inr ''NEW'', n + 1))\<rparr>"

definition demo_agent :: "nat agent_world" where
  "demo_agent = \<lparr>aw_identity = False, aw_track = demo_world, aw_changed = 0\<rparr>"

lemma demo_identity:
  "boards demo_agent = 0"
  "boards (snd (identity_provision demo_env [demo_provisioner] [(''serial'', JStr ''NEW'')] demo_agent)) = 1"
  by code_simp+

theorem identity_write_guarded_witness:
  "boards (snd (identity_provision demo_env [demo_provisioner] [(''serial'', JStr ''NEW'')] demo_agent)) = 1 \<and> \<not> aw_identity demo_agent"
proof -
  have i: "(if ''unprovisioned'' = ''unprovisioned'' then identity_provision demo_env [demo_provisioner] [(''serial'', JStr ''NEW'')] demo_agent
      else identity_clear demo_env [demo_provisioner] [(''serial'', JStr ''NEW'')] demo_agent) =
      (fst (identity_provision demo_env [demo_provisioner] [(''serial'', JStr ''NEW'')] demo_agent),
       snd (identity_provision demo_env [demo_provisioner] [(''serial'', JStr ''NEW'')] demo_agent))" by simp
  show ?thesis
    using identity_write_guarded[OF _ i] demo_identity by simp
qed

subsection \<open>Reading a job\<close>

text \<open>\<open>job_get\<close>: a slice of the log from where the caller has got to. \<open>int(raw_from)\<close> refuses what is no
  number, and a negative start is the beginning.\<close>

definition log_start :: "(string \<times> json) list \<Rightarrow> method_end + nat" where
  "log_start args =
     (case jget args ''log_from'' of
        JNull \<Rightarrow> Inr 0
      | raw \<Rightarrow>
          (case int_of raw of
             None \<Rightarrow> Inl (EndsRpc ERR_INVALID_PARAMS ([CHR 0x27] @ ''log_from'' @ [CHR 0x27] @ '' must be an integer'') JNull)
           | Some i \<Rightarrow> Inr (nat i)))"

definition line_json :: "log_line \<Rightarrow> json" where
  "line_json l = JObj [(''i'', JInt (int (ll_seq l))), (''s'', JStr (ll_stream l)), (''t'', JStr (ll_text l))]"

text \<open>The jobs by id, each as its \<open>to_dict()\<close> and its log, and the running one; \<open>None\<close> for an agent with no runner.\<close>

definition job_get :: "((string \<Rightarrow> (json \<times> log_ring) option) \<times> string option) option \<Rightarrow> (string \<times> json) list \<Rightarrow> method_end" where
  "job_get runner args =
     (case runner of
        None \<Rightarrow> EndsRpc ERR_METHOD_NOT_FOUND ''this agent is running read-only; no job runner is available'' JNull
      | Some (by_id, current) \<Rightarrow>
          (let job_id = jget args ''job_id'' in
           case (if truthy job_id then by_id (py_str job_id) else Option.bind current by_id) of
             None \<Rightarrow> EndsRpc ERR_APPLICATION (if truthy job_id then ''no such job: '' @ py_str job_id else ''no job is running'')
                      (error_dict ''unknown_job'' ''job not found'' [])
           | Some (job, ring) \<Rightarrow>
               (case log_start args of
                  Inl e \<Rightarrow> e
                | Inr start \<Rightarrow>
                    (case log_since ring start of
                       (ls, served, nxt) \<Rightarrow>
                         Gave (JObj [(''job'', job), (''log'', JList (map line_json ls)), (''log_from'', JInt (int served)),
                           (''log_next'', JInt (int nxt)), (''log_dropped'', JInt (int (lr_dropped ring)))])))))"

text \<open>A client that has seen the first \<open>k\<close> lines and asks from there gets exactly the later ones the ring still
  holds, and the reply names the first one served.\<close>

lemma job_get_recovers:
  assumes "by_id (py_str job_id) = Some (job, log_all (new_ring n) ls)" and "truthy job_id" and "k \<le> length ls"
  shows "job_get (Some (by_id, current)) [(''job_id'', job_id), (''log_from'', JInt (int k))] =
    Gave (JObj [(''job'', job), (''log'', JList (map line_json (drop (max k (length ls - n)) (numbered ls)))),
      (''log_from'', JInt (int (max k (length ls - n)))), (''log_next'', JInt (int (length ls))), (''log_dropped'', JInt (int (length ls - n)))])"
proof -
  note x = log_since_exact[of n ls k, unfolded Let_def]
  obtain a b c where s: "log_since (log_all (new_ring n) ls) k = (a, b, c)" by (metis prod_cases3)
  show ?thesis using x assms s by (auto simp: job_get_def log_start_def)
qed

end
