(* ===== verification/AgentSettings.thy ===== *)
theory AgentSettings
  imports AgentApi
begin

section \<open>Changing the settings from the panel (agent/methods/registry.py, settings part)\<close>

text \<open>
  \<open>fw.settings.set\<close> takes an object of values: every key must be one of \<open>SETTABLE\<close> and every value is
  coerced before the lock is taken; the change is made inside \<open>settings.mutate\<close>. \<open>fw.bus.ignore\<close> and its
  three siblings edit one list the same way.
\<close>

subsection \<open>Coercion\<close>

definition SETTABLE :: "string list" where
  "SETTABLE = [''make_jobs'', ''clean_before_build'', ''reseed_on_build'', ''dry_run'', ''enable_flashing'',
     ''allow_flash_while_printing'', ''log_ring_size'', ''ui_accent_color'']"

definition LOUD_SETTINGS :: "string list" where
  "LOUD_SETTINGS = [''enable_flashing'', ''allow_flash_while_printing'']"

definition hex_char :: "char \<Rightarrow> bool" where
  "hex_char c = (hex_digit c \<noteq> None)"

text \<open>\<open>_HEX_COLOR.match\<close>, the pattern \<open>^#[0-9a-fA-F]{6}$\<close>: its \<open>$\<close> also matches before a final line feed.\<close>

definition hex_colour :: "string \<Rightarrow> bool" where
  "hex_colour s =
     (let t = (if length s = 8 \<and> last s = CHR 0x0A then butlast s else s) in
      length t = 7 \<and> hd t = CHR ''#'' \<and> list_all hex_char (tl t))"

definition invalid :: "string \<Rightarrow> method_end" where
  "invalid m = EndsRpc ERR_INVALID_PARAMS m JNull"

definition quote :: "string \<Rightarrow> string" where "quote s = [CHR 0x27] @ s @ [CHR 0x27]"

definition coerce_setting :: "string \<Rightarrow> json \<Rightarrow> method_end + field_value" where
  "coerce_setting key raw =
     (if key \<in> set BOOL_FIELDS then
        (case raw of JBool b \<Rightarrow> Inr (FBool b) | _ \<Rightarrow> Inl (invalid (quote key @ '' must be true or false'')))
      else if key \<in> set STR_FIELDS then
        (case raw of
           JStr t \<Rightarrow>
             if key = ''ui_accent_color'' \<and> t \<noteq> [] \<and> \<not> hex_colour t
             then Inl (invalid (quote ''ui_accent_color'' @ '' must be empty (the UI's own default) or a 6-digit hex colour like '' @ quote ''#2196f3''))
             else Inr (FStr t)
         | _ \<Rightarrow> Inl (invalid (quote key @ '' must be a string'')))
      else
        (case raw of
           JInt i \<Rightarrow>
             if key = ''make_jobs'' then
               (if i < -1 \<or> i > 64 then Inl (invalid (quote key @ '' must be between -1 and 64 (-1 = one per CPU, 0 = no -j flag)'')) else Inr (FInt i))
             else if key = ''log_ring_size'' then
               (if i < 100 \<or> i > 100000 then Inl (invalid (quote key @ '' must be between 100 and 100000'')) else Inr (FInt i))
             else Inl (invalid (quote key @ '' cannot be set''))
         | _ \<Rightarrow> Inl (invalid (quote key @ '' must be a whole number''))))"

fun coerce_all :: "(string \<times> json) list \<Rightarrow> method_end + (string \<times> field_value) list" where
  "coerce_all [] = Inr []"
| "coerce_all ((key, raw) # rest) =
     and_then (coerce_setting key raw) (\<lambda>v. and_then (coerce_all rest) (\<lambda>vs. Inr ((key, v) # vs)))"

subsection \<open>The change\<close>

fun set_field :: "string \<Rightarrow> field_value \<Rightarrow> settings \<Rightarrow> settings" where
  "set_field key (FBool b) s = set_bool key b s"
| "set_field key (FInt i) s = set_int key i s"
| "set_field key (FStr t) s = set_str key t s"
| "set_field key _ s = s"

definition set_fields :: "(string \<times> field_value) list \<Rightarrow> settings \<Rightarrow> settings" where
  "set_fields vs s = foldl (\<lambda>s (k, v). set_field k v s) s vs"

fun field_json :: "field_value \<Rightarrow> json" where
  "field_json (FInt i) = JInt i"
| "field_json (FBool b) = JBool b"
| "field_json (FStr t) = JStr t"
| "field_json (FList None) = JNull"
| "field_json (FList (Some xs)) = JList (map JStr xs)"
| "field_json NoField = JNull"

text \<open>\<open>dataclasses.asdict(settings)\<close>.\<close>

definition settings_json :: "settings \<Rightarrow> json" where
  "settings_json s = JObj (map (\<lambda>f. (f, field_json (field_of s f))) all_fields)"

definition settings_get :: "string + string option \<Rightarrow> method_end" where
  "settings_get file = Gave (JObj [(''settings'', settings_json (agent_settings file))])"

text \<open>The value, the file and lock after it, and what was logged as a warning. \<open>path\<close> is the settings file's path.\<close>

definition settings_set ::
  "settings_error caller_env \<Rightarrow> string \<Rightarrow> (string \<times> json) list \<Rightarrow> lock_file \<times> string option \<Rightarrow>
   method_end \<times> (lock_file \<times> string option) \<times> string list" where
  "settings_set env path args st =
     (case jget args ''settings'' of
        JObj (kv # kvs) \<Rightarrow>
          (let patch = kv # kvs; unknown = filter (\<lambda>k. k \<notin> set SETTABLE) (map fst patch) in
           if unknown \<noteq> [] then
             (EndsRpc ERR_APPLICATION (''cannot set '' @ join '', '' (sort unknown) @ '' from here. Settable: '' @ join '', '' SETTABLE @
                  ''. 'stop_services' and 'service_backend' describe how this host is wired and are edited in '' @ path @ ''.'')
                (error_dict ''setting_not_settable'' ''one or more settings cannot be changed remotely''
                   [(''rejected'', JList (map JStr (sort unknown))), (''settable'', JList (map JStr SETTABLE))]), st, [])
           else
             (case coerce_all patch of
                Inl e \<Rightarrow> (e, st, [])
              | Inr values \<Rightarrow>
                  (case settings_mutate (ce_party env) (ce_pid env) ''set settings'' (ce_now env) (\<lambda>s. Inr (set_fields values s)) st of
                     (st', Inl e) \<Rightarrow> (updater_end env e, st', [])
                   | (st', Inr _) \<Rightarrow>
                       (case and_then (settings_doc (Inr (snd st))) settings_of_doc of
                          Inl e \<Rightarrow> (updater_end env e, st', [])
                        | Inr before \<Rightarrow>
                            (let changed = map fst (filter (\<lambda>(k, v). v \<noteq> field_of before k) values) in
                             (Gave (JObj [(''settings'', settings_json (set_fields values before)), (''changed'', JList (map JStr (sort changed)))]), st',
                              map (\<lambda>k. k @ '' was changed to '' @ py_str (field_json (the (map_of values k))) @ '' from the panel'')
                                (filter (\<lambda>k. k \<in> set changed) LOUD_SETTINGS)))))))
      | _ \<Rightarrow> (invalid (quote ''settings'' @ '' must be a non-empty object of the values to change''), st, []))"

text \<open>The four ignore and unignore methods: one list of words, one word in or out of it.\<close>

definition ignore_word :: "bool \<Rightarrow> string \<Rightarrow> string list \<Rightarrow> string list \<times> bool" where
  "ignore_word hide w ws =
     (if hide then (if w \<notin> set ws then (ws @ [w], True) else (ws, False))
      else (if w \<in> set ws then (remove1 w ws, True) else (ws, False)))"

definition ignore_change :: "bool \<Rightarrow> bool \<Rightarrow> string \<Rightarrow> settings \<Rightarrow> settings" where
  "ignore_change can hide w s =
     (if can then s\<lparr>ignored_canbus_uuids := fst (ignore_word hide w (ignored_canbus_uuids s))\<rparr>
      else s\<lparr>ignored_serials := fst (ignore_word hide w (ignored_serials s))\<rparr>)"

definition ignore_set ::
  "settings_error caller_env \<Rightarrow> bool \<Rightarrow> bool \<Rightarrow> (string \<times> json) list \<Rightarrow> lock_file \<times> string option \<Rightarrow>
   method_end \<times> lock_file \<times> string option" where
  "ignore_set env can hide args st =
     (let key = (if can then ''uuid'' else ''serial'') in
      case require_str args key of
        Inl e \<Rightarrow> (e, st)
      | Inr w \<Rightarrow>
          (case settings_mutate (ce_party env) (ce_pid env)
                  ((if hide then ''ignore '' else ''unignore '') @ (if can then ''canbus uuid '' else ''serial '') @ w) (ce_now env)
                  (\<lambda>s. Inr (ignore_change can hide w s)) st of
             (st', Inl e) \<Rightarrow> (updater_end env e, st')
           | (st', Inr _) \<Rightarrow> (Gave (JObj [(key, JStr w), (''ignored'', JBool hide)]), st')))"

lemma ignore_idempotent:
  "fst (ignore_word hide w (fst (ignore_word True w ws))) = (if hide then fst (ignore_word True w ws) else if w \<in> set ws then remove1 w ws else ws)"
  by (simp add: ignore_word_def remove1_append)

subsection \<open>Only what was named is changed\<close>

lemma settable_fields: "key \<in> set SETTABLE \<Longrightarrow> key \<in> set BOOL_FIELDS \<or> key = ''ui_accent_color'' \<or> key = ''make_jobs'' \<or> key = ''log_ring_size''"
  by (auto simp: SETTABLE_def BOOL_FIELDS_def)

lemma coerced_field:
  assumes "key \<in> set SETTABLE" and "coerce_setting key raw = Inr v"
  shows "field_of (set_field key v s) g = (if g = key then v else field_of s g)"
proof -
  consider "key \<in> set BOOL_FIELDS" | "key = ''ui_accent_color''" | "key = ''make_jobs'' \<or> key = ''log_ring_size''"
    using settable_fields[OF assms(1)] by blast
  then show ?thesis
  proof cases
    case 1
    then obtain b where "v = FBool b" using assms(2) by (auto simp: coerce_setting_def split: json.splits)
    with set_field(1)[OF 1, of b s g] show ?thesis by simp
  next
    case 2
    have "''ui_accent_color'' \<in> set STR_FIELDS" "''ui_accent_color'' \<notin> set BOOL_FIELDS" by code_simp+
    with 2 assms(2) obtain u where "v = FStr u" by (auto simp: coerce_setting_def split: json.splits if_splits)
    with set_field(3)[of key u s g] 2 \<open>''ui_accent_color'' \<in> set STR_FIELDS\<close> show ?thesis by simp
  next
    case 3
    then have k: "key \<in> set INT_FIELDS" "key \<notin> set BOOL_FIELDS" "key \<notin> set STR_FIELDS"
      by (auto simp: INT_FIELDS_def BOOL_FIELDS_def STR_FIELDS_def)
    then obtain i where "v = FInt i" using assms(2) by (auto simp: coerce_setting_def split: json.splits if_splits)
    with set_field(2)[OF k(1), of i s g] show ?thesis by simp
  qed
qed

lemma hex_char_plain: "hex_char c \<Longrightarrow> \<not> is_space c \<and> \<not> comment_char c"
  by (auto simp: hex_char_def hex_digit_def is_space_def comment_char_def Let_def split: if_splits)

lemma coerced_good:
  assumes "key \<in> set SETTABLE" and "coerce_setting key raw = Inr v" and "good_settings s"
    and "\<forall>t. raw = JStr t \<longrightarrow> CHR 0x0A \<notin> set t"
  shows "good_settings (set_field key v s)"
proof (cases "key = ''ui_accent_color''")
  case False
  then have "(\<exists>b. v = FBool b) \<or> (\<exists>i. v = FInt i)"
    using settable_fields[OF assms(1)] assms(2) by (auto simp: coerce_setting_def BOOL_FIELDS_def STR_FIELDS_def split: json.splits if_splits)
  then show ?thesis using assms(3) by (auto simp: good_settings_def set_bool_def set_int_def split: if_splits)
next
  case True
  then obtain t where t: "raw = JStr t" "v = FStr t" "t = [] \<or> hex_colour t"
    using assms(2) by (auto simp: coerce_setting_def BOOL_FIELDS_def STR_FIELDS_def split: json.splits if_splits)
  have "good_colour t"
  proof (cases "t = []")
    case False
    have "last t \<noteq> CHR 0x0A" using assms(4) t(1) False last_in_set by metis
    then have h: "length t = 7" "hd t = CHR ''#''" "list_all hex_char (tl t)" using t(3) False by (auto simp: hex_colour_def split: if_splits)
    have ne: "tl t \<noteq> []" using h(1) by (cases t) auto
    have hc: "hex_char (hd (tl t))" using h(3) ne by (cases "tl t") auto
    have "listable (tl t)" using nonspace_plain[OF ne] h(3) hc hex_char_plain by (auto simp: list_all_iff)
    moreover have "hd (tl t) \<noteq> CHR ''#''" using hex_char_plain[OF hc] by (auto simp: comment_char_def)
    ultimately show ?thesis using h(2) by (simp add: good_colour_def)
  qed (simp add: good_colour_def)
  with assms(3) True t show ?thesis by (simp add: good_settings_def set_str_def)
qed

lemma coerce_errors: "coerce_all kvs = Inl e \<Longrightarrow> e \<noteq> Gave v"
  by (induction kvs arbitrary: e rule: coerce_all.induct)
     (auto simp: coerce_setting_def invalid_def and_then_def split: sum.splits json.splits if_splits)

lemma coerce_all_get: "coerce_all kvs = Inr vs \<Longrightarrow> map fst vs = map fst kvs \<and> list_all2 (\<lambda>(k, raw) (k', v). k = k' \<and> coerce_setting k raw = Inr v) kvs vs"
  by (induction kvs arbitrary: vs rule: coerce_all.induct) auto

lemma set_fields_field:
  assumes "coerce_all kvs = Inr vs" and "dict_wf kvs" and "set (map fst kvs) \<subseteq> set SETTABLE"
  shows "field_of (set_fields vs s) g = (case map_of vs g of None \<Rightarrow> field_of s g | Some v \<Rightarrow> v)"
  using assms
proof (induction kvs arbitrary: vs s)
  case (Cons kv kvs)
  obtain key raw where kv: "kv = (key, raw)" by fastforce
  with Cons.prems(1) obtain v ws where v: "coerce_setting key raw = Inr v" "coerce_all kvs = Inr ws" "vs = (key, v) # ws" by auto
  have n: "key \<notin> set (map fst kvs)" "dict_wf kvs" "set (map fst kvs) \<subseteq> set SETTABLE" "key \<in> set SETTABLE"
    using Cons.prems(2,3) kv by (auto simp: dict_wf_def)
  have "map_of ws key = None" using coerce_all_get[OF v(2)] n(1) by (metis list.set_map map_of_eq_None_iff)
  with Cons.IH[OF v(2) n(2,3), of "set_field key v s"] coerced_field[OF n(4) v(1), of s g] v(3)
  show ?case by (auto simp: set_fields_def split: option.splits)
qed (simp add: set_fields_def)

lemma set_fields_good:
  assumes "coerce_all kvs = Inr vs" and "set (map fst kvs) \<subseteq> set SETTABLE" and "good_settings s"
    and "\<forall>k t. (k, JStr t) \<in> set kvs \<longrightarrow> CHR 0x0A \<notin> set t"
  shows "good_settings (set_fields vs s)"
  using assms
proof (induction kvs arbitrary: vs s)
  case (Cons kv kvs)
  obtain key raw where kv: "kv = (key, raw)" by fastforce
  with Cons.prems(1) obtain v ws where v: "coerce_setting key raw = Inr v" "coerce_all kvs = Inr ws" "vs = (key, v) # ws" by auto
  have "good_settings (set_field key v s)" using coerced_good[OF _ v(1) Cons.prems(3)] Cons.prems(2,4) kv by auto
  from Cons.IH[OF v(2) _ this] Cons.prems(2,4) v(3) show ?case by (auto simp: set_fields_def)
qed (simp add: set_fields_def)

lemma read_settings_freeze: "read_settings (freeze d) ks s = read_settings d ks s"
proof (induction ks arbitrary: s)
  case (Cons k ks)
  have g: "cfg_get (freeze d) = cfg_get d" "get_csv (freeze d) = get_csv d"
    by (intro ext; simp add: freeze_def cfg_get_def get_csv_def)+
  have "read_setting (freeze d) k s = read_setting d k s" unfolding read_setting_def g ..
  with Cons show ?case by (cases "read_setting d k s") simp_all
qed simp

lemma settings_of_freeze: "settings_of_doc (freeze d) = settings_of_doc d"
proof -
  have g: "cfg_get (freeze d) = cfg_get d" "has_section (freeze d) = has_section d" "options_of (freeze d) = options_of d"
    by (intro ext; simp add: freeze_def cfg_get_def has_section_def options_of_def)+
  have "d_dups (freeze d) = d_dups d" by (simp add: freeze_def)
  then show ?thesis unfolding settings_of_doc_def g read_settings_freeze by simp
qed

text \<open>C16: \<open>fw.settings.set\<close> changes what it names and nothing else. When it answers with a value, every key it was
  given is one the panel may set, the settings read back from the file it left are those from before
  with exactly those keys changed, each to its coerced value - so the services a flash stops and how
  they are controlled are out of its reach - and no other section and no key that is not a setting
  reads differently. Any refusal of a key or a value leaves the file as it was.\<close>

theorem settings_set_sound:
  assumes "settings_set env path args (l, Some text) = (r, (l', file'), warned)"
    and "jget args ''settings'' = JObj kvs" and "dict_wf kvs" and "\<forall>k t. (k, JStr t) \<in> set kvs \<longrightarrow> CHR 0x0A \<notin> set t"
    and "store_ok (parse_doc text)" and "\<forall>k \<in> set (options_of (parse_doc text) SETTINGS_SECTION). undash k = k"
    and "load_settings (Inr (Some text)) = Inr before" and "good_settings before"
  shows "(\<forall>v. r = Gave v \<longrightarrow> set (dict_keys kvs) \<subseteq> set SETTABLE \<and>
      (\<exists>after text'. file' = Some text' \<and> load_settings (Inr file') = Inr after \<and>
         (\<forall>k. k \<notin> set (dict_keys kvs) \<longrightarrow> field_of after k = field_of before k) \<and>
         (\<forall>k raw. (k, raw) \<in> set kvs \<longrightarrow> coerce_setting k raw = Inr (field_of after k)) \<and>
         (\<forall>sec k. sec \<noteq> SETTINGS_SECTION \<or> k \<notin> set (LEGACY_SERVICE_KEY # all_fields) \<longrightarrow>
            cfg_get (parse_doc text') sec k None = cfg_get (parse_doc text) sec k None))) \<and>
    (\<not> (\<exists>v. r = Gave v) \<longrightarrow> file' = Some text)"
proof (cases "\<exists>v. r = Gave v")
  case False
  have "file' = Some text"
    using assms(1) False by (auto simp: settings_set_def settings_mutate_def Let_def split: json.splits list.splits if_splits sum.splits prod.splits lock_error.splits)
  with False show ?thesis by blast
next
  case True
  then obtain v where v: "r = Gave v" by blast
  have ne: "kvs \<noteq> []" using assms(1,2) v by (auto simp: settings_set_def invalid_def)
  then obtain kv kvs' where kvs: "kvs = kv # kvs'" by (cases kvs) auto
  have unk: "filter (\<lambda>k. k \<notin> set SETTABLE) (map fst kvs) = []"
    using assms(1,2) v kvs by (auto simp: settings_set_def Let_def split: if_splits)
  then have sub: "set (map fst kvs) \<subseteq> set SETTABLE" by (auto simp: filter_empty_conv)
  obtain vs where vs: "coerce_all kvs = Inr vs"
    using assms(1,2) v kvs unk by (cases "coerce_all kvs") (auto simp: settings_set_def Let_def split: if_splits dest!: coerce_errors)
  have bd: "and_then (settings_doc (Inr (Some text))) settings_of_doc = Inr before"
    using assms(7) by (simp add: load_settings_def settings_doc_def settings_of_freeze)
  let ?after = "set_fields vs before"
  have good: "good_settings ?after" using set_fields_good[OF vs sub assms(8,4)] .
  from settings_round_trip[OF assms(5) good assms(6)] obtain d' where d': "write_settings (parse_doc text) ?after = Inr d'"
    "load_settings (Inr (Some (render_doc d'))) = Inr ?after"
    "\<forall>sec k. sec \<noteq> SETTINGS_SECTION \<or> k \<notin> set (LEGACY_SERVICE_KEY # all_fields) \<longrightarrow>
        cfg_get (parse_doc (render_doc d')) sec k None = cfg_get (parse_doc text) sec k None" by blast
  let ?m = "settings_mutate (ce_party env) (ce_pid env) ''set settings'' (ce_now env) (\<lambda>s. Inr (set_fields vs s)) (l, Some text)"
  obtain st' where m: "?m = (st', Inr ())" and st: "st' = (l', file')"
    using assms(1,2) v kvs unk vs bd by (auto simp: settings_set_def updater_end_def Let_def split: prod.splits sum.splits)
  have left: "file' = Some (if ?after = before then text else render_doc d')"
    using m st bd d'(1) by (auto simp: settings_mutate_def settings_doc_def Let_def split: sum.splits lock_error.splits if_splits)
  have load: "load_settings (Inr file') = Inr ?after" using left d'(2) assms(7) by auto
  have fields: "field_of ?after k = (case map_of vs k of None \<Rightarrow> field_of before k | Some v \<Rightarrow> v)" for k
    using set_fields_field[OF vs assms(3) sub] .
  note keys = coerce_all_get[OF vs]
  have un: "k \<notin> set (dict_keys kvs) \<longrightarrow> field_of ?after k = field_of before k" for k
    using fields[of k] keys by (metis list.set_map map_of_eq_None_iff option.simps(4))
  have nm: "coerce_setting k raw = Inr (field_of ?after k)" if "(k, raw) \<in> set kvs" for k raw
  proof -
    have "\<exists>i < length kvs. kvs ! i = (k, raw)" using that by (simp add: in_set_conv_nth)
    then obtain i where i: "i < length kvs" "kvs ! i = (k, raw)" by auto
    have l2: "list_all2 (\<lambda>(k, raw) (k', v). k = k' \<and> coerce_setting k raw = Inr v) kvs vs" using keys by blast
    obtain k' w where kw: "vs ! i = (k', w)" by fastforce
    have e: "k = k' \<and> coerce_setting k raw = Inr w"
      using list_all2_nthD[OF l2 i(1)] unfolding i(2) kw prod.case .
    have "k' = k" using e by simp
    moreover have "coerce_setting k raw = Inr w" by (rule conjunct2[OF e])
    moreover have "i < length vs" using i(1) list_all2_lengthD[OF l2] by simp
    ultimately have w: "(k, w) \<in> set vs" "coerce_setting k raw = Inr w" using kw nth_mem[of i vs] by simp_all
    have "distinct (map fst vs)" using keys assms(3) by (simp add: dict_wf_def)
    from map_of_is_SomeI[OF this w(1)] have "map_of vs k = Some w" .
    with fields[of k] w(2) show ?thesis by simp
  qed
  have frame: "\<forall>sec k. sec \<noteq> SETTINGS_SECTION \<or> k \<notin> set (LEGACY_SERVICE_KEY # all_fields) \<longrightarrow>
      cfg_get (parse_doc (if ?after = before then text else render_doc d')) sec k None = cfg_get (parse_doc text) sec k None"
    using d'(3) by simp
  have "\<exists>after text'. file' = Some text' \<and> load_settings (Inr file') = Inr after \<and>
         (\<forall>k. k \<notin> set (dict_keys kvs) \<longrightarrow> field_of after k = field_of before k) \<and>
         (\<forall>k raw. (k, raw) \<in> set kvs \<longrightarrow> coerce_setting k raw = Inr (field_of after k)) \<and>
         (\<forall>sec k. sec \<noteq> SETTINGS_SECTION \<or> k \<notin> set (LEGACY_SERVICE_KEY # all_fields) \<longrightarrow>
            cfg_get (parse_doc text') sec k None = cfg_get (parse_doc text) sec k None)"
    using left load un nm frame by (intro exI[of _ ?after] exI[of _ "if ?after = before then text else render_doc d'"] conjI) auto
  with v sub show ?thesis by auto
qed

text \<open>With the lock free and acceptable values it does answer with a value.\<close>

lemma settings_set_gives:
  assumes "lf_owner l = None" and "jget args ''settings'' = JObj (kv # kvs)" and "set (map fst (kv # kvs)) \<subseteq> set SETTABLE"
    and "coerce_all (kv # kvs) = Inr vs" and "\<forall>k t. (k, JStr t) \<in> set (kv # kvs) \<longrightarrow> CHR 0x0A \<notin> set t"
    and "store_ok (parse_doc txt)" and "\<forall>k \<in> set (options_of (parse_doc txt) SETTINGS_SECTION). undash k = k"
    and "load_settings (Inr (Some txt)) = Inr before" and "good_settings before"
  shows "\<exists>v. fst (settings_set env path args (l, Some txt)) = Gave v"
proof -
  have bd: "and_then (settings_doc (Inr (Some txt))) settings_of_doc = Inr before"
    using assms(8) by (simp add: load_settings_def settings_doc_def settings_of_freeze)
  have good: "good_settings (set_fields vs before)" using set_fields_good[OF assms(4,3,9,5)] .
  from settings_round_trip[OF assms(6) good assms(7)] obtain d' where d': "write_settings (parse_doc txt) (set_fields vs before) = Inr d'" by blast
  have m: "snd (settings_mutate (ce_party env) (ce_pid env) ''set settings'' (ce_now env) (\<lambda>s. Inr (set_fields vs s)) (l, Some txt)) = Inr ()"
    using assms(1) bd d' by (simp add: settings_mutate_def acquire_def settings_doc_def Let_def)
  have u: "filter (\<lambda>k. k \<notin> set SETTABLE) (map fst (kv # kvs)) = []" using assms(3) by (auto simp: filter_empty_conv)
  show ?thesis
    using assms(2,4) u m bd
    by (cases "settings_mutate (ce_party env) (ce_pid env) ''set settings'' (ce_now env) (\<lambda>s. Inr (set_fields vs s)) (l, Some txt)")
       (auto simp: settings_set_def Let_def simp del: and_then_eq_Inr)
qed

definition demo_updater :: string where
  "demo_updater = render_doc (doc_of_lines False [''# mine'', ''[updater]'', ''dry_run: yes'', ''[type ebb]'', ''chipset: rp2040''])"

definition demo_settings_env :: "settings_error caller_env" where
  "demo_settings_env = \<lparr>ce_party = 0, ce_pid = 1, ce_now = JNull, ce_reads = (\<lambda>_. (''refused'', JNull))\<rparr>"

definition demo_patch :: "(string \<times> json) list" where
  "demo_patch = [(''enable_flashing'', JBool True)]"

definition demo_set :: "method_end \<times> (lock_file \<times> string option) \<times> string list" where
  "demo_set = settings_set demo_settings_env ''/cfg'' [(''settings'', JObj demo_patch)] (\<lparr>lf_owner = None, lf_text = None\<rparr>, Some demo_updater)"

lemma demo_set_facts:
  "store_ok (parse_doc demo_updater)" "list_all (\<lambda>k. undash k = k) (options_of (parse_doc demo_updater) SETTINGS_SECTION)"
  "load_settings (Inr (Some demo_updater)) = Inr (default_settings\<lparr>dry_run := True\<rparr>)" "good_settings (default_settings\<lparr>dry_run := True\<rparr>)"
  by code_simp+

theorem settings_set_sound_witness:
  "\<exists>after. load_settings (Inr (snd (fst (snd demo_set)))) = Inr after \<and> field_of after ''stop_services'' = FList None \<and>
     coerce_setting ''enable_flashing'' (JBool True) = Inr (field_of after ''enable_flashing'')"
proof -
  have w: "dict_wf demo_patch" "\<forall>k t. (k, JStr t) \<in> set demo_patch \<longrightarrow> CHR 0x0A \<notin> set t"
    by (simp_all add: demo_patch_def dict_wf_def)
  have u: "\<forall>k \<in> set (options_of (parse_doc demo_updater) SETTINGS_SECTION). undash k = k"
    using demo_set_facts(2) by (simp add: list_all_iff)
  have j: "jget [(''settings'', JObj demo_patch)] ''settings'' = JObj ((''enable_flashing'', JBool True) # [])" by (simp add: demo_patch_def)
  have c: "set (map fst ((''enable_flashing'', JBool True) # [])) \<subseteq> set SETTABLE"
    "coerce_all ((''enable_flashing'', JBool True) # []) = Inr [(''enable_flashing'', FBool True)]" by code_simp+
  obtain v where v: "fst demo_set = Gave v"
    using settings_set_gives[OF _ j c w(2)[unfolded demo_patch_def] demo_set_facts(1) u demo_set_facts(3,4), of "\<lparr>lf_owner = None, lf_text = None\<rparr>" demo_settings_env "''/cfg''"]
    by (auto simp: demo_set_def)
  have s: "settings_set demo_settings_env ''/cfg'' [(''settings'', JObj demo_patch)] (\<lparr>lf_owner = None, lf_text = None\<rparr>, Some demo_updater) =
      (Gave v, (fst (fst (snd demo_set)), snd (fst (snd demo_set))), snd (snd demo_set))"
    using v by (simp add: demo_set_def[symmetric]) (metis prod.collapse)
  have g: "jget [(''settings'', JObj demo_patch)] ''settings'' = JObj demo_patch" by simp
  from settings_set_sound[OF s g w demo_set_facts(1) u demo_set_facts(3,4)] obtain after where
    a: "load_settings (Inr (snd (fst (snd demo_set)))) = Inr after" "\<forall>k. k \<notin> set (dict_keys demo_patch) \<longrightarrow> field_of after k = field_of (default_settings\<lparr>dry_run := True\<rparr>) k"
    "\<forall>k raw. (k, raw) \<in> set demo_patch \<longrightarrow> coerce_setting k raw = Inr (field_of after k)" by blast
  have "field_of after ''stop_services'' = FList None" using a(2)[THEN spec, of "''stop_services''"] by (simp add: demo_patch_def field_of_def default_settings_def)
  moreover have "coerce_setting ''enable_flashing'' (JBool True) = Inr (field_of after ''enable_flashing'')" using a(3) by (simp add: demo_patch_def)
  ultimately show ?thesis using a(1) by blast
qed

text \<open>A colour with a line feed at its end passes the check, and the reply then differs from what is stored.\<close>

lemma colour_line_feed: "hex_colour (''#2196f3'' @ [CHR 0x0A])" by code_simp

end
