(* ===== verification/AgentEdits.thy ===== *)
theory AgentEdits
  imports AgentSettings
begin

section \<open>Changing types and boards from the panel (agent/methods/registry.py, registry part)\<close>

text \<open>
  The registry methods of the agent, each one \<open>Registry.mutate\<close> under the registry lock. An
  \<open>RpcError\<close> raised inside the block leaves the file as it was, like any other exception there. git,
  and what a type's build has staged, are arguments.
\<close>

subsection \<open>One locked edit\<close>

definition locked_edit ::
  "registry_error caller_env \<Rightarrow> string \<Rightarrow> (registry \<Rightarrow> method_end + registry \<times> 'a) \<Rightarrow> lock_file \<times> string option \<Rightarrow>
   (method_end + 'a) \<times> lock_file \<times> string option" where
  "locked_edit env label change s =
     (case acquire (ce_party env) (ce_pid env) label (ce_now env) (fst s) of
        Inl (Busy r) \<Rightarrow> (Inl (updater_end env (RegistryBusy r)), s)
      | Inr l \<Rightarrow>
          (let result =
             and_then (map_sum (updater_end env \<circ> TypesRefused) id (and_then (read_doc (Inr (snd s)) True) registry_of_doc)) (\<lambda>rg.
               and_then (change rg) (\<lambda>(rg', x).
                 and_then (map_sum (updater_end env) id (registry_save rg')) (\<lambda>(_, text). Inr (text, x)))) in
           case result of
             Inl e \<Rightarrow> (Inl e, release (ce_party env) l, snd s)
           | Inr (text, x) \<Rightarrow> (Inr x, release (ce_party env) l, Some text)))"

text \<open>A change of the registry itself, its errors as the wire has them.\<close>

definition raising :: "registry_error caller_env \<Rightarrow> registry_error + 'a \<Rightarrow> method_end + 'a" where
  "raising env r = map_sum (updater_end env) id r"

lemma locked_edit_refused: "fst (locked_edit env label change s) = Inl e \<Longrightarrow> snd (snd (locked_edit env label change s)) = snd s"
  by (auto simp: locked_edit_def Let_def split: sum.splits prod.splits lock_error.splits)

lemma map_sum_Inr [simp]: "map_sum f g r = Inr y \<longleftrightarrow> (\<exists>x. r = Inr x \<and> y = g x)"
  by (cases r) auto

subsection \<open>Reading arguments\<close>

definition text_of :: "(string \<times> json) list \<Rightarrow> string \<Rightarrow> string" where
  "text_of args key = (let v = jget args key in strip (if truthy v then py_str v else []))"

fun parse_extra_repos :: "json \<Rightarrow> method_end + string list" where
  "parse_extra_repos (JList xs) = Inr (filter (\<lambda>p. p \<noteq> []) (map (strip \<circ> py_str) xs))"
| "parse_extra_repos _ = Inl (invalid ''extra_repos must be a list of paths'')"

definition patch_of :: "json \<Rightarrow> makefile_patch" where
  "patch_of raw = (let entry = (case raw of JObj d \<Rightarrow> d | _ \<Rightarrow> []) in \<lparr>patch_file = text_of entry ''file'', patch_line = text_of entry ''line''\<rparr>)"

fun parse_makefile_patches :: "json \<Rightarrow> method_end + makefile_patch list" where
  "parse_makefile_patches (JList xs) =
     (case find (\<lambda>raw. \<not> patch_valid (patch_of raw)) xs of
        Some raw \<Rightarrow> Inl (EndsRpc ERR_APPLICATION (''a makefile patch needs both 'file' and 'line': '' @ py_repr raw)
          (error_dict ''invalid_makefile_patch'' ''incomplete makefile patch'' [(''patch'', raw)]))
      | None \<Rightarrow> Inr (map patch_of xs))"
| "parse_makefile_patches _ = Inl (invalid ''makefile_patches must be a list of {file, line} objects'')"

definition extra_repo_warnings :: "(string \<Rightarrow> string option) \<Rightarrow> string list \<Rightarrow> string list" where
  "extra_repo_warnings head repos =
     map (\<lambda>r. r @ '' has no git HEAD yet - staleness won't fire for it until it does.'') (filter (\<lambda>r. head r = None) repos)"

definition require_family :: "string list \<Rightarrow> string \<Rightarrow> (string \<times> json) list \<Rightarrow> method_end + string" where
  "require_family known main_config args =
     (let v = text_of args ''firmware'' in
      if v = [] then Inr ''klipper''
      else if v \<notin> set known then
        Inl (EndsRpc ERR_APPLICATION (quote v @ '' is not a known firmware family. Known: '' @ join '', '' known @ ''. Declare it with a [firmware '' @ v @
               ''] section in '' @ main_config @ '' first.'')
             (error_dict ''unknown_firmware'' ''no such firmware family'' [(''firmware'', JStr v), (''known'', JList (map JStr known))]))
      else Inr v)"

text \<open>\<open>mcu.fw(fw).<field> = ...\<close>.\<close>

definition upd_fw :: "string \<Rightarrow> (fw_config \<Rightarrow> fw_config) \<Rightarrow> mcu_type \<Rightarrow> mcu_type" where
  "upd_fw fw f m = (case mt_fw m fw of (m', c) \<Rightarrow> m'\<lparr>mt_fws := dict_set (mt_fws m') fw (f c)\<rparr>)"

subsection \<open>Types\<close>

fun parsed_for :: "(string \<times> json) list \<Rightarrow> string list \<Rightarrow> method_end + (string \<times> string list option \<times> makefile_patch list option) list" where
  "parsed_for args [] = Inr []"
| "parsed_for args (fw # fws) =
     and_then (case map_of args (fw @ ''_extra_repos'') of None \<Rightarrow> Inr None | Some j \<Rightarrow> map_sum id Some (parse_extra_repos j)) (\<lambda>repos.
     and_then (case map_of args (fw @ ''_makefile_patches'') of None \<Rightarrow> Inr None | Some j \<Rightarrow> map_sum id Some (parse_makefile_patches j)) (\<lambda>patches.
     and_then (parsed_for args fws) (\<lambda>rest. Inr ((fw, repos, patches) # rest))))"

definition with_parsed :: "(string \<times> string list option \<times> makefile_patch list option) list \<Rightarrow> mcu_type \<Rightarrow> mcu_type" where
  "with_parsed parsed m =
     foldl (\<lambda>m (fw, _, patches). case patches of None \<Rightarrow> m | Some ps \<Rightarrow> upd_fw fw (\<lambda>c. c\<lparr>makefile_patches := ps\<rparr>) m)
       (foldl (\<lambda>m (fw, repos, _). case repos of None \<Rightarrow> m | Some rs \<Rightarrow> upd_fw fw (\<lambda>c. c\<lparr>extra_repos := rs\<rparr>) m) m parsed) parsed"

definition type_add ::
  "registry_error caller_env \<Rightarrow> string list \<Rightarrow> string \<Rightarrow> (string \<Rightarrow> string option) \<Rightarrow> (string \<times> json) list \<Rightarrow> lock_file \<times> string option \<Rightarrow>
   method_end \<times> lock_file \<times> string option" where
  "type_add env known main_config head args s =
     (case and_then (require_str args ''name'') (\<lambda>name. and_then (require_str args ''chipset'') (\<lambda>chipset.
             and_then (require_family known main_config args) (\<lambda>application.
             and_then (parsed_for args [''klipper'', ''katapult'']) (\<lambda>parsed. Inr (name, chipset, application, parsed))))) of
        Inl e \<Rightarrow> (e, s)
      | Inr (name, chipset, application, parsed) \<Rightarrow>
          (let installed = jget args ''katapult_installed'' in
           case locked_edit env (''add type '' @ name) (\<lambda>rg.
               and_then (raising env (add_type rg name chipset (text_of args ''klipper_extra_args'') (text_of args ''katapult_extra_args'')
                   (if installed = JNull then True else truthy installed) application [] False))
                 (\<lambda>(rg', m). Inr (set_mcu rg' name (with_parsed parsed m), ()))) s of
             (Inl e, s') \<Rightarrow> (e, s')
           | (Inr _, s') \<Rightarrow>
               (let warnings = concat (map (\<lambda>(_, repos, _). case repos of None \<Rightarrow> [] | Some rs \<Rightarrow> extra_repo_warnings head rs) parsed) in
                (Gave (JObj ([(''name'', JStr name), (''chipset'', JStr chipset), (''firmware'', JStr application)] @
                   (if warnings = [] then [] else [(''warnings'', JList (map JStr warnings))]))), s'))))"

text \<open>One family's keys of \<open>type_update\<close>.\<close>

definition update_fw ::
  "(string \<Rightarrow> string option) \<Rightarrow> (string \<times> json) list \<Rightarrow> string \<Rightarrow> mcu_type \<times> string list \<Rightarrow> method_end + mcu_type \<times> string list" where
  "update_fw head args fw s =
     (case s of (m, warnings) \<Rightarrow>
       (let m1 = (if dict_has args (fw @ ''_extra_args'') then upd_fw fw (\<lambda>c. c\<lparr>extra_args := text_of args (fw @ ''_extra_args'')\<rparr>) m else m) in
        and_then (case map_of args (fw @ ''_extra_repos'') of
            None \<Rightarrow> Inr (m1, warnings)
          | Some j \<Rightarrow> and_then (parse_extra_repos j) (\<lambda>rs. Inr (upd_fw fw (\<lambda>c. c\<lparr>extra_repos := rs\<rparr>) m1, warnings @ extra_repo_warnings head rs)))
          (\<lambda>(m2, w2).
            case map_of args (fw @ ''_makefile_patches'') of
              None \<Rightarrow> Inr (m2, w2)
            | Some j \<Rightarrow> and_then (parse_makefile_patches j) (\<lambda>ps. Inr (upd_fw fw (\<lambda>c. c\<lparr>makefile_patches := ps\<rparr>) m2, w2)))))"

fun update_fws ::
  "(string \<Rightarrow> string option) \<Rightarrow> (string \<times> json) list \<Rightarrow> string list \<Rightarrow> mcu_type \<times> string list \<Rightarrow> method_end + mcu_type \<times> string list" where
  "update_fws head args [] s = Inr s"
| "update_fws head args (fw # fws) s = and_then (update_fw head args fw s) (update_fws head args fws)"

definition update_chipset ::
  "(string \<Rightarrow> bool) \<Rightarrow> families \<Rightarrow> string \<Rightarrow> (string \<times> json) list \<Rightarrow> mcu_type \<times> string list \<Rightarrow> method_end + mcu_type \<times> string list" where
  "update_chipset has_staged fams name args s =
     (case s of (m, warnings) \<Rightarrow>
        if \<not> dict_has args ''chipset'' then Inr s
        else and_then (require_str args ''chipset'') (\<lambda>chipset.
          if chipset = mt_chipset m then Inr s
          else Inr (m\<lparr>mt_chipset := chipset\<rparr>,
            warnings @ (if has_staged (application_of (mt_firmwares m) (Some fams))
              then [''the built firmware for '' @ quote name @ '' was compiled for '' @ mt_chipset m @ ''. Rebuild before flashing - staleness cannot detect a chipset change on its own.'']
              else []))))"

definition update_family ::
  "(string \<Rightarrow> bool) \<Rightarrow> families \<Rightarrow> string list \<Rightarrow> string \<Rightarrow> string \<Rightarrow> (string \<times> json) list \<Rightarrow> mcu_type \<times> string list \<Rightarrow> method_end + mcu_type \<times> string list" where
  "update_family has_staged fams known main_config name args s =
     (case s of (m, warnings) \<Rightarrow>
        if \<not> dict_has args ''firmware'' then Inr s
        else and_then (require_family known main_config args) (\<lambda>application.
          let current = application_of (mt_firmwares m) (Some fams) in
          if application = current then Inr s
          else Inr (m\<lparr>mt_firmwares := [application] @ (case bootloader_of (mt_firmwares m) (Some fams) of Some b \<Rightarrow> if b \<noteq> [] then [b] else [] | None \<Rightarrow> [])\<rparr>,
            warnings @ (if has_staged current
              then [''the built firmware for '' @ quote name @ '' came from '' @ current @ ''. Rebuild before flashing - staleness compares a tree against itself and cannot detect the tree being swapped.'']
              else []))))"

definition update_mcu ::
  "(string \<Rightarrow> bool) \<Rightarrow> families \<Rightarrow> string list \<Rightarrow> string \<Rightarrow> (string \<Rightarrow> string option) \<Rightarrow> string \<Rightarrow> (string \<times> json) list \<Rightarrow> mcu_type \<Rightarrow>
   method_end + mcu_type \<times> string list" where
  "update_mcu has_staged fams known main_config head name args m =
     and_then (update_chipset has_staged fams name args (m, [])) (\<lambda>s1.
     and_then (update_family has_staged fams known main_config name args s1) (\<lambda>s2.
     and_then (update_fws head args (fw_order (fst s2)) s2) (\<lambda>(m3, warnings).
       let m4 = (if dict_has args ''katapult_installed''
                 then m3\<lparr>mt_firmwares := filter (\<lambda>f. f \<noteq> ''katapult'') (mt_firmwares m3) @ (if truthy (jget args ''katapult_installed'') then [''katapult''] else [])\<rparr>
                 else m3)
       in Inr (m4, warnings))))"

definition type_update ::
  "registry_error caller_env \<Rightarrow> (string \<Rightarrow> string \<Rightarrow> bool) \<Rightarrow> families \<Rightarrow> string list \<Rightarrow> string \<Rightarrow> (string \<Rightarrow> string option) \<Rightarrow> (string \<times> json) list \<Rightarrow>
   lock_file \<times> string option \<Rightarrow> method_end \<times> lock_file \<times> string option" where
  "type_update env has_staged fams known main_config head args s =
     (case require_str args ''name'' of
        Inl e \<Rightarrow> (e, s)
      | Inr name \<Rightarrow>
          if truthy (jget args ''new_name'') then
            (EndsRpc ERR_APPLICATION ''renaming a type isn't supported here: the name is also the directory holding its saved menuconfig answers. Add a type with the new name, move that directory across, then remove the old one.''
               (JObj [(''code'', JStr ''rename_unsupported''), (''message'', JStr ''renaming is a migration'')]), s)
          else
            (case locked_edit env (''update type '' @ name) (\<lambda>rg.
                and_then (raising env (registry_get rg name)) (\<lambda>m.
                and_then (update_mcu (has_staged name) fams known main_config head name args m) (\<lambda>(m', warnings).
                  Inr (set_mcu rg name m', (m', warnings))))) s of
               (Inl e, s') \<Rightarrow> (e, s')
             | (Inr (m', warnings), s') \<Rightarrow>
                 (Gave (JObj [(''name'', JStr name), (''chipset'', JStr (mt_chipset m')), (''firmware'', JStr (application_of (mt_firmwares m') (Some fams))),
                    (''warnings'', JList (map JStr warnings))]), s')))"

definition type_remove ::
  "registry_error caller_env \<Rightarrow> (string \<Rightarrow> string) \<Rightarrow> (string \<times> json) list \<Rightarrow> lock_file \<times> string option \<Rightarrow> method_end \<times> lock_file \<times> string option" where
  "type_remove env type_dir args s =
     (case require_str args ''name'' of
        Inl e \<Rightarrow> (e, s)
      | Inr name \<Rightarrow>
          (case locked_edit env (''remove type '' @ name) (\<lambda>rg.
              and_then (raising env (declared_serials rg name)) (\<lambda>serials.
                if serials \<noteq> [] \<and> \<not> truthy (jget args ''force'') then
                  Inl (EndsRpc ERR_APPLICATION (quote name @ '' still tracks '' @ dec_str (int (length serials)) @
                         '' board(s). Remove them first, or confirm to remove the type and its serials together.'')
                       (error_dict ''type_has_serials'' ''type still tracks boards'' [(''type'', JStr name), (''serials'', JList (map JStr serials))]))
                else and_then (raising env (remove_declared_type rg name)) (\<lambda>(rg', _). Inr (rg', length serials)))) s of
             (Inl e, s') \<Rightarrow> (e, s')
           | (Inr n, s') \<Rightarrow>
               (Gave (JObj [(''name'', JStr name), (''removed_serials'', JInt (int n)), (''kept_config_dir'', JStr (type_dir name))]), s')))"

subsection \<open>Boards\<close>

definition name_and :: "(string \<times> json) list \<Rightarrow> string \<Rightarrow> method_end + string \<times> string" where
  "name_and args key = and_then (require_str args ''name'') (\<lambda>name. and_then (require_str args key) (\<lambda>ident. Inr (name, ident)))"

definition serial_remove ::
  "registry_error caller_env \<Rightarrow> (string \<times> json) list \<Rightarrow> lock_file \<times> string option \<Rightarrow> method_end \<times> lock_file \<times> string option" where
  "serial_remove env args s =
     (case name_and args ''serial'' of
        Inl e \<Rightarrow> (e, s)
      | Inr (name, serial) \<Rightarrow>
          (case locked_edit env (''remove serial '' @ serial) (\<lambda>rg. raising env (untrack_serial name serial rg)) s of
             (Inl e, s') \<Rightarrow> (e, s')
           | (Inr removed, s') \<Rightarrow> (Gave (JObj [(''name'', JStr name), (''serial'', JStr serial), (''removed'', JBool removed)]), s')))"

definition record_uuid :: "string \<Rightarrow> string \<Rightarrow> registry \<Rightarrow> registry_error + registry \<times> bool \<times> string" where
  "record_uuid name uuid rg =
     and_then (get_declared_chipset rg name) (\<lambda>chipset.
       case filter (\<lambda>t. t \<noteq> name) (find_declared_types_for_uuid rg uuid) of
         t # ts \<Rightarrow> Inl (TrackedElsewhere UuidId uuid name (t # ts))
       | [] \<Rightarrow> and_then (add_declared_canbus_uuid rg name uuid) (\<lambda>(rg', added). Inr (rg', added, chipset)))"

definition canbus_add ::
  "registry_error caller_env \<Rightarrow> (string \<times> json) list \<Rightarrow> lock_file \<times> string option \<Rightarrow> method_end \<times> lock_file \<times> string option" where
  "canbus_add env args s =
     (case name_and args ''uuid'' of
        Inl e \<Rightarrow> (e, s)
      | Inr (name, uuid) \<Rightarrow>
          (case locked_edit env (''add canbus uuid '' @ uuid) (\<lambda>rg. raising env (record_uuid name uuid rg)) s of
             (Inl e, s') \<Rightarrow> (e, s')
           | (Inr (added, chipset), s') \<Rightarrow>
               (Gave (JObj [(''name'', JStr name), (''uuid'', JStr uuid), (''added'', JBool added), (''chipset'', JStr chipset)]), s')))"

definition canbus_remove ::
  "registry_error caller_env \<Rightarrow> (string \<times> json) list \<Rightarrow> lock_file \<times> string option \<Rightarrow> method_end \<times> lock_file \<times> string option" where
  "canbus_remove env args s =
     (case name_and args ''uuid'' of
        Inl e \<Rightarrow> (e, s)
      | Inr (name, uuid) \<Rightarrow>
          (case locked_edit env (''remove canbus uuid '' @ uuid)
              (\<lambda>rg. raising env (and_then (get_declared_chipset rg name) (\<lambda>_. remove_declared_canbus_uuid rg name uuid))) s of
             (Inl e, s') \<Rightarrow> (e, s')
           | (Inr removed, s') \<Rightarrow> (Gave (JObj [(''name'', JStr name), (''uuid'', JStr uuid), (''removed'', JBool removed)]), s')))"

subsection \<open>All of them\<close>

text \<open>What the handlers read beside the configuration: whether an image is staged, the families, the main configuration's path,
  git and the directory of a type's answers.\<close>

record edit_view =
  ev_has_staged :: "string \<Rightarrow> string \<Rightarrow> bool"
  ev_families :: families
  ev_known :: "string list"
  ev_main_config :: string
  ev_head :: "string \<Rightarrow> string option"
  ev_type_dir :: "string \<Rightarrow> string"

definition registry_methods ::
  "registry_error caller_env \<Rightarrow> edit_view \<Rightarrow> (string \<times> ((string \<times> json) list \<Rightarrow> lock_file \<times> string option \<Rightarrow> method_end \<times> lock_file \<times> string option)) list" where
  "registry_methods env v =
     [(''fw.type.add'', type_add env (ev_known v) (ev_main_config v) (ev_head v)),
      (''fw.type.update'', type_update env (ev_has_staged v) (ev_families v) (ev_known v) (ev_main_config v) (ev_head v)),
      (''fw.type.remove'', type_remove env (ev_type_dir v)),
      (''fw.serial.remove'', serial_remove env),
      (''fw.canbus.add'', canbus_add env),
      (''fw.canbus.remove'', canbus_remove env)]"

subsection \<open>What each method is asked to change\<close>

text \<open>
  The edits are stated over the two registries, the one loaded under the lock and the one that is
  saved, without the functions that compute them: what is given is taken, the rest is kept.
\<close>

definition others_kept :: "string \<Rightarrow> registry \<Rightarrow> registry \<Rightarrow> bool" where
  "others_kept name rg rg' = (\<forall>t. t \<noteq> name \<longrightarrow> dict_get (rg_types rg') t = dict_get (rg_types rg) t)"

text \<open>An argument that replaces a field when it is given.\<close>

definition given :: "(string \<times> json) list \<Rightarrow> string \<Rightarrow> (json \<Rightarrow> method_end + 'a) \<Rightarrow> 'a \<Rightarrow> 'a \<Rightarrow> bool" where
  "given args key parse old new = (case map_of args key of None \<Rightarrow> new = old | Some j \<Rightarrow> parse j = Inr new)"

definition fw_given :: "(string \<times> json) list \<Rightarrow> string \<Rightarrow> fw_config \<Rightarrow> fw_config \<Rightarrow> bool" where
  "fw_given args fw old new =
     (extra_args new = (if dict_has args (fw @ ''_extra_args'') then text_of args (fw @ ''_extra_args'') else extra_args old) \<and>
      given args (fw @ ''_extra_repos'') parse_extra_repos (extra_repos old) (extra_repos new) \<and>
      given args (fw @ ''_makefile_patches'') parse_makefile_patches (makefile_patches old) (makefile_patches new))"

definition asked_application :: "(string \<times> json) list \<Rightarrow> string" where
  "asked_application args = (if text_of args ''firmware'' = [] then ''klipper'' else text_of args ''firmware'')"

definition katapult_asked :: "(string \<times> json) list \<Rightarrow> bool" where
  "katapult_asked args = (jget args ''katapult_installed'' = JNull \<or> truthy (jget args ''katapult_installed''))"

definition type_added :: "(string \<times> json) list \<Rightarrow> registry \<Rightarrow> registry \<Rightarrow> bool" where
  "type_added args rg rg' =
     (\<exists>name m. require_str args ''name'' = Inr name \<and>
        dict_get (rg_types rg) name = None \<and> name \<notin> set (declared_type_names rg) \<and>
        dict_get (rg_types rg') name = Some m \<and> others_kept name rg rg' \<and> rg_doc rg' = rg_doc rg \<and>
        mt_name m = name \<and> require_str args ''chipset'' = Inr (mt_chipset m) \<and> mt_serials m = [] \<and> mt_canbus_uuids m = [] \<and>
        mt_firmwares m = [asked_application args] @ (if katapult_asked args \<and> asked_application args \<noteq> ''katapult'' then [''katapult''] else []) \<and>
        (\<forall>fw \<in> set (mt_firmwares m). dict_has (load_families (rg_doc rg)) fw) \<and> mt_profile m = [] \<and> mt_stop_services m = None \<and>
        (\<forall>fw \<in> {''klipper'', ''katapult''}. fw_given args fw empty_fw_config (fw_get m fw)) \<and>
        (\<forall>fw. fw \<notin> {''klipper'', ''katapult''} \<longrightarrow> dict_get (mt_fws m) fw = None))"

text \<open>The families of an updated type: another application only when another is asked for, the boot loader kept unless it is
  switched on or off.\<close>

definition application_given :: "families \<Rightarrow> (string \<times> json) list \<Rightarrow> string list \<Rightarrow> string list" where
  "application_given fams args fws =
     (if dict_has args ''firmware'' \<and> asked_application args \<noteq> application_of fws (Some fams)
      then asked_application args # (case bootloader_of fws (Some fams) of None \<Rightarrow> [] | Some b \<Rightarrow> if b = [] then [] else [b])
      else fws)"

definition katapult_given :: "(string \<times> json) list \<Rightarrow> string list \<Rightarrow> string list" where
  "katapult_given args fws =
     (if dict_has args ''katapult_installed''
      then filter (\<lambda>f. f \<noteq> ''katapult'') fws @ (if truthy (jget args ''katapult_installed'') then [''katapult''] else [])
      else fws)"

definition mcu_updated :: "families \<Rightarrow> (string \<times> json) list \<Rightarrow> mcu_type \<Rightarrow> mcu_type \<Rightarrow> bool" where
  "mcu_updated fams args m m' =
     (mt_name m' = mt_name m \<and> mt_serials m' = mt_serials m \<and> mt_canbus_uuids m' = mt_canbus_uuids m \<and>
      mt_profile m' = mt_profile m \<and> mt_stop_services m' = mt_stop_services m \<and>
      (if dict_has args ''chipset'' then require_str args ''chipset'' = Inr (mt_chipset m') else mt_chipset m' = mt_chipset m) \<and>
      mt_firmwares m' = katapult_given args (application_given fams args (mt_firmwares m)) \<and>
      dict_keys (mt_fws m') = dict_keys (mt_fws m) \<and>
      (\<forall>fw \<in> set (dict_keys (mt_fws m)). fw_given args fw (fw_get m fw) (fw_get m' fw)))"

definition type_updated :: "families \<Rightarrow> (string \<times> json) list \<Rightarrow> registry \<Rightarrow> registry \<Rightarrow> bool" where
  "type_updated fams args rg rg' =
     (\<exists>name m m'. require_str args ''name'' = Inr name \<and> \<not> truthy (jget args ''new_name'') \<and>
        dict_get (rg_types rg) name = Some m \<and> dict_get (rg_types rg') name = Some m' \<and> others_kept name rg rg' \<and>
        rg_doc rg' = rg_doc rg \<and> mcu_updated fams args m m')"

text \<open>A section that goes takes its options with it, and nothing else.\<close>

definition section_dropped :: "string \<Rightarrow> cfg_doc \<Rightarrow> cfg_doc \<Rightarrow> bool" where
  "section_dropped sec d d' =
     (store_ok d' \<and> section_names d' None = filter (\<lambda>n. n \<noteq> sec) (section_names d None) \<and>
      (\<forall>s k. cfg_get d' s k None = (if s = sec then None else cfg_get d s k None)))"

definition type_removed :: "(string \<times> json) list \<Rightarrow> registry \<Rightarrow> registry \<Rightarrow> bool" where
  "type_removed args rg rg' =
     (\<exists>name serials. require_str args ''name'' = Inr name \<and> declared_serials rg name = Inr serials \<and>
        (serials = [] \<or> truthy (jget args ''force'')) \<and>
        dict_get (rg_types rg') name = None \<and> others_kept name rg rg' \<and>
        (if name \<in> set (declared_type_names rg)
         then \<exists>sec. declared_section rg name = Inr sec \<and> (store_ok (rg_doc rg) \<longrightarrow> section_dropped sec (rg_doc rg) (rg_doc rg'))
         else rg_doc rg' = rg_doc rg))"

text \<open>One list of one type changes: a field of its entry, or for another builder's type one option of its section.\<close>

definition option_changed :: "string \<Rightarrow> string \<Rightarrow> string list \<Rightarrow> cfg_doc \<Rightarrow> cfg_doc \<Rightarrow> bool" where
  "option_changed sec key ids d d' =
     (store_ok d' \<and> section_names d' None = section_names d None \<and> get_list d' sec key = ids \<and>
      (\<forall>s k. (s, k) \<noteq> (sec, key) \<longrightarrow> cfg_get d' s k None = cfg_get d s k None))"

definition serial_removed :: "(string \<times> json) list \<Rightarrow> registry \<Rightarrow> registry \<Rightarrow> bool" where
  "serial_removed args rg rg' =
     (\<exists>name serial. require_str args ''name'' = Inr name \<and> require_str args ''serial'' = Inr serial \<and> others_kept name rg rg' \<and>
        (case dict_get (rg_types rg) name of
           Some m \<Rightarrow> rg_doc rg' = rg_doc rg \<and> dict_get (rg_types rg') name = Some (m\<lparr>mt_serials := remove1 serial (mt_serials m)\<rparr>)
         | None \<Rightarrow> dict_get (rg_types rg') name = None \<and> (\<exists>sec. declared_section rg name = Inr sec \<and> (store_ok (rg_doc rg) \<longrightarrow>
             option_changed sec ''serials'' (filter (\<lambda>s. s \<noteq> serial) (get_list (rg_doc rg) sec ''serials'')) (rg_doc rg) (rg_doc rg')))))"

definition uuid_added :: "(string \<times> json) list \<Rightarrow> registry \<Rightarrow> registry \<Rightarrow> bool" where
  "uuid_added args rg rg' =
     (\<exists>name uuid. require_str args ''name'' = Inr name \<and> require_str args ''uuid'' = Inr uuid \<and> others_kept name rg rg' \<and>
        (\<forall>t \<in> set (find_declared_types_for_uuid rg uuid). t = name) \<and>
        (case dict_get (rg_types rg) name of
           Some m \<Rightarrow> rg_doc rg' = rg_doc rg \<and> dict_get (rg_types rg') name =
             Some (m\<lparr>mt_canbus_uuids := (if uuid \<in> set (mt_canbus_uuids m) then mt_canbus_uuids m else mt_canbus_uuids m @ [uuid])\<rparr>)
         | None \<Rightarrow> dict_get (rg_types rg') name = None \<and> (\<exists>sec. declared_section rg name = Inr sec \<and> (store_ok (rg_doc rg) \<and> listable uuid \<longrightarrow>
             (let uuids = get_list (rg_doc rg) sec ''canbus_uuids'' in
              option_changed sec ''canbus_uuids'' (if uuid \<in> set uuids then uuids else uuids @ [uuid]) (rg_doc rg) (rg_doc rg'))))))"

definition uuid_removed :: "(string \<times> json) list \<Rightarrow> registry \<Rightarrow> registry \<Rightarrow> bool" where
  "uuid_removed args rg rg' =
     (\<exists>name uuid. require_str args ''name'' = Inr name \<and> require_str args ''uuid'' = Inr uuid \<and> others_kept name rg rg' \<and>
        (case dict_get (rg_types rg) name of
           Some m \<Rightarrow> rg_doc rg' = rg_doc rg \<and> dict_get (rg_types rg') name = Some (m\<lparr>mt_canbus_uuids := remove1 uuid (mt_canbus_uuids m)\<rparr>)
         | None \<Rightarrow> dict_get (rg_types rg') name = None \<and> (\<exists>sec. declared_section rg name = Inr sec \<and> (store_ok (rg_doc rg) \<longrightarrow>
             option_changed sec ''canbus_uuids'' (filter (\<lambda>u. u \<noteq> uuid) (get_list (rg_doc rg) sec ''canbus_uuids'')) (rg_doc rg) (rg_doc rg')))))"

definition edited :: "edit_view \<Rightarrow> string \<Rightarrow> (string \<times> json) list \<Rightarrow> registry \<Rightarrow> registry \<Rightarrow> bool" where
  "edited v n args =
     (if n = ''fw.type.add'' then type_added args
      else if n = ''fw.type.update'' then type_updated (ev_families v) args
      else if n = ''fw.type.remove'' then type_removed args
      else if n = ''fw.serial.remove'' then serial_removed args
      else if n = ''fw.canbus.add'' then uuid_added args
      else uuid_removed args)"

subsection \<open>One edit, whole or not at all\<close>

text \<open>What a locked edit may do: nothing, or save a registry that stands in \<open>P\<close> to the one it loaded under the lock; the lock
  is free again afterwards, and a held one stops the edit.\<close>

definition edit_effect :: "bool \<Rightarrow> (registry \<Rightarrow> registry \<Rightarrow> bool) \<Rightarrow> lock_file \<times> string option \<Rightarrow> lock_file \<times> string option \<Rightarrow> bool" where
  "edit_effect gave P s s' =
     ((lf_owner (fst s) \<noteq> None \<longrightarrow> s' = s) \<and> (lf_owner (fst s) = None \<longrightarrow> lf_owner (fst s') = None) \<and>
      (if gave then lf_owner (fst s) = None \<and>
         (\<exists>d rg rg' rg2 text. read_doc (Inr (snd s)) True = Inr d \<and> registry_of_doc d = Inr rg \<and> P rg rg' \<and>
            registry_save rg' = Inr (rg2, text) \<and> snd s' = Some text)
       else snd s' = snd s))"

lemma acquired_released: "acquire me pid label now l = Inr l' \<Longrightarrow> lf_owner l = None \<and> lf_owner (release me l') = None"
  by (auto simp: acquire_def release_def split: if_splits)

lemma acquire_busy: "acquire me pid label now l = Inl e \<Longrightarrow> lf_owner l \<noteq> None"
  by (auto simp: acquire_def split: if_splits)

lemma locked_edit_effect:
  assumes P: "\<And>rg rg' x. change rg = Inr (rg', x) \<Longrightarrow> P rg rg'" and run: "locked_edit env label change s = (r, s')"
  shows "edit_effect (\<exists>x. r = Inr x) P s s'"
proof (cases "acquire (ce_party env) (ce_pid env) label (ce_now env) (fst s)")
  case (Inl e)
  with run acquire_busy[OF Inl] show ?thesis by (auto simp: locked_edit_def edit_effect_def split: lock_error.splits)
next
  case (Inr l)
  note f = acquired_released[OF Inr]
  define result where "result = and_then (map_sum (updater_end env \<circ> TypesRefused) id (and_then (read_doc (Inr (snd s)) True) registry_of_doc)) (\<lambda>rg.
               and_then (change rg) (\<lambda>(rg', x).
                 and_then (map_sum (updater_end env) id (registry_save rg')) (\<lambda>(_, text). Inr (text, x))))"
  from run have e: "(r, s') = (case result of Inl e \<Rightarrow> (Inl e, release (ce_party env) l, snd s)
      | Inr (text, x) \<Rightarrow> (Inr x, release (ce_party env) l, Some text))"
    by (simp add: locked_edit_def Inr result_def Let_def)
  show ?thesis
  proof (cases result)
    case (Inl a)
    with e f show ?thesis by (simp add: edit_effect_def)
  next
    case (Inr p)
    obtain tx x where p: "p = (tx, x)" by fastforce
    from Inr[unfolded p result_def] obtain d rg rg' y rg2 where
      "read_doc (Inr (snd s)) True = Inr d" "registry_of_doc d = Inr rg" "change rg = Inr (rg', y)" "registry_save rg' = Inr (rg2, tx)"
      by (auto split: prod.splits)
    with e f Inr p P show ?thesis by (auto simp: edit_effect_def)
  qed
qed

lemma edit_effect_same: "\<not> gave \<Longrightarrow> edit_effect gave P s s"
  by (simp add: edit_effect_def)

text \<open>An error of a step is never a result.\<close>

definition refuses :: "method_end + 'a \<Rightarrow> bool" where
  "refuses r = (\<forall>j. r \<noteq> Inl (Gave j))"

named_theorems refuses_intros

lemma refuses_basic [refuses_intros]:
  "refuses (Inr x)" "refuses (Inl (EndsRpc c m d))" "refuses (Inl (invalid t))"
  by (simp_all add: refuses_def invalid_def)

lemma refuses_and_then [refuses_intros]: "refuses r \<Longrightarrow> (\<And>x. r = Inr x \<Longrightarrow> refuses (f x)) \<Longrightarrow> refuses (and_then r f)"
  by (cases r) (auto simp: refuses_def)

lemma refuses_map [refuses_intros]: "refuses r \<Longrightarrow> refuses (map_sum id g r)"
  by (cases r) (simp_all add: refuses_def)

lemma updater_end_not_Gave [simp]: "updater_end env e \<noteq> Gave j" "Gave j \<noteq> updater_end env e"
  by (simp_all add: updater_end_def split: prod.split)

lemma refuses_mapped [refuses_intros]: "refuses (map_sum (updater_end env) g r)"
  by (cases r) (simp_all add: refuses_def)

lemma refuses_mapped_comp [refuses_intros]: "refuses (map_sum (updater_end env \<circ> h) g r)"
  by (cases r) (simp_all add: refuses_def)

lemma refuses_raising [refuses_intros]: "refuses (raising env r)"
  unfolding raising_def by (rule refuses_mapped)

lemma refuses_require_str [refuses_intros]: "refuses (require_str args key)"
  by (simp add: require_str_def Let_def refuses_def)

lemma refuses_name_and [refuses_intros]: "refuses (name_and args key)"
  unfolding name_and_def by (intro refuses_intros)

lemma refuses_repos [refuses_intros]: "refuses (parse_extra_repos j)"
  by (cases j) (simp_all add: refuses_def invalid_def)

lemma refuses_patches [refuses_intros]: "refuses (parse_makefile_patches j)"
  by (cases j) (simp_all add: refuses_def invalid_def split: option.split)

lemma refuses_family [refuses_intros]: "refuses (require_family known main_config args)"
  by (simp add: require_family_def Let_def refuses_def)

lemma refuses_option [refuses_intros]: "refuses a \<Longrightarrow> (\<And>x. refuses (f x)) \<Longrightarrow> refuses (case q of None \<Rightarrow> a | Some x \<Rightarrow> f x)"
  by (cases q) simp_all

lemma refuses_if [refuses_intros]: "(b \<Longrightarrow> refuses x) \<Longrightarrow> (\<not> b \<Longrightarrow> refuses y) \<Longrightarrow> refuses (if b then x else y)"
  by simp

lemma refuses_pair [refuses_intros]: "(\<And>x y. p = (x, y) \<Longrightarrow> refuses (f x y)) \<Longrightarrow> refuses (case p of (x, y) \<Rightarrow> f x y)"
  by (cases p) simp

lemma refuses_parsed_for [refuses_intros]: "refuses (parsed_for args fws)"
  by (induction fws) (auto intro!: refuses_intros simp del: and_then_eq_Inr)

lemma refuses_update_fw [refuses_intros]: "refuses (update_fw head args fw s)"
  unfolding update_fw_def Let_def by (intro refuses_intros)

lemma refuses_update_fws [refuses_intros]: "refuses (update_fws head args fws s)"
  by (induction fws arbitrary: s) (auto intro!: refuses_intros simp del: and_then_eq_Inr)

lemma refuses_update_mcu [refuses_intros]: "refuses (update_mcu has_staged fams known main_config head name args m)"
  unfolding update_mcu_def update_chipset_def update_family_def Let_def by (intro refuses_intros)

lemma locked_edit_ends:
  assumes c: "\<And>rg. refuses (change rg)" and P: "\<And>rg rg' x. change rg = Inr (rg', x) \<Longrightarrow> P rg rg'"
    and e: "locked_edit env label change s = (r, s')"
  shows "refuses r \<and> edit_effect (\<exists>x. r = Inr x) P s s'"
proof (rule conjI)
  define result where "result = and_then (map_sum (updater_end env \<circ> TypesRefused) id (and_then (read_doc (Inr (snd s)) True) registry_of_doc)) (\<lambda>rg.
               and_then (change rg) (\<lambda>(rg', x).
                 and_then (map_sum (updater_end env) id (registry_save rg')) (\<lambda>(_, text). Inr (text, x))))"
  have "refuses result" unfolding result_def by (intro refuses_intros c)
  then show "refuses r"
    using e by (auto simp: locked_edit_def result_def[symmetric] Let_def refuses_def updater_end_def split: sum.splits lock_error.splits prod.splits)
  show "edit_effect (\<exists>x. r = Inr x) P s s'" by (rule locked_edit_effect[OF P e])
qed

text \<open>A handler is an argument check, one locked edit and a reply.\<close>

definition ends_ok :: "(registry \<Rightarrow> registry \<Rightarrow> bool) \<Rightarrow> lock_file \<times> string option \<Rightarrow> method_end \<times> lock_file \<times> string option \<Rightarrow> bool" where
  "ends_ok P s out = edit_effect (\<exists>j. fst out = Gave j) P s (snd out)"

lemma ends_checked:
  assumes "refuses checked" and "\<And>x. checked = Inr x \<Longrightarrow> ends_ok P s (cont x)"
  shows "ends_ok P s (case checked of Inl e \<Rightarrow> (e, s) | Inr x \<Rightarrow> cont x)"
  using assms by (cases checked) (auto simp: refuses_def ends_ok_def intro: edit_effect_same)

lemma ends_pair: "(\<And>a b. p = (a, b) \<Longrightarrow> ends_ok P s (f a b)) \<Longrightarrow> ends_ok P s (case p of (a, b) \<Rightarrow> f a b)"
  by (cases p) simp

lemma ends_refused: "ends_ok P s (EndsRpc c m d, s)"
  by (simp add: ends_ok_def edit_effect_def)

lemma ends_if: "(c \<Longrightarrow> ends_ok P s a) \<Longrightarrow> (\<not> c \<Longrightarrow> ends_ok P s b) \<Longrightarrow> ends_ok P s (if c then a else b)"
  by simp

lemma ends_edit:
  assumes "\<And>rg. refuses (change rg)" and "\<And>y s'. \<exists>j. reply y s' = (Gave j, s')"
    and "\<And>rg rg' x. change rg = Inr (rg', x) \<Longrightarrow> P rg rg'"
  shows "ends_ok P s (case locked_edit env label change s of (r, s') \<Rightarrow> (case r of Inl e \<Rightarrow> (e, s') | Inr y \<Rightarrow> reply y s'))"
proof -
  obtain q s1 where l: "locked_edit env label change s = (q, s1)" by (rule prod.exhaust)
  have "refuses q \<and> edit_effect (\<exists>y. q = Inr y) P s s1"
    by (rule locked_edit_ends[of change P, OF assms(1) _ l]) (rule assms(3))
  then have "refuses q" "edit_effect (\<exists>y. q = Inr y) P s s1" by blast+
  with l show ?thesis
  proof (cases q)
    case (Inr y)
    then show ?thesis using l assms(2)[of y s1] \<open>edit_effect _ P s s1\<close> by (auto simp: ends_ok_def)
  qed (auto simp: refuses_def ends_ok_def)
qed

lemmas ends_intros = ends_checked ends_edit ends_refused ends_if ends_pair

subsection \<open>The edits do what they are asked\<close>

lemma raising_Inr [simp]: "raising env r = Inr x \<longleftrightarrow> r = Inr x"
  by (cases r) (simp_all add: raising_def)

lemma upd_fw_frame [simp]:
  "mt_name (upd_fw fw f m) = mt_name m" "mt_chipset (upd_fw fw f m) = mt_chipset m" "mt_serials (upd_fw fw f m) = mt_serials m"
  "mt_canbus_uuids (upd_fw fw f m) = mt_canbus_uuids m" "mt_firmwares (upd_fw fw f m) = mt_firmwares m"
  "mt_profile (upd_fw fw f m) = mt_profile m" "mt_stop_services (upd_fw fw f m) = mt_stop_services m"
  by (simp_all add: upd_fw_def mt_fw_def split: option.split)

lemma upd_fw_get: "dict_get (mt_fws (upd_fw fw f m)) fw' = (if fw' = fw then Some (f (fw_get m fw)) else dict_get (mt_fws m) fw')"
  by (simp add: upd_fw_def mt_fw_def fw_get_def split: option.split)

lemma upd_fw_get' [simp]: "fw_get (upd_fw fw f m) fw' = (if fw' = fw then f (fw_get m fw) else fw_get m fw')"
  by (simp add: fw_get_def upd_fw_get)

lemma upd_fw_keys: "fw \<in> set (dict_keys (mt_fws m)) \<Longrightarrow> dict_keys (mt_fws (upd_fw fw f m)) = dict_keys (mt_fws m)"
  by (auto simp: upd_fw_def mt_fw_def dict_keys_set split: option.split dest: map_of_SomeD)

lemma with_two:
  assumes ab: "a \<noteq> b"
  shows "(with_parsed [(a, r1, p1), (b, r2, p2)] m)\<lparr>mt_fws := mt_fws m\<rparr> = m"
    "fw_get (with_parsed [(a, r1, p1), (b, r2, p2)] m) a = (fw_get m a)\<lparr>extra_repos := (case r1 of None \<Rightarrow> extra_repos (fw_get m a) | Some x \<Rightarrow> x),
       makefile_patches := (case p1 of None \<Rightarrow> makefile_patches (fw_get m a) | Some x \<Rightarrow> x)\<rparr>"
    "fw_get (with_parsed [(a, r1, p1), (b, r2, p2)] m) b = (fw_get m b)\<lparr>extra_repos := (case r2 of None \<Rightarrow> extra_repos (fw_get m b) | Some x \<Rightarrow> x),
       makefile_patches := (case p2 of None \<Rightarrow> makefile_patches (fw_get m b) | Some x \<Rightarrow> x)\<rparr>"
    "fw \<notin> {a, b} \<Longrightarrow> dict_get (mt_fws (with_parsed [(a, r1, p1), (b, r2, p2)] m)) fw = dict_get (mt_fws m) fw"
proof -
  have u: "(upd_fw fw f x)\<lparr>mt_fws := y\<rparr> = x\<lparr>mt_fws := y\<rparr>" for fw f x y
    by (simp add: upd_fw_def mt_fw_def split: option.split)
  show "(with_parsed [(a, r1, p1), (b, r2, p2)] m)\<lparr>mt_fws := mt_fws m\<rparr> = m"
    by (cases r1; cases p1; cases r2; cases p2) (simp_all add: with_parsed_def u)
  show "fw_get (with_parsed [(a, r1, p1), (b, r2, p2)] m) a = (fw_get m a)\<lparr>extra_repos := (case r1 of None \<Rightarrow> extra_repos (fw_get m a) | Some x \<Rightarrow> x),
       makefile_patches := (case p1 of None \<Rightarrow> makefile_patches (fw_get m a) | Some x \<Rightarrow> x)\<rparr>"
    using ab by (cases r1; cases p1; cases r2; cases p2) (simp_all add: with_parsed_def)
  show "fw_get (with_parsed [(a, r1, p1), (b, r2, p2)] m) b = (fw_get m b)\<lparr>extra_repos := (case r2 of None \<Rightarrow> extra_repos (fw_get m b) | Some x \<Rightarrow> x),
       makefile_patches := (case p2 of None \<Rightarrow> makefile_patches (fw_get m b) | Some x \<Rightarrow> x)\<rparr>"
    using ab by (cases r1; cases p1; cases r2; cases p2) (simp_all add: with_parsed_def)
  show "fw \<notin> {a, b} \<Longrightarrow> dict_get (mt_fws (with_parsed [(a, r1, p1), (b, r2, p2)] m)) fw = dict_get (mt_fws m) fw"
    by (cases r1; cases p1; cases r2; cases p2) (simp_all add: with_parsed_def upd_fw_get)
qed

lemma type_add_edits:
  assumes "require_str args ''name'' = Inr name" "require_str args ''chipset'' = Inr chipset"
    and f: "require_family known main_config args = Inr application" and p: "parsed_for args [''klipper'', ''katapult''] = Inr parsed"
    and add: "add_type rg name chipset (text_of args ''klipper_extra_args'') (text_of args ''katapult_extra_args'')
      (if jget args ''katapult_installed'' = JNull then True else truthy (jget args ''katapult_installed'')) application [] False = Inr (rg1, m)"
  shows "type_added args rg (set_mcu rg1 name (with_parsed parsed m))"
proof -
  have a: "application = asked_application args"
    using f by (auto simp: require_family_def asked_application_def Let_def split: if_splits)
  let ?fws = "[application] @ (if katapult_asked args \<and> application \<noteq> ''katapult'' then [''katapult''] else [])"
  have n: "name \<notin> set (declared_type_names rg)" "dict_get (rg_types rg) name = None"
    using add by (auto simp: add_type_def Let_def split: if_splits option.splits)
  from add n have m: "m = \<lparr>mt_name = name, mt_chipset = chipset, mt_serials = [], mt_canbus_uuids = [],
      mt_fws = [(''katapult'', empty_fw_config\<lparr>extra_args := text_of args ''katapult_extra_args''\<rparr>),
                (''klipper'', empty_fw_config\<lparr>extra_args := text_of args ''klipper_extra_args''\<rparr>)],
      mt_firmwares = ?fws, mt_profile = [], mt_stop_services = None\<rparr>"
    and r: "rg1 = rg\<lparr>rg_types := dict_set (rg_types rg) name m\<rparr>"
    and d: "find (\<lambda>fw. \<not> dict_has (load_families (rg_doc rg)) fw) ?fws = None"
    by (auto simp: add_type_def Let_def katapult_asked_def strip_def split: if_splits option.splits)
  from d have d': "\<forall>fw \<in> set ?fws. dict_has (load_families (rg_doc rg)) fw" unfolding find_None_iff by blast
  obtain r1 p1 r2 p2 where q: "parsed = [(''klipper'', r1, p1), (''katapult'', r2, p2)]"
    and g: "(case map_of args ''klipper_extra_repos'' of None \<Rightarrow> Inr None | Some j \<Rightarrow> map_sum id Some (parse_extra_repos j)) = (Inr r1 :: method_end + _)"
      "(case map_of args ''katapult_extra_repos'' of None \<Rightarrow> Inr None | Some j \<Rightarrow> map_sum id Some (parse_extra_repos j)) = (Inr r2 :: method_end + _)"
      "(case map_of args ''klipper_makefile_patches'' of None \<Rightarrow> Inr None | Some j \<Rightarrow> map_sum id Some (parse_makefile_patches j)) = (Inr p1 :: method_end + _)"
      "(case map_of args ''katapult_makefile_patches'' of None \<Rightarrow> Inr None | Some j \<Rightarrow> map_sum id Some (parse_makefile_patches j)) = (Inr p2 :: method_end + _)"
    using p by auto
  let ?m = "with_parsed parsed m"
  note w = with_two[where a = "''klipper''" and b = "''katapult''" and ?r1.0 = r1 and ?p1.0 = p1 and ?r2.0 = r2 and ?p2.0 = p2 and m = m, folded q]
  have m0: "mt_name m = name" "mt_chipset m = chipset" "mt_serials m = []" "mt_canbus_uuids m = []" "mt_firmwares m = ?fws"
     "mt_profile m = []" "mt_stop_services m = None"
    unfolding m by simp_all
  have fr: "mt_name ?m = name" "mt_chipset ?m = chipset" "mt_serials ?m = []" "mt_canbus_uuids ?m = []" "mt_firmwares ?m = ?fws"
     "mt_profile ?m = []" "mt_stop_services ?m = None"
    using arg_cong[OF w(1), of mt_name] arg_cong[OF w(1), of mt_chipset] arg_cong[OF w(1), of mt_serials] arg_cong[OF w(1), of mt_canbus_uuids]
      arg_cong[OF w(1), of mt_firmwares] arg_cong[OF w(1), of mt_profile] arg_cong[OF w(1), of mt_stop_services] m0 by simp_all
  have c: "fw_get m ''klipper'' = empty_fw_config\<lparr>extra_args := text_of args ''klipper_extra_args''\<rparr>"
    "fw_get m ''katapult'' = empty_fw_config\<lparr>extra_args := text_of args ''katapult_extra_args''\<rparr>"
    unfolding m fw_get_def by simp_all
  have k: "extra_args (fw_get ?m ''klipper'') = text_of args ''klipper_extra_args''"
    "extra_repos (fw_get ?m ''klipper'') = (case r1 of None \<Rightarrow> [] | Some rs \<Rightarrow> rs)"
    "makefile_patches (fw_get ?m ''klipper'') = (case p1 of None \<Rightarrow> [] | Some rs \<Rightarrow> rs)"
    using w(2) unfolding c(1) by (simp_all add: empty_fw_config_def split: option.split)
  have k': "extra_args (fw_get ?m ''katapult'') = text_of args ''katapult_extra_args''"
    "extra_repos (fw_get ?m ''katapult'') = (case r2 of None \<Rightarrow> [] | Some rs \<Rightarrow> rs)"
    "makefile_patches (fw_get ?m ''katapult'') = (case p2 of None \<Rightarrow> [] | Some rs \<Rightarrow> rs)"
    using w(3) unfolding c(2) by (simp_all add: empty_fw_config_def split: option.split)
  have m1: "dict_get (mt_fws m) fw = None" if "fw \<notin> {''klipper'', ''katapult''}" for fw
    using that unfolding m by simp
  have o: "dict_get (mt_fws ?m) fw = None" if "fw \<notin> {''klipper'', ''katapult''}" for fw
    using w(4)[of fw] that m1 by simp
  have t: "text_of args key = []" if "\<not> dict_has args key" for key
    using that by (simp add: text_of_def jget_def dict_has_def Let_def split: option.split)
  have gv: "fw_given args ''klipper'' empty_fw_config (fw_get ?m ''klipper'')"
    using g(1,3) k t[of "''klipper_extra_args''"]
    by (auto simp: fw_given_def given_def empty_fw_config_def split: option.splits sum.splits)
  have gv': "fw_given args ''katapult'' empty_fw_config (fw_get ?m ''katapult'')"
    using g(2,4) k' t[of "''katapult_extra_args''"]
    by (auto simp: fw_given_def given_def empty_fw_config_def split: option.splits sum.splits)
  show ?thesis
    unfolding type_added_def
    by (intro exI[of _ name] exI[of _ ?m] conjI)
      (use assms(1,2) n d' fr gv gv' o a in \<open>auto simp: set_mcu_def r others_kept_def\<close>)
qed

lemma fw_given_twice: "fw_given args fw a b \<Longrightarrow> fw_given args fw b c \<Longrightarrow> fw_given args fw a c"
  by (auto simp: fw_given_def given_def split: option.splits)

lemma update_fw_edits:
  assumes "update_fw head args fw (m, ws) = Inr (m', ws')" and k: "fw \<in> set (dict_keys (mt_fws m))"
  shows "m'\<lparr>mt_fws := mt_fws m\<rparr> = m \<and> dict_keys (mt_fws m') = dict_keys (mt_fws m) \<and>
    fw_given args fw (fw_get m fw) (fw_get m' fw) \<and> (\<forall>fw'. fw' \<noteq> fw \<longrightarrow> fw_get m' fw' = fw_get m fw')"
proof -
  define m1 where "m1 = (if dict_has args (fw @ ''_extra_args'') then upd_fw fw (\<lambda>c. c\<lparr>extra_args := text_of args (fw @ ''_extra_args'')\<rparr>) m else m)"
  have upd: "(upd_fw fw f x)\<lparr>mt_fws := mt_fws m\<rparr> = x\<lparr>mt_fws := mt_fws m\<rparr>" for f x
    by (simp add: upd_fw_def mt_fw_def split: option.split)
  have keys: "dict_keys (mt_fws (upd_fw fw f x)) = dict_keys (mt_fws m)" if "dict_keys (mt_fws x) = dict_keys (mt_fws m)" for f x
    using that k upd_fw_keys[of fw x f] by metis
  have 1: "m1\<lparr>mt_fws := mt_fws m\<rparr> = m" "dict_keys (mt_fws m1) = dict_keys (mt_fws m)"
    using upd keys[of m] by (simp_all add: m1_def)
  define last where "last = (\<lambda>m2 (w2 :: string list). case map_of args (fw @ ''_makefile_patches'') of
              None \<Rightarrow> Inr (m2, w2)
            | Some j \<Rightarrow> and_then (parse_makefile_patches j) (\<lambda>ps. Inr (upd_fw fw (\<lambda>c. c\<lparr>makefile_patches := ps\<rparr>) m2, w2)))"
  have un: "update_fw head args fw (m, ws) = and_then (case map_of args (fw @ ''_extra_repos'') of
            None \<Rightarrow> Inr (m1, ws)
          | Some j \<Rightarrow> and_then (parse_extra_repos j) (\<lambda>rs. Inr (upd_fw fw (\<lambda>c. c\<lparr>extra_repos := rs\<rparr>) m1, ws @ extra_repo_warnings head rs)))
          (\<lambda>(m2, w2). last m2 w2)"
    by (simp only: update_fw_def m1_def last_def Let_def prod.case)
  have "\<exists>m2 w2. m2\<lparr>mt_fws := mt_fws m\<rparr> = m \<and> dict_keys (mt_fws m2) = dict_keys (mt_fws m) \<and>
      given args (fw @ ''_extra_repos'') parse_extra_repos (extra_repos (fw_get m1 fw)) (extra_repos (fw_get m2 fw)) \<and>
      extra_args (fw_get m2 fw) = extra_args (fw_get m1 fw) \<and> makefile_patches (fw_get m2 fw) = makefile_patches (fw_get m1 fw) \<and>
      (\<forall>fw'. fw' \<noteq> fw \<longrightarrow> fw_get m2 fw' = fw_get m1 fw') \<and> last m2 w2 = Inr (m', ws')"
  proof (cases "map_of args (fw @ ''_extra_repos'')")
    case None
    with assms(1) un have "last m1 ws = Inr (m', ws')" by simp
    with None 1 show ?thesis by (intro exI[of _ m1] exI[of _ ws]) (simp add: given_def)
  next
    case (Some j)
    with assms(1) un obtain rs where rs: "parse_extra_repos j = Inr rs"
      "last (upd_fw fw (\<lambda>c. c\<lparr>extra_repos := rs\<rparr>) m1) (ws @ extra_repo_warnings head rs) = Inr (m', ws')" by auto
    with Some 1 upd keys[of m1] show ?thesis
      by (intro exI[of _ "upd_fw fw (\<lambda>c. c\<lparr>extra_repos := rs\<rparr>) m1"] exI[of _ "ws @ extra_repo_warnings head rs"]) (simp add: given_def upd)
  qed
  then obtain m2 w2 where 2: "m2\<lparr>mt_fws := mt_fws m\<rparr> = m" "dict_keys (mt_fws m2) = dict_keys (mt_fws m)"
      "given args (fw @ ''_extra_repos'') parse_extra_repos (extra_repos (fw_get m1 fw)) (extra_repos (fw_get m2 fw))"
      "extra_args (fw_get m2 fw) = extra_args (fw_get m1 fw)" "makefile_patches (fw_get m2 fw) = makefile_patches (fw_get m1 fw)"
      "\<forall>fw'. fw' \<noteq> fw \<longrightarrow> fw_get m2 fw' = fw_get m1 fw'" and r: "last m2 w2 = Inr (m', ws')"
    by (elim exE conjE) (rule that)
  have "m'\<lparr>mt_fws := mt_fws m\<rparr> = m \<and> dict_keys (mt_fws m') = dict_keys (mt_fws m) \<and>
      given args (fw @ ''_makefile_patches'') parse_makefile_patches (makefile_patches (fw_get m2 fw)) (makefile_patches (fw_get m' fw)) \<and>
      extra_args (fw_get m' fw) = extra_args (fw_get m2 fw) \<and> extra_repos (fw_get m' fw) = extra_repos (fw_get m2 fw) \<and>
      (\<forall>fw'. fw' \<noteq> fw \<longrightarrow> fw_get m' fw' = fw_get m2 fw')"
  proof (cases "map_of args (fw @ ''_makefile_patches'')")
    case None
    with r 2 show ?thesis by (simp add: given_def last_def)
  next
    case (Some j)
    with r obtain ps where ps: "parse_makefile_patches j = Inr ps" "m' = upd_fw fw (\<lambda>c. c\<lparr>makefile_patches := ps\<rparr>) m2"
      by (auto simp: last_def)
    with Some 2(1,2) upd keys[of m2] show ?thesis by (simp add: given_def upd)
  qed
  moreover have "extra_args (fw_get m1 fw) = (if dict_has args (fw @ ''_extra_args'') then text_of args (fw @ ''_extra_args'') else extra_args (fw_get m fw))"
    "extra_repos (fw_get m1 fw) = extra_repos (fw_get m fw)" "makefile_patches (fw_get m1 fw) = makefile_patches (fw_get m fw)"
    "\<forall>fw'. fw' \<noteq> fw \<longrightarrow> fw_get m1 fw' = fw_get m fw'"
    by (simp_all add: m1_def)
  ultimately show ?thesis using 2(3-6) by (simp add: fw_given_def)
qed

lemma update_fws_edits:
  assumes "update_fws head args fws (m, ws) = Inr (m', ws')" and "set fws \<subseteq> set (dict_keys (mt_fws m))"
  shows "m'\<lparr>mt_fws := mt_fws m\<rparr> = m \<and> dict_keys (mt_fws m') = dict_keys (mt_fws m) \<and>
    (\<forall>fw \<in> set fws. fw_given args fw (fw_get m fw) (fw_get m' fw)) \<and> (\<forall>fw. fw \<notin> set fws \<longrightarrow> fw_get m' fw = fw_get m fw)"
  using assms
proof (induction fws arbitrary: m ws)
  case (Cons fw fws)
  then obtain m1 w1 where u: "update_fw head args fw (m, ws) = Inr (m1, w1)" and r: "update_fws head args fws (m1, w1) = Inr (m', ws')"
    by auto
  from update_fw_edits[OF u] Cons.prems(2) have 1: "m1\<lparr>mt_fws := mt_fws m\<rparr> = m" "dict_keys (mt_fws m1) = dict_keys (mt_fws m)"
    "fw_given args fw (fw_get m fw) (fw_get m1 fw)" "\<forall>fw'. fw' \<noteq> fw \<longrightarrow> fw_get m1 fw' = fw_get m fw'" by auto
  have "set fws \<subseteq> set (dict_keys (mt_fws m1))" using Cons.prems(2) unfolding 1(2) by simp
  from Cons.IH[OF r this] have 2: "m'\<lparr>mt_fws := mt_fws m1\<rparr> = m1" "dict_keys (mt_fws m') = dict_keys (mt_fws m1)"
    "\<forall>fw \<in> set fws. fw_given args fw (fw_get m1 fw) (fw_get m' fw)" "\<forall>fw. fw \<notin> set fws \<longrightarrow> fw_get m' fw = fw_get m1 fw" by blast+
  have a: "m'\<lparr>mt_fws := mt_fws m\<rparr> = m" using arg_cong[OF 2(1), of "\<lambda>x. x\<lparr>mt_fws := mt_fws m\<rparr>"] 1(1) by simp
  have b: "fw_given args f (fw_get m f) (fw_get m' f)" if "f \<in> set (fw # fws)" for f
  proof (cases "f \<in> set fws")
    case True
    with 1(3,4) 2(3) show ?thesis by (cases "f = fw") (auto intro: fw_given_twice)
  next
    case False
    with that have "f = fw" by simp
    with False 1(3) 2(4) show ?thesis by simp
  qed
  have c: "fw_get m' f = fw_get m f" if "f \<notin> set (fw # fws)" for f
    using that 1(4) 2(4) by simp
  have d: "dict_keys (mt_fws m') = dict_keys (mt_fws m)" unfolding 2(2) 1(2) ..
  show ?case by (intro conjI ballI allI impI) (rule a, rule d, erule b, erule c)
qed simp

lemma family_given:
  assumes "update_family has_staged fams known main_config name args (m, ws) = Inr (m', ws')"
  shows "m' = m\<lparr>mt_firmwares := application_given fams args (mt_firmwares m)\<rparr>"
  using assms
  by (auto simp: update_family_def application_given_def require_family_def asked_application_def Let_def split: if_splits option.splits)

lemma chipset_given:
  assumes "update_chipset has_staged fams name args (m, ws) = Inr (m', ws')"
  shows "m'\<lparr>mt_chipset := mt_chipset m\<rparr> = m \<and>
    (if dict_has args ''chipset'' then require_str args ''chipset'' = Inr (mt_chipset m') else mt_chipset m' = mt_chipset m)"
  using assms by (auto simp: update_chipset_def split: if_splits)

lemma update_mcu_edits:
  assumes "update_mcu has_staged fams known main_config head name args m = Inr (m', ws)"
  shows "mcu_updated fams args m m'"
proof -
  from assms obtain m1 w1 m2 w2 m3 w3 where 1: "update_chipset has_staged fams name args (m, []) = Inr (m1, w1)"
    and 2: "update_family has_staged fams known main_config name args (m1, w1) = Inr (m2, w2)"
    and 3: "update_fws head args (fw_order m2) (m2, w2) = Inr (m3, w3)"
    and 4: "m' = m3\<lparr>mt_firmwares := katapult_given args (mt_firmwares m3)\<rparr>"
    by (auto simp: update_mcu_def katapult_given_def Let_def split: if_splits)
  note c = chipset_given[OF 1] and f = family_given[OF 2]
  have "set (fw_order m2) = set (dict_keys (mt_fws m2))"
    by (auto simp: fw_order_def dict_has_iff)
  with update_fws_edits[OF 3] have u: "m3\<lparr>mt_fws := mt_fws m2\<rparr> = m2" "dict_keys (mt_fws m3) = dict_keys (mt_fws m2)"
    "\<forall>fw \<in> set (dict_keys (mt_fws m2)). fw_given args fw (fw_get m2 fw) (fw_get m3 fw)" by auto
  have 0: "m1 = m\<lparr>mt_chipset := mt_chipset m1\<rparr>" using c by (cases m1; cases m) simp
  have 9: "m3 = m2\<lparr>mt_fws := mt_fws m3\<rparr>" using u(1) by (cases m3; cases m2) simp
  have k: "mt_fws m2 = mt_fws m" by (subst f, subst 0) simp
  have g: "fw_get m2 fw = fw_get m fw" for fw by (simp add: fw_get_def k)
  have h: "fw_get m' fw = fw_get m3 fw" for fw by (simp add: fw_get_def 4)
  have "mt_name m3 = mt_name m" "mt_serials m3 = mt_serials m" "mt_canbus_uuids m3 = mt_canbus_uuids m" "mt_profile m3 = mt_profile m"
    "mt_stop_services m3 = mt_stop_services m" "mt_chipset m3 = mt_chipset m1" "mt_firmwares m3 = application_given fams args (mt_firmwares m)"
    by (subst 9, subst f, subst 0, simp)+
  then have e: "mt_name m' = mt_name m" "mt_serials m' = mt_serials m" "mt_canbus_uuids m' = mt_canbus_uuids m" "mt_profile m' = mt_profile m"
    "mt_stop_services m' = mt_stop_services m" "mt_chipset m' = mt_chipset m1"
    "mt_firmwares m' = katapult_given args (application_given fams args (mt_firmwares m))"
    "dict_keys (mt_fws m') = dict_keys (mt_fws m)"
    using u(2) unfolding 4 k by simp_all
  have w: "\<forall>fw \<in> set (dict_keys (mt_fws m)). fw_given args fw (fw_get m fw) (fw_get m' fw)"
    using u(3) unfolding h g k .
  show ?thesis using conjunct2[OF c] w unfolding mcu_updated_def e by simp
qed

lemma type_update_edits:
  assumes "require_str args ''name'' = Inr name" "\<not> truthy (jget args ''new_name'')" "registry_get rg name = Inr m"
    and "update_mcu has_staged fams known main_config head name args m = Inr (m', ws)"
  shows "type_updated fams args rg (set_mcu rg name m')"
  unfolding type_updated_def
  by (intro exI[of _ name] exI[of _ m] exI[of _ m'])
    (use assms update_mcu_edits[OF assms(4)] in \<open>auto simp: registry_get_def set_mcu_def others_kept_def split: option.splits\<close>)

lemma section_of_type:
  assumes "store_ok (rg_doc rg)" "declared_section rg name = Inr sec"
  shows "good_section sec" "sec \<in> set (section_names (rg_doc rg) None)"
proof -
  have t: "(name, sec) \<in> set (type_sections (rg_doc rg))"
    using assms(2) by (auto simp: declared_section_def split: option.splits dest!: find_sat)
  then have ty: "is_type_section sec" "sec \<in> set (section_names (rg_doc rg) None)" by (auto simp: type_sections_names)
  from ty show "sec \<in> set (section_names (rg_doc rg) None)" by blast
  have "sec \<noteq> []" using ty(1) by (cases sec) (auto simp: is_type_section_def TYPE_PREFIX_def starts_with_def)
  with doc_section_good[OF assms(1) ty(2)] show "good_section sec" by blast
qed

lemma type_remove_edits:
  assumes n: "require_str args ''name'' = Inr name" and ss: "declared_serials rg name = Inr serials"
    and f: "\<not> (serials \<noteq> [] \<and> \<not> truthy (jget args ''force''))" and r: "remove_declared_type rg name = Inr (rg', x)"
  shows "type_removed args rg rg'"
proof -
  let ?rg = "rg\<lparr>rg_types := dict_del (rg_types rg) name\<rparr>"
  from r ss have d: "drop_section ?rg name = Inr rg'"
    by (cases "drop_section ?rg name") (auto simp: remove_declared_type_def)
  have k: "declared_type_names ?rg = declared_type_names rg" "declared_section ?rg name = declared_section rg name"
    by (simp_all add: declared_section_def declared_type_names_def split: option.split)
  have t: "rg_types rg' = dict_del (rg_types rg) name" and
    s: "if name \<in> set (declared_type_names rg)
        then \<exists>sec. declared_section rg name = Inr sec \<and> (store_ok (rg_doc rg) \<longrightarrow> section_dropped sec (rg_doc rg) (rg_doc rg'))
        else rg_doc rg' = rg_doc rg"
  proof -
    have "rg_types rg' = dict_del (rg_types rg) name \<and> (if name \<in> set (declared_type_names rg)
        then \<exists>sec. declared_section rg name = Inr sec \<and> (store_ok (rg_doc rg) \<longrightarrow> section_dropped sec (rg_doc rg) (rg_doc rg'))
        else rg_doc rg' = rg_doc rg)"
    proof (cases "name \<in> set (declared_type_names rg)")
      case True
      with d k obtain sec b d' where sec: "declared_section rg name = Inr sec" "remove_section sec (rg_doc rg) = Inr (d', b)"
        and rg': "rg' = ?rg\<lparr>rg_doc := d'\<rparr>"
        by (cases "declared_section rg name") (auto simp: drop_section_def)
      have "section_dropped sec (rg_doc rg) d'" if "store_ok (rg_doc rg)"
        using store_drop[OF that, of sec] sec(2) by (auto simp: section_dropped_def)
      with True sec(1) rg' show ?thesis by simp
    next
      case False
      with d k show ?thesis by (auto simp: drop_section_def)
    qed
    then show "rg_types rg' = dict_del (rg_types rg) name" "if name \<in> set (declared_type_names rg)
        then \<exists>sec. declared_section rg name = Inr sec \<and> (store_ok (rg_doc rg) \<longrightarrow> section_dropped sec (rg_doc rg) (rg_doc rg'))
        else rg_doc rg' = rg_doc rg" by blast+
  qed
  show ?thesis unfolding type_removed_def
    by (intro exI[of _ name] exI[of _ serials]) (use n ss f t s in \<open>simp add: others_kept_def\<close>)
qed

lemma option_changed_same:
  "store_ok d \<Longrightarrow> option_changed sec key (get_list d sec key) d d"
  by (simp add: option_changed_def)

lemma option_changed_put:
  assumes st: "store_ok (rg_doc rg)" and sec: "declared_section rg name = Inr sec"
    and key: "key \<in> {''serials'', ''canbus_uuids''}" and ids: "list_all listable ids"
    and put: "set_option sec key (VList ids) (rg_doc rg) = Inr d'"
  shows "option_changed sec key ids (rg_doc rg) d'"
proof -
  have "good_edit (Put key (VList ids))" using key ids by (intro good_put_list good_const_keys) auto
  from doc.put_law[OF st section_of_type(1)[OF st sec] this] put section_of_type(2)[OF st sec]
  have 1: "store_ok d'" "section_names d' None = section_names (rg_doc rg) None"
    "\<forall>s' k'. cfg_get d' s' k' None = (if s' = sec \<and> k' = key then Some (value_text (VList ids)) else cfg_get (rg_doc rg) s' k' None)"
    by auto
  moreover have "get_list d' sec key = ids" using 1(3) ids by (intro get_list_value) simp_all
  ultimately show ?thesis by (auto simp: option_changed_def)
qed

lemma option_changed_del:
  assumes st: "store_ok (rg_doc rg)" and del: "remove_option sec key (rg_doc rg) = Inr (d', b)"
  shows "option_changed sec key [] (rg_doc rg) d'"
  using doc.del_law[OF st, of sec key] del by (auto simp: option_changed_def get_list_def)

lemma filtered_listable: "store_ok d \<Longrightarrow> list_all listable (filter P (get_list d sec key))"
  using read_list_listable[of d sec key] by (auto simp: list_all_iff)

lemma serial_remove_edits:
  assumes a: "require_str args ''name'' = Inr name" "require_str args ''serial'' = Inr serial" and r: "untrack_serial name serial rg = Inr (rg', b)"
  shows "serial_removed args rg rg'"
proof (cases "dict_get (rg_types rg) name")
  case (Some m)
  then have "rg' = (if serial \<notin> set (mt_serials m) then rg else set_mcu rg name (m\<lparr>mt_serials := remove1 serial (mt_serials m)\<rparr>))"
    using r by (auto simp: untrack_serial_def remove_declared_serial_def remove_serial_def registry_get_def dict_has_def split: if_splits)
  then show ?thesis using a Some unfolding serial_removed_def
    by (intro exI[of _ name] exI[of _ serial]) (auto simp: set_mcu_def others_kept_def remove1_idem)
next
  case None
  then obtain sec where sec: "declared_section rg name = Inr sec"
    using r by (auto simp: untrack_serial_def remove_declared_serial_def dict_has_def)
  let ?ids = "filter (\<lambda>s. s \<noteq> serial) (get_list (rg_doc rg) sec ''serials'')"
  have e: "rg_types rg' = rg_types rg \<and> (store_ok (rg_doc rg) \<longrightarrow> option_changed sec ''serials'' ?ids (rg_doc rg) (rg_doc rg'))"
  proof (cases "serial \<in> set (get_list (rg_doc rg) sec ''serials'')")
    case False
    then have "?ids = get_list (rg_doc rg) sec ''serials''" by (auto simp: filter_id_conv)
    moreover have "rg' = rg" using False r None sec by (auto simp: untrack_serial_def remove_declared_serial_def dict_has_def)
    ultimately show ?thesis using option_changed_same[of "rg_doc rg" sec "''serials''"] by simp
  next
    case True
    with r None sec obtain d' where "set_option sec ''serials'' (VList ?ids) (rg_doc rg) = Inr d'" "rg' = rg\<lparr>rg_doc := d'\<rparr>"
      by (auto simp: untrack_serial_def remove_declared_serial_def dict_has_def edit_doc_def Let_def)
    with option_changed_put[OF _ sec, of "''serials''" ?ids d'] filtered_listable show ?thesis by auto
  qed
  show ?thesis using a None sec e unfolding serial_removed_def
    by (intro exI[of _ name] exI[of _ serial]) (auto simp: others_kept_def)
qed

lemma canbus_remove_edits:
  assumes a: "require_str args ''name'' = Inr name" "require_str args ''uuid'' = Inr uuid"
    and r: "and_then (get_declared_chipset rg name) (\<lambda>_. remove_declared_canbus_uuid rg name uuid) = Inr (rg', b)"
  shows "uuid_removed args rg rg'"
proof (cases "dict_get (rg_types rg) name")
  case (Some m)
  then have "rg' = (if uuid \<notin> set (mt_canbus_uuids m) then rg else set_mcu rg name (m\<lparr>mt_canbus_uuids := remove1 uuid (mt_canbus_uuids m)\<rparr>))"
    using r by (auto simp: remove_declared_canbus_uuid_def remove_canbus_uuid_def registry_get_def dict_has_def split: if_splits)
  then show ?thesis using a Some unfolding uuid_removed_def
    by (intro exI[of _ name] exI[of _ uuid]) (auto simp: set_mcu_def others_kept_def remove1_idem)
next
  case None
  then obtain sec where sec: "declared_section rg name = Inr sec"
    using r by (auto simp: remove_declared_canbus_uuid_def dict_has_def)
  let ?ids = "filter (\<lambda>s. s \<noteq> uuid) (get_list (rg_doc rg) sec ''canbus_uuids'')"
  have rm: "remove_declared_canbus_uuid rg name uuid = Inr (rg', b)" using r by auto
  have e: "rg_types rg' = rg_types rg \<and> (store_ok (rg_doc rg) \<longrightarrow> option_changed sec ''canbus_uuids'' ?ids (rg_doc rg) (rg_doc rg'))"
  proof (cases "uuid \<in> set (get_list (rg_doc rg) sec ''canbus_uuids'')")
    case False
    then have "?ids = get_list (rg_doc rg) sec ''canbus_uuids''" by (auto simp: filter_id_conv)
    moreover have "rg' = rg" using False rm None sec by (auto simp: remove_declared_canbus_uuid_def dict_has_def Let_def)
    ultimately show ?thesis using option_changed_same[of "rg_doc rg" sec "''canbus_uuids''"] by simp
  next
    case True
    note un = remove_declared_canbus_uuid_def dict_has_def edit_doc_def Let_def
    show ?thesis
    proof (cases "?ids = []")
      case False
      with True rm None sec obtain d' where "set_option sec ''canbus_uuids'' (VList ?ids) (rg_doc rg) = Inr d'" "rg' = rg\<lparr>rg_doc := d'\<rparr>"
        by (auto simp: un split: if_splits)
      with option_changed_put[OF _ sec, of "''canbus_uuids''" ?ids d'] filtered_listable show ?thesis by auto
    next
      case nil: True
      have "edit_doc rg (map_sum id fst (remove_option sec ''canbus_uuids'' (rg_doc rg))) = Inr (rg', b)"
        using True nil rm None sec unfolding remove_declared_canbus_uuid_def dict_has_def Let_def by simp
      then obtain d' c where "remove_option sec ''canbus_uuids'' (rg_doc rg) = Inr (d', c)" "rg' = rg\<lparr>rg_doc := d'\<rparr>"
        by (auto simp: edit_doc_def)
      with option_changed_del nil show ?thesis by auto
    qed
  qed
  show ?thesis using a None sec e unfolding uuid_removed_def
    by (intro exI[of _ name] exI[of _ uuid]) (auto simp: others_kept_def)
qed

lemma canbus_add_edits:
  assumes a: "require_str args ''name'' = Inr name" "require_str args ''uuid'' = Inr uuid" and r: "record_uuid name uuid rg = Inr (rg', b, chipset)"
  shows "uuid_added args rg rg'"
proof -
  have nil: "filter (\<lambda>t. t \<noteq> name) (find_declared_types_for_uuid rg uuid) = []"
    and add: "add_declared_canbus_uuid rg name uuid = Inr (rg', b)"
    using r by (cases "filter (\<lambda>t. t \<noteq> name) (find_declared_types_for_uuid rg uuid)"; auto simp: record_uuid_def)+
  have u: "\<forall>t \<in> set (find_declared_types_for_uuid rg uuid). t = name" using nil by (auto simp: filter_empty_conv)
  show ?thesis
  proof (cases "dict_get (rg_types rg) name")
    case (Some m)
    then have "rg' = (if uuid \<in> set (mt_canbus_uuids m) then rg else set_mcu rg name (m\<lparr>mt_canbus_uuids := mt_canbus_uuids m @ [uuid]\<rparr>))"
      using add by (auto simp: add_declared_canbus_uuid_def add_canbus_uuid_def registry_get_def dict_has_def split: if_splits)
    then show ?thesis using a Some u unfolding uuid_added_def
      by (intro exI[of _ name] exI[of _ uuid]) (auto simp: set_mcu_def others_kept_def)
  next
    case None
    then obtain sec where sec: "declared_section rg name = Inr sec"
      using add by (auto simp: add_declared_canbus_uuid_def dict_has_def)
    let ?xs = "get_list (rg_doc rg) sec ''canbus_uuids''"
    have e: "rg_types rg' = rg_types rg \<and> (store_ok (rg_doc rg) \<and> listable uuid \<longrightarrow>
      option_changed sec ''canbus_uuids'' (if uuid \<in> set ?xs then ?xs else ?xs @ [uuid]) (rg_doc rg) (rg_doc rg'))"
    proof (cases "uuid \<in> set ?xs")
      case True
      moreover have "rg' = rg" using True add None sec by (auto simp: add_declared_canbus_uuid_def dict_has_def Let_def)
      ultimately show ?thesis using option_changed_same[of "rg_doc rg" sec "''canbus_uuids''"] by simp
    next
      case False
      with add None sec obtain d' where "set_option sec ''canbus_uuids'' (VList (?xs @ [uuid])) (rg_doc rg) = Inr d'" "rg' = rg\<lparr>rg_doc := d'\<rparr>"
        by (auto simp: add_declared_canbus_uuid_def dict_has_def edit_doc_def Let_def)
      with option_changed_put[OF _ sec, of "''canbus_uuids''" "?xs @ [uuid]" d'] read_list_listable False show ?thesis by auto
    qed
    show ?thesis using a None sec e u unfolding uuid_added_def Let_def
      by (intro exI[of _ name] exI[of _ uuid]) (auto simp: others_kept_def)
  qed
qed

subsection \<open>Every method\<close>

lemma type_add_ends: "ends_ok (type_added args) s (type_add env known main_config head args s)"
  unfolding type_add_def Let_def
proof (intro ends_intros refuses_intros, goal_cases)
  case (2 x name b chipset c application parsed rg rg' u)
  then have a: "require_str args ''name'' = Inr name" "require_str args ''chipset'' = Inr chipset"
    "require_family known main_config args = Inr application" "parsed_for args [''klipper'', ''katapult''] = Inr parsed"
    by (auto simp del: parsed_for.simps)
  from 2(5) obtain rg1 m where r: "add_type rg name chipset (text_of args ''klipper_extra_args'') (text_of args ''katapult_extra_args'')
      (if jget args ''katapult_installed'' = JNull then True else truthy (jget args ''katapult_installed'')) application [] False = Inr (rg1, m)"
    and e: "rg' = set_mcu rg1 name (with_parsed parsed m)"
    unfolding and_then_eq_Inr raising_Inr by auto
  show ?case unfolding e by (rule type_add_edits[OF a r])
qed simp

lemma type_update_ends: "ends_ok (type_updated fams args) s (type_update env has_staged fams known main_config head args s)"
  unfolding type_update_def
  by (intro ends_intros refuses_intros) (auto split: prod.split intro: type_update_edits)

lemma type_remove_ends: "ends_ok (type_removed args) s (type_remove env type_dir args s)"
  unfolding type_remove_def
  by (intro ends_intros refuses_intros) (auto split: if_splits intro: type_remove_edits)

lemma name_and_Inr: "name_and args key = Inr (name, ident) \<longleftrightarrow> require_str args ''name'' = Inr name \<and> require_str args key = Inr ident"
  by (auto simp: name_and_def)

lemma board_ends:
  "ends_ok (serial_removed args) s (serial_remove env args s)"
  "ends_ok (uuid_added args) s (canbus_add env args s)"
  "ends_ok (uuid_removed args) s (canbus_remove env args s)"
  unfolding serial_remove_def canbus_add_def canbus_remove_def
  subgoal by (intro ends_intros refuses_intros) (auto simp: name_and_Inr intro: serial_remove_edits)
  subgoal by (intro ends_intros refuses_intros) (auto simp: name_and_Inr split: prod.split intro: canbus_add_edits)
  subgoal premises p
  proof (intro ends_intros refuses_intros, goal_cases)
    case (2 x name uuid rg rg' b)
    then have "require_str args ''name'' = Inr name" "require_str args ''uuid'' = Inr uuid" by (simp_all add: name_and_Inr)
    moreover have "and_then (get_declared_chipset rg name) (\<lambda>_. remove_declared_canbus_uuid rg name uuid) = Inr (rg', b)"
      using 2(3) unfolding raising_Inr .
    ultimately show ?case by (rule canbus_remove_edits)
  qed simp
  done

text \<open>C17: every change of a type or a board is made whole or not at all, and is the change that was asked for. Whatever one
  of the six methods answers other than a result, the configuration file is what it was, byte for byte; a result means
  that the registry was read after the lock was taken, that the one saved differs from it as \<open>edited\<close> says - the
  named type added, changed in the given keys only, removed (with boards only when forced), or one board more or less in
  its list, every other type, every other section and option as it was - and that the file is what the validated save wrote. The
  lock is free again afterwards, on every path, and nothing is done at all while another holds it.\<close>

theorem registry_edit_atomic:
  assumes "(n, h) \<in> set (registry_methods env v)" and "h args s = (r, s')"
  shows "edit_effect (\<exists>x. r = Gave x) (edited v n args) s s'"
proof -
  from assms(1) consider
      "n = ''fw.type.add''" "h = type_add env (ev_known v) (ev_main_config v) (ev_head v)"
    | "n = ''fw.type.update''" "h = type_update env (ev_has_staged v) (ev_families v) (ev_known v) (ev_main_config v) (ev_head v)"
    | "n = ''fw.type.remove''" "h = type_remove env (ev_type_dir v)"
    | "n = ''fw.serial.remove''" "h = serial_remove env"
    | "n = ''fw.canbus.add''" "h = canbus_add env"
    | "n = ''fw.canbus.remove''" "h = canbus_remove env"
    unfolding registry_methods_def list.set insert_iff prod.inject empty_iff by argo
  then have "ends_ok (edited v n args) s (h args s)"
    by cases (simp_all add: edited_def type_add_ends type_update_ends type_remove_ends board_ends)
  with assms(2) show ?thesis by (simp add: ends_ok_def)
qed

definition demo_edit_env :: "registry_error caller_env" where
  "demo_edit_env = \<lparr>ce_party = 1, ce_pid = 7, ce_now = JNull, ce_reads = (\<lambda>_. (''refused'', JNull))\<rparr>"

definition demo_view :: edit_view where
  "demo_view = \<lparr>ev_has_staged = (\<lambda>_ _. False), ev_families = [], ev_known = [''klipper''], ev_main_config = ''/cfg'',
     ev_head = (\<lambda>_. None), ev_type_dir = (\<lambda>t. ''/types/'' @ t)\<rparr>"

definition demo_can_lines :: "string list" where
  "demo_can_lines = [''[firmware klipper]'', ''flashers: flashtool'', ''[type ebb]'', ''chipset: rp2040'', ''firmware: klipper'',
     ''canbus_uuids: c0ffee'', ''[type other]'', ''chipset: rp2040'', ''firmware: klipper'']"

definition demo_removed :: "method_end \<times> lock_file \<times> string option" where
  "demo_removed = type_remove demo_edit_env (ev_type_dir demo_view) [(''name'', JStr ''ebb'')]
     (\<lparr>lf_owner = None, lf_text = None\<rparr>, Some (join [CHR 0x0A] demo_can_lines))"

text \<open>Only serials are counted: a type that tracks a board by its CAN uuid is removed without being forced.\<close>

lemma removes_a_tracked_uuid:
  "fst demo_removed = Gave (JObj [(''name'', JStr ''ebb''), (''removed_serials'', JInt 0), (''kept_config_dir'', JStr ''/types/ebb'')])"
  by code_simp

theorem registry_edit_atomic_witness:
  "edit_effect True (edited demo_view ''fw.type.remove'' [(''name'', JStr ''ebb'')])
     (\<lparr>lf_owner = None, lf_text = None\<rparr>, Some (join [CHR 0x0A] demo_can_lines)) (snd demo_removed)"
proof -
  have m: "(''fw.type.remove'', type_remove demo_edit_env (ev_type_dir demo_view)) \<in> set (registry_methods demo_edit_env demo_view)"
    by (simp add: registry_methods_def)
  have h: "type_remove demo_edit_env (ev_type_dir demo_view) [(''name'', JStr ''ebb'')]
     (\<lparr>lf_owner = None, lf_text = None\<rparr>, Some (join [CHR 0x0A] demo_can_lines)) = (fst demo_removed, snd demo_removed)"
    by (simp add: demo_removed_def)
  have "\<exists>x. fst demo_removed = Gave x" using removes_a_tracked_uuid by blast
  with registry_edit_atomic[OF m h] show ?thesis by simp
qed

end
