(* ===== verification/AgentServe.thy ===== *)
theory AgentServe
  imports AgentEdits
begin

section \<open>The agent over a sequence of requests (agent/methods)\<close>

text \<open>
  The handlers of \<open>AgentApi\<close>, \<open>AgentSettings\<close> and \<open>AgentEdits\<close> over one world: the configuration file, which holds the
  settings and the types, its lock, the operation lock and the boards. Every request reads the settings from
  the file as it then stands, so what is offered changes with \<open>fw.settings.set\<close> and with an edit by
  hand. The handlers that are not modelled are an argument and may do anything.
\<close>

subsection \<open>The handlers\<close>

text \<open>\<open>ae_view\<close> is what the registry methods read of the host, the families among it, given the file.\<close>

record 'w agent_env =
  ae_track :: "track_error caller_env"
  ae_registry :: "registry_error caller_env"
  ae_settings :: "settings_error caller_env"
  ae_provs :: "'w provisioner list"
  ae_table :: "(string, 'w helper) dict"
  ae_path :: string
  ae_view :: "string option \<Rightarrow> edit_view"

definition settings_in :: "'w agent_world \<Rightarrow> settings" where
  "settings_in w = agent_settings (Inr (tw_file (aw_track w)))"

text \<open>A handler of the file and its lock; a result is announced when \<open>loud\<close> says that it changed something.\<close>

definition on_file ::
  "(string option \<Rightarrow> bool) \<Rightarrow> (lock_file \<times> string option \<Rightarrow> method_end \<times> lock_file \<times> string option) \<Rightarrow> 'w agent_world \<Rightarrow> method_end \<times> 'w agent_world" where
  "on_file loud act w =
     (case act (tw_lock (aw_track w), tw_file (aw_track w)) of
        (r, l, f) \<Rightarrow>
          (r, w\<lparr>aw_track := (aw_track w)\<lparr>tw_lock := l, tw_file := f\<rparr>,
             aw_changed := aw_changed w + (case r of Gave _ \<Rightarrow> if loud (tw_file (aw_track w)) then 1 else 0 | _ \<Rightarrow> 0)\<rparr>))"

definition ignore_announces :: "bool \<Rightarrow> bool \<Rightarrow> (string \<times> json) list \<Rightarrow> string option \<Rightarrow> bool" where
  "ignore_announces can hide args file =
     (case (require_str args (if can then ''uuid'' else ''serial''), load_settings (Inr file)) of
        (Inr word, Inr s) \<Rightarrow> snd (ignore_word hide word (if can then ignored_canbus_uuids s else ignored_serials s))
      | _ \<Rightarrow> False)"

definition ignore_methods :: "(string, bool \<times> bool) dict" where
  "ignore_methods =
     [(''bus_ignore'', False, True), (''bus_unignore'', False, False), (''canbus_ignore'', True, True), (''canbus_unignore'', True, False)]"

definition agent_handlers ::
  "bool \<Rightarrow> 'w agent_env \<Rightarrow> bus_device list \<Rightarrow> 'w agent_world handlers \<Rightarrow> 'w agent_world handlers" where
  "agent_handlers has_runner env sweep others attr args w =
     (if attr = ''identity_provision'' then identity_provision (ae_track env) (ae_provs env) args w
      else if attr = ''identity_clear'' then identity_clear (ae_track env) (ae_provs env) args w
      else if attr = ''serial_add'' then serial_add (ae_track env) (ae_table env) has_runner (settings_in w) sweep args w
      else if attr = ''settings_get'' then (settings_get (Inr (tw_file (aw_track w))), w)
      else if attr = ''settings_set'' then
        on_file (\<lambda>_. True) (\<lambda>st. case settings_set (ae_settings env) (ae_path env) args st of (r, st', _) \<Rightarrow> (r, st')) w
      else
        (case dict_get ignore_methods attr of
           Some (can, hide) \<Rightarrow> on_file (ignore_announces can hide args) (ignore_set (ae_settings env) can hide args) w
         | None \<Rightarrow>
             (case find (\<lambda>(n, h). dict_get METHODS n = Some attr) (registry_methods (ae_registry env) (ae_view env (tw_file (aw_track w)))) of
                Some (n, h) \<Rightarrow> on_file (\<lambda>_. True) (h args) w
              | None \<Rightarrow> others attr args w)))"

subsection \<open>A life of the agent\<close>

text \<open>Requests with the sweep of the bus each would see, and what others do to the file and the two locks
  in between: an edit by hand, the command line tool, another agent.\<close>

datatype serve_event =
    Asked json json "bus_device list"
  | Elsewhere lock_file lock_file "string option"

fun serve_one :: "bool \<Rightarrow> 'w agent_env \<Rightarrow> 'w agent_world handlers \<Rightarrow> serve_event \<Rightarrow> 'w agent_world \<Rightarrow> 'w agent_world" where
  "serve_one has_runner env others (Asked called params sweep) w =
     snd (dispatch has_runner (settings_in w) (agent_handlers has_runner env sweep others) called params w)"
| "serve_one has_runner env others (Elsewhere op l f) w = w\<lparr>aw_track := (aw_track w)\<lparr>tw_op_lock := op, tw_lock := l, tw_file := f\<rparr>\<rparr>"

text \<open>Each event with the world it met and the world it left.\<close>

fun serve_all ::
  "bool \<Rightarrow> 'w agent_env \<Rightarrow> 'w agent_world handlers \<Rightarrow> serve_event list \<Rightarrow> 'w agent_world \<Rightarrow> (serve_event \<times> 'w agent_world \<times> 'w agent_world) list" where
  "serve_all has_runner env others [] w = []"
| "serve_all has_runner env others (e # es) w =
     (let w' = serve_one has_runner env others e w in (e, w, w') # serve_all has_runner env others es w')"

subsection \<open>Who may write a board\<close>

text \<open>The seven methods that can write a board, and those left to the argument: they read, build, or edit answers.\<close>

definition board_writers :: "string list" where
  "board_writers = [''fw.flash'', ''fw.flash_all'', ''fw.update_all'', ''fw.add_mcu.start'', ''fw.identity.provision'', ''fw.identity.clear'', ''fw.serial.add'']"

definition readers_and_builders :: "string list" where
  "readers_and_builders =
     [''fw.ping'', ''fw.status'', ''fw.type.list'', ''fw.target.get'', ''fw.bus.scan'', ''fw.dfu.scan'', ''fw.bootsel.scan'', ''fw.add_mcu.scan'',
      ''fw.canbus.scan'', ''fw.artifacts'', ''fw.build'', ''fw.clean'', ''fw.job.get'', ''fw.job.cancel'', ''fw.build_all'', ''fw.kconfig.open'',
      ''fw.kconfig.menu'', ''fw.kconfig.enter'', ''fw.kconfig.up'', ''fw.kconfig.set'', ''fw.kconfig.help'', ''fw.kconfig.search'',
      ''fw.kconfig.reset'', ''fw.kconfig.save'', ''fw.kconfig.close'', ''fw.profile.list'', ''fw.profile.apply'', ''fw.profile.forget'']"

lemma on_file_boards [simp]: "boards (snd (on_file loud act w)) = boards w"
  by (simp add: on_file_def split: prod.split)

text \<open>Of the modelled handlers only three can change a board, and \<open>serial_add\<close> only where it may provision.\<close>

lemma handled_boards:
  assumes "dict_get METHODS m = Some attr"
    and "boards (snd (agent_handlers has_runner env sweep others attr args w)) \<noteq> boards w"
  shows "m \<in> set readers_and_builders \<or> m \<in> set board_writers \<and> (m = ''fw.serial.add'' \<longrightarrow> hardware_writes_allowed has_runner (settings_in w))"
proof (rule ccontr)
  assume n: "\<not> ?thesis"
  have sa: "\<not> hardware_writes_allowed has_runner (settings_in w) \<Longrightarrow>
      boards (snd (serial_add (ae_track env) (ae_table env) has_runner (settings_in w) sweep args w)) = boards w"
    by (rule serial_add_keeps_boards)
  have "m = ''fw.serial.add'' \<longrightarrow> attr = ''serial_add''" using assms(1) by (auto simp: METHODS_def)
  then have k: "m \<noteq> ''fw.serial.add''"
    using assms(2) n sa by (auto simp: agent_handlers_def board_writers_def)
  have "list_all (\<lambda>(k, a). k \<in> set readers_and_builders \<or> k \<in> set board_writers \<or>
     a = ''settings_get'' \<or> a = ''settings_set'' \<or> dict_get ignore_methods a \<noteq> None \<or>
     (\<exists>n \<in> {''fw.type.add'', ''fw.type.update'', ''fw.type.remove'', ''fw.serial.remove'', ''fw.canbus.add'', ''fw.canbus.remove''}. dict_get METHODS n = Some a)) METHODS"
    by code_simp
  then have c: "attr = ''settings_get'' \<or> attr = ''settings_set'' \<or> dict_get ignore_methods attr \<noteq> None \<or>
     (\<exists>n \<in> {''fw.type.add'', ''fw.type.update'', ''fw.type.remove'', ''fw.serial.remove'', ''fw.canbus.add'', ''fw.canbus.remove''}. dict_get METHODS n = Some attr)"
    using map_of_SomeD[OF assms(1)] n k by (auto simp: list_all_iff)
  have f: "find (\<lambda>(n, h). dict_get METHODS n = Some attr) (registry_methods (ae_registry env) v) \<noteq> None"
    if "\<exists>n \<in> {''fw.type.add'', ''fw.type.update'', ''fw.type.remove'', ''fw.serial.remove'', ''fw.canbus.add'', ''fw.canbus.remove''}. dict_get METHODS n = Some attr" for v
    using that by (auto simp: registry_methods_def find_None_iff)
  have "attr \<notin> {''identity_provision'', ''identity_clear'', ''serial_add''}"
    using c by (auto simp: METHODS_def ignore_methods_def)
  then have "boards (snd (agent_handlers has_runner env sweep others attr args w)) = boards w"
    using c f[of "ae_view env (tw_file (aw_track w))"] by (auto simp: agent_handlers_def split: option.split prod.split)
  with assms(2) show False by simp
qed

lemma serve_one_boards:
  assumes "boards (serve_one has_runner env others e w) \<noteq> boards w"
  shows "\<exists>m params sweep. e = Asked (JStr m) params sweep \<and>
    (m \<in> set readers_and_builders \<or> m \<in> set board_writers \<and> has_runner \<and> enable_flashing (settings_in w))"
proof (cases e)
  case (Asked called params sweep)
  let ?s = "settings_in w"
  obtain m attr args where m: "called = JStr m" "dict_get (available_methods has_runner ?s) m = Some attr"
      "boards (snd (agent_handlers has_runner env sweep others attr args w)) \<noteq> boards w"
    using assms Asked by (cases called) (auto simp: dispatch_def split: if_splits option.splits sum.splits)
  from available_attr[OF m(2)] m(3) have h: "m \<in> set readers_and_builders \<or>
      m \<in> set board_writers \<and> (m = ''fw.serial.add'' \<longrightarrow> hardware_writes_allowed has_runner ?s)" by (rule handled_boards)
  have "m = ''fw.serial.add'' \<or> has_runner \<and> enable_flashing ?s" if "m \<in> set board_writers"
    using m(2) that by (auto simp: available_get board_writers_def FLASH_METHODS_def HARDWARE_METHODS_def JOB_METHODS_def split: if_splits)
  with h Asked m(1) show ?thesis by (auto simp: hardware_writes_allowed_def)
next
  case (Elsewhere op l f)
  with assms show ?thesis by simp
qed

text \<open>C14: a board is only written where flashing is allowed at that moment. Over any sequence of requests, edits of the
  configuration by hand and changes of the locks from elsewhere, an event that changes a board is a request for one of the seven
  board-writing methods, served by an agent with a runner while the file, as it stood when the request came, enabled
  flashing - whatever it said before or is made to say later - or a request for one of the named
  methods that read, scan, build or edit answers, whose handlers are an argument here. In particular the settings, type, board
  and ignore methods never change a board, and \<open>fw.serial.add\<close>, which stays reachable, provisions
  none where flashing is disabled.\<close>

theorem no_board_write_when_withheld:
  assumes "(e, w, w') \<in> set (serve_all has_runner env others es w0)" and "boards w' \<noteq> boards w"
  shows "\<exists>m params sweep. e = Asked (JStr m) params sweep \<and>
    (m \<in> set readers_and_builders \<or> m \<in> set board_writers \<and> has_runner \<and> enable_flashing (settings_in w))"
proof -
  have "w' = serve_one has_runner env others e w"
    using assms(1) by (induction es arbitrary: w0) (auto simp: Let_def)
  with serve_one_boards assms(2) show ?thesis by blast
qed

text \<open>The events of a trace follow each other: each starts from the world the one before it left.\<close>

lemma serve_all_chain: "serve_all has_runner env others (es @ fs) w =
  serve_all has_runner env others es w @ serve_all has_runner env others fs (foldl (\<lambda>w e. serve_one has_runner env others e w) w es)"
  by (induction es arbitrary: w) (simp_all add: Let_def)

definition demo_agent_env :: "nat agent_env" where
  "demo_agent_env = \<lparr>ae_track = demo_env, ae_registry = demo_edit_env, ae_settings = demo_settings_env, ae_provs = [demo_provisioner],
     ae_table = [(''rr'', demo_board)], ae_path = ''/cfg'', ae_view = (\<lambda>_. demo_view)\<rparr>"

definition demo_others :: "nat agent_world handlers" where
  "demo_others attr args w = (Gave JNull, w)"

definition demo_provision :: serve_event where
  "demo_provision = Asked (JStr ''fw.identity.provision'') (JObj [(''serial'', JStr ''NEW'')]) []"

text \<open>Refused while flashing is off; turned on by hand; served.\<close>

definition demo_enabled :: "string list" where
  "demo_enabled = demo_with_helper @ [''[updater]'', ''enable_flashing: yes'']"

definition demo_requests :: "serve_event list" where
  "demo_requests =
     [demo_provision,
      Elsewhere \<lparr>lf_owner = None, lf_text = None\<rparr> \<lparr>lf_owner = None, lf_text = None\<rparr> (Some (render_doc (doc_of_lines False demo_enabled))),
      demo_provision]"

definition demo_served :: "(serve_event \<times> nat agent_world \<times> nat agent_world) list" where
  "demo_served = serve_all True demo_agent_env demo_others demo_requests demo_agent"

lemma demo_served_boards: "map (\<lambda>(e, w, w'). (boards w, boards w')) demo_served = [(0, 0), (0, 0), (0, 1)]"
  by code_simp

theorem no_board_write_when_withheld_witness:
  "enable_flashing (settings_in (fst (snd (demo_served ! 2)))) \<and> boards (snd (snd (demo_served ! 2))) = 1 \<and>
   boards (fst (snd (demo_served ! 2))) = 0"
proof -
  have len: "length demo_served = 3" using arg_cong[OF demo_served_boards, of length] by simp
  let ?x = "demo_served ! 2"
  have b: "(boards (fst (snd ?x)), boards (snd (snd ?x))) = (0, 1)"
    using arg_cong[OF demo_served_boards, of "\<lambda>l. l ! 2"] len by (simp add: case_prod_beta)
  have x: "(fst ?x, fst (snd ?x), snd (snd ?x)) \<in> set (serve_all True demo_agent_env demo_others demo_requests demo_agent)"
    using len nth_mem[of 2 demo_served] by (simp add: demo_served_def)
  have e: "fst ?x = demo_provision" by (simp add: demo_served_def demo_requests_def Let_def)
  from no_board_write_when_withheld[OF x] b e show ?thesis
    by (auto simp: demo_provision_def readers_and_builders_def)
qed

end
