(* ===== verification/Pairing.thy ===== *)
theory Pairing
  imports Tracking Discovery Rpc
begin

section \<open>Boards that turn up late (flashers/pairings.py, agent/methods/flash.py)\<close>

text \<open>
  A bootloader install notes which type a board was to become; \<open>adopt_paired\<close> completes it when the
  board appears. The pairings file is what \<open>json.load\<close> makes of it, \<open>None\<close> when it is missing or cannot be
  parsed; times are exact numbers of seconds, and whether a write of the file succeeds is a parameter. Keys are
  written sorted, which no reader sees.
\<close>

subsection \<open>The store\<close>

datatype pairing_error = NotAnEntry | NotWritten

definition PAIRING_TTL :: rat where "PAIRING_TTL = 24 * 3600"

definition pairings_all :: "json option \<Rightarrow> (string \<times> json) list" where
  "pairings_all content = (case content of Some (JObj d) \<Rightarrow> d | _ \<Rightarrow> [])"

definition pairings_write :: "bool \<Rightarrow> (string \<times> json) list \<Rightarrow> pairing_error + json option" where
  "pairings_write write_ok d = (if write_ok then Inr (Some (JObj d)) else Inl NotWritten)"

text \<open>\<open>now\<close> is the time as the JSON number that is stored.\<close>

definition pairing_record :: "bool \<Rightarrow> string \<Rightarrow> string \<Rightarrow> json \<Rightarrow> json option \<Rightarrow> pairing_error + json option" where
  "pairing_record write_ok key mcu_type now content =
     (if key = [] then Inr content
      else pairings_write write_ok (dict_set (pairings_all content) key (JObj [(''type'', JStr mcu_type), (''at'', now)])))"

definition type_for :: "rat \<Rightarrow> rat \<Rightarrow> json option \<Rightarrow> string \<Rightarrow> pairing_error + string option" where
  "type_for ttl now content key =
     (let found = jget (pairings_all content) key in
      if \<not> truthy found then Inr None
      else case found of
        JObj e \<Rightarrow>
          (case num_value (jget e ''at'') of
             None \<Rightarrow> Inr None
           | Some t \<Rightarrow>
               if now - t > ttl then Inr None
               else (case jget e ''type'' of JStr m \<Rightarrow> Inr (if m \<noteq> [] then Some m else None) | _ \<Rightarrow> Inr None))
      | _ \<Rightarrow> Inl NotAnEntry)"

definition pairing_forget :: "bool \<Rightarrow> string \<Rightarrow> json option \<Rightarrow> pairing_error + json option" where
  "pairing_forget write_ok key content =
     (if jget (pairings_all content) key = JNull then Inr content
      else pairings_write write_ok (dict_del (pairings_all content) key))"

fun fresh :: "rat \<Rightarrow> rat \<Rightarrow> json \<Rightarrow> bool" where
  "fresh ttl now (JObj e) = (case num_value (jget e ''at'') of None \<Rightarrow> False | Some t \<Rightarrow> now - t \<le> ttl)"
| "fresh ttl now _ = False"

fun is_obj :: "json \<Rightarrow> bool" where
  "is_obj (JObj e) = True"
| "is_obj _ = False"

definition pairing_prune :: "bool \<Rightarrow> rat \<Rightarrow> rat \<Rightarrow> json option \<Rightarrow> pairing_error + json option \<times> nat" where
  "pairing_prune write_ok ttl now content =
     (let data = pairings_all content; keep = filter (\<lambda>(k, e). fresh ttl now e) data in
      if \<not> list_all (is_obj \<circ> snd) data then Inl NotAnEntry
      else and_then (if length keep \<noteq> length data then pairings_write write_ok keep else Inr content)
        (\<lambda>content'. Inr (content', length data - length keep)))"

subsection \<open>Adoption\<close>

definition candidate_keys :: "string \<Rightarrow> string list" where
  "candidate_keys serial = (case dfu_serial_for serial of Some d \<Rightarrow> if d \<noteq> [] then [d, serial] else [serial] | None \<Rightarrow> [serial])"

definition key_count :: "bus_device list \<Rightarrow> string \<Rightarrow> nat" where
  "key_count untracked key = count_list (concat (map (candidate_keys \<circ> bd_serial) untracked)) key"

fun adopt_key ::
  "(string \<Rightarrow> nat) \<Rightarrow> (string \<Rightarrow> rat) \<Rightarrow> rat \<Rightarrow> json option \<Rightarrow> string list \<Rightarrow> pairing_error + (string \<times> string) option" where
  "adopt_key seen time ttl content [] = Inr None"
| "adopt_key seen time ttl content (k # ks) =
     (if seen k \<noteq> 1 then adopt_key seen time ttl content ks
      else and_then (type_for ttl (time k) content k) (\<lambda>found.
        case found of Some t \<Rightarrow> Inr (Some (t, k)) | None \<Rightarrow> adopt_key seen time ttl content ks))"

record adopted =
  ad_type :: string
  ad_serial :: string
  ad_key :: string

datatype adopt_error = PairingFailed pairing_error | SaveRefused edit_error | RegistryUnread types_error

text \<open>The caller's place in the lock, and the times at which a device's key is looked up and the end is reached.\<close>

record adopt_env =
  ae_party :: nat
  ae_pid :: int
  ae_stamp :: json
  ae_time :: "bus_device \<Rightarrow> string \<Rightarrow> rat"
  ae_end :: rat
  ae_write :: bool

type_synonym adopt_state = "(lock_file \<times> string option) \<times> json option"

text \<open>A refusal of the registry is logged and passed over; a value the document cannot hold is not one of those.\<close>

fun adopt_devices ::
  "adopt_env \<Rightarrow> rat \<Rightarrow> (string \<Rightarrow> nat) \<Rightarrow> string list \<Rightarrow> bus_device list \<Rightarrow> adopt_state \<Rightarrow> (adopt_error + adopted list) \<times> adopt_state" where
  "adopt_devices env ttl seen names [] s = (Inr [], s)"
| "adopt_devices env ttl seen names (d # ds) s =
     (case adopt_key seen (ae_time env d) ttl (snd s) (candidate_keys (bd_serial d)) of
        Inl e \<Rightarrow> (Inl (PairingFailed e), s)
      | Inr None \<Rightarrow> adopt_devices env ttl seen names ds s
      | Inr (Some (t, key)) \<Rightarrow>
          if t \<notin> set names then adopt_devices env ttl seen names ds s
          else
            (case locked_mutate (ae_party env) (ae_pid env) (''adopt '' @ bd_serial d @ '' as '' @ t) (ae_stamp env)
                    (\<lambda>rg. add_serial rg t (bd_serial d)) (fst s) of
               (f, Inl (EditRefused e)) \<Rightarrow> (Inl (SaveRefused e), (f, snd s))
             | (f, Inl _) \<Rightarrow> adopt_devices env ttl seen names ds (f, snd s)
             | (f, Inr False) \<Rightarrow> adopt_devices env ttl seen names ds (f, snd s)
             | (f, Inr True) \<Rightarrow>
                 (case pairing_forget (ae_write env) key (snd s) of
                    Inl e \<Rightarrow> (Inl (PairingFailed e), (f, snd s))
                  | Inr content \<Rightarrow>
                      (case adopt_devices env ttl seen names ds (f, content) of
                         (Inl e, s') \<Rightarrow> (Inl e, s')
                       | (Inr got, s') \<Rightarrow> (Inr (\<lparr>ad_type = t, ad_serial = bd_serial d, ad_key = key\<rparr> # got), s')))))"

definition adopt_prune :: "adopt_env \<Rightarrow> rat \<Rightarrow> (adopt_error + adopted list) \<times> adopt_state \<Rightarrow> (adopt_error + adopted list) \<times> adopt_state" where
  "adopt_prune env ttl r =
     (case r of
        (Inl e, s) \<Rightarrow> (Inl e, s)
      | (Inr got, s) \<Rightarrow>
          (case pairing_prune (ae_write env) ttl (ae_end env) (snd s) of
             Inl e \<Rightarrow> (Inl (PairingFailed e), s)
           | Inr (content, _) \<Rightarrow> (Inr got, (fst s, content))))"

definition adopt_paired ::
  "adopt_env \<Rightarrow> (bus_device \<Rightarrow> string option) \<Rightarrow> bus_device list \<Rightarrow> adopt_state \<Rightarrow> (adopt_error + adopted list) \<times> adopt_state" where
  "adopt_paired env port_of bus s =
     (if pairings_all (snd s) = [] then (Inr [], s)
      else case registry_load (Inr (snd (fst s))) of
        Inl e \<Rightarrow> (Inl (RegistryUnread e), s)
      | Inr rg \<Rightarrow>
          (let untracked = find_untracked port_of bus (all_serials rg) None None None in
           adopt_prune env PAIRING_TTL
             (if untracked = [] then (Inr [], s)
              else adopt_devices env PAIRING_TTL (key_count untracked) (registry_names rg) untracked s)))"

subsection \<open>The store's life\<close>

lemma jget_map_of: "jget d k = (case map_of d k of None \<Rightarrow> JNull | Some v \<Rightarrow> v)"
  by (simp add: jget_def)

lemma pairings_all_Some [simp]: "pairings_all (Some (JObj d)) = d"
  by (simp add: pairings_all_def)

lemma type_for_obj:
  "type_for ttl now content k = Inr (Some t) \<Longrightarrow> \<exists>e. jget (pairings_all content) k = JObj e"
  by (cases "jget (pairings_all content) k") (simp_all add: type_for_def Let_def split: if_splits)

lemma type_for_fresh:
  "type_for ttl now content k = Inr (Some t) \<longleftrightarrow>
     (\<exists>e. jget (pairings_all content) k = JObj e \<and> fresh ttl now (JObj e) \<and> jget e ''type'' = JStr t \<and> t \<noteq> [])"
proof (cases "\<exists>e. jget (pairings_all content) k = JObj e")
  case True
  then obtain e where e: "jget (pairings_all content) k = JObj e" by blast
  show ?thesis
  proof (cases "e = []")
    case False
    then show ?thesis
      by (cases "num_value (jget e ''at'')"; cases "jget e ''type''") (auto simp: type_for_def Let_def e)
  qed (simp add: type_for_def e)
next
  case False
  with type_for_obj[of ttl now content k t] show ?thesis by blast
qed

lemma map_of_filter_wf:
  "dict_wf d \<Longrightarrow> map_of (filter (\<lambda>(k, e). P e) d) k = (case map_of d k of Some e \<Rightarrow> if P e then Some e else None | None \<Rightarrow> None)"
proof (induction d)
  case (Cons p d)
  obtain k' e where p: "p = (k', e)" by fastforce
  have wf: "dict_wf d" "k' \<notin> fst ` set d" using Cons.prems by (auto simp: dict_wf_def p)
  then have "map_of d k' = None" by (simp add: map_of_eq_None_iff)
  with Cons.IH[OF wf(1)] show ?case by (auto simp: p)
qed simp

lemma type_for_cong: "jget (pairings_all a) k = jget (pairings_all b) k \<Longrightarrow> type_for ttl now a k = type_for ttl now b k"
  by (simp add: type_for_def)

lemma type_for_stale: "is_obj (jget (pairings_all content) k) \<Longrightarrow> \<not> fresh ttl now (jget (pairings_all content) k) \<Longrightarrow> type_for ttl now content k = Inr None"
  by (cases "jget (pairings_all content) k") (auto simp: type_for_def Let_def split: option.splits)

lemma type_for_absent: "jget (pairings_all content) k = JNull \<Longrightarrow> type_for ttl now content k = Inr None"
  by (simp add: type_for_def)

lemma fresh_earlier: "fresh ttl later j \<Longrightarrow> now \<le> later \<Longrightarrow> fresh ttl now j"
  by (cases j) (auto split: option.splits)

lemma pairing_recorded:
  assumes "pairing_record w key t ts content = Inr c" and "key \<noteq> []"
  shows "jget (pairings_all c) k = (if k = key then JObj [(''type'', JStr t), (''at'', ts)] else jget (pairings_all content) k)"
  using assms by (auto simp: pairing_record_def pairings_write_def jget_map_of split: if_splits)

lemma pairing_forgotten:
  assumes "pairing_forget w key content = Inr c"
  shows "jget (pairings_all c) k = (if k = key then JNull else jget (pairings_all content) k)"
  using assms by (auto simp: pairing_forget_def pairings_write_def jget_map_of split: if_splits option.splits)

lemma pairing_pruned:
  assumes "pairing_prune w ttl now content = Inr (c, n)" and wf: "dict_wf (pairings_all content)"
  shows "jget (pairings_all c) k = (if fresh ttl now (jget (pairings_all content) k) then jget (pairings_all content) k else JNull)"
    and "\<And>k e. (k, e) \<in> set (pairings_all content) \<Longrightarrow> is_obj e"
    and "n = length (filter (\<lambda>(k, e). \<not> fresh ttl now e) (pairings_all content))"
proof -
  let ?d = "pairings_all content"
  let ?keep = "filter (\<lambda>(k, e). fresh ttl now e) ?d"
  have all: "list_all (is_obj \<circ> snd) ?d" using assms(1) by (auto simp: pairing_prune_def Let_def split: if_splits)
  then show "\<And>k e. (k, e) \<in> set ?d \<Longrightarrow> is_obj e" by (force simp: list_all_iff)
  have c: "pairings_all c = ?keep"
  proof (cases "length ?keep = length ?d")
    case True
    then have "?keep = ?d" by (metis length_filter_less less_irrefl filter_True)
    with True assms(1) all show ?thesis by (simp add: pairing_prune_def Let_def)
  next
    case False
    with assms(1) all show ?thesis by (auto simp: pairing_prune_def Let_def pairings_write_def split: if_splits)
  qed
  show "jget (pairings_all c) k = (if fresh ttl now (jget ?d k) then jget ?d k else JNull)"
    by (simp add: c jget_map_of map_of_filter_wf[OF wf] split: option.split)
  have "n = length ?d - length ?keep" using assms(1) all by (auto simp: pairing_prune_def Let_def)
  moreover have "length ?keep + length (filter (\<lambda>x. \<not> (case x of (k, e) \<Rightarrow> fresh ttl now e)) ?d) = length ?d"
    by (rule filter_partition_mset_length)
  moreover have "(\<lambda>x. \<not> (case x of (k, e) \<Rightarrow> fresh ttl now e)) = (\<lambda>(k :: string, e). \<not> fresh ttl now e)" by (auto simp: fun_eq_iff)
  ultimately show "n = length (filter (\<lambda>(k, e). \<not> fresh ttl now e) ?d)" by simp
qed

text \<open>C20: what a pairing answers depends on nothing but the last record for its key and the time. After
  recording a type for a key, that key answers the type exactly until the pairing is older than its time
  to live and every other key answers as before; after forgetting, the key answers nothing; and pruning
  cannot be seen: from then on every key answers what it would have answered without it.\<close>

theorem pairing_life:
  assumes "dict_wf (pairings_all content)"
  shows "(pairing_record w key t ts content = Inr c1 \<and> key \<noteq> [] \<and> t \<noteq> [] \<and> num_value ts = Some at_time \<longrightarrow>
      type_for ttl now c1 k = (if k = key then Inr (if now - at_time \<le> ttl then Some t else None) else type_for ttl now content k)) \<and>
    (pairing_forget w key content = Inr c2 \<longrightarrow> type_for ttl now c2 k = (if k = key then Inr None else type_for ttl now content k)) \<and>
    (pairing_prune w ttl now content = Inr (c3, n) \<and> now \<le> later \<longrightarrow>
      type_for ttl later c3 k = type_for ttl later content k \<and> dict_wf (pairings_all c3) \<and> n + length (pairings_all c3) = length (pairings_all content))"
proof (intro conjI impI; (elim conjE)?)
  assume r: "pairing_record w key t ts content = Inr c1" "key \<noteq> []" "t \<noteq> []" "num_value ts = Some at_time"
  note j = pairing_recorded[OF r(1,2), of k]
  show "type_for ttl now c1 k = (if k = key then Inr (if now - at_time \<le> ttl then Some t else None) else type_for ttl now content k)"
  proof (cases "k = key")
    case True
    with j r(3,4) show ?thesis by (auto simp: type_for_def)
  next
    case False
    with type_for_cong[of c1 k content ttl now] j show ?thesis by simp
  qed
next
  assume f: "pairing_forget w key content = Inr c2"
  show "type_for ttl now c2 k = (if k = key then Inr None else type_for ttl now content k)"
    using pairing_forgotten[OF f, of k] type_for_absent[of c2 k ttl now] type_for_cong[of c2 k content ttl now] by (cases "k = key") simp_all
next
  assume p: "pairing_prune w ttl now content = Inr (c3, n)" and l: "now \<le> later"
  note q = pairing_pruned[OF p assms]
  show "type_for ttl later c3 k = type_for ttl later content k"
  proof (cases "fresh ttl now (jget (pairings_all content) k)")
    case True
    with q(1)[of k] type_for_cong[of c3 k content ttl later] show ?thesis by simp
  next
    case False
    with fresh_earlier[OF _ l] have st: "\<not> fresh ttl later (jget (pairings_all content) k)" by blast
    have "type_for ttl later content k = Inr None"
    proof (cases "map_of (pairings_all content) k")
      case None
      then show ?thesis by (intro type_for_absent) (simp add: jget_map_of)
    next
      case (Some e)
      with q(2)[OF map_of_SomeD[OF Some]] st show ?thesis by (intro type_for_stale) (simp_all add: jget_map_of)
    qed
    moreover have "type_for ttl later c3 k = Inr None" using q(1)[of k] False by (intro type_for_absent) simp
    ultimately show ?thesis by simp
  qed
next
  assume p: "pairing_prune w ttl now content = Inr (c3, n)" and l: "now \<le> later"
  let ?keep = "filter (\<lambda>(k, e). fresh ttl now e) (pairings_all content)"
  from p have c: "c3 = content \<and> length ?keep = length (pairings_all content) \<or> pairings_all c3 = ?keep" "n = length (pairings_all content) - length ?keep"
    by (auto simp: pairing_prune_def Let_def pairings_write_def split: if_splits)
  show "dict_wf (pairings_all c3)" using c(1) assms by (auto simp: dict_wf_def distinct_map_filter)
  have "length ?keep \<le> length (pairings_all content)" by simp
  then show "n + length (pairings_all c3) = length (pairings_all content)" using c by auto
qed

theorem pairing_life_witness:
  "type_for PAIRING_TTL 86400 (Some (JObj [(''A1'', JObj [(''type'', JStr ''ebb''), (''at'', JInt 0)])])) ''A1'' = Inr (Some ''ebb'') \<and>
   type_for PAIRING_TTL 86401 (Some (JObj [(''A1'', JObj [(''type'', JStr ''ebb''), (''at'', JInt 0)])])) ''A1'' = Inr None"
proof -
  have w: "dict_wf (pairings_all None)" by (simp add: pairings_all_def)
  have r: "pairing_record True ''A1'' ''ebb'' (JInt 0) None = Inr (Some (JObj [(''A1'', JObj [(''type'', JStr ''ebb''), (''at'', JInt 0)])]))"
    by (simp add: pairing_record_def pairings_write_def pairings_all_def)
  note l = pairing_life[OF w, THEN conjunct1, rule_format, OF conjI[OF r]]
  show ?thesis
    using l[of 0 PAIRING_TTL 86400 "''A1''"] l[of 0 PAIRING_TTL 86401 "''A1''"] by (simp add: PAIRING_TTL_def)
qed

subsection \<open>What adoption may touch\<close>

definition claims_key :: "string \<Rightarrow> bus_device \<Rightarrow> bool" where
  "claims_key key d = (key \<in> set (candidate_keys (bd_serial d)))"

lemma key_count_Cons: "key_count (d # ds) key = count_list (candidate_keys (bd_serial d)) key + key_count ds key"
  by (simp add: key_count_def)

lemma claimants_count: "length (filter (claims_key key) ds) \<le> key_count ds key"
proof (induction ds)
  case (Cons d ds)
  have "claims_key key d \<Longrightarrow> 1 \<le> count_list (candidate_keys (bd_serial d)) key"
    using count_notin[of key "candidate_keys (bd_serial d)"] count_list_0_iff[of "candidate_keys (bd_serial d)" key]
    by (auto simp: claims_key_def Suc_le_eq)
  with Cons.IH show ?case by (auto simp: key_count_Cons)
qed simp

lemma sole_claimant:
  assumes "key_count ds key = 1" and "d \<in> set ds" and "claims_key key d"
  shows "filter (claims_key key) ds = [d]"
proof -
  have i: "d \<in> set (filter (claims_key key) ds)" using assms(2,3) by simp
  moreover have "length (filter (claims_key key) ds) \<le> 1" using claimants_count[of key ds] assms(1) by simp
  ultimately show ?thesis by (cases "filter (claims_key key) ds") auto
qed

lemma adopt_key_found:
  "adopt_key seen time ttl content ks = Inr (Some (t, k)) \<Longrightarrow> k \<in> set ks \<and> seen k = 1 \<and> type_for ttl (time k) content k = Inr (Some t)"
  by (induction ks) (auto split: if_splits option.splits)

text \<open>One pass through the registry's lock to track a board of \<open>ds\<close> under a type of \<open>names\<close>: the lock and file it met, and
  those it left. A refused one leaves the file as it was.\<close>

definition adopt_try :: "adopt_env \<Rightarrow> string \<Rightarrow> string \<Rightarrow> lock_file \<times> string option \<Rightarrow> (lock_file \<times> string option) \<times> (registry_error + bool)" where
  "adopt_try env t serial f =
     locked_mutate (ae_party env) (ae_pid env) (''adopt '' @ serial @ '' as '' @ t) (ae_stamp env) (\<lambda>rg. add_serial rg t serial) f"

definition adopt_steps :: "adopt_env \<Rightarrow> string list \<Rightarrow> bus_device list \<Rightarrow> ((lock_file \<times> string option) \<times> lock_file \<times> string option) set" where
  "adopt_steps env names ds = {(f, f'). \<exists>t \<in> set names. \<exists>d \<in> set ds. fst (adopt_try env t (bd_serial d) f) = f'}"

text \<open>What stands behind one adoption out of \<open>ds\<close>, when the store read \<open>content\<close>.\<close>

definition adoption_due :: "adopt_env \<Rightarrow> rat \<Rightarrow> bus_device list \<Rightarrow> string list \<Rightarrow> json option \<Rightarrow> adopted \<Rightarrow> bool" where
  "adoption_due env ttl untracked names content a =
     (\<exists>d. filter (claims_key (ad_key a)) untracked = [d] \<and> bd_serial d = ad_serial a \<and> ad_type a \<in> set names \<and>
        type_for ttl (ae_time env d (ad_key a)) content (ad_key a) = Inr (Some (ad_type a)))"

text \<open>The registry file passes through the adoption: it is reached by such passes, the one that tracks the board succeeds, and
  what is left is reached from there.\<close>

definition adopted_between ::
  "adopt_env \<Rightarrow> string list \<Rightarrow> bus_device list \<Rightarrow> lock_file \<times> string option \<Rightarrow> lock_file \<times> string option \<Rightarrow> adopted \<Rightarrow> bool" where
  "adopted_between env names ds f0 f1 a =
     (\<exists>f f'. (f0, f) \<in> (adopt_steps env names ds)\<^sup>* \<and> adopt_try env (ad_type a) (ad_serial a) f = (f', Inr True) \<and>
        (f', f1) \<in> (adopt_steps env names ds)\<^sup>*)"

lemma adopted_before: "(f0, f) \<in> (adopt_steps env names ds)\<^sup>* \<Longrightarrow> adopted_between env names ds f f1 a \<Longrightarrow> adopted_between env names ds f0 f1 a"
  unfolding adopted_between_def by (meson rtrancl_trans)

lemma adopt_devices_steps:
  assumes "adopt_devices env ttl seen names ds s = (Inr got, s')" and "set ds \<subseteq> set us"
  shows "(fst s, fst s') \<in> (adopt_steps env names us)\<^sup>* \<and> (\<forall>a \<in> set got. adopted_between env names us (fst s) (fst s') a)"
  using assms
proof (induction ds arbitrary: s got s')
  case (Cons d ds)
  have skip: ?case if "adopt_devices env ttl seen names ds (f, snd s) = (Inr got, s')" "(fst s, f) \<in> (adopt_steps env names us)\<^sup>*" for f
    using Cons.IH[OF that(1)] Cons.prems(2) that(2) by (auto intro: adopted_before rtrancl_trans)
  show ?case
  proof (cases "adopt_key seen (ae_time env d) ttl (snd s) (candidate_keys (bd_serial d))")
    case (Inl e)
    with Cons.prems show ?thesis by simp
  next
    case (Inr r)
    show ?thesis
    proof (cases r)
      case None
      with Cons.prems Inr skip[of "fst s"] show ?thesis by simp
    next
      case (Some p)
      obtain t key where p: "p = (t, key)" by fastforce
      obtain f x where m: "adopt_try env t (bd_serial d) (fst s) = (f, x)" by fastforce
      have st: "(fst s, f) \<in> adopt_steps env names us" if "t \<in> set names"
        using that m Cons.prems(2) by (force simp: adopt_steps_def)
      show ?thesis
      proof (cases "t \<in> set names \<and> x = Inr True")
        case False
        then show ?thesis
          using Cons.prems Inr Some p m[unfolded adopt_try_def] skip[of "fst s"] skip[of f] st
          by (auto split: if_splits sum.splits registry_error.splits bool.splits)
      next
        case True
        with Cons.prems Inr Some p m[unfolded adopt_try_def] obtain c got' where
          c: "adopt_devices env ttl seen names ds (f, c) = (Inr got', s')" "got = \<lparr>ad_type = t, ad_serial = bd_serial d, ad_key = key\<rparr> # got'"
          by (auto split: sum.splits prod.splits)
        from Cons.IH[OF c(1)] Cons.prems(2) have ih: "(f, fst s') \<in> (adopt_steps env names us)\<^sup>*"
          "\<forall>a \<in> set got'. adopted_between env names us f (fst s') a" by simp_all
        have fs: "(fst s, f) \<in> (adopt_steps env names us)\<^sup>*" using st True by blast
        have here: "adopted_between env names us (fst s) (fst s') \<lparr>ad_type = t, ad_serial = bd_serial d, ad_key = key\<rparr>"
          unfolding adopted_between_def using m True ih(1) by (intro exI[of _ "fst s"] exI[of _ f]) simp
        show ?thesis using here ih fs c(2) by (auto intro: adopted_before rtrancl_trans)
      qed
    qed
  qed
qed simp

lemma adoption_due_cong:
  "adoption_due env ttl us names c a \<Longrightarrow> jget (pairings_all c) (ad_key a) = jget (pairings_all c') (ad_key a) \<Longrightarrow> adoption_due env ttl us names c' a"
  using type_for_cong[of c "ad_key a" c'] unfolding adoption_due_def by metis

lemma adoption_due_present: "adoption_due env ttl us names c a \<Longrightarrow> jget (pairings_all c) (ad_key a) \<noteq> JNull"
  by (auto simp: adoption_due_def type_for_fresh)

lemma adopt_devices_sound:
  assumes "adopt_devices env ttl (key_count (pre @ ds)) names ds s = (Inr got, s')"
  shows "(\<forall>a \<in> set got. adoption_due env ttl (pre @ ds) names (snd s) a \<and> jget (pairings_all (snd s')) (ad_key a) = JNull \<and> ad_serial a \<in> bd_serial ` set ds) \<and>
     (\<forall>k. jget (pairings_all (snd s')) k \<in> {jget (pairings_all (snd s)) k, JNull}) \<and> distinct (map ad_key got) \<and> distinct (map ad_serial got)"
  using assms
proof (induction ds arbitrary: pre s got s')
  case (Cons d ds)
  let ?us = "pre @ d # ds"
  let ?n = "key_count ?us"
  have us: "(pre @ [d]) @ ds = ?us" by simp
  have skip: ?case if "adopt_devices env ttl ?n names ds (f, snd s) = (Inr got, s')" for f
    using Cons.IH[of "pre @ [d]" "(f, snd s)" got s'] that unfolding us by auto
  show ?case
  proof (cases "adopt_key ?n (ae_time env d) ttl (snd s) (candidate_keys (bd_serial d))")
    case (Inl e)
    with Cons.prems show ?thesis by simp
  next
    case (Inr r)
    show ?thesis
    proof (cases r)
      case None
      with Cons.prems Inr skip[of "fst s"] show ?thesis by simp
    next
      case (Some p)
      obtain t key where p: "p = (t, key)" by fastforce
      note k = adopt_key_found[OF Inr[unfolded Some p]]
      obtain f x where m: "locked_mutate (ae_party env) (ae_pid env) (''adopt '' @ bd_serial d @ '' as '' @ t) (ae_stamp env)
          (\<lambda>rg. add_serial rg t (bd_serial d)) (fst s) = (f, x)" by fastforce
      show ?thesis
      proof (cases "t \<in> set names \<and> x = Inr True")
        case False
        then show ?thesis
          using Cons.prems Inr Some p m skip[of "fst s"] skip[of f]
          by (auto split: if_splits sum.splits registry_error.splits bool.splits)
      next
        case True
        with Cons.prems Inr Some p m obtain c got' where c: "pairing_forget (ae_write env) key (snd s) = Inr c"
          "adopt_devices env ttl ?n names ds (f, c) = (Inr got', s')" "got = \<lparr>ad_type = t, ad_serial = bd_serial d, ad_key = key\<rparr> # got'"
          by (auto split: sum.splits prod.splits)
        note fg = pairing_forgotten[OF c(1)]
        have ih: "\<forall>a \<in> set got'. adoption_due env ttl ?us names c a \<and> jget (pairings_all (snd s')) (ad_key a) = JNull \<and> ad_serial a \<in> bd_serial ` set ds"
          "\<forall>k. jget (pairings_all (snd s')) k \<in> {jget (pairings_all c) k, JNull}" "distinct (map ad_key got')" "distinct (map ad_serial got')"
          using Cons.IH[of "pre @ [d]" "(f, c)" got' s'] c(2) unfolding us by simp_all
        have other: "ad_key a \<noteq> key" if "a \<in> set got'" for a
          using adoption_due_present[of env ttl ?us names c a] ih(1) that fg[of key] by auto
        have sole: "filter (claims_key key) ?us = [d]"
          by (rule sole_claimant) (use k in \<open>simp_all add: claims_key_def\<close>)
        have later: "adoption_due env ttl ?us names (snd s) a" if "a \<in> set got'" for a
          by (rule adoption_due_cong[of _ _ _ _ c]) (use ih(1) that fg[of "ad_key a"] other[OF that] in simp_all)
        have here: "adoption_due env ttl ?us names (snd s) \<lparr>ad_type = t, ad_serial = bd_serial d, ad_key = key\<rparr>"
          unfolding adoption_due_def
          by (rule exI[of _ d]) (use sole True k in simp)
        have fresh_serial: "bd_serial d \<notin> ad_serial ` set got'"
        proof
          assume "bd_serial d \<in> ad_serial ` set got'"
          then obtain d' where d': "d' \<in> set ds" "bd_serial d' = bd_serial d" using ih(1) by force
          have cd: "claims_key key d" using k by (simp add: claims_key_def)
          then have "claims_key key d'" using d'(2) by (simp add: claims_key_def)
          then have "filter (claims_key key) ds \<noteq> []" using d'(1) by (auto simp: filter_empty_conv)
          with sole cd show False by (cases "filter (claims_key key) pre") auto
        qed
        show ?thesis
        proof (intro conjI)
          show "\<forall>a \<in> set got. adoption_due env ttl ?us names (snd s) a \<and> jget (pairings_all (snd s')) (ad_key a) = JNull \<and> ad_serial a \<in> bd_serial ` set (d # ds)"
            unfolding c(3) using here later ih(1) ih(2)[rule_format, of key] fg[of key] by auto
          show "\<forall>k. jget (pairings_all (snd s')) k \<in> {jget (pairings_all (snd s)) k, JNull}"
            using ih(2) fg by (metis insert_iff singleton_iff)
          show "distinct (map ad_key got)" unfolding c(3) using ih(3) other by auto
          show "distinct (map ad_serial got)" unfolding c(3) using ih(4) fresh_serial by auto
        qed
      qed
    qed
  qed
qed simp

lemma pairing_forget_wf: "pairing_forget w key content = Inr c \<Longrightarrow> dict_wf (pairings_all content) \<Longrightarrow> dict_wf (pairings_all c)"
  by (auto simp: pairing_forget_def pairings_write_def split: if_splits)

lemma adopt_devices_wf:
  "adopt_devices env ttl seen names ds s = (Inr got, s') \<Longrightarrow> dict_wf (pairings_all (snd s)) \<Longrightarrow> dict_wf (pairings_all (snd s'))"
proof (induction ds arbitrary: s got s')
  case (Cons d ds)
  obtain a b c where s': "s' = ((a, b), c)" by (metis prod.collapse)
  have ih: "adopt_devices env ttl seen names ds ((x, y), z) = (Inr g, ((a, b), c)) \<Longrightarrow> dict_wf (pairings_all z) \<Longrightarrow> dict_wf (pairings_all c)" for x y z g
    using Cons.IH[of "((x, y), z)" g s'] by (simp add: s')
  have ih': "adopt_devices env ttl seen names ds s = (Inr g, ((a, b), c)) \<Longrightarrow> dict_wf (pairings_all c)" for g
    using Cons.IH[of s g s'] Cons.prems(2) by (simp add: s')
  from Cons.prems have "dict_wf (pairings_all c)" unfolding s'
    by (auto dest: ih ih' pairing_forget_wf split: if_splits sum.splits option.splits prod.splits registry_error.splits bool.splits)
  then show ?case by (simp add: s')
qed simp


subsection \<open>Two boards\<close>

definition demo_lines :: "string list" where
  "demo_lines = [''[firmware esp]'', ''builder: cmake'', ''flashers: flashtool'', ''[firmware klipper]'', ''flashers: flashtool'', ''[type knob]'', ''firmware: esp'', ''chipset: esp32'', ''serials: X1'',
     ''[type ebb]'', ''chipset: rp2040'', ''serials: A1'', ''firmware: klipper'']"

definition demo_adopt_env :: adopt_env where
  "demo_adopt_env = \<lparr>ae_party = 1, ae_pid = 7, ae_stamp = JNull, ae_time = (\<lambda>_ _. 60), ae_end = 61, ae_write = True\<rparr>"

definition demo_device :: "string \<Rightarrow> bus_device" where
  "demo_device s = \<lparr>bd_fw = ''katapult'', bd_chipset = ''rp2040'', bd_serial = s, bd_path = ''/dev/'' @ s\<rparr>"

definition demo_pairs :: "(string \<times> json) list" where
  "demo_pairs = [(''B2'', JObj [(''type'', JStr ''ebb''), (''at'', JInt 0)]), (''X1'', JObj [(''type'', JStr ''ebb''), (''at'', JInt 0)])]"

definition demo_adoption :: "string \<Rightarrow> (adopt_error + adopted list) \<times> adopt_state" where
  "demo_adoption serial =
     adopt_paired demo_adopt_env (\<lambda>_. None) [demo_device ''A1'', demo_device serial]
       ((\<lparr>lf_owner = None, lf_text = None\<rparr>, Some (join [CHR 0x0A] demo_lines)), Some (JObj demo_pairs))"

lemma demo_adopts: "fst (demo_adoption ''B2'') = Inr [\<lparr>ad_type = ''ebb'', ad_serial = ''B2'', ad_key = ''B2''\<rparr>]"
  by code_simp


text \<open>Only the serials of kconfig types are asked for, so a board another builder's type tracks is adopted a second time.\<close>

lemma adopts_a_tracked_board:
  "fst (demo_adoption ''X1'') = Inr [\<lparr>ad_type = ''ebb'', ad_serial = ''X1'', ad_key = ''X1''\<rparr>]"
  "declared_under (parse_doc (join [CHR 0x0A] demo_lines)) ''knob'' ''X1''"
proof -
  show "fst (demo_adoption ''X1'') = Inr [\<lparr>ad_type = ''ebb'', ad_serial = ''X1'', ad_key = ''X1''\<rparr>]" by code_simp
  have "(''knob'', ''type knob'') \<in> set (type_sections (parse_doc (join [CHR 0x0A] demo_lines))) \<and>
      ''X1'' \<in> set (get_list (parse_doc (join [CHR 0x0A] demo_lines)) ''type knob'' ''serials'')" by code_simp
  then show "declared_under (parse_doc (join [CHR 0x0A] demo_lines)) ''knob'' ''X1''" unfolding declared_under_def by blast
qed

end
