(* ===== verification/Spec2Isabelle.thy ===== *)
theory Spec2Isabelle
  imports Verdict Batch Jobs FirstFlash Tracking Snapshot SettingsFile Rpc Events Building AgentServe Pairing
begin

text \<open>
  \<^bold>\<open>mcu-updater: a model of the program and its correctness\<close>

  The program builds and flashes the firmware of the boards around a 3D printer. A status pass
  compares what each board reports with what was built (\<open>verdict.py\<close>) and says so in two small
  vocabularies (\<open>states.py\<close>); a flash picks, per device, the first configured flasher that can
  write it (\<open>flashers/registry.py\<close>), stops the services that hold the port (\<open>service.py\<close>), writes
  the batch (\<open>flashers/batch.py\<close>) and files what it wrote; long operations run one at a time in a
  job runner (\<open>jobs.py\<close>) under a file lock shared with the command line (\<open>lock.py\<close>); and
  everything that is configured lives in one hand-edited file that is edited in place
  (\<open>cfgdoc.py\<close>). All paths below are under \<open>src/src/mcu_updater/\<close>.

  \<^bold>\<open>Theories\<close>

  \<^item> \<open>Prelude\<close>, \<open>PyStr\<close>: results that can fail (\<open>error + 'a\<close>), Python dictionaries as association
    lists, Python strings (code points below 256), lines, and JSON values.
  \<^item> \<open>States\<close> (\<open>states.py\<close>), \<open>Artifacts\<close> (\<open>artifacts.py\<close>), \<open>Verdict\<close> (\<open>verdict.py\<close>,
    \<open>device_info.py\<close>): the status vocabularies, staged artifacts and their sidecars, and \<open>decide\<close>.
  \<^item> \<open>Uf2\<close> (\<open>uf2.py\<close>), \<open>Uf2Erase\<close> (\<open>uf2_erase.py\<close>): container extraction, the digest of an image,
    and the container that also blanks a sector, byte for byte.
  \<^item> \<open>Services\<close> (\<open>service.py\<close>): controllers, the journal, \<open>services_stopped\<close>, \<open>reconcile\<close> and the
    idle check, over a world of parameters (systemctl, Moonraker, clock and sleep).
  \<^item> \<open>Families\<close> (\<open>firmware.py\<close>, \<open>config.py\<close>, \<open>stop_services.py\<close>): families, Makefile patches, board
    types, type names and the services a write stops.
  \<^item> \<open>Selection\<close> (\<open>flashers/registry.py\<close>, \<open>flashers/spec.py\<close>, the four flashers' \<open>supports\<close> and
    \<open>target\<close>): which flasher writes which device, why none does, and first installs.
  \<^item> \<open>Batch\<close> (\<open>flashers/batch.py\<close>): grouping by stop set, writing, filing and settling.
  \<^item> \<open>LockFile\<close> (\<open>lock.py\<close>): the lock as single steps and as interleaved system calls.
  \<^item> \<open>Jobs\<close> (\<open>jobs.py\<close>): the log ring and the one-slot runner as a step relation.
  \<^item> \<open>CfgDoc\<close> (\<open>cfgdoc.py\<close>): the document, its parse and its edits; \<open>CfgTree\<close> is the reference
    reading it refines, \<open>CfgEdits\<close> what the edits do, \<open>CfgStore\<close> the same as laws of an option store.
  \<^item> \<open>TypeList\<close> (\<open>typelist.py\<close>, \<open>sections.py\<close>), \<open>Registry\<close> (\<open>config.py\<close>): families and types read from the
    document, load, validate, save, mutate, lookups and changes. \<open>RegValues\<close>, \<open>RegRead\<close>,
    \<open>RegistryLoad\<close> and \<open>RegistrySave\<close> prove what reading and writing do, \<open>RegClaims\<close> states it.
  \<^item> \<open>Tracking\<close> (\<open>tracking.py\<close>, \<open>provisioning.py\<close>): tracking a serial, provisioning it first if need be.
  \<^item> \<open>Snapshot\<close> (\<open>cfgsnapshot.py\<close>): the cache of parsed documents. \<open>SettingsFile\<close> (\<open>settings.py\<close>): the
    settings read and written.
  \<^item> \<open>Provenance\<close>, \<open>Building\<close> (\<open>build.py\<close>): sidecars, artifact status, the flash ledger and the head
    cache; a build with its Makefile patches, staging and cleanup.
  \<^item> \<open>Rpc\<close> (\<open>agent/rpc.py\<close>): framing, requests, and calls in flight as a step relation. \<open>Events\<close>
    (\<open>agent/events.py\<close>): log batching, the state worker and the bus watcher.
  \<^item> \<open>AgentApi\<close> (\<open>agent/methods/status.py\<close>): which methods are offered and served, identity writes, reading a
    job. \<open>AgentSettings\<close>, \<open>AgentEdits\<close> (\<open>agent/methods/registry.py\<close>): changing settings, types and
    boards. \<open>AgentServe\<close>: a life of requests over one configuration file, which every request reads its settings
    from. \<open>Pairing\<close> (\<open>flashers/pairings.py\<close>, \<open>agent/methods/flash.py\<close>): late adoption.
  \<^item> \<open>Locations\<close> (\<open>paths.py\<close>), \<open>Process\<close> (\<open>build.py\<close>: running a program), \<open>Answers\<close>
    (\<open>profiles.py\<close>: the answers of a \<open>.config\<close>).
  \<^item> \<open>Discovery\<close> (\<open>discovery/\<close>): by-id names, DFU identities, sightings and confidence;
    \<open>BootselBus\<close> (\<open>discovery/bootsel.py\<close>): which mounted volume belongs to which USB port.
  \<^item> \<open>Katapult\<close>, \<open>FirstFlash\<close> (\<open>flashers/flash.py\<close>), \<open>BootselWrite\<close> (\<open>flashers/bootsel.py\<close>): the
    writes themselves, over flashtool, DFU and BOOTSEL. \<open>Polling\<close> is the one lemma on waiting loops.

  \<^bold>\<open>How the state corresponds\<close>

  A Python object that is mutated is a record that is returned updated; an exception is the left
  side of a sum; a context manager takes its block as a function (\<open>services_stopped\<close>); a generator
  or a thread is a step relation. What the operating system, another process or a third-party
  program does is a field of a parameter record (\<open>host\<close>, \<open>bench_ops\<close>), and what the code relies on
  there is a named hypothesis (\<open>clock_runs\<close>: a sleep of half a second moves the monotonic clock by
  that much; \<open>told_apart\<close>: two versions of a file whose stat keys agree within the racy window hold the same
  text).

  \<^bold>\<open>Interfaces\<close>

  \<open>unit_control\<close> (what stopping and starting a unit must do, interpreted on the null controller),
  \<open>service_block\<close> (what a stop block guarantees, interpreted on \<open>services_stopped\<close>) and
  \<open>exclusive_lock\<close> (what a lock guarantees, interpreted on the lock file and used by the runner), and
  \<open>option_store\<close> (what reading after setting or removing an option gives, interpreted on documents and used by
  the registry and the settings).

  \<^bold>\<open>What the lemmas show\<close>

  The properties are numbered C1, C2, ... in the order of their importance; each stands after a
  text block with its number. They say, for the verdict, that it claims up to date only on
  positive evidence and behind only on a contradiction; for the services, that a write runs only
  with every stopped unit seen down, that all come back in reverse order, also after a crash; for
  the containers, that extraction and erasing are what flashing them would do; for selection and
  batch, that the first usable flasher is taken, that every target is accounted for once and that
  the ledger is filed between the write and the settling; for lock and runner, mutual exclusion
  under every interleaving, and that a job always comes to an end and stays ended; for the
  document, that an edit changes what it names and nothing else and survives a save and a reload.
  For the registry and the settings, that what was saved is what is loaded, that the rest of the file
  is kept and that one board has one type; for builds, that a finished one is current and that the Makefiles
  come back; for the agent, that messages survive any cut of the stream, that every request is answered
  once and every call can return, that only what is advertised is served, that no board is written by
  a modelled or withheld method where flashing is off at that moment, and that every change from the panel is
  the one that was asked for or none at all; for pairings, what an adoption rests on.

  Lemmas outside the numbered ones show where the code falls short of its documentation, each on a concrete
  input: \<open>idle_block_clears_journal\<close>, \<open>dry_run_reconcile_drops_journal\<close>, \<open>render_drops_comments\<close>,
  \<open>cancel_can_hit_the_next_job\<close>, \<open>save_drops_other_family_keys\<close>, \<open>settings_dashed_key_stays\<close>,
  \<open>snapshot_backdated_stale\<close>, \<open>unencodable_result_unanswered\<close>, \<open>repeated_target_keeps_first_line\<close>,
  \<open>colour_line_feed\<close>, \<open>raising_build_drops_a_poke\<close>, \<open>removes_a_tracked_uuid\<close> and \<open>adopts_a_tracked_board\<close>.

  \<^bold>\<open>Bounds and fuel\<close>

  There is no fuel: loops are structural recursions over lists, \<open>uf2_blocks\<close> and \<open>offsets\<close> run over
  the list of block offsets, and the one loop that may not end, waiting for a unit to go down, is
  the \<open>partial_function\<close> \<open>await_down\<close>, whose return is a theorem under \<open>clock_runs\<close>.

  \<^bold>\<open>Not modelled\<close>

  The programs the flashers run, bus scans, sockets and the terminal interface are input and output
  (\<open>cli.py\<close>, \<open>tui.py\<close>, \<open>discovery/canbus.py\<close>, \<open>discovery/roadrunner.py\<close>, \<open>discovery/knomi_serial/\<close>). The
  providers (\<open>providers/\<close>) drive kconfiglib, cmake and PlatformIO, which are not part of this repository. Of
  the agent, the rows of the status pass, the scans and the bodies of the flash, build, bulk and
  profile jobs are not modelled; of \<open>profiles.py\<close>, only the answers are. \<open>seed.py\<close> and \<open>extras.py\<close> copy
  shipped files. Requests are served one after another, and the agent's answer to one whose connection fails
  while it is sent, or that arrives while the pool shuts down under it, is left out. The helpers of single vendors talk to their hardware and appear as parameters.
\<close>

end
